(* ===== verification/Prelude.thy ===== *)
theory Prelude
  imports Main "HOL-Library.Word"
begin

text \<open>
  Shared vocabulary of the development: results of fallible operations, 64-bit Go integers as
  words, and the generic facts on words and lists that the component theories use.

  Go's \<open>int\<close> and \<open>int64\<close> are both 64-bit two's complement on the platforms the program supports.
  A quantity that may wrap is an \<open>i64\<close> (\<open>64 word\<close>, read with \<open>sint\<close> when signed and with \<open>uint\<close>
  when the code converts it to \<open>uint64\<close>); a quantity that is an index or a length is a \<open>nat\<close>.
\<close>

unbundle bit_operations_syntax

subsection \<open>Results and errors\<close>

text \<open>
  A Lua error (raised by \<open>errorf\<close>, \<open>runtimeError\<close> or \<open>argError\<close>) carries its message; an argument
  error also carries the argument's number. \<open>GoPanic\<close> is a Go run-time panic (an index or slice
  expression out of range), which \<open>pcall\<close> in ldo.go passes on to the host instead of catching. The
  compiler's \<open>CompileError\<close> carries its message and a line.
\<close>

datatype go_error =
    LuaError string
  | ArgError nat string
  | CompileError string nat
  | GoPanic

type_synonym 'a res = "go_error + 'a"

definition rbind :: "'a res \<Rightarrow> ('a \<Rightarrow> 'b res) \<Rightarrow> 'b res" where
  "rbind r f = (case r of Inl e \<Rightarrow> Inl e | Inr x \<Rightarrow> f x)"

lemma rbind_simps [simp]:
  "rbind (Inl e) f = Inl e"
  "rbind (Inr x) f = f x"
  by (simp_all add: rbind_def)

lemma rbind_Inr_conv: "rbind r f = Inr y \<longleftrightarrow> (\<exists>x. r = Inr x \<and> f x = Inr y)"
  by (cases r) simp_all

lemma rbind_InrE [elim]:
  assumes "rbind r f = Inr y"
  obtains x where "r = Inr x" and "f x = Inr y"
  using assms by (auto simp: rbind_Inr_conv)

lemma rbind_cong [fundef_cong]:
  "r = r' \<Longrightarrow> (\<And>x. r' = Inr x \<Longrightarrow> f x = g x) \<Longrightarrow> rbind r f = rbind r' g"
  by (cases r') simp_all

text \<open>
  Postconditions of results: \<open>rok Q r\<close> says that \<open>r\<close> is not a Go panic and that a value satisfies \<open>Q\<close>;
  \<open>rtot Q r\<close> says that \<open>r\<close> is a value and satisfies \<open>Q\<close>. Both distribute over \<open>rbind\<close>.
\<close>

definition rok :: "('a \<Rightarrow> bool) \<Rightarrow> 'a res \<Rightarrow> bool" where
  "rok Q r = (case r of Inl e \<Rightarrow> e \<noteq> GoPanic | Inr x \<Rightarrow> Q x)"

definition rtot :: "('a \<Rightarrow> bool) \<Rightarrow> 'a res \<Rightarrow> bool" where
  "rtot Q r = (case r of Inl e \<Rightarrow> False | Inr x \<Rightarrow> Q x)"

lemma rok_simps [simp]:
  "rok Q (Inr x) = Q x" "rok Q (Inl e) = (e \<noteq> GoPanic)" "rok Q (rbind r f) = rok (\<lambda>x. rok Q (f x)) r"
  by (simp_all add: rok_def rbind_def split: sum.splits)

lemma rtot_simps [simp]:
  "rtot Q (Inr x) = Q x" "rtot Q (Inl e) = False" "rtot Q (rbind r f) = rtot (\<lambda>x. rtot Q (f x)) r"
  by (simp_all add: rtot_def rbind_def split: sum.splits)

lemma rok_mono: "rok Q r \<Longrightarrow> (\<And>x. r = Inr x \<Longrightarrow> Q x \<Longrightarrow> R x) \<Longrightarrow> rok R r"
  by (cases r) auto

lemma rtot_mono: "rtot Q r \<Longrightarrow> (\<And>x. r = Inr x \<Longrightarrow> Q x \<Longrightarrow> R x) \<Longrightarrow> rtot R r"
  by (cases r) auto

lemma rtot_iff: "rtot Q r \<longleftrightarrow> (\<exists>x. r = Inr x \<and> Q x)"
  by (cases r) auto

subsection \<open>Machine integers\<close>

type_synonym byte = "8 word"
type_synonym i64 = "64 word"

abbreviation max_int64 :: int where "max_int64 \<equiv> 2 ^ 63 - 1"
abbreviation min_int64 :: int where "min_int64 \<equiv> - (2 ^ 63)"

named_theorems word_conv \<open>readings of words as integers\<close>

lemma sint_i64_range: "min_int64 \<le> sint (x :: i64)" "sint (x :: i64) \<le> max_int64"
  using sint_range_size [of x] by (auto simp: word_size)

lemma sint_of_int_id:
  assumes "min_int64 \<le> i" and "i \<le> max_int64"
  shows "sint (word_of_int i :: i64) = i"
  using assms by (simp add: sint_sbintrunc' signed_take_bit_int_eq_self)

lemma uint_of_int_id:
  assumes "0 \<le> i" and "i < 2 ^ 64"
  shows "uint (word_of_int i :: i64) = i"
  using assms by (simp add: uint_word_of_int)

lemma even_drop_bit_iff: "even (drop_bit n a) \<longleftrightarrow> \<not> bit (a :: 'a :: semiring_bit_operations) n"
  by (simp add: bit_iff_odd_drop_bit)

lemma sint_inject_i64: "sint (x :: i64) = sint y \<longleftrightarrow> x = y"
  by (auto intro: signed_word_eqI)

end
