(* ===== verification/Opcodes.thy ===== *)
theory Opcodes
  imports Prelude
begin

text \<open>
  The 32-bit instruction encoding of lopcodes.go: field sizes and positions, the argument
  accessors and setters, the instruction creators, the opcode set and the opcode property table.
  An instruction is a \<open>32 word\<close>, as Go's \<open>Instruction uint32\<close>; arguments are Go \<open>int\<close>s.
\<close>

type_synonym Instruction = "32 word"

datatype OpMode = IABC | IABx | IAsBx | IAx | IsJ

subsection \<open>Field sizes, positions and limits\<close>

definition SizeC :: nat where "SizeC = 8"
definition SizeB :: nat where "SizeB = 8"
definition SizeBx :: nat where "SizeBx = SizeC + SizeB + 1"
definition SizeA :: nat where "SizeA = 8"
definition SizeAx :: nat where "SizeAx = SizeBx + SizeA"
definition SizeJ :: nat where "SizeJ = SizeBx + SizeA"
definition SizeOp :: nat where "SizeOp = 7"

definition PosOp :: nat where "PosOp = 0"
definition PosA :: nat where "PosA = PosOp + SizeOp"
definition PosK :: nat where "PosK = PosA + SizeA"
definition PosB :: nat where "PosB = PosK + 1"
definition PosC :: nat where "PosC = PosB + SizeB"
definition PosBx :: nat where "PosBx = PosK"
definition PosAx :: nat where "PosAx = PosA"
definition PosJ :: nat where "PosJ = PosA"

definition MaxArgBx :: int where "MaxArgBx = push_bit SizeBx 1 - 1"
definition OffsetsBx :: int where "OffsetsBx = drop_bit 1 MaxArgBx"
definition MaxArgAx :: int where "MaxArgAx = push_bit SizeAx 1 - 1"
definition MaxArgJ :: int where "MaxArgJ = push_bit SizeJ 1 - 1"
definition OffsetsJ :: int where "OffsetsJ = drop_bit 1 MaxArgJ"
definition MaxArgA :: int where "MaxArgA = push_bit SizeA 1 - 1"
definition MaxArgB :: int where "MaxArgB = push_bit SizeB 1 - 1"
definition MaxArgC :: int where "MaxArgC = push_bit SizeC 1 - 1"
definition OffsetsC :: int where "OffsetsC = drop_bit 1 MaxArgC"

lemmas field_layout =
  SizeC_def SizeB_def SizeBx_def SizeA_def SizeAx_def SizeJ_def SizeOp_def
  PosOp_def PosA_def PosK_def PosB_def PosC_def PosBx_def PosAx_def PosJ_def

lemmas arg_limits =
  MaxArgBx_def OffsetsBx_def MaxArgAx_def MaxArgJ_def OffsetsJ_def MaxArgA_def MaxArgB_def
  MaxArgC_def OffsetsC_def

lemma arg_limit_values [simp]:
  "MaxArgBx = 131071" "OffsetsBx = 65535" "MaxArgAx = 33554431" "MaxArgJ = 33554431"
  "OffsetsJ = 16777215" "MaxArgA = 255" "MaxArgB = 255" "MaxArgC = 255" "OffsetsC = 127"
  by (simp_all add: arg_limits field_layout)

definition Int2sC :: "int \<Rightarrow> int" where "Int2sC i = i + OffsetsC"
definition SC2int :: "int \<Rightarrow> int" where "SC2int i = i - OffsetsC"

subsection \<open>Reading and writing a field\<close>

text \<open>The shift distance \<open>32 - n\<close> is a Go \<open>uint\<close>, so it wraps for \<open>n > 32\<close>.\<close>

definition mask1 :: "nat \<Rightarrow> nat \<Rightarrow> Instruction" where
  "mask1 n p = push_bit p (drop_bit (nat ((32 - int n) mod 2 ^ 64)) (NOT 0))"

definition getArg :: "Instruction \<Rightarrow> nat \<Rightarrow> nat \<Rightarrow> int" where
  "getArg i pos sz = uint (drop_bit pos i AND mask1 sz 0)"

definition setArg :: "Instruction \<Rightarrow> int \<Rightarrow> nat \<Rightarrow> nat \<Rightarrow> Instruction" where
  "setArg i v pos sz =
     (i AND NOT (mask1 sz pos)) OR (push_bit pos (word_of_int v) AND mask1 sz pos)"

definition GetOpCode :: "Instruction \<Rightarrow> int" where "GetOpCode i = getArg i PosOp SizeOp"
definition SetOpCode :: "Instruction \<Rightarrow> int \<Rightarrow> Instruction" where
  "SetOpCode i opc = setArg i opc PosOp SizeOp"

definition GetArgA :: "Instruction \<Rightarrow> int" where "GetArgA i = getArg i PosA SizeA"
definition SetArgA :: "Instruction \<Rightarrow> int \<Rightarrow> Instruction" where "SetArgA i v = setArg i v PosA SizeA"

definition GetArgB :: "Instruction \<Rightarrow> int" where "GetArgB i = getArg i PosB SizeB"
definition GetArgsB :: "Instruction \<Rightarrow> int" where "GetArgsB i = SC2int (GetArgB i)"
definition SetArgB :: "Instruction \<Rightarrow> int \<Rightarrow> Instruction" where "SetArgB i v = setArg i v PosB SizeB"

definition GetArgC :: "Instruction \<Rightarrow> int" where "GetArgC i = getArg i PosC SizeC"
definition GetArgsC :: "Instruction \<Rightarrow> int" where "GetArgsC i = SC2int (GetArgC i)"
definition SetArgC :: "Instruction \<Rightarrow> int \<Rightarrow> Instruction" where "SetArgC i v = setArg i v PosC SizeC"

definition GetArgk :: "Instruction \<Rightarrow> int" where "GetArgk i = getArg i PosK 1"
definition Testk :: "Instruction \<Rightarrow> bool" where "Testk i = (i AND push_bit PosK 1 \<noteq> 0)"
definition SetArgk :: "Instruction \<Rightarrow> int \<Rightarrow> Instruction" where "SetArgk i v = setArg i v PosK 1"

definition GetArgBx :: "Instruction \<Rightarrow> int" where "GetArgBx i = getArg i PosBx SizeBx"
definition SetArgBx :: "Instruction \<Rightarrow> int \<Rightarrow> Instruction" where
  "SetArgBx i v = setArg i v PosBx SizeBx"
definition GetArgsBx :: "Instruction \<Rightarrow> int" where
  "GetArgsBx i = getArg i PosBx SizeBx - OffsetsBx"
definition SetArgsBx :: "Instruction \<Rightarrow> int \<Rightarrow> Instruction" where
  "SetArgsBx i v = SetArgBx i (v + OffsetsBx)"

definition GetArgAx :: "Instruction \<Rightarrow> int" where "GetArgAx i = getArg i PosAx SizeAx"
definition SetArgAx :: "Instruction \<Rightarrow> int \<Rightarrow> Instruction" where
  "SetArgAx i v = setArg i v PosAx SizeAx"

definition GetArgsJ :: "Instruction \<Rightarrow> int" where "GetArgsJ i = getArg i PosJ SizeJ - OffsetsJ"
definition SetArgsJ :: "Instruction \<Rightarrow> int \<Rightarrow> Instruction" where
  "SetArgsJ i v = setArg i (v + OffsetsJ) PosJ SizeJ"

lemmas field_accessors =
  GetOpCode_def SetOpCode_def GetArgA_def SetArgA_def GetArgB_def SetArgB_def GetArgC_def
  SetArgC_def GetArgk_def SetArgk_def GetArgBx_def SetArgBx_def GetArgsBx_def SetArgsBx_def
  GetArgAx_def SetArgAx_def GetArgsJ_def SetArgsJ_def GetArgsB_def GetArgsC_def

subsection \<open>Instruction creators\<close>

definition CreateABCk :: "int \<Rightarrow> int \<Rightarrow> int \<Rightarrow> int \<Rightarrow> int \<Rightarrow> Instruction" where
  "CreateABCk opc a b c k =
     push_bit PosOp (word_of_int opc) OR push_bit PosA (word_of_int a) OR
     push_bit PosB (word_of_int b) OR push_bit PosC (word_of_int c) OR
     push_bit PosK (word_of_int k)"

definition CreateABx :: "int \<Rightarrow> int \<Rightarrow> int \<Rightarrow> Instruction" where
  "CreateABx opc a bx =
     push_bit PosOp (word_of_int opc) OR push_bit PosA (word_of_int a) OR
     push_bit PosBx (word_of_int bx)"

definition CreateAx :: "int \<Rightarrow> int \<Rightarrow> Instruction" where
  "CreateAx opc a = push_bit PosOp (word_of_int opc) OR push_bit PosAx (word_of_int a)"

definition CreatesJ :: "int \<Rightarrow> int \<Rightarrow> int \<Rightarrow> Instruction" where
  "CreatesJ opc j k =
     push_bit PosOp (word_of_int opc) OR push_bit PosJ (word_of_int (j + OffsetsJ)) OR
     push_bit PosK (word_of_int k)"

subsection \<open>The opcode set and its property table\<close>

text \<open>Go's \<open>OpCode\<close> is an \<open>int\<close>: the constant's position in the declaration.\<close>

type_synonym OpCode = int

abbreviation (input) OP_MOVE :: OpCode where "OP_MOVE \<equiv> 0"
abbreviation (input) OP_LOADI :: OpCode where "OP_LOADI \<equiv> 1"
abbreviation (input) OP_LOADF :: OpCode where "OP_LOADF \<equiv> 2"
abbreviation (input) OP_LOADK :: OpCode where "OP_LOADK \<equiv> 3"
abbreviation (input) OP_LOADKX :: OpCode where "OP_LOADKX \<equiv> 4"
abbreviation (input) OP_LOADFALSE :: OpCode where "OP_LOADFALSE \<equiv> 5"
abbreviation (input) OP_LFALSESKIP :: OpCode where "OP_LFALSESKIP \<equiv> 6"
abbreviation (input) OP_LOADTRUE :: OpCode where "OP_LOADTRUE \<equiv> 7"
abbreviation (input) OP_LOADNIL :: OpCode where "OP_LOADNIL \<equiv> 8"
abbreviation (input) OP_GETUPVAL :: OpCode where "OP_GETUPVAL \<equiv> 9"
abbreviation (input) OP_SETUPVAL :: OpCode where "OP_SETUPVAL \<equiv> 10"
abbreviation (input) OP_GETTABUP :: OpCode where "OP_GETTABUP \<equiv> 11"
abbreviation (input) OP_GETTABLE :: OpCode where "OP_GETTABLE \<equiv> 12"
abbreviation (input) OP_GETI :: OpCode where "OP_GETI \<equiv> 13"
abbreviation (input) OP_GETFIELD :: OpCode where "OP_GETFIELD \<equiv> 14"
abbreviation (input) OP_SETTABUP :: OpCode where "OP_SETTABUP \<equiv> 15"
abbreviation (input) OP_SETTABLE :: OpCode where "OP_SETTABLE \<equiv> 16"
abbreviation (input) OP_SETI :: OpCode where "OP_SETI \<equiv> 17"
abbreviation (input) OP_SETFIELD :: OpCode where "OP_SETFIELD \<equiv> 18"
abbreviation (input) OP_NEWTABLE :: OpCode where "OP_NEWTABLE \<equiv> 19"
abbreviation (input) OP_SELF :: OpCode where "OP_SELF \<equiv> 20"
abbreviation (input) OP_ADDI :: OpCode where "OP_ADDI \<equiv> 21"
abbreviation (input) OP_ADDK :: OpCode where "OP_ADDK \<equiv> 22"
abbreviation (input) OP_SUBK :: OpCode where "OP_SUBK \<equiv> 23"
abbreviation (input) OP_MULK :: OpCode where "OP_MULK \<equiv> 24"
abbreviation (input) OP_MODK :: OpCode where "OP_MODK \<equiv> 25"
abbreviation (input) OP_POWK :: OpCode where "OP_POWK \<equiv> 26"
abbreviation (input) OP_DIVK :: OpCode where "OP_DIVK \<equiv> 27"
abbreviation (input) OP_IDIVK :: OpCode where "OP_IDIVK \<equiv> 28"
abbreviation (input) OP_BANDK :: OpCode where "OP_BANDK \<equiv> 29"
abbreviation (input) OP_BORK :: OpCode where "OP_BORK \<equiv> 30"
abbreviation (input) OP_BXORK :: OpCode where "OP_BXORK \<equiv> 31"
abbreviation (input) OP_SHRI :: OpCode where "OP_SHRI \<equiv> 32"
abbreviation (input) OP_SHLI :: OpCode where "OP_SHLI \<equiv> 33"
abbreviation (input) OP_ADD :: OpCode where "OP_ADD \<equiv> 34"
abbreviation (input) OP_SUB :: OpCode where "OP_SUB \<equiv> 35"
abbreviation (input) OP_MUL :: OpCode where "OP_MUL \<equiv> 36"
abbreviation (input) OP_MOD :: OpCode where "OP_MOD \<equiv> 37"
abbreviation (input) OP_POW :: OpCode where "OP_POW \<equiv> 38"
abbreviation (input) OP_DIV :: OpCode where "OP_DIV \<equiv> 39"
abbreviation (input) OP_IDIV :: OpCode where "OP_IDIV \<equiv> 40"
abbreviation (input) OP_BAND :: OpCode where "OP_BAND \<equiv> 41"
abbreviation (input) OP_BOR :: OpCode where "OP_BOR \<equiv> 42"
abbreviation (input) OP_BXOR :: OpCode where "OP_BXOR \<equiv> 43"
abbreviation (input) OP_SHL :: OpCode where "OP_SHL \<equiv> 44"
abbreviation (input) OP_SHR :: OpCode where "OP_SHR \<equiv> 45"
abbreviation (input) OP_MMBIN :: OpCode where "OP_MMBIN \<equiv> 46"
abbreviation (input) OP_MMBINI :: OpCode where "OP_MMBINI \<equiv> 47"
abbreviation (input) OP_MMBINK :: OpCode where "OP_MMBINK \<equiv> 48"
abbreviation (input) OP_UNM :: OpCode where "OP_UNM \<equiv> 49"
abbreviation (input) OP_BNOT :: OpCode where "OP_BNOT \<equiv> 50"
abbreviation (input) OP_NOT :: OpCode where "OP_NOT \<equiv> 51"
abbreviation (input) OP_LEN :: OpCode where "OP_LEN \<equiv> 52"
abbreviation (input) OP_CONCAT :: OpCode where "OP_CONCAT \<equiv> 53"
abbreviation (input) OP_CLOSE :: OpCode where "OP_CLOSE \<equiv> 54"
abbreviation (input) OP_TBC :: OpCode where "OP_TBC \<equiv> 55"
abbreviation (input) OP_JMP :: OpCode where "OP_JMP \<equiv> 56"
abbreviation (input) OP_EQ :: OpCode where "OP_EQ \<equiv> 57"
abbreviation (input) OP_LT :: OpCode where "OP_LT \<equiv> 58"
abbreviation (input) OP_LE :: OpCode where "OP_LE \<equiv> 59"
abbreviation (input) OP_EQK :: OpCode where "OP_EQK \<equiv> 60"
abbreviation (input) OP_EQI :: OpCode where "OP_EQI \<equiv> 61"
abbreviation (input) OP_LTI :: OpCode where "OP_LTI \<equiv> 62"
abbreviation (input) OP_LEI :: OpCode where "OP_LEI \<equiv> 63"
abbreviation (input) OP_GTI :: OpCode where "OP_GTI \<equiv> 64"
abbreviation (input) OP_GEI :: OpCode where "OP_GEI \<equiv> 65"
abbreviation (input) OP_TEST :: OpCode where "OP_TEST \<equiv> 66"
abbreviation (input) OP_TESTSET :: OpCode where "OP_TESTSET \<equiv> 67"
abbreviation (input) OP_CALL :: OpCode where "OP_CALL \<equiv> 68"
abbreviation (input) OP_TAILCALL :: OpCode where "OP_TAILCALL \<equiv> 69"
abbreviation (input) OP_RETURN :: OpCode where "OP_RETURN \<equiv> 70"
abbreviation (input) OP_RETURN0 :: OpCode where "OP_RETURN0 \<equiv> 71"
abbreviation (input) OP_RETURN1 :: OpCode where "OP_RETURN1 \<equiv> 72"
abbreviation (input) OP_FORLOOP :: OpCode where "OP_FORLOOP \<equiv> 73"
abbreviation (input) OP_FORPREP :: OpCode where "OP_FORPREP \<equiv> 74"
abbreviation (input) OP_TFORPREP :: OpCode where "OP_TFORPREP \<equiv> 75"
abbreviation (input) OP_TFORCALL :: OpCode where "OP_TFORCALL \<equiv> 76"
abbreviation (input) OP_TFORLOOP :: OpCode where "OP_TFORLOOP \<equiv> 77"
abbreviation (input) OP_SETLIST :: OpCode where "OP_SETLIST \<equiv> 78"
abbreviation (input) OP_CLOSURE :: OpCode where "OP_CLOSURE \<equiv> 79"
abbreviation (input) OP_VARARG :: OpCode where "OP_VARARG \<equiv> 80"
abbreviation (input) OP_VARARGPREP :: OpCode where "OP_VARARGPREP \<equiv> 81"
abbreviation (input) OP_EXTRAARG :: OpCode where "OP_EXTRAARG \<equiv> 82"

definition NumOpCodes :: int where "NumOpCodes = OP_EXTRAARG + 1"

definition opNames :: "string list" where
  "opNames = [
    ''MOVE'', ''LOADI'', ''LOADF'', ''LOADK'', ''LOADKX'', ''LOADFALSE'', ''LFALSESKIP'',
    ''LOADTRUE'', ''LOADNIL'', ''GETUPVAL'', ''SETUPVAL'', ''GETTABUP'', ''GETTABLE'',
    ''GETI'', ''GETFIELD'', ''SETTABUP'', ''SETTABLE'', ''SETI'', ''SETFIELD'', ''NEWTABLE'',
    ''SELF'', ''ADDI'', ''ADDK'', ''SUBK'', ''MULK'', ''MODK'', ''POWK'', ''DIVK'', ''IDIVK'',
    ''BANDK'', ''BORK'', ''BXORK'', ''SHRI'', ''SHLI'', ''ADD'', ''SUB'', ''MUL'', ''MOD'',
    ''POW'', ''DIV'', ''IDIV'', ''BAND'', ''BOR'', ''BXOR'', ''SHL'', ''SHR'', ''MMBIN'',
    ''MMBINI'', ''MMBINK'', ''UNM'', ''BNOT'', ''NOT'', ''LEN'', ''CONCAT'', ''CLOSE'',
    ''TBC'', ''JMP'', ''EQ'', ''LT'', ''LE'', ''EQK'', ''EQI'', ''LTI'', ''LEI'', ''GTI'',
    ''GEI'', ''TEST'', ''TESTSET'', ''CALL'', ''TAILCALL'', ''RETURN'', ''RETURN0'',
    ''RETURN1'', ''FORLOOP'', ''FORPREP'', ''TFORPREP'', ''TFORCALL'', ''TFORLOOP'',
    ''SETLIST'', ''CLOSURE'', ''VARARG'', ''VARARGPREP'', ''EXTRAARG'']"

definition Name :: "int \<Rightarrow> string" where
  "Name opc = (if opc < 0 \<or> opc \<ge> NumOpCodes then ''?'' else opNames ! nat opc)"

fun mode_num :: "OpMode \<Rightarrow> int" where
  "mode_num IABC = 0" | "mode_num IABx = 1" | "mode_num IAsBx = 2" | "mode_num IAx = 3" |
  "mode_num IsJ = 4"

definition opmode :: "int \<Rightarrow> int \<Rightarrow> int \<Rightarrow> int \<Rightarrow> int \<Rightarrow> OpMode \<Rightarrow> byte" where
  "opmode mm ot it t a m =
     word_of_int (push_bit 7 mm OR push_bit 6 ot OR push_bit 5 it OR push_bit 4 t OR
       push_bit 3 a OR mode_num m)"

definition opModes :: "byte list" where
  "opModes = [
     opmode 0 0 0 0 1 IABC,
     opmode 0 0 0 0 1 IAsBx,
     opmode 0 0 0 0 1 IAsBx,
     opmode 0 0 0 0 1 IABx,
     opmode 0 0 0 0 1 IABx,
     opmode 0 0 0 0 1 IABC,
     opmode 0 0 0 0 1 IABC,
     opmode 0 0 0 0 1 IABC,
     opmode 0 0 0 0 1 IABC,
     opmode 0 0 0 0 1 IABC,
     opmode 0 0 0 0 0 IABC,
     opmode 0 0 0 0 1 IABC,
     opmode 0 0 0 0 1 IABC,
     opmode 0 0 0 0 1 IABC,
     opmode 0 0 0 0 1 IABC,
     opmode 0 0 0 0 0 IABC,
     opmode 0 0 0 0 0 IABC,
     opmode 0 0 0 0 0 IABC,
     opmode 0 0 0 0 0 IABC,
     opmode 0 0 0 0 1 IABC,
     opmode 0 0 0 0 1 IABC,
     opmode 0 0 0 0 1 IABC,
     opmode 0 0 0 0 1 IABC,
     opmode 0 0 0 0 1 IABC,
     opmode 0 0 0 0 1 IABC,
     opmode 0 0 0 0 1 IABC,
     opmode 0 0 0 0 1 IABC,
     opmode 0 0 0 0 1 IABC,
     opmode 0 0 0 0 1 IABC,
     opmode 0 0 0 0 1 IABC,
     opmode 0 0 0 0 1 IABC,
     opmode 0 0 0 0 1 IABC,
     opmode 0 0 0 0 1 IABC,
     opmode 0 0 0 0 1 IABC,
     opmode 0 0 0 0 1 IABC,
     opmode 0 0 0 0 1 IABC,
     opmode 0 0 0 0 1 IABC,
     opmode 0 0 0 0 1 IABC,
     opmode 0 0 0 0 1 IABC,
     opmode 0 0 0 0 1 IABC,
     opmode 0 0 0 0 1 IABC,
     opmode 0 0 0 0 1 IABC,
     opmode 0 0 0 0 1 IABC,
     opmode 0 0 0 0 1 IABC,
     opmode 0 0 0 0 1 IABC,
     opmode 0 0 0 0 1 IABC,
     opmode 1 0 0 0 0 IABC,
     opmode 1 0 0 0 0 IABC,
     opmode 1 0 0 0 0 IABC,
     opmode 0 0 0 0 1 IABC,
     opmode 0 0 0 0 1 IABC,
     opmode 0 0 0 0 1 IABC,
     opmode 0 0 0 0 1 IABC,
     opmode 0 0 0 0 1 IABC,
     opmode 0 0 0 0 0 IABC,
     opmode 0 0 0 0 0 IABC,
     opmode 0 0 0 0 0 IsJ,
     opmode 0 0 0 1 0 IABC,
     opmode 0 0 0 1 0 IABC,
     opmode 0 0 0 1 0 IABC,
     opmode 0 0 0 1 0 IABC,
     opmode 0 0 0 1 0 IABC,
     opmode 0 0 0 1 0 IABC,
     opmode 0 0 0 1 0 IABC,
     opmode 0 0 0 1 0 IABC,
     opmode 0 0 0 1 0 IABC,
     opmode 0 0 0 1 0 IABC,
     opmode 0 0 0 1 1 IABC,
     opmode 0 1 1 0 1 IABC,
     opmode 0 1 1 0 1 IABC,
     opmode 0 0 1 0 0 IABC,
     opmode 0 0 0 0 0 IABC,
     opmode 0 0 0 0 0 IABC,
     opmode 0 0 0 0 1 IABx,
     opmode 0 0 0 0 1 IABx,
     opmode 0 0 0 0 0 IABx,
     opmode 0 0 0 0 0 IABC,
     opmode 0 0 0 0 1 IABx,
     opmode 0 0 1 0 0 IABC,
     opmode 0 0 0 0 1 IABx,
     opmode 0 1 0 0 1 IABC,
     opmode 0 0 1 0 1 IABC,
     opmode 0 0 0 0 0 IAx]"

text \<open>Indexing the table panics in Go for an opcode outside \<open>0..82\<close>.\<close>

definition opmode_at :: "OpCode \<Rightarrow> byte res" where
  "opmode_at opc = (if 0 \<le> opc \<and> opc < NumOpCodes then Inr (opModes ! nat opc) else Inl GoPanic)"

definition Mode :: "OpCode \<Rightarrow> int res" where
  "Mode opc = rbind (opmode_at opc) (\<lambda>m. Inr (uint (m AND 7)))"
definition SetsA :: "OpCode \<Rightarrow> bool res" where
  "SetsA opc = rbind (opmode_at opc) (\<lambda>m. Inr (m AND push_bit 3 1 \<noteq> 0))"
definition IsTest :: "OpCode \<Rightarrow> bool res" where
  "IsTest opc = rbind (opmode_at opc) (\<lambda>m. Inr (m AND push_bit 4 1 \<noteq> 0))"
definition UsesTopIn :: "OpCode \<Rightarrow> bool res" where
  "UsesTopIn opc = rbind (opmode_at opc) (\<lambda>m. Inr (m AND push_bit 5 1 \<noteq> 0))"
definition SetsTopOut :: "OpCode \<Rightarrow> bool res" where
  "SetsTopOut opc = rbind (opmode_at opc) (\<lambda>m. Inr (m AND push_bit 6 1 \<noteq> 0))"
definition IsMM :: "OpCode \<Rightarrow> bool res" where
  "IsMM opc = rbind (opmode_at opc) (\<lambda>m. Inr (m AND push_bit 7 1 \<noteq> 0))"

subsection \<open>Fields as bit ranges\<close>

lemma mask1_eq: "n \<le> 32 \<Longrightarrow> mask1 n p = push_bit p (mask n)"
  by (rule bit_eqI) (auto simp: mask1_def bit_simps)

lemma getArg_eq: "sz \<le> 32 \<Longrightarrow> getArg i pos sz = uint (take_bit sz (drop_bit pos i))"
  by (simp add: getArg_def mask1_eq take_bit_eq_mask)

lemma uint_take_bit_of_int:
  "sz \<le> 32 \<Longrightarrow> uint (take_bit sz (word_of_int v :: Instruction)) = v mod 2 ^ sz"
  by (simp add: unsigned_take_bit_eq uint_word_of_int_eq take_bit_eq_mod [symmetric] min_def)

lemma getArg_setArg_same:
  assumes "pos + sz \<le> 32"
  shows "getArg (setArg i v pos sz) pos sz = v mod 2 ^ sz"
proof -
  have "take_bit sz (drop_bit pos (setArg i v pos sz)) = take_bit sz (word_of_int v)"
    using assms by (intro bit_eqI) (auto simp: setArg_def mask1_eq bit_simps)
  then show ?thesis using assms by (simp add: getArg_eq uint_take_bit_of_int)
qed

lemma getArg_setArg_disjoint:
  assumes "pos + sz \<le> 32" "pos' + sz' \<le> 32" "pos + sz \<le> pos' \<or> pos' + sz' \<le> pos"
  shows "getArg (setArg i v pos sz) pos' sz' = getArg i pos' sz'"
proof -
  have "take_bit sz' (drop_bit pos' (setArg i v pos sz)) = take_bit sz' (drop_bit pos' i)"
    using assms by (intro bit_eqI) (auto simp: setArg_def mask1_eq bit_simps)
  then show ?thesis using assms by (simp add: getArg_eq)
qed

lemma getArg_or: "sz \<le> 32 \<Longrightarrow> getArg (x OR y) pos sz = getArg x pos sz OR getArg y pos sz"
  by (simp add: getArg_eq drop_bit_or take_bit_or unsigned_or_eq)

lemma getArg_push_same:
  assumes "0 \<le> v" "v < 2 ^ sz" "pos + sz \<le> 32"
  shows "getArg (push_bit pos (word_of_int v)) pos sz = v"
proof -
  have "take_bit sz (drop_bit pos (push_bit pos (word_of_int v :: Instruction)))
      = take_bit sz (word_of_int v)"
    using assms by (intro bit_eqI) (auto simp: bit_simps)
  then show ?thesis using assms by (simp add: getArg_eq uint_take_bit_of_int)
qed

lemma bit_of_int_small:
  assumes "0 \<le> v" "v < 2 ^ n" "n \<le> m"
  shows "\<not> bit (v :: int) m"
  using assms by (metis bit_take_bit_iff leD take_bit_int_eq_self)

lemma getArg_push_disjoint:
  assumes "0 \<le> v" "v < 2 ^ n" "sz \<le> 32" "pos + sz \<le> p \<or> p + n \<le> pos"
  shows "getArg (push_bit p (word_of_int v)) pos sz = 0"
proof -
  have "take_bit sz (drop_bit pos (push_bit p (word_of_int v :: Instruction))) = 0"
    using assms by (intro bit_eqI) (auto simp: bit_simps bit_of_int_small [of v n])
  then show ?thesis using assms by (simp add: getArg_eq)
qed

lemma getArg_low_same: "0 \<le> v \<Longrightarrow> v < 2 ^ sz \<Longrightarrow> sz \<le> 32 \<Longrightarrow> getArg (word_of_int v) 0 sz = v"
  using getArg_push_same [of v sz 0] by simp

lemma getArg_low_disjoint:
  "0 \<le> v \<Longrightarrow> v < 2 ^ n \<Longrightarrow> sz \<le> 32 \<Longrightarrow> n \<le> pos \<Longrightarrow> getArg (word_of_int v) pos sz = 0"
  using getArg_push_disjoint [of v n sz pos 0] by simp

lemma word_of_int_getArg: "sz \<le> 32 \<Longrightarrow> word_of_int (getArg i pos sz) = take_bit sz (drop_bit pos i)"
  by (simp add: getArg_eq)

lemma Testk_iff_bit: "Testk i \<longleftrightarrow> bit i 15"
  by (simp add: Testk_def field_layout bit_iff_and_push_bit_not_eq_0 del: push_bit_numeral)

lemma GetArgk_Testk: "GetArgk i = (if Testk i then 1 else 0)"
  by (simp add: Testk_iff_bit GetArgk_def field_layout getArg_eq mod_2_eq_odd even_drop_bit_iff)

subsection \<open>Properties of the encoding\<close>

text \<open>
  Decoding an instruction built by \<open>CreateABCk\<close> from an opcode of seven bits, three operands
  of eight bits and a flag gives back the opcode and every operand.
\<close>

lemma CreateABCk_decode:
  assumes "0 \<le> opc" "opc < 128" "0 \<le> a" "a \<le> MaxArgA" "0 \<le> b" "b \<le> MaxArgB"
    "0 \<le> c" "c \<le> MaxArgC" "0 \<le> k" "k \<le> 1"
  shows "GetOpCode (CreateABCk opc a b c k) = opc \<and> GetArgA (CreateABCk opc a b c k) = a \<and>
    GetArgB (CreateABCk opc a b c k) = b \<and> GetArgC (CreateABCk opc a b c k) = c \<and>
    GetArgk (CreateABCk opc a b c k) = k"
  using assms
  by (simp add: CreateABCk_def field_accessors field_layout getArg_or getArg_push_same
      getArg_low_same getArg_low_disjoint [of opc 7] getArg_push_disjoint [of a 8]
      getArg_push_disjoint [of b 8] getArg_push_disjoint [of c 8] getArg_push_disjoint [of k 1])

lemma CreateABCk_decode_witness:
  "GetOpCode (CreateABCk OP_SETFIELD 3 200 255 1) = OP_SETFIELD \<and>
   GetArgC (CreateABCk OP_SETFIELD 3 200 255 1) = 255"
  using CreateABCk_decode [of OP_SETFIELD 3 200 255 1] by simp

text \<open>
  no bit of an instruction is outside its five iABC fields. Re-creating an instruction from
  the opcode and operands read from it gives the same 32-bit word.
\<close>

lemma CreateABCk_reassemble:
  "CreateABCk (GetOpCode i) (GetArgA i) (GetArgB i) (GetArgC i) (GetArgk i) = i"
proof (rule bit_eqI)
  fix n assume "possible_bit TYPE(32 word) n"
  then have "n < 32" by simp
  then consider "n < 7" | "7 \<le> n \<and> n < 15" | "n = 15" | "16 \<le> n \<and> n < 24" | "24 \<le> n \<and> n < 32"
    by linarith
  then show "bit (CreateABCk (GetOpCode i) (GetArgA i) (GetArgB i) (GetArgC i) (GetArgk i)) n
      = bit i n"
    by cases
      (auto simp: CreateABCk_def field_accessors field_layout word_of_int_getArg bit_simps
        even_drop_bit_iff)
qed

text \<open>
  a jump created with \<open>CreatesJ\<close>, or patched with \<open>SetArgsJ\<close> as the code generator does when
  it fixes a forward jump, reads back its signed offset for every offset in range, and patching
  leaves the opcode alone.
\<close>

lemma jump_offset_roundtrip:
  assumes "- OffsetsJ \<le> j" "j \<le> OffsetsJ + 1" "0 \<le> opc" "opc < 128"
  shows "GetArgsJ (CreatesJ opc j 0) = j \<and> GetOpCode (CreatesJ opc j 0) = opc \<and>
    GetArgsJ (SetArgsJ i j) = j \<and> GetOpCode (SetArgsJ i j) = GetOpCode i"
proof -
  obtain v where v: "j = v - 16777215" by (metis add_diff_cancel_right')
  with assms have "0 \<le> v" "v < 2 ^ 25" by simp_all
  moreover have "CreatesJ opc j 0 = word_of_int opc OR push_bit 7 (word_of_int v)"
    by (simp only: CreatesJ_def v) (simp add: field_layout)
  moreover have "SetArgsJ i j = setArg i v 7 25"
    by (simp add: SetArgsJ_def v field_layout)
  ultimately show ?thesis
    using assms v
    by (simp add: field_accessors field_layout getArg_or getArg_push_same getArg_low_same
        getArg_low_disjoint [of opc 7] getArg_push_disjoint [of v 25]
        getArg_setArg_same getArg_setArg_disjoint)
qed

lemma jump_offset_roundtrip_witness:
  "GetArgsJ (CreatesJ OP_JMP (-7) 0) = -7 \<and> GetArgsJ (SetArgsJ (CreatesJ OP_JMP 0 0) 12) = 12"
  using jump_offset_roundtrip [of "-7" OP_JMP 0]
    jump_offset_roundtrip [of 12 OP_JMP "CreatesJ OP_JMP 0 0"] by simp

text \<open>
  the operand setters write only their own field: after \<open>SetArgB\<close> the field holds the value
  modulo its size, and the opcode and the other operands are what they were. The same holds for
  the setters of A, C and the flag.
\<close>

lemma setters_frame:
  "GetArgB (SetArgB i v) = v mod 256 \<and> GetOpCode (SetArgB i v) = GetOpCode i \<and>
   GetArgA (SetArgB i v) = GetArgA i \<and> GetArgC (SetArgB i v) = GetArgC i \<and>
   GetArgk (SetArgB i v) = GetArgk i \<and>
   GetArgA (SetArgA i v) = v mod 256 \<and> GetOpCode (SetArgA i v) = GetOpCode i \<and>
   GetArgBx (SetArgA i v) = GetArgBx i \<and>
   GetArgC (SetArgC i v) = v mod 256 \<and> GetOpCode (SetArgC i v) = GetOpCode i \<and>
   GetArgA (SetArgC i v) = GetArgA i \<and> GetArgB (SetArgC i v) = GetArgB i \<and>
   GetArgk (SetArgC i v) = GetArgk i \<and>
   GetArgk (SetArgk i v) = v mod 2 \<and> GetArgA (SetArgk i v) = GetArgA i \<and>
   GetArgB (SetArgk i v) = GetArgB i \<and> GetArgC (SetArgk i v) = GetArgC i \<and>
   GetOpCode (SetOpCode i v) = v mod 128 \<and> GetArgAx (SetOpCode i v) = GetArgAx i"
  by (simp add: field_accessors field_layout getArg_setArg_same getArg_setArg_disjoint)

text \<open>
  the property table of the opcodes. For an opcode in range no lookup panics, the format is
  one of the five, and the property bits single out the expected opcodes: tests are the
  comparisons and \<open>TEST\<close>/\<open>TESTSET\<close>, metamethod events are the three \<open>MMBIN\<close> forms, the open-result
  producers are calls and \<open>VARARG\<close>, and their consumers are calls, \<open>RETURN\<close>, \<open>SETLIST\<close> and
  \<open>VARARGPREP\<close>. Outside the range every lookup panics.
\<close>

lemma opcode_table:
  "(\<forall>opc \<in> {0..<NumOpCodes}.
     IsTest opc = Inr (opc \<in> {OP_EQ..OP_TESTSET}) \<and>
     IsMM opc = Inr (opc \<in> {OP_MMBIN..OP_MMBINK}) \<and>
     SetsTopOut opc = Inr (opc \<in> {OP_CALL, OP_TAILCALL, OP_VARARG}) \<and>
     UsesTopIn opc = Inr (opc \<in> {OP_CALL, OP_TAILCALL, OP_RETURN, OP_SETLIST, OP_VARARGPREP}) \<and>
     Mode opc = Inr (if opc = OP_JMP then mode_num IsJ else if opc = OP_EXTRAARG then mode_num IAx
       else if opc \<in> {OP_LOADI, OP_LOADF} then mode_num IAsBx
       else if opc \<in> {OP_LOADK, OP_LOADKX, OP_FORLOOP, OP_FORPREP, OP_TFORPREP, OP_TFORLOOP,
          OP_CLOSURE} then mode_num IABx else mode_num IABC)) \<and>
   (\<forall>opc. opc \<notin> {0..<NumOpCodes} \<longrightarrow> Mode opc = Inl GoPanic)"
proof -
  have range: "{0..<NumOpCodes} = set [0..82]" by (auto simp: NumOpCodes_def)
  show ?thesis unfolding range
  proof (intro conjI)
    show "\<forall>opc. opc \<notin> set [0..82] \<longrightarrow> Mode opc = Inl GoPanic"
      by (simp add: Mode_def opmode_at_def NumOpCodes_def)
  qed (code_simp)
qed

lemma opcode_table_witness:
  "IsTest OP_LTI = Inr True \<and> Mode OP_JMP = Inr 4 \<and> Mode 83 = Inl GoPanic"
  using opcode_table by (auto simp: NumOpCodes_def)

end
