(* ===== verification/Float64.thy ===== *)
theory Float64
  imports Prelude "HOL-Library.Log_Nat"
begin

text \<open>
  Go's \<open>float64\<close>: IEEE 754 binary64 numbers as 64-bit words (the representation that
  \<open>math.Float64bits\<close> gives, which is how a Lua float is stored), with the operations the program
  uses: comparison, conversion from and to \<open>int64\<close>, \<open>+ - * /\<close>, negation, \<open>math.Floor\<close>,
  \<open>math.Ceil\<close> and \<open>math.Mod\<close>.

  Every finite float is an integer multiple of $2^{-1074}$. \<open>fscaled\<close> is that integer, and maps the
  infinities to $\pm 2^{2098}$, beyond every finite value, so that comparison of floats is comparison
  of these integers. An arithmetic result is computed exactly as a fraction of such integers and
  rounded to nearest, ties to even. The bit pattern of a NaN result is not specified by Go; the model
  uses one fixed pattern and no lemma depends on it.
\<close>

type_synonym f64 = "64 word"

subsection \<open>Magnitudes\<close>

definition inf_mag :: nat where "inf_mag = 2047 * 2 ^ 52"

definition mag_scaled :: "nat \<Rightarrow> nat" where
  "mag_scaled m =
     (let e = m div 2 ^ 52; f = m mod 2 ^ 52 in if e = 0 then f else (2 ^ 52 + f) * 2 ^ (e - 1))"

definition round_div :: "nat \<Rightarrow> nat \<Rightarrow> nat" where
  "round_div p d =
     (let m = p div d; r = p mod d in if 2 * r < d \<or> (2 * r = d \<and> even m) then m else m + 1)"

definition round_mag :: "nat \<Rightarrow> nat \<Rightarrow> nat" where
  "round_mag p q =
     (let k = floorlog 2 (p div q) - 53 in min inf_mag (k * 2 ^ 52 + round_div p (q * 2 ^ k)))"

lemma mag_scaled_small: "m < 2 ^ 53 \<Longrightarrow> mag_scaled m = m"
proof -
  assume "m < 2 ^ 53"
  then have "m div 2 ^ 52 = 0 \<and> m mod 2 ^ 52 = m \<or> m div 2 ^ 52 = 1 \<and> m mod 2 ^ 52 = m - 2 ^ 52 \<and> 2 ^ 52 \<le> m"
    by (cases "m < 2 ^ 52") (auto simp: le_mod_geq le_div_geq not_less)
  then show ?thesis by (auto simp: mag_scaled_def Let_def)
qed

lemma mag_scaled_normal:
  assumes "2 ^ 52 \<le> m" "m < 2 ^ 53"
  shows "mag_scaled (k * 2 ^ 52 + m) = m * 2 ^ k"
proof -
  have "(k * 2 ^ 52 + m) div 2 ^ 52 = k + 1" "(k * 2 ^ 52 + m) mod 2 ^ 52 = m - 2 ^ 52"
    using assms by (simp_all add: le_mod_geq le_div_geq)
  with assms show ?thesis by (simp add: mag_scaled_def)
qed

lemma mag_scaled_carry: "mag_scaled (k * 2 ^ 52 + 2 ^ 53) = 2 ^ 53 * 2 ^ k"
  using mag_scaled_normal [of "2 ^ 52" "Suc k"] by (simp add: add.commute)

lemma mag_scaled_of_parts:
  assumes "m \<le> 2 ^ 53" "k = 0 \<or> 2 ^ 52 \<le> m"
  shows "mag_scaled (k * 2 ^ 52 + m) = m * 2 ^ k"
  using assms mag_scaled_carry [of k] mag_scaled_normal [of m k] mag_scaled_small [of m]
  by (cases "m = 2 ^ 53") auto

lemma mag_scaled_Suc: "mag_scaled m < mag_scaled (Suc m)"
proof -
  define e f where "e = m div 2 ^ 52" and "f = m mod 2 ^ 52"
  have m: "m = e * 2 ^ 52 + f" and f: "f < 2 ^ 52" by (simp_all add: e_def f_def)
  show ?thesis
  proof (cases "m < 2 ^ 53 - 1")
    case True
    then show ?thesis by (simp add: mag_scaled_small)
  next
    case False
    then have e: "1 \<le> e" unfolding e_def by (simp add: less_eq_div_iff_mult_less_eq)
    then have m': "m = (e - 1) * 2 ^ 52 + (2 ^ 52 + f)" using m by (cases e) simp_all
    have "mag_scaled m = (2 ^ 52 + f) * 2 ^ (e - 1)"
      unfolding m' using f by (intro mag_scaled_of_parts) simp_all
    moreover have "mag_scaled (Suc m) = (2 ^ 52 + Suc f) * 2 ^ (e - 1)"
      using mag_scaled_of_parts [of "2 ^ 52 + Suc f" "e - 1"] f m' by (simp add: ac_simps)
    ultimately show ?thesis by simp
  qed
qed

lemma strict_mono_mag_scaled: "strict_mono mag_scaled"
  by (simp add: strict_mono_Suc_iff mag_scaled_Suc)

lemma mag_scaled_less_iff [simp]: "mag_scaled m < mag_scaled n \<longleftrightarrow> m < n"
  by (rule strict_mono_less [OF strict_mono_mag_scaled])

lemma mag_scaled_le_iff [simp]: "mag_scaled m \<le> mag_scaled n \<longleftrightarrow> m \<le> n"
  by (rule strict_mono_less_eq [OF strict_mono_mag_scaled])

lemma mag_scaled_eq_iff [simp]: "mag_scaled m = mag_scaled n \<longleftrightarrow> m = n"
  by (rule strict_mono_eq [OF strict_mono_mag_scaled])

lemma mag_scaled_0 [simp]: "mag_scaled 0 = 0"
  by (simp add: mag_scaled_def)

lemma mag_scaled_inf: "mag_scaled inf_mag = 2 ^ 52 * 2 ^ 2046"
  by (simp add: mag_scaled_def inf_mag_def)

subsection \<open>Rounding\<close>

lemma round_div_exact: "0 < d \<Longrightarrow> d dvd p \<Longrightarrow> round_div p d = p div d"
  by (simp add: round_div_def)

lemma round_div_bounds: "p div d \<le> round_div p d" "round_div p d \<le> p div d + 1"
  by (simp_all add: round_div_def Let_def)

lemma round_mag_parts:
  fixes p q :: nat
  assumes "0 < q"
  defines "k \<equiv> floorlog 2 (p div q) - 53"
  shows "round_div p (q * 2 ^ k) \<le> 2 ^ 53"
    and "k = 0 \<or> 2 ^ 52 \<le> round_div p (q * 2 ^ k)"
proof -
  define n where "n = p div q"
  have q: "p div (q * 2 ^ k) = n div 2 ^ k" by (simp add: n_def div_mult2_eq)
  have bounds: "n div 2 ^ k < 2 ^ 53 \<and> (k = 0 \<or> 2 ^ 52 \<le> n div 2 ^ k)"
  proof (cases "n < 2 ^ 53")
    case True
    then have "floorlog 2 n \<le> 53" by (simp add: floorlog_leI)
    with True show ?thesis by (simp add: k_def n_def)
  next
    case False
    then have lo: "2 ^ (floorlog 2 n - 1) \<le> n" and hi: "n < 2 ^ floorlog 2 n"
      using floorlog_bounds [of n 2] by simp_all
    from False hi have "53 < floorlog 2 n"
      by (metis linorder_not_le order.strict_trans2 power_increasing one_le_numeral)
    then have "floorlog 2 n = k + 53" "floorlog 2 n - 1 = k + 52" by (simp_all add: k_def n_def)
    with lo hi show ?thesis
      by (simp add: less_mult_imp_div_less less_eq_div_iff_mult_less_eq power_add mult.commute)
  qed
  show "round_div p (q * 2 ^ k) \<le> 2 ^ 53"
    using round_div_bounds(2) [of p "q * 2 ^ k"] bounds q by simp
  show "k = 0 \<or> 2 ^ 52 \<le> round_div p (q * 2 ^ k)"
    using round_div_bounds(1) [of p "q * 2 ^ k"] bounds q by linarith
qed

lemma round_div_scale: "0 < c \<Longrightarrow> round_div (a * c) (b * c) = round_div a b"
  by (simp add: round_div_def Let_def mod_mult_mult2 flip: mult.assoc)

text \<open>Rounding an integer of at least 53 bits, without the factor $2^{1074}$.\<close>

lemma round_mag_large_int:
  assumes "53 \<le> floorlog 2 n"
  shows "round_mag (n * 2 ^ 1074) 1 =
    min inf_mag ((floorlog 2 n + 1021) * 2 ^ 52 + round_div n (2 ^ (floorlog 2 n - 53)))"
proof -
  have "0 < n" using assms by (cases n) (simp_all add: floorlog_def)
  then have fl: "floorlog 2 (n * 2 ^ 1074) = floorlog 2 n + 1074" by (rule floorlog_power) simp
  have "(2 :: nat) ^ (floorlog 2 n + 1021) = 2 ^ (floorlog 2 n - 53) * 2 ^ 1074"
    using assms by (simp only: power_add [symmetric]) simp
  then have rd: "round_div (n * 2 ^ 1074) (2 ^ (floorlog 2 n + 1021)) =
      round_div n (2 ^ (floorlog 2 n - 53))"
    by (simp only: round_div_scale zero_less_power zero_less_numeral)
  have "floorlog 2 n + 1074 - 53 = floorlog 2 n + 1021" by simp
  then show ?thesis unfolding round_mag_def Let_def by (simp only: div_by_1 fl mult_1 rd)
qed

text \<open>A value with at most 53 significant bits is rounded to itself.\<close>

lemma round_mag_exact:
  assumes "m < 2 ^ 53" "m * 2 ^ j \<le> mag_scaled inf_mag"
  shows "mag_scaled (round_mag (m * 2 ^ j) 1) = m * 2 ^ j"
proof -
  define n where "n = m * 2 ^ j"
  define k where "k = floorlog 2 n - 53"
  have "n < 2 ^ (53 + j)" using assms(1) by (simp add: n_def power_add)
  then have "floorlog 2 n \<le> 53 + j" by (simp add: floorlog_leI)
  then have "k \<le> j" by (simp add: k_def)
  then have dvd: "2 ^ k dvd n" by (simp add: n_def le_imp_power_dvd)
  then have rd: "round_div n (2 ^ k) = n div 2 ^ k" by (simp add: round_div_exact)
  have "mag_scaled (k * 2 ^ 52 + round_div n (2 ^ k)) = round_div n (2 ^ k) * 2 ^ k"
    using round_mag_parts [of 1 n] by (intro mag_scaled_of_parts) (simp_all add: k_def)
  also have "\<dots> = n" using dvd rd by simp
  finally have eq: "mag_scaled (k * 2 ^ 52 + round_div n (2 ^ k)) = n" .
  with assms(2) have "k * 2 ^ 52 + round_div n (2 ^ k) \<le> inf_mag"
    by (metis mag_scaled_le_iff n_def)
  with eq show ?thesis by (simp add: round_mag_def k_def n_def Let_def min_absorb2)
qed

lemma mag_scaled_decompose: "\<exists>m j. mag_scaled b = m * 2 ^ j \<and> m < 2 ^ 53"
proof (cases "b < 2 ^ 53")
  case True
  then show ?thesis by (intro exI [of _ b] exI [of _ 0]) (simp add: mag_scaled_small)
next
  case False
  define e f where "e = b div 2 ^ 52" and "f = b mod 2 ^ 52"
  from False have "e \<noteq> 0" by (simp add: e_def div_eq_0_iff)
  then show ?thesis
    by (intro exI [of _ "2 ^ 52 + f"] exI [of _ "e - 1"]) (simp add: mag_scaled_def e_def f_def Let_def)
qed

lemma round_mag_mag_scaled: "b \<le> inf_mag \<Longrightarrow> round_mag (mag_scaled b) 1 = b"
  by (metis mag_scaled_decompose mag_scaled_eq_iff mag_scaled_le_iff round_mag_exact)

lemma round_mag_0 [simp]: "0 < q \<Longrightarrow> round_mag 0 q = 0"
  by (simp add: round_mag_def floorlog_def round_div_def)

lemma round_mag_le_inf: "round_mag p q \<le> inf_mag"
  by (simp add: round_mag_def Let_def)

text \<open>Rounding a multiple of a power of two gives a multiple of it.\<close>

lemma round_mag_dvd:
  assumes "2 ^ j dvd p" "j \<le> 2098"
  shows "2 ^ j dvd mag_scaled (round_mag p 1)"
proof -
  define k where "k = floorlog 2 p - 53"
  define m where "m = round_div p (2 ^ k)"
  have parts: "mag_scaled (k * 2 ^ 52 + m) = m * 2 ^ k"
    using round_mag_parts [of 1 p] by (intro mag_scaled_of_parts) (simp_all add: k_def m_def)
  have "2 ^ j dvd m * 2 ^ k"
  proof (cases "j \<le> k")
    case True
    then show ?thesis by (simp add: le_imp_power_dvd)
  next
    case False
    with assms(1) have "2 ^ k dvd p" by (meson dvd_trans le_imp_power_dvd nat_le_linear)
    then have "m * 2 ^ k = p" by (simp add: m_def round_div_exact)
    with assms(1) show ?thesis by simp
  qed
  moreover have "2 ^ j dvd mag_scaled inf_mag"
    using assms(2) unfolding mag_scaled_inf by (metis le_imp_power_dvd power_add numeral_plus_numeral add_num_simps semiring_norm(2,3,4,5,6,7,8,9))
  ultimately show ?thesis
    using parts by (auto simp: round_mag_def k_def m_def Let_def min_def)
qed

lemma round_mag_fin:
  assumes "p < 2 ^ 2097"
  shows "round_mag p 1 < inf_mag"
proof -
  define k where "k = floorlog 2 p - 53"
  define m where "m = round_div p (2 ^ k)"
  have m: "m \<le> 2 ^ 53" and parts: "mag_scaled (k * 2 ^ 52 + m) = m * 2 ^ k"
    using round_mag_parts [of 1 p] mag_scaled_of_parts [of m k] by (simp_all add: k_def m_def)
  have "floorlog 2 p \<le> 2097" using assms by (simp add: floorlog_leI)
  then have "m * 2 ^ k \<le> 2 ^ 53 * 2 ^ 2044"
    using m by (intro mult_le_mono power_increasing) (simp_all add: k_def)
  also have "\<dots> < mag_scaled inf_mag" by (simp add: mag_scaled_inf)
  finally have "k * 2 ^ 52 + m < inf_mag" by (simp flip: parts)
  then show ?thesis by (simp add: round_mag_def k_def m_def Let_def min_less_iff_disj)
qed

subsection \<open>Floats as words\<close>

definition f64_neg :: "f64 \<Rightarrow> bool" where "f64_neg b = (2 ^ 63 \<le> unat b)"
definition f64_mag :: "f64 \<Rightarrow> nat" where "f64_mag b = unat b mod 2 ^ 63"

definition mk_f64 :: "bool \<Rightarrow> nat \<Rightarrow> f64" where
  "mk_f64 neg m = word_of_nat (if neg then 2 ^ 63 + m else m)"

definition is_nan :: "f64 \<Rightarrow> bool" where "is_nan b = (inf_mag < f64_mag b)"
definition is_inf :: "f64 \<Rightarrow> bool" where "is_inf b = (f64_mag b = inf_mag)"

definition fscaled :: "f64 \<Rightarrow> int" where
  "fscaled b = (if f64_neg b then - int (mag_scaled (f64_mag b)) else int (mag_scaled (f64_mag b)))"

definition f64_nan :: f64 where "f64_nan = 0x7FF8000000000001"

definition fscale :: nat where "fscale = 2 ^ 1074"

lemma fscale_pos [simp]: "0 < fscale" "fscale \<noteq> 0" by (simp_all add: fscale_def)

lemma mk_f64_word: "m < 2 ^ 63 \<Longrightarrow> unat (mk_f64 neg m) = (if neg then 2 ^ 63 + m else m)"
  by (simp add: mk_f64_def unat_of_nat take_bit_nat_eq_self)

lemma f64_mag_mk [simp]: "m < 2 ^ 63 \<Longrightarrow> f64_mag (mk_f64 neg m) = m"
  by (simp add: f64_mag_def mk_f64_word)

lemma f64_neg_mk [simp]: "m < 2 ^ 63 \<Longrightarrow> f64_neg (mk_f64 neg m) = neg"
  by (simp add: f64_neg_def mk_f64_word)

lemma f64_mag_less: "f64_mag b < 2 ^ 63"
  by (simp add: f64_mag_def)

lemma mk_f64_id [simp]: "mk_f64 (f64_neg b) (f64_mag b) = b"
proof -
  have "unat b < 2 ^ 64" using unsigned_less [of b, where ?'a = nat] by simp
  then have "unat b = (if f64_neg b then 2 ^ 63 + f64_mag b else f64_mag b)"
    by (simp add: f64_neg_def f64_mag_def le_mod_geq)
  then show ?thesis unfolding mk_f64_def by (simp flip: \<open>unat b = _\<close>)
qed

lemma inf_mag_less: "inf_mag < 2 ^ 63" by (simp add: inf_mag_def)

lemma mag_le_inf: "m \<le> inf_mag \<Longrightarrow> m < 2 ^ 63" using inf_mag_less by simp

lemma fscaled_mk:
  "m \<le> inf_mag \<Longrightarrow> fscaled (mk_f64 neg m) = (if neg then - int (mag_scaled m) else int (mag_scaled m))"
  using mag_le_inf [of m] by (simp add: fscaled_def)

lemma is_nan_mk: "m \<le> inf_mag \<Longrightarrow> \<not> is_nan (mk_f64 neg m)"
  using mag_le_inf [of m] by (simp add: is_nan_def)

subsection \<open>Comparison, conversion and arithmetic\<close>

definition f64_eq :: "f64 \<Rightarrow> f64 \<Rightarrow> bool" where
  "f64_eq a b = (\<not> is_nan a \<and> \<not> is_nan b \<and> fscaled a = fscaled b)"
definition f64_lt :: "f64 \<Rightarrow> f64 \<Rightarrow> bool" where
  "f64_lt a b = (\<not> is_nan a \<and> \<not> is_nan b \<and> fscaled a < fscaled b)"
definition f64_le :: "f64 \<Rightarrow> f64 \<Rightarrow> bool" where
  "f64_le a b = (\<not> is_nan a \<and> \<not> is_nan b \<and> fscaled a \<le> fscaled b)"

definition f64_of_int :: "int \<Rightarrow> f64" where
  "f64_of_int i = mk_f64 (i < 0) (round_mag (nat \<bar>i\<bar> * fscale) 1)"

definition f64_trunc :: "f64 \<Rightarrow> int" where
  "f64_trunc b = (if f64_neg b then - int (mag_scaled (f64_mag b) div fscale)
     else int (mag_scaled (f64_mag b) div fscale))"

text \<open>
  The conversion \<open>int64(f)\<close>. Go leaves the result implementation-defined when the truncated value
  is out of range (or \<open>f\<close> is NaN): \<open>cvt\<close> stands for what the platform gives there.
\<close>

definition f64_to_int64 :: "(f64 \<Rightarrow> i64) \<Rightarrow> f64 \<Rightarrow> i64" where
  "f64_to_int64 cvt b =
     (if \<not> is_nan b \<and> min_int64 \<le> f64_trunc b \<and> f64_trunc b \<le> max_int64
      then word_of_int (f64_trunc b) else cvt b)"

definition f64_uminus :: "f64 \<Rightarrow> f64" where "f64_uminus b = mk_f64 (\<not> f64_neg b) (f64_mag b)"

definition f64_floor :: "f64 \<Rightarrow> f64" where
  "f64_floor b =
     (if is_nan b \<or> is_inf b \<or> f64_mag b = 0 then b else f64_of_int (fscaled b div int fscale))"

definition f64_ceil :: "f64 \<Rightarrow> f64" where "f64_ceil b = f64_uminus (f64_floor (f64_uminus b))"

definition f64_add :: "f64 \<Rightarrow> f64 \<Rightarrow> f64" where
  "f64_add a b =
     (if is_nan a \<or> is_nan b then f64_nan
      else if is_inf a then (if is_inf b \<and> f64_neg a \<noteq> f64_neg b then f64_nan else a)
      else if is_inf b then b
      else let s = fscaled a + fscaled b in
        if s = 0 then mk_f64 (f64_neg a \<and> f64_neg b) 0 else mk_f64 (s < 0) (round_mag (nat \<bar>s\<bar>) 1))"

definition f64_sub :: "f64 \<Rightarrow> f64 \<Rightarrow> f64" where "f64_sub a b = f64_add a (f64_uminus b)"

definition f64_mul :: "f64 \<Rightarrow> f64 \<Rightarrow> f64" where
  "f64_mul a b =
     (let neg = (f64_neg a \<noteq> f64_neg b) in
      if is_nan a \<or> is_nan b then f64_nan
      else if is_inf a \<or> is_inf b then
        (if f64_mag a = 0 \<or> f64_mag b = 0 then f64_nan else mk_f64 neg inf_mag)
      else mk_f64 neg (round_mag (mag_scaled (f64_mag a) * mag_scaled (f64_mag b)) fscale))"

definition f64_div :: "f64 \<Rightarrow> f64 \<Rightarrow> f64" where
  "f64_div a b =
     (let neg = (f64_neg a \<noteq> f64_neg b) in
      if is_nan a \<or> is_nan b then f64_nan
      else if is_inf a then (if is_inf b then f64_nan else mk_f64 neg inf_mag)
      else if is_inf b then mk_f64 neg 0
      else if f64_mag b = 0 then (if f64_mag a = 0 then f64_nan else mk_f64 neg inf_mag)
      else mk_f64 neg (round_mag (mag_scaled (f64_mag a) * fscale) (mag_scaled (f64_mag b))))"

definition f64_mod :: "f64 \<Rightarrow> f64 \<Rightarrow> f64" where
  "f64_mod a b =
     (if is_nan a \<or> is_nan b \<or> is_inf a \<or> f64_mag b = 0 then f64_nan
      else if is_inf b then a
      else mk_f64 (f64_neg a) (round_mag (mag_scaled (f64_mag a) mod mag_scaled (f64_mag b)) 1))"

subsection \<open>Exactness\<close>

lemma abs_fscaled: "\<bar>fscaled b\<bar> = int (mag_scaled (f64_mag b))"
  by (simp add: fscaled_def)

lemma nat_abs_mag: "nat \<bar>fscaled b\<bar> = mag_scaled (f64_mag b)"
  by (simp add: fscaled_def)

lemma f64_of_int_not_nan [simp]: "\<not> is_nan (f64_of_int i)"
  by (simp add: f64_of_int_def is_nan_mk round_mag_le_inf)

lemma fscaled_f64_of_int_round:
  "fscaled (f64_of_int i) = sgn i * int (mag_scaled (round_mag (nat \<bar>i\<bar> * fscale) 1))"
  by (cases "i = 0") (simp_all add: f64_of_int_def fscaled_mk round_mag_le_inf sgn_if)

lemma fscaled_f64_of_int_exact:
  assumes "mag_scaled (round_mag (nat \<bar>i\<bar> * fscale) 1) = nat \<bar>i\<bar> * fscale"
  shows "fscaled (f64_of_int i) = i * int fscale"
  unfolding fscaled_f64_of_int_round assms by (simp add: sgn_mult_abs mult.assoc [symmetric])

lemma fscaled_f64_of_int_small:
  assumes "\<bar>i\<bar> \<le> 2 ^ 53"
  shows "fscaled (f64_of_int i) = i * int fscale"
proof -
  define m j :: nat where "m = (if \<bar>i\<bar> = 2 ^ 53 then 2 ^ 52 else nat \<bar>i\<bar>)"
    and "j = (if \<bar>i\<bar> = 2 ^ 53 then 1075 else 1074)"
  have eq: "nat \<bar>i\<bar> * fscale = m * 2 ^ j" by (simp add: m_def j_def fscale_def)
  have m: "m < 2 ^ 53" using assms by (auto simp: m_def)
  have "m * 2 ^ j \<le> 2 ^ 53 * 2 ^ 1075"
    using m by (intro mult_le_mono power_increasing) (auto simp: j_def)
  also have "\<dots> \<le> mag_scaled inf_mag" by (simp add: mag_scaled_inf)
  finally have "mag_scaled (round_mag (nat \<bar>i\<bar> * fscale) 1) = nat \<bar>i\<bar> * fscale"
    unfolding eq using m by (intro round_mag_exact)
  then show ?thesis by (rule fscaled_f64_of_int_exact)
qed

lemma round_mag_pow2_bound:
  assumes "p \<le> 2 ^ j" "53 \<le> j" "j \<le> 2098"
  shows "mag_scaled (round_mag p 1) \<le> 2 ^ j"
proof (cases "p = 2 ^ j")
  case True
  have "(2 :: nat) ^ j \<le> mag_scaled inf_mag"
    using assms(3) power_increasing [of j 2098 "2 :: nat"] by (simp add: mag_scaled_inf)
  then show ?thesis using round_mag_exact [of 1 j] True by simp
next
  case False
  define k where "k = floorlog 2 p - 53"
  define m where "m = round_div p (2 ^ k)"
  have m: "m \<le> 2 ^ 53" and parts: "mag_scaled (k * 2 ^ 52 + m) = m * 2 ^ k"
    using round_mag_parts [of 1 p] mag_scaled_of_parts [of m k] by (simp_all add: k_def m_def)
  have "floorlog 2 p \<le> j" using False assms(1) by (simp add: floorlog_leI)
  then have "(2 :: nat) ^ k \<le> 2 ^ (j - 53)" by (intro power_increasing) (simp_all add: k_def)
  then have "m * 2 ^ k \<le> 2 ^ 53 * 2 ^ (j - 53)" using m by (intro mult_le_mono)
  also have "\<dots> = 2 ^ j" using assms(2) by (metis le_add_diff_inverse power_add)
  finally have "mag_scaled (k * 2 ^ 52 + m) \<le> 2 ^ j" unfolding parts .
  moreover have "mag_scaled (round_mag p 1) \<le> mag_scaled (k * 2 ^ 52 + m)"
    by (simp add: round_mag_def k_def m_def Let_def)
  ultimately show ?thesis by linarith
qed

lemma fscaled_of_int64_bound: "\<bar>fscaled (f64_of_int (sint (i :: i64)))\<bar> \<le> 2 ^ 63 * int fscale"
proof -
  have "nat \<bar>sint i\<bar> \<le> 2 ^ 63" using sint_i64_range [of i] by simp
  then have "nat \<bar>sint i\<bar> * fscale \<le> 2 ^ (63 + 1074)"
    unfolding fscale_def power_add by (rule mult_le_mono1)
  then have "mag_scaled (round_mag (nat \<bar>sint i\<bar> * fscale) 1) \<le> 2 ^ (63 + 1074)"
    by (rule round_mag_pow2_bound) simp_all
  then have "mag_scaled (round_mag (nat \<bar>sint i\<bar> * fscale) 1) \<le> 2 ^ 63 * fscale"
    unfolding power_add fscale_def .
  then have "int (mag_scaled (round_mag (nat \<bar>sint i\<bar> * fscale) 1)) \<le> int (2 ^ 63 * fscale)"
    by (simp only: of_nat_le_iff)
  then have "int (mag_scaled (round_mag (nat \<bar>sint i\<bar> * fscale) 1)) \<le> 2 ^ 63 * int fscale"
    by (simp only: of_nat_mult of_nat_power of_nat_numeral)
  moreover have "\<bar>sgn (sint i) * int n\<bar> \<le> int n" for n by (simp add: abs_mult sgn_if)
  ultimately show ?thesis unfolding fscaled_f64_of_int_round by (meson order_trans)
qed

lemma fscaled_f64_of_int_dvd: "int fscale dvd fscaled (f64_of_int i)"
proof -
  have "fscale dvd mag_scaled (round_mag (nat \<bar>i\<bar> * fscale) 1)"
    unfolding fscale_def by (rule round_mag_dvd) simp_all
  then show ?thesis unfolding fscaled_f64_of_int_round by (metis dvd_mult int_dvd_int_iff)
qed

lemma floor_representable:
  assumes "f64_mag b \<le> inf_mag"
  defines "i \<equiv> fscaled b div int fscale"
  shows "fscaled (f64_of_int i) = i * int fscale"
proof (cases "mag_scaled (f64_mag b) < 2 ^ 53 * fscale")
  case True
  from True have "int (mag_scaled (f64_mag b)) < int (2 ^ 53 * fscale)"
    by (simp only: of_nat_less_iff)
  then have lt: "\<bar>fscaled b\<bar> < 2 ^ 53 * int fscale"
    unfolding abs_fscaled by (simp only: of_nat_mult of_nat_power of_nat_numeral)
  have F: "0 < int fscale" by simp
  have "i \<le> 2 ^ 53 * int fscale div int fscale"
    unfolding i_def using lt F by (intro zdiv_mono1) linarith+
  moreover have "- (2 ^ 53) * int fscale div int fscale \<le> i"
    unfolding i_def using lt F by (intro zdiv_mono1) linarith+
  moreover have "- (2 ^ 53) * int fscale div int fscale = - (2 ^ 53)"
    "2 ^ 53 * int fscale div int fscale = 2 ^ 53"
    using F by (intro nonzero_mult_div_cancel_right; simp)+
  ultimately have "\<bar>i\<bar> \<le> 2 ^ 53" by linarith
  then show ?thesis by (rule fscaled_f64_of_int_small)
next
  case False
  obtain m j where mj: "mag_scaled (f64_mag b) = m * 2 ^ j" "m < 2 ^ 53"
    using mag_scaled_decompose by blast
  have "fscale dvd mag_scaled (f64_mag b)"
  proof (cases "1074 \<le> j")
    case True
    then show ?thesis unfolding mj(1) fscale_def by (intro dvd_mult le_imp_power_dvd)
  next
    case j: False
    then have "(2 :: nat) ^ j \<le> 2 ^ 1074" by (intro power_increasing) simp_all
    then have "m * 2 ^ j < 2 ^ 53 * 2 ^ 1074"
      using mj(2) by (intro mult_less_le_imp_less) simp_all
    with False mj show ?thesis by (simp add: fscale_def)
  qed
  then have "int fscale dvd fscaled b" by (simp add: fscaled_def)
  then have i: "i * int fscale = fscaled b" by (simp add: i_def)
  then have "nat \<bar>i\<bar> * fscale = mag_scaled (f64_mag b)"
    using nat_abs_mag [of b] by (metis abs_mult abs_of_nat nat_int nat_mult_distrib abs_ge_zero)
  then show ?thesis
    using round_mag_mag_scaled [OF assms(1)] by (intro fscaled_f64_of_int_exact) simp
qed

lemma mag_scaled_inf_fscale: "mag_scaled inf_mag = 2 ^ 1024 * fscale"
  by (simp add: mag_scaled_inf fscale_def)

lemma f64_floor_exact:
  assumes "\<not> is_nan b"
  shows "fscaled (f64_floor b) = fscaled b div int fscale * int fscale" "\<not> is_nan (f64_floor b)"
proof -
  show "fscaled (f64_floor b) = fscaled b div int fscale * int fscale"
  proof (cases "is_inf b \<or> f64_mag b = 0")
    case True
    then have "fscale dvd mag_scaled (f64_mag b)"
      by (auto simp only: is_inf_def mag_scaled_inf_fscale dvd_triv_right mag_scaled_0 dvd_0_right)
    then have "int fscale dvd fscaled b" by (simp add: fscaled_def)
    with True show ?thesis by (auto simp: f64_floor_def)
  next
    case False
    with assms floor_representable [of b] show ?thesis
      by (simp add: f64_floor_def is_nan_def)
  qed
  show "\<not> is_nan (f64_floor b)" using assms by (simp add: f64_floor_def)
qed

lemma f64_uminus_simps [simp]:
  "fscaled (f64_uminus b) = - fscaled b" "is_nan (f64_uminus b) = is_nan b"
  "is_inf (f64_uminus b) = is_inf b" "f64_uminus (f64_uminus b) = b"
  using f64_mag_less [of b]
  by (simp_all add: f64_uminus_def fscaled_def is_nan_def is_inf_def)

lemma f64_ceil_exact:
  assumes "\<not> is_nan b"
  shows "fscaled (f64_ceil b) = - ((- fscaled b) div int fscale) * int fscale"
    "\<not> is_nan (f64_ceil b)"
  using f64_floor_exact [of "f64_uminus b"] assms by (simp_all add: f64_ceil_def)

lemma f64_trunc_dvd:
  assumes "int fscale dvd fscaled b"
  shows "f64_trunc b * int fscale = fscaled b"
proof -
  from assms have "fscale dvd mag_scaled (f64_mag b)"
    by (simp add: fscaled_def split: if_splits)
  then have "mag_scaled (f64_mag b) div fscale * fscale = mag_scaled (f64_mag b)" by simp
  then show ?thesis
    unfolding f64_trunc_def fscaled_def by (cases "f64_neg b") (simp_all flip: of_nat_mult)
qed

end
