(* ===== verification/Values.thy ===== *)
theory Values
  imports Float64
begin

text \<open>
  Runtime values (lobject.go, the type names of lobject_gc.go and the weak cells of lgc_weak.go).
  The Go \<open>Value\<close> struct (a tag, a scalar and a pointer) is the datatype \<open>Value\<close> with a constructor
  per tag; integers and floats carry their 64 bits, strings their bytes, collectable objects the
  address of the object. A weak cell carries the tag and the address of its referent, and
  \<open>alive\<close> (what \<open>weak.Pointer\<close> reports: whether the collector has kept the referent) is a parameter
  of the operations that look through it.
\<close>

type_synonym bytes = "byte list"
type_synonym ptr = nat

definition lit :: "string \<Rightarrow> bytes" where "lit s = map of_char s"

datatype vtag = tagNil | tagFalse | tagTrue | tagInt | tagFloat | tagString | tagTable
  | tagFunction | tagUserData | tagThread | tagLightUserData | tagWeakRef

datatype Value = VNil | VFalse | VTrue | VInt i64 | VFloat f64 | VString bytes | VTable ptr
  | VFunction ptr | VUserData ptr | VThread ptr | VLightUserData ptr | VWeakRef vtag ptr

fun tag :: "Value \<Rightarrow> vtag" where
  "tag VNil = tagNil" | "tag VFalse = tagFalse" | "tag VTrue = tagTrue" | "tag (VInt _) = tagInt"
| "tag (VFloat _) = tagFloat" | "tag (VString _) = tagString" | "tag (VTable _) = tagTable"
| "tag (VFunction _) = tagFunction" | "tag (VUserData _) = tagUserData"
| "tag (VThread _) = tagThread" | "tag (VLightUserData _) = tagLightUserData"
| "tag (VWeakRef _ _) = tagWeakRef"

text \<open>The \<open>gc\<close> field: the object's address, nil (0) for the scalars.\<close>

fun gc :: "Value \<Rightarrow> ptr" where
  "gc (VTable p) = p" | "gc (VFunction p) = p" | "gc (VUserData p) = p" | "gc (VThread p) = p"
| "gc (VLightUserData p) = p" | "gc (VWeakRef _ p) = p" | "gc _ = 0"

definition Bool :: "bool \<Rightarrow> Value" where "Bool b = (if b then VTrue else VFalse)"

definition IsNil :: "Value \<Rightarrow> bool" where "IsNil v = (tag v = tagNil)"
definition IsBool :: "Value \<Rightarrow> bool" where "IsBool v = (tag v = tagFalse \<or> tag v = tagTrue)"
definition IsInt :: "Value \<Rightarrow> bool" where "IsInt v = (tag v = tagInt)"
definition IsFloat :: "Value \<Rightarrow> bool" where "IsFloat v = (tag v = tagFloat)"
definition IsNumber :: "Value \<Rightarrow> bool" where "IsNumber v = (tag v = tagInt \<or> tag v = tagFloat)"
definition IsString :: "Value \<Rightarrow> bool" where "IsString v = (tag v = tagString)"
definition IsFalsy :: "Value \<Rightarrow> bool" where "IsFalsy v = (tag v = tagNil \<or> tag v = tagFalse)"

lemmas value_predicates [simp] =
  IsNil_def IsBool_def IsInt_def IsFloat_def IsNumber_def IsString_def IsFalsy_def

fun Type :: "Value \<Rightarrow> int" where
  "Type VNil = 0" | "Type VFalse = 1" | "Type VTrue = 1" | "Type (VInt _) = 3"
| "Type (VFloat _) = 3" | "Type (VString _) = 4" | "Type (VTable _) = 5" | "Type (VFunction _) = 6"
| "Type (VUserData _) = 7" | "Type (VThread _) = 8" | "Type (VLightUserData _) = 2"
| "Type (VWeakRef _ _) = 0"

fun typeName :: "Value \<Rightarrow> string" where
  "typeName VNil = ''nil''" | "typeName VFalse = ''boolean''" | "typeName VTrue = ''boolean''"
| "typeName (VInt _) = ''number''" | "typeName (VFloat _) = ''number''"
| "typeName (VString _) = ''string''" | "typeName (VTable _) = ''table''"
| "typeName (VFunction _) = ''function''" | "typeName (VUserData _) = ''userdata''"
| "typeName (VThread _) = ''thread''" | "typeName (VLightUserData _) = ''userdata''"
| "typeName (VWeakRef _ _) = ''no value''"

subsection \<open>Primitive equality\<close>

text \<open>
  \<open>RawEqual\<close>. Objects compare by address; the mixed integer/float case converts in both directions
  (\<open>cvt\<close>: the platform's out-of-range \<open>int64(f)\<close>). Two weak cells compare by the address of the
  cell, which the model does not have; they never reach this function (ltable.go reads them back).
\<close>

definition mixedEqual :: "(f64 \<Rightarrow> i64) \<Rightarrow> i64 \<Rightarrow> f64 \<Rightarrow> bool" where
  "mixedEqual cvt i f = (f64_eq (f64_of_int (sint i)) f \<and> f64_to_int64 cvt f = i)"

definition RawEqual :: "(f64 \<Rightarrow> i64) \<Rightarrow> Value \<Rightarrow> Value \<Rightarrow> bool" where
  "RawEqual cvt a b =
     (case a of
        VInt x \<Rightarrow> (case b of VInt y \<Rightarrow> x = y | VFloat y \<Rightarrow> mixedEqual cvt x y | _ \<Rightarrow> False)
      | VFloat x \<Rightarrow> (case b of VFloat y \<Rightarrow> f64_eq x y | VInt y \<Rightarrow> mixedEqual cvt y x | _ \<Rightarrow> False)
      | VString x \<Rightarrow> (case b of VString y \<Rightarrow> x = y | _ \<Rightarrow> False)
      | _ \<Rightarrow> tag a = tag b \<and> gc a = gc b)"

subsection \<open>Weak cells\<close>

definition collectableTag :: "vtag \<Rightarrow> bool" where
  "collectableTag t = (t \<in> {tagTable, tagFunction, tagUserData, tagThread})"

fun mkWeak :: "Value \<Rightarrow> Value" where
  "mkWeak (VTable p) = VWeakRef tagTable p"
| "mkWeak (VFunction p) = VWeakRef tagFunction p"
| "mkWeak (VUserData p) = VWeakRef tagUserData p"
| "mkWeak (VThread p) = VWeakRef tagThread p"
| "mkWeak v = v"

text \<open>\<open>Value{tag: c.origTag, gc: p}\<close>; a cell's tag is one of the four collectable ones.\<close>

fun mkObj :: "vtag \<Rightarrow> ptr \<Rightarrow> Value" where
  "mkObj tagTable p = VTable p"
| "mkObj tagFunction p = VFunction p"
| "mkObj tagUserData p = VUserData p"
| "mkObj tagThread p = VThread p"
| "mkObj _ p = VNil"

fun deref :: "(ptr \<Rightarrow> bool) \<Rightarrow> Value \<Rightarrow> Value" where
  "deref alive (VWeakRef t p) = (if alive p then mkObj t p else VNil)"
| "deref alive v = v"

fun isDeadWeak :: "(ptr \<Rightarrow> bool) \<Rightarrow> Value \<Rightarrow> bool" where
  "isDeadWeak alive (VWeakRef t p) = (\<not> alive p)"
| "isDeadWeak alive v = False"

lemma collectableTag_simps [simp]:
  "collectableTag tagTable" "collectableTag tagFunction" "collectableTag tagUserData"
  "collectableTag tagThread" "\<not> collectableTag tagNil" "\<not> collectableTag tagFalse"
  "\<not> collectableTag tagTrue" "\<not> collectableTag tagInt" "\<not> collectableTag tagFloat"
  "\<not> collectableTag tagString" "\<not> collectableTag tagLightUserData" "\<not> collectableTag tagWeakRef"
  by (simp_all add: collectableTag_def)

text \<open>Values the program outside the table module can see: no weak cell.\<close>

definition strong :: "Value \<Rightarrow> bool" where "strong v = (tag v \<noteq> tagWeakRef)"

text \<open>What a table slot may hold: a strong value, or a cell for a collectable object.\<close>

fun slot_ok :: "Value \<Rightarrow> bool" where
  "slot_ok (VWeakRef t p) = collectableTag t"
| "slot_ok v = True"

lemma mkWeak_idem [simp]: "mkWeak (mkWeak v) = mkWeak v"
  by (cases v) simp_all

lemma mkWeak_nil_iff [simp]: "mkWeak v = VNil \<longleftrightarrow> v = VNil"
  by (cases v) simp_all

lemma tag_nil_iff [simp]: "tag v = tagNil \<longleftrightarrow> v = VNil"
  by (cases v) simp_all

lemma slot_ok_mkWeak [simp]: "slot_ok v \<Longrightarrow> slot_ok (mkWeak v)"
  by (cases v) simp_all

lemma strong_slot_ok [simp]: "strong v \<Longrightarrow> slot_ok v"
  by (cases v) (simp_all add: strong_def)

lemma deref_strong [simp]: "strong v \<Longrightarrow> deref alive v = v"
  by (cases v) (simp_all add: strong_def)

lemma strong_deref: "slot_ok v \<Longrightarrow> strong (deref alive v)"
proof (cases v)
  case (VWeakRef t p)
  then show "slot_ok v \<Longrightarrow> strong (deref alive v)" by (cases t) (simp_all add: strong_def)
qed (simp_all add: strong_def)

lemma deref_mkWeak: "strong v \<Longrightarrow> deref alive (mkWeak v) = (if collectableTag (tag v) \<and> \<not> alive (gc v) then VNil else v)"
  by (cases v) (simp_all add: strong_def)

lemma deref_nil_iff: "slot_ok v \<Longrightarrow> deref alive v = VNil \<longleftrightarrow> v = VNil \<or> isDeadWeak alive v"
proof (cases v)
  case (VWeakRef t p)
  then show "slot_ok v \<Longrightarrow> deref alive v = VNil \<longleftrightarrow> v = VNil \<or> isDeadWeak alive v"
    by (cases t) simp_all
qed simp_all

subsection \<open>Mixed equality is exact\<close>

lemma mixedEqual_exact:
  assumes "fscaled f \<noteq> 2 ^ 63 * int fscale"
  shows "mixedEqual cvt i f \<longleftrightarrow> \<not> is_nan f \<and> fscaled f = sint i * int fscale"
proof
  assume "mixedEqual cvt i f"
  then have nan: "\<not> is_nan f" and eq: "fscaled f = fscaled (f64_of_int (sint i))"
    and conv: "f64_to_int64 cvt f = i"
    by (auto simp: mixedEqual_def f64_eq_def)
  have tr: "f64_trunc f * int fscale = fscaled f"
    unfolding eq using f64_trunc_dvd fscaled_f64_of_int_dvd eq by simp
  have "\<bar>f64_trunc f\<bar> * int fscale \<le> 2 ^ 63 * int fscale"
    using fscaled_of_int64_bound [of i] tr eq by (metis abs_mult abs_of_nat)
  then have "\<bar>f64_trunc f\<bar> \<le> 2 ^ 63" by (rule mult_right_le_imp_le) simp
  moreover have "f64_trunc f \<noteq> 2 ^ 63" using assms tr by metis
  ultimately have rng: "min_int64 \<le> f64_trunc f \<and> f64_trunc f \<le> max_int64" by linarith
  then have "word_of_int (f64_trunc f) = i" using conv nan by (simp add: f64_to_int64_def)
  then have "sint i = f64_trunc f" using rng sint_of_int_id by blast
  with nan tr show "\<not> is_nan f \<and> fscaled f = sint i * int fscale" by simp
next
  assume r: "\<not> is_nan f \<and> fscaled f = sint i * int fscale"
  then have "nat \<bar>sint i\<bar> * fscale = mag_scaled (f64_mag f)"
    using nat_abs_mag [of f] by (metis abs_mult abs_of_nat nat_int nat_mult_distrib abs_ge_zero)
  moreover have "f64_mag f \<le> inf_mag" using r by (simp add: is_nan_def)
  ultimately have "fscaled (f64_of_int (sint i)) = fscaled f"
    using r round_mag_mag_scaled fscaled_f64_of_int_exact by metis
  moreover have "f64_trunc f * int fscale = sint i * int fscale"
    using f64_trunc_dvd [of f] r by simp
  then have "f64_trunc f = sint i" using fscale_pos by simp
  ultimately show "mixedEqual cvt i f"
    using r sint_i64_range [of i]
    by (simp add: mixedEqual_def f64_eq_def f64_to_int64_def)
qed

text \<open>
  an integer equals a float exactly when the float is that mathematical integer, for every
  integer and every float except $2^{63}$, the one float that an integer can round to and that
  \<open>int64\<close> cannot hold.
\<close>

lemma RawEqual_int_float_exact:
  assumes "fscaled f \<noteq> 2 ^ 63 * int fscale"
  shows "RawEqual cvt (VInt i) (VFloat f) \<longleftrightarrow> \<not> is_nan f \<and> fscaled f = sint i * int fscale"
  using mixedEqual_exact [OF assms] by (simp add: RawEqual_def)

lemma RawEqual_int_float_exact_witness:
  "RawEqual (\<lambda>_. 0) (VInt 3) (VFloat (f64_of_int 3)) \<and> fscaled (f64_of_int 3) = 3 * int fscale"
proof -
  have v: "fscaled (f64_of_int 3) = 3 * int fscale" by (simp add: fscaled_f64_of_int_small)
  then show ?thesis using RawEqual_int_float_exact [of "f64_of_int 3" "\<lambda>_. 0" 3] by simp
qed

definition two63 :: f64 where "two63 = 0x43E0000000000000"

lemma two63_mag: "mag_scaled 0x43E0000000000000 = 2 ^ 63 * fscale"
proof -
  have "mag_scaled (1085 * 2 ^ 52 + 2 ^ 52) = 2 ^ 52 * 2 ^ 1085"
    by (rule mag_scaled_normal) simp_all
  also have "\<dots> = 2 ^ 63 * fscale" unfolding fscale_def by (simp only: power_add [symmetric]) simp
  finally show ?thesis by simp
qed

lemma two63_value: "\<not> is_nan two63" "fscaled two63 = 2 ^ 63 * int fscale"
  by (simp_all add: two63_def is_nan_def fscaled_def f64_mag_def f64_neg_def inf_mag_def two63_mag)

lemma maxint_rounds_up: "fscaled (f64_of_int max_int64) = fscaled two63"
proof -
  have "floorlog 2 (2 ^ 63 - 1) = 63" by (simp add: compute_floorlog)
  then have "round_mag ((2 ^ 63 - 1) * fscale) 1 = 0x43E0000000000000"
    unfolding fscale_def by (subst round_mag_large_int) (simp_all add: round_div_def inf_mag_def)
  moreover have "nat \<bar>max_int64\<bar> = 2 ^ 63 - 1" by simp
  ultimately have "mag_scaled (round_mag (nat \<bar>max_int64\<bar> * fscale) 1) = 2 ^ 63 * fscale"
    by (simp only: two63_mag)
  then show ?thesis unfolding fscaled_f64_of_int_round two63_value by simp
qed

text \<open>
  whether the largest integer equals the float $2^{63}$ (a different number) depends on what the
  platform's \<open>int64\<close> conversion gives for that float: they compare equal where it saturates.
\<close>

lemma RawEqual_maxint_platform:
  "fscaled two63 = (sint (2 ^ 63 - 1 :: i64) + 1) * int fscale \<and>
   (RawEqual cvt (VInt (2 ^ 63 - 1)) (VFloat two63) \<longleftrightarrow> cvt two63 = 2 ^ 63 - 1)"
proof -
  have mx: "sint (2 ^ 63 - 1 :: i64) = max_int64" by simp
  have "f64_trunc two63 * int fscale = 2 ^ 63 * int fscale"
    using f64_trunc_dvd [of two63] two63_value by simp
  then have "f64_trunc two63 = 2 ^ 63" by simp
  then have "f64_to_int64 cvt two63 = cvt two63" by (simp add: f64_to_int64_def)
  moreover have "f64_eq (f64_of_int (sint (2 ^ 63 - 1 :: i64))) two63"
    unfolding mx using maxint_rounds_up two63_value by (simp only: f64_eq_def f64_of_int_not_nan) simp
  ultimately show ?thesis
    unfolding RawEqual_def mixedEqual_def mx two63_value by simp
qed

end
