(* ===== verification/Arith.thy ===== *)
theory Arith
  imports Values "HOL-Library.Signed_Division"
begin

text \<open>
  Raw arithmetic (lvm_arith.go) and the arithmetic helpers of the opcodes (lvm.go, lvm_execute.go).
  Integers are 64-bit words, so the wrap-around of the code is that of the words. Go's \<open>/\<close> and \<open>%\<close>
  truncate and panic on a zero divisor. \<open>pw\<close> is \<open>math.Pow\<close>, which no property depends on.
\<close>

datatype arith_op = OpAdd | OpSub | OpMul | OpMod | OpPow | OpDiv | OpIDiv | OpBAnd | OpBOr | OpBXor
  | OpShl | OpShr | OpUnm | OpBNot

subsection \<open>Conversions between numbers\<close>

definition minIntF :: f64 where "minIntF = f64_of_int min_int64"

text \<open>Inside the guard the truncated value is in range, so \<open>int64(f)\<close> is exact.\<close>

definition numberToInteger :: "f64 \<Rightarrow> i64 option" where
  "numberToInteger f =
     (if f64_le minIntF f \<and> f64_lt f (f64_uminus minIntF) then Some (word_of_int (f64_trunc f))
      else None)"

definition fltToIntEq :: "f64 \<Rightarrow> i64 option" where
  "fltToIntEq n = (let f = f64_floor n in if \<not> f64_eq n f then None else numberToInteger f)"

fun toIntegerNS :: "Value \<Rightarrow> i64 option" where
  "toIntegerNS (VInt i) = Some i"
| "toIntegerNS (VFloat f) = fltToIntEq f"
| "toIntegerNS _ = None"

fun toNumberNS :: "Value \<Rightarrow> f64 option" where
  "toNumberNS (VFloat f) = Some f"
| "toNumberNS (VInt i) = Some (f64_of_int (sint i))"
| "toNumberNS _ = None"

subsection \<open>Integer operations\<close>

definition go_div :: "i64 \<Rightarrow> i64 \<Rightarrow> i64 res" where
  "go_div m n = (if n = 0 then Inl GoPanic else Inr (word_of_int (sint m sdiv sint n)))"

definition go_rem :: "i64 \<Rightarrow> i64 \<Rightarrow> i64 res" where
  "go_rem m n = (if n = 0 then Inl GoPanic else Inr (word_of_int (sint m smod sint n)))"

definition intMod :: "i64 \<Rightarrow> i64 \<Rightarrow> i64 res" where
  "intMod m n =
     (if n = -1 then Inr 0
      else rbind (go_rem m n) (\<lambda>r. Inr (if r \<noteq> 0 \<and> sint (r XOR n) < 0 then r + n else r)))"

definition intIDiv :: "i64 \<Rightarrow> i64 \<Rightarrow> i64 res" where
  "intIDiv m n =
     (if n = -1 then Inr (0 - m)
      else rbind (go_div m n) (\<lambda>q. rbind (go_rem m n) (\<lambda>r.
        Inr (if sint (m XOR n) < 0 \<and> r \<noteq> 0 then q - 1 else q))))"

definition shiftL :: "i64 \<Rightarrow> i64 \<Rightarrow> i64" where
  "shiftL x y =
     (if sint y < 0 then (if sint y \<le> -64 then 0 else drop_bit (nat (- sint y)) x)
      else if sint y \<ge> 64 then 0 else push_bit (nat (sint y)) x)"

fun intArith :: "arith_op \<Rightarrow> i64 \<Rightarrow> i64 \<Rightarrow> i64 res" where
  "intArith OpAdd v1 v2 = Inr (v1 + v2)"
| "intArith OpSub v1 v2 = Inr (v1 - v2)"
| "intArith OpMul v1 v2 = Inr (v1 * v2)"
| "intArith OpMod v1 v2 = intMod v1 v2"
| "intArith OpIDiv v1 v2 = intIDiv v1 v2"
| "intArith OpBAnd v1 v2 = Inr (v1 AND v2)"
| "intArith OpBOr v1 v2 = Inr (v1 OR v2)"
| "intArith OpBXor v1 v2 = Inr (v1 XOR v2)"
| "intArith OpShl v1 v2 = Inr (shiftL v1 v2)"
| "intArith OpShr v1 v2 = Inr (shiftL v1 (- v2))"
| "intArith OpUnm v1 v2 = Inr (0 - v1)"
| "intArith OpBNot v1 v2 = Inr (NOT 0 XOR v1)"
| "intArith _ v1 v2 = Inr 0"

subsection \<open>Float operations\<close>

definition numMod :: "f64 \<Rightarrow> f64 \<Rightarrow> f64" where
  "numMod a b =
     (let m = f64_mod a b; z = f64_of_int 0 in
      if f64_lt z m then (if f64_lt b z then f64_add m b else m)
      else if f64_lt m z \<and> f64_lt z b then f64_add m b else m)"

fun numArith :: "(f64 \<Rightarrow> f64 \<Rightarrow> f64) \<Rightarrow> arith_op \<Rightarrow> f64 \<Rightarrow> f64 \<Rightarrow> f64" where
  "numArith pw OpAdd v1 v2 = f64_add v1 v2"
| "numArith pw OpSub v1 v2 = f64_sub v1 v2"
| "numArith pw OpMul v1 v2 = f64_mul v1 v2"
| "numArith pw OpDiv v1 v2 = f64_div v1 v2"
| "numArith pw OpPow v1 v2 = pw v1 v2"
| "numArith pw OpIDiv v1 v2 = f64_floor (f64_div v1 v2)"
| "numArith pw OpUnm v1 v2 = f64_uminus v1"
| "numArith pw OpMod v1 v2 = numMod v1 v2"
| "numArith pw _ v1 v2 = f64_of_int 0"

subsection \<open>Arithmetic on values\<close>

text \<open>\<open>None\<close> is \<open>ok = false\<close>: the caller tries a metamethod.\<close>

definition intResult :: "i64 res \<Rightarrow> Value option res" where
  "intResult r = rbind r (\<lambda>i. Inr (Some (VInt i)))"

definition fltResult :: "f64 option \<Rightarrow> f64 option \<Rightarrow> (f64 \<Rightarrow> f64 \<Rightarrow> f64) \<Rightarrow> Value option" where
  "fltResult n1 n2 f =
     (case (n1, n2) of (Some x, Some y) \<Rightarrow> Some (VFloat (f x y)) | _ \<Rightarrow> None)"

definition rawArith ::
  "(f64 \<Rightarrow> f64 \<Rightarrow> f64) \<Rightarrow> arith_op \<Rightarrow> Value \<Rightarrow> Value \<Rightarrow> Value option res" where
  "rawArith pw opr p1 p2 =
     (if opr \<in> {OpBAnd, OpBOr, OpBXor, OpShl, OpShr, OpBNot} then
        (case (toIntegerNS p1, toIntegerNS p2) of
           (Some i1, Some i2) \<Rightarrow> intResult (intArith opr i1 i2) | _ \<Rightarrow> Inr None)
      else if opr \<in> {OpDiv, OpPow} then
        Inr (fltResult (toNumberNS p1) (toNumberNS p2) (numArith pw opr))
      else
        (case (p1, p2) of
           (VInt i1, VInt i2) \<Rightarrow> intResult (intArith opr i1 i2)
         | _ \<Rightarrow> Inr (fltResult (toNumberNS p1) (toNumberNS p2) (numArith pw opr))))"

subsection \<open>The opcodes' own fast paths\<close>

definition arithIF :: "(i64 \<Rightarrow> i64 \<Rightarrow> i64) \<Rightarrow> (f64 \<Rightarrow> f64 \<Rightarrow> f64) \<Rightarrow> Value \<Rightarrow> Value \<Rightarrow> Value option" where
  "arithIF iop fop v1 v2 =
     (case (v1, v2) of (VInt i1, VInt i2) \<Rightarrow> Some (VInt (iop i1 i2))
      | _ \<Rightarrow> (case toNumberNS v1 of None \<Rightarrow> None
          | Some n1 \<Rightarrow> (case toNumberNS v2 of None \<Rightarrow> None | Some n2 \<Rightarrow> Some (VFloat (fop n1 n2)))))"

definition addIF :: "Value \<Rightarrow> Value \<Rightarrow> Value option" where "addIF = arithIF (+) f64_add"
definition subIF :: "Value \<Rightarrow> Value \<Rightarrow> Value option" where "subIF = arithIF (-) f64_sub"
definition mulIF :: "Value \<Rightarrow> Value \<Rightarrow> Value option" where "mulIF = arithIF (*) f64_mul"

definition arithFlt :: "Value \<Rightarrow> Value \<Rightarrow> (f64 \<Rightarrow> f64 \<Rightarrow> f64) \<Rightarrow> Value option" where
  "arithFlt v1 v2 fop = fltResult (toNumberNS v1) (toNumberNS v2) fop"

definition bitIF :: "(i64 \<Rightarrow> i64 \<Rightarrow> i64) \<Rightarrow> Value \<Rightarrow> Value \<Rightarrow> Value option" where
  "bitIF iop v1 v2 =
     (case toIntegerNS v1 of None \<Rightarrow> None
      | Some i1 \<Rightarrow> (case toIntegerNS v2 of None \<Rightarrow> None | Some i2 \<Rightarrow> Some (VInt (iop i1 i2))))"

definition iShr :: "i64 \<Rightarrow> i64 \<Rightarrow> i64" where "iShr a b = shiftL a (- b)"

definition bandIF :: "Value \<Rightarrow> Value \<Rightarrow> Value option" where "bandIF = bitIF (AND)"
definition borIF :: "Value \<Rightarrow> Value \<Rightarrow> Value option" where "borIF = bitIF (OR)"
definition bxorIF :: "Value \<Rightarrow> Value \<Rightarrow> Value option" where "bxorIF = bitIF (XOR)"
definition shlIF :: "Value \<Rightarrow> Value \<Rightarrow> Value option" where "shlIF = bitIF shiftL"
definition shrIF :: "Value \<Rightarrow> Value \<Rightarrow> Value option" where "shrIF = bitIF iShr"

text \<open>
  \<open>arithMod\<close> and \<open>arithIDiv\<close> check the divisor first and raise; the result that they store into the
  stack is returned (\<open>None\<close>: they return false and the metamethod follows).
\<close>

definition arithMod :: "Value \<Rightarrow> Value \<Rightarrow> Value option res" where
  "arithMod v1 v2 =
     (case (v1, v2) of
        (VInt i1, VInt i2) \<Rightarrow>
          if i2 = 0 then Inl (LuaError (''attempt to perform '' @ [CHR 39] @ ''n%0'' @ [CHR 39])) else intResult (intMod i1 i2)
      | _ \<Rightarrow> Inr (fltResult (toNumberNS v1) (toNumberNS v2) numMod))"

definition arithIDiv :: "Value \<Rightarrow> Value \<Rightarrow> Value option res" where
  "arithIDiv v1 v2 =
     (case (v1, v2) of
        (VInt i1, VInt i2) \<Rightarrow>
          if i2 = 0 then Inl (LuaError ''attempt to divide by zero'') else intResult (intIDiv i1 i2)
      | _ \<Rightarrow> Inr (fltResult (toNumberNS v1) (toNumberNS v2) (\<lambda>a b. f64_floor (f64_div a b))))"

definition addImm :: "Value \<Rightarrow> int \<Rightarrow> Value option" where
  "addImm v1 imm =
     (case v1 of VInt i \<Rightarrow> Some (VInt (i + word_of_int imm))
      | VFloat f \<Rightarrow> Some (VFloat (f64_add f (f64_of_int imm))) | _ \<Rightarrow> None)"

subsection \<open>Floored division from truncated division\<close>

lemma trunc_div_mod:
  fixes k l :: int
  assumes "l \<noteq> 0"
  shows "k = l * (k sdiv l) + k smod l" "\<bar>k smod l\<bar> < \<bar>l\<bar>"
    "0 \<le> k \<Longrightarrow> 0 \<le> k smod l" "k \<le> 0 \<Longrightarrow> k smod l \<le> 0"
proof -
  show "k = l * (k sdiv l) + k smod l" by (simp add: mult_sdiv_smod_eq)
  show "\<bar>k smod l\<bar> < \<bar>l\<bar>" "0 \<le> k \<Longrightarrow> 0 \<le> k smod l" "k \<le> 0 \<Longrightarrow> k smod l \<le> 0"
    using assms by (simp_all add: signed_modulo_int_def abs_mult sgn_if)
qed

lemma floored_from_truncated:
  fixes k l :: int
  assumes "l \<noteq> 0"
  defines "q \<equiv> k sdiv l" and "r \<equiv> k smod l"
  shows "k div l = (if r \<noteq> 0 \<and> (r < 0) \<noteq> (l < 0) then q - 1 else q)"
    "k mod l = (if r \<noteq> 0 \<and> (r < 0) \<noteq> (l < 0) then r + l else r)"
proof -
  have k: "k = l * q + r" and r: "\<bar>r\<bar> < \<bar>l\<bar>"
    using trunc_div_mod [OF assms(1), of k] by (simp_all add: q_def r_def)
  define q' r' where "q' = (if r \<noteq> 0 \<and> (r < 0) \<noteq> (l < 0) then q - 1 else q)"
    and "r' = (if r \<noteq> 0 \<and> (r < 0) \<noteq> (l < 0) then r + l else r)"
  have eq: "k = l * q' + r'" using k by (simp add: q'_def r'_def algebra_simps)
  have "k div l = q' \<and> k mod l = r'"
  proof (cases "0 < l")
    case True
    with r have "0 \<le> r'" "r' < l" by (auto simp: r'_def)
    with eq show ?thesis using int_div_pos_eq int_mod_pos_eq by blast
  next
    case False
    with r have "r' \<le> 0" "l < r'" using assms(1) by (auto simp: r'_def)
    with eq show ?thesis using int_div_neg_eq int_mod_neg_eq by blast
  qed
  then show "k div l = (if r \<noteq> 0 \<and> (r < 0) \<noteq> (l < 0) then q - 1 else q)"
    "k mod l = (if r \<noteq> 0 \<and> (r < 0) \<noteq> (l < 0) then r + l else r)"
    by (simp_all add: q'_def r'_def)
qed

lemma smod_sign_dividend: "(l :: int) \<noteq> 0 \<Longrightarrow> k smod l \<noteq> 0 \<Longrightarrow> (k smod l < 0) = (k < 0)"
  using trunc_div_mod(3,4) [of l k] by linarith

lemma sint_xor_neg: "sint (x XOR y :: i64) < 0 \<longleftrightarrow> (sint x < 0) \<noteq> (sint y < 0)"
  by (simp add: signed_xor_eq)

lemma sint_nonzero: "n \<noteq> 0 \<Longrightarrow> sint (n :: i64) \<noteq> 0"
  using sint_inject_i64 [of n 0] by simp

lemma sint_smod: "n \<noteq> 0 \<Longrightarrow> sint (word_of_int (sint m smod sint n) :: i64) = sint m smod sint (n :: i64)"
proof (rule sint_of_int_id)
  assume "n \<noteq> 0"
  then have "sint n \<noteq> 0" by (rule sint_nonzero)
  then show "min_int64 \<le> sint m smod sint n" "sint m smod sint n \<le> max_int64"
    using trunc_div_mod(2) [of "sint n" "sint m"] sint_i64_range [of n] by linarith+
qed

text \<open>
  C25: integer modulo and floor division, which the code computes from Go's truncated operators with
  a sign correction and a special case for the divisor -1, are the floored operations of
  mathematics reduced to 64 bits, for every non-zero divisor and every dividend, the smallest
  integer divided by -1 included; a zero divisor panics.
\<close>

theorem int_div_mod_floored:
  "intMod m n = (if n = 0 then Inl GoPanic else Inr (word_of_int (sint m mod sint n))) \<and>
   intIDiv m n = (if n = 0 then Inl GoPanic else Inr (word_of_int (sint m div sint n)))"
proof (cases "n = 0 \<or> n = -1")
  case True
  then show ?thesis by (auto simp: intMod_def intIDiv_def go_rem_def go_div_def)
next
  case False
  then have n: "sint n \<noteq> 0" using sint_nonzero by blast
  have r0: "word_of_int (sint m smod sint n) = (0 :: i64) \<longleftrightarrow> sint m smod sint n = 0"
    using sint_smod [of n m] False by (metis signed_0 sint_inject_i64)
  note fl = floored_from_truncated [OF n, of "sint m"]
  have "intMod m n = Inr (word_of_int (sint m mod sint n))"
    using False sint_smod [of n m] unfolding fl(2)
    by (simp add: intMod_def go_rem_def r0 sint_xor_neg)
  moreover have "intIDiv m n = Inr (word_of_int (sint m div sint n))"
    using False smod_sign_dividend [OF n, of "sint m"] unfolding fl(1)
    by (auto simp: intIDiv_def go_rem_def go_div_def r0 sint_xor_neg)
  ultimately show ?thesis using False by simp
qed

subsection \<open>Shifts\<close>

lemma uint_i64_bound: "uint (x :: i64) < 2 ^ 64"
  using unsigned_less [of x, where ?'a = int] by simp

lemma take_bit_uint_i64: "take_bit 64 (uint (x :: i64)) = uint x"
  using uint_i64_bound [of x] by (simp add: take_bit_int_eq_self)

lemma shiftL_left: "0 \<le> sint y \<Longrightarrow> uint (shiftL x y) = uint x * 2 ^ nat (sint y) mod 2 ^ 64"
proof (cases "sint y < 64")
  case True
  assume "0 \<le> sint y"
  with True show ?thesis
    by (simp add: shiftL_def unsigned_push_bit_eq flip: push_bit_eq_mult) (simp add: take_bit_eq_mod)
next
  case False
  assume "0 \<le> sint y"
  from False have "(2 :: int) ^ 64 dvd 2 ^ nat (sint y)" by (intro le_imp_power_dvd) simp
  then have "(2 :: int) ^ 64 dvd uint x * 2 ^ nat (sint y)" by (rule dvd_mult)
  with False show ?thesis by (simp add: shiftL_def)
qed

lemma shiftL_right: "sint y < 0 \<Longrightarrow> uint (shiftL x y) = uint x div 2 ^ nat (- sint y)"
proof (cases "-64 < sint y")
  case True
  assume "sint y < 0"
  with True show ?thesis by (simp add: shiftL_def unsigned_drop_bit_eq take_bit_uint_i64 flip: drop_bit_eq_div)
next
  case False
  assume "sint y < 0"
  have "uint x < 2 ^ 64" by (rule uint_i64_bound)
  also have "(2 :: int) ^ 64 \<le> 2 ^ nat (- sint y)" using False by (intro power_increasing) simp_all
  finally have "uint x div 2 ^ nat (- sint y) = 0" by simp
  with False \<open>sint y < 0\<close> show ?thesis by (simp add: shiftL_def)
qed

lemma sint_uminus: "y \<noteq> - (2 ^ 63) \<Longrightarrow> sint (- y :: i64) = - sint y"
proof -
  assume y: "y \<noteq> - (2 ^ 63)"
  have "sint y \<noteq> min_int64"
  proof
    assume "sint y = min_int64"
    then have "sint y = sint (- (2 ^ 63) :: i64)" by simp
    with y show False by (simp only: sint_inject_i64)
  qed
  then have "sint (word_of_int (- sint y) :: i64) = - sint y"
    using sint_i64_range [of y] by (intro sint_of_int_id) linarith+
  then show ?thesis by simp
qed

text \<open>
  \<open>shiftL\<close> multiplies by a power of two modulo $2^{64}$ for a non-negative distance and divides
  the unsigned value by one for a negative distance, for every distance (those of 64 bits or more
  give 0); the right shift of the language, computed as a left shift by the negated distance, is
  its mirror image, also for the smallest integer, whose negation wraps to itself.
\<close>

lemma shift_spec:
  "uint (shiftL x y) = (if 0 \<le> sint y then uint x * 2 ^ nat (sint y) mod 2 ^ 64
     else uint x div 2 ^ nat (- sint y)) \<and>
   uint (iShr x y) = (if 0 \<le> sint y then uint x div 2 ^ nat (sint y)
     else uint x * 2 ^ nat (- sint y) mod 2 ^ 64)"
proof (intro conjI)
  show "uint (shiftL x y) = (if 0 \<le> sint y then uint x * 2 ^ nat (sint y) mod 2 ^ 64
     else uint x div 2 ^ nat (- sint y))"
    using shiftL_left [of y x] shiftL_right [of y x] by simp
  show "uint (iShr x y) = (if 0 \<le> sint y then uint x div 2 ^ nat (sint y)
     else uint x * 2 ^ nat (- sint y) mod 2 ^ 64)"
  proof (cases "y = - (2 ^ 63)")
    case True
    then have "64 \<le> nat (- sint y)" "sint y < 0" "iShr x y = 0"
      by (simp_all add: iShr_def shiftL_def)
    then have "(2 :: int) ^ 64 dvd uint x * 2 ^ nat (- sint y)"
      by (intro dvd_mult le_imp_power_dvd)
    with \<open>sint y < 0\<close> \<open>iShr x y = 0\<close> show ?thesis by simp
  next
    case False
    then have neg: "sint (- y) = - sint y" by (rule sint_uminus)
    show ?thesis
    proof (cases "0 < sint y")
      case True
      with neg shiftL_right [of "- y" x] show ?thesis by (simp add: iShr_def)
    next
      case False
      with neg shiftL_left [of "- y" x] show ?thesis
        using uint_i64_bound [of x] by (cases "sint y = 0") (simp_all add: iShr_def)
    qed
  qed
qed

subsection \<open>Exact conversion of floats to integers\<close>

lemma minIntF_value: "\<not> is_nan minIntF" "fscaled minIntF = - (2 ^ 63) * int fscale"
proof -
  show "\<not> is_nan minIntF" by (simp add: minIntF_def)
  have "(1 :: nat) * 2 ^ (63 + 1074) \<le> mag_scaled inf_mag"
    unfolding mag_scaled_inf power_add [symmetric] by simp
  then have "mag_scaled (round_mag (1 * 2 ^ (63 + 1074)) 1) = 1 * 2 ^ (63 + 1074)"
    by (intro round_mag_exact) simp_all
  moreover have "nat \<bar>min_int64\<bar> * fscale = 1 * 2 ^ (63 + 1074)"
    unfolding fscale_def power_add by simp
  ultimately show "fscaled minIntF = - (2 ^ 63) * int fscale"
    unfolding minIntF_def by (metis fscaled_f64_of_int_exact)
qed

lemma numberToInteger_exact:
  assumes "int fscale dvd fscaled f"
  shows "numberToInteger f = Some i \<longleftrightarrow> \<not> is_nan f \<and> fscaled f = sint i * int fscale"
proof -
  have tr: "f64_trunc f * int fscale = fscaled f" by (rule f64_trunc_dvd [OF assms])
  have F: "0 < int fscale" by simp
  have le: "(a * int fscale \<le> b * int fscale) = (a \<le> b)"
    "(a * int fscale < b * int fscale) = (a < b)" for a b
    using F by (simp_all add: mult_le_cancel_right mult_less_cancel_right)
  have "f64_le minIntF f \<longleftrightarrow> \<not> is_nan f \<and> - (2 ^ 63) * int fscale \<le> f64_trunc f * int fscale"
    unfolding tr using minIntF_value by (simp add: f64_le_def)
  moreover have "f64_lt f (f64_uminus minIntF) \<longleftrightarrow>
      \<not> is_nan f \<and> f64_trunc f * int fscale < 2 ^ 63 * int fscale"
    unfolding tr using minIntF_value by (simp add: f64_lt_def)
  ultimately have guard: "f64_le minIntF f \<and> f64_lt f (f64_uminus minIntF) \<longleftrightarrow>
      \<not> is_nan f \<and> min_int64 \<le> f64_trunc f \<and> f64_trunc f \<le> max_int64"
    unfolding le by auto
  have val: "fscaled f = sint i * int fscale \<longleftrightarrow> f64_trunc f = sint i"
    unfolding tr [symmetric] using F by simp
  show ?thesis
    unfolding numberToInteger_def guard val
    using sint_of_int_id [of "f64_trunc f"] sint_i64_range [of i] by auto
qed

text \<open>
  A float converts to an integer (as a table key, a bitwise operand or a loop bound) exactly when
  it is that mathematical integer and the integer fits in 64 bits.
\<close>

lemma fltToIntEq_iff:
  "fltToIntEq f = Some i \<longleftrightarrow> \<not> is_nan f \<and> fscaled f = sint i * int fscale"
proof (cases "is_nan f")
  case True
  then show ?thesis by (simp add: fltToIntEq_def f64_eq_def Let_def)
next
  case False
  note fl = f64_floor_exact [OF False]
  show ?thesis
  proof (cases "int fscale dvd fscaled f")
    case True
    then have "fscaled (f64_floor f) = fscaled f" by (simp add: fl)
    with False True fl(2) numberToInteger_exact [of "f64_floor f" i] show ?thesis
      by (simp add: fltToIntEq_def f64_eq_def Let_def)
  next
    case nd: False
    then have "fscaled f \<noteq> fscaled (f64_floor f)" unfolding fl(1) by (metis dvd_triv_right)
    with nd show ?thesis by (auto simp: fltToIntEq_def f64_eq_def Let_def)
  qed
qed

subsection \<open>The opcodes agree with the folded arithmetic\<close>

lemma arithIF_rawArith:
  "opr \<notin> {OpBAnd, OpBOr, OpBXor, OpShl, OpShr, OpBNot, OpDiv, OpPow} \<Longrightarrow>
   (\<And>i j. intArith opr i j = Inr (iop i j)) \<Longrightarrow>
   rawArith pw opr v1 v2 = Inr (arithIF iop (numArith pw opr) v1 v2)"
  by (cases v1; cases v2) (simp_all add: rawArith_def arithIF_def fltResult_def intResult_def)

lemma bitIF_rawArith:
  "opr \<in> {OpBAnd, OpBOr, OpBXor, OpShl, OpShr} \<Longrightarrow> (\<And>i j. intArith opr i j = Inr (iop i j)) \<Longrightarrow>
   rawArith pw opr v1 v2 = Inr (bitIF iop v1 v2)"
  by (auto simp add: rawArith_def bitIF_def intResult_def split: option.splits)

text \<open>
  For every pair of values the specialised paths of the arithmetic and bitwise opcodes compute
  what \<open>rawArith\<close> (which the compiler uses to fold constants) computes; modulo and floor division
  agree as well except that on integers with a zero divisor the opcode raises a Lua error where
  \<open>rawArith\<close> panics.
\<close>

lemma opcode_paths_agree:
  "rawArith pw OpAdd v1 v2 = Inr (addIF v1 v2) \<and>
   rawArith pw OpSub v1 v2 = Inr (subIF v1 v2) \<and>
   rawArith pw OpMul v1 v2 = Inr (mulIF v1 v2) \<and>
   rawArith pw OpDiv v1 v2 = Inr (arithFlt v1 v2 f64_div) \<and>
   rawArith pw OpPow v1 v2 = Inr (arithFlt v1 v2 pw) \<and>
   rawArith pw OpBAnd v1 v2 = Inr (bandIF v1 v2) \<and>
   rawArith pw OpBOr v1 v2 = Inr (borIF v1 v2) \<and>
   rawArith pw OpBXor v1 v2 = Inr (bxorIF v1 v2) \<and>
   rawArith pw OpShl v1 v2 = Inr (shlIF v1 v2) \<and>
   rawArith pw OpShr v1 v2 = Inr (shrIF v1 v2) \<and>
   (if \<exists>i. v1 = VInt i \<and> v2 = VInt 0
    then rawArith pw OpMod v1 v2 = Inl GoPanic \<and> rawArith pw OpIDiv v1 v2 = Inl GoPanic \<and>
      (\<exists>m. arithMod v1 v2 = Inl (LuaError m)) \<and> (\<exists>m. arithIDiv v1 v2 = Inl (LuaError m))
    else rawArith pw OpMod v1 v2 = arithMod v1 v2 \<and> rawArith pw OpIDiv v1 v2 = arithIDiv v1 v2)"
proof -
  have mod: "rawArith pw OpMod v1 v2 = arithMod v1 v2" "rawArith pw OpIDiv v1 v2 = arithIDiv v1 v2"
    if "\<nexists>i. v1 = VInt i \<and> v2 = VInt 0"
    using that by (auto simp: rawArith_def arithMod_def arithIDiv_def fltResult_def fun_eq_iff
        split: Value.splits option.splits)
  have zero: "rawArith pw OpMod v1 v2 = Inl GoPanic \<and> rawArith pw OpIDiv v1 v2 = Inl GoPanic \<and>
      (\<exists>m. arithMod v1 v2 = Inl (LuaError m)) \<and> (\<exists>m. arithIDiv v1 v2 = Inl (LuaError m))"
    if "\<exists>i. v1 = VInt i \<and> v2 = VInt 0"
    using that by (auto simp: rawArith_def arithMod_def arithIDiv_def intResult_def intMod_def
        intIDiv_def go_rem_def go_div_def)
  have flt: "numArith pw OpAdd = f64_add" "numArith pw OpSub = f64_sub" "numArith pw OpMul = f64_mul"
    "numArith pw OpDiv = f64_div" "numArith pw OpPow = pw"
    by (simp_all add: fun_eq_iff)
  have div: "rawArith pw OpDiv v1 v2 = Inr (arithFlt v1 v2 f64_div)"
    "rawArith pw OpPow v1 v2 = Inr (arithFlt v1 v2 pw)"
    by (simp_all add: rawArith_def arithFlt_def flt)
  show ?thesis
    using mod zero
    by (simp add: div arithIF_rawArith [where iop = "(+)"] arithIF_rawArith [where iop = "(-)"]
        arithIF_rawArith [where iop = "(*)"] bitIF_rawArith [where iop = "(AND)"]
        bitIF_rawArith [where iop = "(OR)"] bitIF_rawArith [where iop = "(XOR)"]
        bitIF_rawArith [where iop = shiftL] bitIF_rawArith [where iop = iShr] flt iShr_def
        addIF_def subIF_def mulIF_def bandIF_def borIF_def bxorIF_def shlIF_def shrIF_def)
qed

subsection \<open>Types of results\<close>

definition bitwise_op :: "arith_op \<Rightarrow> bool" where
  "bitwise_op opr = (opr \<in> {OpBAnd, OpBOr, OpBXor, OpShl, OpShr, OpBNot})"

definition arith_operands :: "arith_op \<Rightarrow> Value \<Rightarrow> Value \<Rightarrow> bool" where
  "arith_operands opr v1 v2 =
     (if bitwise_op opr then toIntegerNS v1 \<noteq> None \<and> toIntegerNS v2 \<noteq> None else IsNumber v1 \<and> IsNumber v2)"

definition int_result :: "arith_op \<Rightarrow> Value \<Rightarrow> Value \<Rightarrow> bool" where
  "int_result opr v1 v2 = (bitwise_op opr \<or> opr \<notin> {OpDiv, OpPow} \<and> IsInt v1 \<and> IsInt v2)"

lemma toNumberNS_iff: "toNumberNS v \<noteq> None \<longleftrightarrow> IsNumber v"
  by (cases v) (simp_all add: IsNumber_def)

lemma intArith_total: "opr \<notin> {OpMod, OpIDiv} \<Longrightarrow> \<exists>i. intArith opr a b = Inr i"
  by (cases opr) simp_all

lemma intArith_divides: "opr \<in> {OpMod, OpIDiv} \<Longrightarrow>
   if b = 0 then intArith opr a b = Inl GoPanic else \<exists>i. intArith opr a b = Inr i"
  by (auto simp: intMod_def intIDiv_def go_div_def go_rem_def)

text \<open>
  C22: the type of an arithmetic result depends only on the operator and the types of the operands: bitwise
  operators give integers, division and power give floats, and the others give an integer exactly for two
  integers. There is no result exactly when an operand cannot be converted, and the only failure is an
  integer zero divisor.
\<close>

theorem arith_result_type:
  "case rawArith pw opr v1 v2 of
     Inl e \<Rightarrow> e = GoPanic \<and> opr \<in> {OpMod, OpIDiv} \<and> IsInt v1 \<and> v2 = VInt 0
   | Inr None \<Rightarrow> \<not> arith_operands opr v1 v2
   | Inr (Some r) \<Rightarrow> arith_operands opr v1 v2 \<and> (if int_result opr v1 v2 then IsInt r else IsFloat r)"
proof -
  consider (bitwise) "bitwise_op opr" | (floats) "\<not> bitwise_op opr" "opr \<in> {OpDiv, OpPow} \<or> \<not> (IsInt v1 \<and> IsInt v2)"
    | (ints) i j where "\<not> bitwise_op opr" "opr \<notin> {OpDiv, OpPow}" "v1 = VInt i" "v2 = VInt j"
    by (cases v1; cases v2) (auto simp: IsInt_def)
  then show ?thesis
  proof cases
    case bitwise
    have "\<exists>k. intArith opr i j = Inr k" for i j using bitwise by (intro intArith_total) (auto simp: bitwise_op_def)
    then show ?thesis
      using bitwise unfolding rawArith_def arith_operands_def int_result_def intResult_def
      by (cases "toIntegerNS v1"; cases "toIntegerNS v2") (auto simp: bitwise_op_def IsInt_def rbind_def split: sum.splits)
  next
    case floats
    then have "rawArith pw opr v1 v2 = Inr (fltResult (toNumberNS v1) (toNumberNS v2) (numArith pw opr))"
      by (cases v1; cases v2) (auto simp: rawArith_def bitwise_op_def IsInt_def)
    then show ?thesis
      using floats toNumberNS_iff [of v1] toNumberNS_iff [of v2]
      by (auto simp: fltResult_def arith_operands_def int_result_def IsFloat_def split: option.splits)
  next
    case ints
    then have raw: "rawArith pw opr v1 v2 = intResult (intArith opr i j)" by (simp add: rawArith_def bitwise_op_def)
    show ?thesis
      using ints raw intArith_total [of opr i j] intArith_divides [of opr j i]
      by (cases "opr \<in> {OpMod, OpIDiv}"; cases "j = 0")
        (auto simp: intResult_def arith_operands_def int_result_def IsInt_def IsNumber_def)
  qed
qed

end
