(* ===== verification/Numerals.thy ===== *)
theory Numerals
  imports Arith
begin

text \<open>
  Numerals: the compiler's numeral reader (lobject_num.go) and the run-time coercions between
  strings and numbers (lobject_gc.go). \<open>strconv.ParseFloat\<close> and \<open>fmt.Sprintf\<close>'s \<open>%.14g\<close> are the
  parameters \<open>pf\<close> and \<open>fmtg\<close>; \<open>strings.TrimSpace\<close>, \<open>strconv.ParseInt\<close> in base 10 and
  \<open>strconv.FormatInt\<close> are defined.
\<close>

subsection \<open>Go's standard library\<close>

definition is_digit :: "byte \<Rightarrow> bool" where "is_digit c = (48 \<le> c \<and> c \<le> 57)"

text \<open>The UTF-8 encodings of the Unicode white space characters that \<open>TrimSpace\<close> removes.\<close>

definition space_encodings :: "bytes list" where
  "space_encodings =
     map (\<lambda>c. [c]) [9, 10, 11, 12, 13, 32] @ [[0xC2, 0x85], [0xC2, 0xA0], [0xE1, 0x9A, 0x80]] @
     map (\<lambda>c. [0xE2, 0x80, c]) [0x80, 0x81, 0x82, 0x83, 0x84, 0x85, 0x86, 0x87, 0x88, 0x89, 0x8A,
       0xA8, 0xA9, 0xAF] @
     [[0xE2, 0x81, 0x9F], [0xE3, 0x80, 0x80]]"

definition is_prefix :: "'a list \<Rightarrow> 'a list \<Rightarrow> bool" where
  "is_prefix p s = (take (length p) s = p)"

definition space_width :: "bytes list \<Rightarrow> bytes \<Rightarrow> nat" where
  "space_width encs s =
     (case filter (\<lambda>e. is_prefix e s) encs of [] \<Rightarrow> 0 | e # _ \<Rightarrow> length e)"

fun strip_left :: "bytes list \<Rightarrow> nat \<Rightarrow> bytes \<Rightarrow> bytes" where
  "strip_left encs 0 s = s"
| "strip_left encs (Suc n) s =
     (let w = space_width encs s in if w = 0 then s else strip_left encs n (drop w s))"

text \<open>Each round removes at least one byte, so \<open>length s\<close> rounds are enough.\<close>

definition TrimSpace :: "bytes \<Rightarrow> bytes" where
  "TrimSpace s =
     (let l = strip_left space_encodings (length s) s in
      rev (strip_left (map rev space_encodings) (length l) (rev l)))"

fun digits_value :: "nat \<Rightarrow> bytes \<Rightarrow> nat" where
  "digits_value a [] = a"
| "digits_value a (c # cs) = digits_value (a * 10 + (unat c - 48)) cs"

definition split_sign :: "bytes \<Rightarrow> bool \<times> bytes" where
  "split_sign t = (case t of [] \<Rightarrow> (False, [])
     | c # cs \<Rightarrow> if c = 45 then (True, cs) else if c = 43 then (False, cs) else (False, t))"

definition ParseInt10 :: "bytes \<Rightarrow> i64 option" where
  "ParseInt10 s =
     (let (neg, ds) = split_sign s; v = digits_value 0 ds in
      if ds = [] \<or> \<not> list_all is_digit ds then None
      else if neg then (if v \<le> 2 ^ 63 then Some (- of_nat v) else None)
      else if v < 2 ^ 63 then Some (of_nat v) else None)"

fun format_nat :: "nat \<Rightarrow> bytes" where
  "format_nat n = (if n < 10 then [of_nat (48 + n)] else format_nat (n div 10) @ [of_nat (48 + n mod 10)])"

declare format_nat.simps [simp del]

definition FormatInt :: "int \<Rightarrow> bytes" where
  "FormatInt i = (if i < 0 then 45 # format_nat (nat (- i)) else format_nat (nat i))"

datatype num_error = ErrRange | ErrSyntax

definition ascii_lower :: "byte \<Rightarrow> byte" where
  "ascii_lower c = (if 65 \<le> c \<and> c \<le> 90 then c + 32 else c)"

fun contains :: "'a list \<Rightarrow> 'a list \<Rightarrow> bool" where
  "contains p [] = (p = [])"
| "contains p (c # cs) = (is_prefix p (c # cs) \<or> contains p cs)"

subsection \<open>The compiler's numeral reader (lobject_num.go)\<close>

definition hexDigit :: "byte \<Rightarrow> int" where
  "hexDigit c =
     (if 48 \<le> c \<and> c \<le> 57 then uint (c - 48)
      else if 97 \<le> c \<and> c \<le> 102 then uint (c - 97) + 10
      else if 65 \<le> c \<and> c \<le> 70 then uint (c - 65) + 10 else -1)"

definition parseFloatLua :: "(bytes \<Rightarrow> f64 \<times> num_error option) \<Rightarrow> bytes \<Rightarrow> f64 option" where
  "parseFloatLua pf s =
     (case pf s of (f, None) \<Rightarrow> Some f | (f, Some ErrRange) \<Rightarrow> Some f | (f, Some ErrSyntax) \<Rightarrow> None)"

fun hex_loop :: "i64 \<Rightarrow> bytes \<Rightarrow> i64 option" where
  "hex_loop acc [] = Some acc"
| "hex_loop acc (c # cs) =
     (let d = hexDigit c in if d < 0 then None else hex_loop (acc * 16 + word_of_int d) cs)"

definition parseHexIntWrap :: "bytes \<Rightarrow> i64 option" where
  "parseHexIntWrap s0 =
     (let (neg, s) = split_sign s0 in
      if length s < 3 \<or> s ! 0 \<noteq> 48 \<or> (s ! 1 \<noteq> 120 \<and> s ! 1 \<noteq> 88) then None
      else case hex_loop 0 (drop 2 s) of None \<Rightarrow> None | Some acc \<Rightarrow> Some (if neg then - acc else acc))"

definition parseNumeral :: "(bytes \<Rightarrow> f64 \<times> num_error option) \<Rightarrow> bytes \<Rightarrow> Value option" where
  "parseNumeral pf s0 =
     (let s = TrimSpace s0; lower = map ascii_lower (snd (split_sign s)) in
      if s = [] then None
      else if is_prefix [48, 120] lower then
        (if 46 \<in> set lower \<or> 112 \<in> set lower then
           map_option VFloat (parseFloatLua pf (if 112 \<notin> set lower then s @ [112, 48] else s))
         else map_option VInt (parseHexIntWrap s))
      else if 46 \<in> set lower \<or> 101 \<in> set lower then map_option VFloat (parseFloatLua pf s)
      else case ParseInt10 s of Some i \<Rightarrow> Some (VInt i)
        | None \<Rightarrow> map_option VFloat (parseFloatLua pf s))"

subsection \<open>Run-time coercions (lobject_gc.go)\<close>

definition numToString :: "(f64 \<Rightarrow> bytes) \<Rightarrow> Value \<Rightarrow> bytes" where
  "numToString fmtg v =
     (case v of VInt i \<Rightarrow> FormatInt (sint i)
      | VFloat f \<Rightarrow>
          if is_inf f then (if f64_neg f then lit ''-inf'' else lit ''inf'')
          else if is_nan f then lit ''nan''
          else let s = fmtg f in
            if list_all (\<lambda>c. c = 45 \<or> is_digit c) s then s @ lit ''.0'' else s
      | _ \<Rightarrow> [])"

fun str2int_hex :: "i64 \<Rightarrow> bool \<Rightarrow> bytes \<Rightarrow> (i64 \<times> bool) option" where
  "str2int_hex a emp [] = Some (a, emp)"
| "str2int_hex a emp (c # cs) =
     (if 48 \<le> c \<and> c \<le> 57 then str2int_hex (a * 16 + ucast (c - 48)) False cs
      else if 97 \<le> c \<and> c \<le> 102 then str2int_hex (a * 16 + (ucast (c - 97) + 10)) False cs
      else if 65 \<le> c \<and> c \<le> 70 then str2int_hex (a * 16 + (ucast (c - 65) + 10)) False cs
      else None)"

definition maxBy10 :: i64 where "maxBy10 = (2 ^ 63 - 1) div 10"
definition maxLast :: int where "maxLast = (2 ^ 63 - 1) mod 10"

fun str2int_dec :: "int \<Rightarrow> i64 \<Rightarrow> bool \<Rightarrow> bytes \<Rightarrow> (i64 \<times> bool) option" where
  "str2int_dec ni a emp [] = Some (a, emp)"
| "str2int_dec ni a emp (c # cs) =
     (if c < 48 \<or> c > 57 then None
      else let d = uint (c - 48) in
        if maxBy10 \<le> a \<and> (maxBy10 < a \<or> d > maxLast + ni) then None
        else str2int_dec ni (a * 10 + word_of_int d) False cs)"

definition str2int :: "bytes \<Rightarrow> i64 option" where
  "str2int s =
     (let t0 = TrimSpace s; (neg, t) = split_sign t0 in
      if t0 = [] \<or> t = [] then None
      else case (if 2 \<le> length t \<and> t ! 0 = 48 \<and> (t ! 1 = 120 \<or> t ! 1 = 88)
                 then str2int_hex 0 True (drop 2 t)
                 else str2int_dec (if neg then 1 else 0) 0 True t) of
        None \<Rightarrow> None
      | Some (a, emp) \<Rightarrow> if emp then None else Some (if neg then 0 - a else a))"

definition str2float :: "(bytes \<Rightarrow> f64 \<times> num_error option) \<Rightarrow> bytes \<Rightarrow> f64 option" where
  "str2float pf s =
     (let t = TrimSpace s; low = map ascii_lower t in
      if t = [] then None
      else if contains (lit ''inf'') low \<or> contains (lit ''nan'') low then None
      else parseFloatLua pf
        (if contains (lit ''0x'') low \<and> \<not> contains (lit ''p'') low then t @ lit ''p0'' else t))"

definition str2num :: "(bytes \<Rightarrow> f64 \<times> num_error option) \<Rightarrow> bytes \<Rightarrow> Value option" where
  "str2num pf s =
     (case str2int s of Some i \<Rightarrow> Some (VInt i) | None \<Rightarrow> map_option VFloat (str2float pf s))"

definition tonumberCvt :: "(bytes \<Rightarrow> f64 \<times> num_error option) \<Rightarrow> Value \<Rightarrow> f64 option" where
  "tonumberCvt pf v =
     (case v of VFloat f \<Rightarrow> Some f | VInt i \<Rightarrow> Some (f64_of_int (sint i))
      | VString s \<Rightarrow> (case str2num pf s of None \<Rightarrow> None | Some n \<Rightarrow> toNumberNS n) | _ \<Rightarrow> None)"

definition tointegerCvt :: "(bytes \<Rightarrow> f64 \<times> num_error option) \<Rightarrow> Value \<Rightarrow> i64 option" where
  "tointegerCvt pf v =
     (case v of VString s \<Rightarrow> (case str2num pf s of None \<Rightarrow> None | Some n \<Rightarrow> toIntegerNS n)
      | _ \<Rightarrow> toIntegerNS v)"

definition tonumValue :: "(bytes \<Rightarrow> f64 \<times> num_error option) \<Rightarrow> Value \<Rightarrow> Value option" where
  "tonumValue pf v =
     (if IsNumber v then Some v else case v of VString s \<Rightarrow> str2num pf s | _ \<Rightarrow> None)"

text \<open>
  The arithmetic metamethods that lstrlib.go installs for strings (\<open>installStringArith\<close>): both
  operands are coerced and handed to \<open>rawArith\<close>. \<open>None\<close>: an operand does not coerce, and
  \<open>strTryMT\<close> looks for another metamethod.
\<close>

definition stringArith ::
  "(bytes \<Rightarrow> f64 \<times> num_error option) \<Rightarrow> (f64 \<Rightarrow> f64 \<Rightarrow> f64) \<Rightarrow> arith_op \<Rightarrow> Value \<Rightarrow> Value \<Rightarrow> Value option res"
where
  "stringArith pf pw opr a1 a2 =
     (case (tonumValue pf a1, tonumValue pf a2) of
        (Some a, Some b) \<Rightarrow>
          rbind (rawArith pw opr a b) (\<lambda>r. case r of
            None \<Rightarrow> Inl (LuaError ''number has no integer representation'') | Some v \<Rightarrow> Inr (Some v))
      | _ \<Rightarrow> Inr None)"

subsection \<open>White space and digits\<close>

lemma space_width_0: "list_all (\<lambda>e. e \<noteq> [] \<and> hd e \<noteq> c) encs \<Longrightarrow> space_width encs (c # cs) = 0"
proof -
  assume "list_all (\<lambda>e. e \<noteq> [] \<and> hd e \<noteq> c) encs"
  then have "filter (\<lambda>e. is_prefix e (c # cs)) encs = []"
    by (auto simp: list_all_iff filter_empty_conv is_prefix_def neq_Nil_conv)
  then show ?thesis by (simp add: space_width_def)
qed

lemma strip_left_id: "s \<noteq> [] \<Longrightarrow> list_all (\<lambda>e. e \<noteq> [] \<and> hd e \<noteq> hd s) encs \<Longrightarrow> strip_left encs n s = s"
  by (cases n; cases s) (simp_all add: space_width_0)

definition numeral_char :: "byte \<Rightarrow> bool" where "numeral_char c = (c = 43 \<or> c = 45 \<or> is_digit c)"

lemma numeral_char_no_space:
  assumes "numeral_char c"
  shows "list_all (\<lambda>e. e \<noteq> [] \<and> hd e \<noteq> c) space_encodings"
    "list_all (\<lambda>e. e \<noteq> [] \<and> hd e \<noteq> c) (map rev space_encodings)"
  using assms by (auto simp: numeral_char_def is_digit_def space_encodings_def)

lemma TrimSpace_id: "s \<noteq> [] \<Longrightarrow> numeral_char (hd s) \<Longrightarrow> numeral_char (last s) \<Longrightarrow> TrimSpace s = s"
  by (simp add: TrimSpace_def strip_left_id numeral_char_no_space hd_rev)

lemma digits_value_append: "digits_value a (xs @ ys) = digits_value (digits_value a xs) ys"
  by (induction a xs rule: digits_value.induct) simp_all

lemma digits_value_ge: "a \<le> digits_value a ds"
  by (induction a ds rule: digits_value.induct) simp_all

lemma digit_of_nat: "d < 10 \<Longrightarrow> is_digit (of_nat (48 + d)) \<and> unat (of_nat (48 + d) :: byte) = 48 + d"
proof -
  assume "d < 10"
  then have u: "unat (of_nat (48 + d) :: byte) = 48 + d"
    by (simp add: unat_of_nat take_bit_nat_eq_self del: of_nat_add)
  with \<open>d < 10\<close> show ?thesis
    by (simp add: is_digit_def word_le_nat_alt del: of_nat_add)
qed

lemma format_nat_digits:
  "format_nat n \<noteq> [] \<and> list_all is_digit (format_nat n) \<and> digits_value 0 (format_nat n) = n"
proof (induction n rule: format_nat.induct)
  case (1 n)
  then show ?case
    using digit_of_nat [of n] digit_of_nat [of "n mod 10"]
    by (cases "n < 10") (simp_all add: format_nat.simps [of n] digits_value_append del: of_nat_add)
qed

subsection \<open>Decimal and hexadecimal accumulation\<close>

lemma uint_digit: "is_digit c \<Longrightarrow> uint (c - 48) = int (unat c - 48)" "is_digit c \<Longrightarrow> unat c - 48 < 10"
proof -
  assume d: "is_digit c"
  then have b: "48 \<le> unat c" "unat c \<le> 57" by (simp_all add: is_digit_def word_le_nat_alt)
  then show "unat c - 48 < 10" by simp
  have "unat (c - 48) = unat c - 48"
    using b(1) by (subst unat_sub) (simp_all add: word_le_nat_alt)
  then show "uint (c - 48) = int (unat c - 48)" by (metis of_nat_unat)
qed

lemma maxBy10_value: "unat maxBy10 = 922337203685477580" "maxLast = 7"
  by (simp_all add: maxBy10_def maxLast_def)

lemma dec_guard:
  fixes a :: i64
  assumes "d < 10" "ni = 0 \<or> ni = 1" "unat a \<le> 2 ^ 63 - 1 + ni"
  shows "maxBy10 \<le> a \<and> (maxBy10 < a \<or> int d > maxLast + int ni) \<longleftrightarrow> 2 ^ 63 - 1 + ni < unat a * 10 + d"
  using assms by (auto simp: word_le_nat_alt word_less_nat_alt maxBy10_value)

lemma unat_dec_step:
  fixes a :: i64
  assumes "unat a * 10 + d \<le> 2 ^ 63"
  shows "unat (a * 10 + word_of_int (int d)) = unat a * 10 + d"
proof -
  have "a * 10 + word_of_int (int d) = of_nat (unat a * 10 + d)" by simp
  also have "unat (of_nat (unat a * 10 + d) :: i64) = unat a * 10 + d"
    using assms by (simp add: unat_of_nat take_bit_nat_eq_self del: of_nat_add of_nat_mult)
  finally show ?thesis .
qed

lemma str2int_dec_correct:
  assumes "unat a \<le> 2 ^ 63 - 1 + ni" "ni = 0 \<or> ni = 1"
  shows "str2int_dec (int ni) a e ds =
    (if list_all is_digit ds \<and> digits_value (unat a) ds \<le> 2 ^ 63 - 1 + ni
     then Some (of_nat (digits_value (unat a) ds), e \<and> ds = []) else None)"
  using assms(1)
proof (induction ds arbitrary: a e)
  case Nil
  then show ?case by simp
next
  case (Cons c cs)
  show ?case
  proof (cases "is_digit c")
    case False
    then show ?thesis by (auto simp: is_digit_def not_le)
  next
    case True
    define d where "d = unat c - 48"
    have d: "uint (c - 48) = int d" "d < 10" using uint_digit [OF True] by (simp_all add: d_def)
    have g: "\<not> (c < 48 \<or> c > 57)" using True by (auto simp: is_digit_def)
    note dg = dec_guard [OF d(2) assms(2) Cons.prems]
    show ?thesis
    proof (cases "2 ^ 63 - 1 + ni < unat a * 10 + d")
      case True
      have "2 ^ 63 - 1 + ni < digits_value (unat a * 10 + d) cs"
        using True digits_value_ge by (rule less_le_trans)
      with True show ?thesis using dg g by (simp add: d Let_def flip: d_def)
    next
      case False
      then have step: "unat (a * 10 + word_of_int (int d)) = unat a * 10 + d"
        using assms(2) by (intro unat_dec_step) auto
      have "str2int_dec (int ni) a e (c # cs) = str2int_dec (int ni) (a * 10 + word_of_int (int d)) False cs"
        using False dg g by (auto simp: d Let_def)
      also have "\<dots> = (if list_all is_digit cs \<and> digits_value (unat a * 10 + d) cs \<le> 2 ^ 63 - 1 + ni
         then Some (of_nat (digits_value (unat a * 10 + d) cs), False) else None)"
        using Cons.IH [of "a * 10 + word_of_int (int d)" False] False unfolding step by simp
      finally show ?thesis using \<open>is_digit c\<close> by (simp flip: d_def)
    qed
  qed
qed

lemma uint_plus_ten_nonneg: "\<not> uint (x :: byte) + 10 < 0"
  using unsigned_greater_eq [of x, where ?'a = int] by linarith

lemma str2int_hex_loop: "str2int_hex a e ds = map_option (\<lambda>x. (x, e \<and> ds = [])) (hex_loop a ds)"
  by (induction ds arbitrary: a e) (auto simp: hexDigit_def Let_def uint_plus_ten_nonneg)

lemma hex_loop_non_hex: "c \<in> set ds \<Longrightarrow> hexDigit c < 0 \<Longrightarrow> hex_loop a ds = None"
  by (induction ds arbitrary: a) (auto simp: Let_def)

lemma hex_prefix_iff:
  "is_prefix [48, 120] (map ascii_lower t) \<longleftrightarrow> 2 \<le> length t \<and> t ! 0 = 48 \<and> (t ! 1 = 120 \<or> t ! 1 = 88)"
proof (cases "2 \<le> length t")
  case True
  then obtain x y r where t: "t = x # y # r" by (cases t; cases "tl t") auto
  have "ascii_lower x = 48 \<longleftrightarrow> x = 48" for x
    by (auto simp: ascii_lower_def word_le_nat_alt)
  moreover have "ascii_lower y = 120 \<longleftrightarrow> y = 120 \<or> y = 88" for y
    by (auto simp: ascii_lower_def word_le_nat_alt)
  ultimately show ?thesis by (auto simp: t is_prefix_def)
next
  case False
  then show ?thesis by (auto simp: is_prefix_def dest: arg_cong [where f = length])
qed

lemma ascii_lower_not_digit: "ascii_lower c \<in> {46, 101, 112} \<Longrightarrow> \<not> is_digit c"
  by (auto simp: ascii_lower_def is_digit_def word_le_nat_alt)

lemma ascii_lower_not_hex: "ascii_lower c \<in> {46, 112} \<Longrightarrow> hexDigit c < 0"
  by (auto simp: ascii_lower_def hexDigit_def word_le_nat_alt)

subsection \<open>Properties\<close>

lemma str2int_body:
  assumes "TrimSpace s = t0" "split_sign t0 = (neg, t)" "t0 \<noteq> []" "t \<noteq> []"
    "\<not> (2 \<le> length t \<and> t ! 0 = 48 \<and> (t ! 1 = 120 \<or> t ! 1 = 88))"
  shows "str2int s = ParseInt10 t0"
proof -
  have "str2int_dec (if neg then 1 else 0) 0 True t =
      (if list_all is_digit t \<and> digits_value 0 t \<le> 2 ^ 63 - 1 + (if neg then 1 else 0)
       then Some (of_nat (digits_value 0 t), False) else None)"
    using str2int_dec_correct [of 0 "if neg then 1 else 0" True t] assms(4) by (cases neg) simp_all
  then show ?thesis
    using assms by (auto simp: str2int_def ParseInt10_def Let_def)
qed

lemma str2int_hex_body:
  assumes "split_sign (TrimSpace s) = (neg, t)" "TrimSpace s \<noteq> []"
    "is_prefix [48, 120] (map ascii_lower t)"
  shows "str2int s = (if drop 2 t = [] then None else
      map_option (\<lambda>a. if neg then - a else a) (hex_loop 0 (drop 2 t)))"
    "parseHexIntWrap (TrimSpace s) = str2int s"
proof -
  have hp: "2 \<le> length t \<and> t ! 0 = 48 \<and> (t ! 1 = 120 \<or> t ! 1 = 88)"
    using assms(3) by (simp add: hex_prefix_iff)
  then have tn: "t \<noteq> []" by auto
  show str: "str2int s = (if drop 2 t = [] then None else
      map_option (\<lambda>a. if neg then - a else a) (hex_loop 0 (drop 2 t)))"
    using assms hp tn
    by (cases "hex_loop 0 (drop 2 t)") (auto simp: str2int_def str2int_hex_loop Let_def)
  show "parseHexIntWrap (TrimSpace s) = str2int s"
    using hp assms(1) unfolding str by (auto simp: parseHexIntWrap_def split: option.splits)
qed

lemma numeral_hex_case:
  assumes "split_sign (TrimSpace s) = (neg, t)" "TrimSpace s \<noteq> []"
    "is_prefix [48, 120] (map ascii_lower t)"
  shows "parseNumeral pf s = Some (VInt i) \<longleftrightarrow> str2int s = Some i"
proof (cases "46 \<in> set (map ascii_lower t) \<or> 112 \<in> set (map ascii_lower t)")
  case True
  then obtain c where c: "c \<in> set t" "ascii_lower c \<in> {46, 112}" by auto
  have hp: "2 \<le> length t \<and> t ! 0 = 48 \<and> (t ! 1 = 120 \<or> t ! 1 = 88)"
    using assms(3) by (simp add: hex_prefix_iff)
  then obtain x y r where t: "t = x # y # r" by (cases t; cases "tl t") auto
  with hp c have "c \<in> set (drop 2 t)" by (auto simp: ascii_lower_def)
  then have "str2int s = None"
    using hex_loop_non_hex ascii_lower_not_hex [OF c(2)] str2int_hex_body(1) [OF assms] by simp
  moreover have "parseNumeral pf s \<noteq> Some (VInt i)"
    using assms True by (auto simp: parseNumeral_def Let_def)
  ultimately show ?thesis by simp
next
  case False
  then show ?thesis
    using assms str2int_hex_body(2) [OF assms] by (auto simp: parseNumeral_def Let_def)
qed

lemma numeral_dec_case:
  assumes "split_sign (TrimSpace s) = (neg, t)" "TrimSpace s \<noteq> []"
    "\<not> is_prefix [48, 120] (map ascii_lower t)"
  shows "parseNumeral pf s = Some (VInt i) \<longleftrightarrow> str2int s = Some i"
proof -
  have str: "str2int s = ParseInt10 (TrimSpace s)"
    using str2int_body [of s "TrimSpace s" neg t] assms
    by (cases "t = []") (auto simp: hex_prefix_iff str2int_def ParseInt10_def)
  show ?thesis
  proof (cases "46 \<in> set (map ascii_lower t) \<or> 101 \<in> set (map ascii_lower t)")
    case True
    then obtain c where c: "c \<in> set t" "\<not> is_digit c" using ascii_lower_not_digit by fastforce
    then have "str2int s = None"
      unfolding str using assms(1) by (auto simp: ParseInt10_def list_all_iff Let_def)
    moreover have "parseNumeral pf s \<noteq> Some (VInt i)"
      using assms True by (auto simp: parseNumeral_def Let_def)
    ultimately show ?thesis by simp
  next
    case False
    then show ?thesis
      using assms str by (auto simp: parseNumeral_def Let_def split: option.splits)
  qed
qed

text \<open>
  The compiler's numeral reader and the run-time coercion of strings read the same integers:
  a text is an integer numeral for one exactly when it is for the other, with the same value, for
  every behaviour of the float parser.
\<close>

lemma numeral_readers_agree: "parseNumeral pf s = Some (VInt i) \<longleftrightarrow> str2int s = Some i"
proof -
  obtain neg t where sp: "split_sign (TrimSpace s) = (neg, t)" by fastforce
  consider "TrimSpace s = []"
    | "TrimSpace s \<noteq> []" "is_prefix [48, 120] (map ascii_lower t)"
    | "TrimSpace s \<noteq> []" "\<not> is_prefix [48, 120] (map ascii_lower t)" by blast
  then show ?thesis
    using numeral_hex_case [OF sp] numeral_dec_case [OF sp]
    by cases (simp_all add: parseNumeral_def str2int_def split_sign_def)
qed

text \<open>
  Converting any 64-bit integer to a string and back gives the integer, the smallest one
  included, both by the run-time coercion and, for the text read by the compiler, as a numeral.
\<close>

lemma int_tostring_roundtrip:
  "str2num pf (numToString fmtg (VInt i)) = Some (VInt i) \<and>
   parseNumeral pf (numToString fmtg (VInt i)) = Some (VInt i)"
proof -
  define s where "s = FormatInt (sint i)"
  define n where "n = nat \<bar>sint i\<bar>"
  define neg where "neg = (sint i < 0)"
  note ds = format_nat_digits [of n]
  have s: "s = (if neg then 45 # format_nat n else format_nat n)"
    by (simp add: s_def FormatInt_def n_def neg_def)
  have dig: "is_digit (hd (format_nat n))" "is_digit (last (format_nat n))"
    using ds by (simp_all add: list_all_iff)
  then have sp: "split_sign s = (neg, format_nat n)"
    by (cases "format_nat n") (auto simp: s split_sign_def is_digit_def ds)
  have trim: "TrimSpace s = s"
    using ds dig by (intro TrimSpace_id) (auto simp: s numeral_char_def)
  have "ParseInt10 s = Some i"
    using sp ds sint_i64_range [of i]
    by (cases "sint i < 0") (simp_all add: ParseInt10_def n_def neg_def Let_def)
  moreover have no_hex: "\<not> (2 \<le> length (format_nat n) \<and> format_nat n ! 0 = 48 \<and>
      (format_nat n ! 1 = 120 \<or> format_nat n ! 1 = 88))"
    using ds by (auto simp: list_all_length is_digit_def dest!: spec [of _ "1 :: nat"])
  ultimately have "str2int s = Some i"
    using str2int_body [OF trim sp] ds by (auto simp: s)
  moreover from this have "parseNumeral pf s = Some (VInt i)"
    using numeral_dec_case [of s neg "format_nat n" pf i] trim sp ds no_hex
    by (simp add: hex_prefix_iff s)
  ultimately show ?thesis by (simp add: str2num_def numToString_def s_def)
qed

text \<open>
  Arithmetic on a numeric string and an integer zero divisor, such as \<open>"10" % 0\<close> or \<open>"7" // 0\<close>,
  reaches Go's integer division by zero and panics, where the opcode on integers raises a Lua error.
\<close>

lemma stringArith_zero_panics:
  assumes "str2int s = Some m" "opr = OpMod \<or> opr = OpIDiv"
  shows "stringArith pf pw opr (VString s) (VInt 0) = Inl GoPanic"
  using assms
  by (auto simp: stringArith_def tonumValue_def str2num_def rawArith_def intResult_def intMod_def
      intIDiv_def go_rem_def go_div_def)

lemma stringArith_zero_panics_witness:
  "str2int [49, 48] = Some 10 \<and>
   stringArith (\<lambda>_. (0, Some ErrSyntax)) (\<lambda>a b. a) OpMod (VString [49, 48]) (VInt 0) = Inl GoPanic"
proof -
  have "str2int [49, 48] = Some 10" by code_simp
  then show ?thesis using stringArith_zero_panics [of "[49, 48]" 10 OpMod] by simp
qed

end
