(* ===== verification/ForLoop.thy ===== *)
theory ForLoop
  imports Numerals
begin

text \<open>
  Number comparison and the numeric \<open>for\<close> loop (lvm.go: \<open>numLT\<close>, \<open>numLE\<close>, \<open>forlimit\<close>, \<open>forprep\<close>,
  \<open>floatforloop\<close>; lvm_execute.go: \<open>OP_FORLOOP\<close>, the numeric part of \<open>orderI\<close>).

  The registers are a list of values; an access out of range is a Go panic. The loop uses four
  registers from \<open>ra\<close>: the internal index, the limit (replaced by the iteration counter in an integer
  loop), the step, and the control variable the body sees. \<open>pf\<close> is \<open>strconv.ParseFloat\<close> and \<open>tn\<close> is
  \<open>objTypeName\<close>, which only occurs in error messages. Messages are without the position prefix
  that \<open>runtimeError\<close> adds.
\<close>

subsection \<open>Comparison\<close>

definition intFitsFloat :: "i64 \<Rightarrow> bool" where
  "intFitsFloat i = (- (2 ^ 53) \<le> sint i \<and> sint i \<le> 2 ^ 53)"

definition f2iFloor :: "f64 \<Rightarrow> i64 option" where "f2iFloor f = numberToInteger (f64_floor f)"
definition f2iCeil :: "f64 \<Rightarrow> i64 option" where "f2iCeil f = numberToInteger (f64_ceil f)"

abbreviation f64_zero :: f64 where "f64_zero \<equiv> f64_of_int 0"

definition ltIntFloat :: "i64 \<Rightarrow> f64 \<Rightarrow> bool" where
  "ltIntFloat i f =
     (if intFitsFloat i then f64_lt (f64_of_int (sint i)) f
      else (case f2iCeil f of Some fi \<Rightarrow> sint i < sint fi | None \<Rightarrow> f64_lt f64_zero f))"

definition leIntFloat :: "i64 \<Rightarrow> f64 \<Rightarrow> bool" where
  "leIntFloat i f =
     (if intFitsFloat i then f64_le (f64_of_int (sint i)) f
      else (case f2iFloor f of Some fi \<Rightarrow> sint i \<le> sint fi | None \<Rightarrow> f64_lt f64_zero f))"

definition ltFloatInt :: "f64 \<Rightarrow> i64 \<Rightarrow> bool" where
  "ltFloatInt f i =
     (if intFitsFloat i then f64_lt f (f64_of_int (sint i))
      else (case f2iFloor f of Some fi \<Rightarrow> sint fi < sint i | None \<Rightarrow> f64_lt f f64_zero))"

definition leFloatInt :: "f64 \<Rightarrow> i64 \<Rightarrow> bool" where
  "leFloatInt f i =
     (if intFitsFloat i then f64_le f (f64_of_int (sint i))
      else (case f2iCeil f of Some fi \<Rightarrow> sint fi \<le> sint i | None \<Rightarrow> f64_lt f f64_zero))"

text \<open>The callers of \<open>numLT\<close> and \<open>numLE\<close> have checked that both operands are numbers.\<close>

fun numLT :: "Value \<Rightarrow> Value \<Rightarrow> bool" where
  "numLT (VInt a) (VInt b) = (sint a < sint b)"
| "numLT (VInt a) (VFloat b) = ltIntFloat a b"
| "numLT (VFloat a) (VFloat b) = f64_lt a b"
| "numLT (VFloat a) (VInt b) = ltFloatInt a b"
| "numLT _ _ = False"

fun numLE :: "Value \<Rightarrow> Value \<Rightarrow> bool" where
  "numLE (VInt a) (VInt b) = (sint a \<le> sint b)"
| "numLE (VInt a) (VFloat b) = leIntFloat a b"
| "numLE (VFloat a) (VFloat b) = f64_le a b"
| "numLE (VFloat a) (VInt b) = leFloatInt a b"
| "numLE _ _ = False"

subsection \<open>Exactness of the comparison\<close>

text \<open>The mathematical value of a number, scaled by $2^{1074}$.\<close>

fun num_scaled :: "Value \<Rightarrow> int" where
  "num_scaled (VInt i) = sint i * int fscale"
| "num_scaled (VFloat f) = fscaled f"
| "num_scaled _ = 0"

fun num_nan :: "Value \<Rightarrow> bool" where
  "num_nan (VFloat f) = is_nan f"
| "num_nan _ = False"

lemma fscaled_zero [simp]: "fscaled f64_zero = 0"
  using fscaled_f64_of_int_small [of 0] by simp

lemma int_le_floor: "0 < (d :: int) \<Longrightarrow> i \<le> x div d \<longleftrightarrow> i * d \<le> x"
  using pos_imp_zdiv_nonneg_iff [of d "x + (- i) * d"] div_mult_self1 [of d x "- i"] by simp

lemma int_less_ceil: "0 < (d :: int) \<Longrightarrow> i < - ((- x) div d) \<longleftrightarrow> i * d < x"
  using int_le_floor [of d "- i" "- x"] by linarith

lemma conv_range:
  assumes "\<not> is_nan f" "fscaled f = n * int fscale"
  shows "case numberToInteger f of Some i \<Rightarrow> sint i = n | None \<Rightarrow> n < min_int64 \<or> max_int64 < n"
proof -
  have conv: "numberToInteger f = Some i \<longleftrightarrow> n = sint i" for i
    using numberToInteger_exact [of f i] assms by simp
  show ?thesis
  proof (cases "numberToInteger f")
    case None
    then have "n \<noteq> sint (word_of_int n :: i64)" using conv by (metis option.distinct(1))
    then have "\<not> (min_int64 \<le> n \<and> n \<le> max_int64)" using sint_of_int_id [of n] by metis
    then show ?thesis using None by auto
  next
    case (Some i)
    then show ?thesis using conv [of i] by simp
  qed
qed

lemma f2iFloor_range:
  "\<not> is_nan f \<Longrightarrow> case f2iFloor f of Some i \<Rightarrow> sint i = fscaled f div int fscale
     | None \<Rightarrow> fscaled f div int fscale < min_int64 \<or> max_int64 < fscaled f div int fscale"
  unfolding f2iFloor_def by (intro conv_range f64_floor_exact)

lemma f2iCeil_range:
  "\<not> is_nan f \<Longrightarrow> case f2iCeil f of Some i \<Rightarrow> sint i = - ((- fscaled f) div int fscale)
     | None \<Rightarrow> - ((- fscaled f) div int fscale) < min_int64 \<or> max_int64 < - ((- fscaled f) div int fscale)"
  unfolding f2iCeil_def by (intro conv_range f64_ceil_exact)

lemma f2i_nan: "is_nan f \<Longrightarrow> f2iFloor f = None" "is_nan f \<Longrightarrow> f2iCeil f = None"
  by (simp_all add: f2iFloor_def f2iCeil_def numberToInteger_def f64_floor_def f64_ceil_def f64_le_def)

lemma floor_pos:
  "x div int fscale < 0 \<longleftrightarrow> x < 0" "0 < - ((- x) div int fscale) \<longleftrightarrow> 0 < x"
  "0 < x div int fscale \<Longrightarrow> 0 < x"
  using int_le_floor [of "int fscale" 0 x] int_less_ceil [of "int fscale" 0 x]
  by (auto simp: linorder_neq_iff [of x 0] intro: ccontr)

lemma ltIntFloat_exact:
  "ltIntFloat i f \<longleftrightarrow> \<not> is_nan f \<and> sint i * int fscale < fscaled f"
proof (cases "is_nan f \<or> intFitsFloat i")
  case True
  then show ?thesis
    using fscaled_f64_of_int_small [of "sint i"]
    by (auto simp: ltIntFloat_def f64_lt_def f2i_nan intFitsFloat_def)
next
  case False
  then show ?thesis
    using f2iCeil_range [of f] sint_i64_range [of i] int_less_ceil [of "int fscale" "sint i" "fscaled f"]
      floor_pos(2) [of "fscaled f"]
    by (auto simp: ltIntFloat_def f64_lt_def split: option.splits)
qed

lemma leIntFloat_exact:
  "leIntFloat i f \<longleftrightarrow> \<not> is_nan f \<and> sint i * int fscale \<le> fscaled f"
proof (cases "is_nan f \<or> intFitsFloat i")
  case True
  then show ?thesis
    using fscaled_f64_of_int_small [of "sint i"]
    by (auto simp: leIntFloat_def f64_lt_def f64_le_def f2i_nan intFitsFloat_def)
next
  case False
  then show ?thesis
    using f2iFloor_range [of f] sint_i64_range [of i] int_le_floor [of "int fscale" "sint i" "fscaled f"]
      floor_pos [of "fscaled f"]
    by (auto simp: leIntFloat_def f64_lt_def split: option.splits)
qed

lemma f2i_none_nonzero:
  assumes "\<not> is_nan f"
  shows "f2iFloor f = None \<Longrightarrow> fscaled f \<noteq> 0" "f2iCeil f = None \<Longrightarrow> fscaled f \<noteq> 0"
  using f2iFloor_range [OF assms] f2iCeil_range [OF assms] by auto

lemma float_int_dual:
  "ltFloatInt f i \<longleftrightarrow> \<not> is_nan f \<and> \<not> leIntFloat i f"
  "leFloatInt f i \<longleftrightarrow> \<not> is_nan f \<and> \<not> ltIntFloat i f"
  using f2i_none_nonzero [of f]
  by (auto simp: ltFloatInt_def leIntFloat_def leFloatInt_def ltIntFloat_def f64_lt_def f64_le_def
      f2i_nan split: option.splits)

lemma IsNumberE:
  assumes "IsNumber v"
  obtains i where "v = VInt i" | f where "v = VFloat f"
  using assms by (cases v) auto

lemmas compare_exact = ltIntFloat_exact leIntFloat_exact float_int_dual f64_lt_def f64_le_def

text \<open>
  C5: comparing two numbers compares their exact mathematical values, also when an integer beyond
  $2^{53}$ meets a float; with a NaN both orders are false.
\<close>

theorem num_order_exact:
  assumes "IsNumber a" "IsNumber b"
  shows "(numLT a b \<longleftrightarrow> \<not> num_nan a \<and> \<not> num_nan b \<and> num_scaled a < num_scaled b) \<and>
    (numLE a b \<longleftrightarrow> \<not> num_nan a \<and> \<not> num_nan b \<and> num_scaled a \<le> num_scaled b)"
  using assms by - (erule IsNumberE; erule IsNumberE; simp add: compare_exact not_le not_less; blast?)

theorem num_order_exact_witness:
  "numLT (VInt (2 ^ 53 + 1)) (VFloat (f64_of_int (2 ^ 53))) = False"
  using num_order_exact [of "VInt (2 ^ 53 + 1)" "VFloat (f64_of_int (2 ^ 53))"]
    fscaled_f64_of_int_small [of "2 ^ 53"] by simp

subsection \<open>Registers\<close>

definition sget :: "Value list \<Rightarrow> nat \<Rightarrow> Value res" where
  "sget st i = (if i < length st then Inr (st ! i) else Inl GoPanic)"

definition sset :: "Value list \<Rightarrow> nat \<Rightarrow> Value \<Rightarrow> Value list res" where
  "sset st i v = (if i < length st then Inr (st[i := v]) else Inl GoPanic)"

lemma sget_in [simp]: "i < length st \<Longrightarrow> sget st i = Inr (st ! i)" by (simp add: sget_def)
lemma sset_in [simp]: "i < length st \<Longrightarrow> sset st i v = Inr (st[i := v])" by (simp add: sset_def)

subsection \<open>The immediate-operand comparisons\<close>

datatype orderKind = opLT | opLE | opGT | opGE

text \<open>\<open>orderI\<close> on a number and the immediate; \<open>None\<close> is the fall-through to the metamethod.\<close>

fun orderI :: "Value \<Rightarrow> int \<Rightarrow> orderKind \<Rightarrow> bool option" where
  "orderI (VInt ia) im opLT = Some (sint ia < im)"
| "orderI (VInt ia) im opLE = Some (sint ia \<le> im)"
| "orderI (VInt ia) im opGT = Some (sint ia > im)"
| "orderI (VInt ia) im opGE = Some (sint ia \<ge> im)"
| "orderI (VFloat fa) im opLT = Some (f64_lt fa (f64_of_int im))"
| "orderI (VFloat fa) im opLE = Some (f64_le fa (f64_of_int im))"
| "orderI (VFloat fa) im opGT = Some (f64_lt (f64_of_int im) fa)"
| "orderI (VFloat fa) im opGE = Some (f64_le (f64_of_int im) fa)"
| "orderI _ _ _ = None"

text \<open>
  the comparisons with an immediate operand decide as the general comparison with that integer.
\<close>

lemma orderI_agrees:
  assumes "IsNumber v" "\<bar>im\<bar> \<le> 2 ^ 53"
  shows "orderI v im opLT = Some (numLT v (VInt (word_of_int im))) \<and>
    orderI v im opLE = Some (numLE v (VInt (word_of_int im))) \<and>
    orderI v im opGT = Some (numLT (VInt (word_of_int im)) v) \<and>
    orderI v im opGE = Some (numLE (VInt (word_of_int im)) v)"
proof -
  have "min_int64 \<le> im" "im \<le> max_int64" using assms(2) by (simp_all add: abs_le_iff)
  then have w: "sint (word_of_int im :: i64) = im" by (rule sint_of_int_id)
  show ?thesis
    using assms(1) by (rule IsNumberE)
      (auto simp: compare_exact w fscaled_f64_of_int_small [OF assms(2)] not_le not_less)
qed

lemma orderI_agrees_witness:
  "orderI (VInt 5) 7 opLT = Some (numLT (VInt 5) (VInt 7)) \<and> orderI (VInt 5) 7 opLT = Some True"
  using orderI_agrees [of "VInt 5" 7] by simp

subsection \<open>Preparing a loop\<close>

definition forError :: "(Value \<Rightarrow> string) \<Rightarrow> string \<Rightarrow> Value \<Rightarrow> go_error" where
  "forError tn what v =
     LuaError (''bad 'for' '' @ what @ '' (number expected, got '' @ tn v @ '')'')"

definition tointegerForLimit ::
  "(bytes \<Rightarrow> f64 \<times> num_error option) \<Rightarrow> Value \<Rightarrow> bool \<Rightarrow> i64 option" where
  "tointegerForLimit pf v ceil =
     (let conv = (\<lambda>w. case w of VInt i \<Rightarrow> Some i
        | VFloat f \<Rightarrow> (if ceil then f2iCeil f else f2iFloor f) | _ \<Rightarrow> None)
      in case v of VString s \<Rightarrow> (case str2num pf s of None \<Rightarrow> None | Some n \<Rightarrow> conv n) | _ \<Rightarrow> conv v)"

definition forlimit ::
  "(bytes \<Rightarrow> f64 \<times> num_error option) \<Rightarrow> (Value \<Rightarrow> string) \<Rightarrow> i64 \<Rightarrow> Value \<Rightarrow> i64 \<Rightarrow> (i64 \<times> bool) res" where
  "forlimit pf tn init plim step =
     (case tointegerForLimit pf plim (sint step < 0) of
        Some p \<Rightarrow> Inr (p, if sint step > 0 then sint init > sint p else sint init < sint p)
      | None \<Rightarrow>
          (case tonumberCvt pf plim of None \<Rightarrow> Inl (forError tn ''limit'' plim)
           | Some flim \<Rightarrow>
               if f64_lt f64_zero flim then
                 (if sint step < 0 then Inr (0, True)
                  else Inr (word_of_int max_int64, sint init > max_int64))
               else if sint step > 0 then Inr (0, True)
               else Inr (word_of_int min_int64, sint init < min_int64)))"

definition for_count :: "i64 \<Rightarrow> i64 \<Rightarrow> i64 \<Rightarrow> i64" where
  "for_count init limit step =
     (if sint step > 0 then (if step \<noteq> 1 then (limit - init) div step else limit - init)
      else (init - limit) div (- (step + 1) + 1))"

definition forprep_int ::
  "(bytes \<Rightarrow> f64 \<times> num_error option) \<Rightarrow> (Value \<Rightarrow> string) \<Rightarrow> i64 \<Rightarrow> Value \<Rightarrow> i64 \<Rightarrow> Value list \<Rightarrow> nat \<Rightarrow>
     (Value list \<times> bool) res" where
  "forprep_int pf tn init plimit step st ra =
     (if step = 0 then Inl (LuaError (CHR 0x27 # ''for' step is zero''))
      else rbind (sset st (ra + 3) (VInt init)) (\<lambda>st.
        rbind (forlimit pf tn init plimit step) (\<lambda>(limit, skip).
          if skip then Inr (st, True)
          else rbind (sset st (ra + 1) (VInt (for_count init limit step))) (\<lambda>st. Inr (st, False)))))"

definition need_number ::
  "(bytes \<Rightarrow> f64 \<times> num_error option) \<Rightarrow> (Value \<Rightarrow> string) \<Rightarrow> string \<Rightarrow> Value \<Rightarrow> f64 res" where
  "need_number pf tn what v =
     (case tonumberCvt pf v of None \<Rightarrow> Inl (forError tn what v) | Some f \<Rightarrow> Inr f)"

definition forprep_float ::
  "(bytes \<Rightarrow> f64 \<times> num_error option) \<Rightarrow> (Value \<Rightarrow> string) \<Rightarrow> Value \<Rightarrow> Value \<Rightarrow> Value \<Rightarrow> Value list \<Rightarrow> nat \<Rightarrow>
     (Value list \<times> bool) res" where
  "forprep_float pf tn pinit plimit pstep st ra =
     rbind (need_number pf tn ''limit'' plimit) (\<lambda>limit.
     rbind (need_number pf tn ''step'' pstep) (\<lambda>step.
     rbind (need_number pf tn ''initial value'' pinit) (\<lambda>init.
       if f64_eq step f64_zero then Inl (LuaError (CHR 0x27 # ''for' step is zero''))
       else if (if f64_lt f64_zero step then f64_lt limit init else f64_lt init limit) then Inr (st, True)
       else
         rbind (sset st (ra + 1) (VFloat limit)) (\<lambda>st.
         rbind (sset st (ra + 2) (VFloat step)) (\<lambda>st.
         rbind (sset st ra (VFloat init)) (\<lambda>st.
         rbind (sset st (ra + 3) (VFloat init)) (\<lambda>st. Inr (st, False))))))))"

definition forprep ::
  "(bytes \<Rightarrow> f64 \<times> num_error option) \<Rightarrow> (Value \<Rightarrow> string) \<Rightarrow> Value list \<Rightarrow> nat \<Rightarrow> (Value list \<times> bool) res" where
  "forprep pf tn st ra =
     rbind (sget st ra) (\<lambda>pinit. rbind (sget st (ra + 1)) (\<lambda>plimit. rbind (sget st (ra + 2)) (\<lambda>pstep.
       (case (pinit, pstep) of
          (VInt init, VInt step) \<Rightarrow> forprep_int pf tn init plimit step st ra
        | _ \<Rightarrow> forprep_float pf tn pinit plimit pstep st ra))))"

subsection \<open>One iteration\<close>

text \<open>The registers of a float loop hold floats: \<open>AsFloat\<close> of another value is not reached.\<close>

fun AsFloat :: "Value \<Rightarrow> f64" where
  "AsFloat (VFloat f) = f"
| "AsFloat (VInt i) = i"
| "AsFloat _ = 0"

fun AsInt :: "Value \<Rightarrow> i64" where
  "AsInt (VInt i) = i"
| "AsInt (VFloat f) = f"
| "AsInt _ = 0"

definition floatforloop :: "Value list \<Rightarrow> nat \<Rightarrow> (Value list \<times> bool) res" where
  "floatforloop st ra =
     rbind (sget st (ra + 2)) (\<lambda>vstep. rbind (sget st (ra + 1)) (\<lambda>vlimit. rbind (sget st ra) (\<lambda>vidx.
       let step = AsFloat vstep; limit = AsFloat vlimit; idx = f64_add (AsFloat vidx) step in
       if (if f64_lt f64_zero step then f64_le idx limit else f64_le limit idx) then
         rbind (sset st ra (VFloat idx)) (\<lambda>st. rbind (sset st (ra + 3) (VFloat idx)) (\<lambda>st. Inr (st, True)))
       else Inr (st, False))))"

text \<open>\<open>OP_FORLOOP\<close>: \<open>True\<close> is the jump back to the body.\<close>

definition forloop :: "Value list \<Rightarrow> nat \<Rightarrow> (Value list \<times> bool) res" where
  "forloop st ra =
     rbind (sget st (ra + 2)) (\<lambda>vstep.
       if IsInt vstep then
         rbind (sget st (ra + 1)) (\<lambda>vcount.
           let count = AsInt vcount in
           if uint count > 0 then
             rbind (sget st ra) (\<lambda>vidx.
             rbind (sset st (ra + 1) (VInt (count - 1))) (\<lambda>st.
               let idx = AsInt vidx + AsInt vstep in
               rbind (sset st ra (VInt idx)) (\<lambda>st. rbind (sset st (ra + 3) (VInt idx)) (\<lambda>st. Inr (st, True)))))
           else Inr (st, False))
       else floatforloop st ra)"

text \<open>
  The values the control variable takes when the body leaves the registers alone: the loop as
  the code runs it, with fuel for its iterations (\<open>None\<close> when the fuel does not suffice).
\<close>

fun for_body :: "nat \<Rightarrow> Value list \<Rightarrow> nat \<Rightarrow> Value list option" where
  "for_body 0 st ra = None"
| "for_body (Suc n) st ra =
     (case forloop st ra of
        Inr (st', True) \<Rightarrow> map_option (\<lambda>vs. st ! (ra + 3) # vs) (for_body n st' ra)
      | Inr (st', False) \<Rightarrow> Some [st ! (ra + 3)]
      | Inl e \<Rightarrow> None)"

definition for_values ::
  "(bytes \<Rightarrow> f64 \<times> num_error option) \<Rightarrow> (Value \<Rightarrow> string) \<Rightarrow> nat \<Rightarrow> Value list \<Rightarrow> nat \<Rightarrow> Value list option" where
  "for_values pf tn n st ra =
     (case forprep pf tn st ra of
        Inr (st', False) \<Rightarrow> for_body n st' ra | Inr (st', True) \<Rightarrow> Some [] | Inl e \<Rightarrow> None)"

subsection \<open>The integer loop\<close>

text \<open>What the manual promises: all values from \<open>i\<close> by \<open>s\<close> up to the limit, over the integers.\<close>

function lua_for :: "int \<Rightarrow> int \<Rightarrow> int \<Rightarrow> int list" where
  "lua_for i l s = (if 0 < s \<and> i \<le> l \<or> s < 0 \<and> l \<le> i then i # lua_for (i + s) l s else [])"
  by pat_completeness auto
termination by (relation "measure (\<lambda>(i, l, s). nat (if 0 < s then l - i + 1 else i - l + 1))") auto

declare lua_for.simps [simp del]

lemma lua_for_counted:
  assumes "s \<noteq> 0" "\<And>k. k \<le> n \<Longrightarrow> if 0 < s then i + int k * s \<le> l else l \<le> i + int k * s"
    "if 0 < s then l < i + int (Suc n) * s else i + int (Suc n) * s < l"
  shows "lua_for i l s = map (\<lambda>k. i + int k * s) [0..<Suc n]"
  using assms(2,3)
proof (induction n arbitrary: i)
  case 0
  then show ?case using assms(1) by (auto simp: lua_for.simps [of i] lua_for.simps [of "i + s"] split: if_splits)
next
  case (Suc n)
  have "lua_for (i + s) l s = map (\<lambda>k. i + s + int k * s) [0..<Suc n]"
    using Suc.prems(1) [of "Suc k" for k] Suc.prems(2)
    by (intro Suc.IH) (auto simp: algebra_simps split: if_splits)
  moreover have "lua_for i l s = i # lua_for (i + s) l s"
    using Suc.prems(1) [of 0] assms(1) by (simp add: lua_for.simps [of i] split: if_splits)
  ultimately show ?case by (simp add: map_upt_Suc [of _ "Suc n"] algebra_simps del: upt_Suc)
qed

lemma forloop_int:
  assumes "ra + 3 < length st" "st ! ra = VInt i" "st ! (ra + 1) = VInt c" "st ! (ra + 2) = VInt s"
  shows "forloop st ra =
    (if c = 0 then Inr (st, False)
     else Inr (st[ra + 1 := VInt (c - 1), ra := VInt (i + s), ra + 3 := VInt (i + s)], True))"
  using assms uint_0_iff [of c] by (simp add: forloop_def Let_def less_le)

lemma for_body_int:
  assumes "ra + 3 < length st" "st ! ra = VInt i" "st ! (ra + 1) = VInt c" "st ! (ra + 2) = VInt s"
    "st ! (ra + 3) = VInt i" "unat c < n"
  shows "for_body n st ra = Some (map (\<lambda>k. VInt (i + of_nat k * s)) [0..<Suc (unat c)])"
  using assms
proof (induction n arbitrary: st i c)
  case (Suc n)
  show ?case
  proof (cases "c = 0")
    case True
    with Suc.prems show ?thesis by (simp add: forloop_int)
  next
    case False
    define st' where "st' = st[ra + 1 := VInt (c - 1), ra := VInt (i + s), ra + 3 := VInt (i + s)]"
    have c: "unat c = Suc (unat (c - 1))" using unat_minus_one [OF False] False by (simp add: unat_gt_0 [symmetric] del: unat_gt_0)
    have "for_body n st' ra = Some (map (\<lambda>k. VInt (i + s + of_nat k * s)) [0..<Suc (unat (c - 1))])"
      using Suc.prems c by (intro Suc.IH) (simp_all add: st'_def nth_list_update)
    moreover have "forloop st ra = Inr (st', True)"
      using Suc.prems False by (simp add: forloop_int st'_def)
    ultimately show ?thesis
      using Suc.prems(5) unfolding c by (simp add: map_upt_Suc [of _ "Suc _"] algebra_simps del: upt_Suc)
  qed
qed simp

lemma uint_diff_sint:
  assumes "sint b \<le> sint (a :: i64)"
  shows "uint (a - b) = sint a - sint b"
proof -
  have "a - b = word_of_int (sint a - sint b)" by simp
  then show ?thesis
    using assms sint_i64_range [of a] sint_i64_range [of b] uint_of_int_id [of "sint a - sint b"] by simp
qed

lemma for_count_value:
  assumes "s \<noteq> 0" "if 0 < sint s then sint i \<le> sint l else sint l \<le> sint i"
  shows "int (unat (for_count i l s)) = (sint l - sint i) div sint s"
proof (cases "0 < sint s")
  case True
  then have "uint s = sint s" using uint_diff_sint [of 0 s] by simp
  then show ?thesis
    using True assms(2) uint_diff_sint [of i l] by (simp add: for_count_def uint_div_distrib)
next
  case False
  then have "uint (- s) = - sint s" using uint_diff_sint [of s 0] by simp
  then have "uint ((i - l) div - s) = (sint i - sint l) div - sint s"
    using False assms(2) uint_diff_sint [of l i] by (simp add: uint_div_distrib)
  also have "\<dots> = (sint l - sint i) div sint s"
    using div_minus_minus [of "sint l - sint i" "sint s"] by simp
  finally show ?thesis using False by (simp add: for_count_def)
qed

lemma forlimit_int [simp]:
  "forlimit pf tn i (VInt l) s = Inr (l, if 0 < sint s then sint l < sint i else sint i < sint l)"
  by (simp add: forlimit_def tointegerForLimit_def)

lemma for_progression:
  fixes i l s :: int
  assumes "s \<noteq> 0" "if 0 < s then i \<le> l else l \<le> i"
  defines "n \<equiv> nat ((l - i) div s)"
  shows "int k \<le> int n \<longleftrightarrow> (if 0 < s then i + int k * s \<le> l else l \<le> i + int k * s)"
proof (cases "0 < s")
  case True
  then have "0 \<le> (l - i) div s" using assms(2) by (simp add: pos_imp_zdiv_nonneg_iff)
  then show ?thesis using True int_le_floor [of s "int k" "l - i"] by (simp add: n_def) linarith
next
  case False
  then have s: "0 < - s" using assms(1) by simp
  have eq: "(l - i) div s = (i - l) div - s" using div_minus_minus [of "i - l" "- s"] by simp
  have "0 \<le> (i - l) div - s" using s assms(2) False pos_imp_zdiv_nonneg_iff [OF s, of "i - l"] by simp
  then show ?thesis
    using False int_le_floor [OF s, of "int k" "i - l"] by (simp add: n_def eq) linarith
qed

lemma lua_for_eq:
  fixes i l s :: int
  assumes "s \<noteq> 0" "if 0 < s then i \<le> l else l \<le> i"
  shows "lua_for i l s = map (\<lambda>k. i + int k * s) [0..<Suc (nat ((l - i) div s))]"
proof (rule lua_for_counted [OF assms(1)])
  show "if 0 < s then i + int k * s \<le> l else l \<le> i + int k * s" if "k \<le> nat ((l - i) div s)" for k
    using for_progression [OF assms, of k] that by linarith
  show "if 0 < s then l < i + int (Suc (nat ((l - i) div s))) * s
      else i + int (Suc (nat ((l - i) div s))) * s < l"
    using for_progression [OF assms, of "Suc (nat ((l - i) div s))"] by (auto simp del: of_nat_Suc split: if_splits)
qed

lemma lua_for_range:
  assumes "x \<in> set (lua_for i l s)"
  shows "if 0 < s then i \<le> x \<and> x \<le> l else l \<le> x \<and> x \<le> i"
  using assms
proof (induction i l s rule: lua_for.induct)
  case (1 i l s)
  then have "0 < s \<and> i \<le> l \<or> s < 0 \<and> l \<le> i" "x = i \<or> x \<in> set (lua_for (i + s) l s)"
    by (simp_all add: lua_for.simps [of i] split: if_splits)
  with "1.IH" show ?case by (auto split: if_splits)
qed

text \<open>
  C4: an integer loop runs its body for exactly the values \<open>init, init + step, ...\<close> up to the limit,
  computed without overflow, and then stops: the precomputed iteration counter is exact even when
  \<open>limit - init\<close> or \<open>init + k * step\<close> exceeds 64 bits.
\<close>

theorem int_for_loop:
  assumes "ra + 3 < length st" "st ! ra = VInt i" "st ! (ra + 1) = VInt l" "st ! (ra + 2) = VInt s"
    "s \<noteq> 0" "length (lua_for (sint i) (sint l) (sint s)) \<le> n"
  shows "for_values pf tn n st ra = Some (map (\<lambda>x. VInt (word_of_int x)) (lua_for (sint i) (sint l) (sint s)))
    \<and> (\<forall>x \<in> set (lua_for (sint i) (sint l) (sint s)). min_int64 \<le> x \<and> x \<le> max_int64)"
proof (intro conjI ballI)
  have s: "sint s \<noteq> 0" using assms(5) by (rule sint_nonzero)
  show "for_values pf tn n st ra = Some (map (\<lambda>x. VInt (word_of_int x)) (lua_for (sint i) (sint l) (sint s)))"
  proof (cases "if 0 < sint s then sint i \<le> sint l else sint l \<le> sint i")
    case True
    define st' where "st' = st[ra + 3 := VInt i, ra + 1 := VInt (for_count i l s)]"
    have fl: "forlimit pf tn i (VInt l) s = Inr (l, False)" using True by (auto split: if_splits)
    have prep: "forprep pf tn st ra = Inr (st', False)"
      using assms fl by (simp add: forprep_def forprep_int_def st'_def del: forlimit_int)
    have c: "unat (for_count i l s) = nat ((sint l - sint i) div sint s)"
      using for_count_value [OF assms(5) True] by linarith
    have "for_body n st' ra = Some (map (\<lambda>k. VInt (i + of_nat k * s)) [0..<Suc (unat (for_count i l s))])"
      using assms lua_for_eq [OF s True] c by (intro for_body_int) (simp_all add: st'_def nth_list_update)
    then show ?thesis unfolding for_values_def prep lua_for_eq [OF s True] c by simp
  next
    case False
    then have fl: "forlimit pf tn i (VInt l) s = Inr (l, True)" by (auto split: if_splits)
    have "forprep pf tn st ra = Inr (st[ra + 3 := VInt i], True)"
      using assms fl by (simp add: forprep_def forprep_int_def del: forlimit_int)
    then show ?thesis using False s by (auto simp: for_values_def lua_for.simps split: if_splits)
  qed
next
  fix x assume "x \<in> set (lua_for (sint i) (sint l) (sint s))"
  then have "if 0 < sint s then sint i \<le> x \<and> x \<le> sint l else sint l \<le> x \<and> x \<le> sint i"
    by (rule lua_for_range)
  then show "min_int64 \<le> x" "x \<le> max_int64"
    using sint_i64_range [of i] sint_i64_range [of l] by (auto split: if_splits)
qed

theorem int_for_loop_witness:
  "for_values (\<lambda>_. (0, None)) typeName 3 [VInt 1, VInt 8, VInt 3, VNil] 0 = Some [VInt 1, VInt 4, VInt 7]"
  using int_for_loop [of 0 "[VInt 1, VInt 8, VInt 3, VNil]" 1 8 3 3 "\<lambda>_. (0, None)" typeName]
  by (simp add: lua_for.simps)

subsection \<open>Float limits of integer loops\<close>

lemma forlimit_float:
  assumes "\<not> is_nan f"
  shows "forlimit pf tn i (VFloat f) s =
    Inr (case if sint s < 0 then f2iCeil f else f2iFloor f of
      Some p \<Rightarrow> (p, if sint s > 0 then sint i > sint p else sint i < sint p)
    | None \<Rightarrow> if 0 < fscaled f then (if sint s < 0 then (0, True) else (word_of_int max_int64, False))
        else if sint s > 0 then (0, True) else (word_of_int min_int64, False))"
  using assms sint_i64_range [of i]
  by (auto simp: forlimit_def tointegerForLimit_def tonumberCvt_def f64_lt_def not_less split: option.splits)

text \<open>
  With a float limit that is not NaN, an integer loop has the same iterations as if the index
  were compared with the float's exact value: the limit is rounded towards the start of the
  loop and clipped to the 64-bit range, and the loop is skipped when no index qualifies.
\<close>

lemma float_limit_exact:
  fixes i s x :: i64
  assumes "\<not> is_nan f" "s \<noteq> 0" "if 0 < sint s then sint i \<le> sint x else sint x \<le> sint i"
  shows "\<exists>p skip. forlimit pf tn i (VFloat f) s = Inr (p, skip) \<and>
    ((if 0 < sint s then sint x * int fscale \<le> fscaled f else fscaled f \<le> sint x * int fscale) \<longleftrightarrow>
       \<not> skip \<and> (if 0 < sint s then sint x \<le> sint p else sint p \<le> sint x))"
proof (cases "0 < sint s")
  case True
  note fl = f2iFloor_range [OF assms(1)] and xb = sint_i64_range [of x]
    and le = int_le_floor [of "int fscale" "sint x" "fscaled f"]
  show ?thesis
  proof (cases "f2iFloor f")
    case None
    have "sint x * int fscale \<le> fscaled f \<longleftrightarrow> 0 < fscaled f"
      using None fl xb le floor_pos [of "fscaled f"] by auto
    with None True xb show ?thesis by (auto simp: forlimit_float assms)
  next
    case (Some p)
    with True fl le assms(3) show ?thesis by (auto simp: forlimit_float assms(1))
  qed
next
  case False
  with assms(2) have neg: "sint s < 0" using sint_nonzero [of s] by linarith
  note fl = f2iCeil_range [OF assms(1)] and xb = sint_i64_range [of x]
    and le = int_less_ceil [of "int fscale" "sint x" "fscaled f"]
  show ?thesis
  proof (cases "f2iCeil f")
    case None
    have "fscaled f \<le> sint x * int fscale \<longleftrightarrow> \<not> 0 < fscaled f"
      using None fl xb le floor_pos [of "fscaled f"] by auto
    with None neg xb show ?thesis by (auto simp: forlimit_float assms)
  next
    case (Some p)
    with neg fl le assms(3) show ?thesis by (auto simp: forlimit_float assms(1) not_less)
  qed
qed

lemma float_limit_exact_witness:
  "\<exists>p skip. forlimit (\<lambda>_. (0, None)) typeName 1 (VFloat (f64_of_int 3)) 1 = Inr (p, skip) \<and>
    (2 * int fscale \<le> fscaled (f64_of_int 3) \<longleftrightarrow> \<not> skip \<and> 2 \<le> sint p)"
  using float_limit_exact [of "f64_of_int 3" 1 1 2 "\<lambda>_. (0, None)" typeName] by simp

end
