(* ===== verification/LuaTable.thy ===== *)
theory LuaTable
  imports Arith
begin

text \<open>
  Lua tables (ltable.go, lgc_weakkey.go). A table has an array part, a hash part with an ordered list
  of its keys, and a store of weakly held keys. A Go \<open>nil\<close> map reads as the empty map, so both are
  the empty map here; the capacity of a slice has no effect on results and is left out.

  \<open>alive\<close> says which objects the garbage collector has not reclaimed: it is what a \<open>weak.Pointer\<close>
  answers. Reading a slot whose weak value is gone clears the slot, so the reading operations return
  the table as well.
\<close>

subsection \<open>Data\<close>

record tkey =
  k_tag :: vtag
  k_n :: i64
  k_s :: bytes
  k_p :: ptr

record hentry =
  h_key :: Value
  h_val :: Value

text \<open>A weak key cell is the key's tag and address; \<open>None\<close> is a deleted slot.\<close>

record weakKeyEntry =
  w_key :: "(vtag \<times> ptr) option"
  w_val :: Value

record Table =
  arr :: "Value list"
  hash :: "tkey \<rightharpoonup> hentry"
  keys :: "tkey list"
  weakKeys :: "weakKeyEntry list"
  meta :: "ptr option"
  weakk :: bool
  weakv :: bool
  finReg :: bool

definition newTable :: Table where
  "newTable = \<lparr>arr = [], hash = (\<lambda>_. None), keys = [], weakKeys = [], meta = None,
     weakk = False, weakv = False, finReg = False\<rparr>"

definition int_key :: "i64 \<Rightarrow> tkey" where
  "int_key n = \<lparr>k_tag = tagInt, k_n = n, k_s = [], k_p = 0\<rparr>"

definition str_key :: "bytes \<Rightarrow> tkey" where
  "str_key s = \<lparr>k_tag = tagString, k_n = 0, k_s = s, k_p = 0\<rparr>"

definition normKey :: "Value \<Rightarrow> tkey option" where
  "normKey v =
     (case v of
        VNil \<Rightarrow> None
      | VInt i \<Rightarrow> Some (int_key i)
      | VFloat f \<Rightarrow>
          (if is_nan f then None
           else case fltToIntEq f of Some i \<Rightarrow> Some (int_key i)
             | None \<Rightarrow> Some \<lparr>k_tag = tagFloat, k_n = f, k_s = [], k_p = 0\<rparr>)
      | VTrue \<Rightarrow> Some \<lparr>k_tag = tagTrue, k_n = 0, k_s = [], k_p = 0\<rparr>
      | VFalse \<Rightarrow> Some \<lparr>k_tag = tagFalse, k_n = 0, k_s = [], k_p = 0\<rparr>
      | VString s \<Rightarrow> Some (str_key s)
      | _ \<Rightarrow> Some \<lparr>k_tag = tag v, k_n = 0, k_s = [], k_p = gc v\<rparr>)"

definition wrapVal :: "Table \<Rightarrow> Value \<Rightarrow> Value" where
  "wrapVal t v = (if weakv t then mkWeak v else v)"

subsection \<open>The hash part\<close>

definition hashdel :: "tkey \<Rightarrow> Table \<Rightarrow> Table" where
  "hashdel nk t =
     (case hash t nk of None \<Rightarrow> t | Some e \<Rightarrow> t\<lparr>hash := (hash t)(nk \<mapsto> e\<lparr>h_val := VNil\<rparr>)\<rparr>)"

definition hashset :: "tkey \<Rightarrow> Value \<Rightarrow> Value \<Rightarrow> Table \<Rightarrow> Table" where
  "hashset nk key val t =
     (let val = wrapVal t val in
      if IsNil val then hashdel nk t
      else let ks = (case hash t nk of None \<Rightarrow> keys t @ [nk] | Some _ \<Rightarrow> keys t) in
        t\<lparr>keys := ks, hash := (hash t)(nk \<mapsto> \<lparr>h_key = key, h_val = val\<rparr>)\<rparr>)"

text \<open>\<open>t.hash[nk].val\<close>: the zero value of a missing entry is \<open>Nil\<close>.\<close>

definition hash_val :: "Table \<Rightarrow> tkey \<Rightarrow> Value" where
  "hash_val t nk = (case hash t nk of None \<Rightarrow> VNil | Some e \<Rightarrow> h_val e)"

definition hash_get :: "(ptr \<Rightarrow> bool) \<Rightarrow> tkey \<Rightarrow> Table \<Rightarrow> Value \<times> Table" where
  "hash_get alive nk t =
     (let v = hash_val t nk in
      if tag v = tagWeakRef then
        (if isDeadWeak alive v then (VNil, hashdel nk t) else (deref alive v, t))
      else (v, t))"

subsection \<open>The weak-key store\<close>

definition wk_holds :: "(ptr \<Rightarrow> bool) \<Rightarrow> ptr \<Rightarrow> weakKeyEntry \<Rightarrow> bool" where
  "wk_holds alive p e = (case w_key e of None \<Rightarrow> False | Some (tg, q) \<Rightarrow> alive q \<and> q = p)"

fun wk_index :: "(ptr \<Rightarrow> bool) \<Rightarrow> ptr \<Rightarrow> weakKeyEntry list \<Rightarrow> nat option" where
  "wk_index alive p [] = None"
| "wk_index alive p (e # es) =
     (if wk_holds alive p e then Some 0 else map_option Suc (wk_index alive p es))"

definition weakKeyIndex :: "(ptr \<Rightarrow> bool) \<Rightarrow> Table \<Rightarrow> Value \<Rightarrow> nat option" where
  "weakKeyIndex alive t key = wk_index alive (gc key) (weakKeys t)"

definition weakKeyGet :: "(ptr \<Rightarrow> bool) \<Rightarrow> Table \<Rightarrow> Value \<Rightarrow> Value" where
  "weakKeyGet alive t key =
     (case weakKeyIndex alive t key of None \<Rightarrow> VNil | Some i \<Rightarrow> deref alive (w_val (weakKeys t ! i)))"

definition mkKeyCell :: "Value \<Rightarrow> vtag \<times> ptr" where "mkKeyCell key = (tag key, gc key)"

definition weakKeySet :: "(ptr \<Rightarrow> bool) \<Rightarrow> Value \<Rightarrow> Value \<Rightarrow> Table \<Rightarrow> Table" where
  "weakKeySet alive key val t =
     (let val = wrapVal t val; idx = weakKeyIndex alive t key; ws = weakKeys t in
      if IsNil val then
        (case idx of None \<Rightarrow> t | Some i \<Rightarrow> t\<lparr>weakKeys := ws[i := \<lparr>w_key = None, w_val = VNil\<rparr>]\<rparr>)
      else
        (case idx of Some i \<Rightarrow> t\<lparr>weakKeys := ws[i := (ws ! i)\<lparr>w_val := val\<rparr>]\<rparr>
         | None \<Rightarrow> t\<lparr>weakKeys := ws @ [\<lparr>w_key = Some (mkKeyCell key), w_val = val\<rparr>]\<rparr>))"

fun wk_first :: "(ptr \<Rightarrow> bool) \<Rightarrow> weakKeyEntry list \<Rightarrow> (Value \<times> Value) option" where
  "wk_first alive [] = None"
| "wk_first alive (e # es) =
     (case w_key e of
        None \<Rightarrow> wk_first alive es
      | Some (tg, p) \<Rightarrow>
          if \<not> alive p then wk_first alive es
          else let v = deref alive (w_val e) in
            if \<not> IsNil v then Some (mkObj tg p, v) else wk_first alive es)"

definition weakKeyAt :: "(ptr \<Rightarrow> bool) \<Rightarrow> Table \<Rightarrow> nat \<Rightarrow> (Value \<times> Value) option" where
  "weakKeyAt alive t idx = wk_first alive (drop idx (weakKeys t))"

text \<open>
  The results of an iteration step: \<open>None\<close> when the key is not in the table (\<open>found = false\<close>),
  \<open>Some None\<close> at the end, and the next pair otherwise.
\<close>

definition weakKeyNext :: "(ptr \<Rightarrow> bool) \<Rightarrow> Table \<Rightarrow> Value \<Rightarrow> (Value \<times> Value) option option" where
  "weakKeyNext alive t key =
     (case weakKeyIndex alive t key of None \<Rightarrow> None | Some i \<Rightarrow> Some (weakKeyAt alive t (i + 1)))"

subsection \<open>Reading\<close>

definition rawgetInt :: "(ptr \<Rightarrow> bool) \<Rightarrow> i64 \<Rightarrow> Table \<Rightarrow> Value \<times> Table" where
  "rawgetInt alive k t =
     (let u = unat (k - 1) in
      if u < length (arr t) then
        let v = arr t ! u in
        if tag v = tagWeakRef then
          (if isDeadWeak alive v then (VNil, t\<lparr>arr := (arr t)[u := VNil]\<rparr>) else (deref alive v, t))
        else (v, t)
      else hash_get alive (int_key k) t)"

definition rawgetStr :: "(ptr \<Rightarrow> bool) \<Rightarrow> bytes \<Rightarrow> Table \<Rightarrow> Value \<times> Table" where
  "rawgetStr alive s t = hash_get alive (str_key s) t"

definition rawget :: "(ptr \<Rightarrow> bool) \<Rightarrow> Value \<Rightarrow> Table \<Rightarrow> Value \<times> Table" where
  "rawget alive key t =
     (if weakk t \<and> collectableTag (tag key) then (weakKeyGet alive t key, t)
      else let general = (case normKey key of None \<Rightarrow> (VNil, t) | Some nk \<Rightarrow> hash_get alive nk t) in
        (case key of
           VInt i \<Rightarrow> rawgetInt alive i t
         | VFloat f \<Rightarrow> (case fltToIntEq f of Some i \<Rightarrow> rawgetInt alive i t | None \<Rightarrow> general)
         | _ \<Rightarrow> general))"

definition fastGetInt :: "Table \<Rightarrow> i64 \<Rightarrow> Value option" where
  "fastGetInt t k =
     (let u = unat (k - 1) in
      if u < length (arr t) \<and> tag (arr t ! u) \<noteq> tagNil \<and> tag (arr t ! u) \<noteq> tagWeakRef
      then Some (arr t ! u) else None)"

subsection \<open>Writing\<close>

text \<open>
  The loop of \<open>absorbFromHash\<close>. Each iteration empties one entry of the hash, so the number of its
  keys bounds the iterations.
\<close>

fun absorb_loop :: "nat \<Rightarrow> Table \<Rightarrow> Table" where
  "absorb_loop 0 t = t"
| "absorb_loop (Suc n) t =
     (let nk = int_key (of_nat (length (arr t) + 1)); v = hash_val t nk in
      if IsNil v then t else absorb_loop n (hashdel nk (t\<lparr>arr := arr t @ [v]\<rparr>)))"

definition absorbFromHash :: "Table \<Rightarrow> Table" where
  "absorbFromHash t = absorb_loop (length (keys t)) t"

definition rawsetInt :: "i64 \<Rightarrow> Value \<Rightarrow> Table \<Rightarrow> Table" where
  "rawsetInt k val t =
     (let val = wrapVal t val; u = unat (k - 1) in
      if u < length (arr t) then t\<lparr>arr := (arr t)[u := val]\<rparr>
      else if k = of_nat (length (arr t)) + 1 \<and> \<not> IsNil val then
        absorbFromHash (t\<lparr>arr := arr t @ [val]\<rparr>)
      else hashset (int_key k) (VInt k) val t)"

definition rawset :: "(ptr \<Rightarrow> bool) \<Rightarrow> Value \<Rightarrow> Value \<Rightarrow> Table \<Rightarrow> Table" where
  "rawset alive key val t =
     (if weakk t \<and> collectableTag (tag key) then weakKeySet alive key val t
      else let general = (case normKey key of None \<Rightarrow> t | Some nk \<Rightarrow> hashset nk key val t) in
        (case key of
           VInt i \<Rightarrow> rawsetInt i val t
         | VFloat f \<Rightarrow> (case fltToIntEq f of Some i \<Rightarrow> rawsetInt i val t | None \<Rightarrow> general)
         | _ \<Rightarrow> general))"

subsection \<open>Changing the weak mode\<close>

definition to_weak_key :: "tkey \<Rightarrow> Table \<Rightarrow> Table" where
  "to_weak_key k t =
     (if \<not> collectableTag (k_tag k) then t
      else (case hash t k of
          None \<Rightarrow> t
        | Some e \<Rightarrow>
            if IsNil (h_val e) then t
            else hashdel k (t\<lparr>weakKeys := weakKeys t @ [\<lparr>w_key = Some (mkKeyCell (h_key e)), w_val = h_val e\<rparr>]\<rparr>)))"

definition to_strong_key :: "(ptr \<Rightarrow> bool) \<Rightarrow> weakKeyEntry \<Rightarrow> Table \<Rightarrow> Table" where
  "to_strong_key alive e t =
     (case w_key e of
        None \<Rightarrow> t
      | Some (tg, p) \<Rightarrow>
          if \<not> alive p then t
          else (case normKey (mkObj tg p) of
              None \<Rightarrow> t
            | Some nk \<Rightarrow> hashset nk (mkObj tg p) (deref alive (w_val e)) t))"

definition migrateWeakKeys :: "(ptr \<Rightarrow> bool) \<Rightarrow> bool \<Rightarrow> Table \<Rightarrow> Table" where
  "migrateWeakKeys alive toWeak t =
     (if toWeak then fold to_weak_key (keys t) t
      else (fold (to_strong_key alive) (weakKeys t) t)\<lparr>weakKeys := []\<rparr>)"

definition map_slots :: "(Value \<Rightarrow> Value) \<Rightarrow> Table \<Rightarrow> Table" where
  "map_slots f t =
     t\<lparr>arr := map f (arr t), hash := (\<lambda>k. map_option (\<lambda>e. e\<lparr>h_val := f (h_val e)\<rparr>) (hash t k))\<rparr>"

text \<open>
  \<open>refreshWeak\<close>; \<open>mv\<close> is the value of \<open>__mode\<close> in the metatable (nil without one). The count of
  weak tables, which only decides when to force a collection, is left out.
\<close>

definition refreshWeak :: "(ptr \<Rightarrow> bool) \<Rightarrow> Value \<Rightarrow> Table \<Rightarrow> Table" where
  "refreshWeak alive mv t =
     (let (wk, wv) = (case mv of VString s \<Rightarrow> (of_char CHR ''k'' \<in> set s, of_char CHR ''v'' \<in> set s)
        | _ \<Rightarrow> (False, False));
        t1 = (if wv \<and> \<not> weakv t then map_slots mkWeak t
              else if \<not> wv \<and> weakv t then map_slots (deref alive) t else t);
        t2 = t1\<lparr>weakv := wv\<rparr>;
        t3 = (if wk \<noteq> weakk t2 then migrateWeakKeys alive wk t2 else t2)
      in t3\<lparr>weakk := wk\<rparr>)"

subsection \<open>The border\<close>

function border_search :: "(ptr \<Rightarrow> bool) \<Rightarrow> Value list \<Rightarrow> nat \<Rightarrow> nat \<Rightarrow> nat" where
  "border_search alive a lo hi =
     (if hi - lo > 1 then
        let m = (lo + hi) div 2 in
        if IsNil (deref alive (a ! (m - 1))) then border_search alive a lo m
        else border_search alive a m hi
      else lo)"
  by pat_completeness auto
termination by (relation "measure (\<lambda>(alive, a, lo, hi). hi - lo)") auto

declare border_search.simps [simp del]

text \<open>
  The search beyond the array part, with fuel for its three loops (\<open>None\<close> when it runs out). On the
  tables the operations build it is never entered (\<open>length_border\<close> below).
\<close>

fun linear_scan :: "nat \<Rightarrow> (ptr \<Rightarrow> bool) \<Rightarrow> i64 \<Rightarrow> Table \<Rightarrow> (i64 \<times> Table) option" where
  "linear_scan 0 alive i t = None"
| "linear_scan (Suc n) alive i t =
     (case rawgetInt alive i t of (v, t) \<Rightarrow>
        if \<not> IsNil v then linear_scan n alive (i + 1) t else Some (i - 1, t))"

fun bisect_hash :: "nat \<Rightarrow> (ptr \<Rightarrow> bool) \<Rightarrow> i64 \<Rightarrow> i64 \<Rightarrow> Table \<Rightarrow> (i64 \<times> Table) option" where
  "bisect_hash 0 alive i j t = None"
| "bisect_hash (Suc n) alive i j t =
     (if sint (j - i) > 1 then
        let m = word_of_int (sint (i + j) sdiv 2) in
        (case rawgetInt alive m t of (v, t) \<Rightarrow>
           if IsNil v then bisect_hash n alive i m t else bisect_hash n alive m j t)
      else Some (i, t))"

fun unbound_search :: "nat \<Rightarrow> (ptr \<Rightarrow> bool) \<Rightarrow> i64 \<Rightarrow> i64 \<Rightarrow> Table \<Rightarrow> (i64 \<times> Table) option" where
  "unbound_search 0 alive i j t = None"
| "unbound_search (Suc n) alive i j t =
     (case rawgetInt alive j t of (v, t) \<Rightarrow>
        if IsNil v then bisect_hash (Suc n) alive i j t
        else if sint j > max_int64 div 2 then linear_scan (Suc n) alive 1 t
        else unbound_search n alive j (j * 2) t)"

definition length_table :: "(ptr \<Rightarrow> bool) \<Rightarrow> Table \<Rightarrow> (i64 \<times> Table) option" where
  "length_table alive t =
     (let n = length (arr t) in
      if n > 0 \<and> IsNil (deref alive (arr t ! (n - 1))) then
        Some (of_nat (border_search alive (arr t) 0 n), t)
      else (case rawgetInt alive (of_nat n + 1) t of (v, t1) \<Rightarrow>
        if IsNil v then Some (of_nat n, t1)
        else unbound_search (n + length (keys t) + 128) alive (of_nat n) (of_nat n + 1) t1))"

subsection \<open>Traversal\<close>

fun arrayIndex :: "Value \<Rightarrow> i64 option" where
  "arrayIndex (VInt i) = Some i"
| "arrayIndex (VFloat f) = fltToIntEq f"
| "arrayIndex _ = None"

fun hash_first :: "(ptr \<Rightarrow> bool) \<Rightarrow> (tkey \<rightharpoonup> hentry) \<Rightarrow> tkey list \<Rightarrow> (Value \<times> Value) option" where
  "hash_first alive h [] = None"
| "hash_first alive h (k # ks) =
     (case h k of
        None \<Rightarrow> hash_first alive h ks
      | Some e \<Rightarrow> let v = deref alive (h_val e) in
          if \<not> IsNil v then Some (h_key e, v) else hash_first alive h ks)"

definition nextHashAt :: "(ptr \<Rightarrow> bool) \<Rightarrow> Table \<Rightarrow> nat \<Rightarrow> (Value \<times> Value) option" where
  "nextHashAt alive t idx =
     (case hash_first alive (hash t) (drop idx (keys t)) of
        Some r \<Rightarrow> Some r | None \<Rightarrow> weakKeyAt alive t 0)"

fun key_index :: "tkey \<Rightarrow> tkey list \<Rightarrow> nat option" where
  "key_index k [] = None"
| "key_index k (x # xs) = (if x = k then Some 0 else map_option Suc (key_index k xs))"

definition nextHash :: "(ptr \<Rightarrow> bool) \<Rightarrow> Table \<Rightarrow> Value \<Rightarrow> (Value \<times> Value) option option" where
  "nextHash alive t key =
     (case normKey key of
        None \<Rightarrow> None
      | Some cur \<Rightarrow> map_option (\<lambda>idx. nextHashAt alive t (idx + 1)) (key_index cur (keys t)))"

fun arr_first :: "(ptr \<Rightarrow> bool) \<Rightarrow> nat \<Rightarrow> Value list \<Rightarrow> (Value \<times> Value) option" where
  "arr_first alive i [] = None"
| "arr_first alive i (x # xs) =
     (let v = deref alive x in
      if \<not> IsNil v then Some (VInt (of_nat (i + 1)), v) else arr_first alive (i + 1) xs)"

definition next_from :: "(ptr \<Rightarrow> bool) \<Rightarrow> Table \<Rightarrow> nat \<Rightarrow> (Value \<times> Value) option" where
  "next_from alive t start =
     (case arr_first alive start (drop start (arr t)) of Some r \<Rightarrow> Some r | None \<Rightarrow> nextHashAt alive t 0)"

definition next_key :: "(ptr \<Rightarrow> bool) \<Rightarrow> Table \<Rightarrow> Value \<Rightarrow> (Value \<times> Value) option option" where
  "next_key alive t key =
     (if weakk t \<and> collectableTag (tag key) then weakKeyNext alive t key
      else if IsNil key then Some (next_from alive t 0)
      else (case arrayIndex key of
          Some ik \<Rightarrow> if 1 \<le> sint ik \<and> sint ik \<le> int (length (arr t)) then Some (next_from alive t (nat (sint ik)))
            else nextHash alive t key
        | None \<Rightarrow> nextHash alive t key))"

subsection \<open>Key normalisation\<close>

lemma int_key_inject [simp]: "int_key a = int_key b \<longleftrightarrow> a = b"
  by (simp add: int_key_def)

lemma k_tag_simps [simp]: "k_tag (int_key i) = tagInt" "k_n (int_key i) = i" "k_tag (str_key s) = tagString"
  by (simp_all add: int_key_def str_key_def)

lemma normKey_simps [simp]:
  "normKey VNil = None" "normKey (VInt i) = Some (int_key i)" "normKey (VString s) = Some (str_key s)"
  by (simp_all add: normKey_def)

lemma fltToIntEq_not_nan: "fltToIntEq f = Some i \<Longrightarrow> \<not> is_nan f"
  by (auto simp: fltToIntEq_def f64_eq_def Let_def split: if_splits)

lemma normKey_float:
  "normKey (VFloat f) =
     (case fltToIntEq f of Some i \<Rightarrow> Some (int_key i)
      | None \<Rightarrow> if is_nan f then None else Some \<lparr>k_tag = tagFloat, k_n = f, k_s = [], k_p = 0\<rparr>)"
  by (auto simp: normKey_def fltToIntEq_def f64_eq_def Let_def split: option.splits)

lemma normKey_collectable:
  "collectableTag (tag v) \<Longrightarrow> normKey v = Some \<lparr>k_tag = tag v, k_n = 0, k_s = [], k_p = gc v\<rparr>"
  by (cases v) (simp_all add: normKey_def)

lemma normKey_tag_collectable:
  "normKey v = Some nk \<Longrightarrow> collectableTag (k_tag nk) \<longleftrightarrow> collectableTag (tag v)"
  by (cases v) (auto simp: normKey_def int_key_def str_key_def split: option.splits if_splits)

lemma normKey_int_tag: "normKey v = Some nk \<Longrightarrow> k_tag nk = tagInt \<Longrightarrow> nk = int_key (k_n nk)"
  by (cases v) (auto simp: normKey_def int_key_def str_key_def split: option.splits if_splits)

subsection \<open>Lookup as a function\<close>

text \<open>What a normalised key reads in the array and hash parts, and what any key reads.\<close>

definition lookup :: "(ptr \<Rightarrow> bool) \<Rightarrow> Table \<Rightarrow> tkey \<Rightarrow> Value" where
  "lookup alive t nk =
     (if k_tag nk = tagInt \<and> unat (k_n nk - 1) < length (arr t) then deref alive (arr t ! unat (k_n nk - 1))
      else deref alive (hash_val t nk))"

definition tget :: "(ptr \<Rightarrow> bool) \<Rightarrow> Table \<Rightarrow> Value \<Rightarrow> Value" where
  "tget alive t key =
     (if weakk t \<and> collectableTag (tag key) then weakKeyGet alive t key
      else case normKey key of None \<Rightarrow> VNil | Some nk \<Rightarrow> lookup alive t nk)"

lemma newTable_sel [simp]:
  "arr newTable = []" "weakk newTable = False" "weakv newTable = False" "weakKeys newTable = []"
  "hash_val newTable k = VNil"
  by (simp_all add: newTable_def hash_val_def)

lemma tget_newTable [simp]: "tget alive newTable k = VNil"
  by (simp add: tget_def lookup_def split: option.splits)

lemma deref_cases:
  "isDeadWeak alive v \<Longrightarrow> deref alive v = VNil" "tag v \<noteq> tagWeakRef \<Longrightarrow> deref alive v = v"
  by (cases v; simp)+

lemma deref_not_nil: "deref alive v \<noteq> VNil \<Longrightarrow> v \<noteq> VNil"
  by auto

lemma fst_hash_get: "fst (hash_get alive nk t) = deref alive (hash_val t nk)"
  by (simp add: hash_get_def Let_def deref_cases)

lemma fst_rawgetInt: "fst (rawgetInt alive k t) = lookup alive t (int_key k)"
  by (simp add: rawgetInt_def lookup_def Let_def deref_cases fst_hash_get)

lemma lookup_not_int: "k_tag nk \<noteq> tagInt \<Longrightarrow> lookup alive t nk = deref alive (hash_val t nk)"
  by (simp add: lookup_def)

lemma fst_rawget: "fst (rawget alive key t) = tget alive t key"
  by (cases key) (auto simp: rawget_def tget_def Let_def fst_hash_get fst_rawgetInt lookup_not_int normKey_float
      normKey_def dest: fltToIntEq_not_nan split: option.splits)

lemma hash_val_hashdel: "hash_val (hashdel nk t) k = (if k = nk then VNil else hash_val t k)"
  by (auto simp: hash_val_def hashdel_def split: option.splits)

lemma hashdel_sel [simp]:
  "arr (hashdel nk t) = arr t" "keys (hashdel nk t) = keys t" "weakKeys (hashdel nk t) = weakKeys t"
  "weakk (hashdel nk t) = weakk t" "weakv (hashdel nk t) = weakv t" "meta (hashdel nk t) = meta t"
  "dom (hash (hashdel nk t)) = dom (hash t)"
  by (auto simp: hashdel_def split: option.splits)

lemma hash_val_hashset:
  "hash_val (hashset nk key val t) k = (if k = nk then wrapVal t val else hash_val t k)"
  by (auto simp: hashset_def Let_def hash_val_hashdel) (auto simp: hash_val_def)

lemma hashset_sel [simp]:
  "arr (hashset nk key val t) = arr t" "weakKeys (hashset nk key val t) = weakKeys t"
  "weakk (hashset nk key val t) = weakk t" "weakv (hashset nk key val t) = weakv t"
  by (simp_all add: hashset_def Let_def)

lemma unat_of_nat_i64: "n < 2 ^ 64 \<Longrightarrow> unat (of_nat n :: i64) = n"
  by (simp add: unat_of_nat take_bit_nat_eq_self)

lemma idx_unbounded: "n \<le> unat (k - 1 :: i64) \<Longrightarrow> k = of_nat n + 1 \<longleftrightarrow> unat (k - 1) = n"
proof -
  assume "n \<le> unat (k - 1)"
  then have "n < 2 ^ 64" using unsigned_less [of "k - 1", where ?'a = nat] by simp
  then have "unat (of_nat n :: i64) = n" by (rule unat_of_nat_i64)
  moreover have "k = of_nat n + 1 \<longleftrightarrow> k - 1 = of_nat n" by (simp add: diff_eq_eq)
  ultimately show ?thesis by (metis of_nat_unat ucast_id)
qed

text \<open>Normalised keys have an integer tag only in the form \<open>int_key i\<close>.\<close>

definition is_nkey :: "tkey \<Rightarrow> bool" where
  "is_nkey nk = (k_tag nk = tagInt \<longrightarrow> nk = int_key (k_n nk))"

lemma is_nkey_normKey: "normKey v = Some nk \<Longrightarrow> is_nkey nk"
  using normKey_int_tag [of v nk] by (simp add: is_nkey_def)

lemma is_nkey_int [simp]: "is_nkey (int_key i)" by (simp add: is_nkey_def)

lemma nkey_cases:
  assumes "is_nkey nk"
  obtains (int) i where "nk = int_key i" | (other) "k_tag nk \<noteq> tagInt"
  using assms unfolding is_nkey_def by blast

lemma lookup_int:
  "lookup alive t (int_key k) =
     deref alive (if unat (k - 1) < length (arr t) then arr t ! unat (k - 1) else hash_val t (int_key k))"
  by (simp add: lookup_def)

lemma lookup_append:
  assumes "is_nkey nk"
  shows "lookup alive (t\<lparr>arr := arr t @ [v]\<rparr>) nk =
    (if nk = int_key (of_nat (length (arr t)) + 1) \<and> length (arr t) < 2 ^ 64 then deref alive v
     else lookup alive t nk)"
  using assms
proof (cases nk rule: nkey_cases)
  case (int k)
  have "unat (k - 1) < 2 ^ 64" using unsigned_less [of "k - 1", where ?'a = nat] by simp
  then show ?thesis
    using int idx_unbounded [of "length (arr t)" k]
    by (cases "unat (k - 1) < length (arr t)")
      (auto simp: lookup_int nth_append hash_val_def not_less le_less unat_of_nat_i64)
next
  case other
  then show ?thesis by (auto simp: lookup_not_int hash_val_def)
qed

lemma lookup_hashdel_shadowed: "lookup alive (hashdel nk t) k = (if k = nk \<and> \<not> (k_tag nk = tagInt \<and> unat (k_n nk - 1) < length (arr t)) then VNil else lookup alive t k)"
  by (auto simp: lookup_def hash_val_hashdel)

lemma lookup_absorb: "is_nkey nk \<Longrightarrow> lookup alive (absorb_loop n t) nk = lookup alive t nk"
proof (induction n t rule: absorb_loop.induct)
  case (2 n t)
  define k where "k = int_key (of_nat (length (arr t)) + 1)"
  define v where "v = hash_val t k"
  have "lookup alive (hashdel k (t\<lparr>arr := arr t @ [v]\<rparr>)) nk = lookup alive t nk"
  proof (cases "length (arr t) < 2 ^ 64")
    case True
    then have "lookup alive t k = deref alive v"
      by (simp add: k_def v_def lookup_int unat_of_nat_i64)
    with True show ?thesis
      using lookup_append [OF "2.prems", of alive t v]
      by (auto simp: lookup_hashdel_shadowed k_def unat_of_nat_i64)
  next
    case False
    moreover have "unat (of_nat (length (arr t)) :: i64) < 2 ^ 64"
      using unsigned_less [of "of_nat (length (arr t)) :: i64", where ?'a = nat] by simp
    ultimately show ?thesis
      using lookup_append [OF "2.prems", of alive t v]
      by (auto simp: lookup_hashdel_shadowed k_def)
  qed
  then show ?case using 2 by (simp add: Let_def k_def v_def add.commute)
qed simp

lemma absorb_loop_sel [simp]:
  "weakKeys (absorb_loop n t) = weakKeys t" "weakk (absorb_loop n t) = weakk t"
  "weakv (absorb_loop n t) = weakv t" "keys (absorb_loop n t) = keys t"
  "dom (hash (absorb_loop n t)) = dom (hash t)"
  by (induction n t rule: absorb_loop.induct) (simp_all add: Let_def)

lemma rawsetInt_sel [simp]:
  "weakKeys (rawsetInt k v t) = weakKeys t" "weakk (rawsetInt k v t) = weakk t"
  "weakv (rawsetInt k v t) = weakv t"
  by (simp_all add: rawsetInt_def absorbFromHash_def Let_def)

lemma wrapVal_nil [simp]: "wrapVal t v = VNil \<longleftrightarrow> v = VNil" "wrapVal t VNil = VNil"
  by (simp_all add: wrapVal_def)

lemma wrapVal_idem [simp]: "wrapVal t (wrapVal t v) = wrapVal t v"
  by (simp add: wrapVal_def)

lemma lookup_rawsetInt:
  assumes "is_nkey nk"
  shows "lookup alive (rawsetInt k v t) nk = (if nk = int_key k then deref alive (wrapVal t v) else lookup alive t nk)"
proof -
  define n where "n = length (arr t)"
  have lt: "unat (k - 1) < 2 ^ 64" using unsigned_less [of "k - 1", where ?'a = nat] by simp
  consider "unat (k - 1) < n" | "\<not> unat (k - 1) < n" "k = of_nat n + 1" "v \<noteq> VNil"
    | "\<not> unat (k - 1) < n" "\<not> (k = of_nat n + 1 \<and> v \<noteq> VNil)" by blast
  then show ?thesis
  proof cases
    case 1
    then show ?thesis
      by - (rule nkey_cases [OF assms], auto simp: rawsetInt_def lookup_int lookup_not_int n_def hash_val_def nth_list_update Let_def
        word_unat_eq_iff [symmetric])
  next
    case 2
    with lt idx_unbounded [of n k] have "n < 2 ^ 64" by simp
    with 2 show ?thesis using assms lookup_append [OF assms, of alive t "wrapVal t v"]
      by (simp add: rawsetInt_def n_def [symmetric] absorbFromHash_def lookup_absorb Let_def)
  next
    case 3
    then show ?thesis
      by - (rule nkey_cases [OF assms], auto simp: rawsetInt_def lookup_int lookup_not_int n_def hash_val_hashset Let_def)
  qed
qed

end
