(* ===== verification/TableInv.thy ===== *)
theory TableInv
  imports LuaTable
begin

text \<open>
  The invariant of tables: every operation keeps it, a write is seen by exactly the reads of the
  same key, and reading only clears what the collector has already reclaimed.
\<close>

lemma map_filter_append [simp]: "List.map_filter f (xs @ ys) = List.map_filter f xs @ List.map_filter f ys"
  by (simp add: map_filter_def)

lemma map_filter_iff: "y \<in> set (List.map_filter f xs) \<longleftrightarrow> (\<exists>x \<in> set xs. f x = Some y)"
  by (induction xs) (auto simp: map_filter_simps split: option.splits)

lemma mkObj_sel: "collectableTag tg \<Longrightarrow> tag (mkObj tg p) = tg \<and> gc (mkObj tg p) = p"
  by (cases tg) simp_all

subsection \<open>The invariant\<close>

definition slot_fits :: "Table \<Rightarrow> Value \<Rightarrow> bool" where
  "slot_fits t x = (slot_ok x \<and> (\<not> weakv t \<longrightarrow> strong x))"

definition slots_ok :: "Table \<Rightarrow> bool" where
  "slots_ok t = ((\<forall>x \<in> set (arr t). slot_fits t x) \<and> (\<forall>k. slot_fits t (hash_val t k)))"

definition hash_ok :: "Table \<Rightarrow> bool" where
  "hash_ok t = (distinct (keys t) \<and> set (keys t) = dom (hash t) \<and>
     (\<forall>k e. hash t k = Some e \<longrightarrow> normKey (h_key e) = Some k \<and> strong (h_key e)))"

definition dense_ok :: "Table \<Rightarrow> bool" where
  "dense_ok t = (\<forall>n \<le> length (arr t). hash_val t (int_key (of_nat n + 1)) = VNil)"

definition wk_ptrs :: "weakKeyEntry list \<Rightarrow> ptr list" where
  "wk_ptrs es = map snd (List.map_filter w_key es)"

definition wk_entry_ok :: "weakKeyEntry \<Rightarrow> bool" where
  "wk_entry_ok e = (case w_key e of None \<Rightarrow> True
     | Some (tg, p) \<Rightarrow> collectableTag tg \<and> slot_ok (w_val e) \<and> w_val e \<noteq> VNil)"

definition weak_ok :: "Table \<Rightarrow> bool" where
  "weak_ok t = (distinct (wk_ptrs (weakKeys t)) \<and> (\<forall>e \<in> set (weakKeys t). wk_entry_ok e) \<and>
     (\<not> weakk t \<longrightarrow> weakKeys t = []) \<and>
     (weakk t \<longrightarrow> (\<forall>k. collectableTag (k_tag k) \<longrightarrow> hash_val t k = VNil)))"

text \<open>
  The invariant of a table: slots hold what the mode allows; the key list enumerates the hash, whose
  entries sit under their own normalised keys; no integer key up to one past the array part is live
  in the hash; weakly held keys are distinct and separate from the hash.
\<close>

definition tbl_ok :: "Table \<Rightarrow> bool" where
  "tbl_ok t = (slots_ok t \<and> hash_ok t \<and> dense_ok t \<and> weak_ok t)"

lemma tbl_ok_newTable [simp]: "tbl_ok newTable"
  by (simp add: tbl_ok_def slots_ok_def hash_ok_def dense_ok_def weak_ok_def newTable_def hash_val_def
      wk_ptrs_def slot_fits_def strong_def map_filter_simps)

lemma slot_fits_nil [simp]: "slot_fits t VNil"
  by (simp add: slot_fits_def strong_def)

lemma slot_fits_wrap: "strong v \<Longrightarrow> slot_fits t (wrapVal t v)"
  by (simp add: slot_fits_def wrapVal_def)

lemma slot_fits_cong [simp]: "slot_fits (hashdel nk t) = slot_fits t" "slot_fits (t\<lparr>arr := a\<rparr>) = slot_fits t"
  "slot_fits (hashset nk k v t) = slot_fits t" "slot_fits (absorb_loop n t) = slot_fits t"
  "slot_fits (t\<lparr>weakKeys := w\<rparr>) = slot_fits t"
  by (auto simp: slot_fits_def)

lemma hash_val_cong [simp]: "hash_val (t\<lparr>arr := a\<rparr>) = hash_val t" "hash_val (t\<lparr>weakKeys := w\<rparr>) = hash_val t"
  by (auto simp: hash_val_def)

lemma hash_ok_hashdel: "hash_ok t \<Longrightarrow> hash_ok (hashdel nk t)"
  unfolding hash_ok_def by (auto simp: hashdel_def split: option.splits if_splits)

lemma hash_ok_cong [simp]: "hash_ok (t\<lparr>arr := a\<rparr>) = hash_ok t" "hash_ok (t\<lparr>weakKeys := w\<rparr>) = hash_ok t"
  by (simp_all add: hash_ok_def)

lemma hash_ok_hashset:
  assumes "hash_ok t" "normKey key = Some nk" "strong key"
  shows "hash_ok (hashset nk key v t)"
proof (cases "wrapVal t v = VNil")
  case True
  then show ?thesis using assms(1) by (simp add: hashset_def hash_ok_hashdel)
next
  case False
  then show ?thesis
    using assms unfolding hash_ok_def by (auto simp: hashset_def Let_def split: option.splits if_splits)
qed

lemma absorb_loop_ok:
  assumes "slots_ok t" "hash_ok t"
  shows "slots_ok (absorb_loop n t) \<and> hash_ok (absorb_loop n t)"
  using assms
proof (induction n t rule: absorb_loop.induct)
  case (2 n t)
  then show ?case
    by (auto simp: Let_def slots_ok_def hash_val_hashdel hash_ok_hashdel intro!: "2.IH")
qed simp

definition live_keys :: "Table \<Rightarrow> tkey set" where
  "live_keys t = {k \<in> set (keys t). hash_val t k \<noteq> VNil}"

lemma live_keys_finite [simp]: "finite (live_keys t)"
  by (simp add: live_keys_def)

lemma live_keys_iff: "hash_ok t \<Longrightarrow> k \<in> live_keys t \<longleftrightarrow> hash_val t k \<noteq> VNil"
  by (auto simp: live_keys_def hash_ok_def hash_val_def split: option.splits)

lemma live_keys_hashdel: "live_keys (hashdel k (t\<lparr>arr := a\<rparr>)) = live_keys t - {k}"
  by (auto simp: live_keys_def hash_val_hashdel)

lemma absorb_dense:
  assumes "hash_ok t" "\<And>n. n < length (arr t) \<Longrightarrow> hash_val t (int_key (of_nat n + 1)) = VNil"
    "card (live_keys t) \<le> n"
  shows "dense_ok (absorb_loop n t)"
  using assms
proof (induction n t rule: absorb_loop.induct)
  case (1 t)
  then have "live_keys t = {}" by simp
  then show ?case using live_keys_iff [OF 1(1)] by (auto simp: dense_ok_def)
next
  case (2 n t)
  define k where "k = int_key (of_nat (length (arr t)) + 1)"
  show ?case
  proof (cases "hash_val t k = VNil")
    case True
    then show ?thesis using 2(3) by (auto simp: k_def dense_ok_def le_less add.commute)
  next
    case False
    then have "k \<in> live_keys t" by (simp add: live_keys_iff [OF 2(2)])
    then have "card (live_keys t - {k}) \<le> n" using 2(4) by simp
    then have "dense_ok (absorb_loop n (hashdel k (t\<lparr>arr := arr t @ [hash_val t k]\<rparr>)))"
      using False 2(2,3) by (intro 2(1)) (auto simp: k_def add.commute hash_ok_hashdel live_keys_hashdel
          hash_val_hashdel less_Suc_eq)
    then show ?thesis using False by (simp add: k_def Let_def add.commute)
  qed
qed

lemma hash_val_absorb: "hash_val (absorb_loop n t) k = hash_val t k \<or> hash_val (absorb_loop n t) k = VNil"
proof (induction n t rule: absorb_loop.induct)
  case (2 n t)
  then show ?case by (auto simp: Let_def hash_val_hashdel)
qed simp

lemma append_ok:
  assumes "tbl_ok t" "slot_fits t v"
  shows "tbl_ok (absorbFromHash (t\<lparr>arr := arr t @ [v]\<rparr>))"
proof -
  define t' where "t' = t\<lparr>arr := arr t @ [v]\<rparr>"
  have h: "hash_ok t'" and s: "slots_ok t'" using assms by (auto simp: t'_def tbl_ok_def slots_ok_def)
  have "card (live_keys t') \<le> length (keys t')"
    by (metis (no_types, lifting) List.finite_set card_length card_mono le_trans live_keys_def mem_Collect_eq subsetI)
  then have "dense_ok (absorbFromHash t')"
    unfolding absorbFromHash_def using assms h
    by (intro absorb_dense) (auto simp: t'_def tbl_ok_def dense_ok_def)
  moreover have "weak_ok (absorbFromHash t')"
    using assms hash_val_absorb [of "length (keys t')" t']
    by (auto simp: absorbFromHash_def weak_ok_def tbl_ok_def t'_def) metis+
  ultimately show ?thesis
    using absorb_loop_ok [OF s h] by (simp add: tbl_ok_def t'_def absorbFromHash_def)
qed

lemma hashset_ok:
  assumes "tbl_ok t" "normKey key = Some nk" "strong key" "strong v \<or> slot_fits t v"
    "\<not> (weakk t \<and> collectableTag (k_tag nk))"
    "\<And>n. n \<le> length (arr t) \<Longrightarrow> v \<noteq> VNil \<Longrightarrow> nk \<noteq> int_key (of_nat n + 1)"
  shows "tbl_ok (hashset nk key v t)"
proof -
  have "slot_fits t (wrapVal t v)" using assms(4) slot_fits_wrap by (auto simp: slot_fits_def wrapVal_def)
  moreover have "wrapVal t v = VNil \<longleftrightarrow> v = VNil" by simp
  ultimately show ?thesis
    using assms by (auto simp: tbl_ok_def slots_ok_def hash_val_hashset hash_ok_hashset dense_ok_def weak_ok_def)
qed

lemma rawsetInt_ok:
  assumes "tbl_ok t" "strong v"
  shows "tbl_ok (rawsetInt k v t)"
proof -
  define n where "n = length (arr t)"
  note fits = slot_fits_wrap [OF assms(2), of t]
  consider "unat (k - 1) < n" | "\<not> unat (k - 1) < n" "k = of_nat n + 1" "v \<noteq> VNil"
    | "\<not> unat (k - 1) < n" "\<not> (k = of_nat n + 1 \<and> v \<noteq> VNil)" by blast
  then show ?thesis
  proof cases
    case 1
    then show ?thesis
      using assms(1) fits
      by (auto simp: rawsetInt_def n_def tbl_ok_def slots_ok_def dense_ok_def weak_ok_def Let_def
          dest!: set_update_subset_insert [THEN subsetD])
  next
    case 2
    then show ?thesis
      using append_ok [OF assms(1) fits] by (simp add: rawsetInt_def n_def Let_def)
  next
    case 3
    have "k \<noteq> of_nat m + 1" if "m \<le> n" "v \<noteq> VNil" for m
      using 3 that idx_unbounded [of m k] by (cases "m = n") auto
    then have "tbl_ok (hashset (int_key k) (VInt k) (wrapVal t v) t)"
      using assms fits by (intro hashset_ok) (auto simp: strong_def n_def)
    with 3 show ?thesis by (auto simp: rawsetInt_def n_def Let_def)
  qed
qed

subsection \<open>The weak-key store as a map\<close>

definition wk_read :: "(ptr \<Rightarrow> bool) \<Rightarrow> ptr \<Rightarrow> weakKeyEntry list \<Rightarrow> Value" where
  "wk_read alive p es = (case wk_index alive p es of None \<Rightarrow> VNil | Some i \<Rightarrow> deref alive (w_val (es ! i)))"

lemma weakKeyGet_read: "weakKeyGet alive t key = wk_read alive (gc key) (weakKeys t)"
  by (simp add: weakKeyGet_def wk_read_def weakKeyIndex_def)

lemma wk_read_simps [simp]:
  "wk_read alive p [] = VNil"
  "wk_read alive p (e # es) = (if wk_holds alive p e then deref alive (w_val e) else wk_read alive p es)"
  by (auto simp: wk_read_def split: option.splits)

lemma wk_ptrs_simps [simp]:
  "wk_ptrs [] = []"
  "wk_ptrs (e # es) = (case w_key e of None \<Rightarrow> wk_ptrs es | Some (tg, p) \<Rightarrow> p # wk_ptrs es)"
  by (auto simp: wk_ptrs_def map_filter_simps split: option.splits)

lemma wk_ptrs_append [simp]: "wk_ptrs (xs @ ys) = wk_ptrs xs @ wk_ptrs ys"
  by (simp add: wk_ptrs_def map_filter_def)

lemma wk_index_None_iff: "alive p \<Longrightarrow> wk_index alive p es = None \<longleftrightarrow> p \<notin> set (wk_ptrs es)"
  by (induction es) (auto simp: wk_holds_def split: option.splits)

lemma wk_read_absent: "p \<notin> set (wk_ptrs es) \<Longrightarrow> wk_read alive p es = VNil"
  by (induction es) (auto simp: wk_holds_def split: option.splits)

lemma wk_read_append:
  "alive p \<Longrightarrow> wk_read alive p (es @ fs) = (if p \<in> set (wk_ptrs es) then wk_read alive p es else wk_read alive p fs)"
  by (induction es) (auto simp: wk_holds_def split: option.splits)

lemma wk_index_Some:
  "wk_index alive p es = Some i \<Longrightarrow> i < length es \<and> wk_holds alive p (es ! i)"
  by (induction es arbitrary: i) (auto split: if_splits)

lemma wk_read_update:
  "wk_index alive p es = Some i \<Longrightarrow>
     wk_read alive q (es[i := (es ! i)\<lparr>w_val := v\<rparr>]) = (if q = p then deref alive v else wk_read alive q es)"
  by (induction es arbitrary: i) (auto simp: wk_holds_def split: if_splits option.splits)

lemma wk_read_tombstone:
  "wk_index alive p es = Some i \<Longrightarrow> distinct (wk_ptrs es) \<Longrightarrow>
     wk_read alive q (es[i := \<lparr>w_key = None, w_val = VNil\<rparr>]) = (if q = p then VNil else wk_read alive q es)"
  by (induction es arbitrary: i) (auto simp: wk_holds_def wk_read_absent split: if_splits option.splits)

lemma wk_ptrs_update:
  "wk_ptrs (es[i := (es ! i)\<lparr>w_val := v\<rparr>]) = wk_ptrs es"
  by (induction es arbitrary: i) (auto split: nat.splits option.splits)

lemma wk_ptrs_tombstone_subset:
  "set (wk_ptrs (es[i := \<lparr>w_key = None, w_val = VNil\<rparr>])) \<subseteq> set (wk_ptrs es)"
proof (induction es arbitrary: i)
  case (Cons e es)
  then show ?case using Cons.IH [of "i - 1"] by (cases i) (auto split: option.splits)
qed simp

lemma wk_ptrs_tombstone:
  "distinct (wk_ptrs es) \<Longrightarrow> distinct (wk_ptrs (es[i := \<lparr>w_key = None, w_val = VNil\<rparr>]))"
proof (induction es arbitrary: i)
  case (Cons e es)
  then show ?case using wk_ptrs_tombstone_subset [of es "i - 1"] by (cases i) (auto split: option.splits)
qed simp

lemma weakKeySet_read:
  assumes "weak_ok t" "alive (gc key)" "alive p"
  shows "wk_read alive p (weakKeys (weakKeySet alive key v t)) =
    (if p = gc key then deref alive (wrapVal t v) else wk_read alive p (weakKeys t))"
proof (cases "weakKeyIndex alive t key")
  case None
  then have "gc key \<notin> set (wk_ptrs (weakKeys t))"
    using wk_index_None_iff [of alive "gc key"] assms(2) by (simp add: weakKeyIndex_def)
  then show ?thesis
    using None assms(2,3) by (auto simp: weakKeySet_def Let_def wk_read_append wk_read_absent wk_holds_def mkKeyCell_def)
next
  case (Some i)
  then show ?thesis
    using assms(1) unfolding weakKeyIndex_def
    by (auto simp: weakKeySet_def weakKeyIndex_def Let_def wk_read_update wk_read_tombstone weak_ok_def)
qed

lemma weakKeySet_sel [simp]:
  "arr (weakKeySet alive key v t) = arr t" "hash (weakKeySet alive key v t) = hash t"
  "keys (weakKeySet alive key v t) = keys t" "weakk (weakKeySet alive key v t) = weakk t"
  "weakv (weakKeySet alive key v t) = weakv t"
  by (simp_all add: weakKeySet_def Let_def split: option.splits)

lemma hash_cong:
  assumes "hash t' = hash t"
  shows "hash_val t' = hash_val t"
  using assms by (auto simp: hash_val_def)

lemma wk_entry_ok_update:
  assumes "\<forall>e \<in> set es. wk_entry_ok e" "i < length es" "slot_ok v" "v \<noteq> VNil"
  shows "\<forall>e \<in> set (es[i := (es ! i)\<lparr>w_val := v\<rparr>]). wk_entry_ok e"
proof -
  have "wk_entry_ok ((es ! i)\<lparr>w_val := v\<rparr>)"
    using assms(1) [THEN bspec, OF nth_mem [OF assms(2)]] assms(3,4)
    by (auto simp: wk_entry_ok_def split: option.splits)
  then show ?thesis using assms(1) by (auto dest!: set_update_subset_insert [THEN subsetD])
qed

lemma weakKeySet_weak_ok:
  assumes "weak_ok t" "weakk t" "collectableTag (tag key)" "alive (gc key)" "strong v"
  shows "weak_ok (weakKeySet alive key v t)"
proof -
  have v: "slot_ok (wrapVal t v)" using slot_fits_wrap [OF assms(5), of t] by (simp add: slot_fits_def)
  have hv: "hash_val (weakKeySet alive key v t) = hash_val t" by (rule hash_cong) simp
  show ?thesis
  proof (cases "weakKeyIndex alive t key")
    case None
    then have "gc key \<notin> set (wk_ptrs (weakKeys t))"
      using wk_index_None_iff [of alive "gc key"] assms(4) by (simp add: weakKeyIndex_def)
    then show ?thesis
      using None assms v hv by (auto simp: weakKeySet_def Let_def weak_ok_def wk_entry_ok_def mkKeyCell_def)
  next
    case (Some i)
    then have i: "i < length (weakKeys t)" using wk_index_Some by (auto simp: weakKeyIndex_def)
    have "wk_entry_ok \<lparr>w_key = None, w_val = VNil\<rparr>" by (simp add: wk_entry_ok_def)
    then show ?thesis
      using Some assms v hv i wk_entry_ok_update [of "weakKeys t" i "wrapVal t v"]
      by (auto simp: weakKeySet_def Let_def weak_ok_def wk_ptrs_update wk_ptrs_tombstone
          dest!: set_update_subset_insert [THEN subsetD])
  qed
qed

text \<open>A value the program can hold: not a weak cell, and its object has not been collected.\<close>

definition live :: "(ptr \<Rightarrow> bool) \<Rightarrow> Value \<Rightarrow> bool" where
  "live alive v = (strong v \<and> (collectableTag (tag v) \<longrightarrow> alive (gc v)))"

definition same_object :: "Value \<Rightarrow> Value \<Rightarrow> bool" where
  "same_object v w = (collectableTag (tag v) \<and> collectableTag (tag w) \<and> gc v = gc w)"

lemma live_strong [simp]: "live alive v \<Longrightarrow> strong v" by (simp add: live_def)

lemma deref_wrap_live: "live alive v \<Longrightarrow> deref alive (wrapVal t v) = v"
  by (auto simp: wrapVal_def live_def deref_mkWeak)

lemma hashset_general_ok:
  assumes "tbl_ok t" "normKey key = Some nk" "k_tag nk \<noteq> tagInt" "strong key" "strong v"
    "\<not> (weakk t \<and> collectableTag (tag key))"
  shows "tbl_ok (hashset nk key v t)"
  using assms normKey_tag_collectable [OF assms(2)] by (intro hashset_ok) auto

lemma rawset_ok:
  assumes "tbl_ok t" "live alive key" "strong v"
  shows "tbl_ok (rawset alive key v t)"
proof (cases "weakk t \<and> collectableTag (tag key)")
  case True
  then have "weak_ok (weakKeySet alive key v t)"
    using assms by (intro weakKeySet_weak_ok) (auto simp: tbl_ok_def live_def)
  moreover have "hash_val (weakKeySet alive key v t) = hash_val t" by (rule hash_cong) simp
  ultimately show ?thesis
    using True assms(1) by (simp add: rawset_def tbl_ok_def slots_ok_def hash_ok_def dense_ok_def slot_fits_def)
next
  case False
  have gen: "tbl_ok (case normKey key of None \<Rightarrow> t | Some nk \<Rightarrow> hashset nk key v t)"
    if "\<And>nk. normKey key = Some nk \<Longrightarrow> k_tag nk \<noteq> tagInt"
    using assms that False by (auto split: option.splits intro!: hashset_general_ok)
  show ?thesis
    using False gen assms
    by (cases key) (auto simp: rawset_def Let_def rawsetInt_ok normKey_float normKey_def split: option.splits)
qed

lemma lookup_hashset:
  "k_tag nk \<noteq> tagInt \<Longrightarrow>
     lookup alive (hashset nk key v t) k = (if k = nk then deref alive (wrapVal t v) else lookup alive t k)"
  by (auto simp: lookup_def hash_val_hashset)

lemma rawset_lookup:
  assumes "\<not> (weakk t \<and> collectableTag (tag key))" "normKey key = Some nk" "is_nkey k"
  shows "lookup alive (rawset alive key v t) k = (if k = nk then deref alive (wrapVal t v) else lookup alive t k)"
proof -
  have gen: "lookup alive (hashset nk key v t) k = (if k = nk then deref alive (wrapVal t v) else lookup alive t k)"
    if "k_tag nk \<noteq> tagInt" using that by (rule lookup_hashset)
  show ?thesis
    using assms gen
    by (cases key) (auto simp: rawset_def Let_def lookup_rawsetInt normKey_float normKey_def split: option.splits if_splits)
qed

lemma rawset_weak_sel:
  "\<not> (weakk t \<and> collectableTag (tag key)) \<Longrightarrow> weakKeys (rawset alive key v t) = weakKeys t"
  "weakk (rawset alive key v t) = weakk t"
  by (cases key; auto simp: rawset_def Let_def split: option.splits)+

lemma tget_rawset:
  assumes "tbl_ok t" "live alive key" "normKey key \<noteq> None" "live alive v" "live alive k"
    "same_object key k \<longrightarrow> key = k"
  shows "tget alive (rawset alive key v t) k = (if normKey k = normKey key then v else tget alive t k)"
proof (cases "weakk t \<and> collectableTag (tag key)")
  case True
  have *: "lookup alive (rawset alive key v t) = lookup alive t"
    using True by (auto simp: fun_eq_iff rawset_def lookup_def hash_val_def)
  show ?thesis
  proof (cases "collectableTag (tag k)")
    case k: True
    have eq: "normKey k = normKey key \<longleftrightarrow> gc k = gc key"
      using True k assms(6) by (auto simp: normKey_collectable same_object_def)
    show ?thesis
      unfolding eq
      using True k assms weakKeySet_read [of t alive key "gc k" v]
      by (auto simp: tget_def rawset_def weakKeyGet_read tbl_ok_def live_def deref_wrap_live)
  next
    case k: False
    then have "normKey k \<noteq> normKey key"
      using True normKey_collectable [of key] normKey_tag_collectable [of k] by auto
    with k True * show ?thesis by (auto simp: tget_def rawset_weak_sel split: option.splits)
  qed
next
  case False
  from assms(3) obtain nk where nk: "normKey key = Some nk" by blast
  have "normKey k \<noteq> normKey key" if "weakk t" "collectableTag (tag k)"
    using that False nk normKey_tag_collectable normKey_collectable [of k] by metis
  then show ?thesis
    using False nk assms(4) rawset_lookup [OF False nk is_nkey_normKey]
    by (auto simp: tget_def rawset_weak_sel weakKeyGet_read deref_wrap_live split: option.splits)
qed

subsection \<open>Reading clears dead weak values and nothing else\<close>

definition read_equal :: "(ptr \<Rightarrow> bool) \<Rightarrow> Table \<Rightarrow> Table \<Rightarrow> bool" where
  "read_equal alive t' t = (tbl_ok t' \<and> lookup alive t' = lookup alive t \<and> weakKeys t' = weakKeys t \<and>
     weakk t' = weakk t \<and> weakv t' = weakv t \<and> keys t' = keys t \<and> length (arr t') = length (arr t))"

lemma hashdel_ok:
  assumes "tbl_ok t"
  shows "tbl_ok (hashdel nk t)"
  using assms
  by (auto simp: tbl_ok_def slots_ok_def hash_val_hashdel hash_ok_hashdel dense_ok_def weak_ok_def)

lemma hash_get_frame:
  assumes "tbl_ok t"
  shows "read_equal alive (snd (hash_get alive nk t)) t"
proof -
  have "lookup alive (hashdel nk t) k = lookup alive t k" if "isDeadWeak alive (hash_val t nk)" for k
    using that by (auto simp: lookup_def hash_val_hashdel deref_cases)
  then show ?thesis
    using assms by (auto simp: hash_get_def Let_def read_equal_def hashdel_ok)
qed

lemma rawgetInt_frame:
  assumes "tbl_ok t"
  shows "read_equal alive (snd (rawgetInt alive k t)) t"
proof (cases "unat (k - 1) < length (arr t)")
  case True
  define u where "u = unat (k - 1)"
  have "lookup alive (t\<lparr>arr := (arr t)[u := VNil]\<rparr>) k = lookup alive t k"
    if "isDeadWeak alive (arr t ! u)" for k
    using that True by (cases "unat (k_n k - 1) = u") (auto simp: lookup_def deref_cases u_def)
  moreover have "tbl_ok (t\<lparr>arr := (arr t)[u := VNil]\<rparr>)"
    using assms True
    by (auto simp: tbl_ok_def slots_ok_def dense_ok_def weak_ok_def dest!: set_update_subset_insert [THEN subsetD])
  ultimately show ?thesis
    using assms True by (auto simp: rawgetInt_def Let_def read_equal_def u_def)
next
  case False
  then show ?thesis using hash_get_frame [OF assms] by (simp add: rawgetInt_def Let_def)
qed

lemma rawget_frame:
  assumes "tbl_ok t"
  shows "read_equal alive (snd (rawget alive key t)) t"
proof -
  have refl: "read_equal alive t t" using assms by (simp add: read_equal_def)
  show ?thesis
    using refl hash_get_frame [OF assms, of alive] rawgetInt_frame [OF assms, of alive]
    by (cases key) (auto simp: rawget_def Let_def split: option.splits)
qed

lemma read_equal_tget: "read_equal alive t' t \<Longrightarrow> tget alive t' k = tget alive t k"
  by (auto simp: read_equal_def tget_def weakKeyGet_read split: option.splits)

subsection \<open>Changing the mode keeps the invariant\<close>

text \<open>Each object has one type, so no two collectable keys share an address.\<close>

definition unique_objects :: "Table \<Rightarrow> bool" where
  "unique_objects t = inj_on k_p {k \<in> dom (hash t). collectableTag (k_tag k)}"

lemma normKey_cell:
  assumes "normKey v = Some nk" "collectableTag (k_tag nk)"
  shows "mkKeyCell v = (k_tag nk, k_p nk)"
proof -
  have "collectableTag (tag v)" using assms normKey_tag_collectable by blast
  then show ?thesis using normKey_collectable [of v] assms(1) by (auto simp: mkKeyCell_def)
qed

definition moved_entry :: "Table \<Rightarrow> tkey \<Rightarrow> weakKeyEntry option" where
  "moved_entry t k = (if collectableTag (k_tag k) \<and> hash_val t k \<noteq> VNil
     then Some \<lparr>w_key = Some (k_tag k, k_p k), w_val = hash_val t k\<rparr> else None)"

lemma to_weak_key_alt:
  assumes "hash_ok t"
  shows "to_weak_key k t = (case moved_entry t k of None \<Rightarrow> t
    | Some e \<Rightarrow> hashdel k (t\<lparr>weakKeys := weakKeys t @ [e]\<rparr>))"
  using assms
  by (auto simp: to_weak_key_def moved_entry_def hash_val_def hash_ok_def normKey_cell split: option.splits)

lemma fold_to_weak:
  assumes "hash_ok t" "distinct ks"
  defines "t' \<equiv> fold to_weak_key ks t"
  shows "hash_ok t' \<and> arr t' = arr t \<and> keys t' = keys t \<and> weakv t' = weakv t \<and> weakk t' = weakk t \<and>
    weakKeys t' = weakKeys t @ List.map_filter (moved_entry t) ks \<and>
    hash_val t' = (\<lambda>k. if k \<in> set ks \<and> collectableTag (k_tag k) then VNil else hash_val t k)"
  using assms(1,2) unfolding t'_def
proof (induction ks arbitrary: t)
  case (Cons k ks)
  define u where "u = to_weak_key k t"
  have u: "hash_ok u" "arr u = arr t" "keys u = keys t" "weakv u = weakv t" "weakk u = weakk t"
    "hash_val u = (\<lambda>j. if j = k \<and> collectableTag (k_tag k) then VNil else hash_val t j)"
    "weakKeys u = weakKeys t @ List.map_filter (moved_entry t) [k]"
    using Cons.prems(1) unfolding u_def to_weak_key_alt [OF Cons.prems(1)]
    by (auto simp: hash_ok_hashdel moved_entry_def hash_val_hashdel map_filter_simps fun_eq_iff)
  have "List.map_filter (moved_entry u) ks = List.map_filter (moved_entry t) ks"
    using Cons.prems(2) u(6) unfolding map_filter_def
    by (intro arg_cong2 [of _ _ _ _ map] filter_cong map_cong) (auto simp: moved_entry_def)
  with Cons.IH [of u] Cons.prems(2) u show ?case
    by (auto simp: u_def [symmetric] map_filter_simps fun_eq_iff split: option.splits)
qed (simp add: map_filter_simps)

lemma wk_ptrs_moved:
  "wk_ptrs (List.map_filter (moved_entry t) ks) =
     map k_p (filter (\<lambda>k. collectableTag (k_tag k) \<and> hash_val t k \<noteq> VNil) ks)"
  by (induction ks) (auto simp: map_filter_simps moved_entry_def)

lemma to_weak_ok:
  assumes "tbl_ok t" "\<not> weakk t" "unique_objects t"
  shows "tbl_ok ((migrateWeakKeys alive True t)\<lparr>weakk := True\<rparr>)"
proof -
  define t' where "t' = (fold to_weak_key (keys t) t)\<lparr>weakk := True\<rparr>"
  have h: "hash_ok t" "distinct (keys t)" "set (keys t) = dom (hash t)" using assms(1) by (auto simp: tbl_ok_def hash_ok_def)
  note f = fold_to_weak [OF h(1,2)]
  have hv: "hash_val t' = (\<lambda>k. if k \<in> set (keys t) \<and> collectableTag (k_tag k) then VNil else hash_val t k)"
    and sel: "arr t' = arr t" "keys t' = keys t" "weakv t' = weakv t" "weakk t'"
      "weakKeys t' = List.map_filter (moved_entry t) (keys t)"
    using f assms by (auto simp: t'_def hash_val_def fun_eq_iff tbl_ok_def weak_ok_def)
  have "hash_ok t'" using f by (auto simp: t'_def hash_ok_def)
  moreover have "slots_ok t'" "dense_ok t'"
    using assms(1) sel hv by (auto simp: tbl_ok_def slots_ok_def dense_ok_def slot_fits_def strong_def)
  moreover have "hash_val t k = VNil" if "k \<notin> set (keys t)" for k
    using that h(3) by (auto simp: hash_val_def split: option.splits)
  moreover have "distinct (wk_ptrs (weakKeys t'))"
    unfolding sel(5) wk_ptrs_moved using assms(3) h
    by (auto simp: distinct_map unique_objects_def inj_on_def)
  moreover have "wk_entry_ok e" if "e \<in> set (weakKeys t')" for e
    using that assms(1)
    by (auto simp: sel(5) map_filter_iff moved_entry_def wk_entry_ok_def tbl_ok_def slots_ok_def slot_fits_def
        split: if_splits)
  ultimately have "tbl_ok t'" using sel(4) hv by (auto simp: tbl_ok_def weak_ok_def)
  then show ?thesis by (simp add: migrateWeakKeys_def t'_def)
qed

definition core_ok :: "Table \<Rightarrow> bool" where
  "core_ok t = (slots_ok t \<and> hash_ok t \<and> dense_ok t)"

lemma core_ok_hashset:
  assumes "core_ok t" "normKey key = Some nk" "strong key" "strong v" "k_tag nk \<noteq> tagInt"
  shows "core_ok (hashset nk key v t)"
  using assms slot_fits_wrap [OF assms(4), of t]
  by (auto simp: core_ok_def slots_ok_def hash_ok_hashset dense_ok_def hash_val_hashset)

lemma core_ok_to_strong:
  assumes "core_ok t" "wk_entry_ok e"
  shows "core_ok (to_strong_key alive e t)"
proof (cases "w_key e")
  case (Some c)
  obtain tg p where c: "c = (tg, p)" by (cases c)
  then have tg: "collectableTag tg" "slot_ok (w_val e)" using assms(2) Some by (auto simp: wk_entry_ok_def)
  then have "normKey (mkObj tg p) = Some \<lparr>k_tag = tg, k_n = 0, k_s = [], k_p = p\<rparr>" "strong (mkObj tg p)"
    using mkObj_sel [of tg p] normKey_collectable [of "mkObj tg p"] by (auto simp: strong_def)
  moreover have "tg \<noteq> tagInt" using tg(1) by auto
  ultimately show ?thesis
    using assms(1) Some c tg(2) by (auto simp: to_strong_key_def strong_deref intro!: core_ok_hashset)
qed (simp add: to_strong_key_def assms(1))

lemma core_ok_fold_strong:
  "core_ok t \<Longrightarrow> \<forall>e \<in> set es. wk_entry_ok e \<Longrightarrow> core_ok (fold (to_strong_key alive) es t)"
  by (induction es arbitrary: t) (auto simp: core_ok_to_strong)

lemma core_ok_cong [simp]: "core_ok (t\<lparr>weakKeys := w, weakk := b\<rparr>) = core_ok t"
  by (auto simp: core_ok_def slots_ok_def hash_ok_def dense_ok_def slot_fits_def hash_val_def)

lemma to_strong_ok:
  assumes "tbl_ok t"
  shows "tbl_ok ((migrateWeakKeys alive False t)\<lparr>weakk := False\<rparr>)"
proof -
  have "core_ok ((fold (to_strong_key alive) (weakKeys t) t)\<lparr>weakKeys := [], weakk := False\<rparr>)"
    using assms by (auto simp: tbl_ok_def weak_ok_def core_ok_def [of t] intro!: core_ok_fold_strong)
  then show ?thesis by (simp add: migrateWeakKeys_def tbl_ok_def core_ok_def weak_ok_def)
qed

lemma hash_val_map_slots: "f VNil = VNil \<Longrightarrow> hash_val (map_slots f t) k = f (hash_val t k)"
  by (simp add: hash_val_def map_slots_def split: option.splits)

lemma map_slots_sel [simp]:
  "arr (map_slots f t) = map f (arr t)" "keys (map_slots f t) = keys t" "weakKeys (map_slots f t) = weakKeys t"
  "weakk (map_slots f t) = weakk t" "dom (hash (map_slots f t)) = dom (hash t)"
  by (auto simp: map_slots_def)

lemma hash_val_weakv [simp]: "hash_val (t\<lparr>weakv := b\<rparr>) = hash_val t"
  by (auto simp: hash_val_def)

lemma map_slots_ok:
  assumes "tbl_ok t" "f VNil = VNil" "\<And>x. slot_ok x \<Longrightarrow> slot_ok (f x) \<and> (\<not> b \<longrightarrow> strong (f x))"
  shows "tbl_ok ((map_slots f t)\<lparr>weakv := b\<rparr>)"
proof -
  have "hash_ok (map_slots f t)"
    using assms(1) unfolding tbl_ok_def hash_ok_def by (auto simp: map_slots_def)
  then have "hash_ok ((map_slots f t)\<lparr>weakv := b\<rparr>)" by (simp add: hash_ok_def)
  then show ?thesis
    using assms by (auto simp: tbl_ok_def slots_ok_def dense_ok_def weak_ok_def hash_val_map_slots slot_fits_def)
qed

lemma weakv_same: "weakv t = b \<Longrightarrow> t\<lparr>weakv := b\<rparr> = t"
  by (cases t) simp

lemma refreshWeak_ok:
  assumes "tbl_ok t" "unique_objects t"
  shows "tbl_ok (refreshWeak alive mv t)"
proof -
  obtain wk wv where m: "(case mv of VString s \<Rightarrow> (of_char CHR ''k'' \<in> set s, of_char CHR ''v'' \<in> set s)
      | _ \<Rightarrow> (False, False)) = (wk, wv)" by (rule prod.exhaust)
  define t2 where "t2 = (if wv \<and> \<not> weakv t then map_slots mkWeak t
      else if \<not> wv \<and> weakv t then map_slots (deref alive) t else t)\<lparr>weakv := wv\<rparr>"
  have r: "refreshWeak alive mv t = (if wk \<noteq> weakk t2 then migrateWeakKeys alive wk t2 else t2)\<lparr>weakk := wk\<rparr>"
    unfolding refreshWeak_def m t2_def by (simp add: Let_def)
  have ok: "tbl_ok t2"
    unfolding t2_def using assms(1)
    by (auto intro!: map_slots_ok simp: strong_deref weakv_same)
  have "unique_objects t2" using assms(2) by (auto simp: t2_def unique_objects_def)
  then have "tbl_ok ((migrateWeakKeys alive wk t2)\<lparr>weakk := wk\<rparr>)" if "wk \<noteq> weakk t2"
    using that ok to_weak_ok [of t2 alive] to_strong_ok [of t2 alive] by (cases wk) auto
  moreover have "t2\<lparr>weakk := wk\<rparr> = t2" if "wk = weakk t2" using that by simp
  ultimately show ?thesis using ok by (auto simp: r)
qed

subsection \<open>Tables the program can build\<close>

text \<open>
  All histories of a table: created empty, written (with values the program holds), read, and
  given a metatable. The collector may have advanced between any two steps, so each step has its
  own \<open>alive\<close>.
\<close>

inductive built :: "Table \<Rightarrow> bool" where
  built_new: "built newTable"
| built_set: "built t \<Longrightarrow> live alive key \<Longrightarrow> strong v \<Longrightarrow> built (rawset alive key v t)"
| built_setInt: "built t \<Longrightarrow> strong v \<Longrightarrow> built (rawsetInt i v t)"
| built_get: "built t \<Longrightarrow> built (snd (rawget alive key t))"
| built_mode: "built t \<Longrightarrow> unique_objects t \<Longrightarrow> built (refreshWeak alive mv t)"

theorem built_ok: "built t \<Longrightarrow> tbl_ok t"
proof (induction rule: built.induct)
  case (built_get t alive key)
  then show ?case using rawget_frame [of t alive key] by (simp add: read_equal_def)
qed (simp_all add: rawset_ok rawsetInt_ok refreshWeak_ok)

end
