(* ===== verification/TableIter.thy ===== *)
theory TableIter
  imports TableInv
begin

text \<open>
  The length operator and the traversal of tables, and the properties of the table component.
\<close>

subsection \<open>The border\<close>

lemma border_search_border:
  assumes "lo < hi" "hi \<le> length a" "lo = 0 \<or> deref alive (a ! (lo - 1)) \<noteq> VNil"
    "deref alive (a ! (hi - 1)) = VNil"
  defines "b \<equiv> border_search alive a lo hi"
  shows "b < hi \<and> (b = 0 \<or> deref alive (a ! (b - 1)) \<noteq> VNil) \<and> deref alive (a ! b) = VNil"
  using assms(1-4) unfolding b_def
proof (induction alive a lo hi rule: border_search.induct)
  case (1 alive a lo hi)
  define m where "m = (lo + hi) div 2"
  show ?case
  proof (cases "1 < hi - lo")
    case True
    then have m: "lo < m" "m < hi" by (auto simp: m_def)
    show ?thesis
    proof (cases "deref alive (a ! (m - 1)) = VNil")
      case nil: True
      then have "border_search alive a lo hi = border_search alive a lo m"
        using True by (simp add: border_search.simps [of alive a lo] m_def Let_def)
      then show ?thesis using "1.IH"(1) [OF True m_def] nil m "1.prems" by auto
    next
      case nil: False
      then have "border_search alive a lo hi = border_search alive a m hi"
        using True by (simp add: border_search.simps [of alive a lo] m_def Let_def)
      then show ?thesis using "1.IH"(2) [OF True m_def] nil m "1.prems" by auto
    qed
  next
    case False
    then have "hi = Suc lo" using "1.prems" by simp
    then show ?thesis using "1.prems" by (simp add: border_search.simps)
  qed
qed

lemma hash_past_array: "tbl_ok t \<Longrightarrow> hash_val t (int_key (of_nat (length (arr t)) + 1)) = VNil"
  by (simp add: tbl_ok_def dense_ok_def)

lemma length_table_border:
  assumes "tbl_ok t" "length (arr t) < 2 ^ 63"
  shows "\<exists>b \<le> length (arr t). length_table alive t = Some (of_nat b, t) \<and>
    (b = 0 \<or> lookup alive t (int_key (of_nat b)) \<noteq> VNil) \<and> lookup alive t (int_key (of_nat b + 1)) = VNil \<and>
    (b = length (arr t) \<or> deref alive (last (arr t)) = VNil)"
proof -
  define n where "n = length (arr t)"
  have pos: "unat (of_nat b - 1 :: i64) = b - 1" if "0 < b" "b \<le> n" for b
    using that assms(2) unat_of_nat_i64 [of "b - 1"] by (simp add: n_def of_nat_diff)
  have pos': "unat (of_nat b :: i64) = b" if "b \<le> n" for b
    using that assms(2) unat_of_nat_i64 [of b] by (simp add: n_def)
  note inside = pos pos' n_def [symmetric] lookup_int
  show ?thesis
  proof (cases "0 < n \<and> deref alive (arr t ! (n - 1)) = VNil")
    case True
    define b where "b = border_search alive (arr t) 0 n"
    have "b < n \<and> (b = 0 \<or> deref alive (arr t ! (b - 1)) \<noteq> VNil) \<and> deref alive (arr t ! b) = VNil"
      unfolding b_def using True by (intro border_search_border) (auto simp: n_def)
    moreover have "deref alive (last (arr t)) = VNil" using True by (simp add: n_def last_conv_nth)
    ultimately show ?thesis using True
      by (intro exI [of _ b]) (auto simp: length_table_def Let_def b_def inside)
  next
    case False
    then show ?thesis using hash_past_array [OF assms(1)]
      by (intro exI [of _ n]) (auto simp: length_table_def Let_def inside rawgetInt_def hash_get_def)
  qed
qed

subsection \<open>Traversal\<close>

definition arr_pair :: "(ptr \<Rightarrow> bool) \<Rightarrow> Value list \<Rightarrow> nat \<Rightarrow> (Value \<times> Value) option" where
  "arr_pair alive a i =
     (let v = deref alive (a ! i) in if v = VNil then None else Some (VInt (of_nat (i + 1)), v))"

definition hash_pair :: "(ptr \<Rightarrow> bool) \<Rightarrow> (tkey \<rightharpoonup> hentry) \<Rightarrow> tkey \<Rightarrow> (Value \<times> Value) option" where
  "hash_pair alive h k =
     (case h k of None \<Rightarrow> None
      | Some e \<Rightarrow> let v = deref alive (h_val e) in if v = VNil then None else Some (h_key e, v))"

definition wk_pair :: "(ptr \<Rightarrow> bool) \<Rightarrow> weakKeyEntry \<Rightarrow> (Value \<times> Value) option" where
  "wk_pair alive e =
     (case w_key e of None \<Rightarrow> None
      | Some (tg, p) \<Rightarrow> let v = deref alive (w_val e) in
          if \<not> alive p \<or> v = VNil then None else Some (mkObj tg p, v))"

text \<open>The pairs of a table in the order of traversal: array, hash, weakly held keys.\<close>

definition all_pairs :: "(ptr \<Rightarrow> bool) \<Rightarrow> Table \<Rightarrow> (Value \<times> Value) list" where
  "all_pairs alive t = List.map_filter (arr_pair alive (arr t)) [0..<length (arr t)] @
     List.map_filter (hash_pair alive (hash t)) (keys t) @ List.map_filter (wk_pair alive) (weakKeys t)"

definition hd_opt :: "'a list \<Rightarrow> 'a option" where
  "hd_opt xs = (case xs of [] \<Rightarrow> None | x # _ \<Rightarrow> Some x)"

lemma hd_opt_simps [simp]: "hd_opt [] = None" "hd_opt (x # xs) = Some x"
  "hd_opt (xs @ ys) = (case hd_opt xs of None \<Rightarrow> hd_opt ys | Some x \<Rightarrow> Some x)"
  by (simp_all add: hd_opt_def split: list.splits)

lemma map_filter_split:
  "List.map_filter f xs = P @ y # R \<Longrightarrow>
     \<exists>us x vs. xs = us @ x # vs \<and> f x = Some y \<and> R = List.map_filter f vs"
proof (induction xs arbitrary: P)
  case (Cons x xs)
  show ?case
  proof (cases "f x")
    case None
    with Cons.prems obtain us z vs where "xs = us @ z # vs" "f z = Some y" "R = List.map_filter f vs"
      using Cons.IH [of P] by (auto simp: map_filter_simps)
    then show ?thesis by (intro exI [of _ "x # us"] exI [of _ z] exI [of _ vs]) simp
  next
    case (Some w)
    show ?thesis
    proof (cases P)
      case Nil
      with Some Cons.prems show ?thesis
        by (intro exI [of _ "[]"] exI [of _ x] exI [of _ xs]) (simp add: map_filter_simps)
    next
      case (Cons p P')
      with Some Cons.prems obtain us z vs where "xs = us @ z # vs" "f z = Some y" "R = List.map_filter f vs"
        using Cons.IH [of P'] by (auto simp: map_filter_simps)
      then show ?thesis by (intro exI [of _ "x # us"] exI [of _ z] exI [of _ vs]) simp
    qed
  qed
qed (simp add: map_filter_simps)

lemma arr_first_pairs:
  "i + length xs = length a \<Longrightarrow> drop i a = xs \<Longrightarrow>
     arr_first alive i xs = hd_opt (List.map_filter (arr_pair alive a) [i..<length a])"
proof (induction alive i xs rule: arr_first.induct)
  case (2 alive i x xs)
  then have "a ! i = x" "drop (Suc i) a = xs" "i < length a"
    by (auto simp: nth_via_drop) (metis drop_Suc drop_tl list.sel(3))
  with 2 show ?case
    by (auto simp: upt_conv_Cons [of i] map_filter_simps arr_pair_def Let_def)
qed (simp add: map_filter_simps)

lemma hash_first_pairs: "hash_first alive h ks = hd_opt (List.map_filter (hash_pair alive h) ks)"
  by (induction ks) (auto simp: map_filter_simps hash_pair_def Let_def split: option.splits)

lemma wk_first_pairs: "wk_first alive es = hd_opt (List.map_filter (wk_pair alive) es)"
  by (induction es) (auto simp: map_filter_simps wk_pair_def Let_def split: option.splits)

lemma next_from_pairs:
  "i \<le> length (arr t) \<Longrightarrow> next_from alive t i = hd_opt (List.map_filter (arr_pair alive (arr t)) [i..<length (arr t)] @
     List.map_filter (hash_pair alive (hash t)) (keys t) @ List.map_filter (wk_pair alive) (weakKeys t))"
  by (simp add: next_from_def arr_first_pairs nextHashAt_def weakKeyAt_def hash_first_pairs wk_first_pairs
      split: option.splits)

lemma next_start: "next_key alive t VNil = Some (hd_opt (all_pairs alive t))"
  by (simp add: next_key_def next_from_pairs all_pairs_def)

lemma key_index_distinct: "distinct (us @ k # vs) \<Longrightarrow> key_index k (us @ k # vs) = Some (length us)"
  by (induction us) auto

lemma wk_index_distinct:
  assumes "distinct (wk_ptrs (us @ e # vs))" "w_key e = Some (tg, p)" "alive p"
  shows "wk_index alive p (us @ e # vs) = Some (length us)"
  using assms by (induction us) (auto simp: wk_holds_def split: option.splits)

lemma append_split_at:
  "A @ B = P @ x # R \<Longrightarrow> (\<exists>R1. A = P @ x # R1 \<and> R = R1 @ B) \<or> (\<exists>P2. B = P2 @ x # R)"
  by (auto simp: append_eq_append_conv2 append_eq_Cons_conv Cons_eq_append_conv)

lemma upt_split_at: "[0..<n] = us @ i # vs \<Longrightarrow> i < n \<and> vs = [Suc i..<n]"
proof -
  assume eq: "[0..<n] = us @ i # vs"
  then have len: "length us < n" by (metis diff_zero length_append length_upt less_add_same_cancel1 list.size(4) add_Suc_right zero_less_Suc)
  then have "i = length us" using eq by (metis add_0 nth_append_length nth_upt)
  moreover have "vs = drop (Suc (length us)) [0..<n]" by (simp add: eq)
  ultimately show ?thesis using len by simp
qed

lemma sint_index: "Suc n < 2 ^ 63 \<Longrightarrow> sint (of_nat n + 1 :: i64) = int n + 1"
  using sint_of_int_id [of "int n + 1"] by simp

lemma next_in_array:
  assumes "i < length (arr t)" "length (arr t) < 2 ^ 63"
  shows "next_key alive t (VInt (of_nat (i + 1))) = Some (next_from alive t (i + 1))"
proof -
  have "sint (of_nat i + 1 :: i64) = int i + 1" using assms by (intro sint_index) simp
  then show ?thesis using assms by (simp add: next_key_def add.commute nat_add_distrib)
qed

lemma next_in_hash:
  assumes "tbl_ok t" "length (arr t) < 2 ^ 63" "hash t nk = Some e" "h_val e \<noteq> VNil"
  shows "next_key alive t (h_key e) = nextHash alive t (h_key e)"
proof -
  have nk: "normKey (h_key e) = Some nk" and hv: "hash_val t nk \<noteq> VNil"
    using assms by (auto simp: tbl_ok_def hash_ok_def hash_val_def)
  have "\<not> (weakk t \<and> collectableTag (tag (h_key e)))"
    using assms(1) hv normKey_tag_collectable [OF nk] by (auto simp: tbl_ok_def weak_ok_def)
  moreover have "h_key e \<noteq> VNil" using nk by auto
  moreover have "\<not> (1 \<le> sint ik \<and> sint ik \<le> int (length (arr t)))" if ik: "arrayIndex (h_key e) = Some ik" for ik
  proof
    assume r: "1 \<le> sint ik \<and> sint ik \<le> int (length (arr t))"
    have "nk = int_key ik" using ik nk by (cases "h_key e") (auto simp: normKey_float)
    moreover obtain m where m: "sint ik = int m + 1" using r that [of "nat (sint ik - 1)"] by simp
    moreover have "ik = of_nat m + 1"
      using arg_cong [OF m, of "word_of_int :: int \<Rightarrow> i64"] by simp
    moreover have "m \<le> length (arr t)" using r m by linarith
    ultimately show False using assms(1) hv by (metis tbl_ok_def dense_ok_def)
  qed
  ultimately show ?thesis by (auto simp: next_key_def split: option.splits)
qed

lemma next_succ:
  assumes "tbl_ok t" "length (arr t) < 2 ^ 63" "all_pairs alive t = P @ (k, v) # R"
  shows "next_key alive t k = Some (hd_opt R)"
proof -
  define A H W where "A = List.map_filter (arr_pair alive (arr t)) [0..<length (arr t)]"
    and "H = List.map_filter (hash_pair alive (hash t)) (keys t)"
    and "W = List.map_filter (wk_pair alive) (weakKeys t)"
  have "A @ H @ W = P @ (k, v) # R" using assms(3) by (simp add: all_pairs_def A_def H_def W_def)
  then consider (arr) R1 where "A = P @ (k, v) # R1" "R = R1 @ H @ W"
    | (hash) P2 R2 where "H = P2 @ (k, v) # R2" "R = R2 @ W" | (weak) P3 where "W = P3 @ (k, v) # R"
    by (metis append_split_at)
  then show ?thesis
  proof cases
    case arr
    then obtain us i vs where i: "[0..<length (arr t)] = us @ i # vs" "arr_pair alive (arr t) i = Some (k, v)"
        "R1 = List.map_filter (arr_pair alive (arr t)) vs"
      unfolding A_def by (metis map_filter_split)
    with upt_split_at [OF i(1)] show ?thesis
      using next_in_array [of i t alive] assms(2) arr(2)
      by (auto simp: arr_pair_def Let_def next_from_pairs H_def W_def add.commute split: if_splits)
  next
    case hash
    then obtain us nk vs where nk: "keys t = us @ nk # vs" "hash_pair alive (hash t) nk = Some (k, v)"
        "R2 = List.map_filter (hash_pair alive (hash t)) vs"
      unfolding H_def by (metis map_filter_split)
    then obtain e where e: "hash t nk = Some e" "h_val e \<noteq> VNil" "k = h_key e"
      by (auto simp: hash_pair_def Let_def dest: deref_not_nil split: option.splits if_splits)
    have "normKey k = Some nk" "distinct (keys t)" using assms(1) e by (auto simp: tbl_ok_def hash_ok_def)
    then show ?thesis
      using next_in_hash [OF assms(1,2) e(1,2)] e(3) hash(2) nk key_index_distinct [of us nk vs]
      by (simp add: nextHash_def nextHashAt_def hash_first_pairs wk_first_pairs weakKeyAt_def W_def split: option.splits)
  next
    case weak
    then obtain us e vs where e: "weakKeys t = us @ e # vs" "wk_pair alive e = Some (k, v)"
        "R = List.map_filter (wk_pair alive) vs"
      unfolding W_def by (metis map_filter_split)
    then obtain tg p where tp: "w_key e = Some (tg, p)" "alive p" "k = mkObj tg p"
      by (auto simp: wk_pair_def Let_def split: option.splits if_splits)
    have ok: "wk_entry_ok e" "weakk t" "distinct (wk_ptrs (us @ e # vs))"
      using assms(1) e(1) by (auto simp: tbl_ok_def weak_ok_def)
    then have "collectableTag tg" using tp(1) by (simp add: wk_entry_ok_def)
    then show ?thesis
      using mkObj_sel [of tg p] wk_index_distinct [where alive = alive, OF ok(3) tp(1,2)] tp(3) ok(2) e
      by (simp add: next_key_def weakKeyNext_def weakKeyIndex_def weakKeyAt_def wk_first_pairs)
  qed
qed

text \<open>The traversal that \<open>pairs\<close> makes: \<open>next\<close> from nil until the end, with fuel for its steps.\<close>

fun traverse :: "nat \<Rightarrow> (ptr \<Rightarrow> bool) \<Rightarrow> Table \<Rightarrow> Value \<Rightarrow> (Value \<times> Value) list option" where
  "traverse 0 alive t key = None"
| "traverse (Suc n) alive t key =
     (case next_key alive t key of
        None \<Rightarrow> None
      | Some None \<Rightarrow> Some []
      | Some (Some (k, v)) \<Rightarrow> map_option ((#) (k, v)) (traverse n alive t k))"

lemma traverse_suffix:
  assumes "tbl_ok t" "length (arr t) < 2 ^ 63" "all_pairs alive t = P @ R"
    "next_key alive t key = Some (hd_opt R)" "length R < n"
  shows "traverse n alive t key = Some R"
  using assms(3-5)
proof (induction R arbitrary: P n key)
  case Nil
  then show ?case by (cases n) simp_all
next
  case (Cons x R)
  obtain k v where x: "x = (k, v)" by (cases x)
  obtain m where n: "n = Suc m" using Cons.prems(3) by (cases n) simp_all
  have "next_key alive t k = Some (hd_opt R)"
    using next_succ [OF assms(1,2), of alive P k v R] Cons.prems(1) x by simp
  then have "traverse m alive t k = Some R"
    using Cons.IH [of "P @ [x]" k m] Cons.prems n by simp
  then show ?case using Cons.prems(2) n x by simp
qed

lemma traverse_all:
  assumes "tbl_ok t" "length (arr t) < 2 ^ 63" "length (all_pairs alive t) < n"
  shows "traverse n alive t VNil = Some (all_pairs alive t)"
  using assms traverse_suffix [of t alive "[]"] next_start by simp

lemma all_pairs_distinct:
  assumes "tbl_ok t" "length (arr t) < 2 ^ 63"
  shows "distinct (map fst (all_pairs alive t))"
proof (rule ccontr)
  assume "\<not> ?thesis"
  then obtain xs ys zs k where "map fst (all_pairs alive t) = xs @ [k] @ ys @ [k] @ zs"
    using not_distinct_decomp by blast
  then obtain P v Q w R where split: "all_pairs alive t = P @ (k, v) # Q @ (k, w) # R"
    by (auto simp: map_eq_append_conv map_eq_Cons_conv append_eq_map_conv Cons_eq_map_conv)
  define n where "n = Suc (length (Q @ (k, w) # R))"
  have "traverse n alive t k = Some (Q @ (k, w) # R)"
    using next_succ [OF assms split] split
    by (intro traverse_suffix [OF assms, where P = "P @ [(k, v)]"]) (simp_all add: n_def)
  moreover have "traverse n alive t k = Some R"
    using next_succ [OF assms, of alive "P @ (k, v) # Q" k w R] split
    by (intro traverse_suffix [OF assms, where P = "P @ (k, v) # Q @ [(k, w)]"]) (simp_all add: n_def)
  ultimately have "Q @ (k, w) # R = R" by simp
  then have "length (Q @ (k, w) # R) = length R" by simp
  then show False by simp
qed

lemma hash_live_lookup:
  assumes "tbl_ok t" "hash_val t nk \<noteq> VNil"
  shows "lookup alive t nk = deref alive (hash_val t nk)"
proof (cases "k_tag nk = tagInt \<and> unat (k_n nk - 1) < length (arr t)")
  case True
  obtain e where "hash t nk = Some e" using assms(2) by (auto simp: hash_val_def split: option.splits)
  then have "is_nkey nk" using assms(1) unfolding tbl_ok_def hash_ok_def by (metis is_nkey_normKey)
  then have "nk = int_key (of_nat (unat (k_n nk - 1)) + 1)" using True by (simp add: is_nkey_def)
  then show ?thesis using assms True by (metis dense_ok_def less_imp_le tbl_ok_def)
qed (auto simp: lookup_def)

lemma wk_read_member:
  assumes "distinct (wk_ptrs es)" "e \<in> set es" "w_key e = Some (tg, p)" "alive p"
  shows "wk_read alive p es = deref alive (w_val e)"
  using assms
proof (induction es)
  case (Cons x es)
  have "p \<in> set (wk_ptrs es)" if "e \<in> set es"
    using that Cons.prems(3) by (induction es) (auto split: option.splits)
  then show ?case using Cons by (auto simp: wk_holds_def split: option.splits)
qed simp

lemma all_pairs_sound:
  assumes "tbl_ok t" "length (arr t) < 2 ^ 63" "(k, v) \<in> set (all_pairs alive t)"
  shows "v \<noteq> VNil \<and> tget alive t k = v"
proof -
  consider (arr) i where "i < length (arr t)" "arr_pair alive (arr t) i = Some (k, v)"
    | (hash) nk e where "hash t nk = Some e" "hash_pair alive (hash t) nk = Some (k, v)"
    | (weak) e where "e \<in> set (weakKeys t)" "wk_pair alive e = Some (k, v)"
    using assms(3) by (fastforce simp: all_pairs_def map_filter_iff hash_pair_def split: option.splits)
  then show ?thesis
  proof cases
    case arr
    then have "unat (of_nat i :: i64) = i" using assms(2) by (intro unat_of_nat_i64) simp
    with arr show ?thesis
      by (auto simp: arr_pair_def Let_def tget_def lookup_int split: if_splits)
  next
    case hash
    then have e: "k = h_key e" "v = deref alive (h_val e)" "v \<noteq> VNil"
      by (auto simp: hash_pair_def Let_def split: if_splits)
    then have hv: "hash_val t nk \<noteq> VNil" and v: "v = deref alive (hash_val t nk)"
      using hash(1) by (auto simp: hash_val_def)
    have nk: "normKey k = Some nk" using assms(1) hash(1) e(1) by (auto simp: tbl_ok_def hash_ok_def)
    have "\<not> (weakk t \<and> collectableTag (tag k))"
      using assms(1) hv normKey_tag_collectable [OF nk] by (auto simp: tbl_ok_def weak_ok_def)
    then show ?thesis using hash_live_lookup [OF assms(1) hv] nk v e(3) by (auto simp: tget_def)
  next
    case weak
    then obtain tg p where tp: "w_key e = Some (tg, p)" "alive p" "k = mkObj tg p"
        "v = deref alive (w_val e)" "v \<noteq> VNil"
      by (auto simp: wk_pair_def Let_def split: option.splits if_splits)
    have "wk_entry_ok e" "weakk t" using assms(1) weak(1) by (auto simp: tbl_ok_def weak_ok_def)
    then have "collectableTag tg" "weakk t" using tp(1) by (auto simp: wk_entry_ok_def)
    then show ?thesis
      using wk_read_member [where alive = alive, OF _ weak(1) tp(1,2)] assms(1) tp mkObj_sel [of tg p]
      by (simp add: tget_def weakKeyGet_read tbl_ok_def weak_ok_def)
  qed
qed

lemma wk_read_nonnil:
  "wk_read alive p es \<noteq> VNil \<Longrightarrow>
     \<exists>e \<in> set es. \<exists>tg. w_key e = Some (tg, p) \<and> alive p \<and> deref alive (w_val e) \<noteq> VNil"
  by (induction es) (auto simp: wk_holds_def split: option.splits if_splits)

definition same_key :: "Value \<Rightarrow> Value \<Rightarrow> bool" where
  "same_key k k' = (normKey k = normKey k' \<or> same_object k k')"

lemma lookup_pair:
  assumes "tbl_ok t" "lookup alive t nk \<noteq> VNil" "is_nkey nk"
  shows "\<exists>k v. (k, v) \<in> set (all_pairs alive t) \<and> normKey k = Some nk"
proof (cases "k_tag nk = tagInt \<and> unat (k_n nk - 1) < length (arr t)")
  case True
  define i where "i = unat (k_n nk - 1)"
  have "nk = int_key (of_nat (i + 1))" using True assms(3) by (simp add: is_nkey_def i_def)
  moreover have "arr_pair alive (arr t) i = Some (VInt (of_nat (i + 1)), lookup alive t nk)"
    using True assms(2) by (auto simp: arr_pair_def Let_def lookup_def i_def)
  ultimately show ?thesis
    using True unfolding all_pairs_def set_append Un_iff map_filter_iff i_def
    by (intro exI conjI disjI1 bexI) (assumption | simp)+
next
  case False
  then have "deref alive (hash_val t nk) \<noteq> VNil" using assms(2) by (auto simp: lookup_def)
  then obtain e where e: "hash t nk = Some e" "deref alive (h_val e) \<noteq> VNil"
    by (auto simp: hash_val_def split: option.splits)
  then have "hash_pair alive (hash t) nk = Some (h_key e, deref alive (h_val e))" "nk \<in> set (keys t)"
      "normKey (h_key e) = Some nk"
    using assms(1) by (auto simp: hash_pair_def tbl_ok_def hash_ok_def)
  then show ?thesis by (auto simp: all_pairs_def map_filter_iff)
qed

lemma all_pairs_complete:
  assumes "tbl_ok t" "tget alive t k \<noteq> VNil"
  shows "\<exists>k' v. (k', v) \<in> set (all_pairs alive t) \<and> same_key k k'"
proof (cases "weakk t \<and> collectableTag (tag k)")
  case True
  then have "wk_read alive (gc k) (weakKeys t) \<noteq> VNil" using assms(2) by (simp add: tget_def weakKeyGet_read)
  then obtain e tg where e: "e \<in> set (weakKeys t)" "w_key e = Some (tg, gc k)" "alive (gc k)"
      "deref alive (w_val e) \<noteq> VNil"
    using wk_read_nonnil by blast
  have "wk_entry_ok e" using assms(1) e(1) by (simp add: tbl_ok_def weak_ok_def)
  then have "same_object k (mkObj tg (gc k))"
    using True e(2) mkObj_sel [of tg] by (simp add: same_object_def wk_entry_ok_def)
  moreover have "wk_pair alive e = Some (mkObj tg (gc k), deref alive (w_val e))"
    using e by (simp add: wk_pair_def)
  ultimately show ?thesis using e(1) by (auto simp: all_pairs_def map_filter_iff same_key_def)
next
  case False
  then obtain nk where "normKey k = Some nk" "lookup alive t nk \<noteq> VNil"
    using assms(2) by (auto simp: tget_def split: option.splits)
  then show ?thesis using lookup_pair [OF assms(1)] is_nkey_normKey by (metis same_key_def)
qed

subsection \<open>Properties\<close>

lemma fscaled_eq_bits:
  assumes "\<not> is_nan f" "\<not> is_nan g" "fscaled f = fscaled g" "fscaled f \<noteq> 0"
  shows "f = g"
proof -
  have "mag_scaled (f64_mag f) = mag_scaled (f64_mag g)" using assms(3) nat_abs_mag [of f] nat_abs_mag [of g] by simp
  then have m: "f64_mag f = f64_mag g" by simp
  have "f64_neg x \<longleftrightarrow> fscaled x < 0" if "fscaled x \<noteq> 0" for x
    using that by (cases "f64_neg x") (simp_all add: fscaled_def)
  from this [of f] this [of g] have "f64_neg f = f64_neg g" using assms(3,4) by simp
  with m have "mk_f64 (f64_neg f) (f64_mag f) = mk_f64 (f64_neg g) (f64_mag g)" by (simp only:)
  then show ?thesis by (simp only: mk_f64_id)
qed

lemma fltToIntEq_zero: "\<not> is_nan f \<Longrightarrow> fscaled f = 0 \<Longrightarrow> fltToIntEq f = Some 0"
  by (simp add: fltToIntEq_iff)

lemma key_float_float:
  assumes "\<not> is_nan f" "\<not> is_nan g"
  shows "normKey (VFloat f) = normKey (VFloat g) \<longleftrightarrow> fscaled f = fscaled g"
proof
  assume "fscaled f = fscaled g"
  then show "normKey (VFloat f) = normKey (VFloat g)"
    using fscaled_eq_bits [OF assms] fltToIntEq_zero assms
    by (cases "fscaled f = 0") (auto simp: normKey_float)
next
  assume eq: "normKey (VFloat f) = normKey (VFloat g)"
  show "fscaled f = fscaled g"
  proof (cases "fltToIntEq f")
    case None
    with eq assms have "f = g" by (auto simp: normKey_float int_key_def split: option.splits)
    then show ?thesis by simp
  next
    case (Some i)
    with eq assms have "fltToIntEq g = Some i" by (auto simp: normKey_float int_key_def split: option.splits)
    with Some show ?thesis by (simp add: fltToIntEq_iff)
  qed
qed

lemma key_int_float:
  "normKey (VFloat f) = Some (int_key i) \<longleftrightarrow> \<not> is_nan f \<and> fscaled f = sint i * int fscale"
  unfolding fltToIntEq_iff [symmetric] by (auto simp: normKey_float int_key_def split: option.splits)

text \<open>
  The one pair of numbers on which primitive equality is not exact (\<open>RawEqual_maxint_platform\<close>).
\<close>

fun inexact_pair :: "Value \<Rightarrow> Value \<Rightarrow> bool" where
  "inexact_pair (VInt _) (VFloat f) = (fscaled f = 2 ^ 63 * int fscale)"
| "inexact_pair (VFloat f) (VInt _) = (fscaled f = 2 ^ 63 * int fscale)"
| "inexact_pair _ _ = False"

text \<open>
  Two values are the same table key exactly when they are primitively equal: a float with an
  integer value is the integer key, strings compare by content, objects by identity.
\<close>

lemma key_identity:
  assumes "strong v" "strong w" "normKey v \<noteq> None" "normKey w \<noteq> None" "\<not> inexact_pair v w"
  shows "normKey v = normKey w \<longleftrightarrow> RawEqual cvt v w"
proof (cases "IsFloat v \<or> IsFloat w")
  case True
  have fn: "\<not> is_nan f" if "normKey (VFloat f) \<noteq> None" for f
    using that by (auto simp: normKey_float dest: fltToIntEq_not_nan split: option.splits)
  have other: "normKey (VFloat f) \<noteq> normKey x" if "\<not> IsNumber x" "normKey x \<noteq> None" for f x
    using that by (cases x) (auto simp: normKey_def int_key_def str_key_def split: option.splits)
  consider f g where "v = VFloat f" "w = VFloat g" | f i where "v = VFloat f" "w = VInt i"
    | f i where "v = VInt i" "w = VFloat f" | f where "v = VFloat f" "\<not> IsNumber w"
    | f where "w = VFloat f" "\<not> IsNumber v"
    using True by (cases v; cases w) auto
  then show ?thesis
  proof cases
    case 1
    with assms fn show ?thesis by (simp add: key_float_float RawEqual_def f64_eq_def)
  next
    case 2
    with assms show ?thesis by (simp add: key_int_float RawEqual_def mixedEqual_exact)
  next
    case 3
    with assms key_int_float [of f i] show ?thesis by (simp add: RawEqual_def mixedEqual_exact eq_commute)
  next
    case 4
    with assms other [of w f] show ?thesis by (cases w) (auto simp: RawEqual_def)
  next
    case 5
    with assms other [of v f] show ?thesis by (cases v) (auto simp: RawEqual_def eq_commute)
  qed
next
  case False
  then show ?thesis using assms
    by (cases v; cases w) (auto simp: RawEqual_def normKey_def int_key_def str_key_def strong_def)
qed

lemma key_identity_witness:
  "normKey (VInt 3) = normKey (VString [51]) \<longleftrightarrow> RawEqual (\<lambda>_. 0) (VInt 3) (VString [51])"
  using key_identity [of "VInt 3" "VString [51]" "\<lambda>_. 0"] by (simp add: strong_def)

text \<open>
  C1: in every table the program can build, a read after a write gives the written value for the same
  key and the old value for every other key, whichever of the three parts of the table they are in.
\<close>

theorem table_get_set:
  assumes "built t" "live alive key" "normKey key \<noteq> None" "live alive v" "live alive k"
    "same_object key k \<longrightarrow> key = k"
  shows "fst (rawget alive k (rawset alive key v t)) =
    (if normKey k = normKey key then v else fst (rawget alive k t))"
  using tget_rawset [OF built_ok] assms by (simp add: fst_rawget)

lemma live_scalar [simp]: "live alive (VInt i)" "live alive (VString s)" "live alive VNil"
  by (simp_all add: live_def strong_def)

theorem table_get_set_witness:
  "fst (rawget (\<lambda>_. True) (VString [97]) (rawset (\<lambda>_. True) (VInt 1) (VInt 7) newTable)) = VNil"
  using table_get_set [of newTable "\<lambda>_. True" "VInt 1" "VInt 7" "VString [97]", OF built_new]
  by (simp add: same_object_def int_key_def str_key_def fst_rawget [of _ _ newTable])

text \<open>
  A read changes nothing that a later read can see, although it clears reclaimed weak values.
\<close>

lemma table_read_pure:
  assumes "built t"
  shows "fst (rawget alive k (snd (rawget alive key t))) = fst (rawget alive k t)"
  using read_equal_tget [OF rawget_frame [OF built_ok [OF assms]]] by (simp add: fst_rawget)

lemma table_read_pure_witness:
  "fst (rawget (\<lambda>_. False) (VInt 1) (snd (rawget (\<lambda>_. False) (VInt 1) newTable))) = VNil"
  using table_read_pure [OF built_new, of "\<lambda>_. False" "VInt 1" "VInt 1"]
  by (simp add: fst_rawget [of _ _ newTable])

text \<open>
  C3: the length of a table is a border that lies within its array part: its last element is present (or it is 0) and the next one is
  absent. It is the whole array part unless the last slot is empty, and the search in the hash part is never entered.
\<close>

theorem table_length_border:
  assumes "built t" "length (arr t) < 2 ^ 63"
  shows "\<exists>n. length_table alive t = Some (n, t) \<and> unat n \<le> length (arr t) \<and>
    (unat n = length (arr t) \<or> deref alive (last (arr t)) = VNil) \<and>
    (n = 0 \<or> fst (rawget alive (VInt n) t) \<noteq> VNil) \<and> fst (rawget alive (VInt (n + 1)) t) = VNil"
proof -
  obtain b where b: "b \<le> length (arr t)" "length_table alive t = Some (of_nat b, t)"
    "b = 0 \<or> lookup alive t (int_key (of_nat b)) \<noteq> VNil" "lookup alive t (int_key (of_nat b + 1)) = VNil"
    "b = length (arr t) \<or> deref alive (last (arr t)) = VNil"
    using length_table_border [OF built_ok [OF assms(1)] assms(2), of alive] by blast
  moreover have "unat (of_nat b :: i64) = b" using b(1) assms(2) unat_of_nat_i64 [of b] by simp
  ultimately show ?thesis by (intro exI [of _ "of_nat b"]) (auto simp: fst_rawget tget_def)
qed

text \<open>The list 7, 8 without its second element has the length 1, although its array part keeps two slots.\<close>

theorem table_length_border_witness:
  "length_table (\<lambda>_. True) (rawsetInt 2 VNil (rawsetInt 2 (VInt 8) (rawsetInt 1 (VInt 7) newTable))) =
     Some (1, rawsetInt 2 VNil (rawsetInt 2 (VInt 8) (rawsetInt 1 (VInt 7) newTable)))"
proof -
  define t where "t = rawsetInt 2 VNil (rawsetInt 2 (VInt 8) (rawsetInt 1 (VInt 7) newTable))"
  have built: "built t" unfolding t_def by (intro built_setInt built_new) (simp_all add: strong_def)
  have arr: "arr t = [VInt 7, VNil]" by (simp add: t_def rawsetInt_def newTable_def wrapVal_def absorbFromHash_def)
  obtain n where n: "length_table (\<lambda>_. True) t = Some (n, t)" "unat n \<le> 2"
    "n = 0 \<or> fst (rawget (\<lambda>_. True) (VInt n) t) \<noteq> VNil" "fst (rawget (\<lambda>_. True) (VInt (n + 1)) t) = VNil"
    using table_length_border [OF built, of "\<lambda>_. True"] arr by auto
  have r: "fst (rawget (\<lambda>_. True) (VInt 1) t) = VInt 7" "fst (rawget (\<lambda>_. True) (VInt 2) t) = VNil"
    by (simp_all add: t_def fst_rawget tget_def lookup_rawsetInt wrapVal_def)
  have "n \<noteq> 0" using n(4) r(1) by auto
  moreover have "n \<noteq> 2" using n(3) r(2) by auto
  moreover have "n = 0 \<or> n = 1 \<or> n = 2"
  proof -
    have "unat n = unat (0 :: i64) \<or> unat n = unat (1 :: i64) \<or> unat n = unat (2 :: i64)" using n(2) by auto
    then show ?thesis by (simp only: word_unat_eq_iff)
  qed
  ultimately show ?thesis using n(1) unfolding t_def by blast
qed

text \<open>
  C2: traversing a table with \<open>next\<close> ends and yields every pair of the table exactly once: the keys are
  distinct, each is paired with the value a read gives, and no key with a value is missed.
\<close>

theorem table_traversal:
  assumes "built t" "length (arr t) < 2 ^ 63"
  shows "\<exists>ps. (\<forall>n > length ps. traverse n alive t VNil = Some ps) \<and> distinct (map fst ps) \<and>
    (\<forall>(k, v) \<in> set ps. v \<noteq> VNil \<and> fst (rawget alive k t) = v) \<and>
    (\<forall>k. fst (rawget alive k t) \<noteq> VNil \<longrightarrow> (\<exists>(k', v) \<in> set ps. same_key k k'))"
proof (intro exI [of _ "all_pairs alive t"] conjI allI impI)
  note ok = built_ok [OF assms(1)]
  show "traverse n alive t VNil = Some (all_pairs alive t)" if "length (all_pairs alive t) < n" for n
    using traverse_all [OF ok assms(2) that] .
  show "distinct (map fst (all_pairs alive t))" by (rule all_pairs_distinct [OF ok assms(2)])
  show "\<forall>(k, v) \<in> set (all_pairs alive t). v \<noteq> VNil \<and> fst (rawget alive k t) = v"
    using all_pairs_sound [OF ok assms(2)] by (auto simp: fst_rawget)
  show "\<exists>(k', v) \<in> set (all_pairs alive t). same_key k k'" if "fst (rawget alive k t) \<noteq> VNil" for k
    using all_pairs_complete [OF ok, of alive k] that by (auto simp: fst_rawget)
qed

lemma built_example: "built (rawsetInt 1 (VInt 7) newTable)"
  by (intro built_setInt built_new) (simp add: strong_def)

theorem table_traversal_witness:
  "\<exists>ps. (\<forall>n > length ps. traverse n (\<lambda>_. True) (rawsetInt 1 (VInt 7) newTable) VNil = Some ps) \<and>
    (\<exists>(k', v) \<in> set ps. same_key (VInt 1) k')"
proof -
  have "fst (rawget (\<lambda>_. True) (VInt 1) (rawsetInt 1 (VInt 7) newTable)) = VInt 7"
    by (simp add: fst_rawget tget_def lookup_rawsetInt wrapVal_def)
  moreover have "length (arr (rawsetInt 1 (VInt 7) newTable)) < 2 ^ 63"
    by (simp add: rawsetInt_def newTable_def wrapVal_def absorbFromHash_def)
  ultimately show ?thesis
    using table_traversal [OF built_example, of "\<lambda>_. True"] by (metis Value.distinct(5))
qed

text \<open>
  C28: when a table's mode changes from weak keys and values to weak keys only, the values stored under
  weakly held keys stay weak: \<open>refreshWeak\<close> converts the array and hash slots but not that store, so
  such a value is lost when its object is collected, although the table now holds values strongly.
\<close>

theorem mode_change_keeps_weak_values:
  assumes "weakk t" "weakv t" "weakKeys t = [\<lparr>w_key = Some (tg, p), w_val = VWeakRef tagTable q\<rparr>]" "alive p"
    "collectableTag tg" "\<not> alive q"
  shows "weakv (refreshWeak alive0 (VString (lit ''k'')) t) = False \<and>
    fst (rawget alive (mkObj tg p) (refreshWeak alive0 (VString (lit ''k'')) t)) = VNil"
proof -
  define t' where "t' = refreshWeak alive0 (VString (lit ''k'')) t"
  have "weakv t' = False" "weakk t'" "weakKeys t' = weakKeys t"
    using assms(1,2) by (simp_all add: t'_def refreshWeak_def lit_def Let_def)
  then show ?thesis
    using assms mkObj_sel [OF assms(5), of p]
    by (simp add: t'_def [symmetric] fst_rawget tget_def weakKeyGet_read wk_holds_def)
qed

theorem mode_change_keeps_weak_values_witness:
  "fst (rawget (\<lambda>p. p = 1) (VTable 1) (refreshWeak (\<lambda>_. True) (VString (lit ''k''))
     (newTable\<lparr>weakk := True, weakv := True,
        weakKeys := [\<lparr>w_key = Some (tagTable, 1), w_val = VWeakRef tagTable 2\<rparr>]\<rparr>))) = VNil"
  using mode_change_keeps_weak_values [of "newTable\<lparr>weakk := True, weakv := True,
        weakKeys := [\<lparr>w_key = Some (tagTable, 1), w_val = VWeakRef tagTable 2\<rparr>]\<rparr>" tagTable 1 2 "\<lambda>p. p = 1"]
  by simp

end
