(* ===== verification/IndexStore.thy ===== *)
theory IndexStore
  imports Prelude
begin

text \<open>
  The interface between the table library and the objects it works on: reading and writing integer
  positions. A read may change the object's representation but nothing another read can see. The
  lemmas on moving and filling ranges are proved here once, for every object that keeps these laws.
\<close>

text \<open>
  Reading position \<open>src\<close> and writing the value to position \<open>dst\<close> for each pair of a list, in that
  order: the loops of table.insert, table.remove and table.move.
\<close>

fun copy_loop ::
  "(i64 \<Rightarrow> 't \<Rightarrow> 'v \<times> 't) \<Rightarrow> (i64 \<Rightarrow> 'v \<Rightarrow> 't \<Rightarrow> 't res) \<Rightarrow> (i64 \<times> i64) list \<Rightarrow> 't \<Rightarrow> 't res" where
  "copy_loop geti seti [] t = Inr t"
| "copy_loop geti seti ((dst, src) # ps) t =
     (case geti src t of (v, t1) \<Rightarrow> rbind (seti dst v t1) (copy_loop geti seti ps))"

text \<open>Reading a list of positions, and writing values to positions.\<close>

fun read_loop :: "(i64 \<Rightarrow> 't \<Rightarrow> 'v \<times> 't) \<Rightarrow> i64 list \<Rightarrow> 't \<Rightarrow> 'v list \<times> 't" where
  "read_loop geti [] t = ([], t)"
| "read_loop geti (i # is) t =
     (case geti i t of (v, t1) \<Rightarrow> case read_loop geti is t1 of (vs, t2) \<Rightarrow> (v # vs, t2))"

fun write_loop :: "(i64 \<Rightarrow> 'v \<Rightarrow> 't \<Rightarrow> 't res) \<Rightarrow> (i64 \<times> 'v) list \<Rightarrow> 't \<Rightarrow> 't res" where
  "write_loop seti [] t = Inr t"
| "write_loop seti ((i, v) # ps) t = rbind (seti i v t) (write_loop seti ps)"

text \<open>No position is read or written after it was written.\<close>

fun no_clobber :: "(i64 \<times> i64) list \<Rightarrow> bool" where
  "no_clobber [] = True"
| "no_clobber ((dst, src) # ps) = (dst \<notin> fst ` set ps \<and> dst \<notin> snd ` set ps \<and> no_clobber ps)"

lemma no_clobber_sorted:
  "no_clobber ps \<longleftrightarrow> sorted_wrt (\<lambda>p q. fst p \<noteq> fst q \<and> fst p \<noteq> snd q) ps"
  by (induction ps rule: no_clobber.induct) (auto simp: image_iff)

lemma no_clobber_map:
  assumes "\<And>i j. i < j \<Longrightarrow> j < n \<Longrightarrow> d i \<noteq> d j \<and> d i \<noteq> s j"
  shows "no_clobber (map (\<lambda>k. (d k, s k)) [0..<n])"
  using assms by (auto simp: no_clobber_sorted sorted_wrt_map intro: sorted_wrt_mono_rel [OF _ sorted_wrt_upt])

lemma no_clobber_rev_map:
  assumes "\<And>i j. i < j \<Longrightarrow> j < n \<Longrightarrow> d j \<noteq> d i \<and> d j \<noteq> s i"
  shows "no_clobber (rev (map (\<lambda>k. (d k, s k)) [0..<n]))"
  using assms
  by (auto simp: no_clobber_sorted sorted_wrt_rev sorted_wrt_map intro: sorted_wrt_mono_rel [OF _ sorted_wrt_upt])

lemma no_clobber_distinct: "no_clobber ps \<Longrightarrow> distinct (map fst ps)"
  by (induction ps rule: no_clobber.induct) auto

lemma of_nat_i64_inject: "a < 2 ^ 64 \<Longrightarrow> b < 2 ^ 64 \<Longrightarrow> (of_nat a :: i64) = of_nat b \<longleftrightarrow> a = b"
  by (simp add: word_of_nat_eq_iff take_bit_nat_eq_self)

lemma sint_of_nat_i64: "a < 2 ^ 63 \<Longrightarrow> sint (of_nat a :: i64) = int a"
  using sint_of_int_id [of "int a"] by simp

locale index_store =
  fixes inv :: "'t \<Rightarrow> bool" and ok :: "'v \<Rightarrow> bool"
    and geti :: "i64 \<Rightarrow> 't \<Rightarrow> 'v \<times> 't" and seti :: "i64 \<Rightarrow> 'v \<Rightarrow> 't \<Rightarrow> 't res"
  assumes get_inv: "inv t \<Longrightarrow> inv (snd (geti i t))"
    and get_get: "inv t \<Longrightarrow> fst (geti j (snd (geti i t))) = fst (geti j t)"
    and get_ok: "inv t \<Longrightarrow> ok (fst (geti i t))"
    and set_get: "inv t \<Longrightarrow> ok v \<Longrightarrow>
      \<exists>t'. seti i v t = Inr t' \<and> inv t' \<and> (\<forall>j. fst (geti j t') = (if j = i then v else fst (geti j t)))"
begin

lemma set_get':
  assumes "inv t" "ok v"
  obtains t' where "seti i v t = Inr t'" "inv t'" "\<And>j. fst (geti j t') = (if j = i then v else fst (geti j t))"
  using set_get [OF assms] by blast

text \<open>
  When no position is used after it was written, the loop moves the old contents: every destination
  holds what its source held before the loop, every other position keeps its value.
\<close>

lemma copy_loop_get:
  assumes "inv t" "no_clobber ps"
  shows "\<exists>t'. copy_loop geti seti ps t = Inr t' \<and> inv t' \<and>
    (\<forall>j. fst (geti j t') = (case map_of ps j of None \<Rightarrow> fst (geti j t) | Some src \<Rightarrow> fst (geti src t)))"
  using assms
proof (induction ps arbitrary: t rule: no_clobber.induct)
  case (2 dst src ps)
  obtain v t1 where g: "geti src t = (v, t1)" by (cases "geti src t")
  then have t1: "inv t1" "ok v" "fst (geti src t) = v" "\<And>j. fst (geti j t1) = fst (geti j t)"
    using get_inv [OF 2(2), of src] get_ok [OF 2(2), of src] get_get [OF 2(2), of _ src] by auto
  obtain t2 where s: "seti dst v t1 = Inr t2" "inv t2"
      "\<And>j. fst (geti j t2) = (if j = dst then v else fst (geti j t1))"
    using set_get' [OF t1(1,2)] by blast
  have old: "map_of ps i = Some s \<Longrightarrow> s \<noteq> dst" "map_of ps dst = None" for i s
    using 2(3) by (force simp: map_of_eq_None_iff dest!: map_of_SomeD)+
  obtain t' where t': "copy_loop geti seti ps t2 = Inr t'" "inv t'"
      "\<And>j. fst (geti j t') = (case map_of ps j of None \<Rightarrow> fst (geti j t2) | Some src \<Rightarrow> fst (geti src t2))"
    using 2(1) [OF s(2)] 2(3) by auto
  show ?case
    using t' old by (intro exI [of _ t']) (auto simp: g s t1 split: option.splits)
qed simp

lemma copy_loop_moves:
  assumes "inv t" "no_clobber ps"
  shows "\<exists>t'. copy_loop geti seti ps t = Inr t' \<and> inv t' \<and>
    (\<forall>(d, s) \<in> set ps. fst (geti d t') = fst (geti s t)) \<and>
    (\<forall>j. j \<notin> fst ` set ps \<longrightarrow> fst (geti j t') = fst (geti j t))"
proof -
  obtain t' where t': "copy_loop geti seti ps t = Inr t'" "inv t'"
    "\<And>j. fst (geti j t') = (case map_of ps j of None \<Rightarrow> fst (geti j t) | Some src \<Rightarrow> fst (geti src t))"
    using copy_loop_get [OF assms] by blast
  have "map_of ps d = Some s" if "(d, s) \<in> set ps" for d s
    using that no_clobber_distinct [OF assms(2)] by simp
  moreover have "map_of ps j = None" if "j \<notin> fst ` set ps" for j
    using that by (simp add: map_of_eq_None_iff)
  ultimately show ?thesis using t' by (intro exI [of _ t']) auto
qed

lemma read_loop_get:
  assumes "inv t"
  shows "inv (snd (read_loop geti is t)) \<and> fst (read_loop geti is t) = map (\<lambda>i. fst (geti i t)) is \<and>
    (\<forall>j. fst (geti j (snd (read_loop geti is t))) = fst (geti j t)) \<and> list_all ok (fst (read_loop geti is t))"
  using assms
proof (induction "is" arbitrary: t)
  case (Cons i "is")
  obtain v t1 where g: "geti i t = (v, t1)" by (cases "geti i t")
  then have t1: "inv t1" "ok v" "fst (geti i t) = v" "\<And>j. fst (geti j t1) = fst (geti j t)"
    using get_inv [OF Cons.prems, of i] get_ok [OF Cons.prems, of i] get_get [OF Cons.prems, of _ i] by auto
  show ?case using Cons.IH [OF t1(1)] t1 g by (auto split: prod.splits)
qed simp

lemma write_loop_get:
  assumes "inv t" "distinct (map fst ps)" "list_all (\<lambda>(i, v). ok v) ps"
  shows "\<exists>t'. write_loop seti ps t = Inr t' \<and> inv t' \<and>
    (\<forall>j. fst (geti j t') = (case map_of ps j of None \<Rightarrow> fst (geti j t) | Some v \<Rightarrow> v))"
  using assms
proof (induction ps arbitrary: t)
  case (Cons p ps)
  obtain i v where p: "p = (i, v)" by (cases p)
  with Cons.prems obtain t1 where s: "seti i v t = Inr t1" "inv t1"
      "\<And>j. fst (geti j t1) = (if j = i then v else fst (geti j t))"
    using set_get' [of t v i] by auto
  obtain t' where t': "write_loop seti ps t1 = Inr t'" "inv t'"
      "\<And>j. fst (geti j t') = (case map_of ps j of None \<Rightarrow> fst (geti j t1) | Some v \<Rightarrow> v)"
    using Cons.IH [OF s(2)] Cons.prems by auto
  have "map_of ps i = None" using Cons.prems p by (auto simp: map_of_eq_None_iff)
  then show ?case using t' by (intro exI [of _ t']) (auto simp: p s split: option.splits)
qed simp

end

end
