(* ===== verification/TabLib.thy ===== *)
theory TabLib
  imports TableIter IndexStore ForLoop
begin

text \<open>
  The table library (ltablib.go) apart from sorting. An operation works on a table through the reads
  and writes its argument provides, \<open>geti\<close> and \<open>seti\<close>: for a table without metamethods these are
  \<open>rawget\<close> and \<open>newindex\<close> (lvm.go), which the interpretation at the end of the first section plugs in.
  \<open>args\<close> are the arguments after the table, \<open>sz\<close> is the result of \<open>lenOf\<close>, \<open>pf\<close> is
  \<open>strconv.ParseFloat\<close> and \<open>tn\<close> is \<open>argTypeName\<close>, which only occurs in messages.
\<close>

subsection \<open>Assignment to a table without metamethods\<close>

text \<open>\<open>cap\<close> is the configured limit of the array part, 0 for none.\<close>

definition newindex :: "(ptr \<Rightarrow> bool) \<Rightarrow> nat \<Rightarrow> Value \<Rightarrow> Value \<Rightarrow> Table \<Rightarrow> Table res" where
  "newindex alive cap key val t =
     (if IsNil key then Inl (LuaError ''table index is nil'')
      else if (case key of VFloat f \<Rightarrow> is_nan f | _ \<Rightarrow> False) then Inl (LuaError ''table index is NaN'')
      else if cap > 0 \<and> length (arr t) \<ge> cap \<and>
          (case arrayIndex key of None \<Rightarrow> False
           | Some k \<Rightarrow> k = of_nat (length (arr t)) + 1 \<and> \<not> IsNil val)
        then Inl (LuaError ''not enough memory'')
      else Inr (rawset alive key val t))"

lemma newindex_int: "newindex alive 0 (VInt i) v t = Inr (rawsetInt i v t)"
  by (simp add: newindex_def rawset_def)

lemma tget_int: "tget alive t (VInt i) = lookup alive t (int_key i)"
  by (simp add: tget_def)

lemma strong_lookup:
  assumes "tbl_ok t" "\<not> weakv t"
  shows "strong (lookup alive t nk)"
  using assms by (auto simp: lookup_def tbl_ok_def slots_ok_def slot_fits_def strong_deref)

text \<open>Tables whose values are not weak keep the laws of the interface.\<close>

definition plain :: "Table \<Rightarrow> bool" where "plain t = (tbl_ok t \<and> \<not> weakv t)"

interpretation raw: index_store plain strong "\<lambda>i. rawget alive (VInt i)" "\<lambda>i v. newindex alive 0 (VInt i) v"
  for alive
proof unfold_locales
  fix t i j v
  assume t: "plain t"
  then have fr: "read_equal alive (snd (rawget alive (VInt i) t)) t"
    by (intro rawget_frame) (simp add: plain_def)
  then show "plain (snd (rawget alive (VInt i) t))" using t by (auto simp: plain_def read_equal_def)
  show "fst (rawget alive (VInt j) (snd (rawget alive (VInt i) t))) = fst (rawget alive (VInt j) t)"
    using read_equal_tget [OF fr] by (simp add: fst_rawget)
  show "strong (fst (rawget alive (VInt i) t))"
    using t strong_lookup by (simp add: fst_rawget tget_int plain_def)
  assume v: "strong v"
  show "\<exists>t'. newindex alive 0 (VInt i) v t = Inr t' \<and> plain t' \<and>
      (\<forall>j. fst (rawget alive (VInt j) t') = (if j = i then v else fst (rawget alive (VInt j) t)))"
    using t v by (auto simp: newindex_int plain_def rawsetInt_ok fst_rawget tget_int lookup_rawsetInt wrapVal_def)
qed

subsection \<open>Arguments\<close>

definition checkInt ::
  "(bytes \<Rightarrow> f64 \<times> num_error option) \<Rightarrow> (Value \<Rightarrow> string) \<Rightarrow> nat \<Rightarrow> Value \<Rightarrow> i64 res" where
  "checkInt pf tn n v =
     (case tointegerCvt pf v of Some i \<Rightarrow> Inr i
      | None \<Rightarrow>
          if IsNumber v then Inl (ArgError n ''number has no integer representation'')
          else Inl (ArgError n (''number expected, got '' @ tn v)))"

definition optInt ::
  "(bytes \<Rightarrow> f64 \<times> num_error option) \<Rightarrow> (Value \<Rightarrow> string) \<Rightarrow> nat \<Rightarrow> i64 \<Rightarrow> Value list \<Rightarrow> i64 res" where
  "optInt pf tn n def args =
     (case args of [] \<Rightarrow> Inr def | v # _ \<Rightarrow> if IsNil v then Inr def else checkInt pf tn n v)"

subsection \<open>Insert, remove, move\<close>

definition insert_moves :: "i64 \<Rightarrow> i64 \<Rightarrow> (i64 \<times> i64) list" where
  "insert_moves e pos = map (\<lambda>k. (e - of_nat k, e - of_nat k - 1)) [0..<nat (sint e - sint pos)]"

definition tblInsert where
  "tblInsert pf tn geti seti sz args t =
     (let e = sz + 1 in
      case args of
        [v] \<Rightarrow> seti e v t
      | [p, v] \<Rightarrow> rbind (checkInt pf tn 2 p) (\<lambda>pos.
          if uint (pos - 1) \<ge> uint e then Inl (ArgError 2 ''position out of bounds'')
          else rbind (copy_loop geti seti (insert_moves e pos) t) (seti pos v))
      | _ \<Rightarrow> Inl (LuaError (''wrong number of arguments to '' @ [CHR 0x27] @ ''insert'' @ [CHR 0x27])))"

definition remove_moves :: "i64 \<Rightarrow> i64 \<Rightarrow> (i64 \<times> i64) list" where
  "remove_moves pos sz = map (\<lambda>k. (pos + of_nat k, pos + of_nat k + 1)) [0..<nat (sint sz - sint pos)]"

definition tblRemove where
  "tblRemove pf tn geti seti sz args t =
     rbind (optInt pf tn 2 sz args) (\<lambda>pos.
       if pos \<noteq> sz \<and> uint (pos - 1) > uint sz then Inl (ArgError 2 ''position out of bounds'')
       else (case geti pos t of (v, t1) \<Rightarrow>
         rbind (copy_loop geti seti (remove_moves pos sz) t1) (\<lambda>t2.
         rbind (seti (if sint pos < sint sz then sz else pos) VNil t2) (\<lambda>t3. Inr (v, t3)))))"

definition move_pairs :: "i64 \<Rightarrow> i64 \<Rightarrow> i64 \<Rightarrow> (i64 \<times> i64) list" where
  "move_pairs f tpos n = map (\<lambda>i. (tpos + of_nat i, f + of_nat i)) [0..<nat (sint n)]"

text \<open>\<open>same\<close>: source and destination are the same table (\<open>a1.tablev() == a2.tablev()\<close>).\<close>

definition tblMove where
  "tblMove pf tn geti seti same fv ev tv t =
     rbind (checkInt pf tn 2 fv) (\<lambda>f. rbind (checkInt pf tn 3 ev) (\<lambda>e. rbind (checkInt pf tn 4 tv) (\<lambda>tpos.
       if sint e \<ge> sint f then
         if \<not> (sint f > 0 \<or> sint e < sint (word_of_int max_int64 + f)) then
           Inl (ArgError 3 ''too many elements to move'')
         else let n = e - f + 1 in
           if sint tpos > sint (word_of_int max_int64 - n + 1) then
             Inl (ArgError 4 ''destination wrap around'')
           else if sint tpos > sint e \<or> sint tpos \<le> sint f \<or> \<not> same then
             copy_loop geti seti (move_pairs f tpos n) t
           else copy_loop geti seti (rev (move_pairs f tpos n)) t
       else Inr t)))"

subsection \<open>Pack, unpack, concat\<close>

fun pack_loop :: "nat \<Rightarrow> Value list \<Rightarrow> Table \<Rightarrow> Table" where
  "pack_loop i [] t = t"
| "pack_loop i (v # vs) t = pack_loop (Suc i) vs (rawsetInt (of_nat i) v t)"

definition tblPack :: "(ptr \<Rightarrow> bool) \<Rightarrow> Value list \<Rightarrow> Table" where
  "tblPack alive args =
     rawset alive (VString (lit ''n'')) (VInt (of_nat (length args))) (pack_loop 1 args newTable)"

text \<open>The positions \<open>i\<close>, \<open>i + 1\<close>, ..., \<open>j\<close> in the order the loops visit them, \<open>j\<close> after the loop.\<close>

definition index_range :: "i64 \<Rightarrow> i64 \<Rightarrow> i64 list" where
  "index_range i j = map (\<lambda>k. i + of_nat k) [0..<nat (sint j - sint i)] @ (if sint i \<le> sint j then [j] else [])"

text \<open>\<open>maxStack\<close> is the configured stack limit and \<open>tp\<close> the stack height at the call.\<close>

definition tblUnpack where
  "tblUnpack pf tn geti maxStack tp sz args t =
     rbind (optInt pf tn 2 1 args) (\<lambda>i. rbind (optInt pf tn 3 sz (tl args)) (\<lambda>j.
       if sint i > sint j then Inr ([], t)
       else let n = unat (j - i) in
         if n \<ge> maxStack \<or> tp + n + 1 > maxStack then Inl (LuaError ''too many results to unpack'')
         else Inr (read_loop geti (index_range i j) t)))"

definition tostr :: "(f64 \<Rightarrow> bytes) \<Rightarrow> Value \<Rightarrow> bytes" where
  "tostr fmtg v = (case v of VString s \<Rightarrow> s | _ \<Rightarrow> numToString fmtg v)"

definition addField :: "(f64 \<Rightarrow> bytes) \<Rightarrow> (i64 \<Rightarrow> 't \<Rightarrow> Value \<times> 't) \<Rightarrow> i64 \<Rightarrow> 't \<Rightarrow> (bytes \<times> 't) res" where
  "addField fmtg geti idx t =
     (case geti idx t of (v, t1) \<Rightarrow>
        if \<not> IsString v \<and> \<not> IsNumber v then
          Inl (LuaError (''invalid value ('' @ typeName v @ '') at index '' @
            map (\<lambda>b. char_of (unat b)) (FormatInt (sint idx)) @ '' in table for '' @ [CHR 0x27] @ ''concat'' @ [CHR 0x27]))
        else Inr (tostr fmtg v, t1))"

fun concat_loop ::
  "(f64 \<Rightarrow> bytes) \<Rightarrow> (i64 \<Rightarrow> 't \<Rightarrow> Value \<times> 't) \<Rightarrow> bytes \<Rightarrow> i64 list \<Rightarrow> 't \<Rightarrow> (bytes \<times> 't) res" where
  "concat_loop fmtg geti sep [] t = Inr ([], t)"
| "concat_loop fmtg geti sep [i] t = addField fmtg geti i t"
| "concat_loop fmtg geti sep (i # is) t =
     rbind (addField fmtg geti i t) (\<lambda>(s, t1).
     rbind (concat_loop fmtg geti sep is t1) (\<lambda>(r, t2). Inr (s @ sep @ r, t2)))"

definition tblConcat where
  "tblConcat pf tn fmtg geti sz args t =
     rbind (case args of [] \<Rightarrow> Inr [] | v # _ \<Rightarrow>
         if IsNil v then Inr [] else if IsString v \<or> IsNumber v then Inr (tostr fmtg v)
         else Inl (ArgError 2 (''string expected, got '' @ tn v))) (\<lambda>sep.
     rbind (optInt pf tn 3 1 (drop 1 args)) (\<lambda>i. rbind (optInt pf tn 4 sz (drop 2 args)) (\<lambda>j.
       rbind (concat_loop fmtg geti sep (index_range i j) t) (\<lambda>(s, t1). Inr (VString s, t1)))))"

subsection \<open>The library as list operations\<close>

text \<open>The elements at positions 1 to \<open>n\<close>.\<close>

definition elems :: "(i64 \<Rightarrow> 't \<Rightarrow> 'v \<times> 't) \<Rightarrow> nat \<Rightarrow> 't \<Rightarrow> 'v list" where
  "elems geti n t = map (\<lambda>i. fst (geti (of_nat (Suc i)) t)) [0..<n]"

lemma length_elems [simp]: "length (elems geti n t) = n"
  by (simp add: elems_def)

lemma nth_elems [simp]: "i < n \<Longrightarrow> elems geti n t ! i = fst (geti (of_nat (Suc i)) t)"
  by (simp add: elems_def del: of_nat_Suc)

lemma insert_moves_nat:
  assumes "Suc n < 2 ^ 63" "p \<le> Suc n"
  shows "insert_moves (of_nat (Suc n)) (of_nat p) =
    map (\<lambda>k. (of_nat (Suc n - k), of_nat (n - k))) [0..<Suc n - p]"
proof -
  have "nat (sint (of_nat (Suc n) :: i64) - sint (of_nat p :: i64)) = Suc n - p"
    using assms by (simp add: sint_of_nat_i64 del: of_nat_Suc)
  then show ?thesis
    using assms by (auto simp: insert_moves_def of_nat_diff algebra_simps)
qed

context index_store
begin

lemma insert_copy:
  assumes "inv t" "Suc n < 2 ^ 63" "0 < p" "p \<le> Suc n"
  shows "\<exists>t'. copy_loop geti seti (insert_moves (of_nat (Suc n)) (of_nat p)) t = Inr t' \<and> inv t' \<and>
    (\<forall>i \<le> n. p \<le> i \<longrightarrow> fst (geti (of_nat (Suc i)) t') = fst (geti (of_nat i) t)) \<and>
    (\<forall>i < p. fst (geti (of_nat i) t') = fst (geti (of_nat i) t))"
proof -
  let ?ps = "insert_moves (of_nat (Suc n)) (of_nat p)"
  note ps = insert_moves_nat [OF assms(2,4)]
  have inj: "(of_nat a :: i64) = of_nat b \<longleftrightarrow> a = b" if "a \<le> Suc n" "b \<le> Suc n" for a b
    using that assms(2) by (intro of_nat_i64_inject) auto
  have "no_clobber ?ps"
    unfolding ps
  proof (rule no_clobber_map)
    fix i j assume "i < j" "j < Suc n - p"
    then have "Suc n - i \<noteq> Suc n - j" "Suc n - i \<noteq> n - j" by simp_all
    then show "(of_nat (Suc n - i) :: i64) \<noteq> of_nat (Suc n - j) \<and> (of_nat (Suc n - i) :: i64) \<noteq> of_nat (n - j)"
      using inj [of "Suc n - i" "Suc n - j"] inj [of "Suc n - i" "n - j"] by linarith
  qed
  from copy_loop_moves [OF assms(1) this] obtain t' where t': "copy_loop geti seti ?ps t = Inr t'" "inv t'"
    "\<And>d s. (d, s) \<in> set ?ps \<Longrightarrow> fst (geti d t') = fst (geti s t)"
    "\<And>j. j \<notin> fst ` set ?ps \<Longrightarrow> fst (geti j t') = fst (geti j t)" by auto
  have "(of_nat (Suc i), of_nat i) \<in> set ?ps" if "i \<le> n" "p \<le> i" for i
    unfolding ps using that by (auto simp: image_iff intro!: bexI [of _ "n - i"])
  moreover have "of_nat i \<notin> fst ` set ?ps" if "i < p" for i
  proof
    assume "of_nat i \<in> fst ` set ?ps"
    then obtain k where "k < Suc n - p" "(of_nat i :: i64) = of_nat (Suc n - k)"
      unfolding ps by (auto simp del: of_nat_Suc of_nat_diff)
    then show False using inj [of i "Suc n - k"] that assms(4) by linarith
  qed
  ultimately show ?thesis using t' by (intro exI [of _ t']) blast
qed

lemma insert_elems:
  assumes "inv t" "ok v" "Suc n < 2 ^ 63" "0 < p" "p \<le> Suc n"
  shows "\<exists>t'. rbind (copy_loop geti seti (insert_moves (of_nat (Suc n)) (of_nat p)) t) (seti (of_nat p) v) = Inr t' \<and>
    inv t' \<and> elems geti (Suc n) t' = take (p - 1) (elems geti n t) @ v # drop (p - 1) (elems geti n t)"
proof -
  obtain t1 where t1: "copy_loop geti seti (insert_moves (of_nat (Suc n)) (of_nat p)) t = Inr t1" "inv t1"
    "\<And>i. i \<le> n \<Longrightarrow> p \<le> i \<Longrightarrow> fst (geti (of_nat (Suc i)) t1) = fst (geti (of_nat i) t)"
    "\<And>i. i < p \<Longrightarrow> fst (geti (of_nat i) t1) = fst (geti (of_nat i) t)"
    using insert_copy [OF assms(1,3,4,5)] by blast
  obtain t2 where t2: "seti (of_nat p) v t1 = Inr t2" "inv t2"
    "\<And>j. fst (geti j t2) = (if j = of_nat p then v else fst (geti j t1))"
    using set_get' [OF t1(2) assms(2)] by blast
  have inj: "(of_nat a :: i64) = of_nat b \<longleftrightarrow> a = b" if "a \<le> Suc n" "b \<le> Suc n" for a b
    using that assms(3) by (intro of_nat_i64_inject) auto
  obtain q where q: "p = Suc q" "q \<le> n" using assms(4,5) by (cases p) auto
  have "elems geti (Suc n) t2 ! i = (take q (elems geti n t) @ v # drop q (elems geti n t)) ! i" if "i < Suc n" for i
  proof (cases "i \<le> q")
    case True
    then show ?thesis
      using that q inj [of "Suc i" p] t1(4) [of "Suc i"]
      by (auto simp: t2(3) nth_append min_absorb2 simp del: of_nat_Suc)
  next
    case False
    then obtain m where m: "i = Suc m" "q \<le> m" by (cases i) auto
    then show ?thesis
      using that q inj [of "Suc i" p] t1(3) [of i]
      by (simp add: t2(3) nth_append min_absorb2 Suc_diff_le del: of_nat_Suc)
  qed
  then have "elems geti (Suc n) t2 = take (p - 1) (elems geti n t) @ v # drop (p - 1) (elems geti n t)"
    using q by (intro nth_equalityI) simp_all
  with t1(1) t2(1,2) show ?thesis by auto
qed

lemma remove_copy:
  assumes "inv t" "n < 2 ^ 63" "p \<le> n"
  shows "\<exists>t'. copy_loop geti seti (remove_moves (of_nat p) (of_nat n)) t = Inr t' \<and> inv t' \<and>
    (\<forall>i < n. p \<le> i \<longrightarrow> fst (geti (of_nat i) t') = fst (geti (of_nat (Suc i)) t)) \<and>
    (\<forall>i < p. fst (geti (of_nat i) t') = fst (geti (of_nat i) t))"
proof -
  let ?ps = "remove_moves (of_nat p) (of_nat n)"
  have ps: "?ps = map (\<lambda>k. (of_nat (p + k), of_nat (Suc (p + k)))) [0..<n - p]"
    using assms(2,3) by (simp add: remove_moves_def sint_of_nat_i64 nat_diff_distrib algebra_simps)
  have inj: "(of_nat a :: i64) = of_nat b \<longleftrightarrow> a = b" if "a \<le> n" "b \<le> n" for a b
    using that assms(2) by (intro of_nat_i64_inject) auto
  have "no_clobber ?ps"
    unfolding ps
  proof (rule no_clobber_map)
    fix i j assume "i < j" "j < n - p"
    then show "(of_nat (p + i) :: i64) \<noteq> of_nat (p + j) \<and> (of_nat (p + i) :: i64) \<noteq> of_nat (Suc (p + j))"
      using inj [of "p + i" "p + j"] inj [of "p + i" "Suc (p + j)"] by linarith
  qed
  from copy_loop_moves [OF assms(1) this] obtain t' where t': "copy_loop geti seti ?ps t = Inr t'" "inv t'"
    "\<And>d s. (d, s) \<in> set ?ps \<Longrightarrow> fst (geti d t') = fst (geti s t)"
    "\<And>j. j \<notin> fst ` set ?ps \<Longrightarrow> fst (geti j t') = fst (geti j t)" by auto
  have "(of_nat i, of_nat (Suc i)) \<in> set ?ps" if "i < n" "p \<le> i" for i
    unfolding ps using that by (auto simp: image_iff intro!: bexI [of _ "i - p"])
  moreover have "of_nat i \<notin> fst ` set ?ps" if "i < p" for i
  proof
    assume "of_nat i \<in> fst ` set ?ps"
    then obtain k where "k < n - p" "(of_nat i :: i64) = of_nat (p + k)"
      unfolding ps by (auto simp del: of_nat_Suc of_nat_add)
    then show False using inj [of i "p + k"] that assms(3) by linarith
  qed
  ultimately show ?thesis using t' by (intro exI [of _ t']) blast
qed

lemma remove_elems:
  assumes "inv t" "ok nil" "n < 2 ^ 63" "0 < p" "p \<le> n"
  shows "\<exists>t'. rbind (copy_loop geti seti (remove_moves (of_nat p) (of_nat n)) t) (seti (of_nat n) nil) = Inr t' \<and>
    inv t' \<and> elems geti n t' = take (p - 1) (elems geti n t) @ drop p (elems geti n t) @ [nil]"
proof -
  obtain t1 where t1: "copy_loop geti seti (remove_moves (of_nat p) (of_nat n)) t = Inr t1" "inv t1"
    "\<And>i. i < n \<Longrightarrow> p \<le> i \<Longrightarrow> fst (geti (of_nat i) t1) = fst (geti (of_nat (Suc i)) t)"
    "\<And>i. i < p \<Longrightarrow> fst (geti (of_nat i) t1) = fst (geti (of_nat i) t)"
    using remove_copy [OF assms(1,3,5)] by blast
  obtain t2 where t2: "seti (of_nat n) nil t1 = Inr t2" "inv t2"
    "\<And>j. fst (geti j t2) = (if j = of_nat n then nil else fst (geti j t1))"
    using set_get' [OF t1(2) assms(2)] by blast
  have inj: "(of_nat a :: i64) = of_nat b \<longleftrightarrow> a = b" if "a \<le> n" "b \<le> n" for a b
    using that assms(3) by (intro of_nat_i64_inject) auto
  obtain q where q: "p = Suc q" "Suc q \<le> n" using assms(4,5) by (cases p) auto
  have "elems geti n t2 ! i = (take q (elems geti n t) @ drop p (elems geti n t) @ [nil]) ! i" if "i < n" for i
  proof (cases "i < q")
    case True
    then show ?thesis
      using that q inj [of "Suc i" n] t1(4) [of "Suc i"]
      by (auto simp: t2(3) nth_append min_absorb2 simp del: of_nat_Suc)
  next
    case False
    then show ?thesis
      using that q inj [of "Suc i" n] t1(3) [of "Suc i"]
      by (auto simp: t2(3) nth_append min_absorb2 not_less simp del: of_nat_Suc)
  qed
  then have "elems geti n t2 = take (p - 1) (elems geti n t) @ drop p (elems geti n t) @ [nil]"
    using q by (intro nth_equalityI) simp_all
  with t1(1) t2(1,2) show ?thesis by auto
qed

end

lemma checkInt_int [simp]: "checkInt pf tn n (VInt i) = Inr i"
  by (simp add: checkInt_def tointegerCvt_def)

lemma optInt_int [simp]: "optInt pf tn n d (VInt i # vs) = Inr i" "optInt pf tn n d [] = Inr d"
  by (simp_all add: optInt_def)

lemma position_bounds:
  assumes "Suc n < 2 ^ 63"
  shows "uint (pos - 1 :: i64) \<ge> uint (of_nat (Suc n) :: i64) \<longleftrightarrow> \<not> (1 \<le> sint pos \<and> sint pos \<le> int (Suc n))"
proof -
  have e: "uint (of_nat (Suc n) :: i64) = int (Suc n)" using assms uint_of_int_id [of "int (Suc n)"] by simp
  show ?thesis
  proof (cases "1 \<le> sint pos")
    case True
    then have "uint (pos - 1) = sint pos - 1" using uint_diff_sint [of 1 pos] by simp
    with True e show ?thesis by auto
  next
    case False
    have "pos - 1 = word_of_int (2 ^ 64 + sint pos - 1)" by simp
    then have "uint (pos - 1) = uint (word_of_int (2 ^ 64 + sint pos - 1) :: i64)" by (rule arg_cong)
    also have "\<dots> = 2 ^ 64 + sint pos - 1"
      using False sint_i64_range [of pos] by (intro uint_of_int_id) simp_all
    finally have "uint (pos - 1) = 2 ^ 64 + sint pos - 1" .
    with False e assms sint_i64_range [of pos] show ?thesis by simp
  qed
qed

abbreviation rget :: "(ptr \<Rightarrow> bool) \<Rightarrow> i64 \<Rightarrow> Table \<Rightarrow> Value \<times> Table" where
  "rget alive \<equiv> \<lambda>i. rawget alive (VInt i)"

abbreviation rset :: "(ptr \<Rightarrow> bool) \<Rightarrow> i64 \<Rightarrow> Value \<Rightarrow> Table \<Rightarrow> Table res" where
  "rset alive \<equiv> \<lambda>i v. newindex alive 0 (VInt i) v"

text \<open>
  C23: \<open>table.insert(t, pos, v)\<close> on a table of length \<open>n\<close> raises the argument error exactly when \<open>pos\<close> is
  outside 1 to \<open>n + 1\<close>, and otherwise puts \<open>v\<close> at \<open>pos\<close> and shifts the elements from there up by one.
\<close>

theorem insert_list:
  assumes "built t" "\<not> weakv t" "strong v" "Suc n < 2 ^ 63"
  shows "if 1 \<le> sint pos \<and> sint pos \<le> int (Suc n)
    then \<exists>t'. tblInsert pf tn (rget alive) (rset alive) (of_nat n) [VInt pos, v] t = Inr t' \<and>
      elems (rget alive) (Suc n) t' = take (nat (sint pos) - 1) (elems (rget alive) n t) @ v #
        drop (nat (sint pos) - 1) (elems (rget alive) n t)
    else tblInsert pf tn (rget alive) (rset alive) (of_nat n) [VInt pos, v] t =
      Inl (ArgError 2 ''position out of bounds'')"
proof -
  have e: "of_nat n + 1 = (of_nat (Suc n) :: i64)" by simp
  have pl: "plain t" using assms(1,2) built_ok by (simp add: plain_def)
  show ?thesis
  proof (cases "1 \<le> sint pos \<and> sint pos \<le> int (Suc n)")
    case True
    define p where "p = nat (sint pos)"
    have p: "pos = of_nat p" "0 < p" "p \<le> Suc n" using True by (auto simp: p_def nat_le_iff)
    show ?thesis
      using True position_bounds [OF assms(4), of pos]
        raw.insert_elems [OF pl assms(3,4) p(2,3), of alive, folded p(1)]
      by (auto simp: tblInsert_def Let_def e p_def [symmetric] simp del: of_nat_Suc)
  next
    case False
    then show ?thesis
      using position_bounds [OF assms(4), of pos]
      by (simp add: tblInsert_def Let_def e del: of_nat_Suc)
  qed
qed

theorem insert_list_witness:
  "\<exists>t'. tblInsert (\<lambda>_. (0, None)) typeName (rget (\<lambda>_. True)) (rset (\<lambda>_. True)) (of_nat 1)
      [VInt 1, VInt 9] (rawsetInt 1 (VInt 7) newTable) = Inr t' \<and>
    elems (rget (\<lambda>_. True)) (Suc 1) t' = VInt 9 # elems (rget (\<lambda>_. True)) 1 (rawsetInt 1 (VInt 7) newTable)"
  using insert_list [OF built_example, of "VInt 9" 1 1 "\<lambda>_. (0, None)" typeName "\<lambda>_. True"]
  by (simp add: strong_def)

lemma remove_plain:
  assumes "plain t" "n < 2 ^ 63" "0 < p" "p \<le> n" "args = [VInt (of_nat p)] \<or> args = [] \<and> p = n"
  shows "\<exists>t'. tblRemove pf tn (rget alive) (rset alive) (of_nat n) args t = Inr (elems (rget alive) n t ! (p - 1), t') \<and>
    plain t' \<and> elems (rget alive) n t' = take (p - 1) (elems (rget alive) n t) @ drop p (elems (rget alive) n t) @ [VNil]"
proof -
  obtain v t1 where g: "rawget alive (VInt (of_nat p)) t = (v, t1)" by (cases "rawget alive (VInt (of_nat p)) t")
  then have t1: "plain t1" "\<And>j. fst (rawget alive (VInt j) t1) = fst (rawget alive (VInt j) t)"
    using raw.get_inv [OF assms(1), of alive "of_nat p"] raw.get_get [OF assms(1), of alive _ "of_nat p"] by auto
  have el: "elems (rget alive) n t1 = elems (rget alive) n t" by (simp add: elems_def t1(2))
  have v: "v = elems (rget alive) n t ! (p - 1)" using g assms(3,4) by (cases p) (simp_all del: of_nat_Suc)
  have s: "sint (of_nat p :: i64) = int p" "sint (of_nat n :: i64) = int n"
    using assms(2,4) by (simp_all add: sint_of_nat_i64)
  have up: "uint (of_nat p - 1 :: i64) = int p - 1" "uint (of_nat n :: i64) = int n"
    using uint_diff_sint [of 1 "of_nat p"] assms(2,3) s uint_of_int_id [of "int n"] by simp_all
  have opt: "optInt pf tn 2 (of_nat n) args = Inr (of_nat p)" using assms(5) by auto
  have last: "(if sint (of_nat p :: i64) < sint (of_nat n :: i64) then of_nat n else of_nat p) = (of_nat n :: i64)"
    using s assms(4) by auto
  have "strong VNil" by (simp add: strong_def)
  from raw.remove_elems [OF t1(1) this assms(2,3,4), of alive] obtain t2 t' where t':
    "copy_loop (rget alive) (rset alive) (remove_moves (of_nat p) (of_nat n)) t1 = Inr t2"
    "newindex alive 0 (VInt (of_nat n)) VNil t2 = Inr t'" "plain t'"
    "elems (rget alive) n t' = take (p - 1) (elems (rget alive) n t) @ drop p (elems (rget alive) n t) @ [VNil]"
    by (auto simp: rbind_Inr_conv el)
  have "tblRemove pf tn (rget alive) (rset alive) (of_nat n) args t = Inr (v, t')"
    unfolding tblRemove_def opt rbind_simps g prod.case last using up assms(4) t' by simp
  with t' v show ?thesis by blast
qed

text \<open>
  \<open>table.remove(t, pos)\<close> for a position within the length \<open>n\<close> returns the element there, shifts the
  later elements down by one and clears position \<open>n\<close>; without a position it removes the last element.
\<close>

lemma remove_list:
  assumes "built t" "\<not> weakv t" "n < 2 ^ 63" "0 < p" "p \<le> n" "args = [VInt (of_nat p)] \<or> args = [] \<and> p = n"
  shows "\<exists>t'. tblRemove pf tn (rget alive) (rset alive) (of_nat n) args t =
      Inr (elems (rget alive) n t ! (p - 1), t') \<and>
    elems (rget alive) n t' =
      take (p - 1) (elems (rget alive) n t) @ drop p (elems (rget alive) n t) @ [VNil]"
  using remove_plain [of t n p args pf tn alive] assms built_ok by (auto simp: plain_def)

lemma remove_list_witness:
  "\<exists>t'. tblRemove (\<lambda>_. (0, None)) typeName (rget (\<lambda>_. True)) (rset (\<lambda>_. True)) (of_nat 1) []
      (rawsetInt 1 (VInt 7) newTable) =
    Inr (elems (rget (\<lambda>_. True)) 1 (rawsetInt 1 (VInt 7) newTable) ! 0, t') \<and>
    elems (rget (\<lambda>_. True)) 1 t' = [VNil]"
  using remove_list [OF built_example, of 1 1 "[]" "\<lambda>_. (0, None)" typeName "\<lambda>_. True"] by simp

lemma sint_add_nat:
  assumes "sint (a :: i64) + int k \<le> max_int64"
  shows "sint (a + of_nat k) = sint a + int k"
proof -
  have "a + of_nat k = word_of_int (sint a + int k)" by simp
  then show ?thesis using assms sint_i64_range [of a] sint_of_int_id [of "sint a + int k"] by simp
qed

lemma move_guards:
  fixes f e tpos :: i64
  assumes "sint f \<le> sint e" "sint e - sint f < max_int64" "sint tpos + (sint e - sint f) \<le> max_int64"
  shows "sint f > 0 \<or> sint e < sint (word_of_int max_int64 + f)"
    "sint (e - f + 1) = sint e - sint f + 1" "\<not> sint tpos > sint (word_of_int max_int64 - (e - f + 1) + 1)"
proof -
  have "word_of_int max_int64 + f = word_of_int (max_int64 + sint f)" by simp
  then show "sint f > 0 \<or> sint e < sint (word_of_int max_int64 + f)"
    using assms(2) sint_i64_range [of f] sint_of_int_id [of "max_int64 + sint f"]
    by (cases "sint f > 0") auto
  have "e - f + 1 = word_of_int (sint e - sint f + 1)" by simp
  then show n: "sint (e - f + 1) = sint e - sint f + 1"
    using assms(1,2) sint_of_int_id [of "sint e - sint f + 1"] by simp
  have "word_of_int max_int64 - (e - f + 1) + 1 = (word_of_int (max_int64 - (sint e - sint f)) :: i64)" by simp
  then have "sint (word_of_int max_int64 - (e - f + 1) + 1 :: i64) = max_int64 - (sint e - sint f)"
    using assms(1,2) sint_of_int_id [of "max_int64 - (sint e - sint f)"] by (simp only:)
  then show "\<not> sint tpos > sint (word_of_int max_int64 - (e - f + 1) + 1)" using assms(3) by simp
qed

lemma move_no_clobber:
  fixes f e tpos :: i64
  assumes "sint f \<le> sint e" "sint e - sint f < max_int64" "sint tpos + (sint e - sint f) \<le> max_int64"
  shows "no_clobber (if sint tpos > sint e \<or> sint tpos \<le> sint f then move_pairs f tpos (e - f + 1)
    else rev (move_pairs f tpos (e - f + 1)))"
proof -
  define n where "n = nat (sint e - sint f + 1)"
  have ps: "move_pairs f tpos (e - f + 1) = map (\<lambda>i. (tpos + of_nat i, f + of_nat i)) [0..<n]"
    by (simp add: move_pairs_def n_def move_guards(2) [OF assms])
  have d: "sint (tpos + of_nat i) = sint tpos + int i" "sint (f + of_nat i) = sint f + int i" if "i < n" for i
    using that assms sint_i64_range [of e] by (auto intro!: sint_add_nat simp: n_def)
  have last: "sint f + int j \<le> sint e" if "j < n" for j using that by (simp add: n_def)
  show ?thesis
  proof (cases "sint tpos > sint e \<or> sint tpos \<le> sint f")
    case True
    have "no_clobber (move_pairs f tpos (e - f + 1))"
      unfolding ps
    proof (rule no_clobber_map)
      fix i j assume "i < j" "j < n"
      with d [of i] d [of j] last [of j] True
      have "sint (tpos + of_nat i) \<noteq> sint (tpos + of_nat j) \<and> sint (tpos + of_nat i) \<noteq> sint (f + of_nat j)" by auto
      then show "tpos + of_nat i \<noteq> tpos + of_nat j \<and> tpos + of_nat i \<noteq> f + of_nat j" by metis
    qed
    with True show ?thesis by simp
  next
    case False
    have "no_clobber (rev (move_pairs f tpos (e - f + 1)))"
      unfolding ps
    proof (rule no_clobber_rev_map)
      fix i j assume "i < j" "j < n"
      with d [of i] d [of j] False
      have "sint (tpos + of_nat j) \<noteq> sint (tpos + of_nat i) \<and> sint (tpos + of_nat j) \<noteq> sint (f + of_nat i)" by auto
      then show "tpos + of_nat j \<noteq> tpos + of_nat i \<and> tpos + of_nat j \<noteq> f + of_nat i" by metis
    qed
    with False show ?thesis by simp
  qed
qed

text \<open>
  C24: \<open>table.move(t, f, e, pos)\<close> within one table copies the elements \<open>f\<close> to \<open>e\<close>, as they were before the
  call, to \<open>pos\<close> onwards and leaves all other positions alone, however the two ranges overlap.
\<close>

theorem move_range:
  fixes f e tpos i :: i64
  assumes "built t" "\<not> weakv t" "sint f \<le> sint e" "sint e - sint f < max_int64"
    "sint tpos + (sint e - sint f) \<le> max_int64"
  shows "\<exists>t'. tblMove pf tn (rget alive) (rset alive) True (VInt f) (VInt e) (VInt tpos) t = Inr t' \<and>
    fst (rawget alive (VInt i) t') =
      (if sint tpos \<le> sint i \<and> sint i \<le> sint tpos + (sint e - sint f)
       then fst (rawget alive (VInt (f + (i - tpos))) t) else fst (rawget alive (VInt i) t))"
proof -
  note G = assms(3-5)
  define ps where "ps = (if sint tpos > sint e \<or> sint tpos \<le> sint f then move_pairs f tpos (e - f + 1)
    else rev (move_pairs f tpos (e - f + 1)))"
  have pl: "plain t" using assms(1,2) built_ok by (simp add: plain_def)
  have run: "tblMove pf tn (rget alive) (rset alive) True (VInt f) (VInt e) (VInt tpos) t =
      copy_loop (rget alive) (rset alive) ps t"
    using move_guards [OF G] G(1) by (simp add: tblMove_def Let_def ps_def)
  obtain t' where t': "copy_loop (rget alive) (rset alive) ps t = Inr t'"
    "\<And>d s. (d, s) \<in> set ps \<Longrightarrow> fst (rawget alive (VInt d) t') = fst (rawget alive (VInt s) t)"
    "\<And>j. j \<notin> fst ` set ps \<Longrightarrow> fst (rawget alive (VInt j) t') = fst (rawget alive (VInt j) t)"
    using raw.copy_loop_moves [OF pl move_no_clobber [OF G], of alive] unfolding ps_def by blast
  have ps: "set ps = (\<lambda>k. (tpos + of_nat k, f + of_nat k)) ` {0..<nat (sint e - sint f + 1)}"
    by (simp add: ps_def move_pairs_def move_guards(2) [OF G])
  show ?thesis
  proof (cases "sint tpos \<le> sint i \<and> sint i \<le> sint tpos + (sint e - sint f)")
    case True
    define k where "k = nat (sint i - sint tpos)"
    have "tpos + of_nat k = i" "f + of_nat k = f + (i - tpos)" "k < nat (sint e - sint f + 1)"
      using True by (auto simp: k_def)
    then have "(i, f + (i - tpos)) \<in> set ps" unfolding ps by force
    with True t' run show ?thesis by auto
  next
    case False
    have "i \<notin> fst ` set ps"
    proof
      assume "i \<in> fst ` set ps"
      then obtain k where k: "i = tpos + of_nat k" "k < nat (sint e - sint f + 1)" unfolding ps by auto
      then have "sint i = sint tpos + int k" using G(3) by (auto intro!: sint_add_nat)
      with k(2) False show False by auto
    qed
    with False t' run show ?thesis by auto
  qed
qed

theorem move_range_witness:
  "\<exists>t'. tblMove (\<lambda>_. (0, None)) typeName (rget (\<lambda>_. True)) (rset (\<lambda>_. True)) True (VInt 1) (VInt 1) (VInt 2)
      (rawsetInt 1 (VInt 7) newTable) = Inr t' \<and>
    fst (rawget (\<lambda>_. True) (VInt 2) t') = fst (rawget (\<lambda>_. True) (VInt 1) (rawsetInt 1 (VInt 7) newTable))"
  using move_range [OF built_example, of 1 1 2 "\<lambda>_. (0, None)" typeName "\<lambda>_. True" 2] by simp

lemma pack_loop_lookup:
  assumes that: "j < 2 ^ 63" and "i + length vs < 2 ^ 63" "0 < i"
  shows "lookup alive (pack_loop i vs t) (int_key (of_nat j)) =
    (if i \<le> j \<and> j < i + length vs then deref alive (wrapVal t (vs ! (j - i))) else lookup alive t (int_key (of_nat j)))"
  using assms(2,3)
proof (induction vs arbitrary: i t)
  case (Cons v vs)
  have "(of_nat j :: i64) = of_nat i \<longleftrightarrow> j = i"
    using that Cons.prems by (intro of_nat_i64_inject) auto
  moreover have "wrapVal (rawsetInt (of_nat i) v t) = wrapVal t" by (simp add: wrapVal_def fun_eq_iff)
  ultimately show ?case
    using Cons.IH [of "Suc i" "rawsetInt (of_nat i) v t"] Cons.prems
    by (auto simp: lookup_rawsetInt nth_Cons' le_Suc_eq)
qed auto

lemma built_pack_loop: "built t \<Longrightarrow> list_all strong vs \<Longrightarrow> built (pack_loop i vs t)"
  by (induction vs arbitrary: i t) (auto intro: built_setInt)

lemma built_tblPack: "list_all strong args \<Longrightarrow> built (tblPack alive args)"
  unfolding tblPack_def by (intro built_set built_pack_loop built_new) (auto simp: strong_def)

lemma pack_loop_sel: "weakv (pack_loop i vs t) = weakv t" "weakk (pack_loop i vs t) = weakk t"
  by (induction vs arbitrary: i t) simp_all

lemma int_not_str [simp]: "int_key i = str_key s \<longleftrightarrow> False"
  by (simp add: int_key_def str_key_def)

lemma packed_elem:
  assumes "list_all strong args" "Suc (length args) < 2 ^ 63" "k < length args"
  shows "fst (rawget alive (VInt (of_nat (Suc k))) (tblPack alive args)) = args ! k"
proof -
  have "lookup alive (tblPack alive args) (int_key (of_nat (Suc k))) =
      lookup alive (pack_loop 1 args newTable) (int_key (of_nat (Suc k)))"
    using rawset_lookup [of "pack_loop 1 args newTable" "VString (lit ''n'')" "str_key (lit ''n'')"
        "int_key (of_nat (Suc k))" alive] int_not_str [of "of_nat (Suc k)"]
    unfolding tblPack_def by simp
  also have "\<dots> = args ! k"
    using assms pack_loop_lookup [of "Suc k" 1 args alive newTable]
    by (simp add: wrapVal_def list_all_length del: of_nat_Suc)
  finally show ?thesis by (simp add: fst_rawget tget_int del: of_nat_Suc)
qed

lemma index_range_elems:
  assumes "n < 2 ^ 63" "0 < n"
  shows "index_range 1 (of_nat n) = map (\<lambda>i. of_nat (Suc i)) [0..<n]"
proof -
  obtain m where n: "n = Suc m" using assms(2) by (cases n) auto
  have "sint (of_nat n :: i64) = int n" using assms(1) by (rule sint_of_nat_i64)
  then show ?thesis using n by (simp add: index_range_def)
qed

text \<open>
  Packing values into a table and unpacking positions 1 to \<open>n\<close> of it gives the values back, nils
  included, when they fit on the stack.
\<close>

lemma pack_unpack:
  assumes "list_all strong args" "args \<noteq> []" "Suc (length args) < 2 ^ 63" "tp + length args \<le> maxStack" "0 < tp"
  shows "\<exists>t'. tblUnpack pf tn (rget alive) maxStack tp sz [VInt 1, VInt (of_nat (length args))] (tblPack alive args) =
    Inr (args, t')"
proof -
  let ?t = "tblPack alive args" and ?n = "length args"
  have pos: "0 < ?n" using assms(2) by simp
  have s: "sint (of_nat ?n :: i64) = int ?n" using assms(3) by (intro sint_of_nat_i64) simp
  have pl: "plain ?t"
    using built_ok [OF built_tblPack [OF assms(1)]] unfolding plain_def
    by (simp add: tblPack_def rawset_def pack_loop_sel)
  obtain m where m: "?n = Suc m" using pos gr0_implies_Suc by blast
  have "unat (of_nat ?n - 1 :: i64) = m"
    using uint_diff_sint [of 1 "of_nat ?n"] s pos m by (simp add: unat_eq_nat_uint nat_diff_distrib)
  moreover have "m < maxStack" "Suc (tp + m) \<le> maxStack" using assms(4,5) m by linarith+
  ultimately have run: "tblUnpack pf tn (rget alive) maxStack tp sz [VInt 1, VInt (of_nat ?n)] ?t =
      Inr (read_loop (rget alive) (index_range 1 (of_nat ?n)) ?t)"
    using pos s by (simp add: tblUnpack_def Let_def)
  have "fst (read_loop (rget alive) (index_range 1 (of_nat ?n)) ?t) =
      map (\<lambda>i. fst (rawget alive (VInt i) ?t)) (index_range 1 (of_nat ?n))"
    using raw.read_loop_get [OF pl] by blast
  also have "\<dots> = args"
    using assms(1,3) pos packed_elem [of args _ alive]
    by (intro nth_equalityI) (simp_all add: index_range_elems del: of_nat_Suc)
  finally show ?thesis using run by (metis prod.collapse)
qed

lemma pack_unpack_witness:
  "\<exists>t'. tblUnpack (\<lambda>_. (0, None)) typeName (rget (\<lambda>_. True)) 100 1 0 [VInt 1, VInt (of_nat 2)]
     (tblPack (\<lambda>_. True) [VNil, VInt 5]) = Inr ([VNil, VInt 5], t')"
  using pack_unpack [of "[VNil, VInt 5]" 1 100 "\<lambda>_. (0, None)" typeName "\<lambda>_. True" 0]
  by (simp add: strong_def)

end
