(* ===== verification/TabSort.thy ===== *)
theory TabSort
  imports TabLib "HOL-Library.Multiset"
begin

text \<open>
  Sorting (ltablib.go: \<open>auxsort\<close>, \<open>partition\<close>, \<open>swapVals\<close>, the comparison of \<open>tblSort\<close>). The array is
  a list whose element 0 is unused. The comparison \<open>lt\<close> is arbitrary Lua code: it has a state of its
  own (so it may answer differently each time it is asked) and may raise an error. An index out of
  range is a Go panic.
\<close>

type_synonym ('v, 's) cmp = "'v \<Rightarrow> 'v \<Rightarrow> 's \<Rightarrow> (bool \<times> 's) res"

subsection \<open>Model\<close>

definition aget :: "'v list \<Rightarrow> nat \<Rightarrow> 'v res" where
  "aget a i = (if i < length a then Inr (a ! i) else Inl GoPanic)"

definition swapVals :: "'v list \<Rightarrow> nat \<Rightarrow> nat \<Rightarrow> 'v list res" where
  "swapVals a i j =
     (if i < length a \<and> j < length a then Inr (a[i := a ! j, j := a ! i]) else Inl GoPanic)"

definition lt_at :: "('v, 's) cmp \<Rightarrow> 'v list \<Rightarrow> nat \<Rightarrow> nat \<Rightarrow> 's \<Rightarrow> (bool \<times> 's) res" where
  "lt_at lt a i j s = rbind (aget a i) (\<lambda>x. rbind (aget a j) (\<lambda>y. lt x y s))"

abbreviation order_error :: go_error where
  "order_error \<equiv> LuaError ''invalid order function for sorting''"

text \<open>The two inner loops of \<open>partition\<close>: from \<open>i\<close> upwards, and from \<open>j\<close> downwards.\<close>

function scan_up :: "('v, 's) cmp \<Rightarrow> 'v list \<Rightarrow> 'v \<Rightarrow> nat \<Rightarrow> nat \<Rightarrow> 's \<Rightarrow> (nat \<times> 's) res" where
  "scan_up lt a P up i s =
     rbind (aget a i) (\<lambda>x. rbind (lt x P s) (\<lambda>(b, s1).
       if b then (if i = up - 1 then Inl order_error else scan_up lt a P up (i + 1) s1)
       else Inr (i, s1)))"
  by pat_completeness auto
termination by (relation "measure (\<lambda>(lt, a, P, up, i, s). length a - i)") (auto simp: aget_def split: if_splits)

fun scan_down :: "('v, 's) cmp \<Rightarrow> 'v list \<Rightarrow> 'v \<Rightarrow> nat \<Rightarrow> nat \<Rightarrow> 's \<Rightarrow> (nat \<times> 's) res" where
  "scan_down lt a P i 0 s =
     rbind (aget a 0) (\<lambda>x. rbind (lt P x s) (\<lambda>(b, s1).
       if b then (if 0 < i then Inl order_error else Inl GoPanic) else Inr (0, s1)))"
| "scan_down lt a P i (Suc j) s =
     rbind (aget a (Suc j)) (\<lambda>x. rbind (lt P x s) (\<lambda>(b, s1).
       if b then (if Suc j < i then Inl order_error else scan_down lt a P i j s1)
       else Inr (Suc j, s1)))"

declare scan_up.simps [simp del]

lemma aget_Inr [simp]: "aget a i = Inr x \<longleftrightarrow> i < length a \<and> x = a ! i"
  by (auto simp: aget_def)

lemma scan_up_bounds:
  "scan_up lt a P up i s = Inr (i1, s1) \<Longrightarrow> i \<le> i1 \<and> i1 < length a \<and> (i \<le> up - 1 \<longrightarrow> i1 \<le> up - 1)"
proof (induction lt a P up i s rule: scan_up.induct)
  case (1 lt a P up i s)
  show ?case
    using "1.prems" "1.IH"
    by (subst (asm) scan_up.simps) (fastforce simp: rbind_Inr_conv split: if_splits prod.splits)
qed

lemma scan_down_bounds: "scan_down lt a P i j s = Inr (j1, s1) \<Longrightarrow> j1 \<le> j \<and> j1 < length a"
proof (induction lt a P i j s rule: scan_down.induct)
  case (2 lt a P i j s)
  then show ?case by (fastforce simp: rbind_Inr_conv split: if_splits prod.splits)
qed (auto simp: rbind_Inr_conv split: if_splits)

lemma swapVals_Inr: "swapVals a i j = Inr a' \<longleftrightarrow> i < length a \<and> j < length a \<and> a' = a[i := a ! j, j := a ! i]"
  by (auto simp: swapVals_def)

text \<open>The outer loop of \<open>partition\<close>; \<open>j\<close> is positive, since \<open>j--\<close> would otherwise leave the array.\<close>

function part_loop :: "('v, 's) cmp \<Rightarrow> 'v list \<Rightarrow> 'v \<Rightarrow> nat \<Rightarrow> nat \<Rightarrow> nat \<Rightarrow> 's \<Rightarrow> ('v list \<times> nat \<times> 's) res" where
  "part_loop lt a P up i j s =
     rbind (scan_up lt a P up (i + 1) s) (\<lambda>(i1, s1).
       if j = 0 then Inl GoPanic
       else rbind (scan_down lt a P i1 (j - 1) s1) (\<lambda>(j1, s2).
         if j1 < i1 then rbind (swapVals a (up - 1) i1) (\<lambda>a'. Inr (a', i1, s2))
         else rbind (swapVals a i1 j1) (\<lambda>a'. part_loop lt a' P up i1 j1 s2)))"
  by pat_completeness auto
termination
  by (relation "measure (\<lambda>(lt, a, P, up, i, j, s). length a - i)")
    (auto simp: swapVals_Inr dest!: scan_up_bounds)

declare part_loop.simps [simp del]

definition partition_vals :: "('v, 's) cmp \<Rightarrow> 'v list \<Rightarrow> nat \<Rightarrow> nat \<Rightarrow> 's \<Rightarrow> ('v list \<times> nat \<times> 's) res" where
  "partition_vals lt a lo up s = rbind (aget a (up - 1)) (\<lambda>P. part_loop lt a P up lo (up - 1) s)"

lemma part_loop_cases:
  assumes "part_loop lt a P up i j s = Inr r"
  obtains (place) i1 s1 j1 s2 where "scan_up lt a P up (i + 1) s = Inr (i1, s1)" "j \<noteq> 0"
      "scan_down lt a P i1 (j - 1) s1 = Inr (j1, s2)" "j1 < i1" "up - 1 < length a"
      "r = (a[up - 1 := a ! i1, i1 := a ! (up - 1)], i1, s2)"
  | (exchange) i1 s1 j1 s2 where "scan_up lt a P up (i + 1) s = Inr (i1, s1)" "j \<noteq> 0"
      "scan_down lt a P i1 (j - 1) s1 = Inr (j1, s2)" "\<not> j1 < i1"
      "part_loop lt (a[i1 := a ! j1, j1 := a ! i1]) P up i1 j1 s2 = Inr r"
proof -
  note eq = assms [unfolded part_loop.simps [of lt a P up i j s]]
  obtain i1 s1 where u: "scan_up lt a P up (i + 1) s = Inr (i1, s1)" and j: "j \<noteq> 0"
    using eq by (auto simp: rbind_Inr_conv split: if_splits)
  obtain j1 s2 where d: "scan_down lt a P i1 (j - 1) s1 = Inr (j1, s2)"
    using eq u j by (auto simp: rbind_Inr_conv)
  show thesis
    using eq u j d that by (cases "j1 < i1") (auto simp: rbind_Inr_conv swapVals_Inr)
qed

text \<open>Induction over the successful runs of the loop.\<close>

lemma part_loop_induct [consumes 1, case_names place exchange]:
  assumes "part_loop lt a P up i j s = Inr r"
    and "\<And>a i j s i1 s1 j1 s2. scan_up lt a P up (i + 1) s = Inr (i1, s1) \<Longrightarrow> j \<noteq> 0 \<Longrightarrow>
      scan_down lt a P i1 (j - 1) s1 = Inr (j1, s2) \<Longrightarrow> j1 < i1 \<Longrightarrow> up - 1 < length a \<Longrightarrow>
      Q a i j (a[up - 1 := a ! i1, i1 := a ! (up - 1)], i1, s2)"
    and "\<And>a i j s i1 s1 j1 s2 r. scan_up lt a P up (i + 1) s = Inr (i1, s1) \<Longrightarrow> j \<noteq> 0 \<Longrightarrow>
      scan_down lt a P i1 (j - 1) s1 = Inr (j1, s2) \<Longrightarrow> \<not> j1 < i1 \<Longrightarrow>
      Q (a[i1 := a ! j1, j1 := a ! i1]) i1 j1 r \<Longrightarrow> Q a i j r"
  shows "Q a i j r"
  using assms(1)
proof (induction "length a - i" arbitrary: a i j s rule: less_induct)
  case less
  from less.prems show ?case
  proof (cases rule: part_loop_cases)
    case (place i1 s1 j1 s2)
    then show ?thesis using assms(2) by blast
  next
    case (exchange i1 s1 j1 s2)
    then have "length (a[i1 := a ! j1, j1 := a ! i1]) - i1 < length a - i"
      using scan_up_bounds [OF exchange(1)] by auto
    from less.hyps [OF this exchange(5)] exchange show ?thesis using assms(3) by blast
  qed
qed

lemma part_loop_bounds:
  "part_loop lt a P up i j s = Inr r \<Longrightarrow> i + 1 \<le> up - 1 \<Longrightarrow> j \<le> up - 1 \<Longrightarrow>
     i < fst (snd r) \<and> fst (snd r) \<le> up - 1 \<and> length (fst r) = length a"
proof (induction rule: part_loop_induct)
  case (place a i j s i1 s1 j1 s2)
  then show ?case using scan_up_bounds [OF place(1)] by auto
next
  case (exchange a i j s i1 s1 j1 s2 r)
  note b = scan_up_bounds [OF exchange(1)] scan_down_bounds [OF exchange(3)]
  have "i1 + 1 \<le> up - 1" "j1 \<le> up - 1" using b exchange(2,4,7) by linarith+
  from exchange(5) [OF this] b show ?case by simp
qed

definition cond_swap :: "bool \<Rightarrow> 'v list \<Rightarrow> nat \<Rightarrow> nat \<Rightarrow> 'v list res" where
  "cond_swap b a i j = (if b then swapVals a i j else Inr a)"

text \<open>The first part of an iteration of \<open>auxsort\<close>: ordering \<open>a[lo]\<close>, \<open>a[p]\<close> and \<open>a[up]\<close>.\<close>

definition sort_ends :: "('v, 's) cmp \<Rightarrow> 'v list \<Rightarrow> nat \<Rightarrow> nat \<Rightarrow> 's \<Rightarrow> ('v list \<times> 's) res" where
  "sort_ends lt a lo up s =
     rbind (lt_at lt a up lo s) (\<lambda>(b, s). rbind (cond_swap b a lo up) (\<lambda>a. Inr (a, s)))"

definition sort_middle :: "('v, 's) cmp \<Rightarrow> 'v list \<Rightarrow> nat \<Rightarrow> nat \<Rightarrow> nat \<Rightarrow> 's \<Rightarrow> ('v list \<times> 's) res" where
  "sort_middle lt a lo p up s =
     rbind (lt_at lt a p lo s) (\<lambda>(b, s).
       if b then rbind (swapVals a p lo) (\<lambda>a. Inr (a, s))
       else rbind (lt_at lt a up p s) (\<lambda>(b, s). rbind (cond_swap b a p up) (\<lambda>a. Inr (a, s))))"

function auxsort :: "('v, 's) cmp \<Rightarrow> 'v list \<Rightarrow> nat \<Rightarrow> nat \<Rightarrow> 's \<Rightarrow> ('v list \<times> 's) res" where
  "auxsort lt a lo up s =
     (if \<not> lo < up then Inr (a, s)
      else rbind (sort_ends lt a lo up s) (\<lambda>(a, s).
        if up - lo = 1 then Inr (a, s)
        else let p = (lo + up) div 2 in
          rbind (sort_middle lt a lo p up s) (\<lambda>(a, s).
            if up - lo = 2 then Inr (a, s)
            else rbind (swapVals a p (up - 1)) (\<lambda>a.
              rbind (partition_vals lt a lo up s) (\<lambda>(a, pp, s).
                if pp - lo < up - pp then
                  rbind (auxsort lt a lo (pp - 1) s) (\<lambda>(a, s). auxsort lt a (pp + 1) up s)
                else rbind (auxsort lt a (pp + 1) up s) (\<lambda>(a, s). auxsort lt a lo (pp - 1) s))))))"
  by pat_completeness auto
termination
  by (relation "measure (\<lambda>(lt, a, lo, up, s). up - lo)")
    (auto simp: partition_vals_def rbind_Inr_conv dest!: part_loop_bounds)

declare auxsort.simps [simp del]

subsection \<open>Any comparison: the array is permuted, and no index leaves it\<close>

definition rearranged :: "nat \<Rightarrow> nat \<Rightarrow> 'v list \<Rightarrow> 'v list \<Rightarrow> bool" where
  "rearranged lo up a a' = (length a' = length a \<and> mset a' = mset a \<and>
     (\<forall>k < length a. k < lo \<or> up < k \<longrightarrow> a' ! k = a ! k) \<and>
     (\<forall>k. lo \<le> k \<and> k \<le> up \<longrightarrow> (\<exists>k'. lo \<le> k' \<and> k' \<le> up \<and> a' ! k = a ! k')))"

lemma rearranged_refl [simp]: "rearranged lo up a a"
  by (auto simp: rearranged_def)

lemma rearranged_trans [trans]:
  "rearranged lo up a b \<Longrightarrow> rearranged lo up b c \<Longrightarrow> rearranged lo up a c"
  unfolding rearranged_def by (metis (no_types, lifting))

lemma rearranged_widen:
  assumes "rearranged lo up a b" "lo' \<le> lo" "up \<le> up'" "up' < length a"
  shows "rearranged lo' up' a b"
proof -
  have "\<exists>k'. lo' \<le> k' \<and> k' \<le> up' \<and> b ! k = a ! k'" if "lo' \<le> k \<and> k \<le> up'" for k
  proof (cases "lo \<le> k \<and> k \<le> up")
    case True
    then show ?thesis using assms unfolding rearranged_def by (meson order_trans)
  next
    case False
    then show ?thesis using assms that unfolding rearranged_def by (intro exI [of _ k]) auto
  qed
  then show ?thesis using assms by (auto simp: rearranged_def)
qed

lemma rearranged_swap:
  assumes "lo \<le> i" "i \<le> up" "lo \<le> j" "j \<le> up" "up < length a"
  shows "rearranged lo up a (a[i := a ! j, j := a ! i])"
proof -
  have "mset (a[i := a ! j, j := a ! i]) = mset a" using assms by (intro mset_swap) auto
  then show ?thesis
    using assms unfolding rearranged_def by (auto simp: nth_list_update intro: exI [of _ i] exI [of _ j])
qed

lemma rok_swap:
  "lo \<le> i \<Longrightarrow> i \<le> up \<Longrightarrow> lo \<le> j \<Longrightarrow> j \<le> up \<Longrightarrow> up < length a \<Longrightarrow> rok (rearranged lo up a) (swapVals a i j)"
  by (simp add: swapVals_def rearranged_swap)

definition cmp_safe :: "('v, 's) cmp \<Rightarrow> bool" where
  "cmp_safe lt = (\<forall>x y s. lt x y s \<noteq> Inl GoPanic)"

lemma cmp_safe_rok: "cmp_safe lt \<Longrightarrow> rok (\<lambda>x. True) (lt x y s)"
  by (cases "lt x y s") (auto simp: cmp_safe_def)

lemma scan_up_rok:
  assumes "cmp_safe lt" "i \<le> up - 1" "up - 1 < length a"
  shows "rok (\<lambda>(i1, s1). i \<le> i1 \<and> i1 \<le> up - 1) (scan_up lt a P up i s)"
  using assms
proof (induction lt a P up i s rule: scan_up.induct)
  case (1 lt a P up i s)
  have "rok (\<lambda>(b, s1). rok (\<lambda>(i1, s1). i \<le> i1 \<and> i1 \<le> up - 1)
      (if b then if i = up - 1 then Inl order_error else scan_up lt a P up (i + 1) s1 else Inr (i, s1)))
      (lt (a ! i) P s)"
  proof (rule rok_mono [OF cmp_safe_rok [OF "1.prems"(1)]], clarify)
    fix b s1 assume l: "lt (a ! i) P s = Inr (b, s1)"
    show "rok (\<lambda>(i1, s1). i \<le> i1 \<and> i1 \<le> up - 1)
        (if b then if i = up - 1 then Inl order_error else scan_up lt a P up (i + 1) s1 else Inr (i, s1))"
    proof (cases "b \<and> i \<noteq> up - 1")
      case True
      then have "rok (\<lambda>(i1, s1). i + 1 \<le> i1 \<and> i1 \<le> up - 1) (scan_up lt a P up (i + 1) s1)"
        using "1.IH" [of "a ! i" "(b, s1)" b s1] l "1.prems" by simp
      with True show ?thesis by (auto elim: rok_mono)
    qed (use "1.prems" in auto)
  qed
  then show ?case
    using "1.prems" by (subst scan_up.simps) (simp add: aget_def case_prod_unfold)
qed

lemma scan_down_rok:
  assumes "cmp_safe lt" "0 < i" "j < length a"
  shows "rok (\<lambda>(j1, s1). j1 \<le> j) (scan_down lt a P i j s)"
  using assms
proof (induction lt a P i j s rule: scan_down.induct)
  case (1 lt a P i s)
  then show ?case using cmp_safe_rok [OF 1(1), of P "a ! 0" s]
    by (auto simp: aget_def elim!: rok_mono)
next
  case (2 lt a P i j s)
  have "rok (\<lambda>(b, s1). rok (\<lambda>(j1, s1). j1 \<le> Suc j)
      (if b then if Suc j < i then Inl order_error else scan_down lt a P i j s1 else Inr (Suc j, s1)))
      (lt P (a ! Suc j) s)"
  proof (rule rok_mono [OF cmp_safe_rok [OF "2.prems"(1)]], clarify)
    fix b s1 assume l: "lt P (a ! Suc j) s = Inr (b, s1)"
    have "rok (\<lambda>(j1, s1). j1 \<le> j) (scan_down lt a P i j s1)" if "b" "\<not> Suc j < i"
      using "2.IH" [of "a ! Suc j" "(b, s1)" b s1] l "2.prems" that by simp
    then show "rok (\<lambda>(j1, s1). j1 \<le> Suc j)
        (if b then if Suc j < i then Inl order_error else scan_down lt a P i j s1 else Inr (Suc j, s1))"
      by (auto elim!: rok_mono)
  qed
  then show ?case using "2.prems" by (simp add: aget_def case_prod_unfold)
qed

lemma part_loop_rok:
  assumes "cmp_safe lt" "i + 1 \<le> up - 1" "0 < j" "j \<le> up - 1" "up - 1 < length a"
  shows "rok (\<lambda>(a', pp, s'). i < pp \<and> pp \<le> up - 1 \<and> rearranged (i + 1) (up - 1) a a') (part_loop lt a P up i j s)"
  using assms
proof (induction "length a - i" arbitrary: a i j s rule: less_induct)
  case less
  let ?Q = "\<lambda>(a', pp, s'). i < pp \<and> pp \<le> up - 1 \<and> rearranged (i + 1) (up - 1) a a'"
  define body where "body = (\<lambda>i1 j1 s2. if j1 < i1 then rbind (swapVals a (up - 1) i1) (\<lambda>a'. Inr (a', i1, s2))
      else rbind (swapVals a i1 j1) (\<lambda>a'. part_loop lt a' P up i1 j1 s2))"
  have "rok ?Q (body i1 j1 s2)" if b: "i + 1 \<le> i1" "i1 \<le> up - 1" "j1 \<le> j - 1" for i1 j1 s2
  proof (cases "j1 < i1")
    case True
    then show ?thesis
      using rok_swap [of "i + 1" "up - 1" "up - 1" i1 a] b less.prems by (auto simp: body_def elim!: rok_mono)
  next
    case False
    define a1 where "a1 = a[i1 := a ! j1, j1 := a ! i1]"
    have a1: "rearranged (i + 1) (up - 1) a a1" "swapVals a i1 j1 = Inr a1"
      unfolding a1_def using b False less.prems by (auto intro!: rearranged_swap simp: swapVals_def)
    then have len: "length a1 = length a" by (simp add: rearranged_def)
    have "length a1 - i1 < length a - i" using b less.prems len by simp
    then have "rok (\<lambda>(a', pp, s'). i1 < pp \<and> pp \<le> up - 1 \<and> rearranged (i1 + 1) (up - 1) a1 a')
        (part_loop lt a1 P up i1 j1 s2)"
      using b False less.prems len by (intro less.hyps) auto
    moreover have "rearranged (i + 1) (up - 1) a a'" if "rearranged (i1 + 1) (up - 1) a1 a'" for a'
      using rearranged_trans [OF a1(1) rearranged_widen [OF that, of "i + 1" "up - 1"]] b less.prems len by simp
    ultimately show ?thesis using a1(2) False b(1) by (auto simp: body_def elim!: rok_mono)
  qed
  then have "rok (\<lambda>(j1, s2). rok ?Q (body i1 j1 s2)) (scan_down lt a P i1 (j - 1) s1)"
    if "i + 1 \<le> i1" "i1 \<le> up - 1" for i1 s1
    using that less.prems by (intro rok_mono [OF scan_down_rok [OF less.prems(1)]]) auto
  then have "rok (\<lambda>(i1, s1). rok ?Q (rbind (scan_down lt a P i1 (j - 1) s1) (\<lambda>(j1, s2). body i1 j1 s2)))
      (scan_up lt a P up (i + 1) s)"
    by (intro rok_mono [OF scan_up_rok [OF less.prems(1,2,5)]]) (auto simp: case_prod_unfold)
  then show ?case
    using less.prems(3) unfolding part_loop.simps [of lt a P up i j s] body_def by (simp add: case_prod_unfold)
qed

lemma lt_at_rok:
  "cmp_safe lt \<Longrightarrow> i < length a \<Longrightarrow> j < length a \<Longrightarrow> rok (\<lambda>_. True) (lt_at lt a i j s)"
  using cmp_safe_rok by (simp add: lt_at_def aget_def)

lemma cond_swap_rok:
  "lo \<le> i \<Longrightarrow> i \<le> up \<Longrightarrow> lo \<le> j \<Longrightarrow> j \<le> up \<Longrightarrow> up < length a \<Longrightarrow> rok (rearranged lo up a) (cond_swap b a i j)"
  by (simp add: cond_swap_def rok_swap)

lemma sort_ends_rok:
  assumes "cmp_safe lt" "lo < up" "up < length a"
  shows "rok (\<lambda>(a', s'). rearranged lo up a a') (sort_ends lt a lo up s)"
  unfolding sort_ends_def using assms
  by (auto simp: case_prod_unfold intro!: rok_mono [OF lt_at_rok] cond_swap_rok)

lemma sort_middle_rok:
  assumes "cmp_safe lt" "lo < p" "p < up" "up < length a"
  shows "rok (\<lambda>(a', s'). rearranged lo up a a') (sort_middle lt a lo p up s)"
  unfolding sort_middle_def using assms
  by (auto simp: case_prod_unfold intro!: rok_mono [OF lt_at_rok] cond_swap_rok rok_swap)

lemma partition_rok:
  assumes "cmp_safe lt" "lo + 2 < up" "up < length a"
  shows "rok (\<lambda>(a', pp, s'). lo < pp \<and> pp < up \<and> rearranged lo up a a') (partition_vals lt a lo up s)"
proof -
  have "rok (\<lambda>(a', pp, s'). lo < pp \<and> pp \<le> up - 1 \<and> rearranged (lo + 1) (up - 1) a a')
      (part_loop lt a (a ! (up - 1)) up lo (up - 1) s)"
    using assms by (intro part_loop_rok) auto
  moreover have "rearranged lo up a a'" if "rearranged (lo + 1) (up - 1) a a'" for a'
    using rearranged_widen [OF that] assms by auto
  ultimately show ?thesis
    using assms by (auto simp: partition_vals_def aget_def elim!: rok_mono)
qed

lemma rok_bind2: "rok (\<lambda>(x, s). R x) r \<Longrightarrow> (\<And>x s. R x \<Longrightarrow> rok Q (f x s)) \<Longrightarrow> rok Q (rbind r (\<lambda>(x, s). f x s))"
  by (cases r) auto

lemma rok_bind3:
  "rok (\<lambda>(x, y, s). R x y) r \<Longrightarrow> (\<And>x y s. R x y \<Longrightarrow> rok Q (f x y s)) \<Longrightarrow> rok Q (rbind r (\<lambda>(x, y, s). f x y s))"
  by (cases r) auto

lemma rok_bind: "rok R r \<Longrightarrow> (\<And>x. R x \<Longrightarrow> rok Q (f x)) \<Longrightarrow> rok Q (rbind r f)"
  by (cases r) auto

text \<open>A step that rearranges, applied to an array that is itself a rearrangement.\<close>

lemma rok_then:
  assumes "rearranged lo up a b" "rok (\<lambda>(c, s). rearranged l u b c) r" "lo \<le> l" "u \<le> up" "up < length a"
  shows "rok (\<lambda>(c, s). rearranged lo up a c) r"
proof (rule rok_mono [OF assms(2)], clarify)
  fix c assume c: "rearranged l u b c"
  have "length b = length a" using assms(1) by (simp add: rearranged_def)
  then have "rearranged lo up b c" using rearranged_widen [OF c assms(3,4)] assms(5) by simp
  with assms(1) show "rearranged lo up a c" by (rule rearranged_trans)
qed

text \<open>The last part of an iteration of \<open>auxsort\<close>, and the iteration as a whole.\<close>

definition sort_rest :: "('v, 's) cmp \<Rightarrow> nat \<Rightarrow> nat \<Rightarrow> 'v list \<Rightarrow> nat \<Rightarrow> 's \<Rightarrow> ('v list \<times> 's) res" where
  "sort_rest lt lo up a p s = rbind (swapVals a p (up - 1)) (\<lambda>a.
     rbind (partition_vals lt a lo up s) (\<lambda>(a, pp, s).
       if pp - lo < up - pp then rbind (auxsort lt a lo (pp - 1) s) (\<lambda>(a, s). auxsort lt a (pp + 1) up s)
       else rbind (auxsort lt a (pp + 1) up s) (\<lambda>(a, s). auxsort lt a lo (pp - 1) s)))"

lemma auxsort_iteration:
  "lo < up \<Longrightarrow> auxsort lt a lo up s = rbind (sort_ends lt a lo up s) (\<lambda>(b, s).
     if up - lo = 1 then Inr (b, s)
     else rbind (sort_middle lt b lo ((lo + up) div 2) up s) (\<lambda>(c, s).
       if up - lo = 2 then Inr (c, s) else sort_rest lt lo up c ((lo + up) div 2) s))"
  unfolding auxsort.simps [of lt a lo up s] Let_def sort_rest_def by simp

lemma rearranged_length: "rearranged lo up a b \<Longrightarrow> length b = length a"
  by (simp add: rearranged_def)

lemma sort_rest_rok:
  assumes safe: "cmp_safe lt" and len: "up < length a" and p: "lo < p" "p < up" "lo + 2 < up"
    and IH: "\<And>b l u s. u - l < up - lo \<Longrightarrow> u < length b \<Longrightarrow> rok (\<lambda>(b', s'). rearranged l u b b') (auxsort lt b l u s)"
  shows "rok (\<lambda>(a', s'). rearranged lo up a a') (sort_rest lt lo up a p s)"
proof -
  have rec: "rok (\<lambda>(a', s'). rearranged lo up a a') (auxsort lt b l u s')"
    if b: "rearranged lo up a b" "lo \<le> l" "u \<le> up" "u - l < up - lo" for b l u s'
    using rok_then [OF b(1) IH [OF b(4)] b(2,3)] b len rearranged_length [OF b(1)] by simp
  have both: "rok (\<lambda>(a', s'). rearranged lo up a a')
      (if c then rbind (auxsort lt b lo (pp - 1) s') (\<lambda>(b, s'). auxsort lt b (pp + 1) up s')
       else rbind (auxsort lt b (pp + 1) up s') (\<lambda>(b, s'). auxsort lt b lo (pp - 1) s'))"
    if "lo < pp \<and> pp < up \<and> rearranged lo up a b" for c b pp s'
    using rec that by (cases c) (auto intro!: rok_bind2 [OF rec] simp del: rok_simps(3))
  show ?thesis
    unfolding sort_rest_def
  proof (rule rok_bind)
    show "rok (rearranged lo up a) (swapVals a p (up - 1))"
      using p len by (auto simp: swapVals_def intro!: rearranged_swap)
    fix c assume c: "rearranged lo up a c"
    have "rok (\<lambda>(d, pp, s'). lo < pp \<and> pp < up \<and> rearranged lo up a d) (partition_vals lt c lo up s)"
      using p rearranged_length [OF c] len
      by (intro rok_mono [OF partition_rok [OF safe]]) (auto intro: rearranged_trans [OF c])
    then show "rok (\<lambda>(a', s'). rearranged lo up a a') (rbind (partition_vals lt c lo up s) (\<lambda>(a, pp, s).
        if pp - lo < up - pp then rbind (auxsort lt a lo (pp - 1) s) (\<lambda>(a, s). auxsort lt a (pp + 1) up s)
        else rbind (auxsort lt a (pp + 1) up s) (\<lambda>(a, s). auxsort lt a lo (pp - 1) s)))"
      by (rule rok_bind3) (rule both)
  qed
qed

lemma auxsort_rok:
  assumes "cmp_safe lt" "up < length a"
  shows "rok (\<lambda>(a', s'). rearranged lo up a a') (auxsort lt a lo up s)"
  using assms(2)
proof (induction "up - lo" arbitrary: a lo up s rule: less_induct)
  case less
  show ?case
  proof (cases "lo < up")
    case False
    then show ?thesis by (simp add: auxsort.simps)
  next
    case lu: True
    let ?Q = "\<lambda>(a', s'). rearranged lo up a a'" and ?p = "(lo + up) div 2"
    have rest: "rok ?Q (sort_rest lt lo up b ?p s')" if b: "rearranged lo up a b" "2 < up - lo" for b s'
      using that lu less.prems rearranged_length [OF b(1)]
      by (intro rok_then [OF b(1) sort_rest_rok [OF assms(1)]] less.hyps) auto
    have mid: "rok ?Q (sort_middle lt b lo ?p up s')" if b: "rearranged lo up a b" "up - lo \<noteq> 1" for b s'
      using that lu less.prems rearranged_length [OF b(1)]
      by (intro rok_then [OF b(1) sort_middle_rok [OF assms(1)]]) auto
    have "rok ?Q (if up - lo = 1 then Inr (b, s') else rbind (sort_middle lt b lo ?p up s') (\<lambda>(c, s).
        if up - lo = 2 then Inr (c, s) else sort_rest lt lo up c ?p s))" if b: "rearranged lo up a b" for b s'
    proof (cases "up - lo = 1")
      case False
      then have "rok ?Q (rbind (sort_middle lt b lo ?p up s') (\<lambda>(c, s).
          if up - lo = 2 then Inr (c, s) else sort_rest lt lo up c ?p s))"
        using rest lu by (intro rok_bind2 [OF mid [OF b False]]) auto
      with False show ?thesis by (simp only: if_False)
    qed (simp add: b)
    then show ?thesis
      unfolding auxsort_iteration [OF lu] by (rule rok_bind2 [OF sort_ends_rok [OF assms(1) lu less.prems]])
  qed
qed

subsection \<open>A consistent comparison: the array is sorted\<close>

definition sorted_range :: "('v \<Rightarrow> 'v \<Rightarrow> bool) \<Rightarrow> 'v list \<Rightarrow> nat \<Rightarrow> nat \<Rightarrow> bool" where
  "sorted_range lss a lo up = (\<forall>i j. lo \<le> i \<and> i < j \<and> j \<le> up \<longrightarrow> \<not> lss (a ! j) (a ! i))"

lemma rtot_bind: "rtot R r \<Longrightarrow> (\<And>x. R x \<Longrightarrow> rtot Q (f x)) \<Longrightarrow> rtot Q (rbind r f)"
  by (cases r) auto

text \<open>What \<open>partition\<close> achieves around the pivot's place \<open>pp\<close>.\<close>

definition split_at :: "('v \<Rightarrow> 'v \<Rightarrow> bool) \<Rightarrow> 'v list \<Rightarrow> nat \<Rightarrow> nat \<Rightarrow> nat \<Rightarrow> bool" where
  "split_at lss a lo pp up = ((\<forall>k. lo \<le> k \<and> k < pp \<longrightarrow> \<not> lss (a ! pp) (a ! k)) \<and>
     (\<forall>k. pp < k \<and> k \<le> up \<longrightarrow> \<not> lss (a ! k) (a ! pp)))"

lemma rtot_conj: "rtot Q r \<Longrightarrow> rok R r \<Longrightarrow> rtot (\<lambda>x. Q x \<and> R x) r"
  by (cases r) auto

lemma rtot_bind2: "rtot (\<lambda>(x, s). s = s0 \<and> R x) r \<Longrightarrow> (\<And>x. R x \<Longrightarrow> rtot Q (f x s0)) \<Longrightarrow> rtot Q (rbind r (\<lambda>(x, s). f x s))"
  by (cases r) auto

lemma rtot_bind3:
  "rtot (\<lambda>(x, y, s). s = s0 \<and> R x y) r \<Longrightarrow> (\<And>x y. R x y \<Longrightarrow> rtot Q (f x y s0)) \<Longrightarrow> rtot Q (rbind r (\<lambda>(x, y, s). f x y s))"
  by (cases r) auto

text \<open>Sortedness of one side of the pivot is not touched by rearranging the other side.\<close>

lemma sorted_range_frame:
  "sorted_range lss a lo up \<Longrightarrow> rearranged l u a b \<Longrightarrow> up < l \<or> u < lo \<Longrightarrow> up < length a \<Longrightarrow> sorted_range lss b lo up"
  by (fastforce simp: sorted_range_def rearranged_def)

lemma split_at_rearranged:
  assumes s: "split_at lss a lo pp up" and r: "rearranged l u a b" and len: "up < length a"
    and side: "l = lo \<and> u < pp \<or> pp < l \<and> u = up"
    and p: "lo < pp" "pp < up"
  shows "split_at lss b lo pp up"
proof -
  have same: "b ! k = a ! k" if "k < l \<or> u < k" "k \<le> up" for k
    using r that len by (auto simp: rearranged_def)
  have moved: "\<exists>k'. l \<le> k' \<and> k' \<le> u \<and> b ! k = a ! k'" if "l \<le> k" "k \<le> u" for k
    using r that by (auto simp: rearranged_def)
  have pp: "b ! pp = a ! pp" using same [of pp] side p by auto
  have "\<not> lss (b ! pp) (b ! k)" if "lo \<le> k" "k < pp" for k
  proof (cases "l \<le> k \<and> k \<le> u")
    case True
    then obtain k' where "l \<le> k'" "k' \<le> u" "b ! k = a ! k'" using moved by blast
    then show ?thesis using s side True that pp by (auto simp: split_at_def)
  next
    case False
    then show ?thesis using same [of k] s that p pp by (auto simp: split_at_def)
  qed
  moreover have "\<not> lss (b ! k) (b ! pp)" if "pp < k" "k \<le> up" for k
  proof (cases "l \<le> k \<and> k \<le> u")
    case True
    then obtain k' where "l \<le> k'" "k' \<le> u" "b ! k = a ! k'" using moved by blast
    then show ?thesis using s side True that pp by (auto simp: split_at_def)
  next
    case False
    then show ?thesis using same [of k] s that p pp by (auto simp: split_at_def)
  qed
  ultimately show ?thesis by (simp add: split_at_def)
qed

text \<open>The contract of a consistent comparison: a strict weak order on the values it is asked about.\<close>

locale weak_order =
  fixes ok :: "'v \<Rightarrow> bool" and lss :: "'v \<Rightarrow> 'v \<Rightarrow> bool" and lt :: "('v, 's) cmp"
  assumes lt_eq: "ok x \<Longrightarrow> ok y \<Longrightarrow> lt x y s = Inr (lss x y, s)"
    and safe: "cmp_safe lt"
    and asym: "ok x \<Longrightarrow> ok y \<Longrightarrow> lss x y \<Longrightarrow> \<not> lss y x"
    and neg_trans: "ok x \<Longrightarrow> ok y \<Longrightarrow> ok z \<Longrightarrow> \<not> lss x y \<Longrightarrow> \<not> lss y z \<Longrightarrow> \<not> lss x z"
begin

definition ok_range :: "'v list \<Rightarrow> nat \<Rightarrow> nat \<Rightarrow> bool" where
  "ok_range a lo up = (\<forall>k. lo \<le> k \<and> k \<le> up \<longrightarrow> ok (a ! k))"

lemma ok_rearranged: "ok_range a lo up \<Longrightarrow> rearranged lo up a b \<Longrightarrow> ok_range b lo up"
  unfolding ok_range_def rearranged_def by metis

lemma ok_narrow: "ok_range a lo up \<Longrightarrow> lo \<le> l \<Longrightarrow> u \<le> up \<Longrightarrow> ok_range a l u"
  by (simp add: ok_range_def)

lemma scan_up_tot:
  assumes "\<not> lss (a ! (up - 1)) P" "i \<le> up - 1" "up - 1 < length a" "ok P" "ok_range a i (up - 1)"
  shows "rtot (\<lambda>(i1, s1). s1 = s \<and> i \<le> i1 \<and> i1 \<le> up - 1 \<and> \<not> lss (a ! i1) P \<and> (\<forall>k. i \<le> k \<and> k < i1 \<longrightarrow> lss (a ! k) P))
    (scan_up lt a P up i s)"
  using assms(2,5)
proof (induction "up - i" arbitrary: i rule: less_induct)
  case less
  show ?case
  proof (cases "lss (a ! i) P")
    case True
    then have i: "i \<noteq> up - 1" "i + 1 \<le> up - 1" using assms(1) less.prems by (auto simp: le_less ok_range_def)
    have "scan_up lt a P up i s = scan_up lt a P up (i + 1) s"
      using True i less.prems assms(3,4) by (subst scan_up.simps) (simp add: lt_eq aget_def ok_range_def)
    moreover have "rtot (\<lambda>(i1, s1). s1 = s \<and> i + 1 \<le> i1 \<and> i1 \<le> up - 1 \<and> \<not> lss (a ! i1) P \<and>
        (\<forall>k. i + 1 \<le> k \<and> k < i1 \<longrightarrow> lss (a ! k) P)) (scan_up lt a P up (i + 1) s)"
      using i less.prems by (intro less.hyps) (auto simp: ok_range_def)
    ultimately show ?thesis using True by (auto elim!: rtot_mono) (metis Suc_leI le_neq_implies_less)
  next
    case False
    then show ?thesis
      using less.prems assms(3,4) by (subst scan_up.simps) (auto simp: lt_eq aget_def ok_range_def)
  qed
qed

lemma scan_down_tot:
  assumes "lo < i" "\<And>k. lo \<le> k \<Longrightarrow> k < i \<Longrightarrow> \<not> lss P (a ! k)" "ok P" "lo \<le> j" "j < length a" "ok_range a lo j"
  shows "rtot (\<lambda>(j1, s1). s1 = s \<and> lo \<le> j1 \<and> j1 \<le> j \<and> \<not> lss P (a ! j1) \<and> (\<forall>k. j1 < k \<and> k \<le> j \<longrightarrow> lss P (a ! k)))
    (scan_down lt a P i j s)"
  using assms(4-)
proof (induction j)
  case 0
  then have "\<not> lss P (a ! 0)" using assms(1,2) by simp
  then show ?case using 0 assms(3) by (simp add: lt_eq aget_def ok_range_def)
next
  case (Suc j)
  show ?case
  proof (cases "lss P (a ! Suc j)")
    case True
    then have "\<not> Suc j < i" using assms(2) Suc.prems(1) by blast
    then have "scan_down lt a P i (Suc j) s = scan_down lt a P i j s" "lo \<le> j"
      using True Suc.prems assms(1,3) by (simp_all add: lt_eq aget_def ok_range_def)
    then show ?thesis
      using Suc.IH Suc.prems True by (auto elim!: rtot_mono simp: le_Suc_eq ok_range_def)
  qed (use Suc.prems assms(3) in \<open>auto simp: lt_eq aget_def ok_range_def\<close>)
qed

lemma part_loop_tot:
  assumes "lo \<le> i" "i < up - 1" "lo < j" "i \<le> j" "j \<le> up - 1" "up < length a" "a ! (up - 1) = P"
    and "ok_range a lo up"
    and "\<And>k. lo \<le> k \<Longrightarrow> k \<le> i \<Longrightarrow> \<not> lss P (a ! k)"
    and "\<And>k. j \<le> k \<Longrightarrow> k \<le> up \<Longrightarrow> \<not> lss (a ! k) P"
  shows "rtot (\<lambda>(a', pp, s'). s' = s \<and> split_at lss a' lo pp up) (part_loop lt a P up i j s)"
  using assms
proof (induction "length a - i" arbitrary: a i j s rule: less_induct)
  case less
  note pre = less.prems
  have okk: "ok (a ! k)" if "lo \<le> k" "k \<le> up" for k using pre(8) that by (simp add: ok_range_def)
  have okP: "ok P" using okk [of "up - 1"] pre(1,2,7) by auto
  let ?up = "rtot (\<lambda>(i1, s1). s1 = s \<and> i + 1 \<le> i1 \<and> i1 \<le> up - 1 \<and> \<not> lss (a ! i1) P \<and>
      (\<forall>k. i + 1 \<le> k \<and> k < i1 \<longrightarrow> lss (a ! k) P)) (scan_up lt a P up (i + 1) s)"
  have "?up" using pre(2,5,6) pre(10) [of "up - 1"] pre(1,7,8) okP by (intro scan_up_tot) (auto intro: ok_narrow)
  then obtain i1 where u: "scan_up lt a P up (i + 1) s = Inr (i1, s)"
    and i1: "i + 1 \<le> i1" "i1 \<le> up - 1" "\<not> lss (a ! i1) P" "\<And>k. i + 1 \<le> k \<Longrightarrow> k < i1 \<Longrightarrow> lss (a ! k) P"
    by (auto simp: rtot_iff)
  have low: "\<not> lss P (a ! k)" if "lo \<le> k" "k < i1" for k
    using that pre(9) [of k] i1 asym [OF okk okP] by (cases "k \<le> i") auto
  have "rtot (\<lambda>(j1, s1). s1 = s \<and> lo \<le> j1 \<and> j1 \<le> j - 1 \<and> \<not> lss P (a ! j1) \<and> (\<forall>k. j1 < k \<and> k \<le> j - 1 \<longrightarrow> lss P (a ! k)))
      (scan_down lt a P i1 (j - 1) s)"
    using pre i1 low okP by (intro scan_down_tot) (auto intro: ok_narrow)
  then obtain j1 where d: "scan_down lt a P i1 (j - 1) s = Inr (j1, s)"
    and j1: "lo \<le> j1" "j1 \<le> j - 1" "\<not> lss P (a ! j1)" "\<And>k. j1 < k \<Longrightarrow> k \<le> j - 1 \<Longrightarrow> lss P (a ! k)"
    by (auto simp: rtot_iff)
  have high: "\<not> lss (a ! k) P" if "j1 < k" "k \<le> up" for k
    using that pre(3,5) pre(10) [of k] j1 asym [OF okP okk] by (cases "j \<le> k") auto
  show ?case
  proof (cases "j1 < i1")
    case True
    then show ?thesis
      using u d i1 pre(3,5,6,7) low high unfolding part_loop.simps [of lt a P up i j s]
      by (auto simp: swapVals_def split_at_def nth_list_update)
  next
    case False
    define a1 where "a1 = a[i1 := a ! j1, j1 := a ! i1]"
    have nth: "a1 ! k = (if k = j1 then a ! i1 else if k = i1 then a ! j1 else a ! k)" if "k \<le> up" for k
      using that False i1 pre(6) by (simp add: a1_def nth_list_update)
    have len: "length a1 = length a" by (simp add: a1_def)
    have b: "i1 < up - 1" "j1 \<le> up - 2" using False j1(2) pre(3,5) by auto
    have "rtot (\<lambda>(a', pp, s'). s' = s \<and> split_at lss a' lo pp up) (part_loop lt a1 P up i1 j1 s)"
    proof (rule less.hyps)
      show "ok_range a1 lo up"
      proof (unfold ok_range_def, intro allI impI)
        fix k assume "lo \<le> k \<and> k \<le> up"
        then show "ok (a1 ! k)" using okk [of k] okk [of i1] okk [of j1] nth [of k] j1(1) i1 b pre(1) by auto
      qed
      show "\<not> lss P (a1 ! k)" if "lo \<le> k" "k \<le> i1" for k
        using that low j1(3) nth [of k] False b by (auto split: if_splits)
      show "\<not> lss (a1 ! k) P" if "j1 \<le> k" "k \<le> up" for k
        using that high i1(3) nth [of k] False by (auto split: if_splits)
    qed (use pre i1 False b len nth [of "up - 1"] in auto)
    moreover have "swapVals a i1 j1 = Inr a1" using False b pre(6) by (auto simp: swapVals_def a1_def)
    ultimately show ?thesis
      using u d False pre(3) unfolding part_loop.simps [of lt a P up i j s] by simp
  qed
qed

lemma join_sorted:
  assumes ok: "ok_range a lo up" and p: "lo \<le> pp" "pp \<le> up" and s: "split_at lss a lo pp up"
    and l: "sorted_range lss a lo (pp - 1)" and r: "sorted_range lss a (pp + 1) up"
  shows "sorted_range lss a lo up"
proof -
  have "\<not> lss (a ! j) (a ! i)" if ij: "lo \<le> i" "i < j" "j \<le> up" for i j
  proof -
    consider "j < pp" | "j = pp" | "i = pp" | "pp < i" | "i < pp" "pp < j" using ij by linarith
    then show ?thesis
    proof cases
      case 5
      then show ?thesis
        using s ok p ij neg_trans [of "a ! j" "a ! pp" "a ! i"] by (simp add: split_at_def ok_range_def)
    qed (use l r s ij in \<open>auto simp: sorted_range_def split_at_def\<close>)
  qed
  then show ?thesis by (simp add: sorted_range_def)
qed

lemma sort_ends_tot:
  assumes "ok_range a lo up" "lo < up" "up < length a"
  shows "rtot (\<lambda>(b, s'). s' = s \<and> \<not> lss (b ! up) (b ! lo)) (sort_ends lt a lo up s)"
  using assms asym [of "a ! up" "a ! lo"]
  by (auto simp: sort_ends_def lt_at_def aget_def lt_eq cond_swap_def swapVals_def ok_range_def)

lemma sort_middle_tot:
  assumes "ok_range a lo up" "lo < p" "p < up" "up < length a" "\<not> lss (a ! up) (a ! lo)"
  shows "rtot (\<lambda>(b, s'). s' = s \<and> \<not> lss (b ! p) (b ! lo) \<and> \<not> lss (b ! up) (b ! p)) (sort_middle lt a lo p up s)"
  using assms asym [of "a ! p" "a ! lo"] asym [of "a ! up" "a ! p"]
  by (auto simp: sort_middle_def lt_at_def aget_def lt_eq cond_swap_def swapVals_def ok_range_def)

lemma partition_tot:
  assumes "ok_range a lo up" "lo + 2 < up" "up < length a"
    "\<not> lss (a ! (up - 1)) (a ! lo)" "\<not> lss (a ! up) (a ! (up - 1))"
  shows "rtot (\<lambda>(b, pp, s'). s' = s \<and> lo < pp \<and> pp < up \<and> rearranged lo up a b \<and> split_at lss b lo pp up)
    (partition_vals lt a lo up s)"
proof -
  have okk: "ok (a ! k)" if "lo \<le> k" "k \<le> up" for k using assms(1) that by (simp add: ok_range_def)
  have irr: "\<not> lss (a ! (up - 1)) (a ! (up - 1))" using okk [of "up - 1"] asym [of "a ! (up - 1)" "a ! (up - 1)"] assms(2) by auto
  have "rtot (\<lambda>(a', pp, s'). s' = s \<and> split_at lss a' lo pp up)
      (part_loop lt a (a ! (up - 1)) up lo (up - 1) s)"
  proof (rule part_loop_tot)
    show "\<not> lss (a ! (up - 1)) (a ! k)" if "lo \<le> k" "k \<le> lo" for k using that assms(4) by simp
    show "\<not> lss (a ! k) (a ! (up - 1))" if "up - 1 \<le> k" "k \<le> up" for k
      using that irr assms(5) by (cases "k = up") (auto simp: le_less)
  qed (use assms in auto)
  moreover have "rok (\<lambda>(b, pp, s'). lo < pp \<and> pp < up \<and> rearranged lo up a b) (partition_vals lt a lo up s)"
    by (rule partition_rok [OF safe]) (use assms in auto)
  ultimately have "rtot (\<lambda>x. (case x of (b, pp, s') \<Rightarrow> s' = s \<and> split_at lss b lo pp up) \<and>
      (case x of (b, pp, s') \<Rightarrow> lo < pp \<and> pp < up \<and> rearranged lo up a b)) (partition_vals lt a lo up s)"
    using assms(2,3) by (intro rtot_conj) (simp_all add: partition_vals_def aget_def)
  then show ?thesis by (auto elim!: rtot_mono)
qed

lemma auxsort_both:
  fixes s :: 's
  assumes ok: "ok_range a lo up" and len: "up < length a" and p: "lo < pp" "pp < up" and sp: "split_at lss a lo pp up"
    and IH: "\<And>b l u (s :: 's). u - l < up - lo \<Longrightarrow> u < length b \<Longrightarrow> ok_range b l u \<Longrightarrow>
      rtot (\<lambda>(b', s'). s' = s \<and> sorted_range lss b' l u \<and> rearranged l u b b') (auxsort lt b l u s)"
    and sides: "l = lo \<and> u = pp - 1 \<and> l' = pp + 1 \<and> u' = up \<or> l = pp + 1 \<and> u = up \<and> l' = lo \<and> u' = pp - 1"
  shows "rtot (\<lambda>(a', s'). s' = s \<and> sorted_range lss a' lo up)
    (rbind (auxsort lt a l u s) (\<lambda>(b, s). auxsort lt b l' u' s))"
proof (rule rtot_bind2 [OF IH])
  show "u - l < up - lo" "u < length a" using sides p len by auto
  show "ok_range a l u" using ok sides p by (auto intro: ok_narrow)
  fix b assume b: "sorted_range lss b l u \<and> rearranged l u a b"
  have spb: "split_at lss b lo pp up" using split_at_rearranged [OF sp _ len] b sides p by auto
  have lenb: "length b = length a" using b rearranged_length by blast
  have rb: "rearranged lo up a b" using b rearranged_widen [of l u a b lo up] sides p len by auto
  have okb: "ok_range b lo up" using ok_rearranged [OF ok rb] .
  show "rtot (\<lambda>(a', s'). s' = s \<and> sorted_range lss a' lo up) (auxsort lt b l' u' s)"
  proof (rule rtot_mono [OF IH])
    show "u' - l' < up - lo" "u' < length b" using sides p len lenb by auto
    show "ok_range b l' u'" using okb sides p by (auto intro: ok_narrow)
    fix x :: "'v list \<times> 's" assume "case x of (c, s') \<Rightarrow> s' = s \<and> sorted_range lss c l' u' \<and> rearranged l' u' b c"
    then obtain c where x: "x = (c, s)" and c: "sorted_range lss c l' u'" "rearranged l' u' b c" by blast
    have "split_at lss c lo pp up" using split_at_rearranged [OF spb c(2)] sides p len lenb by auto
    moreover have "sorted_range lss c l u"
      using sorted_range_frame [OF _ c(2)] b sides p len lenb by auto
    moreover have "ok_range c lo up"
      using ok_rearranged [OF okb] rearranged_widen [OF c(2), of lo up] sides p len lenb by auto
    ultimately show "case x of (c, s') \<Rightarrow> s' = s \<and> sorted_range lss c lo up"
      using c(1) sides p x by (auto intro!: join_sorted [of c lo up pp])
  qed
qed

lemma sort_rest_tot:
  fixes s :: 's
  assumes ok: "ok_range a lo up" and len: "up < length a" and p: "lo < p" "p < up" "lo + 2 < up"
    and med: "\<not> lss (a ! p) (a ! lo)" "\<not> lss (a ! up) (a ! p)"
    and IH: "\<And>b l u (s :: 's). u - l < up - lo \<Longrightarrow> u < length b \<Longrightarrow> ok_range b l u \<Longrightarrow>
      rtot (\<lambda>(b', s'). s' = s \<and> sorted_range lss b' l u \<and> rearranged l u b b') (auxsort lt b l u s)"
  shows "rtot (\<lambda>(a', s'). s' = s \<and> sorted_range lss a' lo up) (sort_rest lt lo up a p s)"
proof -
  define c where "c = a[p := a ! (up - 1), up - 1 := a ! p]"
  have sw: "swapVals a p (up - 1) = Inr c" using p len by (simp add: swapVals_def c_def)
  have r: "rearranged lo up a c" unfolding c_def using p len by (intro rearranged_swap) auto
  note okc = ok_rearranged [OF ok r] and lc = rearranged_length [OF r]
  have "\<not> lss (c ! (up - 1)) (c ! lo)" "\<not> lss (c ! up) (c ! (up - 1))"
    using p med len by (auto simp: c_def nth_list_update)
  then have "rtot (\<lambda>(b, pp, s'). s' = s \<and> lo < pp \<and> pp < up \<and> rearranged lo up c b \<and> split_at lss b lo pp up)
      (partition_vals lt c lo up s)"
    using okc p len lc by (intro partition_tot) auto
  then show ?thesis
    unfolding sort_rest_def sw rbind_simps
  proof (rule rtot_bind3)
    fix b pp assume b: "lo < pp \<and> pp < up \<and> rearranged lo up c b \<and> split_at lss b lo pp up"
    then have b': "ok_range b lo up" "up < length b" "lo < pp" "pp < up" "split_at lss b lo pp up"
      using ok_rearranged [OF okc] rearranged_length [of lo up c b] lc len by auto
    show "rtot (\<lambda>(a', s'). s' = s \<and> sorted_range lss a' lo up)
        (if pp - lo < up - pp
         then rbind (auxsort lt b lo (pp - 1) s) (\<lambda>(a, s). auxsort lt a (pp + 1) up s)
         else rbind (auxsort lt b (pp + 1) up s) (\<lambda>(a, s). auxsort lt a lo (pp - 1) s))"
      by (auto intro!: auxsort_both [OF b' IH] simp del: rtot_simps(3))
  qed
qed

lemma auxsort_tot:
  fixes s :: 's
  assumes "ok_range a lo up" "up < length a"
  shows "rtot (\<lambda>(a', s'). s' = s \<and> sorted_range lss a' lo up \<and> rearranged lo up a a') (auxsort lt a lo up s)"
  using assms
proof (induction "up - lo" arbitrary: a lo up s rule: less_induct)
  case less
  let ?p = "(lo + up) div 2" and ?Q = "\<lambda>(a', s'). s' = s \<and> sorted_range lss a' lo up"
  have "rtot ?Q (auxsort lt a lo up s)"
  proof (cases "lo < up")
    case False
    then show ?thesis by (auto simp: auxsort.simps sorted_range_def)
  next
    case lu: True
    have ends: "rtot (\<lambda>(b, s'). s' = s \<and> \<not> lss (b ! up) (b ! lo) \<and> rearranged lo up a b) (sort_ends lt a lo up s)"
      using rtot_conj [OF sort_ends_tot sort_ends_rok [OF safe lu]] less.prems lu
      by (simp add: case_prod_unfold)
    have mid: "rtot (\<lambda>(c, s'). s' = s \<and> (\<not> lss (c ! ?p) (c ! lo) \<and> \<not> lss (c ! up) (c ! ?p)) \<and> rearranged lo up b c)
        (sort_middle lt b lo ?p up s)"
      if "ok_range b lo up" "up < length b" "\<not> lss (b ! up) (b ! lo)" "up - lo \<noteq> 1" for b
      using rtot_conj [OF sort_middle_tot [of b lo up ?p s] sort_middle_rok [OF safe, of lo ?p up b s]] that lu
      by (simp add: case_prod_unfold)
    have fin: "rtot ?Q (if up - lo = 2 then Inr (c, s) else sort_rest lt lo up c ?p s)"
      if c: "ok_range c lo up" "up < length c" "\<not> lss (c ! ?p) (c ! lo)" "\<not> lss (c ! up) (c ! ?p)" "up - lo \<noteq> 1" for c
    proof (cases "up - lo = 2")
      case True
      then have p: "?p = lo + 1" "up = lo + 2" by auto
      have "split_at lss c lo (lo + 1) up"
        using c(3,4) by (auto simp: split_at_def p le_Suc_eq less_Suc_eq)
      moreover have "sorted_range lss c lo lo" "sorted_range lss c (lo + 2) up" by (auto simp: sorted_range_def p(2))
      ultimately show ?thesis using c(1) p(2) join_sorted [of c lo up "lo + 1"] by simp
    next
      case False
      with c lu have "rtot ?Q (sort_rest lt lo up c ?p s)" by (intro sort_rest_tot less.hyps) auto
      with False show ?thesis by (simp only: if_False)
    qed
    have two: "sorted_range lss b lo up" if "up - lo = 1" "\<not> lss (b ! up) (b ! lo)" for b
    proof -
      have "up = Suc lo" using that(1) by simp
      then show ?thesis using that(2) by (auto simp: sorted_range_def le_Suc_eq less_Suc_eq)
    qed
    show ?thesis
      unfolding auxsort_iteration [OF lu]
    proof (rule rtot_bind2 [OF ends])
      fix b assume b: "\<not> lss (b ! up) (b ! lo) \<and> rearranged lo up a b"
      note okb = ok_rearranged [OF less.prems(1) conjunct2 [OF b]] and lb = rearranged_length [OF conjunct2 [OF b]]
      have "rtot ?Q (rbind (sort_middle lt b lo ?p up s) (\<lambda>(c, s).
          if up - lo = 2 then Inr (c, s) else sort_rest lt lo up c ?p s))" if "up - lo \<noteq> 1"
        using that okb lb b less.prems
        by (intro rtot_bind2 [OF mid] fin) (auto dest: ok_rearranged rearranged_length)
      then show "rtot ?Q (if up - lo = 1 then Inr (b, s) else rbind (sort_middle lt b lo ?p up s) (\<lambda>(c, s).
          if up - lo = 2 then Inr (c, s) else sort_rest lt lo up c ?p s))"
        using two b by (cases "up - lo = 1") auto
    qed
  qed
  from rtot_conj [OF this auxsort_rok [OF safe less.prems(2)]] show ?case by (simp add: case_prod_unfold)
qed

end

subsection \<open>The order of values\<close>

text \<open>Go's \<open><\<close> on strings: bytewise lexicographic.\<close>

fun str_less :: "bytes \<Rightarrow> bytes \<Rightarrow> bool" where
  "str_less [] ys = (ys \<noteq> [])"
| "str_less (x # xs) [] = False"
| "str_less (x # xs) (y # ys) = (x < y \<or> x = y \<and> str_less xs ys)"

datatype order_event = tmLt | tmLe

text \<open>
  The comparisons of lvm.go. \<open>callbin\<close> stands for \<open>callbinTM\<close>, which runs the Lua code of a metamethod
  (\<open>None\<close>: neither operand has one); \<open>tn\<close> is \<open>objTypeName\<close>.
\<close>

definition orderError :: "(Value \<Rightarrow> string) \<Rightarrow> Value \<Rightarrow> Value \<Rightarrow> go_error" where
  "orderError tn p1 p2 =
     (if tn p1 = tn p2 then LuaError (''attempt to compare two '' @ tn p1 @ '' values'')
      else LuaError (''attempt to compare '' @ tn p1 @ '' with '' @ tn p2))"

definition callorderTM where
  "callorderTM callbin tn p1 p2 event s =
     rbind (callbin p1 p2 event s) (\<lambda>(r, s1).
       case r of Some v \<Rightarrow> Inr (\<not> IsFalsy v, s1)
       | None \<Rightarrow>
           if event = tmLe then
             rbind (callbin p2 p1 tmLt s1) (\<lambda>(r2, s2).
               case r2 of Some v \<Rightarrow> Inr (IsFalsy v, s2) | None \<Rightarrow> Inl (orderError tn p1 p2))
           else Inl (orderError tn p1 p2))"

definition lessthan where
  "lessthan callbin tn a b s =
     (if IsNumber a \<and> IsNumber b then Inr (numLT a b, s)
      else case (a, b) of (VString x, VString y) \<Rightarrow> Inr (str_less x y, s)
      | _ \<Rightarrow> callorderTM callbin tn a b tmLt s)"

definition lessequal where
  "lessequal callbin tn a b s =
     (if IsNumber a \<and> IsNumber b then Inr (numLE a b, s)
      else case (a, b) of (VString x, VString y) \<Rightarrow> Inr (x = y \<or> str_less x y, s)
      | _ \<Rightarrow> callorderTM callbin tn a b tmLe s)"

text \<open>
  The state \<open>t\<close> is everything Lua code can change, the table included; \<open>call\<close> is \<open>callNoYield\<close> and
  \<open>sz\<close> the result of \<open>lenOf\<close>.
\<close>

definition sort_lt where
  "sort_lt callbin call tn cf x y t =
     (case cf of None \<Rightarrow> lessthan callbin tn x y t
      | Some f \<Rightarrow> rbind (call f [x, y] t) (\<lambda>(res, t1). Inr (case res of [] \<Rightarrow> False | r # _ \<Rightarrow> \<not> IsFalsy r, t1)))"

lemma sort_lt_None: "sort_lt callbin call tn None = lessthan callbin tn"
  by (simp add: sort_lt_def fun_eq_iff)

definition tblSort where
  "tblSort callbin call tn geti seti sz args t =
     (if sint (sz :: i64) \<le> 1 then Inr t
      else if sint sz \<ge> 0x7FFFFFFF then Inl (ArgError 1 ''array too big'')
      else
        let cf = (case args of [] \<Rightarrow> None | f # _ \<Rightarrow> if IsNil f then None else Some f); n = nat (sint sz) in
        if (case cf of None \<Rightarrow> False | Some f \<Rightarrow> tag f \<noteq> tagFunction) then
          Inl (ArgError 2 (''function expected, got '' @ tn (the cf)))
        else (case read_loop geti (map (\<lambda>i. of_nat (Suc i)) [0..<n]) t of (vs, t1) \<Rightarrow>
          rbind (auxsort (sort_lt callbin call tn cf) (VNil # vs) 1 n t1) (\<lambda>(a, t2).
            write_loop seti (map (\<lambda>i. (of_nat (Suc i), a ! Suc i)) [0..<n]) t2)))"

subsection \<open>Sorting\<close>

lemma str_less_asym: "str_less x y \<Longrightarrow> \<not> str_less y x"
proof (induction x y rule: str_less.induct)
  case (1 ys)
  then show ?case by (cases ys) auto
qed auto

lemma str_less_neg_trans: "\<not> str_less x y \<Longrightarrow> \<not> str_less y z \<Longrightarrow> \<not> str_less x z"
proof (induction x y arbitrary: z rule: str_less.induct)
  case (2 x xs)
  then show ?case by (cases z) auto
next
  case (3 x xs y ys)
  then show ?case by (cases z) auto
qed auto

definition num_ok :: "Value \<Rightarrow> bool" where "num_ok v = (IsNumber v \<and> \<not> num_nan v)"

text \<open>The order of two numbers or two strings.\<close>

fun val_less :: "Value \<Rightarrow> Value \<Rightarrow> bool" where
  "val_less (VString x) (VString y) = str_less x y"
| "val_less a b = numLT a b"

lemma val_less_scaled: "num_ok a \<Longrightarrow> num_ok b \<Longrightarrow> val_less a b \<longleftrightarrow> num_scaled a < num_scaled b"
  unfolding num_ok_def by clarify (erule IsNumberE; erule IsNumberE; simp add: compare_exact not_le)

lemma lessthan_num: "num_ok a \<Longrightarrow> num_ok b \<Longrightarrow> lessthan callbin tn a b s = Inr (val_less a b, s)"
  unfolding num_ok_def lessthan_def by clarify (erule IsNumberE; erule IsNumberE; simp)

lemma num_weak_order:
  assumes "cmp_safe (lessthan callbin tn)"
  shows "weak_order num_ok val_less (lessthan callbin tn)"
  using assms by unfold_locales (simp_all add: lessthan_num val_less_scaled)

lemma tagStringE:
  assumes "tag v = tagString"
  obtains x where "v = VString x"
  using assms by (cases v) auto

lemma str_weak_order:
  assumes "cmp_safe (lessthan callbin tn)"
  shows "weak_order IsString val_less (lessthan callbin tn)"
  using assms
  by unfold_locales
    (auto simp: lessthan_def elim!: tagStringE dest: str_less_asym str_less_neg_trans)

text \<open>A state in which no operand has an order metamethod.\<close>

definition no_tm :: "Value \<Rightarrow> Value \<Rightarrow> order_event \<Rightarrow> 's \<Rightarrow> (Value option \<times> 's) res" where
  "no_tm p1 p2 event s = Inr (None, s)"

lemma cmp_safe_no_tm: "cmp_safe (lessthan no_tm tn)"
  by (auto simp: cmp_safe_def lessthan_def callorderTM_def no_tm_def orderError_def split: Value.splits)

interpretation num_order: weak_order num_ok val_less "lessthan no_tm tn" for tn
  by (rule num_weak_order [OF cmp_safe_no_tm])

interpretation str_order: weak_order IsString val_less "lessthan no_tm tn" for tn
  by (rule str_weak_order [OF cmp_safe_no_tm])

text \<open>
  C7: whatever the comparison function answers, also when it contradicts itself, sorting an array of \<open>n\<close>
  values never leaves the array (no Go panic), ends, and a sort that returns has only permuted them.
\<close>

theorem sort_any_order:
  assumes "cmp_safe lt" "length a = Suc n"
  shows "auxsort lt a 1 n s \<noteq> Inl GoPanic \<and>
    (\<forall>a' s'. auxsort lt a 1 n s = Inr (a', s') \<longrightarrow> mset a' = mset a \<and> a' ! 0 = a ! 0)"
  using auxsort_rok [OF assms(1), of n a 1 s] assms(2)
  by (cases "auxsort lt a 1 n s") (auto simp: rearranged_def)

theorem sort_any_order_witness:
  "case auxsort (\<lambda>x y s. Inr (True, s)) [0, 3, 1, 2 :: nat] 1 3 () of Inl e \<Rightarrow> e \<noteq> GoPanic
   | Inr (a', s') \<Rightarrow> mset a' = {# 0, 1, 2, 3 #} \<and> a' ! 0 = 0"
  using sort_any_order [of "\<lambda>x y s. Inr (True, s)" "[0, 3, 1, 2 :: nat]" 3 "()"]
  by (auto simp: cmp_safe_def ac_simps split: sum.splits)

lemma auxsort_sorts:
  assumes "cmp_safe (lessthan callbin tn)" "list_all num_ok vs \<or> list_all IsString vs"
  shows "rtot (\<lambda>(a, s'). s' = s \<and> sorted_range val_less a 1 (length vs) \<and> rearranged 1 (length vs) (v0 # vs) a)
    (auxsort (lessthan callbin tn) (v0 # vs) 1 (length vs) s)"
proof -
  have all: "list_all P vs \<Longrightarrow> \<forall>k. 1 \<le> k \<and> k \<le> length vs \<longrightarrow> P ((v0 # vs) ! k)" for P
    by (auto simp: list_all_length nth_Cons split: nat.splits)
  show ?thesis
    using assms(2)
  proof
    assume "list_all num_ok vs"
    note w = num_weak_order [OF assms(1)]
    from weak_order.auxsort_tot [OF w] weak_order.ok_range_def [OF w] all [OF \<open>list_all num_ok vs\<close>]
    show ?thesis by simp
  next
    assume "list_all IsString vs"
    note w = str_weak_order [OF assms(1)]
    from weak_order.auxsort_tot [OF w] weak_order.ok_range_def [OF w] all [OF \<open>list_all IsString vs\<close>]
    show ?thesis by simp
  qed
qed

lemma sorted_range_tl:
  assumes "sorted_range lss (v # vs) 1 (length vs)"
  shows "sorted_wrt (\<lambda>x y. \<not> lss y x) vs"
  unfolding sorted_wrt_iff_nth_less
proof (intro allI impI)
  fix i j assume "i < j" "j < length vs"
  then show "\<not> lss (vs ! j) (vs ! i)"
    using assms [unfolded sorted_range_def, rule_format, of "Suc i" "Suc j"] by simp
qed

lemma positions_distinct: "n < 2 ^ 63 \<Longrightarrow> distinct (map (\<lambda>i. of_nat (Suc i) :: i64) [0..<n])"
  by (auto simp: distinct_map inj_on_def of_nat_i64_inject simp del: of_nat_Suc)

text \<open>
  C6: \<open>table.sort\<close> without a comparison function, on a table whose \<open>n\<close> elements are numbers other than
  NaN, or are strings, ends without error; the elements are then in ascending order and a permutation
  of the old ones, and no other position of the table has changed.
\<close>

theorem sort_sorts:
  assumes "built t" "\<not> weakv t" "n < 0x7FFFFFFF" "cmp_safe (lessthan callbin tn)"
    and "list_all num_ok (elems (rget alive) n t) \<or> list_all IsString (elems (rget alive) n t)"
  shows "\<exists>t'. tblSort callbin call tn (rget alive) (rset alive) (of_nat n) [] t = Inr t' \<and>
    mset (elems (rget alive) n t') = mset (elems (rget alive) n t) \<and>
    sorted_wrt (\<lambda>x y. \<not> val_less y x) (elems (rget alive) n t') \<and>
    (\<forall>j. \<not> (1 \<le> sint j \<and> sint j \<le> int n) \<longrightarrow> fst (rawget alive (VInt j) t') = fst (rawget alive (VInt j) t))"
proof (cases "n \<le> 1")
  case True
  have n: "sint (of_nat n :: i64) = int n" using assms(3) by (intro sint_of_nat_i64) simp
  from True have "tblSort callbin call tn (rget alive) (rset alive) (of_nat n) [] t = Inr t"
    by (simp add: tblSort_def n)
  with True show ?thesis by (auto simp: sorted_wrt_iff_nth_less)
next
  case False
  define posn where "posn = map (\<lambda>i. of_nat (Suc i) :: i64) [0..<n]"
  obtain vs t1 where rd: "read_loop (rget alive) posn t = (vs, t1)" by (cases "read_loop (rget alive) posn t")
  have "plain t" using assms(1,2) built_ok by (simp add: plain_def)
  from raw.read_loop_get [OF this, of alive posn, unfolded rd fst_conv snd_conv] have t1: "plain t1" "vs = elems (rget alive) n t"
    "\<And>j. fst (rawget alive (VInt j) t1) = fst (rawget alive (VInt j) t)" "list_all strong vs"
    by (auto simp: posn_def elems_def comp_def)
  then have lvs: "length vs = n" by simp
  obtain b where b: "auxsort (lessthan callbin tn) (VNil # vs) 1 n t1 = Inr (VNil # b, t1)"
    and so: "sorted_wrt (\<lambda>x y. \<not> val_less y x) b" "mset b = mset vs"
  proof -
    have "rtot (\<lambda>(a, s'). s' = t1 \<and> sorted_range val_less a 1 n \<and> rearranged 1 n (VNil # vs) a)
        (auxsort (lessthan callbin tn) (VNil # vs) 1 n t1)"
      using auxsort_sorts [OF assms(4), of vs t1 VNil] assms(5) t1(2) by simp
    then obtain a where a: "auxsort (lessthan callbin tn) (VNil # vs) 1 n t1 = Inr (a, t1)"
      "sorted_range val_less a 1 n" "length a = Suc n" "mset a = mset (VNil # vs)" "a ! 0 = VNil"
      using lvs by (auto simp: rtot_iff rearranged_def)
    then obtain b where "a = VNil # b" by (cases a) auto
    with a show thesis using that [of b] sorted_range_tl [of val_less VNil b] by auto
  qed
  have lb: "length b = n" using so(2) lvs by (metis size_mset)
  define ps where "ps = map (\<lambda>i. (of_nat (Suc i) :: i64, b ! i)) [0..<n]"
  have fst_ps: "map fst ps = posn" and st: "list_all (\<lambda>(i, v). strong v) ps"
    using so(2) t1(4) lb by (auto simp: ps_def posn_def list_all_iff dest!: mset_eq_setD)
  have dist: "distinct (map fst ps)" using positions_distinct [of n] assms(3) by (simp add: fst_ps posn_def)
  from raw.write_loop_get [OF t1(1) this st, of alive] obtain t' where t': "write_loop (rset alive) ps t1 = Inr t'"
    "\<And>j. fst (rawget alive (VInt j) t') = (case map_of ps j of None \<Rightarrow> fst (rawget alive (VInt j) t1) | Some v \<Rightarrow> v)"
    by blast
  have "tblSort callbin call tn (rget alive) (rset alive) (of_nat n) [] t = Inr t'"
    using False assms(3) rd b t'(1) unfolding tblSort_def posn_def ps_def
    by (simp add: sint_of_nat_i64 sort_lt_None del: of_nat_Suc)
  moreover have "elems (rget alive) n t' = b"
  proof (intro nth_equalityI)
    fix i assume "i < length (elems (rget alive) n t')"
    then have "map_of ps (of_nat (Suc i)) = Some (b ! i)"
      using dist by (intro map_of_is_SomeI) (auto simp: ps_def simp del: of_nat_Suc)
    with \<open>i < _\<close> show "elems (rget alive) n t' ! i = b ! i" by (simp add: t'(2) del: of_nat_Suc)
  qed (simp add: lb)
  moreover have "fst (rawget alive (VInt j) t') = fst (rawget alive (VInt j) t)" if "\<not> (1 \<le> sint j \<and> sint j \<le> int n)" for j
  proof -
    have "j \<notin> set posn" using that assms(3) by (auto simp: posn_def sint_of_nat_i64 simp del: of_nat_Suc)
    then have "map_of ps j = None" using fst_ps by (metis list.set_map map_of_eq_None_iff)
    then show ?thesis by (simp add: t'(2) t1(3))
  qed
  ultimately show ?thesis using so t1(2) by auto
qed

lemma sort_example:
  fixes t defines "t \<equiv> rawsetInt 2 (VInt 1) (rawsetInt 1 (VInt 2) newTable)"
  shows "built t" "\<not> weakv t" "elems (rget alive) 2 t = [VInt 2, VInt 1]"
  unfolding t_def
proof -
  show "built (rawsetInt 2 (VInt 1) (rawsetInt 1 (VInt 2) newTable))"
    by (intro built_setInt built_new) (simp_all add: strong_def)
  show "\<not> weakv (rawsetInt 2 (VInt 1) (rawsetInt 1 (VInt 2) newTable))" by (simp add: newTable_def)
  show "elems (rget alive) 2 (rawsetInt 2 (VInt 1) (rawsetInt 1 (VInt 2) newTable)) = [VInt 2, VInt 1]"
    by (simp add: elems_def fst_rawget tget_int lookup_rawsetInt wrapVal_def numeral_2_eq_2 upt_rec)
qed

theorem sort_sorts_witness:
  "\<exists>t'. tblSort no_tm (\<lambda>f vs s. Inr ([], s)) typeName (rget (\<lambda>_. True)) (rset (\<lambda>_. True)) (of_nat 2) []
      (rawsetInt 2 (VInt 1) (rawsetInt 1 (VInt 2) newTable)) = Inr t' \<and>
    mset (elems (rget (\<lambda>_. True)) 2 t') = {# VInt 1, VInt 2 #} \<and>
    sorted_wrt (\<lambda>x y. \<not> val_less y x) (elems (rget (\<lambda>_. True)) 2 t')"
  using sort_sorts [OF sort_example(1,2) _ cmp_safe_no_tm, of 2 "\<lambda>_. True" "\<lambda>f vs s. Inr ([], s)" typeName]
  by (auto simp: sort_example(3) num_ok_def add_mset_commute)

end
