(* ===== verification/Codec.thy ===== *)
theory Codec
  imports Values
begin

text \<open>
  Reading and writing of byte streams (ldump.go). A reader consumes bytes from the front of its input
  and gives a value and the rest of the input. The reader and the writer of ldump.go carry a sticky
  error: after the first error every operation is a no-op and only the error is returned. So a reader is
  modelled as a function into a sum, whose first error wins, and a writer as the bytes it appends, or
  its error. The underlying \<open>io.Writer\<close> is a memory buffer, whose \<open>Write\<close> does not fail, and the
  \<open>io.Reader\<close> a memory reader (lstrlib.go, loadlib.go), which is at its end once all bytes are read.
\<close>

datatype chunk_error = errBadBinaryChunk | errTruncated

type_synonym 'a reader = "bytes \<Rightarrow> chunk_error + ('a \<times> bytes)"
type_synonym written = "chunk_error + bytes"

definition rd_ret :: "'a \<Rightarrow> 'a reader" where
  "rd_ret x bs = Inr (x, bs)"

definition rd_fail :: "chunk_error \<Rightarrow> 'a reader" where
  "rd_fail e bs = Inl e"

definition rd_bind :: "'a reader \<Rightarrow> ('a \<Rightarrow> 'b reader) \<Rightarrow> 'b reader" where
  "rd_bind r f bs = (case r bs of Inl e \<Rightarrow> Inl e | Inr (x, rest) \<Rightarrow> f x rest)"

text \<open>Reading \<open>n\<close> items in a row (the \<open>for i := range\<close> loops).\<close>

primrec rd_many :: "nat \<Rightarrow> 'a reader \<Rightarrow> 'a list reader" where
  "rd_many 0 r = rd_ret []"
| "rd_many (Suc n) r = rd_bind r (\<lambda>x. rd_bind (rd_many n r) (\<lambda>xs. rd_ret (x # xs)))"

definition wcat :: "written \<Rightarrow> written \<Rightarrow> written" where
  "wcat a b = (case a of Inl e \<Rightarrow> Inl e | Inr x \<Rightarrow> (case b of Inl e \<Rightarrow> Inl e | Inr y \<Rightarrow> Inr (x @ y)))"

primrec wconcat :: "written list \<Rightarrow> written" where
  "wconcat [] = Inr []"
| "wconcat (a # as) = wcat a (wconcat as)"

lemma rd_bind_Inr: "rd_bind r f bs = Inr z \<longleftrightarrow> (\<exists>x rest. r bs = Inr (x, rest) \<and> f x rest = Inr z)"
  by (auto simp: rd_bind_def split: sum.splits prod.splits)

lemma rd_simps [simp]:
  "rd_ret x bs = Inr (x, bs)" "rd_fail e bs = Inl e"
  by (simp_all add: rd_ret_def rd_fail_def)

text \<open>What was written is read back: the bytes are consumed exactly, whatever follows them.\<close>

definition reads_back :: "written \<Rightarrow> 'a reader \<Rightarrow> 'a \<Rightarrow> bool" where
  "reads_back w r x = (\<exists>bs. w = Inr bs \<and> (\<forall>rest. r (bs @ rest) = Inr (x, rest)))"

named_theorems codec \<open>rules that read back what was written\<close>

lemma reads_back_ret [codec]: "reads_back (Inr []) (rd_ret x) x"
  by (simp add: reads_back_def)

lemma reads_back_bind [codec]:
  "reads_back w r x \<Longrightarrow> reads_back w' (f x) y \<Longrightarrow> reads_back (wcat w w') (rd_bind r f) y"
  by (auto simp: reads_back_def rd_bind_def wcat_def)

lemma reads_back_map: "reads_back w r x \<Longrightarrow> reads_back w (rd_bind r (\<lambda>x. rd_ret (f x))) (f x)"
  by (auto simp: reads_back_def rd_bind_def)

lemma reads_back_unique: "reads_back w r x \<Longrightarrow> reads_back w r y \<Longrightarrow> x = y"
  by (auto simp: reads_back_def)

lemma reads_back_written: "reads_back w r x \<Longrightarrow> \<exists>bs. w = Inr bs \<and> r bs = Inr (x, [])"
  by (auto simp: reads_back_def dest: spec [of _ "[]"])

lemma reads_back_bytes: "reads_back (Inr bs) r x \<longleftrightarrow> (\<forall>rest. r (bs @ rest) = Inr (x, rest))"
  by (simp add: reads_back_def)

text \<open>
  The interface of a value format: a writer, a reader, and the values for which the writer's bytes
  are read back.
\<close>

locale codec_format =
  fixes enc :: "'a \<Rightarrow> written" and dec :: "'a reader" and valid :: "'a \<Rightarrow> bool"
  assumes round: "valid x \<Longrightarrow> reads_back (enc x) dec x"
begin

lemma many: "list_all valid xs \<Longrightarrow> reads_back (wconcat (map enc xs)) (rd_many (length xs) dec) xs"
proof (induction xs)
  case (Cons x xs)
  then have "reads_back (enc x) dec x" "reads_back (wconcat (map enc xs)) (rd_many (length xs) dec) xs"
    using round by auto
  then show ?case by (auto simp: reads_back_def rd_bind_def wcat_def)
qed (simp add: reads_back_ret)

lemma enc_inject: "valid x \<Longrightarrow> valid y \<Longrightarrow> enc x = enc y \<Longrightarrow> x = y"
  using round [of x] round [of y] reads_back_unique by metis

end

subsection \<open>Fixed-size integers\<close>

text \<open>\<open>binary.LittleEndian\<close>.\<close>

primrec put_le :: "nat \<Rightarrow> 'a :: len word \<Rightarrow> bytes" where
  "put_le 0 x = []"
| "put_le (Suc k) x = ucast x # put_le k (drop_bit 8 x)"

primrec get_le :: "bytes \<Rightarrow> 'a :: len word" where
  "get_le [] = 0"
| "get_le (b # bs) = ucast b OR push_bit 8 (get_le bs)"

lemma length_put_le [simp]: "length (put_le k x) = k"
  by (induction k arbitrary: x) simp_all

lemma get_put_le: "get_le (put_le k x) = take_bit (8 * k) (x :: 'a :: len word)"
proof (induction k arbitrary: x)
  case (Suc k)
  show ?case
    by (rule bit_word_eqI) (auto simp: Suc bit_simps)
qed simp

definition rd_bytes :: "nat \<Rightarrow> bytes reader" where
  "rd_bytes n bs = (if n \<le> length bs then Inr (take n bs, drop n bs) else Inl errTruncated)"

lemma reads_back_raw: "reads_back (Inr bs) (rd_bytes (length bs)) bs"
  by (simp add: reads_back_def rd_bytes_def)

end
