(* ===== verification/Dump.thy ===== *)
theory Dump
  imports Codec Opcodes
begin

text \<open>
  Precompiled chunks: the function prototype (lobject_proto.go) and its binary form (ldump.go). Go's
  \<open>int\<close> fields of a prototype are line numbers and instruction counts, far from overflow, and are \<open>int\<close>s.
\<close>

subsection \<open>Prototypes\<close>

record UpvalDesc =
  uv_Name :: bytes
  uv_InStack :: bool
  uv_Index :: byte
  uv_Kind :: byte

record LocVar =
  lv_Name :: bytes
  lv_StartPc :: int
  lv_EndPc :: int

datatype Proto = Proto
  (NumParams: byte) (IsVararg: bool) (MaxStackSize: byte)
  (Code: "Instruction list") (Constants: "Value list") (Protos: "Proto list") (Upvalues: "UpvalDesc list")
  (Source: bytes) (LineDefined: int) (LastLineDef: int) (LineInfo: "32 word list") (LocVars: "LocVar list")

definition LineAt :: "Proto \<Rightarrow> int \<Rightarrow> int" where
  "LineAt p pc =
     (if LineInfo p = [] then -1
      else if pc < 0 \<or> pc \<ge> int (length (LineInfo p)) then 0
      else sint (LineInfo p ! nat pc))"

fun AddConstant :: "Value \<Rightarrow> Proto \<Rightarrow> int \<times> Proto" where
  "AddConstant v (Proto np va ms code ks ps ups src ld lld li lv) =
     (int (length (ks @ [v])) - 1, Proto np va ms code (ks @ [v]) ps ups src ld lld li lv)"

subsection \<open>Constants of the format\<close>

definition luaSignature :: bytes where "luaSignature = 0x1b # lit ''Lua''"
definition luacVersion :: byte where "luacVersion = 0x54"
definition luacFormat :: byte where "luacFormat = 0"
definition luacData :: bytes where "luacData = [0x19, 0x93, 0x0d, 0x0a, 0x1a, 0x0a]"
definition luacInt :: i64 where "luacInt = 0x5678"
definition luacNum :: f64 where "luacNum = 0x4077280000000000"
definition dumpMaxItems :: nat where "dumpMaxItems = 2 ^ 26"
definition dumpMaxDepth :: nat where "dumpMaxDepth = 200"
definition maxShortLen :: nat where "maxShortLen = 40"
definition maxInt32 :: int where "maxInt32 = 2 ^ 31 - 1"

subsection \<open>Sizes\<close>

text \<open>The groups of 7 bits, most significant first; \<open>b\<close> holds the groups already produced.\<close>

function size_groups :: "i64 \<Rightarrow> bytes \<Rightarrow> bytes" where
  "size_groups x b =
     (let b' = (ucast x AND 0x7f) # b; x' = drop_bit 7 x in if x' = 0 then b' else size_groups x' b')"
  by pat_completeness auto
termination
  by (relation "measure (\<lambda>(x, b). unat x)")
    (auto simp: drop_bit_eq_div unat_div simp flip: unat_eq_0)

declare size_groups.simps [simp del]

definition dump_size :: "i64 \<Rightarrow> bytes" where
  "dump_size x = (let b = size_groups x [] in butlast b @ [last b OR 0x80])"

fun load_size_loop :: "i64 \<Rightarrow> i64 reader" where
  "load_size_loop x [] = Inl errTruncated"
| "load_size_loop x (b # bs) =
     (if uint x \<ge> 2 ^ 57 - 1 then Inl errBadBinaryChunk
      else let x' = push_bit 7 x OR ucast (b AND 0x7f) in
        if b AND 0x80 \<noteq> 0 then Inr (x', bs) else load_size_loop x' bs)"

definition load_size :: "i64 reader" where "load_size = load_size_loop 0"

text \<open>The groups in front of the last one, and the last one.\<close>

lemma size_groups_append: "size_groups x (b @ c) = size_groups x b @ c"
proof (induction x b rule: size_groups.induct)
  case (1 x b)
  show ?case
    using 1 by (subst (1 2) size_groups.simps) (simp add: Let_def)
qed

lemma size_groups_step:
  "size_groups x [] = (if drop_bit 7 x = 0 then [] else size_groups (drop_bit 7 x) []) @ [ucast x AND 0x7f]"
  using size_groups_append [of "drop_bit 7 x" "[]" "[ucast x AND 0x7f]"]
  by (subst size_groups.simps) (simp add: Let_def)

lemma dump_size_eq:
  "dump_size x = (if drop_bit 7 x = 0 then [] else size_groups (drop_bit 7 x) []) @ [(ucast x AND 0x7f) OR 0x80]"
  by (subst dump_size_def, subst size_groups_step) (simp add: butlast_append)

lemma group_bits:
  "bit (0x7f :: byte) n \<longleftrightarrow> n < 7" "bit (0x80 :: byte) n \<longleftrightarrow> n = 7"
  using bit_mask_iff [of 7 n, where 'a = byte] bit_exp_iff [of 7 n, where 'a = byte]
  by (auto simp: mask_eq_exp_minus_1 possible_bit_word)

lemma uint_drop7: "uint (drop_bit 7 x :: i64) = uint x div 128"
  by (simp add: drop_bit_eq_div uint_div)

lemma low_group_bits:
  fixes x :: i64
  shows "push_bit 7 (drop_bit 7 x) OR ucast (((ucast x :: byte) AND 0x7f) AND 0x7f) = x"
    "((ucast x AND 0x7f) AND 0x80 :: byte) = 0"
    "push_bit 7 (drop_bit 7 x) OR ucast ((((ucast x :: byte) AND 0x7f) OR 0x80) AND 0x7f) = x"
    "(((ucast x AND 0x7f) OR 0x80) AND 0x80 :: byte) \<noteq> 0"
proof -
  note bits = bit_and_iff bit_or_iff bit_push_bit_iff bit_drop_bit_eq bit_unsigned_iff possible_bit_word group_bits
  show "push_bit 7 (drop_bit 7 x) OR ucast (((ucast x :: byte) AND 0x7f) AND 0x7f) = x"
    by (rule bit_word_eqI, simp only: bits, rename_tac n, case_tac "n < 7", auto)
  show "((ucast x AND 0x7f) AND 0x80 :: byte) = 0"
    by (rule bit_word_eqI, simp only: bits, rename_tac n, case_tac "n < 7", auto)
  show "push_bit 7 (drop_bit 7 x) OR ucast ((((ucast x :: byte) AND 0x7f) OR 0x80) AND 0x7f) = x"
    by (rule bit_word_eqI, simp only: bits, rename_tac n, case_tac "n < 7", auto)
  have "bit (((ucast x AND 0x7f) OR 0x80) AND 0x80 :: byte) 7" by (simp add: bits)
  then show "(((ucast x AND 0x7f) OR 0x80) AND 0x80 :: byte) \<noteq> 0" by (metis bit_0_eq bot_apply bot_bool_def)
qed

lemma load_size_groups:
  "uint (drop_bit 7 x) < 2 ^ 57 - 1 \<Longrightarrow> load_size_loop 0 (size_groups x [] @ bs) = load_size_loop x bs"
proof (induction "unat x" arbitrary: x bs rule: less_induct)
  case less
  let ?y = "drop_bit 7 x" and ?g = "ucast x AND 0x7f :: byte"
  show ?case
  proof (cases "?y = 0")
    case True
    then show ?thesis
      using low_group_bits(1,2) [of x] by (subst size_groups_step) simp
  next
    case False
    have "uint ?y < uint x" 
    proof -
      have "uint x \<noteq> 0" using False by (metis uint_0_iff drop_bit_of_0)
      then have "0 < uint x" using uint_ge_0 [of x] by linarith
      then show ?thesis using uint_drop7 [of x] int_div_less_self [of "uint x" 128] by simp
    qed
    then have "unat ?y < unat x" by (metis word_less_def word_less_nat_alt)
    moreover have "uint (drop_bit 7 ?y) < 2 ^ 57 - 1" 
      using less.prems uint_drop7 [of ?y] uint_ge_0 [of ?y] by linarith
    ultimately have "load_size_loop 0 (size_groups ?y [] @ ?g # bs) = load_size_loop ?y (?g # bs)"
      by (rule less.hyps)
    with False low_group_bits(1,2) [of x] less.prems show ?thesis by (subst size_groups_step) simp
  qed
qed

lemma load_dump_size:
  assumes "uint x < 2 ^ 64 - 128"
  shows "reads_back (Inr (dump_size x)) load_size x"
proof -
  have d: "uint (drop_bit 7 x) < 2 ^ 57 - 1"
    using assms by (simp add: uint_drop7)
  let ?g = "(ucast x AND 0x7f) OR 0x80 :: byte"
  have last: "load_size_loop (drop_bit 7 x) (?g # rest) = Inr (x, rest)" for rest
    using d low_group_bits(3,4) [of x] by simp
  have "load_size_loop 0 (dump_size x @ rest) = Inr (x, rest)" for rest
  proof (cases "drop_bit 7 x = 0")
    case True
    then show ?thesis using last [of rest] by (simp add: dump_size_eq)
  next
    case False
    have "uint (drop_bit 7 (drop_bit 7 x)) < 2 ^ 57 - 1"
      using d uint_drop7 [of "drop_bit 7 x"] uint_ge_0 [of "drop_bit 7 x"] by linarith
    then show ?thesis
      using load_size_groups [of "drop_bit 7 x" "?g # rest"] last [of rest] False by (simp add: dump_size_eq)
  qed
  then show ?thesis by (simp add: reads_back_bytes load_size_def)
qed

text \<open>The 10 bytes of the writer's array are enough.\<close>

lemma size_groups_length: "uint x < 2 ^ (7 * Suc k) \<Longrightarrow> length (size_groups x []) \<le> Suc k"
proof (induction k arbitrary: x)
  case 0
  then have "uint (drop_bit 7 x) = 0" by (simp add: uint_drop7)
  then have "drop_bit 7 x = 0" by (metis uint_0_iff)
  then show ?case by (subst size_groups_step) simp
next
  case (Suc k)
  have "uint (drop_bit 7 x) < 2 ^ (7 * Suc k)"
    using Suc.prems by (simp add: uint_drop7 power_add div_less_iff_less_mult mult.commute)
  from Suc.IH [OF this] show ?case by (subst size_groups_step) simp
qed

text \<open>
  a size is written in at most 10 bytes, and reading consumes exactly those bytes and gives the same
  size, for every size below $2^{64} - 128$.
\<close>

lemma size_roundtrip:
  assumes "uint x < 2 ^ 64 - 128"
  shows "length (dump_size x) \<le> 10 \<and> load_size (dump_size x @ rest) = Inr (x, rest)"
proof -
  have "length (size_groups x []) \<le> Suc 9" using assms by (intro size_groups_length) simp
  moreover have "length (dump_size x) = length (size_groups x [])"
    by (simp add: dump_size_eq size_groups_step [of x])
  ultimately show ?thesis using load_dump_size [OF assms] by (simp add: reads_back_bytes)
qed

lemma size_roundtrip_witness: "length (dump_size 300) \<le> 10 \<and> load_size (dump_size 300 @ [7]) = Inr (300, [7])"
  using size_roundtrip [of 300 "[7]"] by simp

subsection \<open>Writing\<close>

definition dump_u8 :: "byte \<Rightarrow> written" where "dump_u8 b = Inr [b]"
definition dump_u32 :: "32 word \<Rightarrow> written" where "dump_u32 v = Inr (put_le 4 v)"
definition dump_u64 :: "i64 \<Rightarrow> written" where "dump_u64 v = Inr (put_le 8 v)"
definition dump_vInt :: "int \<Rightarrow> written" where "dump_vInt v = Inr (dump_size (word_of_int v))"

definition dump_str :: "bytes \<Rightarrow> written" where
  "dump_str s = wcat (Inr (dump_size (of_nat (length s) + 1))) (Inr s)"

definition dump_nullStr :: written where "dump_nullStr = Inr (dump_size 0)"

definition dump_bool :: "bool \<Rightarrow> written" where "dump_bool b = dump_u8 (if b then 1 else 0)"

fun dump_constant :: "Value \<Rightarrow> written" where
  "dump_constant VNil = dump_u8 0x00"
| "dump_constant VTrue = dump_u8 0x11"
| "dump_constant VFalse = dump_u8 0x01"
| "dump_constant (VInt i) = wcat (dump_u8 0x03) (dump_u64 i)"
| "dump_constant (VFloat f) = wcat (dump_u8 0x13) (dump_u64 f)"
| "dump_constant (VString s) = wcat (dump_u8 (if length s \<le> maxShortLen then 0x04 else 0x14)) (dump_str s)"
| "dump_constant _ = Inl errBadBinaryChunk"

text \<open>The loop of \<open>compressLines\<close>: the bytes of \<open>lineinfo\<close> and the absolute entries.\<close>

fun compress_loop :: "int \<Rightarrow> int \<Rightarrow> nat \<Rightarrow> 32 word list \<Rightarrow> bytes \<times> (int \<times> int) list" where
  "compress_loop pc previousline iwthabs [] = ([], [])"
| "compress_loop pc previousline iwthabs (l # ls) =
     (let line = sint l; linedif = line - previousline;
          big = (linedif \<ge> 0x80 \<or> linedif \<le> - 0x80);
          takeAbs = (big \<or> iwthabs \<ge> 128);
          iw = (if takeAbs then 1 else iwthabs + 1);
          rest = compress_loop (pc + 1) line iw ls
      in if takeAbs then (0x80 # fst rest, (pc, line) # snd rest)
         else (word_of_int linedif # fst rest, snd rest))"

definition compressLines :: "32 word list \<Rightarrow> int \<Rightarrow> bytes \<times> (int \<times> int) list" where
  "compressLines lines lineDefined = compress_loop 0 lineDefined 0 lines"

definition dump_list :: "('a \<Rightarrow> written) \<Rightarrow> 'a list \<Rightarrow> written" where
  "dump_list f xs = wcat (dump_vInt (int (length xs))) (wconcat (map f xs))"

definition dump_abs :: "int \<times> int \<Rightarrow> written" where
  "dump_abs a = wcat (dump_vInt (fst a)) (dump_vInt (snd a))"

definition dump_locvar :: "LocVar \<Rightarrow> written" where
  "dump_locvar l = wcat (dump_str (lv_Name l)) (wcat (dump_vInt (lv_StartPc l)) (dump_vInt (lv_EndPc l)))"

definition dump_debug :: "Proto \<Rightarrow> bool \<Rightarrow> written" where
  "dump_debug p strip =
     (if strip then wcat (dump_vInt 0) (wcat (dump_vInt 0) (wcat (dump_vInt 0) (dump_vInt 0)))
      else let li = compressLines (LineInfo p) (LineDefined p) in
        wcat (dump_list dump_u8 (fst li))
        (wcat (dump_list dump_abs (snd li))
        (wcat (dump_list dump_locvar (LocVars p))
        (dump_list (\<lambda>uv. dump_str (uv_Name uv)) (Upvalues p)))))"

definition dump_upval :: "UpvalDesc \<Rightarrow> written" where
  "dump_upval uv = wcat (dump_bool (uv_InStack uv)) (wcat (dump_u8 (uv_Index uv)) (dump_u8 (uv_Kind uv)))"

fun dump_function :: "bool \<Rightarrow> bytes \<Rightarrow> Proto \<Rightarrow> written" where
  "dump_function strip parentSource (Proto np va ms code ks ps ups src ld lld li lv) =
     wcat (if strip \<or> src = parentSource then dump_nullStr else dump_str src)
     (wcat (dump_vInt ld) (wcat (dump_vInt lld) (wcat (dump_u8 np) (wcat (dump_bool va) (wcat (dump_u8 ms)
     (wcat (dump_list dump_u32 code)
     (wcat (dump_list dump_constant ks)
     (wcat (dump_list dump_upval ups)
     (wcat (dump_vInt (int (length ps))) (wcat (wconcat (map (dump_function strip src) ps))
     (dump_debug (Proto np va ms code ks ps ups src ld lld li lv) strip)))))))))))"

definition dump_header :: written where
  "dump_header =
     wcat (Inr luaSignature) (wcat (dump_u8 luacVersion) (wcat (dump_u8 luacFormat) (wcat (Inr luacData)
     (wcat (dump_u8 4) (wcat (dump_u8 8) (wcat (dump_u8 8) (wcat (dump_u64 luacInt) (dump_u64 luacNum))))))))"

definition dumpProto :: "Proto \<Rightarrow> bool \<Rightarrow> written" where
  "dumpProto p strip =
     wcat dump_header (wcat (dump_u8 (of_nat (length (Upvalues p)))) (dump_function strip [] p))"

definition isBinaryChunk :: "bytes \<Rightarrow> bool" where
  "isBinaryChunk b = (length b \<ge> 1 \<and> b ! 0 = luaSignature ! 0)"

subsection \<open>Reading\<close>

definition load_u8 :: "byte reader" where
  "load_u8 = rd_bind (rd_bytes 1) (\<lambda>b. rd_ret (b ! 0))"

definition load_u32 :: "32 word reader" where
  "load_u32 = rd_bind (rd_bytes 4) (\<lambda>b. rd_ret (get_le b))"

definition load_u64 :: "i64 reader" where
  "load_u64 = rd_bind (rd_bytes 8) (\<lambda>b. rd_ret (get_le b))"

definition load_count :: "nat reader" where
  "load_count = rd_bind load_size (\<lambda>n. if unat n > dumpMaxItems then rd_fail errBadBinaryChunk else rd_ret (unat n))"

definition load_vInt :: "int reader" where
  "load_vInt = rd_bind load_size (\<lambda>n. if uint n > maxInt32 then rd_fail errBadBinaryChunk else rd_ret (uint n))"

text \<open>The string and whether it is the NULL string.\<close>

definition load_strN :: "(bytes \<times> bool) reader" where
  "load_strN = rd_bind load_size (\<lambda>size.
     if size = 0 then rd_ret ([], True)
     else let n = size - 1 in
       if n = 0 then rd_ret ([], False)
       else if unat n > dumpMaxItems then rd_fail errBadBinaryChunk
       else rd_bind (rd_bytes (unat n)) (\<lambda>b. rd_ret (b, False)))"

definition load_str :: "bytes reader" where
  "load_str = rd_bind load_strN (\<lambda>(s, isNull). rd_ret s)"

definition load_bool :: "bool reader" where
  "load_bool = rd_bind load_u8 (\<lambda>b. rd_ret (b \<noteq> 0))"

definition load_constant :: "Value reader" where
  "load_constant = rd_bind load_u8 (\<lambda>t.
     if t = 0x00 then rd_ret VNil
     else if t = 0x01 then rd_ret VFalse
     else if t = 0x11 then rd_ret VTrue
     else if t = 0x13 then rd_bind load_u64 (\<lambda>f. rd_ret (VFloat f))
     else if t = 0x03 then rd_bind load_u64 (\<lambda>i. rd_ret (VInt i))
     else if t = 0x04 \<or> t = 0x14 then rd_bind load_str (\<lambda>s. rd_ret (VString s))
     else rd_fail errBadBinaryChunk)"

fun decompress_loop :: "int \<Rightarrow> int \<Rightarrow> bytes \<Rightarrow> (int \<times> int) list \<Rightarrow> 32 word list option" where
  "decompress_loop pc previousline [] ab = (if ab = [] then Some [] else None)"
| "decompress_loop pc previousline (b # bs) ab =
     (if sint b = - 0x80 then
        (case ab of [] \<Rightarrow> None
         | (apc, aline) # ab' \<Rightarrow>
             if apc \<noteq> pc then None
             else map_option ((#) (word_of_int aline)) (decompress_loop (pc + 1) aline bs ab'))
      else let line = previousline + sint b in
        map_option ((#) (word_of_int line)) (decompress_loop (pc + 1) line bs ab))"

definition decompressLines :: "bytes \<Rightarrow> (int \<times> int) list \<Rightarrow> int \<Rightarrow> 32 word list option" where
  "decompressLines lineinfo ab lineDefined = decompress_loop 0 lineDefined lineinfo ab"

definition load_list :: "'a reader \<Rightarrow> 'a list reader" where
  "load_list r = rd_bind load_count (\<lambda>n. rd_many n r)"

definition load_abs :: "(int \<times> int) reader" where
  "load_abs = rd_bind load_vInt (\<lambda>pc. rd_bind load_vInt (\<lambda>line. rd_ret (pc, line)))"

definition load_locvar :: "LocVar reader" where
  "load_locvar = rd_bind load_str (\<lambda>nm. rd_bind load_vInt (\<lambda>st. rd_bind load_vInt (\<lambda>en.
     rd_ret \<lparr> lv_Name = nm, lv_StartPc = st, lv_EndPc = en \<rparr>)))"

definition load_upval :: "UpvalDesc reader" where
  "load_upval = rd_bind load_bool (\<lambda>ins. rd_bind load_u8 (\<lambda>idx. rd_bind load_u8 (\<lambda>kind.
     rd_ret \<lparr> uv_Name = [], uv_InStack = ins, uv_Index = idx, uv_Kind = kind \<rparr>)))"

text \<open>The names of the upvalues: none, or one for each.\<close>

definition load_upnames :: "UpvalDesc list \<Rightarrow> UpvalDesc list reader" where
  "load_upnames ups = rd_bind load_count (\<lambda>nup.
     if nup = 0 then rd_ret ups
     else if nup \<noteq> length ups then rd_fail errBadBinaryChunk
     else rd_bind (rd_many nup load_str) (\<lambda>names. rd_ret (map2 (\<lambda>uv nm. uv\<lparr>uv_Name := nm\<rparr>) ups names)))"

text \<open>\<open>debug\<close>: the line table, the local variables and the named upvalues of a prototype.\<close>

definition load_debug :: "int \<Rightarrow> UpvalDesc list \<Rightarrow> (32 word list \<times> LocVar list \<times> UpvalDesc list) reader" where
  "load_debug lineDefined ups =
     rd_bind (load_list load_u8) (\<lambda>lineinfo.
     rd_bind (load_list load_abs) (\<lambda>ab.
     rd_bind (load_list load_locvar) (\<lambda>lv.
     rd_bind (load_upnames ups) (\<lambda>ups'.
       if lineinfo = [] then rd_ret ([], lv, ups')
       else (case decompressLines lineinfo ab lineDefined of
           None \<Rightarrow> rd_fail errBadBinaryChunk
         | Some li \<Rightarrow> rd_ret (li, lv, ups'))))))"

definition validateProto :: "Proto \<Rightarrow> bool" where
  "validateProto p = list_all (\<lambda>c.
     \<not> (GetOpCode c < 0 \<or> GetOpCode c \<ge> NumOpCodes) \<and>
     (GetOpCode c = OP_CLOSURE \<longrightarrow> \<not> (GetArgBx c < 0 \<or> GetArgBx c \<ge> int (length (Protos p))))) (Code p)"

text \<open>The first argument is the number of levels left before \<open>dumpMaxDepth\<close> is exceeded.\<close>

primrec load_function :: "nat \<Rightarrow> bytes \<Rightarrow> Proto reader" where
  "load_function 0 parentSource = rd_fail errBadBinaryChunk"
| "load_function (Suc levels) parentSource =
     rd_bind load_strN (\<lambda>(s, isNull).
     let src = (if isNull then parentSource else s) in
     rd_bind load_vInt (\<lambda>ld. rd_bind load_vInt (\<lambda>lld.
     rd_bind load_u8 (\<lambda>np. rd_bind load_bool (\<lambda>va. rd_bind load_u8 (\<lambda>ms.
     rd_bind (load_list load_u32) (\<lambda>code.
     rd_bind (load_list load_constant) (\<lambda>ks.
     rd_bind (load_list load_upval) (\<lambda>ups.
     rd_bind load_count (\<lambda>n. rd_bind (rd_many n (load_function levels src)) (\<lambda>ps.
     rd_bind (load_debug ld ups) (\<lambda>(li, lv, ups').
       let p = Proto np va ms code ks ps ups' (if src = [] then lit ''=?'' else src) ld lld li lv in
       if validateProto p then rd_ret p else rd_fail errBadBinaryChunk))))))))))))"

definition rd_expect :: "'a reader \<Rightarrow> 'a \<Rightarrow> unit reader" where
  "rd_expect r x = rd_bind r (\<lambda>y. if y = x then rd_ret () else rd_fail errBadBinaryChunk)"

definition checkHeader :: "unit reader" where
  "checkHeader =
     rd_bind (rd_expect (rd_bytes 4) luaSignature) (\<lambda>_.
     rd_bind (rd_expect load_u8 luacVersion) (\<lambda>_.
     rd_bind (rd_expect load_u8 luacFormat) (\<lambda>_.
     rd_bind (rd_expect (rd_bytes 6) luacData) (\<lambda>_.
     rd_bind (rd_expect load_u8 4) (\<lambda>_. rd_bind (rd_expect load_u8 8) (\<lambda>_. rd_bind (rd_expect load_u8 8) (\<lambda>_.
     rd_bind (rd_expect load_u64 luacInt) (\<lambda>_.
     rd_bind load_u64 (\<lambda>f. if f64_eq f luacNum then rd_ret () else rd_fail errBadBinaryChunk)))))))))"

definition undump :: "Proto reader" where
  "undump =
     rd_bind checkHeader (\<lambda>_. rd_bind load_u8 (\<lambda>nups. rd_bind (load_function dumpMaxDepth []) (\<lambda>p.
       if unat nups = length (Upvalues p) then rd_ret p else rd_fail errBadBinaryChunk)))"

subsection \<open>Reading back what was written\<close>

lemma load_u8 [codec]: "reads_back (dump_u8 b) load_u8 b"
  by (simp add: reads_back_def dump_u8_def load_u8_def rd_bind_def rd_bytes_def)

lemma load_u32 [codec]: "reads_back (dump_u32 v) load_u32 v"
  by (simp add: reads_back_def dump_u32_def load_u32_def rd_bind_def rd_bytes_def get_put_le take_bit_word_eq_self)

lemma load_u64 [codec]: "reads_back (dump_u64 v) load_u64 v"
  by (simp add: reads_back_def dump_u64_def load_u64_def rd_bind_def rd_bytes_def get_put_le take_bit_word_eq_self)

interpretation u8: codec_format dump_u8 load_u8 "\<lambda>_. True"
  by unfold_locales (rule load_u8)

interpretation u32: codec_format dump_u32 load_u32 "\<lambda>_. True"
  by unfold_locales (rule load_u32)

interpretation u64: codec_format dump_u64 load_u64 "\<lambda>_. True"
  by unfold_locales (rule load_u64)

lemma load_bool [codec]: "reads_back (dump_bool b) load_bool b"
  using reads_back_map [OF load_u8, of "if b then 1 else 0" "\<lambda>b. b \<noteq> 0"]
  by (simp add: dump_bool_def load_bool_def split: if_splits)

definition vint_ok :: "int \<Rightarrow> bool" where "vint_ok v = (0 \<le> v \<and> v \<le> maxInt32)"

lemma reads_back_size:
  assumes "0 \<le> v" "v < 2 ^ 63"
  shows "reads_back (Inr (dump_size (word_of_int v))) load_size (word_of_int v)" "uint (word_of_int v :: i64) = v"
proof -
  show u: "uint (word_of_int v :: i64) = v" using assms by (intro uint_of_int_id) auto
  then show "reads_back (Inr (dump_size (word_of_int v))) load_size (word_of_int v)"
    using assms by (intro load_dump_size) simp
qed

lemma reads_back_guard:
  assumes "reads_back w r x" "f x = rd_ret y"
  shows "reads_back w (rd_bind r f) y"
  using assms by (auto simp: reads_back_def rd_bind_def)

lemma load_vInt [codec]: "vint_ok v \<Longrightarrow> reads_back (dump_vInt v) load_vInt v"
  using reads_back_size [of v] unfolding dump_vInt_def load_vInt_def
  by (intro reads_back_guard) (auto simp: vint_ok_def maxInt32_def)

interpretation vint: codec_format dump_vInt load_vInt vint_ok
  by unfold_locales (rule load_vInt)

lemma load_count [codec]:
  assumes "n \<le> dumpMaxItems"
  shows "reads_back (dump_vInt (int n)) load_count n"
proof -
  have u: "uint (word_of_int (int n) :: i64) = int n"
    using assms by (intro uint_of_int_id) (auto simp: dumpMaxItems_def)
  show ?thesis
    unfolding dump_vInt_def load_count_def
  proof (rule reads_back_guard)
    show "reads_back (Inr (dump_size (word_of_int (int n)))) load_size (word_of_int (int n))"
      using assms by (intro reads_back_size) (auto simp: dumpMaxItems_def)
    show "(if unat (word_of_int (int n) :: i64) > dumpMaxItems then rd_fail errBadBinaryChunk
        else rd_ret (unat (word_of_int (int n) :: i64))) = rd_ret n"
      using u assms by (simp add: unat_eq_nat_uint)
  qed
qed

context codec_format
begin

lemma listed:
  assumes "list_all valid xs" "length xs \<le> dumpMaxItems"
  shows "reads_back (dump_list enc xs) (load_list dec) xs"
  unfolding dump_list_def load_list_def
  by (rule reads_back_bind, rule load_count [OF assms(2)], rule many [OF assms(1)])

end

definition str_ok :: "bytes \<Rightarrow> bool" where "str_ok s = (length s \<le> dumpMaxItems)"

lemma load_strN [codec]:
  assumes "str_ok s"
  shows "reads_back (dump_str s) load_strN (s, False)"
proof -
  let ?n = "of_nat (length s) :: i64"
  have l: "length s \<le> 2 ^ 26" using assms by (simp add: str_ok_def dumpMaxItems_def)
  have u: "unat ?n = length s" using l by (simp add: unat_of_nat)
  have sz: "?n + 1 = word_of_int (int (Suc (length s)))" by simp
  have nz: "?n + 1 \<noteq> 0" using l reads_back_size(2) [of "int (Suc (length s))"] unfolding sz by auto
  have rest: "reads_back (Inr s) (if ?n + 1 = 0 then rd_ret ([], True) else let n = ?n + 1 - 1 in
      if n = 0 then rd_ret ([], False) else if unat n > dumpMaxItems then rd_fail errBadBinaryChunk
      else rd_bind (rd_bytes (unat n)) (\<lambda>b. rd_ret (b, False))) (s, False)"
  proof (cases "s = []")
    case False
    then have "?n \<noteq> 0" using u by auto
    moreover have "reads_back (Inr s) (rd_bind (rd_bytes (unat ?n)) (\<lambda>b. rd_ret (b, False))) (s, False)"
      unfolding u by (rule reads_back_map [OF reads_back_raw])
    ultimately show ?thesis using u nz assms by (simp add: str_ok_def)
  qed (simp add: reads_back_ret)
  show ?thesis
    unfolding dump_str_def load_strN_def
  proof (rule reads_back_bind)
    show "reads_back (Inr (dump_size (?n + 1))) load_size (?n + 1)"
      unfolding sz using l by (intro reads_back_size) auto
  qed (rule rest)
qed

lemma load_nullStr: "reads_back dump_nullStr load_strN ([], True)"
  using reads_back_size [of 0] unfolding dump_nullStr_def load_strN_def
  by (intro reads_back_guard) auto

lemma load_str [codec]: "str_ok s \<Longrightarrow> reads_back (dump_str s) load_str s"
  unfolding load_str_def using reads_back_guard [OF load_strN, of s "\<lambda>(s, isNull). rd_ret s"] by simp

interpretation str: codec_format dump_str load_str str_ok
  by unfold_locales (rule load_str)

fun const_ok :: "Value \<Rightarrow> bool" where
  "const_ok (VString s) = str_ok s"
| "const_ok v = (v \<in> {VNil, VTrue, VFalse} \<or> IsNumber v)"

lemma load_constant [codec]:
  assumes "const_ok v"
  shows "reads_back (dump_constant v) load_constant v"
proof -
  have simple: "reads_back (dump_u8 b) load_constant v" if
    "(if b = 0x00 then rd_ret VNil else if b = 0x01 then rd_ret VFalse else if b = 0x11 then rd_ret VTrue
      else rd_fail errBadBinaryChunk) = rd_ret v" "b = 0 \<or> b = 1 \<or> b = 0x11" for b v
    unfolding load_constant_def using that by (intro reads_back_guard [OF load_u8]) auto
  show ?thesis
    using assms
  proof (cases v)
    case (VString s)
    then show ?thesis
      using assms load_str [of s] unfolding VString dump_constant.simps load_constant_def
      by (intro reads_back_bind [OF load_u8]) (auto intro: reads_back_map)
  next
    case (VInt i)
    show ?thesis
      unfolding VInt dump_constant.simps load_constant_def
      by (intro reads_back_bind [OF load_u8]) (simp add: reads_back_map [OF load_u64])
  next
    case (VFloat f)
    show ?thesis
      unfolding VFloat dump_constant.simps load_constant_def
      by (intro reads_back_bind [OF load_u8]) (simp add: reads_back_map [OF load_u64])
  qed (auto intro!: simple)
qed

interpretation const: codec_format dump_constant load_constant const_ok
  by unfold_locales (rule load_constant)

lemma load_abs:
  assumes "vint_ok (fst a)" "vint_ok (snd a)"
  shows "reads_back (dump_abs a) load_abs a"
  unfolding dump_abs_def load_abs_def
  apply (rule reads_back_bind, rule load_vInt [OF assms(1)])
  using reads_back_map [OF load_vInt [OF assms(2)], of "Pair (fst a)"] by simp

interpretation abs_entry: codec_format dump_abs load_abs "\<lambda>a. vint_ok (fst a) \<and> vint_ok (snd a)"
  by unfold_locales (simp add: load_abs)

definition locvar_ok :: "LocVar \<Rightarrow> bool" where
  "locvar_ok l = (str_ok (lv_Name l) \<and> vint_ok (lv_StartPc l) \<and> vint_ok (lv_EndPc l))"

interpretation locvar: codec_format dump_locvar load_locvar locvar_ok
proof
  fix l assume "locvar_ok l"
  then have ok: "str_ok (lv_Name l)" "vint_ok (lv_StartPc l)" "vint_ok (lv_EndPc l)" by (simp_all add: locvar_ok_def)
  show "reads_back (dump_locvar l) load_locvar l"
    unfolding dump_locvar_def load_locvar_def
    apply (rule reads_back_bind, rule load_str [OF ok(1)], rule reads_back_bind, rule load_vInt [OF ok(2)])
    using reads_back_map [OF load_vInt [OF ok(3)], of "\<lambda>en. \<lparr> lv_Name = lv_Name l, lv_StartPc = lv_StartPc l, lv_EndPc = en \<rparr>"]
    by (cases l) simp
qed

definition unnamed :: "UpvalDesc \<Rightarrow> UpvalDesc" where
  "unnamed uv = \<lparr> uv_Name = [], uv_InStack = uv_InStack uv, uv_Index = uv_Index uv, uv_Kind = uv_Kind uv \<rparr>"

lemma load_upval: "reads_back (dump_upval uv) load_upval (unnamed uv)"
  unfolding dump_upval_def load_upval_def unnamed_def
  apply (rule reads_back_bind, rule load_bool, rule reads_back_bind, rule load_u8)
  using reads_back_map [OF load_u8 [of "uv_Kind uv"], of "\<lambda>k. \<lparr> uv_Name = [], uv_InStack = uv_InStack uv, uv_Index = uv_Index uv, uv_Kind = k \<rparr>"]
  by simp

interpretation upval: codec_format dump_upval load_upval "\<lambda>uv. uv_Name uv = []"
proof
  fix uv :: UpvalDesc assume "uv_Name uv = []"
  then have "unnamed uv = uv" by (cases uv) (simp add: unnamed_def)
  then show "reads_back (dump_upval uv) load_upval uv" using load_upval [of uv] by simp
qed

lemma dump_upval_unnamed [simp]: "dump_upval (unnamed uv) = dump_upval uv"
  by (simp add: dump_upval_def unnamed_def)

lemma load_upvals:
  assumes "length ups \<le> dumpMaxItems"
  shows "reads_back (dump_list dump_upval ups) (load_list load_upval) (map unnamed ups)"
proof -
  have "list_all (\<lambda>uv. uv_Name uv = []) (map unnamed ups)" by (simp add: list_all_iff unnamed_def)
  then show ?thesis using upval.listed [of "map unnamed ups"] assms by (simp add: dump_list_def comp_def)
qed

subsection \<open>Line information\<close>

lemma sint_byte: "- 128 \<le> i \<Longrightarrow> i < 128 \<Longrightarrow> sint (word_of_int i :: byte) = i"
  by (simp add: sint_sbintrunc' signed_take_bit_int_eq_self)

lemma decompress_compress:
  "decompress_loop pc prev (fst (compress_loop pc prev iw ls)) (snd (compress_loop pc prev iw ls)) = Some ls"
proof (induction ls arbitrary: pc prev iw)
  case (Cons l ls)
  show ?case
  proof (cases "sint l - prev \<ge> 0x80 \<or> sint l - prev \<le> - 0x80 \<or> iw \<ge> 128")
    case True
    then show ?thesis using Cons by (simp add: Let_def)
  next
    case False
    then have "sint (word_of_int (sint l - prev) :: byte) = sint l - prev" by (intro sint_byte) auto
    then show ?thesis using Cons False by (simp add: Let_def del: of_int_diff)
  qed
qed simp

text \<open>
  The line table of a function survives compression: decompressing the byte deltas and the absolute
  entries of \<open>compressLines\<close> gives every line back, also across jumps of 128 lines or more in either
  direction and over runs longer than 128 instructions.
\<close>

lemma lineinfo_roundtrip:
  "decompressLines (fst (compressLines lines ld)) (snd (compressLines lines ld)) ld = Some lines"
  by (simp add: decompressLines_def compressLines_def decompress_compress)

subsection \<open>Whole prototypes\<close>

text \<open>The prototypes the format can carry.\<close>

definition upval_ok :: "UpvalDesc \<Rightarrow> bool" where "upval_ok uv = str_ok (uv_Name uv)"

fun proto_ok :: "Proto \<Rightarrow> bool" where
  "proto_ok (Proto np va ms code ks ps ups src ld lld li lv) =
     (src \<noteq> [] \<and> str_ok src \<and> vint_ok ld \<and> vint_ok lld \<and> length code \<le> dumpMaxItems \<and>
      length ks \<le> dumpMaxItems \<and> list_all const_ok ks \<and> length ups \<le> dumpMaxItems \<and> list_all upval_ok ups \<and>
      length ps \<le> dumpMaxItems \<and> list_all proto_ok ps \<and> length li \<le> dumpMaxItems \<and> list_all (\<lambda>l. 0 \<le> sint l) li \<and>
      length lv \<le> dumpMaxItems \<and> list_all locvar_ok lv \<and>
      validateProto (Proto np va ms code ks ps ups src ld lld li lv))"

fun depth :: "Proto \<Rightarrow> nat" where
  "depth (Proto np va ms code ks ps ups src ld lld li lv) = Suc (foldr max (map depth ps) 0)"

fun strip_proto :: "Proto \<Rightarrow> Proto" where
  "strip_proto (Proto np va ms code ks ps ups src ld lld li lv) =
     Proto np va ms code ks (map strip_proto ps) (map unnamed ups) (lit ''=?'') ld lld [] []"

definition reloaded :: "bool \<Rightarrow> Proto \<Rightarrow> Proto" where
  "reloaded strip p = (if strip then strip_proto p else p)"

lemma foldr_max_le: "foldr max (map f xs) 0 \<le> (n :: nat) \<longleftrightarrow> list_all (\<lambda>x. f x \<le> n) xs"
  by (induction xs) auto

lemma compress_loop_bounds:
  assumes "0 \<le> pc" "pc + int (length ls) \<le> maxInt32" "list_all (\<lambda>l. 0 \<le> sint l) ls"
  shows "length (fst (compress_loop pc prev iw ls)) = length ls \<and>
    length (snd (compress_loop pc prev iw ls)) \<le> length ls \<and>
    list_all (\<lambda>a. vint_ok (fst a) \<and> vint_ok (snd a)) (snd (compress_loop pc prev iw ls))"
  using assms
proof (induction ls arbitrary: pc prev iw)
  case (Cons l ls)
  have "sint l \<le> maxInt32" using sint_range_size [of l] by (simp add: word_size maxInt32_def)
  with Cons.prems Cons.IH [of "pc + 1"] show ?case by (auto simp: Let_def vint_ok_def intro: le_SucI)
qed simp

lemma load_upnames:
  assumes "length ups \<le> dumpMaxItems" "list_all upval_ok ups"
  shows "reads_back (dump_list (\<lambda>uv. dump_str (uv_Name uv)) ups) (load_upnames (map unnamed ups)) ups"
proof -
  have names: "reads_back (wconcat (map (\<lambda>uv. dump_str (uv_Name uv)) ups))
      (rd_many (length ups) load_str) (map uv_Name ups)"
    using str.many [of "map uv_Name ups"] assms(2) by (simp add: comp_def list_all_iff upval_ok_def)
  have ups: "map2 (\<lambda>uv nm. uv\<lparr>uv_Name := nm\<rparr>) (map unnamed ups) (map uv_Name ups) = ups"
    by (induction ups) (simp_all add: unnamed_def)
  show ?thesis
    unfolding dump_list_def load_upnames_def
  proof (rule reads_back_bind, rule load_count [OF assms(1)])
    show "reads_back (wconcat (map (\<lambda>uv. dump_str (uv_Name uv)) ups))
       (if length ups = 0 then rd_ret (map unnamed ups)
        else if length ups \<noteq> length (map unnamed ups) then rd_fail errBadBinaryChunk
        else rd_bind (rd_many (length ups) load_str)
          (\<lambda>names. rd_ret (map2 (\<lambda>uv nm. uv\<lparr>uv_Name := nm\<rparr>) (map unnamed ups) names))) ups"
      using reads_back_map [OF names, of "map2 (\<lambda>uv nm. uv\<lparr>uv_Name := nm\<rparr>) (map unnamed ups)"] ups
      by (cases "ups = []") (auto simp: reads_back_ret)
  qed
qed

lemma load_upnames_none: "reads_back (dump_vInt 0) (load_upnames ups) ups"
  unfolding load_upnames_def using load_count [of 0] by (intro reads_back_guard) auto

lemma load_list_none: "reads_back (dump_vInt 0) (load_list r) []"
  unfolding load_list_def using load_count [of 0] by (intro reads_back_guard) auto

lemma load_debug:
  assumes "proto_ok p"
  shows "reads_back (dump_debug p strip) (load_debug (LineDefined p) (map unnamed (Upvalues p)))
    (LineInfo (reloaded strip p), LocVars (reloaded strip p), Upvalues (reloaded strip p))"
proof (cases strip)
  case True
  then have "(LineInfo (reloaded strip p), LocVars (reloaded strip p), Upvalues (reloaded strip p)) =
      ([], [], map unnamed (Upvalues p))" by (cases p) (simp add: reloaded_def)
  with True show ?thesis
    unfolding dump_debug_def load_debug_def
    by simp ((rule reads_back_bind, rule load_list_none)+, rule reads_back_guard [OF load_upnames_none], simp)
next
  case False
  obtain li ab where c: "compressLines (LineInfo p) (LineDefined p) = (li, ab)" by fastforce
  have ok: "length (LineInfo p) \<le> dumpMaxItems" "list_all (\<lambda>l. 0 \<le> sint l) (LineInfo p)"
    "length (LocVars p) \<le> dumpMaxItems" "list_all locvar_ok (LocVars p)"
    "length (Upvalues p) \<le> dumpMaxItems" "list_all upval_ok (Upvalues p)"
    using assms by (cases p; simp)+
  have ok': "length li = length (LineInfo p)" "length ab \<le> dumpMaxItems" "list_all (\<lambda>a. vint_ok (fst a) \<and> vint_ok (snd a)) ab"
    using compress_loop_bounds [of 0 "LineInfo p" "LineDefined p" 0] c ok
    by (auto simp: compressLines_def maxInt32_def dumpMaxItems_def)
  have len: "length li \<le> dumpMaxItems" "list_all (\<lambda>_. True) li" using ok' ok by (auto simp: list_all_iff)
  have "decompressLines li ab (LineDefined p) = Some (LineInfo p)"
    using decompress_compress [of 0 "LineDefined p" 0 "LineInfo p"] c by (simp add: decompressLines_def compressLines_def)
  then have fin: "(if li = [] then rd_ret ([], LocVars p, Upvalues p) else
      case decompressLines li ab (LineDefined p) of None \<Rightarrow> rd_fail errBadBinaryChunk
      | Some li \<Rightarrow> rd_ret (li, LocVars p, Upvalues p)) = rd_ret (LineInfo p, LocVars p, Upvalues p)"
    using ok'(1) by (cases "li = []") auto
  show ?thesis
    using False unfolding dump_debug_def load_debug_def
    by (simp add: c reloaded_def)
      (rule reads_back_bind, rule u8.listed [OF len(2,1)], rule reads_back_bind, rule abs_entry.listed [OF ok'(3,2)],
       rule reads_back_bind, rule locvar.listed [OF ok(4,3)], rule reads_back_guard, rule load_upnames [OF ok(5,6)], rule fin)
qed

lemma reads_back_many:
  assumes "\<And>x. x \<in> set xs \<Longrightarrow> reads_back (f x) r (g x)"
  shows "reads_back (wconcat (map f xs)) (rd_many (length xs) r) (map g xs)"
  using assms
proof (induction xs)
  case (Cons x xs)
  then have "reads_back (f x) r (g x)" "reads_back (wconcat (map f xs)) (rd_many (length xs) r) (map g xs)" by auto
  then show ?case by (auto simp: reads_back_def rd_bind_def wcat_def)
qed (simp add: reads_back_ret)

lemma validate_reloaded: "validateProto (reloaded strip p) = validateProto p"
  by (cases p) (simp add: reloaded_def validateProto_def)

lemma load_source:
  "str_ok src \<Longrightarrow> reads_back (if strip \<or> src = parent then dump_nullStr else dump_str src) load_strN
     (if strip \<or> src = parent then ([], True) else (src, False))"
  by (simp add: load_nullStr load_strN)

lemma source_case:
  "(case (if strip \<or> src = parent then ([], True) else (src, False)) of (s, isNull) \<Rightarrow>
     let x = (if isNull then if strip then [] else parent else s) in F x) = F (if strip then [] else src)"
  by (simp add: Let_def)

lemma reloaded_simps: "reloaded False = (\<lambda>p. p)" "reloaded True = strip_proto"
  by (simp_all add: reloaded_def fun_eq_iff)

lemma load_function:
  assumes "proto_ok p" "depth p \<le> n"
  shows "reads_back (dump_function strip parent p) (load_function n (if strip then [] else parent)) (reloaded strip p)"
  using assms
proof (induction p arbitrary: n parent)
  case (Proto np va ms code ks ps ups src ld lld li lv)
  let ?p = "Proto np va ms code ks ps ups src ld lld li lv"
  let ?src = "if strip then [] else src"
  obtain m where n: "n = Suc m" and d: "list_all (\<lambda>p. depth p \<le> m) ps"
    using Proto.prems(2) by (cases n) (simp_all add: foldr_max_le)
  have ok: "src \<noteq> []" "str_ok src" "vint_ok ld" "vint_ok lld" "length code \<le> dumpMaxItems"
    "list_all (\<lambda>_. True) code" "length ks \<le> dumpMaxItems" "list_all const_ok ks" "length ups \<le> dumpMaxItems"
    "length ps \<le> dumpMaxItems" "list_all proto_ok ps" "validateProto ?p"
    using Proto.prems(1) by (simp_all add: list_all_iff)
  have subs: "reads_back (wconcat (map (dump_function strip src) ps)) (rd_many (length ps) (load_function m ?src))
      (map (reloaded strip) ps)"
    using Proto.IH d ok(11) by (intro reads_back_many) (auto simp: list_all_iff)
  have dbg: "reads_back (dump_debug ?p strip) (load_debug ld (map unnamed ups))
      (LineInfo (reloaded strip ?p), LocVars (reloaded strip ?p), Upvalues (reloaded strip ?p))"
    using load_debug [OF Proto.prems(1), of strip] by simp
  have rel: "reloaded strip ?p = Proto np va ms code ks (map (reloaded strip) ps) (Upvalues (reloaded strip ?p))
      (if ?src = [] then lit ''=?'' else ?src) ld lld (LineInfo (reloaded strip ?p)) (LocVars (reloaded strip ?p))"
    using ok(1) by (cases strip) (simp_all add: reloaded_simps)
  have fin: "(let p = Proto np va ms code ks (map (reloaded strip) ps) (Upvalues (reloaded strip ?p))
        (if ?src = [] then lit ''=?'' else ?src) ld lld (LineInfo (reloaded strip ?p)) (LocVars (reloaded strip ?p))
      in if validateProto p then rd_ret p else rd_fail errBadBinaryChunk) = rd_ret (reloaded strip ?p)"
    unfolding rel [symmetric] Let_def using ok(12) by (simp add: validate_reloaded)
  show ?case
    unfolding n dump_function.simps load_function.simps
    apply (rule reads_back_bind, rule load_source [OF ok(2)])
    unfolding source_case
    by (rule reads_back_bind, rule load_vInt [OF ok(3)], rule reads_back_bind, rule load_vInt [OF ok(4)],
      rule reads_back_bind, rule load_u8, rule reads_back_bind, rule load_bool, rule reads_back_bind, rule load_u8,
      rule reads_back_bind, rule u32.listed [OF ok(6,5)], rule reads_back_bind, rule const.listed [OF ok(8,7)],
      rule reads_back_bind, rule load_upvals [OF ok(9)], rule reads_back_bind, rule load_count [OF ok(10)],
      rule reads_back_bind, rule subs, rule reads_back_guard, rule dbg, unfold prod.case, rule fin)
qed

lemma reads_back_expect: "reads_back w r x \<Longrightarrow> reads_back w (rd_expect r x) ()"
  unfolding rd_expect_def by (erule reads_back_guard) simp

lemma load_header: "reads_back dump_header checkHeader ()"
proof -
  have num: "reads_back (dump_u64 luacNum) (rd_bind load_u64 (\<lambda>f. if f64_eq f luacNum then rd_ret () else rd_fail errBadBinaryChunk)) ()"
  proof (rule reads_back_guard [OF load_u64])
    have "f64_eq luacNum luacNum"
      by (simp add: f64_eq_def is_nan_def f64_mag_def inf_mag_def luacNum_def)
    then show "(if f64_eq luacNum luacNum then rd_ret () else rd_fail errBadBinaryChunk) = rd_ret ()" by simp
  qed
  have "length luaSignature = 4" "length luacData = 6" by (simp_all add: luaSignature_def luacData_def lit_def)
  then have raw: "reads_back (Inr luaSignature) (rd_bytes 4) luaSignature" "reads_back (Inr luacData) (rd_bytes 6) luacData"
    using reads_back_raw [of luaSignature] reads_back_raw [of luacData] by simp_all
  note field = reads_back_bind [OF reads_back_expect]
  show ?thesis
    unfolding dump_header_def checkHeader_def
    by (rule field, rule raw, rule field, rule load_u8, rule field, rule load_u8, rule field, rule raw,
      rule field, rule load_u8, rule field, rule load_u8, rule field, rule load_u8, rule field, rule load_u64, rule num)
qed

lemma undump_dump:
  assumes "proto_ok p" "depth p \<le> dumpMaxDepth" "length (Upvalues p) < 256"
  shows "reads_back (dumpProto p strip) undump (reloaded strip p)"
proof -
  have ups: "length (Upvalues (reloaded strip p)) = length (Upvalues p)" by (cases p) (simp add: reloaded_def)
  have "unat (of_nat (length (Upvalues p)) :: byte) = length (Upvalues p)" using assms(3) by (simp add: unat_of_nat)
  then have fin: "(if unat (of_nat (length (Upvalues p)) :: byte) = length (Upvalues (reloaded strip p))
      then rd_ret (reloaded strip p) else rd_fail errBadBinaryChunk) = rd_ret (reloaded strip p)"
    using ups by simp
  have fn: "reads_back (dump_function strip [] p) (load_function dumpMaxDepth []) (reloaded strip p)"
    using load_function [OF assms(1,2), of strip "[]"] by simp
  show ?thesis
    unfolding dumpProto_def undump_def
    by (rule reads_back_bind, rule load_header, rule reads_back_bind, rule load_u8,
      rule reads_back_guard, rule fn, rule fin)
qed

text \<open>
  C9: a dumped function loads back as the same function: with debug information every field of the
  prototype and of its nested prototypes survives, and a stripped dump loads with the source name
  \<open>=?\<close>, no line table, no local variables and unnamed upvalues, all else unchanged. The dump is
  consumed exactly.
\<close>

theorem dump_roundtrip:
  assumes "proto_ok p" "depth p \<le> dumpMaxDepth" "length (Upvalues p) < 256"
  shows "\<exists>bs. dumpProto p strip = Inr bs \<and> undump bs = Inr (if strip then strip_proto p else p, [])"
  using reads_back_written [OF undump_dump [OF assms, of strip]] by (simp add: reloaded_def)

definition sample_proto :: Proto where
  "sample_proto = Proto 1 False 4 [79, 0x12] [VInt 7, VString (lit ''k''), VNil]
     [Proto 0 True 2 [] [VTrue] [] [] (lit ''@a'') 2 3 [2, 400] []]
     [\<lparr> uv_Name = lit ''_ENV'', uv_InStack = True, uv_Index = 0, uv_Kind = 0 \<rparr>]
     (lit ''@a'') 0 0 [1] [\<lparr> lv_Name = lit ''x'', lv_StartPc = 0, lv_EndPc = 1 \<rparr>]"

lemma sample_ok: "proto_ok sample_proto" "depth sample_proto \<le> dumpMaxDepth" "length (Upvalues sample_proto) < 256"
  by (simp_all add: sample_proto_def str_ok_def vint_ok_def upval_ok_def locvar_ok_def dumpMaxItems_def dumpMaxDepth_def
    maxInt32_def lit_def validateProto_def GetOpCode_def GetArgBx_def getArg_def mask1_def field_layout NumOpCodes_def
    mask_eq_exp_minus_1)

theorem dump_roundtrip_witness:
  "\<exists>bs. dumpProto sample_proto True = Inr bs \<and> undump bs = Inr (strip_proto sample_proto, [])"
  using dump_roundtrip [OF sample_ok, of True] by simp

subsection \<open>Truncated chunks\<close>

text \<open>
  A reader that decides on a prefix of its input decides the same on the whole input, unless it ran
  out of bytes.
\<close>

definition prefix_stable :: "'a reader \<Rightarrow> bool" where
  "prefix_stable r = (\<forall>bs more. case r bs of Inr (x, rest) \<Rightarrow> r (bs @ more) = Inr (x, rest @ more)
     | Inl e \<Rightarrow> e = errTruncated \<or> r (bs @ more) = Inl e)"

named_theorems stable \<open>prefix-stable readers\<close>

lemma stable_ret [stable]: "prefix_stable (rd_ret x)"
  by (simp add: prefix_stable_def)

lemma stable_fail [stable]: "prefix_stable (rd_fail e)"
  by (simp add: prefix_stable_def)

lemma stable_bytes [stable]: "prefix_stable (rd_bytes n)"
  by (auto simp: prefix_stable_def rd_bytes_def)

lemma stable_bind [stable]:
  assumes "prefix_stable r" "\<And>x. prefix_stable (f x)"
  shows "prefix_stable (rd_bind r f)"
  unfolding prefix_stable_def
proof (intro allI)
  fix bs more
  show "case rd_bind r f bs of Inr (x, rest) \<Rightarrow> rd_bind r f (bs @ more) = Inr (x, rest @ more)
    | Inl e \<Rightarrow> e = errTruncated \<or> rd_bind r f (bs @ more) = Inl e"
  proof (cases "r bs")
    case (Inl e)
    then show ?thesis using assms(1) [unfolded prefix_stable_def, rule_format, of bs more] by (auto simp: rd_bind_def)
  next
    case (Inr y)
    then obtain x rest where "r bs = Inr (x, rest)" by (cases y) auto
    then show ?thesis
      using assms(1) [unfolded prefix_stable_def, rule_format, of bs more]
        assms(2) [of x, unfolded prefix_stable_def, rule_format, of rest more]
      by (auto simp: rd_bind_def split: sum.splits)
  qed
qed

lemma stable_if [stable]: "prefix_stable r \<Longrightarrow> prefix_stable r' \<Longrightarrow> prefix_stable (if b then r else r')"
  by simp

lemma stable_prod [stable]: "(\<And>x y. prefix_stable (f x y)) \<Longrightarrow> prefix_stable (case z of (x, y) \<Rightarrow> f x y)"
  by (cases z) simp

lemma stable_option [stable]:
  "prefix_stable r \<Longrightarrow> (\<And>x. prefix_stable (f x)) \<Longrightarrow> prefix_stable (case z of None \<Rightarrow> r | Some x \<Rightarrow> f x)"
  by (cases z) simp_all

lemma stable_many [stable]: "prefix_stable r \<Longrightarrow> prefix_stable (rd_many n r)"
  by (induction n) (auto intro!: stable)

lemma stable_size [stable]: "prefix_stable load_size"
proof -
  have "case load_size_loop x bs of Inr (y, rest) \<Rightarrow> load_size_loop x (bs @ more) = Inr (y, rest @ more)
      | Inl e \<Rightarrow> e = errTruncated \<or> load_size_loop x (bs @ more) = Inl e" for x bs more
    by (induction x bs rule: load_size_loop.induct) (auto simp: Let_def split: sum.splits)
  then show ?thesis by (simp add: prefix_stable_def load_size_def)
qed

lemmas reader_defs = load_u8_def load_u32_def load_u64_def load_count_def load_vInt_def load_strN_def load_str_def
  load_bool_def load_constant_def load_list_def load_abs_def load_locvar_def load_upval_def load_upnames_def
  load_debug_def rd_expect_def checkHeader_def

lemma stable_function: "prefix_stable (load_function n src)"
  by (induction n arbitrary: src) (auto intro!: stable simp: reader_defs Let_def)

lemma stable_undump: "prefix_stable undump"
  unfolding undump_def by (auto intro!: stable stable_function simp: reader_defs Let_def)

text \<open>
  C11: a chunk cut off anywhere is rejected as truncated: no proper prefix of a dump, stripped or not,
  loads as a function or is reported as anything else.
\<close>

theorem truncated_rejected:
  assumes "proto_ok p" "depth p \<le> dumpMaxDepth" "length (Upvalues p) < 256"
    and "dumpProto p strip = Inr bs" "n < length bs"
  shows "undump (take n bs) = Inl errTruncated"
proof -
  have whole: "undump bs = Inr (reloaded strip p, [])"
    using reads_back_written [OF undump_dump [OF assms(1-3), of strip]] assms(4) by simp
  have "take n bs @ drop n bs = bs" "drop n bs \<noteq> []" using assms(5) by simp_all
  then show ?thesis
    using stable_undump [unfolded prefix_stable_def, rule_format, of "take n bs" "drop n bs"] whole
    by (auto split: sum.splits prod.splits)
qed

theorem truncated_rejected_witness:
  "\<exists>bs. dumpProto sample_proto False = Inr bs \<and> undump (take 20 bs) = Inl errTruncated"
proof -
  obtain bs where bs: "dumpProto sample_proto False = Inr bs"
    using reads_back_written [OF undump_dump [OF sample_ok, of False]] by blast
  obtain h where h: "dump_header = Inr h" "length h = 31"
    by (simp add: dump_header_def wcat_def dump_u8_def dump_u64_def luaSignature_def luacData_def lit_def)
  then have "20 < length bs" using bs unfolding dumpProto_def h(1) by (auto simp: wcat_def split: sum.splits)
  with bs truncated_rejected [OF sample_ok bs, of 20] show ?thesis by blast
qed

subsection \<open>Hostile chunks\<close>

text \<open>Every opcode is known and every closure instruction names an existing prototype, at every level.\<close>

fun code_safe :: "Proto \<Rightarrow> bool" where
  "code_safe (Proto np va ms code ks ps ups src ld lld li lv) =
     (validateProto (Proto np va ms code ks ps ups src ld lld li lv) \<and> list_all code_safe ps)"

text \<open>What holds of every value a reader can return.\<close>

definition yields :: "'a reader \<Rightarrow> ('a \<Rightarrow> bool) \<Rightarrow> bool" where
  "yields r Q = (\<forall>bs x rest. r bs = Inr (x, rest) \<longrightarrow> Q x)"

lemma yields_any: "yields r (\<lambda>_. True)"
  by (simp add: yields_def)

lemma yields_ret: "Q x \<Longrightarrow> yields (rd_ret x) Q"
  by (simp add: yields_def)

lemma yields_bind: "yields r P \<Longrightarrow> (\<And>x. P x \<Longrightarrow> yields (f x) Q) \<Longrightarrow> yields (rd_bind r f) Q"
  by (fastforce simp: yields_def rd_bind_Inr)

lemma yields_check: "(b \<Longrightarrow> yields r Q) \<Longrightarrow> yields (if b then r else rd_fail e) Q"
  by (simp add: yields_def)

lemma yields_prod: "(\<And>x y. z = (x, y) \<Longrightarrow> yields (f x y) Q) \<Longrightarrow> yields (case z of (x, y) \<Rightarrow> f x y) Q"
  by (cases z) simp

lemma yields_many: "yields r Q \<Longrightarrow> yields (rd_many n r) (list_all Q)"
  by (induction n) (auto intro!: yields_ret yields_bind)

lemma load_function_safe: "yields (load_function n src) (\<lambda>p. code_safe p \<and> depth p \<le> n)"
proof (induction n arbitrary: src)
  case (Suc n)
  note skip = yields_bind [OF yields_any]
  show ?case
    unfolding load_function.simps Let_def
    by (rule skip, rule yields_prod, rule skip, rule skip, rule skip, rule skip, rule skip, rule skip, rule skip,
      rule skip, rule skip, rule yields_bind [OF yields_many [OF Suc.IH]], rule skip, rule yields_prod, rule yields_prod,
      rule yields_check, rule yields_ret) (auto simp: foldr_max_le list_all_iff)
qed (simp add: yields_def)

text \<open>
  What the machine relies on when it decodes an instruction, by the layout of the word: the opcode in the lowest 7 bits is one of the 83, and
  the instruction that makes a closure (number 79) names in its bits from 15 on a nested prototype that exists; at every level.
\<close>

definition decodable :: "nat \<Rightarrow> Instruction \<Rightarrow> bool" where
  "decodable nprotos i \<longleftrightarrow> uint i mod 128 < 83 \<and> (uint i mod 128 = 79 \<longrightarrow> uint i div 2 ^ 15 < int nprotos)"

primrec well_nested :: "nat \<Rightarrow> Proto \<Rightarrow> bool" where
  "well_nested 0 p = False"
| "well_nested (Suc n) p = ((\<forall>i \<in> set (Code p). decodable (length (Protos p)) i) \<and> (\<forall>q \<in> set (Protos p). well_nested n q))"

lemma opcode_bits: "GetOpCode i = uint i mod 128"
  by (simp add: GetOpCode_def getArg_eq field_layout take_bit_eq_mod uint_mod_distrib)

lemma bx_bits: "GetArgBx i = uint i div 2 ^ 15"
proof -
  have "uint i < 2 ^ 32" using unsigned_less [of i] by simp
  then have "uint i div 2 ^ 15 < 2 ^ 17" by (simp add: div_less_iff_less_mult)
  then show ?thesis
    by (simp add: GetArgBx_def getArg_eq field_layout take_bit_eq_mod drop_bit_eq_div uint_mod_distrib uint_div_distrib pos_imp_zdiv_nonneg_iff)
qed

lemma validate_decodable: "validateProto p \<Longrightarrow> i \<in> set (Code p) \<Longrightarrow> decodable (length (Protos p)) i"
  by (auto simp: validateProto_def list_all_iff decodable_def opcode_bits bx_bits NumOpCodes_def)

lemma safe_well_nested: "code_safe p \<Longrightarrow> depth p \<le> n \<Longrightarrow> well_nested n p"
proof (induction n arbitrary: p)
  case 0
  then show ?case by (cases p) simp
next
  case (Suc n)
  obtain np va ms code ks ps ups src ld lld li lv where p: "p = Proto np va ms code ks ps ups src ld lld li lv" by (cases p)
  have "well_nested n q" if "q \<in> set ps" for q
  proof (rule Suc.IH)
    show "code_safe q" using Suc.prems(1) that by (simp add: p list_all_iff)
    show "depth q \<le> n" using Suc.prems(2) that by (auto simp: p foldr_max_le list_all_iff)
  qed
  then show ?case using Suc.prems(1) validate_decodable [of p] by (simp add: p)
qed

text \<open>
  C10: whatever bytes are loaded, \<open>undump\<close> ends with an error or with a prototype in which, at every
  nesting level, each instruction word has a known opcode in its low bits and each closure instruction names an existing nested prototype
  in its upper ones, and whose nesting is at most 200 levels.
\<close>

theorem undump_safe:
  assumes "undump bs = Inr (p, rest)"
  shows "well_nested dumpMaxDepth p"
proof -
  have "yields undump (\<lambda>p. code_safe p \<and> depth p \<le> dumpMaxDepth)"
    unfolding undump_def
    by (rule yields_bind [OF yields_any], rule yields_bind [OF yields_any], rule yields_bind [OF load_function_safe],
      rule yields_check, rule yields_ret)
  then show ?thesis using assms safe_well_nested by (auto simp: yields_def)
qed

theorem undump_safe_witness:
  "\<exists>bs. undump bs = Inr (sample_proto, []) \<and> well_nested dumpMaxDepth sample_proto \<and> Protos sample_proto \<noteq> []"
proof -
  have "reloaded False sample_proto = sample_proto" by (simp add: reloaded_def)
  then obtain bs where "undump bs = Inr (sample_proto, [])" using reads_back_written [OF undump_dump [OF sample_ok, of False]] by auto
  with undump_safe [OF this] show ?thesis by (auto simp: sample_proto_def)
qed

end
