(* ===== verification/StrLib.thy ===== *)
theory StrLib
  imports TabLib
begin

text \<open>
  The byte-string functions of the string library (lstrlib.go): \<open>len\<close>, \<open>sub\<close>, \<open>rep\<close>, \<open>reverse\<close>, \<open>byte\<close> and
  \<open>char\<close>. A slice expression out of range is a Go panic. \<open>args\<close> are the arguments from the first on;
  a missing argument reads as nil.
\<close>

subsection \<open>Model\<close>

definition arg :: "nat \<Rightarrow> Value list \<Rightarrow> Value" where
  "arg n args = (if n \<le> length args then args ! (n - 1) else VNil)"

definition checkString :: "(f64 \<Rightarrow> bytes) \<Rightarrow> (Value \<Rightarrow> string) \<Rightarrow> nat \<Rightarrow> Value \<Rightarrow> bytes res" where
  "checkString fmtg tn n v =
     (case v of VString s \<Rightarrow> Inr s
      | _ \<Rightarrow> if IsNumber v then Inr (numToString fmtg v) else Inl (ArgError n (''string expected, got '' @ tn v)))"

text \<open>Go's \<open>s[i:j]\<close>.\<close>

definition slice :: "bytes \<Rightarrow> int \<Rightarrow> int \<Rightarrow> bytes res" where
  "slice s i j =
     (if 0 \<le> i \<and> i \<le> j \<and> j \<le> int (length s) then Inr (take (nat j - nat i) (drop (nat i) s)) else Inl GoPanic)"

definition byte_at :: "bytes \<Rightarrow> int \<Rightarrow> byte res" where
  "byte_at s i = (if 0 \<le> i \<and> i < int (length s) then Inr (s ! nat i) else Inl GoPanic)"

text \<open>A loop that pushes one result per element and stops at the first error.\<close>

primrec rmap :: "('a \<Rightarrow> 'b res) \<Rightarrow> 'a list \<Rightarrow> 'b list res" where
  "rmap f [] = Inr []"
| "rmap f (x # xs) = rbind (f x) (\<lambda>y. rbind (rmap f xs) (\<lambda>ys. Inr (y # ys)))"

definition strRelIndex :: "i64 \<Rightarrow> i64 \<Rightarrow> i64" where
  "strRelIndex pos l = (if sint pos \<ge> 0 then pos else if sint (- pos) > sint l then 0 else l + pos + 1)"

definition strLen where
  "strLen fmtg tn args = rbind (checkString fmtg tn 1 (arg 1 args)) (\<lambda>s. Inr (VInt (of_nat (length s))))"

definition strSub where
  "strSub pf fmtg tn args =
     rbind (checkString fmtg tn 1 (arg 1 args)) (\<lambda>s. let l = of_nat (length s) in
     rbind (checkInt pf tn 2 (arg 2 args)) (\<lambda>a. rbind (optInt pf tn 3 (- 1) (drop 2 args)) (\<lambda>b.
       let i = strRelIndex a l; j = strRelIndex b l;
           i = (if sint i < 1 then 1 else i); j = (if sint j > sint l then l else j) in
       if sint i > sint j then Inr (VString [])
       else rbind (slice s (sint (i - 1)) (sint j)) (\<lambda>r. Inr (VString r)))))"

text \<open>\<open>packMAXSIZE\<close> is the limit of a result.\<close>

definition packMAXSIZE :: int where "packMAXSIZE = 0x7fffffff"

definition rep_loop :: "bytes \<Rightarrow> bytes \<Rightarrow> nat \<Rightarrow> bytes" where
  "rep_loop s sep n = concat (map (\<lambda>i. (if i > 0 then sep else []) @ s) [0..<n])"

definition strRep where
  "strRep pf fmtg tn args =
     rbind (checkString fmtg tn 1 (arg 1 args)) (\<lambda>s. rbind (checkInt pf tn 2 (arg 2 args)) (\<lambda>n.
     rbind (if IsNil (arg 3 args) then Inr [] else checkString fmtg tn 3 (arg 3 args)) (\<lambda>sep.
       if sint n \<le> 0 then Inr (VString [])
       else let l = int (length s); lsep = int (length sep) in
         if l + lsep < l \<or> l + lsep > packMAXSIZE div sint n then Inl (LuaError ''resulting string too large'')
         else Inr (VString (rep_loop s sep (nat (sint n)))))))"

text \<open>The loop of \<open>strReverse\<close>, which swaps the bytes at \<open>i\<close> and \<open>j\<close> while \<open>i < j\<close>.\<close>

function reverse_loop :: "bytes \<Rightarrow> nat \<Rightarrow> nat \<Rightarrow> bytes" where
  "reverse_loop s i j = (if i < j then reverse_loop (s[i := s ! j, j := s ! i]) (i + 1) (j - 1) else s)"
  by pat_completeness auto
termination by (relation "measure (\<lambda>(s, i, j). j - i)") auto

declare reverse_loop.simps [simp del]

definition strReverse where
  "strReverse fmtg tn args =
     rbind (checkString fmtg tn 1 (arg 1 args)) (\<lambda>s. Inr (VString (reverse_loop s 0 (length s - 1))))"

definition strByte where
  "strByte pf fmtg tn args =
     rbind (checkString fmtg tn 1 (arg 1 args)) (\<lambda>s. let l = of_nat (length s) in
     rbind (optInt pf tn 2 1 (drop 1 args)) (\<lambda>a. let i = strRelIndex a l in
     rbind (optInt pf tn 3 i (drop 2 args)) (\<lambda>b.
       let j = strRelIndex b l; i = (if sint i < 1 then 1 else i); j = (if sint j > sint l then l else j) in
       rmap (\<lambda>k. rbind (byte_at s (k - 1)) (\<lambda>c. Inr (VInt (ucast c)))) [sint i..sint j])))"

definition strChar where
  "strChar pf tn args =
     rbind (rmap (\<lambda>i. rbind (checkInt pf tn i (arg i args)) (\<lambda>c.
         if sint c < 0 \<or> sint c > 255 then Inl (ArgError i ''value out of range'') else Inr (ucast c :: byte)))
       [1..<Suc (length args)]) (\<lambda>b. Inr (VString b))"

subsection \<open>Positions\<close>

lemma rmap_Inr: "(\<And>x. x \<in> set xs \<Longrightarrow> f x = Inr (g x)) \<Longrightarrow> rmap f xs = Inr (map g xs)"
  by (induction xs) auto

lemma checkString_str [simp]: "checkString fmtg tn n (VString s) = Inr s"
  by (simp add: checkString_def)

text \<open>The position a Lua index denotes, over the integers.\<close>

definition lua_pos :: "int \<Rightarrow> int \<Rightarrow> int" where
  "lua_pos l a = (if a \<ge> 0 then a else l + a + 1)"

lemma strRelIndex_pos:
  fixes a l :: i64
  assumes "0 \<le> sint l"
  shows "sint (strRelIndex a l) = lua_pos (sint l) (sint a) \<or>
    sint (strRelIndex a l) = 0 \<and> lua_pos (sint l) (sint a) \<le> 0"
proof (cases "sint a \<ge> 0")
  case False
  note r = sint_i64_range [of a] sint_i64_range [of l]
  have "l + a + 1 = word_of_int (sint l + sint a + 1)" by simp
  then have sum: "sint (l + a + 1) = sint l + sint a + 1"
    using False assms r sint_of_int_id [of "sint l + sint a + 1"] by simp
  show ?thesis
  proof (cases "sint (- a) > sint l")
    case True
    have "a \<noteq> - (2 ^ 63)"
    proof
      assume "a = - (2 ^ 63)"
      then have "- a = a" by simp
      with True False assms show False by simp
    qed
    then have "sint (- a) = - sint a" by (rule sint_uminus)
    with True False show ?thesis by (simp add: strRelIndex_def lua_pos_def)
  qed (use False sum in \<open>simp add: strRelIndex_def lua_pos_def\<close>)
qed (simp add: strRelIndex_def lua_pos_def)

text \<open>The bytes at the positions \<open>i\<close> to \<open>j\<close>, counted from 1, as far as the string has them.\<close>

definition bytes_between :: "bytes \<Rightarrow> int \<Rightarrow> int \<Rightarrow> bytes" where
  "bytes_between s i j = map (\<lambda>p. s ! nat (p - 1)) [max 1 i..min (int (length s)) j]"

lemma bytes_between_pos:
  assumes "length s < 2 ^ 63"
  shows "map (\<lambda>p. s ! nat (p - 1)) [max 1 (sint (strRelIndex a (of_nat (length s))))..
      min (int (length s)) (sint (strRelIndex b (of_nat (length s))))] =
    bytes_between s (lua_pos (int (length s)) (sint a)) (lua_pos (int (length s)) (sint b))"
proof -
  have l: "sint (of_nat (length s) :: i64) = int (length s)" using assms by (rule sint_of_nat_i64)
  have empty: "[x..y] = []" if "y < x" for x y :: int using that by simp
  show ?thesis
    using strRelIndex_pos [of "of_nat (length s)" a] strRelIndex_pos [of "of_nat (length s)" b] l
    unfolding bytes_between_def by (auto simp: max_def min_def empty)
qed

lemma slice_bytes:
  assumes "1 \<le> i" "i \<le> j" "j \<le> int (length s)"
  shows "slice s (i - 1) j = Inr (map (\<lambda>p. s ! nat (p - 1)) [i..j])"
proof -
  have "take (nat j - nat (i - 1)) (drop (nat (i - 1)) s) = map (\<lambda>p. s ! nat (p - 1)) [i..j]"
  proof (rule nth_equalityI)
    show "length (take (nat j - nat (i - 1)) (drop (nat (i - 1)) s)) = length (map (\<lambda>p. s ! nat (p - 1)) [i..j])"
      using assms by auto
    fix k assume "k < length (take (nat j - nat (i - 1)) (drop (nat (i - 1)) s))"
    then have k: "i + int k \<le> j" using assms by auto
    then have "[i..j] ! k = i + int k" by simp
    moreover have "nat (i - 1) + k = nat (i + int k - 1)" using assms(1) by simp
    ultimately show "take (nat j - nat (i - 1)) (drop (nat (i - 1)) s) ! k = map (\<lambda>p. s ! nat (p - 1)) [i..j] ! k"
      using k assms by simp
  qed
  then show ?thesis using assms by (simp add: slice_def)
qed

lemma sint_minus_1: "1 \<le> sint (x :: i64) \<Longrightarrow> sint (x - 1) = sint x - 1"
proof -
  assume x: "1 \<le> sint x"
  have "x - 1 = word_of_int (sint x - 1)" by simp
  then show ?thesis using x sint_i64_range [of x] sint_of_int_id [of "sint x - 1"] by simp
qed

lemma strSub_bytes:
  assumes "length s < 2 ^ 63"
  shows "strSub pf fmtg tn [VString s, VInt a, VInt b] =
    Inr (VString (bytes_between s (lua_pos (int (length s)) (sint a)) (lua_pos (int (length s)) (sint b))))"
proof -
  let ?l = "of_nat (length s) :: i64"
  let ?i = "if sint (strRelIndex a ?l) < 1 then 1 else strRelIndex a ?l"
  let ?j = "if sint (strRelIndex b ?l) > sint ?l then ?l else strRelIndex b ?l"
  have l: "sint ?l = int (length s)" using assms by (rule sint_of_nat_i64)
  have i: "sint ?i = max 1 (sint (strRelIndex a ?l))" and j: "sint ?j = min (int (length s)) (sint (strRelIndex b ?l))"
    using l by auto
  have i1: "sint (?i - 1) = sint ?i - 1"
    by (rule sint_minus_1) auto
  show ?thesis
  proof (cases "sint ?i > sint ?j")
    case True
    then have "[sint ?i..sint ?j] = []" by simp
    with True bytes_between_pos [OF assms, of a b] i j show ?thesis
      by (simp add: strSub_def arg_def optInt_def Let_def)
  next
    case False
    have "slice s (sint ?i - 1) (sint ?j) = Inr (map (\<lambda>p. s ! nat (p - 1)) [sint ?i..sint ?j])"
      using False i j by (intro slice_bytes) auto
    with False bytes_between_pos [OF assms, of a b] i j i1 show ?thesis
      by (simp add: strSub_def arg_def optInt_def Let_def)
  qed
qed

lemma strByte_bytes:
  assumes "length s < 2 ^ 63"
  shows "strByte pf fmtg tn [VString s, VInt a, VInt b] =
    Inr (map (\<lambda>c. VInt (ucast c)) (bytes_between s (lua_pos (int (length s)) (sint a)) (lua_pos (int (length s)) (sint b))))"
proof -
  let ?l = "of_nat (length s) :: i64"
  let ?i = "if sint (strRelIndex a ?l) < 1 then 1 else strRelIndex a ?l"
  let ?j = "if sint (strRelIndex b ?l) > sint ?l then ?l else strRelIndex b ?l"
  have l: "sint ?l = int (length s)" using assms by (rule sint_of_nat_i64)
  have i: "sint ?i = max 1 (sint (strRelIndex a ?l))" and j: "sint ?j = min (int (length s)) (sint (strRelIndex b ?l))"
    using l by auto
  have "strByte pf fmtg tn [VString s, VInt a, VInt b] =
      rmap (\<lambda>k. rbind (byte_at s (k - 1)) (\<lambda>c. Inr (VInt (ucast c)))) [sint ?i..sint ?j]"
    by (simp add: strByte_def arg_def optInt_def Let_def)
  also have "\<dots> = Inr (map (\<lambda>k. VInt (ucast (s ! nat (k - 1)))) [sint ?i..sint ?j])"
    unfolding i j by (rule rmap_Inr) (auto simp: byte_at_def)
  finally show ?thesis using bytes_between_pos [OF assms, of a b] unfolding i j by (metis (no_types, lifting) map_map comp_apply map_eq_conv)
qed

lemma sint_ucast_byte: "sint (ucast (c :: byte) :: i64) = uint c" "ucast (ucast c :: i64) = c"
proof -
  have "uint c < 2 ^ 8" using uint_lt2p [of c] by simp
  then show "sint (ucast c :: i64) = uint c"
    using sint_of_int_id [of "uint c"] uint_ge_0 [of c] by simp
  show "ucast (ucast c :: i64) = c" by (rule bit_word_eqI) (auto simp: bit_simps)
qed

lemma strChar_bytes: "strChar pf tn (map (\<lambda>c. VInt (ucast c)) bs) = Inr (VString bs)"
proof -
  let ?args = "map (\<lambda>c. VInt (ucast c)) bs"
  have byte_le: "\<not> 255 < uint c" for c :: byte using uint_lt2p [of c] by simp
  have "rmap (\<lambda>i. rbind (checkInt pf tn i (arg i ?args)) (\<lambda>c.
       if sint c < 0 \<or> sint c > 255 then Inl (ArgError i ''value out of range'') else Inr (ucast c :: byte)))
       [1..<Suc (length ?args)] = Inr (map (\<lambda>i. bs ! (i - 1)) [1..<Suc (length ?args)])"
    by (intro rmap_Inr) (auto simp: arg_def sint_ucast_byte byte_le)
  moreover have "map (\<lambda>i. bs ! (i - 1)) [1..<Suc (length ?args)] = bs"
    by (rule nth_equalityI) (simp_all del: upt_Suc)
  ultimately show ?thesis by (simp add: strChar_def)
qed

text \<open>
  \<open>string.sub(s, i, j)\<close> is, for every pair of integers, the bytes of \<open>s\<close> at the positions \<open>i\<close> to \<open>j\<close>, where
  a negative position counts from the end and positions outside the string are left out; it never
  panics. \<open>string.byte(s, i, j)\<close> gives the codes of the same bytes, and \<open>string.char\<close> turns them back.
\<close>

lemma sub_byte_char:
  fixes i j :: i64
  assumes "length s < 2 ^ 63"
  defines "r \<equiv> bytes_between s (lua_pos (int (length s)) (sint i)) (lua_pos (int (length s)) (sint j))"
  shows "strSub pf fmtg tn [VString s, VInt i, VInt j] = Inr (VString r) \<and>
    (\<exists>vs. strByte pf fmtg tn [VString s, VInt i, VInt j] = Inr vs \<and> strChar pf tn vs = Inr (VString r))"
  using strSub_bytes [OF assms(1)] strByte_bytes [OF assms(1)] strChar_bytes unfolding r_def by blast

lemma sub_byte_char_witness:
  "strSub (\<lambda>_. (0, None)) (\<lambda>_. []) typeName [VString (lit ''hello''), VInt (- 4), VInt 3] = Inr (VString (lit ''el''))"
proof -
  have "length (lit ''hello'') < 2 ^ 63" by (simp add: lit_def)
  from sub_byte_char [OF this, of "\<lambda>_. (0, None)" "\<lambda>_. []" typeName "- 4" 3]
  show ?thesis by (simp add: bytes_between_def lua_pos_def lit_def upto_rec1)
qed

subsection \<open>Reversal\<close>

lemma reverse_loop_nth:
  assumes "i + j = length s - 1" "j < length s \<or> s = []" "k < length s"
  shows "length (reverse_loop s i j) = length s \<and>
    reverse_loop s i j ! k = (if i \<le> k \<and> k \<le> j then s ! (length s - 1 - k) else s ! k)"
  using assms
proof (induction "j - i" arbitrary: s i j rule: less_induct)
  case less
  show ?case
  proof (cases "i < j")
    case True
    let ?s = "s[i := s ! j, j := s ! i]"
    have eq: "reverse_loop s i j = reverse_loop ?s (i + 1) (j - 1)"
      using True by (subst reverse_loop.simps) simp
    have "length (reverse_loop ?s (i + 1) (j - 1)) = length ?s \<and> reverse_loop ?s (i + 1) (j - 1) ! k =
        (if i + 1 \<le> k \<and> k \<le> j - 1 then ?s ! (length ?s - 1 - k) else ?s ! k)"
      using True less.prems by (intro less.hyps) auto
    moreover have "length s - 1 - k = i + j - k" "j < length s" using less.prems True by auto
    ultimately show ?thesis
      unfolding eq using True less.prems(3) by (auto simp: nth_list_update)
  next
    case False
    then have "reverse_loop s i j = s" by (subst reverse_loop.simps) simp
    moreover have "length s - 1 - k = k" if "i \<le> k" "k \<le> j" using that False less.prems by simp
    ultimately show ?thesis by simp
  qed
qed

text \<open>
  the in-place loop of \<open>string.reverse\<close> computes the reversed string.
\<close>

lemma strReverse_rev: "strReverse fmtg tn [VString s] = Inr (VString (rev s))"
proof -
  have "reverse_loop s 0 (length s - 1) = rev s"
  proof (cases "s = []")
    case False
    then have r: "length (reverse_loop s 0 (length s - 1)) = length s \<and>
        reverse_loop s 0 (length s - 1) ! k = s ! (length s - 1 - k)" if "k < length s" for k
      using reverse_loop_nth [of 0 "length s - 1" s k] that by auto
    have len: "length (reverse_loop s 0 (length s - 1)) = length s" using r [of 0] False by simp
    then show ?thesis using r by (intro nth_equalityI) (simp_all add: rev_nth)
  qed (simp add: reverse_loop.simps)
  then show ?thesis by (simp add: strReverse_def arg_def)
qed

end
