(* ===== verification/Utf8.thy ===== *)
theory Utf8
  imports StrLib
begin

text \<open>
  The UTF-8 library (lutf8lib.go): encoding and decoding of sequences of one to six bytes, and \<open>char\<close>,
  \<open>codepoint\<close>, \<open>len\<close>, \<open>offset\<close> and \<open>codes\<close>.
\<close>

type_synonym u32 = "32 word"

definition maxUnicode :: u32 where "maxUnicode = 0x10FFFF"
definition maxUTF :: u32 where "maxUTF = 0x7FFFFFFF"

subsection \<open>Encoding\<close>

text \<open>The loop of \<open>utf8esc\<close> for codes from 0x80; \<open>buff\<close> holds the bytes already written, from the end.\<close>

function utf8esc_loop :: "u32 \<Rightarrow> u32 \<Rightarrow> bytes \<Rightarrow> bytes" where
  "utf8esc_loop x mfb buff =
     (let buff = ucast (0x80 OR (x AND 0x3f)) # buff; x' = drop_bit 6 x; mfb = drop_bit 1 mfb in
      if x' \<le> mfb then ucast (push_bit 1 (NOT mfb) OR x') # buff else utf8esc_loop x' mfb buff)"
  by pat_completeness auto
termination
proof (relation "measure (\<lambda>(x, mfb, buff). unat x)")
  fix x mfb :: u32 and buff :: bytes and b y m
  assume "y = drop_bit 6 x" "\<not> y \<le> m"
  then have "drop_bit 6 x \<noteq> 0" by auto
  then have "unat x div 64 < unat x" by (cases "unat x = 0") (auto simp: unat_eq_0 unat_gt_0)
  then show "((y, m, b), (x, mfb, buff)) \<in> measure (\<lambda>(x, mfb, buff). unat x)"
    using \<open>y = _\<close> by (simp add: drop_bit_eq_div unat_div)
qed simp

declare utf8esc_loop.simps [simp del]

definition utf8esc :: "u32 \<Rightarrow> bytes" where
  "utf8esc x = (if x < 0x80 then [ucast x] else utf8esc_loop x 0x3f [])"

subsection \<open>Decoding\<close>

definition utf8limits :: "u32 list" where
  "utf8limits = [NOT 0, 0x80, 0x800, 0x10000, 0x200000, 0x4000000]"

text \<open>
  The loop of \<open>utf8Decode\<close>: \<open>c\<close> is the shifted first byte, \<open>res\<close> the bits so far; \<open>None\<close> is an invalid
  sequence.
\<close>

function decode_loop :: "bytes \<Rightarrow> nat \<Rightarrow> u32 \<Rightarrow> nat \<Rightarrow> u32 \<Rightarrow> (u32 \<times> nat \<times> u32) option" where
  "decode_loop s i c count res =
     (if c AND 0x40 \<noteq> 0 then
        let count = count + 1 in
        if i + count \<ge> length s then None
        else let cc = ucast (s ! (i + count)) in
          if cc AND 0xC0 \<noteq> 0x80 then None
          else decode_loop s i (push_bit 1 c) count (push_bit 6 res OR (cc AND 0x3F))
      else Some (c, count, res))"
  by pat_completeness auto
termination by (relation "measure (\<lambda>(s, i, c, count, res). length s - count)") auto

declare decode_loop.simps [simp del]

definition decode_seq :: "bytes \<Rightarrow> nat \<Rightarrow> u32 \<Rightarrow> (u32 \<times> nat) option" where
  "decode_seq s i c =
     (if c < 0x80 then Some (c, i)
      else case decode_loop s i c 0 0 of None \<Rightarrow> None
      | Some (c, count, res) \<Rightarrow>
          let res = res OR push_bit (count * 5) (c AND 0x7F) in
          if count > 5 \<or> res > maxUTF \<or> res < utf8limits ! count then None else Some (res, i + count))"

definition utf8Decode :: "bytes \<Rightarrow> nat \<Rightarrow> bool \<Rightarrow> (u32 \<times> nat) option res" where
  "utf8Decode s i strict =
     rbind (byte_at s (int i)) (\<lambda>b.
       Inr (case decode_seq s i (ucast b) of None \<Rightarrow> None
          | Some (res, i) \<Rightarrow>
              if strict \<and> (res > maxUnicode \<or> 0xD800 \<le> res \<and> res \<le> 0xDFFF) then None else Some (res, i + 1)))"

subsection \<open>Round trip\<close>

text \<open>The continuation bytes that carry the low \<open>6 n\<close> bits of a code.\<close>

primrec conts :: "nat \<Rightarrow> u32 \<Rightarrow> bytes" where
  "conts 0 x = []"
| "conts (Suc n) x = ucast (0x80 OR (drop_bit (6 * n) x AND 0x3f)) # conts n x"

lemma length_conts [simp]: "length (conts n x) = n"
  by (induction n) simp_all

lemma conts_snoc: "conts (Suc n) x = conts n (drop_bit 6 x) @ [ucast (0x80 OR (x AND 0x3f))]"
  by (induction n) (simp_all add: drop_bit_drop_bit add.commute)

lemma utf8esc_loop_conts:
  assumes "0 < n" "drop_bit (6 * n) x \<le> drop_bit n mfb"
    and "\<And>m. 0 < m \<Longrightarrow> m < n \<Longrightarrow> \<not> drop_bit (6 * m) x \<le> drop_bit m mfb"
  shows "utf8esc_loop x mfb buff =
    ucast (push_bit 1 (NOT (drop_bit n mfb)) OR drop_bit (6 * n) x) # conts n x @ buff"
  using assms
proof (induction n arbitrary: x mfb buff)
  case (Suc n)
  show ?case
  proof (cases "n = 0")
    case True
    then show ?thesis using Suc.prems by (subst utf8esc_loop.simps) (simp add: Let_def)
  next
    case False
    then have "\<not> drop_bit 6 x \<le> drop_bit 1 mfb" using Suc.prems(3) [of 1] by simp
    then have "utf8esc_loop x mfb buff =
        utf8esc_loop (drop_bit 6 x) (drop_bit 1 mfb) (ucast (0x80 OR (x AND 0x3f)) # buff)"
      by (subst utf8esc_loop.simps) (simp add: Let_def)
    also have "\<dots> = ucast (push_bit 1 (NOT (drop_bit n (drop_bit 1 mfb))) OR drop_bit (6 * n) (drop_bit 6 x)) #
        conts n (drop_bit 6 x) @ ucast (0x80 OR (x AND 0x3f)) # buff"
    proof (rule Suc.IH)
      show "0 < n" using False by simp
      show "drop_bit (6 * n) (drop_bit 6 x) \<le> drop_bit n (drop_bit 1 mfb)"
        using Suc.prems(2) by (simp add: drop_bit_drop_bit add.commute)
      show "\<not> drop_bit (6 * m) (drop_bit 6 x) \<le> drop_bit m (drop_bit 1 mfb)" if "0 < m" "m < n" for m
        using Suc.prems(3) [of "Suc m"] that by (simp add: drop_bit_drop_bit add.commute)
    qed
    finally show ?thesis
      using conts_snoc [of n x] by (simp add: drop_bit_drop_bit add.commute del: conts.simps)
  qed
qed simp

lemma mask_bits:
  "bit (0x3f :: u32) n \<longleftrightarrow> n < 6" "bit (0x40 :: u32) n \<longleftrightarrow> n = 6" "bit (0x80 :: u32) n \<longleftrightarrow> n = 7"
  "bit (0xC0 :: u32) n \<longleftrightarrow> n = 6 \<or> n = 7" "bit (0x7F :: u32) n \<longleftrightarrow> n < 7"
proof -
  have c: "(0xC0 :: u32) = 0x80 OR 0x40" by simp
  show "bit (0x40 :: u32) n \<longleftrightarrow> n = 6" and e: "bit (0x80 :: u32) n \<longleftrightarrow> n = 7"
    using bit_exp_iff [of 6 n, where 'a = u32] bit_exp_iff [of 7 n, where 'a = u32] by (auto simp: possible_bit_word)
  then show "bit (0xC0 :: u32) n \<longleftrightarrow> n = 6 \<or> n = 7" unfolding c bit_or_iff by blast
  show "bit (0x3f :: u32) n \<longleftrightarrow> n < 6" "bit (0x7F :: u32) n \<longleftrightarrow> n < 7"
    using bit_mask_iff [of 6 n, where 'a = u32] bit_mask_iff [of 7 n, where 'a = u32]
    by (auto simp: mask_eq_exp_minus_1 possible_bit_word)
qed

lemmas u32_bits = bit_and_iff bit_or_iff bit_not_iff bit_push_bit_iff bit_drop_bit_eq bit_take_bit_iff bit_unsigned_iff
  possible_bit_word comp_apply mask_bits

lemma cont_byte:
  "ucast (ucast (0x80 OR (y AND 0x3f) :: u32) :: byte) AND (0xC0 :: u32) = 0x80"
  "ucast (ucast (0x80 OR (y AND 0x3f) :: u32) :: byte) AND (0x3F :: u32) = y AND 0x3f"
  by (rule bit_word_eqI, simp only: u32_bits, auto)+

lemma and_bit6: "c AND 0x40 = (0 :: u32) \<longleftrightarrow> \<not> bit c 6"
proof -
  have "c AND 0x40 = 0 \<longleftrightarrow> (\<forall>n. \<not> bit (c AND 0x40) n)" by (metis bit_eqI bit_0_eq bot_apply bot_bool_def)
  then show ?thesis by (simp only: u32_bits) auto
qed

lemma shift_bit6: "k \<le> 5 \<Longrightarrow> bit (push_bit 1 c :: u32) (6 - k) = bit c (5 - k)"
  by (simp only: u32_bits) auto

lemma decode_conts:
  assumes "\<And>k. k < n \<Longrightarrow> bit c (6 - k)" "\<not> bit c (6 - n)" "n \<le> 6"
    and "\<And>k. k < n \<Longrightarrow> s ! (i + count + Suc k) = conts n x ! k" "i + count + n < length s"
  shows "decode_loop s i c count res = Some (push_bit n c, count + n, push_bit (6 * n) res OR take_bit (6 * n) x)"
  using assms
proof (induction n arbitrary: c count res)
  case 0
  have "c AND 0x40 = 0" using 0 by (simp add: and_bit6)
  then show ?case by (subst decode_loop.simps) simp
next
  case (Suc n)
  have "c AND 0x40 \<noteq> 0" using Suc.prems(1) [of 0] by (simp add: and_bit6)
  moreover have "s ! (i + count + 1) = ucast (0x80 OR (drop_bit (6 * n) x AND 0x3f))"
    using Suc.prems(4) [of 0] by simp
  ultimately have "decode_loop s i c count res =
      decode_loop s i (push_bit 1 c) (count + 1) (push_bit 6 res OR (drop_bit (6 * n) x AND 0x3f))"
    using Suc.prems(5) cont_byte by (subst decode_loop.simps) (simp add: Let_def)
  also have "\<dots> = Some (push_bit n (push_bit 1 c), count + 1 + n,
      push_bit (6 * n) (push_bit 6 res OR (drop_bit (6 * n) x AND 0x3f)) OR take_bit (6 * n) x)"
  proof (rule Suc.IH)
    show "bit (push_bit 1 c) (6 - k)" if "k < n" for k
      using Suc.prems(1) [of "Suc k"] Suc.prems(3) that shift_bit6 [of k c] by simp
    show "\<not> bit (push_bit 1 c) (6 - n)" using Suc.prems(2,3) shift_bit6 [of n c] by simp
    show "s ! (i + (count + 1) + Suc k) = conts n x ! k" if "k < n" for k
      using Suc.prems(4) [of "Suc k"] that by (simp add: algebra_simps)
  qed (use Suc.prems in auto)
  also have "push_bit (6 * n) (push_bit 6 res OR (drop_bit (6 * n) x AND 0x3f)) OR take_bit (6 * n) x =
      push_bit (6 * Suc n) res OR take_bit (6 * Suc n) x" (is "?l = ?r")
    by (rule bit_word_eqI, simp only: u32_bits) (auto simp: algebra_simps)
  finally show ?case by (simp add: push_bit_push_bit algebra_simps)
qed

text \<open>The codes that take \<open>n\<close> continuation bytes.\<close>

definition takes :: "nat \<Rightarrow> u32 \<Rightarrow> bool" where
  "takes n x = (1 \<le> n \<and> n \<le> 5 \<and> (if n = 1 then 0x80 else 2 ^ (5 * n + 1)) \<le> uint x \<and> uint x < 2 ^ (5 * n + 6))"

lemma takes_cases:
  assumes "takes n x"
  obtains "n = 1" "0x80 \<le> uint x" "uint x < 0x800" | "n = 2" "0x800 \<le> uint x" "uint x < 0x10000"
  | "n = 3" "0x10000 \<le> uint x" "uint x < 0x200000" | "n = 4" "0x200000 \<le> uint x" "uint x < 0x4000000"
  | "n = 5" "0x4000000 \<le> uint x" "uint x < 0x80000000"
proof -
  have "n = 1 \<or> n = 2 \<or> n = 3 \<or> n = 4 \<or> n = 5" using assms by (auto simp: takes_def)
  with assms that show thesis by (auto simp: takes_def)
qed

lemma takes_exists:
  assumes "0x80 \<le> uint x" "uint x < 0x80000000"
  obtains n where "takes n x"
  using assms that [of 1] that [of 2] that [of 3] that [of 4] that [of 5]
  by (simp add: takes_def) linarith

lemma uint_drop_bit_u32: "uint (drop_bit k x :: u32) = uint x div 2 ^ k"
proof -
  have "take_bit 32 (uint x) = uint x" using uint_lt2p [of x] by (intro take_bit_int_eq_self) simp_all
  then have "uint (drop_bit k x) = drop_bit k (uint x)" by (simp only: unsigned_drop_bit_eq) simp
  then show ?thesis by (simp add: drop_bit_eq_div)
qed

lemma bit_bound:
  fixes x :: u32
  assumes "uint x < 2 ^ m" "bit x j"
  shows "j < m"
proof -
  have "take_bit m (uint x) = uint x" using assms(1) by (intro take_bit_int_eq_self) simp_all
  moreover have "bit (uint x) j" using assms(2) bit_imp_le_length [of x j] by (simp add: bit_uint_iff)
  ultimately show ?thesis by (metis bit_take_bit_iff)
qed

lemma utf8esc_takes:
  assumes "takes n x"
  shows "utf8esc x = ucast (push_bit 1 (NOT (drop_bit n 0x3f)) OR drop_bit (6 * n) x) # conts n x"
proof -
  have "utf8esc_loop x 0x3f [] = ucast (push_bit 1 (NOT (drop_bit n 0x3f)) OR drop_bit (6 * n) x) # conts n x @ []"
  proof (rule utf8esc_loop_conts)
    show "0 < n" using assms by (simp add: takes_def)
    show "drop_bit (6 * n) x \<le> drop_bit n 0x3f"
      using assms by (rule takes_cases) (simp_all add: word_le_def uint_drop_bit_u32)
    show "\<not> drop_bit (6 * m) x \<le> drop_bit m 0x3f" if "0 < m" "m < n" for m
    proof -
      have "m = 1 \<or> m = 2 \<or> m = 3 \<or> m = 4" using that assms by (auto simp: takes_def)
      then show ?thesis
        using assms that(2)
        by (elim takes_cases) (auto simp: word_le_def uint_drop_bit_u32)
    qed
  qed
  moreover have "\<not> x < 0x80" using assms by (rule takes_cases) (simp_all add: word_less_def)
  ultimately show ?thesis by (simp add: utf8esc_def)
qed

lemma takes_bits: "takes n x \<Longrightarrow> bit x j \<Longrightarrow> j < 5 * n + 6"
  by (rule bit_bound) (auto simp: takes_def)

lemma lead_bits:
  assumes "takes n x"
  defines "c \<equiv> ucast (ucast (push_bit 1 (NOT (drop_bit n 0x3f)) OR drop_bit (6 * n) x :: u32) :: byte) :: u32"
  shows "bit c j \<longleftrightarrow> j < 8 \<and> (7 - n \<le> j \<or> bit x (6 * n + j))"
  using assms(1) unfolding c_def takes_def by (simp only: u32_bits) auto

lemma utf8Decode_utf8esc:
  assumes "uint x < 0x80000000"
  shows "utf8Decode (pre @ utf8esc x @ rest) (length pre) False = Inr (Some (x, length pre + length (utf8esc x)))"
proof (cases "x < 0x80")
  case True
  then have b: "bit x j \<Longrightarrow> j < 7" for j using bit_bound [of x 7 j] by (simp add: word_less_def)
  have "ucast (ucast x :: byte) = x"
    by (rule bit_word_eqI, simp only: u32_bits) (auto dest: b)
  with True show ?thesis
    by (simp add: utf8Decode_def decode_seq_def byte_at_def nth_append utf8esc_def)
next
  case False
  then have "0x80 \<le> uint x" by (simp add: word_less_def not_less)
  then obtain n where n: "takes n x" using takes_exists assms by blast
  then have n5: "1 \<le> n" "n \<le> 5" by (auto simp: takes_def)
  define b where "b = (ucast (push_bit 1 (NOT (drop_bit n 0x3f)) OR drop_bit (6 * n) x) :: byte)"
  define c where "c = (ucast b :: u32)"
  let ?s = "pre @ utf8esc x @ rest"
  have esc: "utf8esc x = b # conts n x" using utf8esc_takes [OF n] by (simp add: b_def)
  note bits = lead_bits [OF n, folded b_def c_def]
  have loop: "decode_loop ?s (length pre) c 0 0 = Some (push_bit n c, n, take_bit (6 * n) x)"
  proof -
    have "bit c (6 - k)" if "k < n" for k using that n5 bits [of "6 - k"] by auto
    moreover have "\<not> bit c (6 - n)" using n5 bits [of "6 - n"] takes_bits [OF n, of "6 * n + (6 - n)"] by auto
    ultimately show ?thesis
      using decode_conts [of n c ?s "length pre" 0 x 0] n5 by (simp add: esc nth_append)
  qed
  have res: "take_bit (6 * n) x OR push_bit (n * 5) (push_bit n c AND 0x7F) = x"
    by (rule bit_word_eqI, simp only: u32_bits bits) (auto dest: takes_bits [OF n] simp: algebra_simps)
  have "bit c 7" using bits [of 7] n5 by simp
  then have c80: "\<not> c < 0x80" using bit_bound [of c 7 7] by (auto simp: word_less_def)
  have lim: "\<not> (n > 5 \<or> x > maxUTF \<or> x < utf8limits ! n)"
    using n by (rule takes_cases) (auto simp: maxUTF_def utf8limits_def word_less_def)
  show ?thesis
    using c80 loop res lim by (simp add: utf8Decode_def decode_seq_def byte_at_def nth_append esc c_def [symmetric] Let_def)
qed

subsection \<open>The library functions\<close>

definition utf8Char where
  "utf8Char pf tn args =
     rbind (rmap (\<lambda>i. rbind (checkInt pf tn i (arg i args)) (\<lambda>c.
         if sint c < 0 \<or> sint c > uint maxUTF then Inl (ArgError i ''value out of range'')
         else Inr (utf8esc (ucast c))))
       [1..<Suc (length args)]) (\<lambda>bs. Inr (VString (concat bs)))"

lemma decode_seq_next: "decode_seq s i c = Some (v, k) \<Longrightarrow> i \<le> k"
  by (auto simp: decode_seq_def Let_def split: option.splits if_splits)

lemma utf8Decode_next: "utf8Decode s i strict = Inr (Some (v, k)) \<Longrightarrow> i < k"
proof -
  assume *: "utf8Decode s i strict = Inr (Some (v, k))"
  then obtain b where b: "byte_at s (int i) = Inr b" by (auto simp: utf8Decode_def)
  then obtain r j where "decode_seq s i (ucast b) = Some (r, j)"
    using * by (cases "decode_seq s i (ucast b)") (auto simp: utf8Decode_def)
  with * b show "i < k" using decode_seq_next [of s i "ucast b" r j] by (auto simp: utf8Decode_def split: if_splits)
qed

text \<open>The loop of \<open>codepoint\<close>: the codes from \<open>pos\<close> on, while \<open>pos < j\<close>.\<close>

function codepoint_loop :: "bytes \<Rightarrow> int \<Rightarrow> bool \<Rightarrow> nat \<Rightarrow> Value list res" where
  "codepoint_loop s j strict pos =
     (if int pos < j then
        rbind (utf8Decode s pos strict) (\<lambda>r.
          case r of None \<Rightarrow> Inl (LuaError ''invalid UTF-8 code'')
          | Some (val, k) \<Rightarrow> rbind (codepoint_loop s j strict k) (\<lambda>vs. Inr (VInt (ucast val) # vs)))
      else Inr [])"
  by pat_completeness auto
termination
  by (relation "measure (\<lambda>(s, j, strict, pos). nat j - pos)") (auto dest!: utf8Decode_next)

declare codepoint_loop.simps [simp del]

definition utf8Codepoint where
  "utf8Codepoint pf fmtg tn args =
     rbind (checkString fmtg tn 1 (arg 1 args)) (\<lambda>s. let ls = of_nat (length s) :: i64 in
     rbind (optInt pf tn 2 1 (drop 1 args)) (\<lambda>a. let i = strRelIndex a ls in
     rbind (optInt pf tn 3 i (drop 2 args)) (\<lambda>b. let j = strRelIndex b ls; lax = (\<not> IsFalsy (arg 4 args)) in
       if sint i < 1 then Inl (ArgError 2 ''out of bounds'')
       else if sint j > sint ls then Inl (ArgError 3 ''out of bounds'')
       else if sint (j - i) \<ge> 0x7FFFFFFF then Inl (LuaError ''string slice too long'')
       else codepoint_loop s (sint j) (\<not> lax) (nat (sint (i - 1))))))"

function len_loop :: "bytes \<Rightarrow> int \<Rightarrow> bool \<Rightarrow> nat \<Rightarrow> nat \<Rightarrow> Value list res" where
  "len_loop s j strict pos n =
     (if int pos < j then
        rbind (utf8Decode s pos strict) (\<lambda>r.
          case r of None \<Rightarrow> Inr [VNil, VInt (of_nat (pos + 1))]
          | Some (val, k) \<Rightarrow> len_loop s j strict k (n + 1))
      else Inr [VInt (of_nat n)])"
  by pat_completeness auto
termination
  by (relation "measure (\<lambda>(s, j, strict, pos, n). nat j - pos)") (auto dest!: utf8Decode_next)

declare len_loop.simps [simp del]

definition utf8Len where
  "utf8Len pf fmtg tn args =
     rbind (checkString fmtg tn 1 (arg 1 args)) (\<lambda>s. let ls = of_nat (length s) :: i64 in
     rbind (optInt pf tn 2 1 (drop 1 args)) (\<lambda>a. let i = strRelIndex a ls in
     rbind (optInt pf tn 3 (- 1) (drop 2 args)) (\<lambda>b. let j = strRelIndex b ls; lax = (\<not> IsFalsy (arg 4 args)) in
       if sint i < 1 \<or> sint i > sint (ls + 1) then Inl (ArgError 2 ''initial position out of bounds'')
       else if sint j > sint ls then Inl (ArgError 3 ''final position out of bounds'')
       else len_loop s (sint j) (\<not> lax) (nat (sint (i - 1))) 0)))"

definition iscont :: "bytes \<Rightarrow> nat \<Rightarrow> bool" where
  "iscont s p = (p < length s \<and> s ! p AND 0xC0 = 0x80)"

text \<open>Backwards to the first byte of a character, and forwards over continuation bytes.\<close>

fun back_cont :: "bytes \<Rightarrow> nat \<Rightarrow> nat" where
  "back_cont s 0 = 0"
| "back_cont s (Suc p) = (if iscont s (Suc p) then back_cont s p else Suc p)"

function skip_cont :: "bytes \<Rightarrow> nat \<Rightarrow> nat" where
  "skip_cont s p = (if iscont s p then skip_cont s (p + 1) else p)"
  by pat_completeness auto
termination by (relation "measure (\<lambda>(s, p). length s - p)") (auto simp: iscont_def)

declare skip_cont.simps [simp del]

lemma skip_cont_ge: "p \<le> skip_cont s p"
proof (induction s p rule: skip_cont.induct)
  case (1 s p)
  then show ?case by (subst skip_cont.simps) auto
qed

function offset_forward :: "bytes \<Rightarrow> int \<Rightarrow> nat \<Rightarrow> int \<times> nat" where
  "offset_forward s n pos =
     (if n > 0 \<and> pos < length s then offset_forward s (n - 1) (skip_cont s (pos + 1)) else (n, pos))"
  by pat_completeness auto
termination by (relation "measure (\<lambda>(s, n, pos). nat n)") auto

declare offset_forward.simps [simp del]

function offset_back :: "bytes \<Rightarrow> int \<Rightarrow> nat \<Rightarrow> int \<times> nat" where
  "offset_back s n pos = (if n < 0 \<and> pos > 0 then offset_back s (n + 1) (back_cont s (pos - 1)) else (n, pos))"
  by pat_completeness auto
termination by (relation "measure (\<lambda>(s, n, pos). nat (- n))") auto

declare offset_back.simps [simp del]

definition utf8Offset where
  "utf8Offset pf fmtg tn args =
     rbind (checkString fmtg tn 1 (arg 1 args)) (\<lambda>s. rbind (checkInt pf tn 2 (arg 2 args)) (\<lambda>n.
     rbind (optInt pf tn 3 (if sint n \<ge> 0 then 1 else of_nat (length s) + 1) (drop 2 args)) (\<lambda>a.
       let i = strRelIndex a (of_nat (length s)); pos = sint (i - 1) in
       if pos < 0 \<or> pos > int (length s) then Inl (ArgError 3 ''position out of bounds'')
       else let p = nat pos in
         if sint n = 0 then Inr (VInt (of_nat (back_cont s p + 1)))
         else if p < length s \<and> iscont s p then Inl (LuaError ''initial position is a continuation byte'')
         else let (m, q) = (if sint n > 0 then offset_forward s (sint n - 1) p else offset_back s (sint n) p) in
           Inr (if m = 0 then VInt (of_nat (q + 1)) else VNil))))"

text \<open>The check of \<open>codes\<close> and one call of its iterator, with the control value \<open>n\<close>.\<close>

definition codes_start :: "bytes \<Rightarrow> unit res" where
  "codes_start s = (if length s > 0 \<and> s ! 0 AND 0xC0 = 0x80 then Inl (ArgError 1 ''invalid UTF-8 code'') else Inr ())"

definition codes_iter :: "bool \<Rightarrow> bytes \<Rightarrow> i64 \<Rightarrow> Value list res" where
  "codes_iter strict s ctl =
     (if sint ctl < 0 then Inr []
      else let n = nat (sint ctl); n = (if n < length s then skip_cont s n else n) in
        if n \<ge> length s then Inr []
        else rbind (utf8Decode s n strict) (\<lambda>r.
          case r of None \<Rightarrow> Inl (LuaError ''invalid UTF-8 code'')
          | Some (code, k) \<Rightarrow>
              if iscont s k then Inl (LuaError ''invalid UTF-8 code'')
              else Inr [VInt (of_nat (n + 1)), VInt (ucast code)]))"

subsection \<open>Strings built from codes\<close>

lemma codepoint_loop_codes:
  assumes "list_all (\<lambda>c. uint c < 0x80000000) cs"
  shows "codepoint_loop (pre @ concat (map utf8esc cs)) (int (length (pre @ concat (map utf8esc cs)))) False (length pre) =
    Inr (map (\<lambda>c. VInt (ucast c)) cs)"
  using assms
proof (induction cs arbitrary: pre)
  case (Cons c cs)
  have pos: "0 < length (utf8esc c)"
    using utf8Decode_next [of "utf8esc c" 0 False] utf8Decode_utf8esc [of c "[]" "[]"] Cons.prems by simp
  have "utf8Decode (pre @ utf8esc c @ concat (map utf8esc cs)) (length pre) False =
      Inr (Some (c, length pre + length (utf8esc c)))"
    using Cons.prems by (intro utf8Decode_utf8esc) simp
  with pos Cons.IH [of "pre @ utf8esc c"] Cons.prems show ?case
    by (subst codepoint_loop.simps) (simp add: add_pos_nonneg)
qed (simp add: codepoint_loop.simps)

lemma len_loop_codes:
  assumes "list_all (\<lambda>c. uint c < 0x80000000) cs"
  shows "len_loop (pre @ concat (map utf8esc cs)) (int (length (pre @ concat (map utf8esc cs)))) False (length pre) n =
    Inr [VInt (of_nat (n + length cs))]"
  using assms
proof (induction cs arbitrary: pre n)
  case (Cons c cs)
  have pos: "0 < length (utf8esc c)"
    using utf8Decode_next [of "utf8esc c" 0 False] utf8Decode_utf8esc [of c "[]" "[]"] Cons.prems by simp
  have "utf8Decode (pre @ utf8esc c @ concat (map utf8esc cs)) (length pre) False =
      Inr (Some (c, length pre + length (utf8esc c)))"
    using Cons.prems by (intro utf8Decode_utf8esc) simp
  with pos Cons.IH [of "pre @ utf8esc c" "n + 1"] Cons.prems show ?case
    by (subst len_loop.simps) (simp add: add_pos_nonneg)
qed (simp add: len_loop.simps)

lemma utf8Char_codes:
  assumes "list_all (\<lambda>c. uint c < 0x80000000) cs"
  shows "utf8Char pf tn (map (\<lambda>c. VInt (ucast c)) cs) = Inr (VString (concat (map utf8esc cs)))"
proof -
  let ?args = "map (\<lambda>c. VInt (ucast c)) cs"
  have c: "sint (ucast c :: i64) = uint c" "ucast (ucast c :: i64) = c" if "uint c < 0x80000000" for c :: u32
  proof -
    show "sint (ucast c :: i64) = uint c" using that sint_of_int_id [of "uint c"] uint_ge_0 [of c] by simp
    show "ucast (ucast c :: i64) = c" by (rule bit_word_eqI) (auto simp: bit_simps)
  qed
  have "rmap (\<lambda>i. rbind (checkInt pf tn i (arg i ?args)) (\<lambda>c.
         if sint c < 0 \<or> sint c > uint maxUTF then Inl (ArgError i ''value out of range'')
         else Inr (utf8esc (ucast c)))) [1..<Suc (length ?args)] =
      Inr (map (\<lambda>i. utf8esc (cs ! (i - 1))) [1..<Suc (length ?args)])"
  proof (rule rmap_Inr)
    fix i assume "i \<in> set [1..<Suc (length ?args)]"
    then have i: "1 \<le> i" "i - 1 < length cs" "i \<le> length cs" by auto
    then have "uint (cs ! (i - 1)) < 0x80000000" using assms by (simp add: list_all_length)
    from c [OF this] this i show "rbind (checkInt pf tn i (arg i ?args)) (\<lambda>c.
        if sint c < 0 \<or> sint c > uint maxUTF then Inl (ArgError i ''value out of range'')
        else Inr (utf8esc (ucast c))) = Inr (utf8esc (cs ! (i - 1)))"
      by (simp add: arg_def maxUTF_def)
  qed
  moreover have "map (\<lambda>i. utf8esc (cs ! (i - 1))) [1..<Suc (length ?args)] = map utf8esc cs"
    by (rule nth_equalityI) (simp_all del: upt_Suc)
  ultimately show ?thesis by (simp add: utf8Char_def)
qed

text \<open>
  C26: \<open>utf8.char\<close> and \<open>utf8.codepoint\<close> are inverse for all codes up to $2^{31} - 1$: the string made of a list of
  codes decodes (leniently) to the same codes, and \<open>utf8.len\<close> counts them.
\<close>

theorem utf8_roundtrip:
  fixes cs :: "u32 list"
  assumes "list_all (\<lambda>c. uint c \<le> uint maxUTF) cs" "length (concat (map utf8esc cs)) < 0x7FFFFFFF"
  shows "\<exists>s. utf8Char pf tn (map (\<lambda>c. VInt (ucast c)) cs) = Inr (VString s) \<and>
    utf8Codepoint pf fmtg tn [VString s, VInt 1, VInt (- 1), VTrue] = Inr (map (\<lambda>c. VInt (ucast c)) cs) \<and>
    utf8Len pf fmtg tn [VString s, VInt 1, VInt (- 1), VTrue] = Inr [VInt (of_nat (length cs))]"
proof -
  let ?s = "concat (map utf8esc cs)"
  define l where "l = (of_nat (length ?s) :: i64)"
  have ok: "list_all (\<lambda>c. uint c < 0x80000000) cs" using assms(1) by (auto simp: maxUTF_def list_all_iff)
  have len: "sint l = int (length ?s)" unfolding l_def using assms(2) by (intro sint_of_nat_i64) simp
  have l0: "sint l = 0 \<Longrightarrow> l = 0" by (metis signed_eq_0_iff)
  have rel: "strRelIndex 1 l = 1" "strRelIndex (- 1) l = l"
    using len l0 by (cases "length ?s = 0"; simp add: strRelIndex_def)+
  have "l - 1 = word_of_int (int (length ?s) - 1)" "l + 1 = word_of_int (int (length ?s) + 1)" by (simp_all add: l_def)
  then have bounds: "sint (l - 1) = int (length ?s) - 1" "sint (l + 1) = int (length ?s) + 1"
    using assms(2) sint_of_int_id [of "int (length ?s) - 1"] sint_of_int_id [of "int (length ?s) + 1"] by simp_all
  have "utf8Codepoint pf fmtg tn [VString ?s, VInt 1, VInt (- 1), VTrue] = codepoint_loop ?s (int (length ?s)) False 0"
    using rel len bounds assms(2)
    by (simp add: utf8Codepoint_def arg_def optInt_def Let_def l_def [symmetric])
  moreover have "utf8Len pf fmtg tn [VString ?s, VInt 1, VInt (- 1), VTrue] = len_loop ?s (int (length ?s)) False 0 0"
    using rel len bounds assms(2)
    by (simp add: utf8Len_def arg_def optInt_def Let_def l_def [symmetric])
  ultimately show ?thesis
    using codepoint_loop_codes [OF ok, of "[]"] len_loop_codes [OF ok, of "[]" 0] utf8Char_codes [OF ok] by simp
qed

lemma length_utf8esc:
  assumes "uint x < 0x80000000"
  shows "length (utf8esc x) \<le> 6"
proof (cases "x < 0x80")
  case False
  then have "0x80 \<le> uint x" by (simp add: word_less_def not_less)
  then obtain n where "takes n x" using takes_exists assms by blast
  then show ?thesis using utf8esc_takes [of n x] by (simp add: takes_def)
qed (simp add: utf8esc_def)

theorem utf8_roundtrip_witness:
  "\<exists>s. utf8Char (\<lambda>_. (0, None)) typeName [VInt 0x41, VInt 0x20AC] = Inr (VString s) \<and>
    utf8Codepoint (\<lambda>_. (0, None)) (\<lambda>_. []) typeName [VString s, VInt 1, VInt (- 1), VTrue] = Inr [VInt 0x41, VInt 0x20AC] \<and>
    utf8Len (\<lambda>_. (0, None)) (\<lambda>_. []) typeName [VString s, VInt 1, VInt (- 1), VTrue] = Inr [VInt 2]"
  using utf8_roundtrip [where cs = "[0x41, 0x20AC]" and pf = "\<lambda>_. (0, None)" and tn = typeName and fmtg = "\<lambda>_. []"]
    length_utf8esc [of "0x41"] length_utf8esc [of "0x20AC"]
  by (simp add: maxUTF_def)

end
