(* ===== verification/Pack.thy ===== *)
theory Pack
  imports StrLib
begin

text \<open>
  Binary packing (lstrlib_pack.go): the format parser, sized integers in both byte orders, alignment and
  \<open>packsize\<close>, and the length-prefixed string of \<open>unpack\<close>. A format position is the rest of the format from
  there on. Sizes are Go \<open>int\<close>s far from overflow and are \<open>int\<close>s; the packed integers are 64-bit words.
\<close>

datatype kopt = kInt | kUint | kFloat | kNumber | kDouble | kChar | kString | kZstr | kPadding | kPaddalign | kNop

definition packSZINT :: nat where "packSZINT = 8"
definition packMAXINTSIZE :: int where "packMAXINTSIZE = 16"

record packHeader =
  little :: bool
  maxalign :: int

subsection \<open>Formats\<close>

definition packDigit :: "byte \<Rightarrow> bool" where "packDigit c = (of_char CHR ''0'' \<le> c \<and> c \<le> of_char CHR ''9'')"

fun getnum_loop :: "int \<Rightarrow> bytes \<Rightarrow> int \<times> bytes" where
  "getnum_loop a [] = (a, [])"
| "getnum_loop a (c # cs) =
     (let a' = a * 10 + uint (c - of_char CHR ''0'') in
      if cs \<noteq> [] \<and> packDigit (hd cs) \<and> a' \<le> (packMAXSIZE - 9) div 10 then getnum_loop a' cs else (a', cs))"

definition packGetnum :: "bytes \<Rightarrow> int \<Rightarrow> int \<times> bytes" where
  "packGetnum fmt df = (if fmt = [] \<or> \<not> packDigit (hd fmt) then (df, fmt) else getnum_loop 0 fmt)"

definition packGetnumlimit :: "bytes \<Rightarrow> int \<Rightarrow> (int \<times> bytes) res" where
  "packGetnumlimit fmt df =
     (case packGetnum fmt df of (sz, rest) \<Rightarrow>
        if sz > packMAXINTSIZE \<or> sz \<le> 0 then
          Inl (LuaError (''integral size ('' @ map (\<lambda>b. char_of (unat b)) (FormatInt sz) @ '') out of limits [1,16]''))
        else Inr (sz, rest))"

text \<open>\<open>nl\<close>: the host is little-endian (\<open>nativeLittle\<close>). The result: option, size, header and rest.\<close>

definition packGetoption :: "bool \<Rightarrow> packHeader \<Rightarrow> bytes \<Rightarrow> (kopt \<times> int \<times> packHeader \<times> bytes) res" where
  "packGetoption nl h fmt =
     (case fmt of [] \<Rightarrow> Inl GoPanic
      | c # i \<Rightarrow>
         let is = (\<lambda>x. c = of_char x); sized = (\<lambda>opt df. rbind (packGetnumlimit i df) (\<lambda>(sz, i). Inr (opt, sz, h, i))) in
         if is CHR ''b'' then Inr (kInt, 1, h, i)
         else if is CHR ''B'' then Inr (kUint, 1, h, i)
         else if is CHR ''h'' then Inr (kInt, 2, h, i)
         else if is CHR ''H'' then Inr (kUint, 2, h, i)
         else if is CHR ''l'' \<or> is CHR ''j'' then Inr (kInt, 8, h, i)
         else if is CHR ''L'' \<or> is CHR ''J'' \<or> is CHR ''T'' then Inr (kUint, 8, h, i)
         else if is CHR ''f'' then Inr (kFloat, 4, h, i)
         else if is CHR ''n'' then Inr (kNumber, 8, h, i)
         else if is CHR ''d'' then Inr (kDouble, 8, h, i)
         else if is CHR ''i'' then sized kInt 4
         else if is CHR ''I'' then sized kUint 4
         else if is CHR ''s'' then sized kString 8
         else if is CHR ''c'' then
           (case packGetnum i (- 1) of (sz, i) \<Rightarrow>
              if sz = - 1 then Inl (LuaError (''missing size for format option '' @ [CHR 0x27] @ ''c'' @ [CHR 0x27]))
              else Inr (kChar, sz, h, i))
         else if is CHR ''z'' then Inr (kZstr, 0, h, i)
         else if is CHR ''x'' then Inr (kPadding, 1, h, i)
         else if is CHR ''X'' then Inr (kPaddalign, 0, h, i)
         else if is CHR '' '' then Inr (kNop, 0, h, i)
         else if is CHR ''<'' then Inr (kNop, 0, h\<lparr>little := True\<rparr>, i)
         else if is CHR ''>'' then Inr (kNop, 0, h\<lparr>little := False\<rparr>, i)
         else if is CHR ''='' then Inr (kNop, 0, h\<lparr>little := nl\<rparr>, i)
         else if is CHR ''!'' then rbind (packGetnumlimit i 8) (\<lambda>(a, i). Inr (kNop, 0, h\<lparr>maxalign := a\<rparr>, i))
         else Inl (LuaError (''invalid format option '' @ [CHR 0x27] @ [char_of (unat c)] @ [CHR 0x27])))"

text \<open>The result: option, size, padding in front of it, header and rest.\<close>

definition packGetdetails ::
  "bool \<Rightarrow> packHeader \<Rightarrow> int \<Rightarrow> bytes \<Rightarrow> (kopt \<times> int \<times> int \<times> packHeader \<times> bytes) res" where
  "packGetdetails nl h totalsize fmt =
     rbind (packGetoption nl h fmt) (\<lambda>(opt, size, h, i).
     let bad_next = Inl (ArgError 1 (''invalid next option for option '' @ [CHR 0x27] @ ''X'' @ [CHR 0x27])) in
     rbind (if opt = kPaddalign then
              if i = [] then bad_next
              else rbind (packGetoption nl h i) (\<lambda>(o2, align, h, i).
                if o2 = kChar \<or> align = 0 then bad_next else Inr (align, h, i))
            else Inr (size, h, i)) (\<lambda>(align, h, i).
       if align \<le> 1 \<or> opt = kChar then Inr (opt, size, 0, h, i)
       else let align = (if align > maxalign h then maxalign h else align) in
         if align AND (align - 1) \<noteq> 0 then Inl (ArgError 1 ''format asks for alignment not power of 2'')
         else Inr (opt, size, (align - (totalsize AND (align - 1))) AND (align - 1), h, i)))"

subsection \<open>Integers\<close>

definition packIdx :: "nat \<Rightarrow> bool \<Rightarrow> nat \<Rightarrow> nat" where
  "packIdx i lt sz = (if lt then i else sz - 1 - i)"

definition packint :: "bytes \<Rightarrow> i64 \<Rightarrow> bool \<Rightarrow> nat \<Rightarrow> bool \<Rightarrow> bytes" where
  "packint buf n lt sz neg =
     (let tmp = fold (\<lambda>i tmp. tmp[packIdx i lt sz := ucast (drop_bit (8 * i) n AND 0xFF)]) [0..<sz] (replicate sz 0);
          tmp = (if neg \<and> sz > packSZINT
                 then fold (\<lambda>i tmp. tmp[packIdx i lt sz := 0xFF]) [packSZINT..<sz] tmp else tmp)
      in buf @ tmp)"

definition unpackint :: "bytes \<Rightarrow> bool \<Rightarrow> nat \<Rightarrow> bool \<Rightarrow> i64 res" where
  "unpackint b lt sz sgn' =
     (let limit = (if sz > packSZINT then packSZINT else sz);
          res = fold (\<lambda>i res. push_bit 8 res OR ucast (b ! packIdx i lt sz)) (rev [0..<limit]) 0 in
      if sz < packSZINT then
        if sgn' then let mask = push_bit (sz * 8 - 1) 1 in Inr ((res XOR mask) - mask) else Inr res
      else if sz > packSZINT then
        let mask = (if sgn' \<and> sint res < 0 then 0xFF else 0 :: byte) in
        if list_all (\<lambda>i. b ! packIdx i lt sz = mask) [limit..<sz] then Inr res
        else Inl (LuaError (map (\<lambda>b. char_of (unat b)) (FormatInt (int sz)) @ ''-byte integer does not fit into Lua Integer''))
      else Inr res)"

definition readUintLE :: "bytes \<Rightarrow> bool \<Rightarrow> nat \<Rightarrow> i64" where
  "readUintLE b lt sz = fold (\<lambda>i res. push_bit 8 res OR ucast (b ! packIdx i lt sz)) (rev [0..<sz]) 0"

text \<open>The range checks of \<open>strPack\<close> for the options \<open>kInt\<close> and \<open>kUint\<close>.\<close>

definition pack_signed :: "nat \<Rightarrow> bytes \<Rightarrow> i64 \<Rightarrow> bool \<Rightarrow> nat \<Rightarrow> bytes res" where
  "pack_signed a buf n lt sz =
     (if sz < packSZINT \<and> \<not> (- (2 ^ (sz * 8 - 1)) \<le> sint n \<and> sint n < 2 ^ (sz * 8 - 1)) then
        Inl (ArgError a ''integer overflow'')
      else Inr (packint buf n lt sz (sint n < 0)))"

definition pack_unsigned :: "nat \<Rightarrow> bytes \<Rightarrow> i64 \<Rightarrow> bool \<Rightarrow> nat \<Rightarrow> bytes res" where
  "pack_unsigned a buf n lt sz =
     (if sz < packSZINT \<and> uint n \<ge> 2 ^ (sz * 8) then Inl (ArgError a ''unsigned overflow'')
      else Inr (packint buf n lt sz False))"

text \<open>
  The option \<open>kString\<close> of \<open>strUnpack\<close> at position \<open>pos\<close> of the data: the string and the position after its
  length field has been passed over by the loop.
\<close>

definition unpack_string :: "bytes \<Rightarrow> bool \<Rightarrow> nat \<Rightarrow> int \<Rightarrow> (bytes \<times> int) res" where
  "unpack_string data lt sz pos =
     rbind (slice data pos (pos + int sz)) (\<lambda>b. rbind (unpackint b lt sz False) (\<lambda>len.
       let length' = sint len; ld = int (length data) in
       if length' > ld - pos - int sz then Inl (ArgError 2 ''data string too short'')
       else rbind (slice data (pos + int sz) (pos + int sz + length')) (\<lambda>s. Inr (s, pos + length'))))"

subsection \<open>Size of a format\<close>

lemma getnum_loop_length: "length (snd (getnum_loop a fmt)) \<le> length fmt"
proof (induction a fmt rule: getnum_loop.induct)
  case (2 a c cs)
  then show ?case by (auto simp: Let_def intro: le_SucI)
qed simp

lemma packGetnum_length: "packGetnum fmt df = (sz, rest) \<Longrightarrow> length rest \<le> length fmt"
  using getnum_loop_length [of 0 fmt] by (auto simp: packGetnum_def split: if_splits)

lemma packGetnumlimit_length: "packGetnumlimit fmt df = Inr (sz, rest) \<Longrightarrow> length rest \<le> length fmt"
  by (auto simp: packGetnumlimit_def split: prod.splits if_splits dest: packGetnum_length)

lemma packGetoption_length:
  "packGetoption nl h fmt = Inr (opt, sz, h', rest) \<Longrightarrow> length rest < length fmt"
  by (cases fmt)
    (auto simp: packGetoption_def Let_def rbind_Inr_conv split: prod.splits if_splits
      dest!: packGetnum_length packGetnumlimit_length)

lemma packGetdetails_length:
  "packGetdetails nl h tot fmt = Inr (opt, sz, nta, h', rest) \<Longrightarrow> length rest < length fmt"
  by (auto simp: packGetdetails_def Let_def rbind_Inr_conv split: if_splits dest!: packGetoption_length)

function packsize_loop :: "bool \<Rightarrow> packHeader \<Rightarrow> int \<Rightarrow> bytes \<Rightarrow> int res" where
  "packsize_loop nl h tot fmt =
     (if fmt = [] then Inr tot
      else rbind (packGetdetails nl h tot fmt) (\<lambda>(opt, sz, ntoalign, h, rest).
        if opt = kString \<or> opt = kZstr then Inl (ArgError 1 ''variable-length format'')
        else let sz = sz + ntoalign in
          if tot > packMAXSIZE - sz then Inl (ArgError 1 ''format result too large'')
          else packsize_loop nl h (tot + sz) rest))"
  by pat_completeness auto
termination
  by (relation "measure (\<lambda>(nl, h, tot, fmt). length fmt)") (auto dest!: packGetdetails_length)

definition strPacksize :: "bool \<Rightarrow> bytes \<Rightarrow> int res" where
  "strPacksize nl fmt = packsize_loop nl \<lparr> little = nl, maxalign = 1 \<rparr> 0 fmt"

subsection \<open>Round trip of integers\<close>

lemma fold_update_nth:
  assumes "inj_on f (set xs)" "distinct xs"
  shows "length (fold (\<lambda>i t. t[f i := g i]) xs t) = length t \<and>
    (\<forall>i \<in> set xs. f i < length t \<longrightarrow> fold (\<lambda>i t. t[f i := g i]) xs t ! f i = g i) \<and>
    (\<forall>j. j \<notin> f ` set xs \<longrightarrow> fold (\<lambda>i t. t[f i := g i]) xs t ! j = t ! j)"
  using assms
proof (induction xs arbitrary: t)
  case (Cons x xs)
  then have "f x \<notin> f ` set xs" by auto
  with Cons show ?case by auto
qed simp

text \<open>Byte \<open>i\<close> of the packed number, counted from the least significant one.\<close>

definition pack_byte :: "i64 \<Rightarrow> bool \<Rightarrow> nat \<Rightarrow> byte" where
  "pack_byte n neg i = (if neg \<and> packSZINT \<le> i then 0xFF else ucast (drop_bit (8 * i) n))"

lemma ucast_and_ff: "(ucast (x AND 0xFF :: i64) :: byte) = ucast x"
proof -
  have "(0xFF :: i64) = mask 8" by (simp add: mask_eq_exp_minus_1)
  show ?thesis unfolding \<open>0xFF = _\<close> by (rule bit_word_eqI) (auto simp: bit_simps)
qed

lemma packint_byte:
  assumes "i < sz"
  shows "length (packint [] n lt sz neg) = sz" "packint [] n lt sz neg ! packIdx i lt sz = pack_byte n neg i"
proof -
  have inj: "inj_on (\<lambda>i. packIdx i lt sz) {0..<sz}" by (auto simp: inj_on_def packIdx_def)
  have lt: "packIdx i lt sz < sz" using assms by (auto simp: packIdx_def)
  define t1 where "t1 = fold (\<lambda>i tmp. tmp[packIdx i lt sz := (ucast (drop_bit (8 * i) n AND 0xFF) :: byte)]) [0..<sz] (replicate sz 0)"
  have t1: "length t1 = sz" "t1 ! packIdx i lt sz = ucast (drop_bit (8 * i) n)"
    using fold_update_nth [of "\<lambda>i. packIdx i lt sz" "[0..<sz]" "\<lambda>i. ucast (drop_bit (8 * i) n AND 0xFF)" "replicate sz (0 :: byte)"]
      inj lt assms by (auto simp: t1_def ucast_and_ff)
  define t2 where "t2 = fold (\<lambda>i tmp. tmp[packIdx i lt sz := (0xFF :: byte)]) [packSZINT..<sz] t1"
  have "inj_on (\<lambda>i. packIdx i lt sz) {packSZINT..<sz}" using inj by (rule inj_on_subset) auto
  from fold_update_nth [of "\<lambda>i. packIdx i lt sz" "[packSZINT..<sz]" "\<lambda>i. 0xFF" t1] this
  have t2: "length t2 = sz" "packSZINT \<le> i \<Longrightarrow> t2 ! packIdx i lt sz = 0xFF"
    "packIdx i lt sz \<notin> (\<lambda>i. packIdx i lt sz) ` {packSZINT..<sz} \<Longrightarrow> t2 ! packIdx i lt sz = t1 ! packIdx i lt sz"
    using lt assms t1(1) by (auto simp: t2_def)
  have out: "packIdx i lt sz \<notin> (\<lambda>i. packIdx i lt sz) ` {packSZINT..<sz}" if "i < packSZINT"
    using that assms by (auto dest!: inj_onD [OF inj])
  have eq: "packint [] n lt sz neg = (if neg \<and> sz > packSZINT then t2 else t1)"
    by (simp add: packint_def t1_def t2_def Let_def)
  show "length (packint [] n lt sz neg) = sz" by (simp add: eq t1 t2)
  show "packint [] n lt sz neg ! packIdx i lt sz = pack_byte n neg i"
    unfolding eq pack_byte_def using t1 t2 out assms by (cases "packSZINT \<le> i") (auto simp: packSZINT_def)
qed

lemma fold_bytes:
  "fold (\<lambda>i res. push_bit 8 res OR ucast (ucast (drop_bit (8 * i) n) :: byte)) (rev [0..<k]) acc =
    push_bit (8 * k) acc OR take_bit (8 * k) (n :: i64)"
proof (induction k arbitrary: acc)
  case (Suc k)
  have "push_bit (8 * k) (push_bit 8 acc OR ucast (ucast (drop_bit (8 * k) n) :: byte)) OR take_bit (8 * k) n =
      push_bit (8 * Suc k) acc OR take_bit (8 * Suc k) n"
    by (rule bit_word_eqI) (auto simp: bit_simps algebra_simps)
  then show ?case by (simp add: Suc)
qed simp

lemma unpack_value:
  assumes "k \<le> sz" "k \<le> packSZINT"
  shows "fold (\<lambda>i res. push_bit 8 res OR ucast (packint [] n lt sz neg ! packIdx i lt sz)) (rev [0..<k]) 0 = take_bit (8 * k) n"
proof -
  have "fold (\<lambda>i res. push_bit 8 res OR ucast (packint [] n lt sz neg ! packIdx i lt sz)) (rev [0..<k]) 0 =
      fold (\<lambda>i res. push_bit 8 res OR ucast (ucast (drop_bit (8 * i) n) :: byte)) (rev [0..<k]) (0 :: i64)"
    using assms by (intro fold_cong) (auto simp: packint_byte pack_byte_def)
  then show ?thesis by (simp add: fold_bytes)
qed

text \<open>Sign extension by \<open>(x ^ m) - m\<close>.\<close>

lemma sign_bits:
  fixes n :: i64
  assumes "m < 64" "- (2 ^ m) \<le> sint n" "sint n < 2 ^ m" "m \<le> j" "j < 64"
  shows "bit n j = bit n m"
proof -
  have "signed_take_bit m (sint n) = sint n" using assms by (simp add: signed_take_bit_int_eq_self)
  moreover have "bit (signed_take_bit m (sint n)) j = bit (sint n) (min m j)" by (simp add: bit_signed_take_bit_iff)
  ultimately have "bit (sint n) j = bit (sint n) (min m j)" by simp
  then show ?thesis using assms by (simp add: bit_sint_iff min_def split: if_splits)
qed

lemma sign_extend:
  fixes n :: i64
  assumes "m < 64" "- (2 ^ m) \<le> sint n" "sint n < 2 ^ m"
  shows "(take_bit (Suc m) n XOR push_bit m 1) - push_bit m 1 = n"
proof (cases "bit n m")
  case False
  have "take_bit (Suc m) n XOR push_bit m 1 = n OR push_bit m 1"
  proof (rule bit_word_eqI)
    fix j assume "j < LENGTH(64)"
    then show "bit (take_bit (Suc m) n XOR push_bit m 1) j = bit (n OR push_bit m 1) j"
      using False sign_bits [OF assms, of j] by (cases "j < m"; cases "j = m") (auto simp: bit_simps)
  qed
  also have "\<dots> = n + push_bit m 1"
    by (rule disjunctive_add [symmetric]) (use False in \<open>auto simp: bit_simps\<close>)
  finally show ?thesis by simp
next
  case True
  have x: "take_bit (Suc m) n = (take_bit (Suc m) n XOR push_bit m 1) OR push_bit m 1"
    using True by (intro bit_word_eqI) (auto simp: bit_simps)
  also have "\<dots> = (take_bit (Suc m) n XOR push_bit m 1) + push_bit m 1"
    by (rule disjunctive_add [symmetric]) (use True in \<open>auto simp: bit_simps\<close>)
  finally have 1: "take_bit (Suc m) n = (take_bit (Suc m) n XOR push_bit m 1) + push_bit m 1" .
  have "n = take_bit (Suc m) n OR NOT (mask (Suc m))"
  proof (rule bit_word_eqI)
    fix j assume "j < LENGTH(64)"
    then show "bit n j = bit (take_bit (Suc m) n OR NOT (mask (Suc m))) j"
      using True sign_bits [OF assms, of j] by (cases "j \<le> m") (auto simp: bit_simps)
  qed
  also have "\<dots> = take_bit (Suc m) n + NOT (mask (Suc m))"
    by (rule disjunctive_add [symmetric]) (auto simp: bit_simps)
  finally have "n = take_bit (Suc m) n - 2 ^ Suc m" by (simp add: minus_exp_eq_not_mask [symmetric])
  moreover have "push_bit m 1 + push_bit m 1 = (2 ^ Suc m :: i64)" by (simp add: push_bit_of_1)
  ultimately show ?thesis using 1 by (metis (no_types, lifting) add_diff_cancel_right' diff_diff_add)
qed

lemma take_bit_unsigned: "uint (n :: i64) < 2 ^ k \<Longrightarrow> take_bit k n = n"
proof -
  assume "uint n < 2 ^ k"
  then have "uint (take_bit k n) = uint n" by (simp add: unsigned_take_bit_eq take_bit_int_eq_self)
  then show ?thesis by (rule word_uint_eqI)
qed

lemma high_pack_bytes:
  assumes "packSZINT \<le> i"
  shows "pack_byte n neg i = (if neg then 0xFF else 0)"
proof -
  have "drop_bit (8 * i) n = 0" using assms by (intro bit_word_eqI) (auto simp: bit_simps packSZINT_def dest: bit_imp_le_length)
  then show ?thesis using assms by (simp add: pack_byte_def)
qed

lemma unpack_packint:
  assumes "1 \<le> sz"
    and "sz < packSZINT \<Longrightarrow> if sg then - (2 ^ (sz * 8 - 1)) \<le> sint n \<and> sint n < 2 ^ (sz * 8 - 1) else uint n < 2 ^ (sz * 8)"
  shows "unpackint (packint [] n lt sz (sg \<and> sint n < 0)) lt sz sg = Inr n"
proof -
  let ?b = "packint [] n lt sz (sg \<and> sint n < 0)"
  consider "sz < packSZINT" | "sz = packSZINT" | "sz > packSZINT" by linarith
  then show ?thesis
  proof cases
    case 1
    note v = unpack_value [of sz sz n lt "sg \<and> sint n < 0"]
    obtain m where m: "8 * sz = Suc m" "sz * 8 - 1 = m" using assms(1) by (cases "8 * sz") auto
    show ?thesis
    proof (cases sg)
      case True
      with 1 m assms(2) have "(take_bit (8 * sz) n XOR push_bit m 1) - push_bit m 1 = n"
        unfolding m(1) by (intro sign_extend) (auto simp: packSZINT_def)
      with 1 v True m(2) show ?thesis by (simp add: unpackint_def Let_def)
    next
      case False
      with 1 v assms(2) take_bit_unsigned [of n "8 * sz"] show ?thesis by (simp add: unpackint_def Let_def mult.commute)
    qed
  next
    case 2
    have "take_bit 64 n = n" by (simp add: take_bit_word_eq_self)
    with 2 unpack_value [of sz sz n lt "sg \<and> sint n < 0"] show ?thesis by (simp add: unpackint_def Let_def packSZINT_def)
  next
    case 3
    have "take_bit 64 n = n" by (simp add: take_bit_word_eq_self)
    then have v: "fold (\<lambda>i res. push_bit 8 res OR ucast (?b ! packIdx i lt sz)) (rev [0..<packSZINT]) 0 = n"
      using 3 unpack_value [of packSZINT sz n lt "sg \<and> sint n < 0"] by (simp add: packSZINT_def)
    have "list_all (\<lambda>i. ?b ! packIdx i lt sz = (if sg \<and> sint n < 0 then 0xFF else 0)) [packSZINT..<sz]"
      by (auto simp: list_all_iff packint_byte high_pack_bytes)
    with 3 v show ?thesis by (simp add: unpackint_def Let_def)
  qed
qed

text \<open>
  C27: packing an integer into 1 to 16 bytes, signed or unsigned, in either byte order, either raises the
  overflow error or gives bytes that unpack to the same integer.
\<close>

theorem pack_roundtrip:
  assumes "1 \<le> sz" "sz \<le> 16"
  shows "(case pack_signed a [] n lt sz of Inr b \<Rightarrow> length b = sz \<and> unpackint b lt sz True = Inr n
      | Inl e \<Rightarrow> e = ArgError a ''integer overflow'' \<and> sz < 8 \<and> \<not> (- (2 ^ (sz * 8 - 1)) \<le> sint n \<and> sint n < 2 ^ (sz * 8 - 1))) \<and>
    (case pack_unsigned a [] n lt sz of Inr b \<Rightarrow> length b = sz \<and> unpackint b lt sz False = Inr n
      | Inl e \<Rightarrow> e = ArgError a ''unsigned overflow'' \<and> sz < 8 \<and> uint n \<ge> 2 ^ (sz * 8))"
  using unpack_packint [OF assms(1), of True n lt] unpack_packint [OF assms(1), of False n lt]
    packint_byte(1) [of 0 sz n lt] assms(1)
  by (auto simp: pack_signed_def pack_unsigned_def packSZINT_def)

theorem pack_roundtrip_witness:
  "\<exists>b. pack_signed 2 [] (- 300) False 3 = Inr b \<and> unpackint b False 3 True = Inr (- 300)"
  using pack_roundtrip [of 3 2 "- 300" False] by (auto split: sum.splits)

text \<open>
  A length-prefixed string whose 8-byte length field is $2^{63}$ or more makes \<open>string.unpack\<close> slice with
  a negative length: a Go panic instead of the error \<open>data string too short\<close>.
\<close>

lemma unpack_string_panics:
  assumes "length data \<ge> 8" "length data < 2 ^ 62" "unpackint (take 8 data) lt 8 False = Inr len" "sint len < 0"
  shows "unpack_string data lt 8 0 = Inl GoPanic"
  using assms by (simp add: unpack_string_def slice_def Let_def)

lemma unpack_string_panics_witness:
  "unpack_string [0, 0, 0, 0, 0, 0, 0, 0x80] True 8 0 = Inl GoPanic"
proof -
  have u: "unpackint (take 8 [0, 0, 0, 0, 0, 0, 0, 0x80]) True 8 False = Inr 0x8000000000000000"
    by (simp add: unpackint_def packSZINT_def packIdx_def upt_rec)
  show ?thesis
    by (rule unpack_string_panics [OF _ _ u]) simp_all
qed

end
