(* ===== verification/Upvalues.thy ===== *)
theory Upvalues
  imports Values
begin

text \<open>
  Shared variables of closures (lfunc.go, ldo.go), for one Lua thread. An upvalue is an object with an
  identity; the state holds all upvalues ever created (\<open>uheap\<close>, an upvalue is named by its position),
  the list \<open>openuv\<close> of those that alias a stack slot, the stack with the limits that govern its growth,
  and the stack positions \<open>tbc\<close> of the pending to-be-closed variables, which theory ToBeClosed uses.
\<close>

subsection \<open>Model\<close>

record Upvalue =
  u_idx :: int
  u_v :: Value

record LState =
  stack :: "Value list"
  uheap :: "Upvalue list"
  openuv :: "nat list"
  tbc :: "nat list"
  ltop :: nat
  maxStack :: nat
  inErrfunc :: bool

definition isOpen :: "Upvalue \<Rightarrow> bool" where "isOpen u = (u_idx u \<ge> 0)"
definition level :: "Upvalue \<Rightarrow> int" where "level u = u_idx u"

definition stack_get :: "int \<Rightarrow> LState \<Rightarrow> Value res" where
  "stack_get i s = (if 0 \<le> i \<and> i < int (length (stack s)) then Inr (stack s ! nat i) else Inl GoPanic)"

definition stack_set :: "int \<Rightarrow> Value \<Rightarrow> LState \<Rightarrow> LState res" where
  "stack_set i x s =
     (if 0 \<le> i \<and> i < int (length (stack s)) then Inr (s\<lparr>stack := (stack s)[nat i := x]\<rparr>) else Inl GoPanic)"

text \<open>The operations on the upvalue \<open>u\<close>.\<close>

definition uv_get :: "nat \<Rightarrow> LState \<Rightarrow> Value res" where
  "uv_get u s = (let uv = uheap s ! u in if u_idx uv \<ge> 0 then stack_get (u_idx uv) s else Inr (u_v uv))"

definition uv_set :: "nat \<Rightarrow> Value \<Rightarrow> LState \<Rightarrow> LState res" where
  "uv_set u x s =
     (let uv = uheap s ! u in
      if u_idx uv \<ge> 0 then stack_set (u_idx uv) x s
      else Inr (s\<lparr>uheap := (uheap s)[u := uv\<lparr>u_v := x\<rparr>]\<rparr>))"

definition uv_close :: "nat \<Rightarrow> LState \<Rightarrow> LState res" where
  "uv_close u s =
     (let uv = uheap s ! u in
      if u_idx uv \<ge> 0 then
        rbind (stack_get (u_idx uv) s) (\<lambda>v. Inr (s\<lparr>uheap := (uheap s)[u := uv\<lparr>u_v := v, u_idx := - 1\<rparr>]\<rparr>))
      else Inr s)"

definition findupval :: "int \<Rightarrow> LState \<Rightarrow> nat \<times> LState" where
  "findupval lv s =
     (case find (\<lambda>u. isOpen (uheap s ! u) \<and> level (uheap s ! u) = lv) (openuv s) of
        Some u \<Rightarrow> (u, s)
      | None \<Rightarrow> let u = length (uheap s) in
          (u, s\<lparr>uheap := uheap s @ [\<lparr>u_idx = lv, u_v = VNil\<rparr>], openuv := openuv s @ [u]\<rparr>))"

text \<open>The loop of \<open>closeUpvals\<close> over the open list, with the list of those kept.\<close>

fun close_loop :: "int \<Rightarrow> nat list \<Rightarrow> nat list \<Rightarrow> LState \<Rightarrow> LState res" where
  "close_loop lv [] kept s = Inr (s\<lparr>openuv := kept\<rparr>)"
| "close_loop lv (u # us) kept s =
     (if isOpen (uheap s ! u) \<and> level (uheap s ! u) \<ge> lv then rbind (uv_close u s) (close_loop lv us kept)
      else close_loop lv us (kept @ [u]) s)"

definition closeUpvals :: "int \<Rightarrow> LState \<Rightarrow> LState res" where
  "closeUpvals lv s = close_loop lv (openuv s) [] s"

text \<open>\<open>pushClosure\<close>: the upvalues of the new closure; \<open>descs\<close> are the pairs \<open>InStack\<close>, \<open>Index\<close>.\<close>

fun capture_loop :: "(bool \<times> nat) list \<Rightarrow> nat list \<Rightarrow> int \<Rightarrow> LState \<Rightarrow> (nat list \<times> LState) res" where
  "capture_loop [] encup base s = Inr ([], s)"
| "capture_loop ((inStack, i) # ds) encup base s =
     (if inStack then
        (case findupval (base + int i) s of (u, s1) \<Rightarrow>
           rbind (capture_loop ds encup base s1) (\<lambda>(us, s2). Inr (u # us, s2)))
      else if i < length encup then
        rbind (capture_loop ds encup base s) (\<lambda>(us, s2). Inr (encup ! i # us, s2))
      else Inl GoPanic)"

subsection \<open>The invariant\<close>

text \<open>
  The open list names exactly the open upvalues, each once; an open upvalue aliases a slot of the stack,
  and no two of them alias the same slot.
\<close>

definition uv_inv :: "LState \<Rightarrow> bool" where
  "uv_inv s = (distinct (openuv s) \<and> set (openuv s) = {u. u < length (uheap s) \<and> isOpen (uheap s ! u)} \<and>
     (\<forall>u \<in> set (openuv s). level (uheap s ! u) < int (length (stack s))) \<and>
     inj_on (\<lambda>u. level (uheap s ! u)) (set (openuv s)))"

definition fresh_uv :: "int \<Rightarrow> LState \<Rightarrow> LState" where
  "fresh_uv lv s = s\<lparr>uheap := uheap s @ [\<lparr>u_idx = lv, u_v = VNil\<rparr>], openuv := openuv s @ [length (uheap s)]\<rparr>"

lemma findupval_cases:
  assumes "uv_inv s"
  obtains (found) u where "u < length (uheap s)" "u \<in> set (openuv s)" "u_idx (uheap s ! u) = lv" "findupval lv s = (u, s)"
  | (new) "\<And>u. u \<in> set (openuv s) \<Longrightarrow> u_idx (uheap s ! u) \<noteq> lv" "findupval lv s = (length (uheap s), fresh_uv lv s)"
proof (cases "find (\<lambda>u. isOpen (uheap s ! u) \<and> level (uheap s ! u) = lv) (openuv s)")
  case None
  then have "u_idx (uheap s ! u) \<noteq> lv" if "u \<in> set (openuv s)" for u
    using assms that by (auto simp: find_None_iff uv_inv_def level_def)
  moreover have "findupval lv s = (length (uheap s), fresh_uv lv s)"
    using None by (simp add: findupval_def fresh_uv_def Let_def)
  ultimately show thesis by (rule new)
next
  case (Some u)
  then have "u \<in> set (openuv s)" "u_idx (uheap s ! u) = lv" by (auto simp: find_Some_iff level_def)
  with assms Some show thesis by (intro found [of u]) (auto simp: uv_inv_def findupval_def)
qed

lemma uv_inv_fresh:
  assumes "uv_inv s" "0 \<le> lv" "lv < int (length (stack s))" "\<And>u. u \<in> set (openuv s) \<Longrightarrow> u_idx (uheap s ! u) \<noteq> lv"
  shows "uv_inv (fresh_uv lv s)"
proof -
  have lt: "u < length (uheap s)" if "u \<in> set (openuv s)" for u using assms(1) that by (auto simp: uv_inv_def)
  have nth: "uheap (fresh_uv lv s) ! u = (if u = length (uheap s) then \<lparr>u_idx = lv, u_v = VNil\<rparr> else uheap s ! u)"
    if "u \<le> length (uheap s)" for u using that by (auto simp: fresh_uv_def nth_append)
  have "set (openuv (fresh_uv lv s)) = {u. u < length (uheap (fresh_uv lv s)) \<and> isOpen (uheap (fresh_uv lv s) ! u)}"
    using assms(1,2) nth by (auto simp: fresh_uv_def uv_inv_def isOpen_def less_Suc_eq nth_append)
  moreover have "inj_on (\<lambda>u. level (uheap (fresh_uv lv s) ! u)) (set (openuv (fresh_uv lv s)))"
  proof -
    have old: "level (uheap (fresh_uv lv s) ! u) = level (uheap s ! u)" if "u \<in> set (openuv s)" for u
      using lt [OF that] by (simp add: fresh_uv_def nth_append)
    have "inj_on (\<lambda>u. level (uheap s ! u)) (set (openuv s))" using assms(1) by (auto simp: uv_inv_def)
    then have "inj_on (\<lambda>u. level (uheap (fresh_uv lv s) ! u)) (set (openuv s))"
      using old by (simp cong: inj_on_cong)
    moreover have "lv \<notin> (\<lambda>u. level (uheap (fresh_uv lv s) ! u)) ` set (openuv s)"
      using old assms(4) by (auto simp: level_def)
    ultimately show ?thesis using lt by (auto simp: fresh_uv_def level_def)
  qed
  moreover have "distinct (openuv (fresh_uv lv s))" using assms(1) lt by (auto simp: fresh_uv_def uv_inv_def)
  moreover have "level (uheap (fresh_uv lv s) ! u) < int (length (stack (fresh_uv lv s)))" if "u \<in> set (openuv (fresh_uv lv s))" for u
    using assms(1,3) lt nth [of u] that by (auto simp: fresh_uv_def uv_inv_def level_def nth_append)
  ultimately show ?thesis by (simp add: uv_inv_def)
qed

text \<open>What closing does to the upvalues, all at once.\<close>

definition closed_at :: "int \<Rightarrow> Value list \<Rightarrow> Upvalue \<Rightarrow> Upvalue" where
  "closed_at lv st uv = (if u_idx uv \<ge> 0 \<and> u_idx uv \<ge> lv then \<lparr>u_idx = - 1, u_v = st ! nat (u_idx uv)\<rparr> else uv)"

definition after_close :: "int \<Rightarrow> LState \<Rightarrow> LState" where
  "after_close lv s = s\<lparr>uheap := map (closed_at lv (stack s)) (uheap s),
     openuv := filter (\<lambda>u. u_idx (uheap s ! u) < lv) (openuv s)\<rparr>"

lemma close_loop_eq:
  assumes "distinct us" "\<And>u. u \<in> set us \<Longrightarrow> u < length (uheap s) \<and> 0 \<le> u_idx (uheap s ! u) \<and> u_idx (uheap s ! u) < int (length (stack s))"
  shows "close_loop lv us kept s = Inr (s\<lparr>uheap := map (\<lambda>u. if u \<in> set us then closed_at lv (stack s) (uheap s ! u) else uheap s ! u) [0..<length (uheap s)],
     openuv := kept @ filter (\<lambda>u. u_idx (uheap s ! u) < lv) us\<rparr>)"
  using assms
proof (induction us arbitrary: kept s)
  case Nil
  then show ?case by (simp add: map_nth)
next
  case (Cons u us)
  let ?uv = "uheap s ! u"
  have u: "u < length (uheap s)" "0 \<le> u_idx ?uv" "u_idx ?uv < int (length (stack s))" "u \<notin> set us" using Cons.prems by auto
  show ?case
  proof (cases "u_idx ?uv \<ge> lv")
    case True
    define s1 where "s1 = s\<lparr>uheap := (uheap s)[u := ?uv\<lparr>u_v := stack s ! nat (u_idx ?uv), u_idx := - 1\<rparr>]\<rparr>"
    have step: "close_loop lv (u # us) kept s = close_loop lv us kept s1"
      using True u by (simp add: isOpen_def level_def uv_close_def stack_get_def s1_def Let_def)
    have same: "uheap s1 ! v = uheap s ! v" if "v \<noteq> u" for v using that by (simp add: s1_def)
    have new: "uheap s1 ! u = closed_at lv (stack s) ?uv" using u True by (simp add: s1_def closed_at_def)
    have "close_loop lv us kept s1 = Inr (s1\<lparr>uheap := map (\<lambda>v. if v \<in> set us then closed_at lv (stack s1) (uheap s1 ! v) else uheap s1 ! v) [0..<length (uheap s1)],
        openuv := kept @ filter (\<lambda>v. u_idx (uheap s1 ! v) < lv) us\<rparr>)"
      using Cons.prems u(4) same by (intro Cons.IH) (auto simp: s1_def nth_list_update)
    moreover have "filter (\<lambda>v. u_idx (uheap s1 ! v) < lv) us = filter (\<lambda>v. u_idx (uheap s ! v) < lv) us"
      by (intro filter_cong refl) (metis same u(4))
    moreover have "map (\<lambda>v. if v \<in> set us then closed_at lv (stack s1) (uheap s1 ! v) else uheap s1 ! v) [0..<length (uheap s1)] =
        map (\<lambda>v. if v \<in> set (u # us) then closed_at lv (stack s) (uheap s ! v) else uheap s ! v) [0..<length (uheap s)]"
    proof (rule map_cong)
      show "[0..<length (uheap s1)] = [0..<length (uheap s)]" by (simp add: s1_def)
      fix v
      show "(if v \<in> set us then closed_at lv (stack s1) (uheap s1 ! v) else uheap s1 ! v) =
          (if v \<in> set (u # us) then closed_at lv (stack s) (uheap s ! v) else uheap s ! v)"
        using same [of v] new u(4) by (cases "v = u") (auto simp: s1_def)
    qed
    ultimately show ?thesis using step True by (simp add: s1_def)
  next
    case False
    have "close_loop lv (u # us) kept s = close_loop lv us (kept @ [u]) s" using False by (simp add: level_def)
    moreover have "closed_at lv (stack s) ?uv = ?uv" using False by (simp add: closed_at_def)
    ultimately show ?thesis using Cons.IH [of s "kept @ [u]"] Cons.prems False u(4) by (auto intro!: arg_cong [where f = Inr])
  qed
qed

lemma closeUpvals_eq:
  assumes "uv_inv s"
  shows "closeUpvals lv s = Inr (after_close lv s)"
proof -
  have "map (\<lambda>u. if u \<in> set (openuv s) then closed_at lv (stack s) (uheap s ! u) else uheap s ! u) [0..<length (uheap s)] =
      map (closed_at lv (stack s)) (uheap s)"
    using assms by (intro nth_equalityI) (auto simp: uv_inv_def isOpen_def closed_at_def)
  then show ?thesis
    using close_loop_eq [of "openuv s" s lv "[]"] assms
    by (auto simp: closeUpvals_def after_close_def uv_inv_def isOpen_def level_def)
qed

lemma uv_inv_close: "uv_inv s \<Longrightarrow> uv_inv (after_close lv s)"
  unfolding uv_inv_def after_close_def
  by (auto simp: isOpen_def level_def closed_at_def inj_on_def split: if_splits)

lemma uv_inv_stack: "uv_inv s \<Longrightarrow> length st = length (stack s) \<Longrightarrow> uv_inv (s\<lparr>stack := st\<rparr>)"
  by (auto simp: uv_inv_def)

subsection \<open>Variables as boxes\<close>

text \<open>
  The meaning of captured variables: every register holds a variable, a box of its own; capturing a
  register gives its box, and leaving a block gives the registers from \<open>lv\<close> on new boxes.
\<close>

record boxes =
  env :: "nat list"
  bx :: "nat \<Rightarrow> Value"
  nxt :: nat

datatype uop =
    Capture nat
  | GetUp nat
  | SetUp nat Value
  | GetReg nat
  | SetReg nat Value
  | CloseFrom nat

text \<open>
  One operation of the implementation: the handles are the upvalues captured so far, and the
  observation is the value read, if any.
\<close>

definition conc_step :: "uop \<Rightarrow> nat list \<times> LState \<Rightarrow> (Value option \<times> nat list \<times> LState) res" where
  "conc_step op cs = (case cs of (hs, s) \<Rightarrow>
     (case op of
        Capture i \<Rightarrow> if i < length (stack s) then (case findupval (int i) s of (u, s') \<Rightarrow> Inr (None, hs @ [u], s')) else Inl GoPanic
      | GetUp k \<Rightarrow> if k < length hs then rbind (uv_get (hs ! k) s) (\<lambda>v. Inr (Some v, hs, s)) else Inl GoPanic
      | SetUp k v \<Rightarrow> if k < length hs then rbind (uv_set (hs ! k) v s) (\<lambda>s'. Inr (None, hs, s')) else Inl GoPanic
      | GetReg i \<Rightarrow> rbind (stack_get (int i) s) (\<lambda>v. Inr (Some v, hs, s))
      | SetReg i v \<Rightarrow> rbind (stack_set (int i) v s) (\<lambda>s'. Inr (None, hs, s'))
      | CloseFrom i \<Rightarrow> rbind (closeUpvals (int i) s) (\<lambda>s'. Inr (None, hs, s'))))"

definition abs_step :: "uop \<Rightarrow> nat list \<times> boxes \<Rightarrow> (Value option \<times> nat list \<times> boxes) res" where
  "abs_step op as = (case as of (hs, a) \<Rightarrow>
     (case op of
        Capture i \<Rightarrow> if i < length (env a) then Inr (None, hs @ [env a ! i], a) else Inl GoPanic
      | GetUp k \<Rightarrow> if k < length hs then Inr (Some (bx a (hs ! k)), hs, a) else Inl GoPanic
      | SetUp k v \<Rightarrow> if k < length hs then Inr (None, hs, a\<lparr>bx := (bx a)(hs ! k := v)\<rparr>) else Inl GoPanic
      | GetReg i \<Rightarrow> if i < length (env a) then Inr (Some (bx a (env a ! i)), hs, a) else Inl GoPanic
      | SetReg i v \<Rightarrow> if i < length (env a) then Inr (None, hs, a\<lparr>bx := (bx a)(env a ! i := v)\<rparr>) else Inl GoPanic
      | CloseFrom i \<Rightarrow> Inr (None, hs, a\<lparr>env := map (\<lambda>j. if j < i then env a ! j else nxt a + j) [0..<length (env a)],
          bx := (\<lambda>b. if nxt a \<le> b \<and> b < nxt a + length (env a) then bx a (env a ! (b - nxt a)) else bx a b),
          nxt := nxt a + length (env a)\<rparr>)))"

fun run :: "(uop \<Rightarrow> 's \<Rightarrow> (Value option \<times> 's) res) \<Rightarrow> uop list \<Rightarrow> 's \<Rightarrow> Value option list res" where
  "run st [] s = Inr []"
| "run st (op # ops) s = rbind (st op s) (\<lambda>(v, s'). rbind (run st ops s') (\<lambda>vs. Inr (v # vs)))"

text \<open>The simulation relation: \<open>m\<close> gives the box of an upvalue.\<close>

definition sim :: "(nat \<Rightarrow> nat) \<Rightarrow> LState \<Rightarrow> boxes \<Rightarrow> bool" where
  "sim m s a = (uv_inv s \<and> length (env a) = length (stack s) \<and> distinct (env a) \<and> (\<forall>b \<in> set (env a). b < nxt a) \<and>
     (\<forall>i < length (stack s). stack s ! i = bx a (env a ! i)) \<and>
     inj_on m {..<length (uheap s)} \<and>
     (\<forall>u < length (uheap s). m u < nxt a \<and>
        (if isOpen (uheap s ! u) then env a ! nat (u_idx (uheap s ! u)) = m u
         else m u \<notin> set (env a) \<and> u_v (uheap s ! u) = bx a (m u))))"

definition related :: "nat list \<times> LState \<Rightarrow> nat list \<times> boxes \<Rightarrow> bool" where
  "related cs as = (\<exists>m. sim m (snd cs) (snd as) \<and> (\<forall>h \<in> set (fst cs). h < length (uheap (snd cs))) \<and> fst as = map m (fst cs))"

lemma open_slot:
  assumes "sim m s a" "u < length (uheap s)" "isOpen (uheap s ! u)"
  obtains i where "u_idx (uheap s ! u) = int i" "i < length (stack s)" "env a ! i = m u"
proof -
  have "u \<in> set (openuv s)" and pos: "u_idx (uheap s ! u) \<ge> 0" using assms by (auto simp: sim_def uv_inv_def isOpen_def)
  then have lt: "u_idx (uheap s ! u) < int (length (stack s))" using assms(1) by (auto simp: sim_def uv_inv_def level_def)
  have "env a ! nat (u_idx (uheap s ! u)) = m u" using assms by (auto simp: sim_def)
  with pos lt show thesis by (intro that [of "nat (u_idx (uheap s ! u))"]) (auto simp: nat_less_iff)
qed

lemma sim_get:
  assumes "sim m s a" "u < length (uheap s)"
  shows "uv_get u s = Inr (bx a (m u))"
proof (cases "isOpen (uheap s ! u)")
  case True
  then obtain i where "u_idx (uheap s ! u) = int i" "i < length (stack s)" "env a ! i = m u"
    using assms open_slot by blast
  with assms(1) show ?thesis by (auto simp: sim_def uv_get_def stack_get_def Let_def)
next
  case False
  with assms show ?thesis by (auto simp: sim_def uv_get_def isOpen_def Let_def)
qed

lemma box_of_slot:
  assumes "sim m s a" "i < length (stack s)" "u < length (uheap s)"
  shows "m u = env a ! i \<longleftrightarrow> u_idx (uheap s ! u) = int i"
proof (cases "isOpen (uheap s ! u)")
  case True
  then obtain j where "u_idx (uheap s ! u) = int j" "j < length (stack s)" "env a ! j = m u" using assms open_slot by blast
  with assms show ?thesis by (auto simp: sim_def nth_eq_iff_index_eq)
next
  case False
  then have "m u \<notin> set (env a)" using assms by (auto simp: sim_def)
  then show ?thesis using False assms(1,2) by (auto simp: isOpen_def sim_def)
qed

lemma sim_set_slot:
  assumes "sim m s a" "i < length (stack s)"
  shows "sim m (s\<lparr>stack := (stack s)[i := v]\<rparr>) (a\<lparr>bx := (bx a)(env a ! i := v)\<rparr>)"
proof -
  have inv: "uv_inv (s\<lparr>stack := (stack s)[i := v]\<rparr>)" using assms by (intro uv_inv_stack) (auto simp: sim_def)
  have d: "env a ! j = env a ! i \<longleftrightarrow> j = i" if "j < length (stack s)" for j
    using assms that by (auto simp: sim_def nth_eq_iff_index_eq)
  have "m u \<noteq> env a ! i" if "u < length (uheap s)" "\<not> isOpen (uheap s ! u)" for u
    using assms that by (auto simp: sim_def)
  with assms inv d show ?thesis unfolding sim_def by (auto simp: nth_list_update)
qed

lemma sim_set_up:
  assumes "sim m s a" "u < length (uheap s)"
  shows "\<exists>s'. uv_set u v s = Inr s' \<and> length (uheap s') = length (uheap s) \<and> sim m s' (a\<lparr>bx := (bx a)(m u := v)\<rparr>)"
proof (cases "isOpen (uheap s ! u)")
  case True
  then obtain i where i: "u_idx (uheap s ! u) = int i" "i < length (stack s)" "env a ! i = m u"
    using assms open_slot by blast
  then have "uv_set u v s = Inr (s\<lparr>stack := (stack s)[i := v]\<rparr>)" by (simp add: uv_set_def stack_set_def Let_def)
  with sim_set_slot [OF assms(1) i(2), of v] i(3) show ?thesis by simp
next
  case False
  define s' where "s' = s\<lparr>uheap := (uheap s)[u := (uheap s ! u)\<lparr>u_v := v\<rparr>]\<rparr>"
  have set: "uv_set u v s = Inr s'" using False by (simp add: uv_set_def isOpen_def s'_def Let_def)
  have idx: "u_idx (uheap s' ! w) = u_idx (uheap s ! w)" for w
    using assms(2) by (cases "w = u") (simp_all add: s'_def)
  then have inv: "uv_inv s'" using assms(1) by (auto simp: sim_def uv_inv_def isOpen_def level_def s'_def)
  have m: "m w = m u \<longleftrightarrow> w = u" if "w < length (uheap s)" for w
    using assms that by (auto simp: sim_def inj_on_def)
  have env: "m u \<notin> set (env a)" using False assms by (auto simp: sim_def)
  have "sim m s' (a\<lparr>bx := (bx a)(m u := v)\<rparr>)"
    unfolding sim_def
  proof (intro conjI allI impI)
    show "uv_inv s'" by (rule inv)
    show "stack s' ! i = bx (a\<lparr>bx := (bx a)(m u := v)\<rparr>) (env (a\<lparr>bx := (bx a)(m u := v)\<rparr>) ! i)" if "i < length (stack s')" for i
    proof -
      have i: "i < length (stack s)" using that by (simp add: s'_def)
      then have "env a ! i \<noteq> m u" using env assms(1) by (metis nth_mem sim_def)
      with i assms(1) show ?thesis by (simp add: sim_def s'_def)
    qed
    fix w assume w: "w < length (uheap s')"
    then have w': "w < length (uheap s)" by (simp add: s'_def)
    show "m w < nxt (a\<lparr>bx := (bx a)(m u := v)\<rparr>)" using assms(1) w' by (auto simp: sim_def)
    have v: "u_v (uheap s' ! w) = (if w = u then v else u_v (uheap s ! w))" using w' by (simp add: s'_def)
    show "if isOpen (uheap s' ! w) then env (a\<lparr>bx := (bx a)(m u := v)\<rparr>) ! nat (u_idx (uheap s' ! w)) = m w
        else m w \<notin> set (env (a\<lparr>bx := (bx a)(m u := v)\<rparr>)) \<and> u_v (uheap s' ! w) = bx (a\<lparr>bx := (bx a)(m u := v)\<rparr>) (m w)"
      using assms(1) w' m [OF w'] v idx [of w] by (auto simp: sim_def isOpen_def)
  qed (use assms(1) in \<open>auto simp: sim_def s'_def\<close>)
  with set show ?thesis by (auto simp: s'_def)
qed

lemma sim_capture:
  assumes "sim m s a" "i < length (stack s)"
  shows "\<exists>m'. sim m' (snd (findupval (int i) s)) a \<and> fst (findupval (int i) s) < length (uheap (snd (findupval (int i) s))) \<and>
    length (uheap s) \<le> length (uheap (snd (findupval (int i) s))) \<and>
    m' (fst (findupval (int i) s)) = env a ! i \<and> (\<forall>u < length (uheap s). m' u = m u)"
proof -
  have inv: "uv_inv s" using assms(1) by (simp add: sim_def)
  then show ?thesis
  proof (cases rule: findupval_cases [where lv = "int i"])
    case (found u)
    then have "m u = env a ! i" using box_of_slot [OF assms found(1)] by simp
    with found assms(1) show ?thesis by auto
  next
    case new
    let ?u = "length (uheap s)" and ?s = "fresh_uv (int i) s"
    have no: "m w \<noteq> env a ! i" if "w < ?u" for w
      using box_of_slot [OF assms that] new(1) [of w] inv that by (auto simp: uv_inv_def isOpen_def)
    have inv': "uv_inv ?s" using inv assms(2) new(1) by (intro uv_inv_fresh) auto
    have inj: "inj_on (m(?u := env a ! i)) {..<Suc ?u}"
    proof -
      have "inj_on m {..<?u}" using assms(1) by (simp add: sim_def)
      moreover have "env a ! i \<notin> m ` {..<?u}" using no by (metis imageE lessThan_iff)
      ultimately have "inj_on (m(?u := env a ! i)) (insert ?u {..<?u})"
        by (auto simp: inj_on_fun_updI intro!: inj_on_fun_updI)
      then show ?thesis by (simp add: lessThan_Suc)
    qed
    have "sim (m(?u := env a ! i)) ?s a"
      unfolding sim_def
    proof (intro conjI allI impI)
      fix w assume "w < length (uheap ?s)"
      then have "w < ?u \<or> w = ?u" by (auto simp: fresh_uv_def)
      moreover have "env a ! i < nxt a" using assms by (auto simp: sim_def)
      ultimately show "(m(?u := env a ! i)) w < nxt a"
        "if isOpen (uheap ?s ! w) then env a ! nat (u_idx (uheap ?s ! w)) = (m(?u := env a ! i)) w
         else (m(?u := env a ! i)) w \<notin> set (env a) \<and> u_v (uheap ?s ! w) = bx a ((m(?u := env a ! i)) w)"
        using assms(1) by (auto simp: sim_def fresh_uv_def nth_append isOpen_def)
    qed (use assms(1) inv' inj in \<open>auto simp: sim_def fresh_uv_def lessThan_Suc\<close>)
    with new(2) show ?thesis by (intro exI [of _ "m(?u := env a ! i)"]) (auto simp: fresh_uv_def)
  qed
qed

lemma sim_close:
  assumes "sim m s a"
  shows "sim m (after_close (int i) s) (a\<lparr>env := map (\<lambda>j. if j < i then env a ! j else nxt a + j) [0..<length (env a)],
          bx := (\<lambda>b. if nxt a \<le> b \<and> b < nxt a + length (env a) then bx a (env a ! (b - nxt a)) else bx a b),
          nxt := nxt a + length (env a)\<rparr>)" (is "sim m ?s ?a")
proof -
  let ?n = "length (env a)"
  have len: "?n = length (stack s)" and lt: "env a ! j < nxt a" if "j < ?n" for j using assms that by (auto simp: sim_def)
  have len': "?n = length (stack s)" using assms by (simp add: sim_def)
  have inv: "uv_inv ?s" using assms by (intro uv_inv_close) (simp add: sim_def)
  have dist: "distinct (env ?a)"
  proof -
    have "env ?a ! j \<noteq> env ?a ! k" if "j < ?n" "k < ?n" "j \<noteq> k" for j k
    proof -
      have "env a ! j < nxt a" "env a ! k < nxt a" "env a ! j \<noteq> env a ! k"
        using that lt nth_eq_iff_index_eq [of "env a" j k] assms by (auto simp: sim_def)
      with that show ?thesis by auto
    qed
    then show ?thesis by (simp add: distinct_conv_nth)
  qed
  have low: "bx ?a b = bx a b" if "b < nxt a" for b using that by simp
  show ?thesis
    unfolding sim_def
  proof (intro conjI allI ballI impI)
    show "stack ?s ! j = bx ?a (env ?a ! j)" if "j < length (stack ?s)" for j
    proof -
      have j: "j < length (env a)" "env a ! j < nxt a" "stack s ! j = bx a (env a ! j)"
        using that assms by (auto simp: after_close_def sim_def)
      then show ?thesis by (simp add: after_close_def)
    qed
    fix u assume "u < length (uheap ?s)"
    then have u: "u < length (uheap s)" by (simp add: after_close_def)
    then have mu: "m u < nxt a" using assms by (auto simp: sim_def)
    then show "m u < nxt ?a" by simp
    have uh: "uheap ?s ! u = closed_at (int i) (stack s) (uheap s ! u)" using u by (simp add: after_close_def)
    show "if isOpen (uheap ?s ! u) then env ?a ! nat (u_idx (uheap ?s ! u)) = m u
        else m u \<notin> set (env ?a) \<and> u_v (uheap ?s ! u) = bx ?a (m u)"
    proof (cases "isOpen (uheap s ! u)")
      case True
      then obtain k where k: "u_idx (uheap s ! u) = int k" "k < length (stack s)" "env a ! k = m u"
        using assms u open_slot by blast
      have other: "env a ! j = m u \<longleftrightarrow> j = k" if "j < ?n" for j
        using nth_eq_iff_index_eq [of "env a" j k] assms that k len' by (auto simp: sim_def)
      have vk: "stack s ! k = bx a (m u)" using assms k by (auto simp: sim_def)
      show ?thesis
      proof (cases "i \<le> k")
        case True
        then have "m u \<noteq> env a ! j" if "j < i" "j < ?n" for j using other [of j] that by auto
        moreover have "uheap ?s ! u = \<lparr>u_idx = - 1, u_v = bx a (m u)\<rparr>" using True uh k vk by (simp add: closed_at_def)
        ultimately show ?thesis using mu by (auto simp: isOpen_def) metis
      next
        case False
        then have "uheap ?s ! u = uheap s ! u" using uh k by (simp add: closed_at_def)
        with False k len' show ?thesis by (simp add: isOpen_def)
      qed
    next
      case False
      then have "closed_at (int i) (stack s) (uheap s ! u) = uheap s ! u" by (simp add: closed_at_def isOpen_def)
      moreover have "m u \<notin> set (env a)" "u_v (uheap s ! u) = bx a (m u)" using False assms u by (auto simp: sim_def)
      ultimately show ?thesis using False mu uh by auto
    qed
  next
    fix b assume "b \<in> set (env ?a)"
    then obtain j where "j < ?n" "b = (if j < i then env a ! j else nxt a + j)" by auto
    then show "b < nxt ?a" using lt [of j] by (auto split: if_splits)
  qed (use assms inv dist in \<open>auto simp: sim_def after_close_def\<close>)
qed

lemma related_step:
  assumes "related cs as"
  shows "case conc_step op cs of Inl e \<Rightarrow> abs_step op as = Inl e
    | Inr (v, cs') \<Rightarrow> \<exists>as'. abs_step op as = Inr (v, as') \<and> related cs' as'"
proof -
  obtain hs s where cs: "cs = (hs, s)" by (cases cs)
  obtain ah a where as: "as = (ah, a)" by (cases as)
  obtain m where sim: "sim m s a" and hs: "\<forall>h \<in> set hs. h < length (uheap s)" and ah: "ah = map m hs"
    using assms by (auto simp: related_def cs as)
  have len: "length (env a) = length (stack s)" and inv: "uv_inv s" and
    st: "i < length (stack s) \<Longrightarrow> stack s ! i = bx a (env a ! i)" for i
    using sim by (auto simp: sim_def)
  show ?thesis
  proof (cases op)
    case (Capture i)
    show ?thesis
    proof (cases "i < length (stack s)")
      case True
      obtain m' where m': "sim m' (snd (findupval (int i) s)) a" "fst (findupval (int i) s) < length (uheap (snd (findupval (int i) s)))"
        "length (uheap s) \<le> length (uheap (snd (findupval (int i) s)))"
        "m' (fst (findupval (int i) s)) = env a ! i" "\<forall>u < length (uheap s). m' u = m u"
        using sim_capture [OF sim True] by blast
      have "map m' hs = map m hs" using m'(5) hs by auto
      then show ?thesis
        using True m' hs len
        by (auto simp: Capture conc_step_def abs_step_def cs as ah related_def split: prod.splits intro!: exI [of _ m'])
    qed (simp add: Capture conc_step_def abs_step_def cs as len)
  next
    case (GetUp k)
    then show ?thesis
      using sim_get [OF sim] hs sim by (auto simp: conc_step_def abs_step_def cs as ah related_def)
  next
    case (SetUp k v)
    show ?thesis
    proof (cases "k < length hs")
      case True
      then obtain s' where s': "uv_set (hs ! k) v s = Inr s'" "length (uheap s') = length (uheap s)"
        "sim m s' (a\<lparr>bx := (bx a)(m (hs ! k) := v)\<rparr>)" using sim_set_up [OF sim] hs by (metis nth_mem)
      then show ?thesis
        using True hs by (auto simp: SetUp conc_step_def abs_step_def cs as ah related_def)
    qed (simp add: SetUp conc_step_def abs_step_def cs as ah)
  next
    case (GetReg i)
    then show ?thesis
      using st sim hs len by (auto simp: conc_step_def abs_step_def stack_get_def cs as ah related_def)
  next
    case (SetReg i v)
    then show ?thesis
      using sim_set_slot [OF sim, of i v] hs len by (auto simp: conc_step_def abs_step_def stack_set_def cs as ah related_def)
  next
    case (CloseFrom i)
    have "length (uheap (after_close (int i) s)) = length (uheap s)" by (simp add: after_close_def)
    then show ?thesis
      using sim_close [OF sim, of i] hs inv
      by (auto simp: CloseFrom conc_step_def abs_step_def closeUpvals_eq cs as ah related_def)
  qed
qed

lemma related_run: "related cs as \<Longrightarrow> run conc_step ops cs = run abs_step ops as"
proof (induction ops arbitrary: cs as)
  case (Cons op ops)
  show ?case
    using related_step [OF Cons.prems, of op] Cons.IH by (auto split: sum.splits)
qed simp

definition init_state :: "Value list \<Rightarrow> nat \<Rightarrow> LState" where
  "init_state regs mx = \<lparr>stack = regs, uheap = [], openuv = [], tbc = [], ltop = 0, maxStack = mx, inErrfunc = False\<rparr>"

definition init_boxes :: "Value list \<Rightarrow> boxes" where
  "init_boxes regs = \<lparr>env = [0..<length regs], bx = (\<lambda>b. if b < length regs then regs ! b else VNil), nxt = length regs\<rparr>"

text \<open>
  C16: the open and closed upvalues implement shared variables: for every sequence of captures, reads and
  writes through registers and upvalues, and block exits, the implementation reads exactly the values
  that a semantics with one box per variable reads, and fails exactly where it fails.
\<close>

theorem upvalues_refine_boxes: "run conc_step ops ([], init_state regs mx) = run abs_step ops ([], init_boxes regs)"
proof (rule related_run)
  show "related ([], init_state regs mx) ([], init_boxes regs)"
    by (simp add: related_def sim_def init_state_def init_boxes_def uv_inv_def)
qed

end
