(* ===== verification/ToBeClosed.thy ===== *)
theory ToBeClosed
  imports Upvalues
begin

text \<open>
  To-be-closed variables and the unwinding of protected calls (ldo.go, lauxlib.go) over the state of
  theory Upvalues, with the growth of the value stack (lstate.go). Running Lua code is a parameter:
  \<open>call\<close> stands for \<open>L.call(fi, 0)\<close>, the execution of the user's function at stack index \<open>fi\<close>, \<open>tm\<close>
  for the \<open>__close\<close> metamethod that \<open>gettmByObj\<close> finds in the metatable of a value, and \<open>rte\<close> for the
  error value that \<open>runtimeError\<close> makes of a message by adding the position.
\<close>

subsection \<open>The value stack\<close>

definition extraStack :: nat where "extraStack = 5"
definition ErrorStackReserve :: nat where "ErrorStackReserve = 200"

text \<open>\<open>growSize\<close> doubles until the size is enough; it would not end for an empty stack.\<close>

function growSize :: "nat \<Rightarrow> nat \<Rightarrow> nat option" where
  "growSize cur need = (if cur < need then if cur = 0 then None else growSize (cur * 2) need else Some cur)"
  by auto
termination by (relation "measure (\<lambda>(cur, need). need - cur)") auto

declare growSize.simps [simp del]

text \<open>A failed check raises \<open>Inl\<close> its message; the memory beyond the old stack is cleared by \<open>make\<close>.\<close>

definition checkstack :: "nat \<Rightarrow> LState \<Rightarrow> (string + LState) option" where
  "checkstack n s =
     (let need = ltop s + n; mx = maxStack s + ErrorStackReserve in
      if inErrfunc s \<and> need > mx then Some (Inl ''error in error handling'')
      else if \<not> inErrfunc s \<and> need > maxStack s then Some (Inl ''stack overflow'')
      else if need + extraStack > length (stack s) then
        (case growSize (length (stack s)) (need + extraStack) of
           None \<Rightarrow> None
         | Some want \<Rightarrow> let want = min want mx in
             Some (Inr (s\<lparr>stack := take want (stack s) @ replicate (want - length (stack s)) VNil\<rparr>)))
      else Some (Inr s))"

text \<open>
  How a piece of Go code ends: it returns, raises a Lua error (a Go panic that carries it), panics
  otherwise, or runs forever.
\<close>

datatype outcome =
    Returns LState
  | Raises Value LState
  | Panics
  | Diverges

fun obind :: "outcome \<Rightarrow> (LState \<Rightarrow> outcome) \<Rightarrow> outcome" where
  "obind (Returns s) f = f s"
| "obind (Raises e s) f = Raises e s"
| "obind Panics f = Panics"
| "obind Diverges f = Diverges"

definition push :: "(string \<Rightarrow> Value) \<Rightarrow> Value \<Rightarrow> LState \<Rightarrow> outcome" where
  "push rte v s =
     (case checkstack 1 s of
        None \<Rightarrow> Diverges
      | Some (Inl msg) \<Rightarrow> Raises (rte msg) s
      | Some (Inr s1) \<Rightarrow>
          (case stack_set (int (ltop s1)) v s1 of
             Inl e \<Rightarrow> Panics
           | Inr s2 \<Rightarrow> Returns (s2\<lparr>ltop := ltop s2 + 1\<rparr>)))"

subsection \<open>Closing\<close>

type_synonym caller = "nat \<Rightarrow> LState \<Rightarrow> outcome"

text \<open>
  \<open>newtbcupval\<close>, without the case of a coroutine on the synchronous path, which is promoted first.
  Its error message names the variable by \<open>nm\<close>, found in the debug information.
\<close>

definition newtbcupval :: "(string \<Rightarrow> Value) \<Rightarrow> (Value \<Rightarrow> LState \<Rightarrow> Value) \<Rightarrow> string \<Rightarrow> nat \<Rightarrow> LState \<Rightarrow> outcome" where
  "newtbcupval rte tm nm lv s =
     (case stack_get (int lv) s of
        Inl e \<Rightarrow> Panics
      | Inr v \<Rightarrow>
          if v = VNil \<or> v = VFalse then Returns s
          else if tm v s = VNil then Raises (rte (''variable '' @ [CHR 39] @ nm @ [CHR 39] @ '' got a non-closable value'')) s
          else Returns (s\<lparr>tbc := tbc s @ [lv]\<rparr>))"

text \<open>\<open>callClose\<close>: one protected call; its result is the error raised, if any.\<close>

definition callClose ::
  "(string \<Rightarrow> Value) \<Rightarrow> caller \<Rightarrow> Value \<Rightarrow> Value \<Rightarrow> Value \<Rightarrow> LState \<Rightarrow> outcome" where
  "callClose rte call f v errobj s =
     (case obind (push rte f s) (\<lambda>s1. obind (push rte v s1) (\<lambda>s2. obind (push rte errobj s2) (call (ltop s)))) of
        Returns s' \<Rightarrow> Returns (s'\<lparr>ltop := ltop s\<rparr>)
      | Raises e s' \<Rightarrow> Raises e (s'\<lparr>ltop := ltop s\<rparr>)
      | r \<Rightarrow> r)"

text \<open>
  \<open>runCloses\<close>: the loop, with the pending error and the error object that the handlers get. \<open>None\<close> is
  a loop that does not end, \<open>Some (Inl _)\<close> a Go panic that passes through.
\<close>

partial_function (option) runCloses_loop ::
  "(string \<Rightarrow> Value) \<Rightarrow> caller \<Rightarrow> (Value \<Rightarrow> LState \<Rightarrow> Value) \<Rightarrow> nat \<Rightarrow> Value option \<Rightarrow> Value \<Rightarrow> LState \<Rightarrow> (Value option \<times> LState) res option" where
  "runCloses_loop rte call tm lv pending errobj s =
     (if tbc s \<noteq> [] \<and> last (tbc s) \<ge> lv then
        let idx = last (tbc s); s = s\<lparr>tbc := butlast (tbc s)\<rparr> in
        (case stack_get (int idx) s of
           Inl e \<Rightarrow> Some (Inl e)
         | Inr v \<Rightarrow>
             (case callClose rte call (tm v s) v errobj s of
                Returns s' \<Rightarrow> runCloses_loop rte call tm lv pending errobj s'
              | Raises e s' \<Rightarrow> runCloses_loop rte call tm lv (Some e) e s'
              | Panics \<Rightarrow> Some (Inl GoPanic)
              | Diverges \<Rightarrow> None))
      else Some (Inr (pending, s)))"

declare runCloses_loop.simps [code]

definition err_value :: "Value option \<Rightarrow> Value" where
  "err_value p = (case p of None \<Rightarrow> VNil | Some e \<Rightarrow> e)"

definition runCloses ::
  "(string \<Rightarrow> Value) \<Rightarrow> caller \<Rightarrow> (Value \<Rightarrow> LState \<Rightarrow> Value) \<Rightarrow> nat \<Rightarrow> Value option \<Rightarrow> LState \<Rightarrow> (Value option \<times> LState) res option" where
  "runCloses rte call tm lv pending s = runCloses_loop rte call tm lv pending (err_value pending) s"

definition closeTBC ::
  "(string \<Rightarrow> Value) \<Rightarrow> caller \<Rightarrow> (Value \<Rightarrow> LState \<Rightarrow> Value) \<Rightarrow> nat \<Rightarrow> Value \<Rightarrow> LState \<Rightarrow> outcome" where
  "closeTBC rte call tm lv errobj s =
     (case runCloses rte call tm lv (if errobj = VNil then None else Some errobj) s of
        None \<Rightarrow> Diverges
      | Some (Inl e) \<Rightarrow> Panics
      | Some (Inr (Some e, s')) \<Rightarrow> Raises e s'
      | Some (Inr (None, s')) \<Rightarrow> Returns s')"

definition closeAll ::
  "(string \<Rightarrow> Value) \<Rightarrow> caller \<Rightarrow> (Value \<Rightarrow> LState \<Rightarrow> Value) \<Rightarrow> nat \<Rightarrow> Value \<Rightarrow> LState \<Rightarrow> outcome" where
  "closeAll rte call tm lv errobj s =
     (case closeUpvals (int lv) s of Inl e \<Rightarrow> Panics | Inr s1 \<Rightarrow> closeTBC rte call tm lv errobj s1)"

text \<open>
  What \<open>protect\<close> (the \<open>pcall\<close> of Lua code) and \<open>pcall\<close> (the one of the Go interface) do when the call
  raised \<open>le\<close>; \<open>funcIdx\<close>, \<open>savedTBC\<close> and \<open>savedTop\<close> are what they saved before it.
\<close>

definition protect_unwind ::
  "(string \<Rightarrow> Value) \<Rightarrow> caller \<Rightarrow> (Value \<Rightarrow> LState \<Rightarrow> Value) \<Rightarrow> nat \<Rightarrow> nat \<Rightarrow> nat \<Rightarrow> Value \<Rightarrow> LState \<Rightarrow> (Value \<times> LState) res option" where
  "protect_unwind rte call tm funcIdx savedTBC savedTop le s =
     (case closeUpvals (int funcIdx) s of
        Inl e \<Rightarrow> Some (Inl e)
      | Inr s1 \<Rightarrow>
          if savedTBC < length (tbc s1) then
            (case runCloses rte call tm funcIdx (Some le) s1 of
               None \<Rightarrow> None
             | Some (Inl e) \<Rightarrow> Some (Inl e)
             | Some (Inr (final, s2)) \<Rightarrow>
                 Some (Inr (case final of None \<Rightarrow> le | Some e \<Rightarrow> e,
                            s2\<lparr>tbc := take savedTBC (tbc s2), ltop := savedTop\<rparr>)))
          else Some (Inr (le, s1\<lparr>ltop := savedTop\<rparr>)))"

definition pcall_unwind :: "nat \<Rightarrow> nat \<Rightarrow> nat \<Rightarrow> Value \<Rightarrow> LState \<Rightarrow> (Value \<times> LState) res" where
  "pcall_unwind funcIdx savedTBC savedTop le s =
     (case closeUpvals (int funcIdx) s of
        Inl e \<Rightarrow> Inl e
      | Inr s1 \<Rightarrow> Inr (le, s1\<lparr>ltop := savedTop, tbc := take savedTBC (tbc s1)\<rparr>))"

subsection \<open>Stack growth\<close>

definition stack_ok :: "LState \<Rightarrow> bool" where
  "stack_ok s = (0 < length (stack s) \<and> length (stack s) \<le> maxStack s + ErrorStackReserve)"

lemma growSize_enough: "0 < cur \<Longrightarrow> \<exists>w. growSize cur need = Some w \<and> need \<le> w \<and> cur \<le> w"
proof (induction cur need rule: growSize.induct)
  case (1 cur need)
  show ?case
  proof (cases "cur < need")
    case True
    then obtain w where "growSize (cur * 2) need = Some w" "need \<le> w" "cur * 2 \<le> w" using 1 by auto
    then show ?thesis using True 1(2) by (subst growSize.simps) auto
  qed (subst growSize.simps, simp)
qed

text \<open>What a successful check leaves: the old slots as they were, new ones nil, and room for \<open>n\<close> more.\<close>

definition grown :: "nat \<Rightarrow> LState \<Rightarrow> LState \<Rightarrow> bool" where
  "grown n s s' = (\<exists>k. s' = s\<lparr>stack := stack s @ replicate k VNil\<rparr> \<and> ltop s + n \<le> length (stack s')) "

lemma checkstack_cases:
  assumes "stack_ok s"
  obtains (fails) msg where "checkstack n s = Some (Inl msg)"
  | (grows) s' where "checkstack n s = Some (Inr s')" "stack_ok s'" "grown n s s'"
proof -
  let ?need = "ltop s + n" and ?mx = "maxStack s + ErrorStackReserve"
  obtain w where w: "growSize (length (stack s)) (?need + extraStack) = Some w" "?need + extraStack \<le> w" "length (stack s) \<le> w"
    using assms growSize_enough [of "length (stack s)" "?need + extraStack"] by (auto simp: stack_ok_def)
  consider "inErrfunc s \<and> ?need > ?mx \<or> \<not> inErrfunc s \<and> ?need > maxStack s"
    | "?need \<le> ?mx" "\<not> (inErrfunc s \<and> ?need > ?mx)" "\<not> (\<not> inErrfunc s \<and> ?need > maxStack s)" by linarith
  then show thesis
  proof cases
    case 1
    then show thesis using fails by (auto simp: checkstack_def Let_def)
  next
    case 2
    show thesis
    proof (cases "?need + extraStack > length (stack s)")
      case True
      let ?s = "s\<lparr>stack := stack s @ replicate (min w ?mx - length (stack s)) VNil\<rparr>"
      have le: "length (stack s) \<le> min w ?mx" using w(3) assms by (simp add: stack_ok_def)
      from le have "checkstack n s = Some (Inr ?s)" using 2 True w(1) by (simp add: checkstack_def Let_def)
      moreover have "stack_ok ?s" using assms le by (cases "stack s") (auto simp: stack_ok_def)
      moreover have "grown n s ?s" using 2(1) w assms unfolding grown_def by (intro exI conjI refl) (auto simp: stack_ok_def)
      ultimately show thesis by (rule grows)
    next
      case False
      then have "checkstack n s = Some (Inr s)" using 2 by (auto simp: checkstack_def Let_def)
      moreover have "grown n s s" using False unfolding grown_def by (intro exI [of _ 0]) auto
      ultimately show thesis using assms grows by blast
    qed
  qed
qed

lemma push_cases:
  assumes "stack_ok s"
  obtains (fails) msg where "push rte v s = Raises (rte msg) s"
  | (pushed) s' k where "push rte v s = Returns s'" "stack_ok s'"
      "s' = s\<lparr>stack := (stack s @ replicate k VNil)[ltop s := v], ltop := ltop s + 1\<rparr>"
  using assms
proof (cases rule: checkstack_cases [of s 1])
  case (fails msg)
  then show thesis using that(1) [of msg] by (simp add: push_def)
next
  case (grows s1)
  then obtain k where k: "s1 = s\<lparr>stack := stack s @ replicate k VNil\<rparr>" "ltop s + 1 \<le> length (stack s1)" by (auto simp: grown_def)
  then have "push rte v s = Returns (s\<lparr>stack := (stack s @ replicate k VNil)[ltop s := v], ltop := ltop s + 1\<rparr>)"
    using grows(1) by (simp add: push_def stack_set_def)
  with grows(2) k(1) show thesis by (intro that(2) [OF _ _ refl]) (auto simp: stack_ok_def)
qed

subsection \<open>The handlers run, once each\<close>

text \<open>
  What is expected of Lua code run through \<open>L.call\<close>: it ends, by returning or raising, it leaves the
  list of pending variables as it found it and never shrinks the stack.
\<close>

definition keeps :: "LState \<Rightarrow> LState \<Rightarrow> bool" where
  "keeps s s' = (tbc s' = tbc s \<and> length (stack s) \<le> length (stack s') \<and> stack_ok s')"

definition ends_keeping :: "LState \<Rightarrow> outcome \<Rightarrow> bool" where
  "ends_keeping s r = (case r of Returns s' \<Rightarrow> keeps s s' | Raises e s' \<Rightarrow> keeps s s' | _ \<Rightarrow> False)"

text \<open>Closing the variable at \<open>idx\<close>, with the pending error \<open>p\<close>.\<close>

definition close_one ::
  "(string \<Rightarrow> Value) \<Rightarrow> caller \<Rightarrow> (Value \<Rightarrow> LState \<Rightarrow> Value) \<Rightarrow> nat \<Rightarrow> Value option \<times> LState \<Rightarrow> Value option \<times> LState" where
  "close_one rte call tm idx ps =
     (let s = (snd ps)\<lparr>tbc := butlast (tbc (snd ps))\<rparr>; v = stack s ! idx in
      case callClose rte call (tm v s) v (err_value (fst ps)) s of
        Returns s' \<Rightarrow> (fst ps, s') | Raises e s' \<Rightarrow> (Some e, s') | _ \<Rightarrow> ps)"

lemma keeps_trans: "keeps s t \<Longrightarrow> keeps t u \<Longrightarrow> keeps s u"
  by (auto simp: keeps_def)

lemma push_ends: "stack_ok s \<Longrightarrow> ends_keeping s (push rte v s)"
  by (cases rule: push_cases [of s rte v]) (auto simp: ends_keeping_def keeps_def)

lemma obind_ends:
  assumes "ends_keeping s r" "\<And>t. keeps s t \<Longrightarrow> ends_keeping t (f t)"
  shows "ends_keeping s (obind r f)"
proof (cases r)
  case (Returns t)
  then have t: "keeps s t" using assms(1) by (simp add: ends_keeping_def)
  from assms(2) [OF this] show ?thesis
    using Returns keeps_trans [OF t] by (auto simp: ends_keeping_def split: outcome.splits)
qed (use assms(1) in \<open>auto simp: ends_keeping_def\<close>)

lemma callClose_ends:
  assumes call: "\<And>fi t. stack_ok t \<Longrightarrow> ends_keeping t (call fi t)" and "stack_ok s"
  shows "ends_keeping s (callClose rte call f v e s)"
proof -
  have ok: "stack_ok t" if "keeps u t" for u t using that by (simp add: keeps_def)
  have "ends_keeping s (obind (push rte f s) (\<lambda>s1. obind (push rte v s1) (\<lambda>s2. obind (push rte e s2) (call (ltop s)))))"
    by (intro obind_ends push_ends call assms(2); rule ok)
  then show ?thesis
    by (auto simp: callClose_def ends_keeping_def keeps_def stack_ok_def split: outcome.splits)
qed

lemma runCloses_loop_fold:
  assumes call: "\<And>fi t. stack_ok t \<Longrightarrow> ends_keeping t (call fi t)"
    and "stack_ok s" "\<forall>i \<in> set is. i < length (stack s)" "rev is = tbc s"
  shows "runCloses_loop rte call tm lv p (err_value p) s =
      Some (Inr (fold (close_one rte call tm) (takeWhile (\<lambda>i. lv \<le> i) is) (p, s))) \<and>
    tbc (snd (fold (close_one rte call tm) (takeWhile (\<lambda>i. lv \<le> i) is) (p, s))) = rev (dropWhile (\<lambda>i. lv \<le> i) is)"
  using assms(2-)
proof (induction "is" arbitrary: p s)
  case Nil
  then show ?case by (simp add: runCloses_loop.simps)
next
  case (Cons idx js)
  define s1 where "s1 = s\<lparr>tbc := butlast (tbc s)\<rparr>"
  let ?v = "stack s ! idx"
  let ?r = "callClose rte call (tm ?v s1) ?v (err_value p) s1"
  have tbc: "tbc s = rev js @ [idx]" using Cons.prems(3) by simp
  show ?case
  proof (cases "lv \<le> idx")
    case False
    with tbc show ?thesis by (simp add: runCloses_loop.simps)
  next
    case True
    have "stack_get (int idx) s1 = Inr ?v" using Cons.prems(2) by (simp add: s1_def stack_get_def)
    then have step: "runCloses_loop rte call tm lv p (err_value p) s =
        (case ?r of Returns s' \<Rightarrow> runCloses_loop rte call tm lv p (err_value p) s'
         | Raises e s' \<Rightarrow> runCloses_loop rte call tm lv (Some e) e s' | Panics \<Rightarrow> Some (Inl GoPanic) | Diverges \<Rightarrow> None)"
      using True tbc by (subst runCloses_loop.simps) (simp add: s1_def Let_def)
    have one: "close_one rte call tm idx (p, s) = (case ?r of Returns s' \<Rightarrow> (p, s') | Raises e s' \<Rightarrow> (Some e, s') | _ \<Rightarrow> (p, s))"
      by (simp add: close_one_def s1_def Let_def split: outcome.splits)
    have "ends_keeping s1 ?r" using Cons.prems(1) by (intro callClose_ends call) (auto simp: s1_def stack_ok_def)
    then obtain q s' where q: "keeps s1 s'" "close_one rte call tm idx (p, s) = (q, s')"
      "runCloses_loop rte call tm lv p (err_value p) s = runCloses_loop rte call tm lv q (err_value q) s'"
      using one step by (auto simp: ends_keeping_def err_value_def split: outcome.splits)
    have pre: "stack_ok s'" "\<forall>i \<in> set js. i < length (stack s')" "rev js = tbc s'"
      using q(1) Cons.prems(2) tbc by (auto simp: keeps_def s1_def)
    show ?thesis using Cons.IH [OF pre, of q] q(2,3) True by simp
  qed
qed

lemma while_split:
  "\<forall>x \<in> set xs. P x \<Longrightarrow> \<forall>x \<in> set ys. \<not> P x \<Longrightarrow> takeWhile P (xs @ ys) = xs \<and> dropWhile P (xs @ ys) = ys"
  by (induction xs) (cases ys, auto)

lemma close_one_pending: "\<exists>e. fst ps = Some e \<Longrightarrow> \<exists>e. fst (close_one rte call tm i ps) = Some e"
  by (auto simp: close_one_def Let_def split: outcome.splits)

lemma fold_close_pending: "\<exists>e. fst ps = Some e \<Longrightarrow> \<exists>e. fst (fold (close_one rte call tm) js ps) = Some e"
proof (induction js arbitrary: ps)
  case (Cons i js)
  then show ?case using close_one_pending [of ps] by simp
qed simp














definition raising_call :: caller where
  "raising_call fi s = (if stack s ! fi = VTable 2 then Raises (VInt 5) s else Returns s)"

definition self_tm :: "Value \<Rightarrow> LState \<Rightarrow> Value" where
  "self_tm v s = v"



text \<open>
  C18: when a call made by \<open>pcall\<close> raises, the unwinding ends, with the top of the stack and the list of
  pending variables that the caller had, and with the error of the last handler that raised one, or
  else the error of the call; every variable that the call left pending was closed on the way.
\<close>

theorem protect_restores:
  assumes "\<And>fi t. stack_ok t \<Longrightarrow> ends_keeping t (call fi t)"
    and "stack_ok s" "uv_inv s" "tbc s = outer @ inner" "\<forall>i \<in> set outer. i < funcIdx"
    and "\<forall>i \<in> set inner. funcIdx \<le> i" "\<forall>i \<in> set (tbc s). i < length (stack s)"
  shows "\<exists>s'. protect_unwind rte call tm funcIdx (length outer) savedTop le s =
      Some (Inr (the (fst (fold (close_one rte call tm) (rev inner) (Some le, after_close (int funcIdx) s))), s')) \<and>
    ltop s' = savedTop \<and> tbc s' = outer"
proof -
  define s1 where "s1 = after_close (int funcIdx) s"
  have cl: "closeUpvals (int funcIdx) s = Inr s1" using closeUpvals_eq [OF assms(3)] by (simp add: s1_def)
  have s1: "tbc s1 = outer @ inner" "stack s1 = stack s" "stack_ok s1" using assms(2,4) by (auto simp: s1_def after_close_def stack_ok_def)
  have tw: "takeWhile (\<lambda>i. funcIdx \<le> i) (rev inner @ rev outer) = rev inner"
    and dw: "dropWhile (\<lambda>i. funcIdx \<le> i) (rev inner @ rev outer) = rev outer"
    using while_split [of "rev inner" "\<lambda>i. funcIdx \<le> i" "rev outer"] assms(5,6) by (auto simp: not_le)
  let ?f = "fold (close_one rte call tm) (rev inner) (Some le, s1)"
  have "runCloses_loop rte call tm funcIdx (Some le) (err_value (Some le)) s1 = Some (Inr ?f) \<and> tbc (snd ?f) = outer"
    using runCloses_loop_fold [where call = call and s = s1 and ?is = "rev inner @ rev outer" and rte = rte and tm = tm
        and lv = funcIdx and p = "Some le"] assms(1,4,7) s1 tw dw by auto
  moreover obtain e t where "?f = (Some e, t)" using fold_close_pending [of "(Some le, s1)" rte call tm "rev inner"]
    by (metis fst_conv surj_pair)
  ultimately show ?thesis
    using cl s1 by (auto simp: protect_unwind_def runCloses_def s1_def [symmetric])
qed

theorem protect_restores_witness:
  "\<exists>s'. protect_unwind (\<lambda>m. VNil) raising_call self_tm 2 2 2 (VInt 9)
     ((init_state ([VTable 1, VTable 4, VTable 2, VTable 3] @ replicate 20 VNil) 100)\<lparr>ltop := 4, tbc := [0, 1, 2, 3]\<rparr>) =
     Some (Inr (VInt 5, s')) \<and> ltop s' = 2 \<and> tbc s' = [0, 1]"
proof -
  let ?s = "(init_state ([VTable 1, VTable 4, VTable 2, VTable 3] @ replicate 20 VNil) 100)\<lparr>ltop := 4, tbc := [0, 1, 2, 3]\<rparr>"
  have "ends_keeping t (raising_call fi t)" if "stack_ok t" for fi t
    using that by (simp add: raising_call_def ends_keeping_def keeps_def)
  moreover have "stack_ok ?s" "uv_inv ?s" "tbc ?s = [0, 1] @ [2, 3]" "\<forall>i \<in> set (tbc ?s). i < length (stack ?s)"
    by (auto simp: stack_ok_def init_state_def ErrorStackReserve_def uv_inv_def)
  ultimately have "\<exists>s'. protect_unwind (\<lambda>m. VNil) raising_call self_tm 2 (length [0, 1 :: nat]) 2 (VInt 9) ?s =
      Some (Inr (the (fst (fold (close_one (\<lambda>m. VNil) raising_call self_tm) (rev [2, 3]) (Some (VInt 9), after_close (int 2) ?s))), s')) \<and>
    ltop s' = 2 \<and> tbc s' = [0, 1]"
    by (intro protect_restores [where inner = "[2, 3]"]) auto
  moreover have "fst (fold (close_one (\<lambda>m. VNil) raising_call self_tm) (rev [2, 3]) (Some (VInt 9), after_close (int 2) ?s)) = Some (VInt 5)"
    by (simp add: close_one_def callClose_def push_def checkstack_def init_state_def raising_call_def self_tm_def after_close_def
        Let_def extraStack_def ErrorStackReserve_def stack_set_def numeral_eq_Suc)
  ultimately show ?thesis by (simp add: numeral_2_eq_2)
qed

end
