(* ===== verification/Pattern.thy ===== *)
theory Pattern
  imports StrLib
begin

text \<open>
  The pattern matching engine (lstrlib_pattern.go). Positions in the subject and in the pattern are natural
  numbers, the result -1 is \<open>None\<close>. The match state holds the captures, which the engine updates and, on
  failure, restores; an index out of range is a Go panic. The nesting depth, which every call decrements
  and restores on its way out, is an argument: \<open>match_at d\<close> is \<open>match\<close> called with \<open>depth = d\<close>, and the
  functions that call \<open>match\<close> again get it, at the smaller depth, as their argument \<open>again\<close>.
\<close>

subsection \<open>Character classes\<close>

abbreviation c_esc :: byte where "c_esc \<equiv> 0x25"
abbreviation c_lpar :: byte where "c_lpar \<equiv> 0x28"
abbreviation c_rpar :: byte where "c_rpar \<equiv> 0x29"
abbreviation c_dollar :: byte where "c_dollar \<equiv> 0x24"
abbreviation c_lbr :: byte where "c_lbr \<equiv> 0x5B"
abbreviation c_rbr :: byte where "c_rbr \<equiv> 0x5D"
abbreviation c_caret :: byte where "c_caret \<equiv> 0x5E"
abbreviation c_dot :: byte where "c_dot \<equiv> 0x2E"
abbreviation c_star :: byte where "c_star \<equiv> 0x2A"
abbreviation c_plus :: byte where "c_plus \<equiv> 0x2B"
abbreviation c_minus :: byte where "c_minus \<equiv> 0x2D"
abbreviation c_quest :: byte where "c_quest \<equiv> 0x3F"
abbreviation c_b :: byte where "c_b \<equiv> 0x62"
abbreviation c_f :: byte where "c_f \<equiv> 0x66"

definition bt :: "bytes \<Rightarrow> nat \<Rightarrow> byte res" where
  "bt s i = (if i < length s then Inr (s ! i) else Inl GoPanic)"

definition isAlpha :: "byte \<Rightarrow> bool" where
  "isAlpha c = ((c \<ge> 0x61 \<and> c \<le> 0x7A) \<or> (c \<ge> 0x41 \<and> c \<le> 0x5A))"
definition isCntrl :: "byte \<Rightarrow> bool" where "isCntrl c = (c < 32 \<or> c = 127)"
definition isSpace :: "byte \<Rightarrow> bool" where "isSpace c = (c = 0x20 \<or> (c \<ge> 9 \<and> c \<le> 13))"
definition isXdigit :: "byte \<Rightarrow> bool" where
  "isXdigit c = ((c \<ge> 0x30 \<and> c \<le> 0x39) \<or> (c OR 0x20 \<ge> 0x61 \<and> c OR 0x20 \<le> 0x66))"
definition isPunct :: "byte \<Rightarrow> bool" where
  "isPunct c = (c > 32 \<and> c < 127 \<and> \<not> isAlpha c \<and> \<not> (c \<ge> 0x30 \<and> c \<le> 0x39))"

definition matchClass :: "byte \<Rightarrow> byte \<Rightarrow> bool" where
  "matchClass c cl =
     (let lower = cl OR 0x20; signed_res = (\<lambda>r. if cl \<ge> 0x41 \<and> cl \<le> 0x5A then \<not> r else r) in
      if lower = 0x61 then signed_res (isAlpha c)
      else if lower = 0x63 then signed_res (isCntrl c)
      else if lower = 0x64 then signed_res (c \<ge> 0x30 \<and> c \<le> 0x39)
      else if lower = 0x67 then signed_res (c > 32 \<and> c < 127)
      else if lower = 0x6C then signed_res (c \<ge> 0x61 \<and> c \<le> 0x7A)
      else if lower = 0x70 then signed_res (isPunct c)
      else if lower = 0x73 then signed_res (isSpace c)
      else if lower = 0x75 then signed_res (c \<ge> 0x41 \<and> c \<le> 0x5A)
      else if lower = 0x77 then signed_res (isAlpha c \<or> (c \<ge> 0x30 \<and> c \<le> 0x39))
      else if lower = 0x78 then signed_res (isXdigit c)
      else if lower = 0x7A then signed_res (c = 0)
      else cl = c)"

text \<open>The loop of \<open>classEnd\<close> looks for the closing bracket.\<close>

function class_end_loop :: "bytes \<Rightarrow> nat \<Rightarrow> nat res" where
  "class_end_loop pat p =
     (if p \<ge> length pat then Inl (LuaError ''malformed pattern (missing ']')'')
      else let cc = pat ! p; p1 = p + 1; p2 = (if cc = c_esc \<and> p1 < length pat then p1 + 1 else p1) in
        if p2 < length pat \<and> pat ! p2 = c_rbr then Inr (p2 + 1)
        else if p2 \<ge> length pat then Inl (LuaError ''malformed pattern (missing ']')'')
        else class_end_loop pat p2)"
  by pat_completeness auto
termination by (relation "measure (\<lambda>(pat, p). length pat - p)") (auto split: if_splits)

declare class_end_loop.simps [simp del]

definition classEnd :: "bytes \<Rightarrow> nat \<Rightarrow> nat res" where
  "classEnd pat p =
     rbind (bt pat p) (\<lambda>c.
       if c = c_esc then
         (if p + 1 \<ge> length pat then Inl (LuaError ''malformed pattern (ends with '%')'') else Inr (p + 2))
       else if c = c_lbr then
         class_end_loop pat (if p + 1 < length pat \<and> pat ! (p + 1) = c_caret then p + 2 else p + 1)
       else Inr (p + 1))"

lemma class_end_loop_bounds: "class_end_loop pat p = Inr e \<Longrightarrow> p + 2 \<le> e \<and> e \<le> length pat"
proof (induction pat p rule: class_end_loop.induct)
  case (1 pat p)
  note eq = "1.prems" [unfolded class_end_loop.simps [of pat p] Let_def]
  show ?case
    using eq "1.IH" [OF _ refl refl refl] by (auto split: if_splits)
qed

lemma classEnd_bounds: "classEnd pat p = Inr e \<Longrightarrow> p < e \<and> e \<le> length pat \<and> p < length pat"
  by (auto simp: classEnd_def bt_def split: if_splits dest!: class_end_loop_bounds)

text \<open>The loop of \<open>matchBracketClass\<close>, with \<open>p\<close> at the next item of the set and \<open>ec\<close> at its closing bracket.\<close>

function bracket_loop :: "bytes \<Rightarrow> byte \<Rightarrow> nat \<Rightarrow> bool \<Rightarrow> nat \<Rightarrow> bool res" where
  "bracket_loop pat c ec sig p =
     (if p < ec then
        rbind (bt pat p) (\<lambda>x.
          if x = c_esc then rbind (bt pat (p + 1)) (\<lambda>y. if matchClass c y then Inr sig else bracket_loop pat c ec sig (p + 2))
          else rbind (if p + 1 < ec then rbind (bt pat (p + 1)) (\<lambda>d. Inr (d = c_minus \<and> p + 2 < ec)) else Inr False) (\<lambda>range.
            if range then rbind (bt pat (p + 2)) (\<lambda>hi. if x \<le> c \<and> c \<le> hi then Inr sig else bracket_loop pat c ec sig (p + 3))
            else if x = c then Inr sig
            else bracket_loop pat c ec sig (p + 1)))
      else Inr (\<not> sig))"
  by pat_completeness auto
termination by (relation "measure (\<lambda>(pat, c, ec, sig, p). ec - p)") auto

declare bracket_loop.simps [simp del]

definition matchBracketClass :: "bytes \<Rightarrow> byte \<Rightarrow> nat \<Rightarrow> nat \<Rightarrow> bool res" where
  "matchBracketClass pat c p ec =
     rbind (bt pat (p + 1)) (\<lambda>x.
       if x = c_caret then bracket_loop pat c ec False (p + 2) else bracket_loop pat c ec True (p + 1))"

definition singleMatch :: "bytes \<Rightarrow> bytes \<Rightarrow> nat \<Rightarrow> nat \<Rightarrow> nat \<Rightarrow> bool res" where
  "singleMatch src pat s p ep =
     (if s \<ge> length src then Inr False
      else let c = src ! s in
        rbind (bt pat p) (\<lambda>x.
          if x = c_dot then Inr True
          else if x = c_esc then rbind (bt pat (p + 1)) (\<lambda>cl. Inr (matchClass c cl))
          else if x = c_lbr then matchBracketClass pat c p (ep - 1)
          else Inr (x = c)))"

lemma singleMatch_lt: "singleMatch src pat s p ep = Inr True \<Longrightarrow> s < length src"
  by (auto simp: singleMatch_def split: if_splits)

function balance_loop :: "bytes \<Rightarrow> byte \<Rightarrow> byte \<Rightarrow> nat \<Rightarrow> int \<Rightarrow> nat option" where
  "balance_loop src b e s cont =
     (if s < length src then
        if src ! s = e then (if cont - 1 = 0 then Some (s + 1) else balance_loop src b e (s + 1) (cont - 1))
        else if src ! s = b then balance_loop src b e (s + 1) (cont + 1)
        else balance_loop src b e (s + 1) cont
      else None)"
  by pat_completeness auto
termination by (relation "measure (\<lambda>(src, b, e, s, cont). length src - s)") auto

declare balance_loop.simps [simp del]

definition matchBalance :: "bytes \<Rightarrow> bytes \<Rightarrow> nat \<Rightarrow> nat \<Rightarrow> nat option res" where
  "matchBalance src pat s p =
     (if p + 1 \<ge> length pat then Inl (LuaError ''malformed pattern (missing arguments to '%b')'')
      else if s \<ge> length src \<or> src ! s \<noteq> pat ! p then Inr None
      else Inr (balance_loop src (pat ! p) (pat ! (p + 1)) (s + 1) 1))"

subsection \<open>The engine\<close>

definition capUnfinished :: int where "capUnfinished = - 1"
definition capPosition :: int where "capPosition = - 2"
definition maxMatchDepth :: nat where "maxMatchDepth = 200"
definition maxCaptures :: nat where "maxCaptures = 32"

record capture =
  c_init :: nat
  c_len :: int

record matchState =
  ms_level :: nat
  ms_capture :: "capture list"

type_synonym matcher = "nat \<Rightarrow> nat \<Rightarrow> matchState \<Rightarrow> (nat option \<times> matchState) res"

definition startCapture :: "matcher \<Rightarrow> nat \<Rightarrow> nat \<Rightarrow> int \<Rightarrow> matchState \<Rightarrow> (nat option \<times> matchState) res" where
  "startCapture again s p what ms =
     (let l = ms_level ms in
      if l \<ge> maxCaptures then Inl (LuaError ''too many captures'')
      else rbind (again s p (ms\<lparr>ms_capture := (ms_capture ms)[l := \<lparr>c_init = s, c_len = what\<rparr>], ms_level := l + 1\<rparr>)) (\<lambda>(r, ms').
        Inr (r, if r = None then ms'\<lparr>ms_level := ms_level ms' - 1\<rparr> else ms')))"

definition set_len :: "nat \<Rightarrow> int \<Rightarrow> matchState \<Rightarrow> matchState" where
  "set_len l n ms = ms\<lparr>ms_capture := (ms_capture ms)[l := (ms_capture ms ! l)\<lparr>c_len := n\<rparr>]\<rparr>"

definition endCapture :: "matcher \<Rightarrow> nat \<Rightarrow> nat \<Rightarrow> matchState \<Rightarrow> (nat option \<times> matchState) res" where
  "endCapture again s p ms =
     (case find (\<lambda>i. c_len (ms_capture ms ! i) = capUnfinished) (rev [0..<ms_level ms]) of
        None \<Rightarrow> Inl (LuaError ''invalid pattern capture'')
      | Some l \<Rightarrow>
          rbind (again s p (set_len l (int s - int (c_init (ms_capture ms ! l))) ms)) (\<lambda>(r, ms').
            Inr (r, if r = None then set_len l capUnfinished ms' else ms')))"

text \<open>\<open>l\<close> is the digit of the reference; the slices compared are Go slice expressions.\<close>

definition matchCapture :: "bytes \<Rightarrow> nat \<Rightarrow> byte \<Rightarrow> matchState \<Rightarrow> nat option res" where
  "matchCapture src s l ms =
     (let l = int (unat l) - 0x31 in
      if l < 0 \<or> l \<ge> int (ms_level ms) \<or> c_len (ms_capture ms ! nat l) = capUnfinished
      then Inl (LuaError (''invalid capture index %'' @ [char_of (nat (l + 1) + 48)]))
      else let cp = ms_capture ms ! nat l; clen = c_len cp in
        if int (length src) - int s \<ge> clen then
          rbind (slice src (int (c_init cp)) (int (c_init cp) + clen)) (\<lambda>a.
          rbind (slice src (int s) (int s + clen)) (\<lambda>b.
            Inr (if a = b then Some (nat (int s + clen)) else None)))
        else Inr None)"

text \<open>The two loops of \<open>maxExpand\<close> and the loop of \<open>minExpand\<close>.\<close>

function expand_count :: "bytes \<Rightarrow> bytes \<Rightarrow> nat \<Rightarrow> nat \<Rightarrow> nat \<Rightarrow> nat \<Rightarrow> nat res" where
  "expand_count src pat s p ep i =
     rbind (singleMatch src pat (s + i) p ep) (\<lambda>m.
       if m then expand_count src pat s p ep (i + 1) else Inr i)"
  by pat_completeness auto
termination by (relation "measure (\<lambda>(src, pat, s, p, ep, i). length src - (s + i))") (auto dest!: singleMatch_lt)

declare expand_count.simps [simp del]

primrec max_try :: "matcher \<Rightarrow> nat \<Rightarrow> nat \<Rightarrow> nat \<Rightarrow> matchState \<Rightarrow> (nat option \<times> matchState) res" where
  "max_try again s ep 0 ms = again s (ep + 1) ms"
| "max_try again s ep (Suc i) ms =
     rbind (again (s + Suc i) (ep + 1) ms) (\<lambda>(r, ms').
       case r of Some e \<Rightarrow> Inr (Some e, ms') | None \<Rightarrow> max_try again s ep i ms')"

definition maxExpand :: "matcher \<Rightarrow> bytes \<Rightarrow> bytes \<Rightarrow> nat \<Rightarrow> nat \<Rightarrow> nat \<Rightarrow> matchState \<Rightarrow> (nat option \<times> matchState) res" where
  "maxExpand again src pat s p ep ms =
     rbind (expand_count src pat s p ep 0) (\<lambda>i. max_try again s ep i ms)"

function minExpand :: "matcher \<Rightarrow> bytes \<Rightarrow> bytes \<Rightarrow> nat \<Rightarrow> nat \<Rightarrow> nat \<Rightarrow> matchState \<Rightarrow> (nat option \<times> matchState) res" where
  "minExpand again src pat s p ep ms =
     rbind (again s (ep + 1) ms) (\<lambda>(r, ms').
       case r of Some e \<Rightarrow> Inr (Some e, ms')
       | None \<Rightarrow> rbind (singleMatch src pat s p ep) (\<lambda>m.
           if m then minExpand again src pat (s + 1) p ep ms' else Inr (None, ms')))"
  by pat_completeness auto
termination by (relation "measure (\<lambda>(again, src, pat, s, p, ep, ms). length src - s)") (auto dest!: singleMatch_lt)

declare minExpand.simps [simp del]

text \<open>
  The loop of \<open>match\<close> over the pattern. The cases are those of the switch: captures, the anchor at the end,
  balanced strings, frontiers, references to captures, and single characters with their suffix.
\<close>

function match_loop :: "matcher \<Rightarrow> bytes \<Rightarrow> bytes \<Rightarrow> nat \<Rightarrow> nat \<Rightarrow> matchState \<Rightarrow> (nat option \<times> matchState) res" where
  "match_loop again src pat s p ms =
     (if p = length pat then Inr (Some s, ms)
      else rbind (bt pat p) (\<lambda>c. let escaped = (if c = c_esc \<and> p + 1 < length pat then Some (pat ! (p + 1)) else None) in
        if c = c_lpar then
          (if p + 1 < length pat \<and> pat ! (p + 1) = c_rpar then startCapture again s (p + 2) capPosition ms
           else startCapture again s (p + 1) capUnfinished ms)
        else if c = c_rpar then endCapture again s (p + 1) ms
        else if c = c_dollar \<and> p + 1 = length pat then Inr (if s = length src then Some s else None, ms)
        else if escaped = Some c_b then
          rbind (matchBalance src pat s (p + 2)) (\<lambda>r.
            case r of None \<Rightarrow> Inr (None, ms) | Some s' \<Rightarrow> match_loop again src pat s' (p + 4) ms)
        else if escaped = Some c_f then
          (if p + 2 \<ge> length pat \<or> pat ! (p + 2) \<noteq> c_lbr then Inl (LuaError ''missing '[' after '%f' in pattern'')
           else rbind (classEnd pat (p + 2)) (\<lambda>ep.
             rbind (if s \<noteq> 0 then bt src (s - 1) else Inr 0) (\<lambda>prev.
             rbind (matchBracketClass pat prev (p + 2) (ep - 1)) (\<lambda>before.
               if before then Inr (None, ms)
               else rbind (matchBracketClass pat (if s < length src then src ! s else 0) (p + 2) (ep - 1)) (\<lambda>here.
                 if here then match_loop again src pat s ep ms else Inr (None, ms))))))
        else if escaped \<noteq> None \<and> the escaped \<ge> 0x30 \<and> the escaped \<le> 0x39 then
          rbind (matchCapture src s (the escaped) ms) (\<lambda>r.
            case r of None \<Rightarrow> Inr (None, ms) | Some s' \<Rightarrow> match_loop again src pat s' (p + 2) ms)
        else rbind (classEnd pat p) (\<lambda>ep. rbind (singleMatch src pat s p ep) (\<lambda>m.
          let suffix = (if ep < length pat then Some (pat ! ep) else None) in
          if \<not> m then
            (if suffix = Some c_star \<or> suffix = Some c_quest \<or> suffix = Some c_minus
             then match_loop again src pat s (ep + 1) ms else Inr (None, ms))
          else if suffix = Some c_quest then
            rbind (again (s + 1) (ep + 1) ms) (\<lambda>(r, ms').
              case r of Some e \<Rightarrow> Inr (Some e, ms') | None \<Rightarrow> match_loop again src pat s (ep + 1) ms')
          else if suffix = Some c_plus then maxExpand again src pat (s + 1) p ep ms
          else if suffix = Some c_star then maxExpand again src pat s p ep ms
          else if suffix = Some c_minus then minExpand again src pat s p ep ms
          else match_loop again src pat (s + 1) ep ms))))"
  by pat_completeness auto
termination
  by (relation "measure (\<lambda>(again, src, pat, s, p, ms). length pat - p)")
    (auto simp: bt_def dest!: classEnd_bounds split: if_splits)

declare match_loop.simps [simp del]

primrec match_at :: "nat \<Rightarrow> bytes \<Rightarrow> bytes \<Rightarrow> matcher" where
  "match_at 0 src pat s p ms = Inl (LuaError ''pattern too complex'')"
| "match_at (Suc d) src pat s p ms =
     (if d = 0 then Inl (LuaError ''pattern too complex'') else match_loop (match_at d src pat) src pat s p ms)"

end
