(* ===== verification/PatternRef.thy ===== *)
theory PatternRef
  imports Pattern
begin

text \<open>
  What a pattern means, and that the engine of theory Pattern computes it. The reference lists all matches
  of the pattern in the order of preference, as a search without state would; the engine's backtracking
  over its mutable captures finds the first one.
\<close>

subsection \<open>Primitives never fail on a well-formed item\<close>

lemma bracket_loop_total: "ec < length pat \<Longrightarrow> \<exists>b. bracket_loop pat c ec sig p = Inr b"
proof (induction pat c ec sig p rule: bracket_loop.induct)
  case (1 pat c ec sig p)
  show ?case
    using "1.prems" "1.IH" by (subst bracket_loop.simps) (auto simp: bt_def)
qed

lemma matchBracketClass_total: "p + 1 < length pat \<Longrightarrow> ec < length pat \<Longrightarrow> \<exists>b. matchBracketClass pat c p ec = Inr b"
  using bracket_loop_total by (auto simp: matchBracketClass_def bt_def)

lemma classEnd_bracket:
  assumes "classEnd pat p = Inr ep" "pat ! p = c_lbr"
  shows "p + 3 \<le> ep" "ep \<le> length pat"
  using assms by (auto simp: classEnd_def bt_def split: if_splits dest!: class_end_loop_bounds)

lemma classEnd_escape:
  assumes "classEnd pat p = Inr ep" "pat ! p = c_esc"
  shows "ep = p + 2" "p + 2 \<le> length pat"
  using assms by (auto simp: classEnd_def bt_def split: if_splits)

lemma singleMatch_total:
  assumes "classEnd pat p = Inr ep"
  shows "\<exists>b. singleMatch src pat s p ep = Inr b"
proof -
  have p: "p < length pat" using classEnd_bounds [OF assms] by simp
  have br: "\<exists>b. matchBracketClass pat c p (ep - 1) = Inr b" if "pat ! p = c_lbr" for c
    using classEnd_bracket [OF assms that] by (intro matchBracketClass_total) auto
  have "bt pat (p + 1) \<noteq> Inl GoPanic" if "pat ! p = c_esc" using classEnd_escape [OF assms that] by (simp add: bt_def)
  with p br show ?thesis using classEnd_escape [OF assms] by (auto simp: singleMatch_def bt_def Let_def)
qed

text \<open>Errors of \<open>classEnd\<close> are Lua errors.\<close>

lemma class_end_loop_no_panic: "class_end_loop pat p \<noteq> Inl GoPanic"
proof (induction pat p rule: class_end_loop.induct)
  case (1 pat p)
  show ?case using 1 [OF _ refl refl refl] by (subst class_end_loop.simps) (auto simp: Let_def)
qed

lemma classEnd_no_panic: "p < length pat \<Longrightarrow> classEnd pat p \<noteq> Inl GoPanic"
  using class_end_loop_no_panic by (simp add: classEnd_def bt_def)

lemma balance_loop_bounds: "balance_loop src b e s cont = Some s' \<Longrightarrow> s < s' \<and> s' \<le> length src"
proof (induction src b e s cont rule: balance_loop.induct)
  case (1 src b e s cont)
  note eq = "1.prems" [unfolded balance_loop.simps [of src b e s cont]]
  show ?case using eq "1.IH" by (auto split: if_splits)
qed

lemma matchBalance_bounds: "matchBalance src pat s p = Inr (Some s') \<Longrightarrow> s < s' \<and> s' \<le> length src"
  by (auto simp: matchBalance_def split: if_splits dest!: balance_loop_bounds)

definition single :: "bytes \<Rightarrow> bytes \<Rightarrow> nat \<Rightarrow> nat \<Rightarrow> nat \<Rightarrow> bool" where
  "single src pat s p ep = (singleMatch src pat s p ep = Inr True)"

text \<open>The number of characters in a row that the item at \<open>p\<close> matches.\<close>

function run_len :: "bytes \<Rightarrow> bytes \<Rightarrow> nat \<Rightarrow> nat \<Rightarrow> nat \<Rightarrow> nat" where
  "run_len src pat s p ep = (if single src pat s p ep then Suc (run_len src pat (s + 1) p ep) else 0)"
  by pat_completeness auto
termination
  by (relation "measure (\<lambda>(src, pat, s, p, ep). length src - s)") (auto simp: single_def dest!: singleMatch_lt)

declare run_len.simps [simp del]

subsection \<open>All matches of a pattern\<close>

text \<open>A capture is open, a position, or the span between two positions.\<close>

datatype cap = Open nat | PosCap nat | Span nat nat

definition last_open :: "('a \<Rightarrow> bool) \<Rightarrow> 'a list \<Rightarrow> nat option" where
  "last_open is_open cs = find (\<lambda>i. is_open (cs ! i)) (rev [0..<length cs])"

fun is_Open :: "cap \<Rightarrow> bool" where
  "is_Open (Open a) = True" | "is_Open _ = False"

definition escaped_at :: "bytes \<Rightarrow> nat \<Rightarrow> byte option" where
  "escaped_at pat p = (if pat ! p = c_esc \<and> p + 1 < length pat then Some (pat ! (p + 1)) else None)"

definition is_digit_ref :: "byte option \<Rightarrow> bool" where
  "is_digit_ref x = (x \<noteq> None \<and> the x \<ge> 0x30 \<and> the x \<le> 0x39)"

definition suffix_at :: "bytes \<Rightarrow> nat \<Rightarrow> byte option" where
  "suffix_at pat ep = (if ep < length pat \<and> pat ! ep \<in> {c_quest, c_plus, c_star, c_minus} then Some (pat ! ep) else None)"

text \<open>The numbers of repetitions to try, for each suffix, when the item matches \<open>n\<close> times in a row.\<close>

definition repeats :: "byte \<Rightarrow> nat \<Rightarrow> nat list" where
  "repeats c n =
     (if c = c_quest then rev [0..<Suc (min n 1)]
      else if c = c_plus then rev [1..<Suc n]
      else if c = c_star then rev [0..<Suc n]
      else [0..<Suc n])"

definition frontier :: "bytes \<Rightarrow> bytes \<Rightarrow> nat \<Rightarrow> nat \<Rightarrow> nat \<Rightarrow> bool" where
  "frontier src pat s p ep =
     (matchBracketClass pat (if s \<noteq> 0 then src ! (s - 1) else 0) p (ep - 1) = Inr False \<and>
      matchBracketClass pat (if s < length src then src ! s else 0) p (ep - 1) = Inr True)"

text \<open>Where a reference to the capture with digit \<open>x\<close> ends when it matches at \<open>s\<close>.\<close>

definition back_ref :: "bytes \<Rightarrow> nat \<Rightarrow> byte \<Rightarrow> cap list \<Rightarrow> nat option" where
  "back_ref src s x cs =
     (let l = unat x - 0x31 in
      if unat x < 0x31 \<or> l \<ge> length cs then None
      else (case cs ! l of
          Span a b \<Rightarrow> if take (b - a) (drop a src) = take (b - a) (drop s src) then Some (s + (b - a)) else None
        | _ \<Rightarrow> None))"

function all_matches :: "bytes \<Rightarrow> bytes \<Rightarrow> nat \<Rightarrow> nat \<Rightarrow> cap list \<Rightarrow> (nat \<times> cap list) list" where
  "all_matches src pat p s cs =
     (if p \<ge> length pat then [(s, cs)]
      else if pat ! p = c_lpar then
        (if p + 1 < length pat \<and> pat ! (p + 1) = c_rpar then all_matches src pat (p + 2) s (cs @ [PosCap s])
         else all_matches src pat (p + 1) s (cs @ [Open s]))
      else if pat ! p = c_rpar then
        (case last_open is_Open cs of None \<Rightarrow> []
         | Some l \<Rightarrow> (case cs ! l of Open a \<Rightarrow> all_matches src pat (p + 1) s (cs[l := Span a s]) | _ \<Rightarrow> []))
      else if pat ! p = c_dollar \<and> p + 1 = length pat then (if s = length src then [(s, cs)] else [])
      else if escaped_at pat p = Some c_b then
        (case matchBalance src pat s (p + 2) of Inr (Some s') \<Rightarrow> all_matches src pat (p + 4) s' cs | _ \<Rightarrow> [])
      else if escaped_at pat p = Some c_f then
        (case classEnd pat (p + 2) of Inl e \<Rightarrow> []
         | Inr ep \<Rightarrow> if pat ! (p + 2) = c_lbr \<and> frontier src pat s (p + 2) ep then all_matches src pat ep s cs else [])
      else if is_digit_ref (escaped_at pat p) then
        (case back_ref src s (the (escaped_at pat p)) cs of None \<Rightarrow> [] | Some s' \<Rightarrow> all_matches src pat (p + 2) s' cs)
      else (case classEnd pat p of Inl e \<Rightarrow> []
        | Inr ep \<Rightarrow> (case suffix_at pat ep of
            None \<Rightarrow> if single src pat s p ep then all_matches src pat ep (s + 1) cs else []
          | Some c \<Rightarrow> concat (map (\<lambda>i. all_matches src pat (ep + 1) (s + i) cs) (repeats c (run_len src pat s p ep))))))"
  by pat_completeness auto
termination
  by (relation "measure (\<lambda>(src, pat, p, s, cs). length pat - p)")
    (auto dest!: classEnd_bounds)

declare all_matches.simps [simp del]

subsection \<open>Well-formed patterns\<close>

text \<open>
  A scan of the pattern with the kinds of the captures so far: it accepts the patterns on which the engine
  raises no error. A reference must name a capture that is closed and not a position.
\<close>

datatype ckind = KOpen | KPos | KSpan

fun kind :: "cap \<Rightarrow> ckind" where
  "kind (Open a) = KOpen" | "kind (PosCap a) = KPos" | "kind (Span a b) = KSpan"

function ok_pat :: "bytes \<Rightarrow> nat \<Rightarrow> ckind list \<Rightarrow> bool" where
  "ok_pat pat p ks =
     (if p \<ge> length pat then KOpen \<notin> set ks
      else if pat ! p = c_lpar then
        length ks < maxCaptures \<and>
        (if p + 1 < length pat \<and> pat ! (p + 1) = c_rpar then ok_pat pat (p + 2) (ks @ [KPos]) else ok_pat pat (p + 1) (ks @ [KOpen]))
      else if pat ! p = c_rpar then
        (case last_open (\<lambda>k. k = KOpen) ks of None \<Rightarrow> False | Some l \<Rightarrow> ok_pat pat (p + 1) (ks[l := KSpan]))
      else if pat ! p = c_dollar \<and> p + 1 = length pat then KOpen \<notin> set ks
      else if escaped_at pat p = Some c_b then p + 3 < length pat \<and> ok_pat pat (p + 4) ks
      else if escaped_at pat p = Some c_f then
        p + 2 < length pat \<and> pat ! (p + 2) = c_lbr \<and>
        (case classEnd pat (p + 2) of Inl e \<Rightarrow> False | Inr ep \<Rightarrow> ok_pat pat ep ks)
      else if is_digit_ref (escaped_at pat p) then
        (let x = unat (the (escaped_at pat p)) in
         x \<ge> 0x31 \<and> x - 0x31 < length ks \<and> ks ! (x - 0x31) = KSpan \<and> ok_pat pat (p + 2) ks)
      else (case classEnd pat p of Inl e \<Rightarrow> False
        | Inr ep \<Rightarrow> ok_pat pat (if suffix_at pat ep = None then ep else ep + 1) ks))"
  by pat_completeness auto
termination
  by (relation "measure (\<lambda>(pat, p, ks). length pat - p)") (auto dest!: classEnd_bounds)

declare ok_pat.simps [simp del]

text \<open>A pattern without position captures, on which no slice of the engine can leave the subject.\<close>

definition no_pos :: "bytes \<Rightarrow> bool" where
  "no_pos pat = list_all (\<lambda>p. \<not> (pat ! p = c_lpar \<and> pat ! (p + 1) = c_rpar)) [0..<length pat - 1]"

lemma no_posD: "no_pos pat \<Longrightarrow> p + 1 < length pat \<Longrightarrow> pat ! p = c_lpar \<Longrightarrow> pat ! (p + 1) \<noteq> c_rpar"
  by (auto simp: no_pos_def list_all_iff)

subsection \<open>The engine's captures and results\<close>

fun cap_repr :: "bytes \<Rightarrow> cap \<Rightarrow> capture \<Rightarrow> bool" where
  "cap_repr src (Open a) c = (c = \<lparr>c_init = a, c_len = capUnfinished\<rparr> \<and> a \<le> length src)"
| "cap_repr src (PosCap a) c = (c = \<lparr>c_init = a, c_len = capPosition\<rparr> \<and> a \<le> length src)"
| "cap_repr src (Span a b) c = (c = \<lparr>c_init = a, c_len = int b - int a\<rparr> \<and> a \<le> b \<and> b \<le> length src)"

text \<open>The state represents the captures; entries from the level on, left over from earlier matches, are free.\<close>

definition repr :: "bytes \<Rightarrow> bytes \<Rightarrow> matchState \<Rightarrow> cap list \<Rightarrow> bool" where
  "repr src pat ms cs = (ms_level ms = length cs \<and> length (ms_capture ms) = maxCaptures \<and> length cs \<le> maxCaptures \<and>
     (\<forall>i < length cs. cap_repr src (cs ! i) (ms_capture ms ! i)) \<and> (no_pos pat \<longrightarrow> KPos \<notin> kind ` set cs))"

text \<open>
  The result \<open>r\<close> of the engine is the first of the matches \<open>xs\<close>; on failure the captures are those of
  before. Errors are Lua errors, if there are no position captures, and none occur if \<open>g\<close>.
\<close>

definition agrees :: "bytes \<Rightarrow> bytes \<Rightarrow> bool \<Rightarrow> (nat option \<times> matchState) res \<Rightarrow> (nat \<times> cap list) list \<Rightarrow> cap list \<Rightarrow> bool" where
  "agrees src pat g r xs cs =
     (case r of
        Inl e \<Rightarrow> \<not> g \<and> (no_pos pat \<longrightarrow> e \<noteq> GoPanic)
      | Inr (q, ms') \<Rightarrow> (case xs of [] \<Rightarrow> q = None \<and> repr src pat ms' cs
                       | x # ys \<Rightarrow> q = Some (fst x) \<and> repr src pat ms' (snd x)))"

lemma agrees_fail [simp]: "repr src pat ms cs \<Longrightarrow> agrees src pat g (Inr (None, ms)) [] cs"
  by (simp add: agrees_def)

lemma agrees_error [simp]: "agrees src pat g (Inl e) xs cs \<longleftrightarrow> \<not> g \<and> (no_pos pat \<longrightarrow> e \<noteq> GoPanic)"
  by (simp add: agrees_def)

lemma agrees_weaken: "agrees src pat g r xs cs \<Longrightarrow> (g' \<Longrightarrow> g) \<Longrightarrow> agrees src pat g' r xs cs"
  by (auto simp: agrees_def split: sum.splits)

text \<open>Trying one alternative, then another.\<close>

lemma agrees_orelse:
  assumes "agrees src pat g r xs cs" "\<And>ms'. repr src pat ms' cs \<Longrightarrow> agrees src pat g (f ms') ys cs"
  shows "agrees src pat g (rbind r (\<lambda>(q, ms'). case q of Some e \<Rightarrow> Inr (Some e, ms') | None \<Rightarrow> f ms')) (xs @ ys) cs"
  using assms by (cases r; cases xs) (auto simp: agrees_def split: prod.splits)

lemma kind_list_update: "map kind (cs[l := Span a b]) = (map kind cs)[l := KSpan]"
  by (simp add: map_update)

lemma last_open_kind: "last_open is_Open cs = last_open (\<lambda>k. k = KOpen) (map kind cs)"
proof -
  have "is_Open c \<longleftrightarrow> kind c = KOpen" for c by (cases c) auto
  then show ?thesis unfolding last_open_def by (simp, intro find_cong) auto
qed

lemma find_open:
  assumes "repr src pat ms cs"
  shows "find (\<lambda>i. c_len (ms_capture ms ! i) = capUnfinished) (rev [0..<ms_level ms]) = last_open is_Open cs"
proof -
  have "c_len (ms_capture ms ! i) = capUnfinished \<longleftrightarrow> is_Open (cs ! i)" if "i < length cs" for i
    using assms that by (cases "cs ! i") (auto simp: repr_def capUnfinished_def capPosition_def)
  then show ?thesis using assms unfolding last_open_def by (intro find_cong) (auto simp: repr_def)
qed

lemma last_openD:
  assumes "last_open is_Open cs = Some l"
  obtains a where "l < length cs" "cs ! l = Open a"
proof -
  from assms have "l \<in> set (rev [0..<length cs])" "is_Open (cs ! l)"
    unfolding last_open_def find_Some_iff by (metis nth_mem)+
  then have "l < length cs" "is_Open (cs ! l)" by auto
  then show thesis by (cases "cs ! l") (auto intro: that)
qed

lemma repr_push:
  assumes "repr src pat ms cs" "ms_level ms < maxCaptures" "cap_repr src c x" "no_pos pat \<longrightarrow> kind c \<noteq> KPos"
  shows "repr src pat (ms\<lparr>ms_capture := (ms_capture ms)[ms_level ms := x], ms_level := ms_level ms + 1\<rparr>) (cs @ [c])"
  using assms by (auto simp: repr_def nth_append nth_list_update less_Suc_eq)

lemma repr_pop: "repr src pat ms (cs @ [c]) \<Longrightarrow> repr src pat (ms\<lparr>ms_level := ms_level ms - 1\<rparr>) cs"
  by (auto simp: repr_def nth_append split: if_splits)

lemma repr_set_len:
  assumes "repr src pat ms cs" "l < length cs" "c_init (ms_capture ms ! l) = a" "cap_repr src c \<lparr>c_init = a, c_len = n\<rparr>"
    and "kind c \<noteq> KPos"
  shows "repr src pat (set_len l n ms) (cs[l := c])"
proof -
  have x: "(ms_capture ms ! l)\<lparr>c_len := n\<rparr> = \<lparr>c_init = a, c_len = n\<rparr>" using assms(3) by (cases "ms_capture ms ! l") simp
  have "KPos \<notin> kind ` set (cs[l := c])" if "KPos \<notin> kind ` set cs"
  proof
    assume "KPos \<in> kind ` set (cs[l := c])"
    then obtain x where "x \<in> set (cs[l := c])" "kind x = KPos" by auto
    then have "x = c \<or> x \<in> set cs" using set_update_subset_insert by fastforce
    with that assms(5) \<open>kind x = KPos\<close> show False by force
  qed
  moreover have "l < length (ms_capture ms)" using assms(1,2) by (simp add: repr_def)
  moreover have "cap_repr src c ((ms_capture ms ! l)\<lparr>c_len := n\<rparr>)" using assms(4) x by simp
  ultimately show ?thesis using assms(1,2) by (auto simp: repr_def set_len_def nth_list_update)
qed

subsection \<open>Callers of the engine at a smaller depth\<close>

text \<open>
  The contract of \<open>again\<close>: it computes the first match from every position, and raises no error on a
  well-formed rest of the pattern that is short enough for the depth \<open>d\<close>.
\<close>

definition opens_le :: "cap list \<Rightarrow> nat \<Rightarrow> bool" where
  "opens_le cs s = (\<forall>a. Open a \<in> set cs \<longrightarrow> a \<le> s)"

locale sub_matcher =
  fixes again :: matcher and src :: bytes and pat :: bytes and d :: nat
  assumes again_ok: "p \<le> length pat \<Longrightarrow> s \<le> length src \<Longrightarrow> repr src pat ms cs \<Longrightarrow> opens_le cs s \<Longrightarrow>
    agrees src pat (ok_pat pat p (map kind cs) \<and> length pat - p + 2 \<le> d) (again s p ms) (all_matches src pat p s cs) cs"
begin

lemma again_at:
  assumes "p \<le> length pat" "s \<le> length src" "repr src pat ms cs" "opens_le cs s"
    and "g \<Longrightarrow> ok_pat pat p (map kind cs) \<and> length pat - p + 2 \<le> d"
  shows "agrees src pat g (again s p ms) (all_matches src pat p s cs) cs"
  using again_ok [OF assms(1-4)] assms(5) by (rule agrees_weaken) simp

lemma startCapture_agrees:
  assumes "p \<le> length pat" "s \<le> length src" "repr src pat ms cs" "cap_repr src c \<lparr>c_init = s, c_len = what\<rparr>"
    and "no_pos pat \<longrightarrow> kind c \<noteq> KPos" "opens_le cs s"
    and "g \<Longrightarrow> length cs < maxCaptures \<and> ok_pat pat p (map kind cs @ [kind c]) \<and> length pat - p + 2 \<le> d"
  shows "agrees src pat g (startCapture again s p what ms) (all_matches src pat p s (cs @ [c])) cs"
proof (cases "length cs < maxCaptures")
  case False
  then show ?thesis using assms(3,7) by (auto simp: startCapture_def repr_def Let_def)
next
  case True
  let ?ms = "ms\<lparr>ms_capture := (ms_capture ms)[ms_level ms := \<lparr>c_init = s, c_len = what\<rparr>], ms_level := ms_level ms + 1\<rparr>"
  have lv: "ms_level ms = length cs" using assms(3) by (simp add: repr_def)
  have "agrees src pat g (again s p ?ms) (all_matches src pat p s (cs @ [c])) (cs @ [c])"
    using assms True lv by (intro again_at repr_push) (auto simp: opens_le_def)
  then show ?thesis
    using True lv by (auto simp: startCapture_def Let_def agrees_def rbind_def split: sum.splits list.splits dest: repr_pop)
qed

lemma endCapture_agrees:
  assumes "p \<le> length pat" "s \<le> length src" "repr src pat ms cs"
    and "g \<Longrightarrow> (case last_open is_Open cs of None \<Rightarrow> False
      | Some l \<Rightarrow> ok_pat pat p ((map kind cs)[l := KSpan]) \<and> length pat - p + 2 \<le> d)"
    and "opens_le cs s"
  shows "agrees src pat g (endCapture again s p ms)
    (case last_open is_Open cs of None \<Rightarrow> []
     | Some l \<Rightarrow> (case cs ! l of Open a \<Rightarrow> all_matches src pat p s (cs[l := Span a s]) | _ \<Rightarrow> [])) cs"
proof (cases "last_open is_Open cs")
  case None
  with find_open [OF assms(3)] assms(4) show ?thesis by (auto simp: endCapture_def)
next
  case (Some l)
  then obtain a where l: "l < length cs" "cs ! l = Open a" by (rule last_openD)
  then have le: "a \<le> s" using assms(5) nth_mem unfolding opens_le_def by metis
  have init: "c_init (ms_capture ms ! l) = a" using assms(3) l by (auto simp: repr_def)
  let ?ms = "set_len l (int s - int a) ms"
  have r: "repr src pat ?ms (cs[l := Span a s])" using assms(2,3) l init le by (intro repr_set_len) auto
  have "opens_le (cs[l := Span a s]) s"
    using assms(5) set_update_subset_insert [of cs l "Span a s"] by (auto simp: opens_le_def)
  then have ag: "agrees src pat g (again s p ?ms) (all_matches src pat p s (cs[l := Span a s])) (cs[l := Span a s])"
    using assms(4) Some by (intro again_at assms(1,2) r) (auto simp: kind_list_update)
  have undo: "repr src pat (set_len l capUnfinished ms') cs" if "repr src pat ms' (cs[l := Span a s])" for ms'
  proof -
    have "repr src pat (set_len l capUnfinished ms') ((cs[l := Span a s])[l := Open a])"
      using that l le assms(2) by (intro repr_set_len [where a = a]) (auto simp: repr_def)
    then show ?thesis using l(2) list_update_id [of cs l] by simp
  qed
  show ?thesis
    using ag undo Some l init find_open [OF assms(3)]
    by (auto simp: endCapture_def agrees_def rbind_def split: sum.splits list.splits)
qed

lemma max_try_agrees:
  assumes "ep + 1 \<le> length pat" "s + n \<le> length src" "repr src pat ms cs" "opens_le cs s"
    and "g \<Longrightarrow> ok_pat pat (ep + 1) (map kind cs) \<and> length pat - (ep + 1) + 2 \<le> d"
  shows "agrees src pat g (max_try again s ep n ms) (concat (map (\<lambda>i. all_matches src pat (ep + 1) (s + i) cs) (rev [0..<Suc n]))) cs"
  using assms(2,3)
proof (induction n arbitrary: ms)
  case 0
  then have "agrees src pat g (again s (ep + 1) ms) (all_matches src pat (ep + 1) s cs) cs"
    using assms(1,4,5) by (intro again_at) auto
  then show ?case by simp
next
  case (Suc n)
  have "agrees src pat g (again (s + Suc n) (ep + 1) ms) (all_matches src pat (ep + 1) (s + Suc n) cs) cs"
    using Suc.prems assms(1,4,5) by (intro again_at) (auto simp: opens_le_def)
  then have "agrees src pat g (max_try again s ep (Suc n) ms)
      (all_matches src pat (ep + 1) (s + Suc n) cs @ concat (map (\<lambda>i. all_matches src pat (ep + 1) (s + i) cs) (rev [0..<Suc n]))) cs"
    unfolding max_try.simps using Suc by (intro agrees_orelse) auto
  then show ?case by simp
qed

end

lemma singleMatch_single: "classEnd pat p = Inr ep \<Longrightarrow> singleMatch src pat s p ep = Inr (single src pat s p ep)"
  using singleMatch_total [of pat p ep src s] by (auto simp: single_def)

lemma run_len_le: "s \<le> length src \<Longrightarrow> s + run_len src pat s p ep \<le> length src"
proof (induction src pat s p ep rule: run_len.induct)
  case (1 src pat s p ep)
  show ?case
  proof (cases "single src pat s p ep")
    case True
    then have "s < length src" by (auto simp: single_def dest: singleMatch_lt)
    then show ?thesis using 1 True by (simp add: run_len.simps [of src pat s])
  qed (simp add: run_len.simps [of src pat s] 1)
qed

lemma expand_count_run:
  "classEnd pat p = Inr ep \<Longrightarrow> expand_count src pat s p ep i = Inr (i + run_len src pat (s + i) p ep)"
proof (induction src pat s p ep i rule: expand_count.induct)
  case (1 src pat s p ep i)
  then show ?case
    by (subst expand_count.simps, subst run_len.simps) (simp add: singleMatch_single)
qed

lemma upt_Suc_map: "[0..<Suc (Suc n)] = 0 # map Suc [0..<Suc n]"
  by (metis map_Suc_upt upt_conv_Cons zero_less_Suc)

context sub_matcher
begin

lemma maxExpand_agrees:
  assumes "classEnd pat p = Inr ep" "ep + 1 \<le> length pat" "s \<le> length src" "repr src pat ms cs" "opens_le cs s"
    and "g \<Longrightarrow> ok_pat pat (ep + 1) (map kind cs) \<and> length pat - (ep + 1) + 2 \<le> d"
  shows "agrees src pat g (maxExpand again src pat s p ep ms)
    (concat (map (\<lambda>i. all_matches src pat (ep + 1) (s + i) cs) (rev [0..<Suc (run_len src pat s p ep)]))) cs"
  using max_try_agrees [OF assms(2) run_len_le [OF assms(3)] assms(4-6)]
  by (simp add: maxExpand_def expand_count_run [OF assms(1)])

lemma minExpand_agrees:
  assumes "classEnd pat p = Inr ep" "ep + 1 \<le> length pat" "s \<le> length src" "repr src pat ms cs" "opens_le cs s"
    and "g \<Longrightarrow> ok_pat pat (ep + 1) (map kind cs) \<and> length pat - (ep + 1) + 2 \<le> d"
  shows "agrees src pat g (minExpand again src pat s p ep ms)
    (concat (map (\<lambda>i. all_matches src pat (ep + 1) (s + i) cs) [0..<Suc (run_len src pat s p ep)])) cs"
  using assms(3-5)
proof (induction "length src - s" arbitrary: s ms rule: less_induct)
  case less
  let ?rest = "\<lambda>s n. concat (map (\<lambda>i. all_matches src pat (ep + 1) (s + i) cs) [0..<n])"
  let ?f = "\<lambda>ms'. rbind (singleMatch src pat s p ep) (\<lambda>m. if m then minExpand again src pat (s + 1) p ep ms' else Inr (None, ms'))"
  let ?tail = "if single src pat s p ep then ?rest (s + 1) (Suc (run_len src pat (s + 1) p ep)) else []"
  have tail: "agrees src pat g (?f ms') ?tail cs" if "repr src pat ms' cs" for ms'
  proof (cases "single src pat s p ep")
    case True
    then have "s < length src" by (auto simp: single_def dest: singleMatch_lt)
    then have "agrees src pat g (minExpand again src pat (s + 1) p ep ms') (?rest (s + 1) (Suc (run_len src pat (s + 1) p ep))) cs"
      using that less.prems by (intro less.hyps) (auto simp: opens_le_def)
    then show ?thesis using True singleMatch_single [OF assms(1)] by simp
  qed (use that singleMatch_single [OF assms(1)] in simp)
  have "agrees src pat g (again s (ep + 1) ms) (all_matches src pat (ep + 1) s cs) cs"
    using less.prems assms(2,6) by (intro again_at) auto
  then have "agrees src pat g (minExpand again src pat s p ep ms) (all_matches src pat (ep + 1) s cs @ ?tail) cs"
    by (subst minExpand.simps) (rule agrees_orelse [OF _ tail])
  moreover have "all_matches src pat (ep + 1) s cs @ ?tail = ?rest s (Suc (run_len src pat s p ep))"
  proof (cases "single src pat s p ep")
    case True
    then show ?thesis by (simp add: run_len.simps [of src pat s] upt_Suc_map comp_def del: upt_Suc)
  qed (simp add: run_len.simps [of src pat s])
  ultimately show ?case by simp
qed

end

lemma matchCapture_ref:
  assumes "repr src pat ms cs" "s \<le> length src"
  shows "case matchCapture src s x ms of
      Inl e \<Rightarrow> \<not> (0x31 \<le> unat x \<and> unat x - 0x31 < length cs \<and> kind (cs ! (unat x - 0x31)) = KSpan) \<and> (no_pos pat \<longrightarrow> e \<noteq> GoPanic)
    | Inr r \<Rightarrow> r = back_ref src s x cs \<and> (\<forall>s'. r = Some s' \<longrightarrow> s \<le> s' \<and> s' \<le> length src)"
proof (cases "0x31 \<le> unat x \<and> unat x - 0x31 < length cs")
  case False
  have "ms_level ms = length cs" using assms(1) by (simp add: repr_def)
  with False have "int (unat x) - 0x31 < 0 \<or> int (unat x) - 0x31 \<ge> int (ms_level ms)" by arith
  then show ?thesis using False by (auto simp: matchCapture_def Let_def)
next
  case True
  define l where "l = unat x - 0x31"
  have l: "int (unat x) - 0x31 = int l" "l < length cs" "ms_level ms = length cs" "cap_repr src (cs ! l) (ms_capture ms ! l)"
    using True assms(1) by (auto simp: l_def repr_def)
  show ?thesis
  proof (cases "cs ! l")
    case (Open a)
    with l show ?thesis unfolding matchCapture_def by (simp add: Let_def l_def [symmetric])
  next
    case (PosCap a)
    then have "\<not> no_pos pat" using assms(1) l(2) by (auto simp: repr_def image_iff) (metis kind.simps(2) nth_mem)
    moreover have "matchCapture src s x ms = Inl GoPanic"
      using PosCap l assms(2) unfolding matchCapture_def by (simp add: Let_def capUnfinished_def capPosition_def slice_def)
    ultimately show ?thesis using PosCap by (simp add: l_def [symmetric])
  next
    case (Span a b)
    then have c: "ms_capture ms ! l = \<lparr>c_init = a, c_len = int b - int a\<rparr>" "a \<le> b" "b \<le> length src" using l(4) by auto
    have ref: "back_ref src s x cs = (if take (b - a) (drop a src) = take (b - a) (drop s src) then Some (s + (b - a)) else None)"
      using Span True by (simp add: back_ref_def Let_def l_def [symmetric])
    show ?thesis
    proof (cases "b - a \<le> length src - s")
      case True
      then have "matchCapture src s x ms = Inr (back_ref src s x cs)"
        using l c assms(2) unfolding matchCapture_def ref
        by (auto simp: Let_def capUnfinished_def slice_def nat_add_distrib nat_diff_distrib)
      then show ?thesis using ref True assms(2) c by (auto split: if_splits)
    next
      case False
      have "length (take (b - a) (drop a src)) \<noteq> length (take (b - a) (drop s src))" using False c by auto
      then have "back_ref src s x cs = None" using ref by (auto dest: arg_cong [where f = length])
      moreover have "matchCapture src s x ms = Inr None"
        using False l c assms(2) unfolding matchCapture_def by (auto simp: Let_def capUnfinished_def)
      ultimately show ?thesis by simp
    qed
  qed
qed

subsection \<open>The loop of the engine\<close>

definition good :: "bytes \<Rightarrow> nat \<Rightarrow> nat \<Rightarrow> cap list \<Rightarrow> bool" where
  "good pat d p cs = (ok_pat pat p (map kind cs) \<and> length pat - p + 2 \<le> Suc d)"

definition suffix_char :: "bytes \<Rightarrow> nat \<Rightarrow> byte option" where
  "suffix_char pat ep = (if ep < length pat then Some (pat ! ep) else None)"

lemma suffix_char_at:
  "c \<in> {c_quest, c_plus, c_star, c_minus} \<Longrightarrow> suffix_char pat ep = Some c \<longleftrightarrow> suffix_at pat ep = Some c"
  by (auto simp: suffix_char_def suffix_at_def)

lemma escaped_b: "escaped_at pat p = Some c \<Longrightarrow> pat ! p = c_esc \<and> p + 1 < length pat \<and> pat ! (p + 1) = c"
  by (auto simp: escaped_at_def split: if_splits)

lemma digit_ref:
  assumes "is_digit_ref (escaped_at pat p)"
  obtains x where "escaped_at pat p = Some x" "x \<ge> 0x30" "x \<le> 0x39" "x \<noteq> c_b" "x \<noteq> c_f"
  using assms by (auto simp: is_digit_ref_def word_le_nat_alt intro!: that)

text \<open>The loop at each kind of pattern element.\<close>

lemma match_loop_captures:
  assumes "p < length pat"
  shows "pat ! p = c_lpar \<Longrightarrow> match_loop again src pat s p ms =
      (if p + 1 < length pat \<and> pat ! (p + 1) = c_rpar then startCapture again s (p + 2) capPosition ms
       else startCapture again s (p + 1) capUnfinished ms)"
    and "pat ! p = c_rpar \<Longrightarrow> match_loop again src pat s p ms = endCapture again s (p + 1) ms"
    and "pat ! p = c_dollar \<Longrightarrow> p + 1 = length pat \<Longrightarrow>
      match_loop again src pat s p ms = Inr (if s = length src then Some s else None, ms)"
  using assms by (subst match_loop.simps, simp add: bt_def)+

lemma match_loop_balance:
  assumes "escaped_at pat p = Some c_b"
  shows "match_loop again src pat s p ms = rbind (matchBalance src pat s (p + 2)) (\<lambda>r.
      case r of None \<Rightarrow> Inr (None, ms) | Some s' \<Rightarrow> match_loop again src pat s' (p + 4) ms)"
  using escaped_b [OF assms] by (subst match_loop.simps) (simp add: bt_def)

lemma match_loop_frontier:
  assumes "escaped_at pat p = Some c_f"
  shows "match_loop again src pat s p ms =
     (if p + 2 \<ge> length pat \<or> pat ! (p + 2) \<noteq> c_lbr then Inl (LuaError ''missing '[' after '%f' in pattern'')
      else rbind (classEnd pat (p + 2)) (\<lambda>ep.
        rbind (if s \<noteq> 0 then bt src (s - 1) else Inr 0) (\<lambda>prev.
        rbind (matchBracketClass pat prev (p + 2) (ep - 1)) (\<lambda>before.
          if before then Inr (None, ms)
          else rbind (matchBracketClass pat (if s < length src then src ! s else 0) (p + 2) (ep - 1)) (\<lambda>here.
            if here then match_loop again src pat s ep ms else Inr (None, ms))))))"
  using escaped_b [OF assms] by (subst match_loop.simps) (simp add: bt_def)

lemma match_loop_reference:
  assumes "is_digit_ref (escaped_at pat p)"
  shows "match_loop again src pat s p ms = rbind (matchCapture src s (the (escaped_at pat p)) ms) (\<lambda>r.
      case r of None \<Rightarrow> Inr (None, ms) | Some s' \<Rightarrow> match_loop again src pat s' (p + 2) ms)"
  using assms
proof (rule digit_ref)
  fix x assume "escaped_at pat p = Some x" "x \<ge> 0x30" "x \<le> 0x39" "x \<noteq> c_b" "x \<noteq> c_f"
  then show ?thesis using escaped_b [of pat p x] by (subst match_loop.simps) (simp add: bt_def)
qed

text \<open>What the engine does at an item with a suffix or without one, as a function of whether it matches.\<close>

definition item_step :: "matcher \<Rightarrow> bytes \<Rightarrow> bytes \<Rightarrow> nat \<Rightarrow> nat \<Rightarrow> nat \<Rightarrow> matchState \<Rightarrow> (nat option \<times> matchState) res" where
  "item_step again src pat s p ep ms =
     (if \<not> single src pat s p ep then
        (if suffix_at pat ep = Some c_star \<or> suffix_at pat ep = Some c_quest \<or> suffix_at pat ep = Some c_minus
         then match_loop again src pat s (ep + 1) ms else Inr (None, ms))
      else if suffix_at pat ep = Some c_quest then
        rbind (again (s + 1) (ep + 1) ms) (\<lambda>(r, ms').
          case r of Some e \<Rightarrow> Inr (Some e, ms') | None \<Rightarrow> match_loop again src pat s (ep + 1) ms')
      else if suffix_at pat ep = Some c_plus then maxExpand again src pat (s + 1) p ep ms
      else if suffix_at pat ep = Some c_star then maxExpand again src pat s p ep ms
      else if suffix_at pat ep = Some c_minus then minExpand again src pat s p ep ms
      else match_loop again src pat (s + 1) ep ms)"

definition is_item :: "bytes \<Rightarrow> nat \<Rightarrow> bool" where
  "is_item pat p = (p < length pat \<and> pat ! p \<noteq> c_lpar \<and> pat ! p \<noteq> c_rpar \<and> \<not> (pat ! p = c_dollar \<and> p + 1 = length pat) \<and>
     escaped_at pat p \<noteq> Some c_b \<and> escaped_at pat p \<noteq> Some c_f \<and> \<not> is_digit_ref (escaped_at pat p))"

lemma match_loop_item:
  assumes "is_item pat p"
  shows "match_loop again src pat s p ms = rbind (classEnd pat p) (\<lambda>ep. item_step again src pat s p ep ms)"
proof (cases "classEnd pat p")
  case (Inl e)
  then show ?thesis using assms
    by (subst match_loop.simps) (auto simp: is_item_def bt_def escaped_at_def is_digit_ref_def Let_def)
next
  case (Inr ep)
  then show ?thesis
    using assms unfolding item_step_def
    by (subst match_loop.simps)
      (auto simp: is_item_def bt_def escaped_at_def is_digit_ref_def Let_def singleMatch_single suffix_char_def [symmetric] suffix_char_at)
qed

context sub_matcher
begin

text \<open>The loop from a later position of the pattern on.\<close>

definition loop_ok :: "nat \<Rightarrow> nat \<Rightarrow> cap list \<Rightarrow> bool" where
  "loop_ok p s cs = (\<forall>p' s' ms'. p < p' \<longrightarrow> p' \<le> length pat \<longrightarrow> s \<le> s' \<longrightarrow> s' \<le> length src \<longrightarrow> repr src pat ms' cs \<longrightarrow>
     (good pat d p cs \<longrightarrow> ok_pat pat p' (map kind cs)) \<longrightarrow>
     agrees src pat (good pat d p cs) (match_loop again src pat s' p' ms') (all_matches src pat p' s' cs) cs)"

lemma loop_okD:
  "loop_ok p s cs \<Longrightarrow> p < p' \<Longrightarrow> p' \<le> length pat \<Longrightarrow> s \<le> s' \<Longrightarrow> s' \<le> length src \<Longrightarrow> repr src pat ms' cs \<Longrightarrow>
     (good pat d p cs \<Longrightarrow> ok_pat pat p' (map kind cs)) \<Longrightarrow>
     agrees src pat (good pat d p cs) (match_loop again src pat s' p' ms') (all_matches src pat p' s' cs) cs"
  by (simp add: loop_ok_def)

lemma item_step_agrees:
  assumes "is_item pat p" "classEnd pat p = Inr ep" "s \<le> length src" "repr src pat ms cs" "opens_le cs s" "loop_ok p s cs"
  shows "agrees src pat (good pat d p cs) (item_step again src pat s p ep ms) (all_matches src pat p s cs) cs"
proof -
  have b: "p < ep" "ep \<le> length pat" using classEnd_bounds [OF assms(2)] by auto
  let ?all = "\<lambda>i. all_matches src pat (ep + 1) (s + i) cs" and ?n = "run_len src pat s p ep"
  have all: "all_matches src pat p s cs = (case suffix_at pat ep of
      None \<Rightarrow> if single src pat s p ep then all_matches src pat ep (s + 1) cs else []
    | Some c \<Rightarrow> concat (map ?all (repeats c ?n)))"
    using assms(1,2) by (subst all_matches.simps) (auto simp: is_item_def)
  have ok: "ok_pat pat (if suffix_at pat ep = None then ep else ep + 1) (map kind cs)" "length pat - p + 2 \<le> Suc d" if "good pat d p cs"
    using that assms(1,2) unfolding good_def by (subst (asm) ok_pat.simps; auto simp: is_item_def)+
  have lt: "s < length src" if "single src pat s p ep" using that by (auto simp: single_def dest: singleMatch_lt)
  show ?thesis
  proof (cases "suffix_at pat ep")
    case None
    show ?thesis
    proof (cases "single src pat s p ep")
      case True
      have "agrees src pat (good pat d p cs) (match_loop again src pat (s + 1) ep ms) (all_matches src pat ep (s + 1) cs) cs"
        using b ok None lt [OF True] assms(4) by (intro loop_okD [OF assms(6)]) auto
      then show ?thesis using None True all by (simp add: item_step_def)
    qed (use None all assms(4) in \<open>simp add: item_step_def\<close>)
  next
    case (Some c)
    then have ep: "ep < length pat" and c: "c = c_quest \<or> c = c_plus \<or> c = c_star \<or> c = c_minus"
      by (auto simp: suffix_at_def split: if_splits)
    have good': "good pat d p cs \<Longrightarrow> ok_pat pat (ep + 1) (map kind cs) \<and> length pat - (ep + 1) + 2 \<le> d"
      using ok Some b(1) ep by auto
    have go: "agrees src pat (good pat d p cs) (match_loop again src pat s (ep + 1) ms') (?all 0) cs" if "repr src pat ms' cs" for ms'
      using loop_okD [OF assms(6), of "ep + 1" s ms'] b ep that assms(3) good' by simp
    show ?thesis
    proof (cases "single src pat s p ep")
      case False
      then show ?thesis
        using go [OF assms(4)] assms(4) all Some c by (auto simp: item_step_def repeats_def run_len.simps [of src pat s])
    next
      case True
      have n: "?n = Suc (run_len src pat (s + 1) p ep)" using True by (simp add: run_len.simps [of src pat s])
      have le: "opens_le cs (s + 1)" using assms(5) by (auto simp: opens_le_def)
      have one: "agrees src pat (good pat d p cs) (again (s + 1) (ep + 1) ms) (?all 1) cs"
        using ep lt [OF True] assms(4) le good' by (intro again_at) auto
      have many: "rev [1..<Suc ?n] = map Suc (rev [0..<Suc (run_len src pat (s + 1) p ep)])"
        by (simp only: n rev_map [symmetric] map_Suc_upt One_nat_def)
      show ?thesis
        using c
      proof (elim disjE)
        assume "c = c_quest"
        then show ?thesis
          using agrees_orelse [OF one go] True Some all by (simp add: item_step_def repeats_def n)
      next
        assume "c = c_plus"
        moreover have "agrees src pat (good pat d p cs) (maxExpand again src pat (s + 1) p ep ms)
            (concat (map (\<lambda>i. ?all (Suc i)) (rev [0..<Suc (run_len src pat (s + 1) p ep)]))) cs"
          using maxExpand_agrees [OF assms(2) _ _ assms(4) le good'] ep lt [OF True] by simp
        ultimately show ?thesis using True Some all many by (simp add: item_step_def repeats_def comp_def del: upt_Suc)
      next
        assume "c = c_star"
        then show ?thesis
          using maxExpand_agrees [OF assms(2) _ assms(3-5) good'] ep True Some all by (simp add: item_step_def repeats_def)
      next
        assume "c = c_minus"
        then show ?thesis
          using minExpand_agrees [OF assms(2) _ assms(3-5) good'] ep True Some all by (simp add: item_step_def repeats_def)
      qed
    qed
  qed
qed

lemma captures_agree:
  assumes "p < length pat" "pat ! p = c_lpar \<or> pat ! p = c_rpar" "s \<le> length src" "repr src pat ms cs" "opens_le cs s"
  shows "agrees src pat (good pat d p cs) (match_loop again src pat s p ms) (all_matches src pat p s cs) cs"
  using assms(2)
proof
  assume lpar: "pat ! p = c_lpar"
  show ?thesis
  proof (cases "p + 1 < length pat \<and> pat ! (p + 1) = c_rpar")
    case True
    then have "\<not> no_pos pat" using no_posD lpar by blast
    then have "agrees src pat (good pat d p cs) (startCapture again s (p + 2) capPosition ms) (all_matches src pat (p + 2) s (cs @ [PosCap s])) cs"
      using True lpar assms by (intro startCapture_agrees) (auto simp: good_def ok_pat.simps [of pat p])
    then show ?thesis using True lpar assms(1) by (simp add: match_loop_captures all_matches.simps [of _ _ p])
  next
    case False
    then have "agrees src pat (good pat d p cs) (startCapture again s (p + 1) capUnfinished ms) (all_matches src pat (p + 1) s (cs @ [Open s])) cs"
      using lpar assms by (intro startCapture_agrees) (auto simp: good_def ok_pat.simps [of pat p])
    then show ?thesis using False lpar assms(1) by (auto simp: match_loop_captures all_matches.simps [of _ _ p])
  qed
next
  assume rpar: "pat ! p = c_rpar"
  let ?xs = "case last_open is_Open cs of None \<Rightarrow> []
    | Some l \<Rightarrow> (case cs ! l of Open a \<Rightarrow> all_matches src pat (p + 1) s (cs[l := Span a s]) | _ \<Rightarrow> [])"
  have "agrees src pat (good pat d p cs) (endCapture again s (p + 1) ms) ?xs cs"
    using rpar assms last_open_kind [of cs]
    by (intro endCapture_agrees) (auto simp: good_def ok_pat.simps [of pat p] split: option.splits)
  then show ?thesis using rpar assms(1) by (simp add: match_loop_captures all_matches.simps [of _ _ p])
qed

lemma balance_agrees:
  assumes "escaped_at pat p = Some c_b" "p < length pat" "s \<le> length src" "repr src pat ms cs" "loop_ok p s cs"
  shows "agrees src pat (good pat d p cs) (match_loop again src pat s p ms) (all_matches src pat p s cs) cs"
proof -
  note e = escaped_b [OF assms(1)]
  note m = match_loop_balance [OF assms(1), of again src s ms]
  have a: "all_matches src pat p s cs =
      (case matchBalance src pat s (p + 2) of Inr (Some s') \<Rightarrow> all_matches src pat (p + 4) s' cs | _ \<Rightarrow> [])"
    using e assms(1,2) by (subst all_matches.simps) simp
  have k: "p + 3 < length pat \<and> ok_pat pat (p + 4) (map kind cs)" if "good pat d p cs"
    using that e assms(1,2) unfolding good_def by (subst (asm) ok_pat.simps) simp
  show ?thesis
  proof (cases "p + 3 < length pat")
    case False
    then have "matchBalance src pat s (p + 2) = Inl (LuaError ''malformed pattern (missing arguments to '%b')'')"
      by (simp add: matchBalance_def)
    with m a k False show ?thesis by auto
  next
    case True
    then obtain r where r: "matchBalance src pat s (p + 2) = Inr r" by (simp add: matchBalance_def) (metis (full_types))
    show ?thesis
    proof (cases r)
      case (Some s')
      then have "s \<le> s'" "s' \<le> length src" using matchBalance_bounds r by fastforce+
      with loop_okD [OF assms(5), of "p + 4" s' ms] True k assms(4) show ?thesis using m a r Some by simp
    qed (use m a r assms(4) in simp)
  qed
qed

lemma frontier_agrees:
  assumes "escaped_at pat p = Some c_f" "p < length pat" "s \<le> length src" "repr src pat ms cs" "loop_ok p s cs"
  shows "agrees src pat (good pat d p cs) (match_loop again src pat s p ms) (all_matches src pat p s cs) cs"
proof (cases "p + 2 < length pat \<and> pat ! (p + 2) = c_lbr")
  case False
  note e = escaped_b [OF assms(1)]
  have "match_loop again src pat s p ms = Inl (LuaError ''missing '[' after '%f' in pattern'')"
    using False by (auto simp: match_loop_frontier [OF assms(1)])
  moreover have "\<not> good pat d p cs" using e assms(1,2) False unfolding good_def by (subst ok_pat.simps) auto
  ultimately show ?thesis by simp
next
  case True
  note e = escaped_b [OF assms(1)]
  let ?prev = "if s \<noteq> 0 then src ! (s - 1) else 0" and ?cur = "if s < length src then src ! s else 0"
  have pv: "(if s \<noteq> 0 then bt src (s - 1) else Inr 0) = Inr ?prev" using assms(3) by (auto simp: bt_def)
  have m: "match_loop again src pat s p ms = rbind (classEnd pat (p + 2)) (\<lambda>ep.
      rbind (matchBracketClass pat ?prev (p + 2) (ep - 1)) (\<lambda>before. if before then Inr (None, ms)
        else rbind (matchBracketClass pat ?cur (p + 2) (ep - 1)) (\<lambda>here.
          if here then match_loop again src pat s ep ms else Inr (None, ms))))"
    using True pv by (auto simp: match_loop_frontier [OF assms(1)])
  have a: "all_matches src pat p s cs = (case classEnd pat (p + 2) of Inl e \<Rightarrow> []
      | Inr ep \<Rightarrow> if frontier src pat s (p + 2) ep then all_matches src pat ep s cs else [])"
    using e assms(1,2) True by (subst all_matches.simps) (simp split: sum.splits)
  have k: "\<exists>ep. classEnd pat (p + 2) = Inr ep \<and> ok_pat pat ep (map kind cs)" if "good pat d p cs"
    using that e assms(1,2) unfolding good_def by (subst (asm) ok_pat.simps) (auto split: sum.splits)
  show ?thesis
  proof (cases "classEnd pat (p + 2)")
    case (Inl err)
    then show ?thesis using m a k classEnd_no_panic True by auto
  next
    case (Inr ep)
    have b: "p + 5 \<le> ep" "ep \<le> length pat" using classEnd_bracket [OF Inr] True by auto
    then obtain x y where xy: "matchBracketClass pat ?prev (p + 2) (ep - 1) = Inr x" "matchBracketClass pat ?cur (p + 2) (ep - 1) = Inr y"
      using matchBracketClass_total [of "p + 2" pat "ep - 1"] by fastforce
    then have f: "frontier src pat s (p + 2) ep \<longleftrightarrow> \<not> x \<and> y" by (simp add: frontier_def)
    have "agrees src pat (good pat d p cs) (match_loop again src pat s ep ms) (all_matches src pat ep s cs) cs"
      using b k Inr assms(3,4) by (intro loop_okD [OF assms(5)]) auto
    with m a Inr xy f assms(4) show ?thesis by (cases x; cases y) auto
  qed
qed

lemma reference_agrees:
  assumes "is_digit_ref (escaped_at pat p)" "p < length pat" "s \<le> length src" "repr src pat ms cs" "loop_ok p s cs"
  shows "agrees src pat (good pat d p cs) (match_loop again src pat s p ms) (all_matches src pat p s cs) cs"
proof -
  obtain x where x: "escaped_at pat p = Some x" and nb: "x \<noteq> c_b" "x \<noteq> c_f" using assms(1) by (rule digit_ref)
  note e = escaped_b [OF x]
  have m: "match_loop again src pat s p ms = rbind (matchCapture src s x ms) (\<lambda>r.
      case r of None \<Rightarrow> Inr (None, ms) | Some s' \<Rightarrow> match_loop again src pat s' (p + 2) ms)"
    using x by (simp add: match_loop_reference [OF assms(1)])
  have a: "all_matches src pat p s cs = (case back_ref src s x cs of None \<Rightarrow> [] | Some s' \<Rightarrow> all_matches src pat (p + 2) s' cs)"
    using e assms(1,2) x nb by (subst all_matches.simps) simp
  have k: "0x31 \<le> unat x \<and> unat x - 0x31 < length cs \<and> kind (cs ! (unat x - 0x31)) = KSpan \<and> ok_pat pat (p + 2) (map kind cs)"
    if "good pat d p cs"
    using that e assms(1,2) x nb unfolding good_def by (subst (asm) ok_pat.simps) (auto simp: Let_def)
  note mc = matchCapture_ref [OF assms(4,3), of x]
  show ?thesis
  proof (cases "matchCapture src s x ms")
    case (Inl err)
    then show ?thesis using m mc k by auto
  next
    case (Inr r)
    show ?thesis
    proof (cases r)
      case (Some s')
      then have "agrees src pat (good pat d p cs) (match_loop again src pat s' (p + 2) ms) (all_matches src pat (p + 2) s' cs) cs"
        using mc Inr e k assms(4) by (intro loop_okD [OF assms(5)]) auto
      moreover have "back_ref src s x cs = Some s'" using mc Inr Some by simp
      ultimately show ?thesis using m a Inr Some by simp
    qed (use m a Inr mc assms(4) in auto)
  qed
qed

lemma match_loop_agrees:
  assumes "p \<le> length pat" "s \<le> length src" "repr src pat ms cs" "opens_le cs s"
  shows "agrees src pat (good pat d p cs) (match_loop again src pat s p ms) (all_matches src pat p s cs) cs"
  using assms
proof (induction "length pat - p" arbitrary: p s ms rule: less_induct)
  case less
  have lo: "loop_ok p s cs"
    unfolding loop_ok_def
  proof (intro allI impI)
    fix p' s' ms' assume *: "p < p'" "p' \<le> length pat" "s \<le> s'" "s' \<le> length src" "repr src pat ms' cs"
      "good pat d p cs \<longrightarrow> ok_pat pat p' (map kind cs)"
    have "agrees src pat (good pat d p' cs) (match_loop again src pat s' p' ms') (all_matches src pat p' s' cs) cs"
      using * less.prems by (intro less.hyps) (auto simp: opens_le_def)
    then show "agrees src pat (good pat d p cs) (match_loop again src pat s' p' ms') (all_matches src pat p' s' cs) cs"
      by (rule agrees_weaken) (use * in \<open>auto simp: good_def\<close>)
  qed
  consider "p = length pat" | "p < length pat" "pat ! p = c_lpar \<or> pat ! p = c_rpar"
    | (dollar) "p < length pat" "pat ! p = c_dollar" "p + 1 = length pat"
    | "p < length pat" "escaped_at pat p = Some c_b" | "p < length pat" "escaped_at pat p = Some c_f"
    | "p < length pat" "is_digit_ref (escaped_at pat p)" | (item) "is_item pat p"
    using less.prems(1) unfolding is_item_def by linarith
  then show ?case
  proof cases
    case 1
    then show ?thesis using less.prems(3) by (subst match_loop.simps, subst all_matches.simps) (simp add: agrees_def)
  next
    case dollar
    then show ?thesis using less.prems
      by (auto simp: match_loop_captures all_matches.simps [of _ _ p] agrees_def)
  next
    case item
    have "\<not> good pat d p cs" if "classEnd pat p = Inl err" for err
      using item that unfolding good_def is_item_def by (subst ok_pat.simps) auto
    moreover have "classEnd pat p \<noteq> Inl GoPanic" using item classEnd_no_panic by (auto simp: is_item_def)
    ultimately show ?thesis
      using item_step_agrees [OF item _ less.prems(2-4) lo] match_loop_item [OF item]
      by (cases "classEnd pat p") auto
  qed (use less.prems lo in \<open>blast intro: captures_agree balance_agrees frontier_agrees reference_agrees\<close>)+
qed

end

subsection \<open>The engine\<close>

lemma match_at_sub_matcher: "sub_matcher (match_at d src pat) src pat d"
proof (induction d)
  case 0
  show ?case by unfold_locales simp
next
  case (Suc d)
  show ?case
  proof unfold_locales
    fix p s ms cs
    assume "p \<le> length pat" "s \<le> length src" "repr src pat ms cs" "opens_le cs s"
    from sub_matcher.match_loop_agrees [OF Suc this]
    show "agrees src pat (ok_pat pat p (map kind cs) \<and> length pat - p + 2 \<le> Suc d) (match_at (Suc d) src pat s p ms)
        (all_matches src pat p s cs) cs"
      by (auto simp: good_def)
  qed
qed

interpretation engine: sub_matcher "match_at d src pat" src pat d for d src pat
  by (rule match_at_sub_matcher)

definition fresh :: "capture list \<Rightarrow> matchState" where
  "fresh caps = \<lparr>ms_level = 0, ms_capture = caps\<rparr>"

lemma repr_fresh: "length caps = maxCaptures \<Longrightarrow> repr src pat (fresh caps) []"
  by (simp add: repr_def fresh_def)

lemma match_at_fresh:
  assumes "p \<le> length pat" "s \<le> length src" "length caps = maxCaptures"
  shows "agrees src pat (ok_pat pat p [] \<and> length pat - p + 2 \<le> d) (match_at d src pat s p (fresh caps)) (all_matches src pat p s []) []"
  using engine.again_ok [OF assms(1,2) repr_fresh [OF assms(3)]] by (simp add: opens_le_def)

text \<open>
  C12: on a well-formed pattern that is short enough for the depth limit, the engine ends without an error
  and finds the first match of the reference semantics, with its captures, or no match if there is none,
  whatever captures an earlier use left in the state.
\<close>

theorem match_finds_first:
  assumes "p \<le> length pat" "s \<le> length src" "length caps = maxCaptures"
    and "ok_pat pat p []" "length pat - p + 2 \<le> d"
  shows "case all_matches src pat p s [] of
      [] \<Rightarrow> \<exists>ms'. match_at d src pat s p (fresh caps) = Inr (None, ms')
    | m # _ \<Rightarrow> \<exists>ms'. match_at d src pat s p (fresh caps) = Inr (Some (fst m), ms') \<and> repr src pat ms' (snd m)"
  using match_at_fresh [OF assms(1-3), of d] assms(4,5)
  by (auto simp: agrees_def split: sum.splits list.splits)

text \<open>The pattern \<open>(a+)-%1\<close> on the subject \<open>aaa-aab\<close>, from its second character on.\<close>

theorem match_finds_first_witness:
  "\<exists>ms'. match_at 200 (lit ''aaa-aab'') (lit ''(a+)%-%1'') 1 0 (fresh (replicate 32 \<lparr>c_init = 0, c_len = 0\<rparr>)) = Inr (Some 6, ms') \<and>
    repr (lit ''aaa-aab'') (lit ''(a+)%-%1'') ms' [Span 1 3]"
proof -
  have "all_matches (lit ''aaa-aab'') (lit ''(a+)%-%1'') 0 1 [] = [(6, [Span 1 3])]" by code_simp
  moreover have "ok_pat (lit ''(a+)%-%1'') 0 []" by code_simp
  ultimately show ?thesis
    using match_finds_first [of 0 "lit ''(a+)%-%1''" 1 "lit ''aaa-aab''" "replicate 32 \<lparr>c_init = 0, c_len = 0\<rparr>" 200]
    by (simp add: lit_def maxCaptures_def)
qed

text \<open>
  C14: whatever the bytes of the pattern, if it has no position capture, the engine never reads or slices
  outside the subject and the pattern, and what it returns is the first match of the reference semantics.
\<close>

theorem match_safe:
  assumes "s \<le> length src" "length caps = maxCaptures" "no_pos pat"
  shows "case match_at d src pat s 0 (fresh caps) of
      Inl e \<Rightarrow> e \<noteq> GoPanic
    | Inr (r, ms') \<Rightarrow> r = (case all_matches src pat 0 s [] of [] \<Rightarrow> None | m # _ \<Rightarrow> Some (fst m))"
  using match_at_fresh [of 0 pat s src caps d] assms
  by (cases "all_matches src pat 0 s []") (auto simp: agrees_def split: sum.splits)

theorem match_safe_witness:
  "no_pos (lit ''[%'') \<and> match_at 200 (lit ''a'') (lit ''[%'') 0 0 (fresh (replicate 32 \<lparr>c_init = 0, c_len = 0\<rparr>)) \<noteq> Inl GoPanic"
proof -
  have n: "no_pos (lit ''[%'')" by code_simp
  have "length (replicate 32 \<lparr>c_init = 0, c_len = 0\<rparr>) = maxCaptures" by (simp add: maxCaptures_def)
  with n show ?thesis
    using match_safe [of 0 "lit ''a''" "replicate 32 \<lparr>c_init = 0, c_len = 0\<rparr>" "lit ''[%''" 200] by auto
qed

text \<open>
  A reference to a position capture makes the engine slice with a negative length, a Go panic that no
  protected call catches, on every subject.
\<close>

lemma position_reference_panics:
  assumes "s \<le> length src" "length caps = maxCaptures"
  shows "match_at maxMatchDepth src (lit ''()%1'') s 0 (fresh caps) = Inl GoPanic"
proof -
  have ref: "match_loop again src (lit ''()%1'') s 2 \<lparr>ms_level = 1, ms_capture = caps[0 := \<lparr>c_init = s, c_len = - 2\<rparr>]\<rparr> = Inl GoPanic" for again
    using assms by (subst match_loop.simps) (simp add: lit_def bt_def matchCapture_def capUnfinished_def slice_def maxCaptures_def)
  have start: "match_loop again src (lit ''()%1'') s 0 (fresh caps) =
      startCapture again s 2 (- 2) (fresh caps)" for again
    by (subst match_loop.simps) (simp add: lit_def bt_def capPosition_def numeral_2_eq_2)
  have "match_at (Suc (Suc 198)) src (lit ''()%1'') s 0 (fresh caps) = Inl GoPanic"
    unfolding match_at.simps start by (simp add: ref [simplified] startCapture_def fresh_def maxCaptures_def)
  then show ?thesis by (simp add: maxMatchDepth_def)
qed

lemma position_reference_panics_witness:
  "match_at maxMatchDepth (lit ''x'') (lit ''()%1'') 0 0 (fresh (replicate 32 \<lparr>c_init = 0, c_len = 0\<rparr>)) = Inl GoPanic"
  using position_reference_panics [of 0 "lit ''x''" "replicate 32 \<lparr>c_init = 0, c_len = 0\<rparr>"] by (simp add: maxCaptures_def)

end
