(* ===== verification/StrFind.thy ===== *)
theory StrFind
  imports PatternRef
begin

text \<open>
  The functions of the string library that use the pattern engine (lstrlib_pattern.go): \<open>find\<close>, \<open>match\<close>,
  \<open>gmatch\<close> and \<open>gsub\<close>. The captures that a recycled match state holds from its last use are the argument
  \<open>caps\<close>. Lua code that a replacement runs acts on a state of its own: \<open>tindex\<close> is the indexing of a
  replacement table, \<open>fcall\<close> the call of a replacement function.
\<close>

subsection \<open>Matches stay within the subject\<close>

definition forward :: "bytes \<Rightarrow> nat \<Rightarrow> (nat option \<times> matchState) res \<Rightarrow> bool" where
  "forward src s r = (\<forall>e ms'. r = Inr (Some e, ms') \<longrightarrow> s \<le> e \<and> e \<le> max s (length src))"

lemma forward_fail [simp]: "forward src s (Inl e)" "forward src s (Inr (None, ms))"
  by (auto simp: forward_def)

lemma forward_later: "forward src s' r \<Longrightarrow> s \<le> s' \<Longrightarrow> s' \<le> max s (length src) \<Longrightarrow> forward src s r"
  by (fastforce simp: forward_def)

lemma forward_orelse:
  "forward src s r \<Longrightarrow> (\<And>ms'. forward src s (f ms')) \<Longrightarrow>
   forward src s (rbind r (\<lambda>(q, ms'). case q of Some e \<Rightarrow> Inr (Some e, ms') | None \<Rightarrow> f ms'))"
  by (auto simp: forward_def rbind_Inr_conv split: option.splits) blast+

lemma forward_rbind: "(\<And>x. r = Inr x \<Longrightarrow> forward src s (f x)) \<Longrightarrow> forward src s (rbind r f)"
  by (auto simp: forward_def rbind_Inr_conv)

lemma forward_if: "(b \<Longrightarrow> forward src s x) \<Longrightarrow> (\<not> b \<Longrightarrow> forward src s y) \<Longrightarrow> forward src s (if b then x else y)"
  by simp

lemma matchCapture_forward: "matchCapture src s x ms = Inr (Some s') \<Longrightarrow> s \<le> s' \<and> s' \<le> max s (length src)"
  by (auto simp: matchCapture_def Let_def slice_def rbind_Inr_conv split: if_splits)

lemma expand_count_le:
  "expand_count src pat s p ep i = Inr n \<Longrightarrow> s + i \<le> length src \<or> i = 0 \<Longrightarrow> s + n \<le> length src \<or> n = 0"
proof (induction src pat s p ep i rule: expand_count.induct)
  case (1 src pat s p ep i)
  obtain m where m: "singleMatch src pat (s + i) p ep = Inr m"
    "(if m then expand_count src pat s p ep (i + 1) else Inr i) = Inr n"
    using "1.prems"(1) by (subst (asm) expand_count.simps) (auto simp: rbind_Inr_conv)
  show ?case
  proof (cases m)
    case True
    then have "s + (i + 1) \<le> length src" using m(1) singleMatch_lt by fastforce
    then show ?thesis using "1.IH" [OF m(1) True] m(2) True by simp
  qed (use m(2) "1.prems"(2) in auto)
qed

text \<open>The contract of a matcher that only moves forward, and what the engine's parts make of it.\<close>

locale forward_matcher =
  fixes again :: matcher and src :: bytes
  assumes again_forward: "forward src s (again s p ms)"
begin

lemma startCapture_forward: "forward src s (startCapture again s p what ms)"
  using again_forward [of s p] by (auto simp: startCapture_def forward_def Let_def rbind_Inr_conv split: if_splits)

lemma endCapture_forward: "forward src s (endCapture again s p ms)"
  using again_forward [of s p] by (auto simp: endCapture_def forward_def rbind_Inr_conv split: option.splits)

lemma max_try_forward: "s + n \<le> length src \<or> n = 0 \<Longrightarrow> forward src s (max_try again s ep n ms)"
proof (induction n arbitrary: ms)
  case 0
  then show ?case using again_forward by simp
next
  case (Suc n)
  have "forward src s (again (s + Suc n) (ep + 1) ms)"
    using Suc.prems by (intro forward_later [OF again_forward]) auto
  then show ?case unfolding max_try.simps using Suc by (intro forward_orelse) auto
qed

lemma maxExpand_forward: "forward src s (maxExpand again src pat s p ep ms)"
  unfolding maxExpand_def by (intro forward_rbind max_try_forward) (auto dest!: expand_count_le)

lemma minExpand_forward: "forward src s (minExpand again src pat s p ep ms)"
proof (induction "length src - s" arbitrary: s ms rule: less_induct)
  case less
  have "forward src s (rbind (singleMatch src pat s p ep) (\<lambda>m. if m then minExpand again src pat (s + 1) p ep ms' else Inr (None, ms')))" for ms'
  proof (rule forward_rbind)
    fix m assume "singleMatch src pat s p ep = Inr m"
    then show "forward src s (if m then minExpand again src pat (s + 1) p ep ms' else Inr (None, ms'))"
      using less [of "s + 1" ms'] singleMatch_lt [of src pat s p ep]
      by (auto intro: forward_later [where s' = "s + 1"])
  qed
  then show ?case by (subst minExpand.simps) (intro forward_orelse again_forward)
qed

lemma item_forward:
  assumes loop: "\<And>s' ep ms'. p < ep \<Longrightarrow> forward src s' (match_loop again src pat s' ep ms')" and "p < ep"
  shows "forward src s (item_step again src pat s p ep ms)"
proof (cases "single src pat s p ep")
  case True
  then have lt: "s < length src" by (auto simp: single_def dest: singleMatch_lt)
  have "forward src s (again (s + 1) (ep + 1) ms)" using lt by (intro forward_later [OF again_forward]) auto
  moreover have "forward src s (maxExpand again src pat (s + 1) p ep ms)" using lt by (intro forward_later [OF maxExpand_forward]) auto
  moreover have "forward src s (match_loop again src pat (s + 1) ep ms)" using lt assms(2) by (intro forward_later [OF loop]) auto
  ultimately show ?thesis
    using assms(2) True unfolding item_step_def
    by (auto intro!: forward_orelse maxExpand_forward minExpand_forward loop)
qed (use assms in \<open>auto simp: item_step_def\<close>)

lemma match_loop_forward: "forward src s (match_loop again src pat s p ms)"
proof (induction "length pat - p" arbitrary: s p ms rule: less_induct)
  case less
  have loop: "forward src s' (match_loop again src pat s' p' ms')" if "p < p'" "p < length pat" for s' p' ms'
    using that by (intro less) auto
  consider "p \<ge> length pat" | (item) "is_item pat p" | (special) "p < length pat" "\<not> is_item pat p" by linarith
  then show ?case
  proof cases
    case 1
    then show ?thesis by (subst match_loop.simps) (auto simp: bt_def forward_def)
  next
    case item
    then show ?thesis
      using loop by (auto simp: match_loop_item is_item_def intro!: forward_rbind item_forward dest: classEnd_bounds)
  next
    case special
    have ref: "forward src s (rbind (matchCapture src s x ms) (\<lambda>r. case r of None \<Rightarrow> Inr (None, ms)
        | Some s' \<Rightarrow> match_loop again src pat s' (p + 2) ms))" for x
      using special(1) by (intro forward_rbind) (auto split: option.splits intro: forward_later [OF loop] dest: matchCapture_forward)
    have bal: "forward src s (rbind (matchBalance src pat s (p + 2)) (\<lambda>r. case r of None \<Rightarrow> Inr (None, ms)
        | Some s' \<Rightarrow> match_loop again src pat s' (p + 4) ms))"
      using special(1) by (intro forward_rbind) (fastforce split: option.splits intro: forward_later [OF loop] dest: matchBalance_bounds)
    from special consider "pat ! p = c_lpar" | "pat ! p = c_rpar" | "pat ! p = c_dollar" "p + 1 = length pat"
      | "escaped_at pat p = Some c_b" | (front) "escaped_at pat p = Some c_f" | "is_digit_ref (escaped_at pat p)"
      unfolding is_item_def by blast
    then show ?thesis
    proof cases
      case front
      have hop: "forward src s (match_loop again src pat s ep ms)" if "classEnd pat (p + 2) = Inr ep" for ep
        using special(1) classEnd_bounds [OF that] by (intro loop) auto
      show ?thesis
        unfolding match_loop_frontier [OF front] by (intro forward_if forward_rbind forward_fail hop)
    qed (use special(1) ref bal in
        \<open>auto simp: match_loop_captures match_loop_balance match_loop_reference forward_def [of src s "Inr _"]
          intro!: startCapture_forward endCapture_forward\<close>)
  qed
qed

end

lemma match_at_forward_matcher: "forward_matcher (match_at d src pat) src"
proof (induction d)
  case (Suc d)
  then show ?case by (simp add: forward_matcher_def forward_matcher.match_loop_forward [OF Suc])
qed (simp add: forward_matcher_def)

interpretation engine_forward: forward_matcher "match_at d src pat" src for d src pat
  by (rule match_at_forward_matcher)

lemma match_at_bounds:
  "match_at d src pat s p ms = Inr (Some e, ms') \<Longrightarrow> s \<le> e \<and> e \<le> max s (length src)"
  using engine_forward.again_forward [of src s d pat p ms] by (simp add: forward_def)

subsection \<open>Captures as values\<close>

definition oneCapture :: "bytes \<Rightarrow> matchState \<Rightarrow> nat \<Rightarrow> nat \<Rightarrow> nat \<Rightarrow> Value res" where
  "oneCapture src ms i s e =
     (if i \<ge> ms_level ms then
        (if i \<noteq> 0 then Inl (LuaError (''invalid capture index %'' @ [char_of (i + 49)]))
         else rbind (slice src (int s) (int e)) (\<lambda>r. Inr (VString r)))
      else let cl = c_len (ms_capture ms ! i); a = int (c_init (ms_capture ms ! i)) in
        if cl = capUnfinished then Inl (LuaError ''unfinished capture'')
        else if cl = capPosition then Inr (VInt (word_of_int (a + 1)))
        else rbind (slice src a (a + cl)) (\<lambda>r. Inr (VString r)))"

definition pushCaptures :: "bytes \<Rightarrow> matchState \<Rightarrow> nat \<Rightarrow> nat \<Rightarrow> bool \<Rightarrow> Value list res" where
  "pushCaptures src ms s e whole =
     (let n = (if ms_level ms = 0 \<and> whole then 1 else ms_level ms) in rmap (\<lambda>i. oneCapture src ms i s e) [0..<n])"

definition nospecials :: "bytes \<Rightarrow> bool" where
  "nospecials p = list_all (\<lambda>c. c \<notin> set (lit ''^$*+?.([%-'')) p"

text \<open>\<open>strings.Index\<close>.\<close>

definition strings_index :: "bytes \<Rightarrow> bytes \<Rightarrow> nat option" where
  "strings_index s p = find (\<lambda>i. take (length p) (drop i s) = p) [0..<Suc (length s)]"

definition acquireMatchState :: "capture list \<Rightarrow> matchState" where
  "acquireMatchState caps = \<lparr>ms_level = 0, ms_capture = caps\<rparr>"

definition anchored :: "bytes \<Rightarrow> bool" where
  "anchored pat = (length pat > 0 \<and> pat ! 0 = c_caret)"

subsection \<open>find and match\<close>

text \<open>The loop over the start positions; the results are pushed in order.\<close>

function find_loop :: "bool \<Rightarrow> bytes \<Rightarrow> bytes \<Rightarrow> nat \<Rightarrow> bool \<Rightarrow> nat \<Rightarrow> matchState \<Rightarrow> Value list res" where
  "find_loop fnd src pat pp anchor s1 ms =
     rbind (match_at maxMatchDepth src pat s1 pp (ms\<lparr>ms_level := 0\<rparr>)) (\<lambda>(r, ms').
       case r of
         Some e \<Rightarrow>
           if fnd then rbind (pushCaptures src ms' s1 e False) (\<lambda>caps. Inr (VInt (of_nat s1 + 1) # VInt (of_nat e) # caps))
           else pushCaptures src ms' s1 e True
       | None \<Rightarrow> if s1 + 1 > length src \<or> anchor then Inr [VNil] else find_loop fnd src pat pp anchor (s1 + 1) ms')"
  by pat_completeness auto
termination by (relation "measure (\<lambda>(fnd, src, pat, pp, anchor, s1, ms). Suc (length src) - s1)") auto

declare find_loop.simps [simp del]

text \<open>\<open>strFindAux\<close> once the start position is known to be in the subject.\<close>

definition find_from :: "bool \<Rightarrow> bool \<Rightarrow> capture list \<Rightarrow> bytes \<Rightarrow> bytes \<Rightarrow> i64 \<Rightarrow> Value list res" where
  "find_from fnd asPlain caps s p init =
     (if fnd \<and> (asPlain \<or> nospecials p) then
        rbind (slice s (sint init) (int (length s))) (\<lambda>rest.
          case strings_index rest p of
            Some idx \<Rightarrow> let start = init + of_nat idx in Inr [VInt (start + 1), VInt (start + of_nat (length p))]
          | None \<Rightarrow> Inr [VNil])
      else let anchor = anchored p in
        find_loop fnd s p (if anchor then 1 else 0) anchor (nat (sint init)) (acquireMatchState caps))"

definition find_init :: "i64 \<Rightarrow> i64 \<Rightarrow> i64" where
  "find_init pos ls = (let init = strRelIndex pos ls - 1 in if sint init < 0 then 0 else init)"

definition strFindAux ::
  "(bytes \<Rightarrow> f64 \<times> num_error option) \<Rightarrow> (f64 \<Rightarrow> bytes) \<Rightarrow> (Value \<Rightarrow> string) \<Rightarrow> capture list \<Rightarrow> bool \<Rightarrow> Value list \<Rightarrow> Value list res" where
  "strFindAux pf fmtg tn caps fnd args =
     rbind (checkString fmtg tn 1 (arg 1 args)) (\<lambda>s. rbind (checkString fmtg tn 2 (arg 2 args)) (\<lambda>p.
     rbind (optInt pf tn 3 1 (drop 2 args)) (\<lambda>i.
       let ls = of_nat (length s); init = find_init i ls in
       if sint init > sint ls then Inr [VNil]
       else find_from fnd (length args \<ge> 4 \<and> \<not> IsFalsy (arg 4 args)) caps s p init)))"

definition strFind where "strFind pf fmtg tn caps args = strFindAux pf fmtg tn caps True args"
definition strMatch where "strMatch pf fmtg tn caps args = strFindAux pf fmtg tn caps False args"

subsection \<open>gmatch\<close>

text \<open>The state that the iterator closes over; \<open>g_last = None\<close> is -1.\<close>

record gmatch_state =
  g_src :: nat
  g_last :: "nat option"
  g_ms :: matchState

definition strGmatch ::
  "(bytes \<Rightarrow> f64 \<times> num_error option) \<Rightarrow> (f64 \<Rightarrow> bytes) \<Rightarrow> (Value \<Rightarrow> string) \<Rightarrow> Value list \<Rightarrow> (bytes \<times> bytes \<times> gmatch_state) res" where
  "strGmatch pf fmtg tn args =
     rbind (checkString fmtg tn 1 (arg 1 args)) (\<lambda>s. rbind (checkString fmtg tn 2 (arg 2 args)) (\<lambda>p.
     rbind (optInt pf tn 3 1 (drop 2 args)) (\<lambda>pos.
       let slen = (of_nat (length s) :: i64);
           rel = (if sint pos > 0 then pos else if sint (- pos) > sint slen then 0 else slen + pos + 1);
           init = rel - 1;
           init = (if sint init < 0 \<or> sint init > sint slen then slen + 1 else init) in
       Inr (s, p, \<lparr>g_src = nat (sint init), g_last = None, g_ms = acquireMatchState (replicate maxCaptures \<lparr>c_init = 0, c_len = 0\<rparr>)\<rparr>))))"

function gmatch_iter :: "bytes \<Rightarrow> bytes \<Rightarrow> gmatch_state \<Rightarrow> (Value list \<times> gmatch_state) res" where
  "gmatch_iter s pat g =
     (if g_src g \<le> length s then
        rbind (match_at maxMatchDepth s pat (g_src g) 0 ((g_ms g)\<lparr>ms_level := 0\<rparr>)) (\<lambda>(e, ms').
          if e \<noteq> None \<and> e \<noteq> g_last g then
            rbind (pushCaptures s ms' (g_src g) (the e) True) (\<lambda>caps.
              Inr (caps, \<lparr>g_src = the e, g_last = e, g_ms = ms'\<rparr>))
          else gmatch_iter s pat (g\<lparr>g_src := g_src g + 1, g_ms := ms'\<rparr>))
      else Inr ([], g))"
  by pat_completeness auto
termination by (relation "measure (\<lambda>(s, pat, g). Suc (length s) - g_src g)") auto

declare gmatch_iter.simps [simp del]

subsection \<open>gsub\<close>

definition gsubResult :: "(f64 \<Rightarrow> bytes) \<Rightarrow> (Value \<Rightarrow> string) \<Rightarrow> Value \<Rightarrow> bytes \<Rightarrow> (bytes \<times> bool) res" where
  "gsubResult fmtg tn v whole =
     (if IsFalsy v then Inr (whole, False)
      else if IsString v \<or> IsNumber v then Inr (tostr fmtg v, True)
      else Inl (LuaError (''invalid replacement value (a '' @ tn v @ '')'')))"

text \<open>The loop over the replacement string, from its rest on.\<close>

fun repl_loop :: "(f64 \<Rightarrow> bytes) \<Rightarrow> bytes \<Rightarrow> matchState \<Rightarrow> nat \<Rightarrow> nat \<Rightarrow> bytes \<Rightarrow> bytes \<Rightarrow> bytes res" where
  "repl_loop fmtg src ms s e whole [] = Inr []"
| "repl_loop fmtg src ms s e whole (c # r) =
     (if c \<noteq> c_esc then rbind (repl_loop fmtg src ms s e whole r) (\<lambda>t. Inr (c # t))
      else (case r of
          [] \<Rightarrow> Inr []
        | x # r' \<Rightarrow>
            rbind (if x = c_esc then Inr [c_esc]
                   else if x = 0x30 then Inr whole
                   else if x \<ge> 0x31 \<and> x \<le> 0x39 then rbind (oneCapture src ms (unat x - 0x31) s e) (\<lambda>v. Inr (tostr fmtg v))
                   else Inl (LuaError ''invalid use of '%' in replacement string'')) (\<lambda>h.
            rbind (repl_loop fmtg src ms s e whole r') (\<lambda>t. Inr (h @ t)))))"

definition gsubReplace ::
  "(f64 \<Rightarrow> bytes) \<Rightarrow> (Value \<Rightarrow> string) \<Rightarrow> (Value \<Rightarrow> Value \<Rightarrow> 'w \<Rightarrow> (Value \<times> 'w) res) \<Rightarrow>
   (Value \<Rightarrow> Value list \<Rightarrow> 'w \<Rightarrow> (Value list \<times> 'w) res) \<Rightarrow>
   bytes \<Rightarrow> matchState \<Rightarrow> nat \<Rightarrow> nat \<Rightarrow> Value \<Rightarrow> 'w \<Rightarrow> (bytes \<times> bool \<times> 'w) res" where
  "gsubReplace fmtg tn tindex fcall src ms s e repl w =
     rbind (slice src (int s) (int e)) (\<lambda>whole.
       if IsString repl \<or> IsNumber repl then
         rbind (repl_loop fmtg src ms s e whole (tostr fmtg repl)) (\<lambda>r. Inr (r, True, w))
       else if tag repl = tagTable then
         rbind (oneCapture src ms 0 s e) (\<lambda>key. rbind (tindex repl key w) (\<lambda>(v, w').
           rbind (gsubResult fmtg tn v whole) (\<lambda>(r, ch). Inr (r, ch, w'))))
       else if tag repl = tagFunction then
         rbind (pushCaptures src ms s e True) (\<lambda>caps. rbind (fcall repl caps w) (\<lambda>(res, w').
           rbind (gsubResult fmtg tn (case res of [] \<Rightarrow> VNil | v # _ \<Rightarrow> v) whole) (\<lambda>(r, ch). Inr (r, ch, w'))))
       else Inl (ArgError 3 ''string/function/table expected''))"

record 'w gsub_state =
  b_src :: nat
  b_last :: "nat option"
  b_count :: int
  b_changed :: bool
  b_out :: bytes
  b_ms :: matchState
  b_w :: 'w

text \<open>
  The loop of \<open>strGsub\<close>. It ends because a match that is accepted either moves on or ends where the last
  one did not, after which an empty match at the same place is not accepted again.
\<close>

function gsub_loop ::
  "(bytes \<Rightarrow> matchState \<Rightarrow> nat \<Rightarrow> nat \<Rightarrow> 'w \<Rightarrow> (bytes \<times> bool \<times> 'w) res) \<Rightarrow> bytes \<Rightarrow> bytes \<Rightarrow> nat \<Rightarrow> bool \<Rightarrow> int \<Rightarrow>
   'w gsub_state \<Rightarrow> 'w gsub_state res" where
  "gsub_loop replace s pat pp anchor maxN b =
     (if b_count b < maxN then
        rbind (match_at maxMatchDepth s pat (b_src b) pp ((b_ms b)\<lparr>ms_level := 0\<rparr>)) (\<lambda>(e, ms').
          if e \<noteq> None \<and> e \<noteq> b_last b then
            rbind (replace s ms' (b_src b) (the e) (b_w b)) (\<lambda>(rep, ch, w').
              let b' = b\<lparr>b_count := b_count b + 1, b_out := b_out b @ rep, b_changed := b_changed b \<or> ch,
                         b_src := the e, b_last := e, b_ms := ms', b_w := w'\<rparr> in
              if anchor then Inr b' else gsub_loop replace s pat pp anchor maxN b')
          else if b_src b < length s then
            let b' = b\<lparr>b_out := b_out b @ [s ! b_src b], b_src := b_src b + 1, b_ms := ms'\<rparr> in
            if anchor then Inr b' else gsub_loop replace s pat pp anchor maxN b'
          else Inr (b\<lparr>b_ms := ms'\<rparr>))
      else Inr b)"
  by pat_completeness auto
termination
proof (relation "measures [\<lambda>(replace, s, pat, pp, anchor, maxN, b). length s - b_src b,
    \<lambda>(replace, s, pat, pp, anchor, maxN, b). if b_last b = Some (b_src b) then 0 else 1]", goal_cases)
  case (2 replace s pat pp anchor maxN b x e ms')
  then show ?case by (fastforce dest: match_at_bounds)
qed auto

declare gsub_loop.simps [simp del]

definition strGsub ::
  "(bytes \<Rightarrow> f64 \<times> num_error option) \<Rightarrow> (f64 \<Rightarrow> bytes) \<Rightarrow> (Value \<Rightarrow> string) \<Rightarrow> (Value \<Rightarrow> Value \<Rightarrow> 'w \<Rightarrow> (Value \<times> 'w) res) \<Rightarrow>
   (Value \<Rightarrow> Value list \<Rightarrow> 'w \<Rightarrow> (Value list \<times> 'w) res) \<Rightarrow> capture list \<Rightarrow> Value list \<Rightarrow> 'w \<Rightarrow> (Value list \<times> 'w) res" where
  "strGsub pf fmtg tn tindex fcall caps args w =
     rbind (checkString fmtg tn 1 (arg 1 args)) (\<lambda>s. rbind (checkString fmtg tn 2 (arg 2 args)) (\<lambda>p.
       let repl = arg 3 args in
       rbind (optInt pf tn 4 (of_nat (length s) + 1) (drop 3 args)) (\<lambda>maxN.
       let anchor = anchored p in
       rbind (gsub_loop (\<lambda>s ms a e w. gsubReplace fmtg tn tindex fcall s ms a e repl w) s p (if anchor then 1 else 0) anchor (sint maxN)
           \<lparr>b_src = 0, b_last = None, b_count = 0, b_changed = False, b_out = [], b_ms = acquireMatchState caps, b_w = w\<rparr>) (\<lambda>b.
         if \<not> b_changed b then
           Inr ([if IsString (arg 1 args) then arg 1 args else VString s, VInt (word_of_int (b_count b))], b_w b)
         else Inr ([VString (b_out b @ (if b_src b < length s then drop (b_src b) s else [])), VInt (word_of_int (b_count b))], b_w b)))))"

subsection \<open>What the captures are\<close>

fun cap_value :: "bytes \<Rightarrow> cap \<Rightarrow> Value" where
  "cap_value src (PosCap a) = VInt (of_nat (a + 1))"
| "cap_value src (Span a b) = VString (take (b - a) (drop a src))"
| "cap_value src (Open a) = VNil"

lemma slice_nat: "a \<le> b \<Longrightarrow> b \<le> length s \<Longrightarrow> slice s (int a) (int b) = Inr (take (b - a) (drop a s))"
  by (simp add: slice_def)

lemma oneCapture_repr:
  assumes "repr src pat ms cs" "i < length cs" "kind (cs ! i) \<noteq> KOpen"
  shows "oneCapture src ms i s e = Inr (cap_value src (cs ! i))"
proof -
  have r: "cap_repr src (cs ! i) (ms_capture ms ! i)" "ms_level ms = length cs" using assms(1,2) by (auto simp: repr_def)
  show ?thesis
  proof (cases "cs ! i")
    case (Span a b)
    with r have "ms_capture ms ! i = \<lparr>c_init = a, c_len = int b - int a\<rparr>" "a \<le> b" "b \<le> length src" by auto
    with r(2) assms(2) Span show ?thesis
      by (simp add: oneCapture_def capUnfinished_def capPosition_def slice_nat)
  qed (use assms r in \<open>auto simp: oneCapture_def capUnfinished_def capPosition_def Let_def\<close>)
qed

lemma pushCaptures_repr:
  assumes "repr src pat ms cs" "KOpen \<notin> kind ` set cs" "s \<le> e" "e \<le> length src"
  shows "pushCaptures src ms s e whole =
    Inr (if cs = [] \<and> whole then [VString (take (e - s) (drop s src))] else map (cap_value src) cs)"
proof -
  have lv: "ms_level ms = length cs" using assms(1) by (simp add: repr_def)
  have "rmap (\<lambda>i. oneCapture src ms i s e) [0..<length cs] = Inr (map (\<lambda>i. cap_value src (cs ! i)) [0..<length cs])"
    using assms(1,2) by (intro rmap_Inr oneCapture_repr) (auto simp: image_iff, metis nth_mem)
  moreover have "map (\<lambda>i. cap_value src (cs ! i)) [0..<length cs] = map (cap_value src) cs"
    by (intro nth_equalityI) auto
  moreover have "oneCapture src ms 0 s e = Inr (VString (take (e - s) (drop s src)))" if "cs = []"
    using that lv assms(3,4) by (simp add: oneCapture_def slice_nat)
  ultimately show ?thesis using lv by (auto simp: pushCaptures_def)
qed

lemma ok_pat_item:
  "is_item pat p \<Longrightarrow> ok_pat pat p ks = (case classEnd pat p of Inl e \<Rightarrow> False
     | Inr ep \<Rightarrow> ok_pat pat (if suffix_at pat ep = None then ep else ep + 1) ks)"
  by (subst ok_pat.simps) (auto simp: is_item_def split: sum.splits)

lemma all_matches_item:
  "is_item pat p \<Longrightarrow> classEnd pat p = Inr ep \<Longrightarrow> all_matches src pat p s cs = (case suffix_at pat ep of
      None \<Rightarrow> if single src pat s p ep then all_matches src pat ep (s + 1) cs else []
    | Some c \<Rightarrow> concat (map (\<lambda>i. all_matches src pat (ep + 1) (s + i) cs) (repeats c (run_len src pat s p ep))))"
  by (subst all_matches.simps) (auto simp: is_item_def)

text \<open>In the matches of a well-formed pattern every capture is closed.\<close>

lemma all_matches_closed:
  assumes "ok_pat pat p (map kind cs)" "m \<in> set (all_matches src pat p s cs)"
  shows "KOpen \<notin> kind ` set (snd m)"
  using assms
proof (induction "length pat - p" arbitrary: p s cs rule: less_induct)
  case less
  have IH: "KOpen \<notin> kind ` set (snd m)"
    if "p < p'" "p < length pat" "ok_pat pat p' (map kind cs')" "m \<in> set (all_matches src pat p' s' cs')" for p' s' cs'
    using that by (intro less.hyps [of p']) auto
  have step: "ok_pat pat p' (map kind cs) \<Longrightarrow> m \<in> set (all_matches src pat p' s' cs) \<Longrightarrow> ?thesis" if "p < p'" "p < length pat" for p' s'
    using IH [OF that] by blast
  note all = less.prems(2) [unfolded all_matches.simps [of src pat p]] and ok = less.prems(1) [unfolded ok_pat.simps [of pat p]]
  consider "p \<ge> length pat" | (lpar) "p < length pat" "pat ! p = c_lpar" | (rpar) "p < length pat" "pat ! p = c_rpar"
    | "p < length pat" "pat ! p = c_dollar" "p + 1 = length pat"
    | (bal) "p < length pat" "escaped_at pat p = Some c_b" | (front) "p < length pat" "escaped_at pat p = Some c_f"
    | (digit) "p < length pat" "is_digit_ref (escaped_at pat p)" | (item) "is_item pat p"
    unfolding is_item_def by linarith
  then show ?case
  proof cases
    case lpar
    then show ?thesis
      using ok all IH [of "p + 2" "cs @ [PosCap s]" s] IH [of "p + 1" "cs @ [Open s]" s] by (auto split: if_splits)
  next
    case rpar
    then show ?thesis
      using ok all IH [of "p + 1"] last_open_kind [of cs]
      by (auto split: option.splits cap.splits) (metis kind_list_update)
  next
    case bal
    then show ?thesis using ok all escaped_b [OF bal(2)] step [of "p + 4"] by (auto split: sum.splits option.splits)
  next
    case front
    note e = escaped_b [OF front(2)]
    then obtain ep where ep: "classEnd pat (p + 2) = Inr ep" "ok_pat pat ep (map kind cs)"
      using ok front by (auto split: sum.splits)
    moreover have "m \<in> set (all_matches src pat ep s cs)" using all e front ep by (auto split: if_splits)
    ultimately show ?thesis using step [of ep s] classEnd_bounds [OF ep(1)] front(1) by linarith
  next
    case digit
    then obtain x where "escaped_at pat p = Some x" "x \<noteq> c_b" "x \<noteq> c_f" by (auto elim: digit_ref)
    then show ?thesis using ok all digit escaped_b [of pat p x] step [of "p + 2"] by (auto simp: Let_def split: option.splits)
  next
    case item
    then obtain ep where ep: "classEnd pat p = Inr ep" "ok_pat pat (if suffix_at pat ep = None then ep else ep + 1) (map kind cs)"
      using ok_pat_item [OF item, of "map kind cs"] less.prems(1) by (auto split: sum.splits)
    obtain s' where s': "m \<in> set (all_matches src pat (if suffix_at pat ep = None then ep else ep + 1) s' cs)"
      using less.prems(2) unfolding all_matches_item [OF item ep(1)] by (auto split: option.splits if_splits)
    show ?thesis using step [OF _ _ ep(2) s'] classEnd_bounds [OF ep(1)] by auto
  qed (use ok all in auto)
qed

subsection \<open>The leftmost match\<close>

lemma match_run:
  assumes "ok_pat pat p []" "length pat - p + 2 \<le> maxMatchDepth" "p \<le> length pat" "s \<le> length src" "length (ms_capture ms) = maxCaptures"
  shows "case all_matches src pat p s [] of
      [] \<Rightarrow> \<exists>ms'. match_at maxMatchDepth src pat s p (ms\<lparr>ms_level := 0\<rparr>) = Inr (None, ms') \<and> length (ms_capture ms') = maxCaptures
    | m # _ \<Rightarrow> \<exists>ms'. match_at maxMatchDepth src pat s p (ms\<lparr>ms_level := 0\<rparr>) = Inr (Some (fst m), ms') \<and>
        repr src pat ms' (snd m) \<and> KOpen \<notin> kind ` set (snd m) \<and> s \<le> fst m \<and> fst m \<le> length src"
proof -
  have f: "ms\<lparr>ms_level := 0\<rparr> = fresh (ms_capture ms)" by (cases ms) (simp add: fresh_def)
  note ag = match_at_fresh [OF assms(3,4,5), of maxMatchDepth, folded f]
  show ?thesis
  proof (cases "all_matches src pat p s []")
    case Nil
    then show ?thesis using ag assms(1,2) by (auto simp: agrees_def repr_def split: sum.splits)
  next
    case (Cons m xs)
    then obtain ms' where ms': "match_at maxMatchDepth src pat s p (ms\<lparr>ms_level := 0\<rparr>) = Inr (Some (fst m), ms')" "repr src pat ms' (snd m)"
      using ag assms(1,2) by (auto simp: agrees_def split: sum.splits)
    moreover have "KOpen \<notin> kind ` set (snd m)" using all_matches_closed [of pat p "[]" m src s] assms(1) Cons by simp
    moreover have "s \<le> fst m" "fst m \<le> length src" using match_at_bounds [OF ms'(1)] assms(4) by auto
    ultimately show ?thesis using Cons by auto
  qed
qed

text \<open>The results of \<open>find\<close> and \<open>match\<close> for a match at \<open>s\<close>.\<close>

definition match_results :: "bool \<Rightarrow> bytes \<Rightarrow> nat \<Rightarrow> nat \<times> cap list \<Rightarrow> Value list" where
  "match_results fnd src s m =
     (if fnd then VInt (of_nat s + 1) # VInt (of_nat (fst m)) # map (cap_value src) (snd m)
      else if snd m = [] then [VString (take (fst m - s) (drop s src))]
      else map (cap_value src) (snd m))"

text \<open>The first of the start positions \<open>ss\<close> with a match.\<close>

definition leftmost :: "bool \<Rightarrow> bytes \<Rightarrow> bytes \<Rightarrow> nat \<Rightarrow> nat list \<Rightarrow> Value list" where
  "leftmost fnd src pat p ss =
     (case find (\<lambda>s. all_matches src pat p s [] \<noteq> []) ss of
        None \<Rightarrow> [VNil]
      | Some s \<Rightarrow> match_results fnd src s (hd (all_matches src pat p s [])))"

lemma leftmost_Cons:
  "leftmost fnd src pat p (s # ss) =
     (case all_matches src pat p s [] of [] \<Rightarrow> leftmost fnd src pat p ss | m # _ \<Rightarrow> match_results fnd src s m)"
  by (auto simp: leftmost_def split: list.splits)

lemma find_loop_leftmost:
  assumes "ok_pat pat p []" "length pat - p + 2 \<le> maxMatchDepth" "p \<le> length pat"
    and "s \<le> length src" "length (ms_capture ms) = maxCaptures"
  shows "find_loop fnd src pat p anchor s ms = Inr (leftmost fnd src pat p (if anchor then [s] else [s..<Suc (length src)]))"
  using assms(4,5)
proof (induction "length src - s" arbitrary: s ms rule: less_induct)
  case less
  have up: "[s..<Suc (length src)] = s # [s + 1..<Suc (length src)]"
    using less.prems(1) by (simp add: upt_conv_Cons del: upt_Suc)
  then have ss: "(if anchor then [s] else [s..<Suc (length src)]) = s # (if anchor then [] else [s + 1..<Suc (length src)])"
    by simp
  note run = match_run [OF assms(1-3) less.prems]
  show ?case
  proof (cases "all_matches src pat p s []")
    case Nil
    then obtain ms' where ms': "match_at maxMatchDepth src pat s p (ms\<lparr>ms_level := 0\<rparr>) = Inr (None, ms')" "length (ms_capture ms') = maxCaptures"
      using run by auto
    show ?thesis
    proof (cases "s + 1 > length src \<or> anchor")
      case True
      then have "leftmost fnd src pat p (if anchor then [] else [s + 1..<Suc (length src)]) = [VNil]" by (auto simp: leftmost_def)
      then show ?thesis using ms' True Nil by (subst find_loop.simps) (simp add: ss leftmost_Cons)
    next
      case False
      then have "length src - (s + 1) < length src - s" "s + 1 \<le> length src" by linarith+
      from less.hyps [OF this ms'(2)] False
      have "find_loop fnd src pat p anchor (s + 1) ms' = Inr (leftmost fnd src pat p [s + 1..<Suc (length src)])"
        by (simp del: upt_Suc)
      then show ?thesis using ms' False Nil by (subst find_loop.simps) (simp add: up leftmost_Cons del: upt_Suc)
    qed
  next
    case (Cons m xs)
    then obtain ms' where ms': "match_at maxMatchDepth src pat s p (ms\<lparr>ms_level := 0\<rparr>) = Inr (Some (fst m), ms')"
      "repr src pat ms' (snd m)" "KOpen \<notin> kind ` set (snd m)" "s \<le> fst m" "fst m \<le> length src" using run by auto
    then show ?thesis
      using Cons by (subst find_loop.simps) (simp add: ss leftmost_Cons match_results_def pushCaptures_repr [OF ms'(2-5)])
  qed
qed

text \<open>A pattern without special characters matches exactly itself.\<close>

lemma nospecials_item:
  assumes "nospecials pat" "p < length pat" "pat ! p \<noteq> c_rpar"
  shows "is_item pat p" "classEnd pat p = Inr (p + 1)" "suffix_at pat (p + 1) = None"
    "single src pat s p (p + 1) \<longleftrightarrow> s < length src \<and> src ! s = pat ! p"
proof -
  have special: "set (lit ''^$*+?.([%-'') = {0x5E, 0x24, 0x2A, 0x2B, 0x3F, 0x2E, 0x28, 0x5B, 0x25, 0x2D}"
    by (simp add: lit_def)
  have ch: "pat ! q \<notin> {0x5E, 0x24, 0x2A, 0x2B, 0x3F, 0x2E, 0x28, 0x5B, 0x25, 0x2D}" if "q < length pat" for q
    using assms(1) nth_mem [OF that] unfolding nospecials_def list_all_iff special by metis
  show "is_item pat p" using ch [OF assms(2)] assms(2,3) by (auto simp: is_item_def escaped_at_def is_digit_ref_def)
  show "classEnd pat p = Inr (p + 1)" using ch [OF assms(2)] assms(2) by (auto simp: classEnd_def bt_def)
  show "suffix_at pat (p + 1) = None" using ch [of "p + 1"] by (auto simp: suffix_at_def)
  show "single src pat s p (p + 1) \<longleftrightarrow> s < length src \<and> src ! s = pat ! p"
    using ch [OF assms(2)] assms(2) by (auto simp: single_def singleMatch_def bt_def)
qed

lemma nospecials_ok:
  assumes "nospecials pat" "ok_pat pat p []" "p \<le> length pat"
  shows "c_rpar \<notin> set (drop p pat)"
  using assms(2,3)
proof (induction "length pat - p" arbitrary: p rule: less_induct)
  case less
  show ?case
  proof (cases "p < length pat")
    case True
    then have d: "drop p pat = pat ! p # drop (p + 1) pat" by (simp add: Cons_nth_drop_Suc)
    have np: "pat ! p \<noteq> c_rpar"
      using less.prems(1) True by (subst (asm) ok_pat.simps) (auto simp: last_open_def)
    note item = nospecials_item [OF assms(1) True np]
    have "ok_pat pat (p + 1) []" using less.prems(1) ok_pat_item [OF item(1)] item(2,3) by simp
    then have "c_rpar \<notin> set (drop (p + 1) pat)" using True by (intro less.hyps) auto
    then show ?thesis using d np by simp
  qed (use less.prems in simp)
qed

lemma nospecials_matches:
  assumes "nospecials pat" "c_rpar \<notin> set pat" "p \<le> length pat" "s \<le> length src"
  shows "all_matches src pat p s cs = (if take (length pat - p) (drop s src) = drop p pat then [(s + (length pat - p), cs)] else [])"
  using assms(3,4)
proof (induction "length pat - p" arbitrary: p s rule: less_induct)
  case less
  show ?case
  proof (cases "p = length pat")
    case True
    then show ?thesis by (subst all_matches.simps) simp
  next
    case False
    then have p: "p < length pat" using less.prems(1) by simp
    then have "pat ! p \<noteq> c_rpar" using assms(2) by (metis nth_mem)
    note item = nospecials_item [OF assms(1) p this]
    have eq: "all_matches src pat p s cs =
        (if s < length src \<and> src ! s = pat ! p then all_matches src pat (p + 1) (s + 1) cs else [])"
      using all_matches_item [OF item(1,2)] item(3,4) by simp
    have take: "take (length pat - p) (drop s src) = drop p pat \<longleftrightarrow>
        s < length src \<and> src ! s = pat ! p \<and> take (length pat - (p + 1)) (drop (s + 1) src) = drop (p + 1) pat"
    proof -
      have d: "drop p pat = pat ! p # drop (p + 1) pat" "length pat - p = Suc (length pat - (p + 1))"
        using p by (auto simp: Cons_nth_drop_Suc)
      show ?thesis
      proof (cases "s < length src")
        case True
        then have "drop s src = src ! s # drop (s + 1) src" by (simp add: Cons_nth_drop_Suc)
        with d True show ?thesis by auto
      qed (simp add: d)
    qed
    show ?thesis
    proof (cases "s < length src \<and> src ! s = pat ! p")
      case True
      have "s + 1 + (length pat - (p + 1)) = s + (length pat - p)" using p by linarith
      then show ?thesis using True less.hyps [of "p + 1" "s + 1"] p eq take by simp
    qed (use eq take in auto)
  qed
qed

text \<open>The first position to try, for the argument \<open>i\<close> and a subject of length \<open>l\<close>.\<close>

definition start_pos :: "nat \<Rightarrow> int \<Rightarrow> nat" where
  "start_pos l i = (if i > 0 then nat (i - 1) else if i = 0 \<or> - i > int l then 0 else nat (int l + i))"

lemma sint_length: "length s < 2 ^ 62 \<Longrightarrow> sint (of_nat (length s) :: i64) = int (length s)"
  using sint_of_int_id [of "int (length s)"] by simp

lemma sint_start:
  fixes i :: i64
  assumes "length s < 2 ^ 62"
  shows "sint (find_init i (of_nat (length s))) = int (start_pos (length s) (sint i))"
proof -
  let ?l = "of_nat (length s) :: i64" and ?r = "strRelIndex i (of_nat (length s) :: i64)"
  note l = sint_length [OF assms]
  have r: "sint ?r = lua_pos (int (length s)) (sint i) \<or> sint ?r = 0 \<and> lua_pos (int (length s)) (sint i) \<le> 0"
    using strRelIndex_pos [of ?l i] l by simp
  moreover have "lua_pos (int (length s)) (sint i) > - (2 ^ 63)" using sint_i64_range [of i] by (auto simp: lua_pos_def)
  ultimately have "sint ?r > - (2 ^ 63)" by auto
  then have "sint (?r - 1) = sint ?r - 1"
    using sint_of_int_id [of "sint ?r - 1"] sint_i64_range [of ?r] by simp
  then show ?thesis using r by (auto simp: find_init_def start_pos_def lua_pos_def Let_def)
qed

lemma nospecials_no_caret: "nospecials pat \<Longrightarrow> \<not> anchored pat"
  by (cases pat) (simp_all add: anchored_def nospecials_def lit_def)

lemma find_shift: "find P [k..<k + n] = map_option ((+) k) (find (\<lambda>i. P (k + i)) [0..<n])"
proof (induction n arbitrary: k P)
  case (Suc n)
  have "[k..<k + Suc n] = k # [Suc k..<Suc k + n]" by (simp add: upt_conv_Cons del: upt_Suc)
  moreover have "[0..<Suc n] = 0 # map Suc [0..<n]" by (metis map_Suc_upt upt_conv_Cons zero_less_Suc)
  moreover have "find Q (map Suc xs) = map_option Suc (find (Q \<circ> Suc) xs)" for Q :: "nat \<Rightarrow> bool" and xs by (induction xs) auto
  ultimately show ?case
    using Suc.IH [of P "Suc k"] by (simp add: comp_def option.map_comp del: upt_Suc)
qed simp

text \<open>The shortcut for plain text finds what the engine would find.\<close>

lemma find_plain:
  assumes "nospecials pat" "ok_pat pat 0 []" "sint init = int k" "k \<le> length s"
  shows "find_from True False caps s pat init = Inr (leftmost True s pat 0 [k..<Suc (length s)])"
proof -
  have nr: "c_rpar \<notin> set pat" using nospecials_ok [OF assms(1,2)] by simp
  have m: "all_matches s pat 0 i [] = (if take (length pat) (drop i s) = pat then [(i + length pat, [])] else [])" if "i \<le> length s" for i
    using nospecials_matches [OF assms(1) nr, of 0 i s "[]"] that by simp
  let ?P = "\<lambda>i. take (length pat) (drop i s) = pat"
  have idx: "map_option ((+) k) (strings_index (drop k s) pat) = find ?P [k..<Suc (length s)]"
    using find_shift [of ?P k "Suc (length s - k)"] assms(4) by (simp add: strings_index_def add.commute del: upt_Suc)
  also have "\<dots> = find (\<lambda>i. all_matches s pat 0 i [] \<noteq> []) [k..<Suc (length s)]"
    using m by (intro find_cong) (auto split: if_splits)
  finally have f: "find (\<lambda>i. all_matches s pat 0 i [] \<noteq> []) [k..<Suc (length s)] = map_option ((+) k) (strings_index (drop k s) pat)" ..
  have init: "init = of_nat k" using assms(3) by (metis of_int_of_nat_eq of_int_sint scast_id)
  show ?thesis
  proof (cases "strings_index (drop k s) pat")
    case None
    then show ?thesis using assms f by (simp add: find_from_def leftmost_def slice_nat del: upt_Suc)
  next
    case (Some j)
    then have "?P (k + j) \<and> k + j \<le> length s"
      using assms(4) by (auto simp: strings_index_def find_Some_iff add.commute simp del: upt_Suc)
    then show ?thesis
      using assms f Some m by (simp add: find_from_def leftmost_def slice_nat match_results_def init Let_def del: upt_Suc)
  qed
qed

text \<open>
  C13: \<open>string.find\<close> and \<open>string.match\<close> return the leftmost match from the start position on, and there the
  first one in the order of preference, with its positions and captures, or nil if there is none; the
  search for plain text that \<open>find\<close> takes as a shortcut returns the same.
\<close>

theorem str_find_leftmost:
  assumes "ok_pat pat (if anchored pat then 1 else 0) []" "length pat \<le> 198" "length s < 2 ^ 62" "length caps = maxCaptures"
  shows "strFindAux pf fmtg tn caps fnd [VString s, VString pat, VInt i] =
    Inr (let init = start_pos (length s) (sint i) in
         if init > length s then [VNil]
         else leftmost fnd s pat (if anchored pat then 1 else 0) (if anchored pat then [init] else [init..<Suc (length s)]))"
proof -
  let ?k = "start_pos (length s) (sint i)" and ?init = "find_init i (of_nat (length s))"
  note i = sint_start [OF assms(3), of i]
  have run: "strFindAux pf fmtg tn caps fnd [VString s, VString pat, VInt i] =
    (if ?k > length s then Inr [VNil] else find_from fnd False caps s pat ?init)"
    using sint_length [OF assms(3)] by (simp add: strFindAux_def arg_def Let_def i)
  show ?thesis
  proof (cases "?k > length s")
    case False
    have find: "find_loop fnd s pat (if anchored pat then 1 else 0) (anchored pat) ?k (acquireMatchState caps) =
        Inr (leftmost fnd s pat (if anchored pat then 1 else 0) (if anchored pat then [?k] else [?k..<Suc (length s)]))"
      using False assms by (intro find_loop_leftmost) (auto simp: acquireMatchState_def maxMatchDepth_def anchored_def Suc_le_eq)
    show ?thesis
    proof (cases "fnd \<and> nospecials pat")
      case True
      have "\<not> anchored pat" using True using nospecials_no_caret by blast
      then have "find_from True False caps s pat ?init = Inr (leftmost True s pat 0 [?k..<Suc (length s)])"
        using True assms(1) False by (intro find_plain) (auto simp: i)
      then show ?thesis using run True False \<open>\<not> anchored pat\<close> by (simp add: Let_def del: upt_Suc)
    next
      case plainless: False
      then have "find_from fnd False caps s pat ?init =
          find_loop fnd s pat (if anchored pat then 1 else 0) (anchored pat) ?k (acquireMatchState caps)"
        by (auto simp: find_from_def Let_def i)
      then show ?thesis using run find False by (simp add: Let_def del: upt_Suc)
    qed
  qed (use run in simp)
qed

theorem str_find_leftmost_witness:
  "strFindAux (\<lambda>_. (f64_zero, None)) (\<lambda>_. []) (\<lambda>_. []) (replicate 32 \<lparr>c_init = 0, c_len = 0\<rparr>) True
     [VString (lit ''x: ab=12''), VString (lit ''(%a+)=(%d*)''), VInt 2] =
   Inr [VInt 4, VInt 8, VString (lit ''ab''), VString (lit ''12'')]"
proof -
  have "ok_pat (lit ''(%a+)=(%d*)'') 0 []" "\<not> anchored (lit ''(%a+)=(%d*)'')" by code_simp+
  moreover have "leftmost True (lit ''x: ab=12'') (lit ''(%a+)=(%d*)'') 0 [1..<Suc (length (lit ''x: ab=12''))] =
      [VInt 4, VInt 8, VString (lit ''ab''), VString (lit ''12'')]" by code_simp
  ultimately show ?thesis
    using str_find_leftmost [of "lit ''(%a+)=(%d*)''" "lit ''x: ab=12''" "replicate 32 \<lparr>c_init = 0, c_len = 0\<rparr>" _ _ _ _ 2]
    by (simp add: lit_def maxCaptures_def start_pos_def Let_def del: upt_Suc upt_rec_numeral)
qed

subsection \<open>Substitution\<close>

text \<open>
  What \<open>gsub\<close> replaces, without a match state: from a position on, the first position whose first match does
  not end where the last replaced match ended, then on from the end of that match, at most \<open>n\<close> times; with
  an anchor only the first position counts.
\<close>

definition accepts :: "bytes \<Rightarrow> bytes \<Rightarrow> nat \<Rightarrow> nat option \<Rightarrow> nat \<Rightarrow> bool" where
  "accepts src pat p lastEnd a = (case all_matches src pat p a [] of [] \<Rightarrow> False | m # _ \<Rightarrow> lastEnd \<noteq> Some (fst m))"

primrec gsub_matches :: "bool \<Rightarrow> bytes \<Rightarrow> bytes \<Rightarrow> nat \<Rightarrow> nat \<Rightarrow> nat option \<Rightarrow> nat \<Rightarrow> (nat \<times> nat \<times> cap list) list" where
  "gsub_matches anchor src pat p 0 lastEnd s = []"
| "gsub_matches anchor src pat p (Suc n) lastEnd s =
     (case find (accepts src pat p lastEnd) (if anchor then [s] else [s..<Suc (length src)]) of
        None \<Rightarrow> []
      | Some a \<Rightarrow> let m = hd (all_matches src pat p a []) in
          (a, m) # (if anchor then [] else gsub_matches anchor src pat p n (Some (fst m)) (fst m)))"

text \<open>A replacement string as a sequence of bytes and numbered groups; a single percent sign at its end counts for nothing.\<close>

datatype piece = Byte byte | Group nat | BadEscape

fun template :: "bytes \<Rightarrow> piece list" where
  "template [] = []"
| "template [c] = (if c = c_esc then [] else [Byte c])"
| "template (c # x # r) =
     (if c \<noteq> c_esc then Byte c # template (x # r)
      else (if x = c_esc then Byte c_esc else if 0x30 \<le> x \<and> x \<le> 0x39 then Group (unat x - 0x30) else BadEscape) # template r)"

text \<open>Group 0 is the whole match, and so is group 1 in a pattern without captures.\<close>

fun piece_text :: "(f64 \<Rightarrow> bytes) \<Rightarrow> bytes \<Rightarrow> Value list \<Rightarrow> piece \<Rightarrow> bytes res" where
  "piece_text fmtg whole caps (Byte c) = Inr [c]"
| "piece_text fmtg whole caps (Group k) =
     (if k = 0 \<or> k = 1 \<and> caps = [] then Inr whole
      else if k \<le> length caps then Inr (tostr fmtg (caps ! (k - 1)))
      else Inl (LuaError (''invalid capture index %'' @ [char_of (k + 48)])))"
| "piece_text fmtg whole caps BadEscape = Inl (LuaError ''invalid use of '%' in replacement string'')"

text \<open>The text for a match from \<open>a\<close> to \<open>e\<close> with the captures \<open>cs\<close>.\<close>

definition chosen_text :: "(f64 \<Rightarrow> bytes) \<Rightarrow> (Value \<Rightarrow> string) \<Rightarrow> bytes \<Rightarrow> Value \<Rightarrow> bytes res" where
  "chosen_text fmtg tn whole v =
     (case v of VNil \<Rightarrow> Inr whole | VFalse \<Rightarrow> Inr whole
      | VString t \<Rightarrow> Inr t | VInt _ \<Rightarrow> Inr (tostr fmtg v) | VFloat _ \<Rightarrow> Inr (tostr fmtg v)
      | _ \<Rightarrow> Inl (LuaError (''invalid replacement value (a '' @ tn v @ '')'')))"

definition replacement_of ::
  "(f64 \<Rightarrow> bytes) \<Rightarrow> (Value \<Rightarrow> string) \<Rightarrow> (Value \<Rightarrow> Value \<Rightarrow> 'w \<Rightarrow> (Value \<times> 'w) res) \<Rightarrow>
   (Value \<Rightarrow> Value list \<Rightarrow> 'w \<Rightarrow> (Value list \<times> 'w) res) \<Rightarrow> Value \<Rightarrow> bytes \<Rightarrow> nat \<times> nat \<times> cap list \<Rightarrow> 'w \<Rightarrow> (bytes \<times> 'w) res" where
  "replacement_of fmtg tn tindex fcall repl src m w =
     (case m of (a, e, cs) \<Rightarrow>
      let whole = take (e - a) (drop a src); caps = map (cap_value src) cs;
          values = (if caps = [] then [VString whole] else caps) in
      if tag repl = tagString \<or> tag repl = tagInt \<or> tag repl = tagFloat then
        rbind (rmap (piece_text fmtg whole caps) (template (tostr fmtg repl))) (\<lambda>ts. Inr (concat ts, w))
      else if tag repl = tagTable then
        rbind (tindex repl (hd values) w) (\<lambda>(v, w'). rbind (chosen_text fmtg tn whole v) (\<lambda>t. Inr (t, w')))
      else if tag repl = tagFunction then
        rbind (fcall repl values w) (\<lambda>(rs, w'). rbind (chosen_text fmtg tn whole (if rs = [] then VNil else hd rs)) (\<lambda>t. Inr (t, w')))
      else Inl (ArgError 3 ''string/function/table expected''))"

text \<open>The subject from \<open>pos\<close> on with every match replaced, in order; the replacements run one after the other.\<close>

fun weave :: "(nat \<times> nat \<times> cap list \<Rightarrow> 'w \<Rightarrow> (bytes \<times> 'w) res) \<Rightarrow> bytes \<Rightarrow> nat \<Rightarrow> (nat \<times> nat \<times> cap list) list \<Rightarrow> 'w \<Rightarrow> (bytes \<times> 'w) res" where
  "weave R src pos [] w = Inr (drop pos src, w)"
| "weave R src pos ((a, e, cs) # ms) w =
     rbind (R (a, e, cs) w) (\<lambda>(t, w'). rbind (weave R src e ms w') (\<lambda>(rest, w''). Inr (take (a - pos) (drop pos src) @ t @ rest, w'')))"

lemma gsub_matches_step:
  assumes "s \<le> length src"
  shows "gsub_matches anchor src pat p (Suc n) lastEnd s =
    (if accepts src pat p lastEnd s
     then let m = hd (all_matches src pat p s []) in (s, m) # (if anchor then [] else gsub_matches anchor src pat p n (Some (fst m)) (fst m))
     else if anchor \<or> s = length src then [] else gsub_matches anchor src pat p (Suc n) lastEnd (s + 1))"
proof -
  have "[s..<Suc (length src)] = s # [s + 1..<Suc (length src)]" using assms by (simp add: upt_conv_Cons del: upt_Suc)
  then show ?thesis using assms by (cases anchor) (auto simp: Let_def simp del: upt_Suc)
qed

lemma find_upt_ge: "find P [s..<k] = Some a \<Longrightarrow> s \<le> a"
  by (auto simp: find_Some_iff)

lemma gsub_matches_start: "(a, m) \<in> set (take 1 (gsub_matches anchor src pat p n lastEnd s)) \<Longrightarrow> s \<le> a"
  by (cases n) (auto simp: Let_def split: option.splits if_splits dest: find_upt_ge simp del: upt_Suc)

lemma weave_skip:
  assumes "s < length src" "\<And>a m. (a, m) \<in> set (take 1 ms) \<Longrightarrow> s + 1 \<le> a"
  shows "weave R src s ms w = rbind (weave R src (s + 1) ms w) (\<lambda>(t, w'). Inr (src ! s # t, w'))"
proof (cases ms)
  case Nil
  then show ?thesis using assms(1) by (simp add: Cons_nth_drop_Suc)
next
  case (Cons m ms')
  obtain a e cs where m: "m = (a, e, cs)" by (cases m)
  then have "s + 1 \<le> a" using assms(2) [of a "(e, cs)"] Cons by simp
  then have "take (a - s) (drop s src) = src ! s # take (a - (s + 1)) (drop (s + 1) src)"
    using assms(1) by (simp add: Cons_nth_drop_Suc [symmetric] take_Cons')
  then show ?thesis using Cons m by (simp add: rbind_def split: sum.splits)
qed

lemma repr_length: "repr src pat ms cs \<Longrightarrow> length (ms_capture ms) = maxCaptures"
  by (simp add: repr_def)

definition gsub_rank :: "bytes \<Rightarrow> 'w gsub_state \<Rightarrow> nat" where
  "gsub_rank s b = 2 * (length s - b_src b) + (if b_last b = Some (b_src b) then 0 else 1)"

text \<open>What the code's replacement of one match is, for the specification \<open>R\<close>.\<close>

locale replacement =
  fixes replace :: "bytes \<Rightarrow> matchState \<Rightarrow> nat \<Rightarrow> nat \<Rightarrow> 'w \<Rightarrow> (bytes \<times> bool \<times> 'w) res"
    and R :: "bytes \<Rightarrow> nat \<times> nat \<times> cap list \<Rightarrow> 'w \<Rightarrow> (bytes \<times> 'w) res"
  assumes replace_R:
    "repr s pat ms cs \<Longrightarrow> KOpen \<notin> kind ` set cs \<Longrightarrow> a \<le> e \<Longrightarrow> e \<le> length s \<Longrightarrow>
     (case replace s ms a e w of
        Inl x \<Rightarrow> R s (a, e, cs) w = Inl x
      | Inr (t, ch, w') \<Rightarrow> R s (a, e, cs) w = Inr (t, w') \<and> (\<not> ch \<longrightarrow> t = take (e - a) (drop a s)))"
begin

text \<open>The state of the loop: the text before \<open>b_src\<close> is out, and nothing but the subject's as long as nothing has changed.\<close>

definition loop_inv :: "bytes \<Rightarrow> 'w gsub_state \<Rightarrow> bool" where
  "loop_inv s b = (b_src b \<le> length s \<and> length (ms_capture (b_ms b)) = maxCaptures \<and> (\<not> b_changed b \<longrightarrow> b_out b = take (b_src b) s))"

text \<open>The outcome of the loop from \<open>b\<close>, as the specification has it for the matches \<open>ms\<close>.\<close>

definition gsub_outcome :: "bytes \<Rightarrow> 'w gsub_state \<Rightarrow> (nat \<times> nat \<times> cap list) list \<Rightarrow> 'w gsub_state res \<Rightarrow> bool" where
  "gsub_outcome s b ms r = (case r of
     Inl x \<Rightarrow> weave (R s) s (b_src b) ms (b_w b) = Inl x
   | Inr b' \<Rightarrow> loop_inv s b' \<and> b_count b' = b_count b + int (length ms) \<and>
       (\<exists>t. weave (R s) s (b_src b) ms (b_w b) = Inr (t, b_w b') \<and> b_out b @ t = b_out b' @ drop (b_src b') s))"

lemma gsub_outcome_none: "loop_inv s b \<Longrightarrow> gsub_outcome s b [] (Inr (b\<lparr>b_ms := ms'\<rparr>)) \<longleftrightarrow> length (ms_capture ms') = maxCaptures"
  by (auto simp: gsub_outcome_def loop_inv_def)

lemma gsub_outcome_skip:
  assumes "b_src b < length s" "gsub_outcome s (b\<lparr>b_out := b_out b @ [s ! b_src b], b_src := b_src b + 1, b_ms := ms'\<rparr>) ms r"
    and "\<And>a m. (a, m) \<in> set (take 1 ms) \<Longrightarrow> b_src b + 1 \<le> a"
  shows "gsub_outcome s b ms r"
  using assms(2) weave_skip [OF assms(1), of ms "R s" "b_w b"] assms(3)
  by (auto simp: gsub_outcome_def split: sum.splits)

lemma gsub_outcome_match:
  assumes "R s (a, e, cs) (b_w b) = Inr (t, w')" "b_src b = a" "gsub_outcome s (b\<lparr>b_count := b_count b + 1, b_out := b_out b @ t, b_changed := ch,
      b_src := e, b_last := Some e, b_ms := ms', b_w := w'\<rparr>) ms r"
  shows "gsub_outcome s b ((a, e, cs) # ms) r"
  using assms by (auto simp: gsub_outcome_def split: sum.splits)

text \<open>One round of the loop, with a match that is replaced and without one; \<open>IH\<close> is about the rounds to come.\<close>

lemma match_round:
  assumes "ok_pat pat p []" "length pat - p + 2 \<le> maxMatchDepth" "p \<le> length pat" "loop_inv s b"
    and count: "b_count b < maxN" and acc: "accepts s pat p (b_last b) (b_src b)"
    and IH: "\<And>b'. loop_inv s b' \<Longrightarrow> gsub_rank s b' < gsub_rank s b \<Longrightarrow> gsub_outcome s b' (gsub_matches anchor s pat p (nat (maxN - b_count b')) (b_last b') (b_src b'))
      (gsub_loop replace s pat p anchor maxN b')"
  shows "gsub_outcome s b (gsub_matches anchor s pat p (nat (maxN - b_count b)) (b_last b) (b_src b))
      (gsub_loop replace s pat p anchor maxN b)"
proof -
  let ?ms = "gsub_matches anchor s pat p (nat (maxN - b_count b)) (b_last b) (b_src b)" and ?a = "b_src b"
  define n where "n = nat (maxN - (b_count b + 1))"
  have n: "nat (maxN - b_count b) = Suc n" using count by (simp add: n_def)
  note inv = assms(4) [unfolded loop_inv_def] and step = gsub_matches_step [of ?a s anchor pat p n "b_last b", folded n]
    and run = match_run [OF assms(1-3), of ?a s "b_ms b"]
  obtain e cs xs where m: "all_matches s pat p ?a [] = (e, cs) # xs" "b_last b \<noteq> Some e"
    using acc by (fastforce simp: accepts_def split: list.splits)
  then obtain ms' where ms': "match_at maxMatchDepth s pat ?a p ((b_ms b)\<lparr>ms_level := 0\<rparr>) = Inr (Some e, ms')"
    "repr s pat ms' (cs)" "KOpen \<notin> kind ` set (cs)" "?a \<le> e" "e \<le> length s" using run inv by auto
  let ?b = "\<lambda>t ch w'. b\<lparr>b_count := b_count b + 1, b_out := b_out b @ t, b_changed := b_changed b \<or> ch,
    b_src := e, b_last := Some e, b_ms := ms', b_w := w'\<rparr>"
  have loop: "gsub_loop replace s pat p anchor maxN b = rbind (replace s ms' ?a e (b_w b)) (\<lambda>(t, ch, w').
      if anchor then Inr (?b t ch w') else gsub_loop replace s pat p anchor maxN (?b t ch w'))"
    using count ms'(1) m(2) by (subst gsub_loop.simps) (simp add: Let_def)
  have ms: "?ms = (?a, e, cs) # (if anchor then [] else gsub_matches anchor s pat p n (Some e) e)"
    using step acc m(1) inv by (simp add: Let_def)
  note R = replace_R [OF ms'(2-5), of "b_w b"]
  show ?thesis
  proof (cases "replace s ms' ?a e (b_w b)")
    case (Inl x)
    then show ?thesis using R loop ms by (simp add: gsub_outcome_def)
  next
    case (Inr y)
    obtain t ch w' where y: "y = (t, ch, w')" by (cases y)
    then have t: "R s (?a, e, cs) (b_w b) = Inr (t, w')" "\<not> ch \<Longrightarrow> t = take (e - ?a) (drop ?a s)"
      using R Inr by auto
    have "take ?a s @ take (e - ?a) (drop ?a s) = take e s" using ms'(4) by (metis le_add_diff_inverse take_add)
    then have "loop_inv s (?b t ch w')" using inv ms' t(2) repr_length [OF ms'(2)] by (auto simp: loop_inv_def)
    moreover from this have "gsub_outcome s (?b t ch w') [] (Inr (?b t ch w'))" by (simp add: gsub_outcome_def)
    moreover have "gsub_rank s (?b t ch w') < gsub_rank s b" using ms'(4,5) m(2) by (auto simp: gsub_rank_def)
    ultimately show ?thesis
      using IH [of "?b t ch w'"] loop Inr y n_def unfolding ms
      by (intro gsub_outcome_match [where t = t and w' = w' and ch = "b_changed b \<or> ch" and ms' = ms', OF t(1)]) auto
  qed
qed

lemma skip_round:
  assumes "ok_pat pat p []" "length pat - p + 2 \<le> maxMatchDepth" "p \<le> length pat" "loop_inv s b"
    and count: "b_count b < maxN" and acc: "\<not> accepts s pat p (b_last b) (b_src b)"
    and IH: "\<And>b'. loop_inv s b' \<Longrightarrow> gsub_rank s b' < gsub_rank s b \<Longrightarrow> gsub_outcome s b' (gsub_matches anchor s pat p (nat (maxN - b_count b')) (b_last b') (b_src b'))
      (gsub_loop replace s pat p anchor maxN b')"
  shows "gsub_outcome s b (gsub_matches anchor s pat p (nat (maxN - b_count b)) (b_last b) (b_src b))
      (gsub_loop replace s pat p anchor maxN b)"
proof -
  let ?ms = "gsub_matches anchor s pat p (nat (maxN - b_count b)) (b_last b) (b_src b)" and ?a = "b_src b"
  define n where "n = nat (maxN - (b_count b + 1))"
  have n: "nat (maxN - b_count b) = Suc n" using count by (simp add: n_def)
  note inv = assms(4) [unfolded loop_inv_def] and step = gsub_matches_step [of ?a s anchor pat p n "b_last b", folded n]
    and run = match_run [OF assms(1-3), of ?a s "b_ms b"]
  obtain q ms' where q: "match_at maxMatchDepth s pat ?a p ((b_ms b)\<lparr>ms_level := 0\<rparr>) = Inr (q, ms')"
    "length (ms_capture ms') = maxCaptures" "q = None \<or> q = b_last b"
    using run inv acc repr_length by (cases "all_matches s pat p ?a []") (auto simp: accepts_def)
  let ?b = "b\<lparr>b_out := b_out b @ [s ! ?a], b_src := ?a + 1, b_ms := ms'\<rparr>"
  have loop: "gsub_loop replace s pat p anchor maxN b =
      (if ?a < length s then if anchor then Inr ?b else gsub_loop replace s pat p anchor maxN ?b else Inr (b\<lparr>b_ms := ms'\<rparr>))"
    using count q by (subst gsub_loop.simps) (auto simp: Let_def)
  show ?thesis
  proof (cases "?a < length s")
    case True
    have b: "loop_inv s ?b" "gsub_rank s ?b < gsub_rank s b"
      using True inv q(2) by (auto simp: loop_inv_def gsub_rank_def take_Suc_conv_app_nth)
    have ms: "?ms = (if anchor then [] else gsub_matches anchor s pat p (nat (maxN - b_count b)) (b_last b) (?a + 1))"
      using step acc True inv n by simp
    have out: "gsub_outcome s ?b ?ms (gsub_loop replace s pat p anchor maxN b)"
    proof (cases anchor)
      case True
      then have "?ms = []" "gsub_loop replace s pat p anchor maxN b = Inr ?b" using ms loop \<open>?a < length s\<close> by simp_all
      then show ?thesis using b(1) by (simp add: gsub_outcome_def)
    next
      case False
      then show ?thesis using IH [OF b] ms loop True by simp
    qed
    have "?a + 1 \<le> x" if "(x, m) \<in> set (take 1 ?ms)" for x m
    proof (cases anchor)
      case False
      then show ?thesis using that gsub_matches_start unfolding ms if_not_P [OF False] by blast
    qed (use that ms in simp)
    with True out show ?thesis by (rule gsub_outcome_skip)
  next
    case False': False
    then show ?thesis using loop step acc assms(4) n q(2) inv by (simp add: gsub_outcome_none)
  qed
qed

lemma gsub_loop_outcome:
  assumes "ok_pat pat p []" "length pat - p + 2 \<le> maxMatchDepth" "p \<le> length pat"
  shows "loop_inv s b \<Longrightarrow> gsub_outcome s b (gsub_matches anchor s pat p (nat (maxN - b_count b)) (b_last b) (b_src b))
      (gsub_loop replace s pat p anchor maxN b)"
proof (induction "gsub_rank s b" arbitrary: b rule: less_induct)
  case less
  consider "b_count b \<ge> maxN" | (match) "b_count b < maxN" "accepts s pat p (b_last b) (b_src b)"
    | (skip) "b_count b < maxN" "\<not> accepts s pat p (b_last b) (b_src b)" by linarith
  then show ?case
  proof cases
    case 1
    then show ?thesis using less.prems by (simp add: gsub_loop.simps [of _ _ _ _ _ _ b] gsub_outcome_def loop_inv_def)
  next
    case match
    then show ?thesis by (intro match_round [OF assms less.prems] less.hyps)
  next
    case skip
    then show ?thesis by (intro skip_round [OF assms less.prems] less.hyps)
  qed
qed

end

text \<open>The replacement of the code is the one of the specification.\<close>

lemma rbind_assoc: "rbind (rbind r f) g = rbind r (\<lambda>x. rbind (f x) g)"
  by (cases r) simp_all

lemma digit_range: "0x30 \<le> (x :: byte) \<longleftrightarrow> x = 0x30 \<or> 0x31 \<le> x"
  by unat_arith

lemma repl_loop_template:
  assumes "repr src pat ms cs" "KOpen \<notin> kind ` set cs" "s \<le> e" "e \<le> length src"
  defines "whole \<equiv> take (e - s) (drop s src)"
  shows "repl_loop fmtg src ms s e whole r =
    rbind (rmap (piece_text fmtg whole (map (cap_value src) cs)) (template r)) (\<lambda>ts. Inr (concat ts))"
proof -
  have lv: "ms_level ms = length cs" using assms(1) by (simp add: repr_def)
  have group: "rbind (oneCapture src ms (unat x - 0x31) s e) (\<lambda>v. Inr (tostr fmtg v)) =
      piece_text fmtg whole (map (cap_value src) cs) (Group (unat x - 0x30))" if x: "0x31 \<le> x" "x \<le> 0x39" for x :: byte
  proof -
    define i where "i = unat x - 0x31"
    have "unat (0x31 :: byte) \<le> unat x" using x(1) by (simp only: word_le_nat_alt)
    then have k: "unat x - 0x30 = Suc i" by (simp add: i_def)
    show ?thesis
    proof (cases "i < length cs")
      case True
      then have "kind (cs ! i) \<noteq> KOpen" using assms(2) by (metis image_eqI nth_mem)
      then show ?thesis using True oneCapture_repr [OF assms(1) True] k by (auto simp: i_def [symmetric])
    next
      case False
      have "Suc i + 48 = i + 49" by simp
      then show ?thesis
        using False lv k assms(3,4) by (auto simp: i_def [symmetric] oneCapture_def slice_nat whole_def tostr_def add.commute)
    qed
  qed
  show ?thesis
  proof (induction r rule: template.induct)
    case (3 c x r)
    let ?P = "piece_text fmtg whole (map (cap_value src) cs)"
    show ?case
    proof (cases "c = c_esc")
      case True
      have zero: "?P (Group 0) = Inr whole" by simp
      define g where "g = (if x = c_esc then Byte c_esc else if 0x30 \<le> x \<and> x \<le> 0x39 then Group (unat x - 0x30) else BadEscape)"
      have "(if x = c_esc then Inr [c_esc] else if x = 0x30 then Inr whole
          else if x \<ge> 0x31 \<and> x \<le> 0x39 then rbind (oneCapture src ms (unat x - 0x31) s e) (\<lambda>v. Inr (tostr fmtg v))
          else Inl (LuaError ''invalid use of '%' in replacement string'')) = ?P g"
        using group [of x] zero by (cases "0x31 \<le> x \<and> x \<le> 0x39") (auto simp: g_def digit_range zero simp del: piece_text.simps(2))
      then show ?thesis using True "3.IH"(2) by (cases "?P g") (simp_all add: g_def [symmetric] rbind_assoc)
    next
      case False
      then show ?thesis using "3.IH"(1) by (simp add: rbind_assoc)
    qed
  qed auto
qed

lemma gsubResult_chosen:
  "case rbind (gsubResult fmtg tn v whole) (\<lambda>(t, ch). Inr (t, ch, w)) of
     Inl x \<Rightarrow> rbind (chosen_text fmtg tn whole v) (\<lambda>t. Inr (t, w)) = Inl x
   | Inr (t, ch, w') \<Rightarrow> rbind (chosen_text fmtg tn whole v) (\<lambda>t. Inr (t, w)) = Inr (t, w') \<and> (\<not> ch \<longrightarrow> t = whole)"
  by (cases v) (auto simp: gsubResult_def chosen_text_def tostr_def)

lemma replacement_of_values:
  assumes "whole = take (e - a) (drop a src)" "vals = (if cs = [] then [VString whole] else map (cap_value src) cs)"
  shows "replacement_of fmtg tn tindex fcall repl src (a, e, cs) w =
      (if tag repl = tagString \<or> tag repl = tagInt \<or> tag repl = tagFloat then
         rbind (rmap (piece_text fmtg whole (map (cap_value src) cs)) (template (tostr fmtg repl))) (\<lambda>ts. Inr (concat ts, w))
       else if tag repl = tagTable then
         rbind (tindex repl (hd vals) w) (\<lambda>(v, w'). rbind (chosen_text fmtg tn whole v) (\<lambda>t. Inr (t, w')))
       else if tag repl = tagFunction then
         rbind (fcall repl vals w) (\<lambda>(rs, w'). rbind (chosen_text fmtg tn whole (if rs = [] then VNil else hd rs)) (\<lambda>t. Inr (t, w')))
       else Inl (ArgError 3 ''string/function/table expected''))"
  using assms by (simp add: replacement_of_def Let_def)

lemma gsubReplace_replacement:
  assumes "repr src pat ms cs" "KOpen \<notin> kind ` set cs" "a \<le> e" "e \<le> length src"
  shows "case gsubReplace fmtg tn tindex fcall src ms a e repl w of
     Inl x \<Rightarrow> replacement_of fmtg tn tindex fcall repl src (a, e, cs) w = Inl x
   | Inr (t, ch, w') \<Rightarrow> replacement_of fmtg tn tindex fcall repl src (a, e, cs) w = Inr (t, w') \<and>
       (\<not> ch \<longrightarrow> t = take (e - a) (drop a src))"
proof -
  define whole where "whole = take (e - a) (drop a src)"
  define vals where "vals = (if cs = [] then [VString whole] else map (cap_value src) cs)"
  have key: "oneCapture src ms 0 a e = Inr (hd vals)"
    using assms oneCapture_repr [OF assms(1), of 0] by (cases cs) (auto simp: oneCapture_def repr_def slice_nat whole_def vals_def)
  have args: "pushCaptures src ms a e True = Inr vals"
    using pushCaptures_repr [OF assms, of True] by (simp add: whole_def vals_def)
  note code = gsubReplace_def slice_nat [OF assms(3,4)] whole_def [symmetric]
  note spec = replacement_of_values [OF whole_def vals_def]
  have first: "(case rs of [] \<Rightarrow> VNil | v # _ \<Rightarrow> v) = (if rs = [] then VNil else hd rs)" for rs by (cases rs) auto
  consider "tag repl = tagString \<or> tag repl = tagInt \<or> tag repl = tagFloat" | (tab) "tag repl = tagTable"
    | (func) "tag repl = tagFunction" | "tag repl \<notin> {tagString, tagInt, tagFloat, tagTable, tagFunction}" by blast
  then show ?thesis
  proof cases
    case 1
    then show ?thesis
      using repl_loop_template [OF assms, of fmtg "tostr fmtg repl"]
      by (auto simp: spec code rbind_def split: sum.splits)
  next
    case tab
    show ?thesis
    proof (cases "tindex repl (hd vals) w")
      case (Inr y)
      then have "gsubReplace fmtg tn tindex fcall src ms a e repl w =
          rbind (gsubResult fmtg tn (fst y) whole) (\<lambda>(t, ch). Inr (t, ch, snd y))"
        "replacement_of fmtg tn tindex fcall repl src (a, e, cs) w = rbind (chosen_text fmtg tn whole (fst y)) (\<lambda>t. Inr (t, snd y))"
        using tab by (simp_all add: spec code key case_prod_beta)
      then show ?thesis unfolding whole_def [symmetric] by (simp only: gsubResult_chosen)
    qed (use tab in \<open>simp add: spec code key\<close>)
  next
    case func
    show ?thesis
    proof (cases "fcall repl vals w")
      case (Inr y)
      let ?v = "if fst y = [] then VNil else hd (fst y)"
      have "gsubReplace fmtg tn tindex fcall src ms a e repl w =
          rbind (gsubResult fmtg tn ?v whole) (\<lambda>(t, ch). Inr (t, ch, snd y))"
        "replacement_of fmtg tn tindex fcall repl src (a, e, cs) w = rbind (chosen_text fmtg tn whole ?v) (\<lambda>t. Inr (t, snd y))"
        using func Inr by (simp_all add: spec code args first case_prod_beta)
      then show ?thesis unfolding whole_def [symmetric] by (simp only: gsubResult_chosen)
    qed (use func in \<open>simp add: spec code args\<close>)
  qed (auto simp: spec code)
qed

interpretation gsub_replacement:
  replacement "\<lambda>s ms a e w. gsubReplace fmtg tn tindex fcall s ms a e repl w" "\<lambda>s. replacement_of fmtg tn tindex fcall repl s"
  for fmtg tn tindex fcall repl
  by unfold_locales (rule gsubReplace_replacement)

text \<open>
  C15: \<open>string.gsub\<close> with a well-formed pattern within the depth limit returns the subject with the text of
  every match replaced and the rest kept in place, and the number of matches: from left to right, the first
  match at the first position where it does not end where the last match ended, up to the limit of the
  optional argument (one match at the start for an anchored pattern). A string or number is a template of
  bytes and groups, a table is indexed with the first capture, a function called with all captures (the whole
  match if there is none), in the order of the matches; a result that is nil or false keeps the text, a string
  or number replaces it, anything else is the error of an invalid value, and the first error ends the call.
\<close>

theorem gsub_replaces:
  assumes "ok_pat pat (if anchored pat then 1 else 0) []" "length pat \<le> 198" "length s < 2 ^ 62" "length caps = maxCaptures"
  shows "strGsub pf fmtg tn tindex fcall caps ([VString s, VString pat, repl] @ (case n of None \<Rightarrow> [] | Some i \<Rightarrow> [VInt i])) w =
    (let ms = gsub_matches (anchored pat) s pat (if anchored pat then 1 else 0)
           (case n of None \<Rightarrow> Suc (length s) | Some i \<Rightarrow> nat (sint i)) None 0 in
     rbind (weave (replacement_of fmtg tn tindex fcall repl s) s 0 ms w) (\<lambda>(t, w').
       Inr ([VString t, VInt (of_nat (length ms))], w')))"
proof -
  let ?b = "\<lparr>b_src = 0, b_last = None, b_count = 0, b_changed = False, b_out = [], b_ms = acquireMatchState caps, b_w = w\<rparr>"
  let ?p = "if anchored pat then 1 else 0 :: nat" and ?n = "case n of None \<Rightarrow> Suc (length s) | Some i \<Rightarrow> nat (sint i)"
  let ?N = "(case n of None \<Rightarrow> of_nat (length s) + 1 | Some i \<Rightarrow> i) :: i64"
  let ?loop = "gsub_loop (\<lambda>s ms a e w. gsubReplace fmtg tn tindex fcall s ms a e repl w) s pat ?p (anchored pat) (sint ?N) ?b"
  have p: "length pat - ?p + 2 \<le> maxMatchDepth" "?p \<le> length pat"
    using assms(2) by (auto simp: maxMatchDepth_def anchored_def Suc_le_eq)
  have N: "nat (sint ?N) = ?n"
    using assms(3) sint_of_int_id [of "int (length s) + 1"] by (auto split: option.split)
  have run: "strGsub pf fmtg tn tindex fcall caps ([VString s, VString pat, repl] @ (case n of None \<Rightarrow> [] | Some i \<Rightarrow> [VInt i])) w =
      rbind ?loop (\<lambda>b. if \<not> b_changed b then Inr ([VString s, VInt (word_of_int (b_count b))], b_w b)
        else Inr ([VString (b_out b @ (if b_src b < length s then drop (b_src b) s else [])), VInt (word_of_int (b_count b))], b_w b))"
    by (cases n) (simp_all add: strGsub_def arg_def optInt_def Let_def cong: if_cong)
  have "gsub_replacement.loop_inv s ?b" using assms(4) by (simp add: gsub_replacement.loop_inv_def acquireMatchState_def)
  note out = gsub_replacement.gsub_loop_outcome [OF assms(1) p this, of fmtg tn tindex fcall repl "anchored pat" "sint ?N"]
  show ?thesis
    using out unfolding run
    by (cases ?loop) (auto simp: gsub_replacement.gsub_outcome_def gsub_replacement.loop_inv_def N Let_def)
qed

text \<open>A function that keeps the first match by returning nothing and replaces the second by its digit; it counts its calls.\<close>

definition sample_call :: "Value \<Rightarrow> Value list \<Rightarrow> nat \<Rightarrow> (Value list \<times> nat) res" where
  "sample_call f args w = Inr (if hd args = VString (lit ''x'') then [] else tl args, w + 1)"

theorem gsub_replaces_witness:
  "strGsub (\<lambda>_. (f64_zero, None)) (\<lambda>_. []) (\<lambda>_. []) (\<lambda>t k w. Inr (VNil, w)) sample_call (replicate 32 \<lparr>c_init = 0, c_len = 0\<rparr>)
     [VString (lit ''x=1, y=2 z''), VString (lit ''(%a)=(%d)''), VFunction 7] 0 =
   Inr ([VString (lit ''x=1, 2 z''), VInt 2], 2)"
proof -
  let ?s = "lit ''x=1, y=2 z''" and ?p = "lit ''(%a)=(%d)''"
  have ok: "ok_pat ?p 0 []" "\<not> anchored ?p" by code_simp+
  have ms: "gsub_matches False ?s ?p 0 (Suc (length ?s)) None 0 = [(0, 3, [Span 0 1, Span 2 3]), (5, 8, [Span 5 6, Span 7 8])]"
    by code_simp
  have len: "length ?p \<le> 198" "length ?s < 2 ^ 62" by (simp_all add: lit_def)
  have "weave (replacement_of (\<lambda>_. []) (\<lambda>_. []) (\<lambda>t k w. Inr (VNil, w)) sample_call (VFunction 7) ?s) ?s 0
      [(0, 3, [Span 0 1, Span 2 3]), (5, 8, [Span 5 6, Span 7 8])] 0 = Inr (lit ''x=1, 2 z'', 2)"
    by (simp add: lit_def replacement_of_def chosen_text_def sample_call_def)
  then show ?thesis
    using gsub_replaces [where n = None and pat = ?p and s = ?s and caps = "replicate 32 \<lparr>c_init = 0, c_len = 0\<rparr>"
        and fcall = sample_call and repl = "VFunction 7" and w = 0] ok len ms
    by (simp add: maxCaptures_def Let_def del: gsub_matches.simps)
qed

end
