(* ===== verification/MathLib.thy ===== *)
theory MathLib
  imports TabSort StrLib
begin

text \<open>
  The math library (lmathlib.go): rounding, remainders, extrema, and the xoshiro256** generator with the
  random numbers drawn from it. A function of Go's package math that is not a rounding (\<open>Sin\<close>, \<open>Log\<close>,
  \<open>Atan2\<close>, \<open>Pow\<close>, \<open>Frexp\<close>, \<open>Ldexp\<close>) is a parameter, and so are the clock and the counter of an automatic
  seed. \<open>args\<close> are the arguments from the first on.
\<close>

subsection \<open>Functions of numbers\<close>

definition checkNumber :: "(bytes \<Rightarrow> f64 \<times> num_error option) \<Rightarrow> (Value \<Rightarrow> string) \<Rightarrow> nat \<Rightarrow> Value list \<Rightarrow> f64 res" where
  "checkNumber pf tn n args =
     (case tonumberCvt pf (arg n args) of Some f \<Rightarrow> Inr f
      | None \<Rightarrow> Inl (ArgError n (''number expected, got '' @ tn (arg n args))))"

definition math1 where
  "math1 pf tn fn args = rbind (checkNumber pf tn 1 args) (\<lambda>x. Inr (VFloat (fn x)))"

definition f64_abs :: "f64 \<Rightarrow> f64" where "f64_abs b = mk_f64 False (f64_mag b)"

definition mathAbs where
  "mathAbs pf tn args =
     (case arg 1 args of VInt i \<Rightarrow> Inr (VInt (if sint i < 0 then - i else i))
      | _ \<Rightarrow> rbind (checkNumber pf tn 1 args) (\<lambda>x. Inr (VFloat (f64_abs x))))"

text \<open>An integer when it fits, else the float.\<close>

definition pushnumint :: "f64 \<Rightarrow> Value" where
  "pushnumint f = (case numberToInteger f of Some i \<Rightarrow> VInt i | None \<Rightarrow> VFloat f)"

definition mathCeil where
  "mathCeil pf tn args =
     (case arg 1 args of VInt i \<Rightarrow> Inr (VInt i)
      | _ \<Rightarrow> rbind (checkNumber pf tn 1 args) (\<lambda>x. Inr (pushnumint (f64_ceil x))))"

definition mathFloor where
  "mathFloor pf tn args =
     (case arg 1 args of VInt i \<Rightarrow> Inr (VInt i)
      | _ \<Rightarrow> rbind (checkNumber pf tn 1 args) (\<lambda>x. Inr (pushnumint (f64_floor x))))"

definition mathAtan where
  "mathAtan atan2 pf tn args =
     rbind (checkNumber pf tn 1 args) (\<lambda>y.
     rbind (if length args \<ge> 2 then checkNumber pf tn 2 args else Inr (f64_of_int 1)) (\<lambda>x. Inr (VFloat (atan2 y x))))"

definition mathPow where
  "mathPow pow pf tn args =
     rbind (checkNumber pf tn 1 args) (\<lambda>x. rbind (checkNumber pf tn 2 args) (\<lambda>y. Inr (VFloat (pow x y))))"

definition mathFrexp where
  "mathFrexp frexp pf tn args =
     rbind (checkNumber pf tn 1 args) (\<lambda>x. case frexp x of (fr, e) \<Rightarrow> Inr [VFloat fr, VInt e])"

definition mathLdexp where
  "mathLdexp ldexp pf tn args =
     rbind (checkNumber pf tn 1 args) (\<lambda>x. rbind (checkInt pf tn 2 (arg 2 args)) (\<lambda>e. Inr (VFloat (ldexp x e))))"

definition mathLog where
  "mathLog log2 log10 loge pf tn args =
     rbind (checkNumber pf tn 1 args) (\<lambda>x.
       if length args \<ge> 2 then
         rbind (checkNumber pf tn 2 args) (\<lambda>base.
           Inr (VFloat (if f64_eq base (f64_of_int 2) then log2 x
                        else if f64_eq base (f64_of_int 10) then log10 x
                        else f64_div (loge x) (loge base))))
       else Inr (VFloat (loge x)))"

text \<open>The constants $180/\pi$ and $\pi/180$, rounded as Go rounds the constant expressions.\<close>

definition mathDeg where
  "mathDeg pf tn args = rbind (checkNumber pf tn 1 args) (\<lambda>x. Inr (VFloat (f64_mul x 0x404CA5DC1A63C1F8)))"

definition mathRad where
  "mathRad pf tn args = rbind (checkNumber pf tn 1 args) (\<lambda>x. Inr (VFloat (f64_mul x 0x3F91DF46A2529D39)))"

definition mathFmod where
  "mathFmod pf tn args =
     (case (arg 1 args, arg 2 args) of
        (VInt a, VInt d) \<Rightarrow>
          if d + 1 \<le> 1 then (if d = 0 then Inl (ArgError 2 ''zero'') else Inr (VInt 0))
          else rbind (go_rem a d) (\<lambda>r. Inr (VInt r))
      | _ \<Rightarrow> rbind (checkNumber pf tn 1 args) (\<lambda>x. rbind (checkNumber pf tn 2 args) (\<lambda>y. Inr (VFloat (f64_mod x y)))))"

text \<open>\<open>math.Modf\<close>: truncation towards zero, and the rest.\<close>

definition f64_modf :: "f64 \<Rightarrow> f64 \<times> f64" where
  "f64_modf x = (let ip = (if f64_lt x f64_zero then f64_uminus (f64_floor (f64_uminus x)) else f64_floor x) in (ip, f64_sub x ip))"

definition mathModf where
  "mathModf pf tn args =
     (case arg 1 args of VInt i \<Rightarrow> Inr [VInt i, VFloat f64_zero]
      | _ \<Rightarrow> rbind (checkNumber pf tn 1 args) (\<lambda>x. case f64_modf x of (ip, fp) \<Rightarrow>
          Inr [pushnumint ip, VFloat (if f64_eq x ip then f64_zero else fp)]))"

text \<open>The loops of \<open>mathMax\<close> and \<open>mathMin\<close> over the arguments after the first, with the best one so far.\<close>

fun max_loop where
  "max_loop lt best [] t = Inr (best, t)"
| "max_loop lt best (v # vs) t = rbind (lt best v t) (\<lambda>(b, t'). max_loop lt (if b then v else best) vs t')"

fun min_loop where
  "min_loop lt best [] t = Inr (best, t)"
| "min_loop lt best (v # vs) t = rbind (lt v best t) (\<lambda>(b, t'). min_loop lt (if b then v else best) vs t')"

definition mathMax where
  "mathMax callbin tn args t =
     (case args of [] \<Rightarrow> Inl (ArgError 1 ''value expected'') | v # vs \<Rightarrow> max_loop (lessthan callbin tn) v vs t)"

definition mathMin where
  "mathMin callbin tn args t =
     (case args of [] \<Rightarrow> Inl (ArgError 1 ''value expected'') | v # vs \<Rightarrow> min_loop (lessthan callbin tn) v vs t)"

definition mathToInteger :: "(bytes \<Rightarrow> f64 \<times> num_error option) \<Rightarrow> Value list \<Rightarrow> Value" where
  "mathToInteger pf args =
     (let v = arg 1 args;
          v = (case v of VString s \<Rightarrow> (case str2num pf s of Some n \<Rightarrow> n | None \<Rightarrow> v) | _ \<Rightarrow> v) in
      case v of VInt i \<Rightarrow> VInt i
      | VFloat f \<Rightarrow> (case fltToIntEq f of Some i \<Rightarrow> VInt i | None \<Rightarrow> VNil)
      | _ \<Rightarrow> VNil)"

definition mathType :: "Value list \<Rightarrow> Value res" where
  "mathType args =
     (if length args < 1 then Inl (ArgError 1 ''value expected'')
      else Inr (case arg 1 args of VInt i \<Rightarrow> VString (lit ''integer'') | VFloat f \<Rightarrow> VString (lit ''float'') | _ \<Rightarrow> VNil))"

definition mathUlt where
  "mathUlt pf tn args =
     rbind (checkInt pf tn 1 (arg 1 args)) (\<lambda>a. rbind (checkInt pf tn 2 (arg 2 args)) (\<lambda>b. Inr (Bool (a < b))))"

subsection \<open>The generator\<close>

record rngState =
  s0 :: i64
  s1 :: i64
  s2 :: i64
  s3 :: i64

definition rotl :: "i64 \<Rightarrow> nat \<Rightarrow> i64" where
  "rotl x n = (push_bit n x OR drop_bit (64 - n) x)"

definition nextrand :: "rngState \<Rightarrow> i64 \<times> rngState" where
  "nextrand r =
     (let a0 = s0 r; a1 = s1 r; a2 = s2 r XOR a0; a3 = s3 r XOR a1;
          res = rotl (a1 * 5) 7 * 9 in
      (res, \<lparr>s0 = a0 XOR a3, s1 = a1 XOR a2, s2 = a2 XOR push_bit 17 a1, s3 = rotl a3 45\<rparr>))"

definition setseed :: "i64 \<Rightarrow> i64 \<Rightarrow> rngState" where
  "setseed n1 n2 = ((\<lambda>r. snd (nextrand r)) ^^ 16) \<lparr>s0 = n1, s1 = 0xff, s2 = n2, s3 = 0\<rparr>"

definition i2d :: "i64 \<Rightarrow> f64" where
  "i2d x = f64_mul (f64_of_int (uint (drop_bit 11 x))) 0x3CA0000000000000"

text \<open>The smallest $2^b - 1$ that is not below \<open>n\<close>, and the draws until one is in range.\<close>

definition smear :: "nat \<Rightarrow> i64 \<Rightarrow> i64" where "smear k x = x OR drop_bit k x"

definition window :: "i64 \<Rightarrow> i64" where
  "window n = smear 32 (smear 16 (smear 8 (smear 4 (smear 2 (smear 1 n)))))"

partial_function (option) draw_loop :: "i64 \<Rightarrow> i64 \<Rightarrow> i64 \<Rightarrow> rngState \<Rightarrow> (i64 \<times> rngState) option" where
  "draw_loop msk n rv r =
     (if rv > n then (case nextrand r of (x, r') \<Rightarrow> draw_loop msk n (x AND msk) r') else Some (rv, r))"

declare draw_loop.simps [code]

definition project :: "i64 \<Rightarrow> i64 \<Rightarrow> rngState \<Rightarrow> (i64 \<times> rngState) option" where
  "project rv n r =
     (if n AND (n + 1) = 0 then Some (rv AND n, r)
      else let msk = window n in draw_loop msk n (rv AND msk) r)"

text \<open>\<open>None\<close> is a loop that does not end.\<close>

definition random_between :: "i64 \<Rightarrow> i64 \<Rightarrow> i64 \<Rightarrow> rngState \<Rightarrow> (Value \<times> rngState) res option" where
  "random_between rv low up r =
     (if sint low > sint up then Some (Inl (ArgError 1 ''interval is empty''))
      else map_option (\<lambda>(p, r'). Inr (VInt (p + low), r')) (project rv (up - low) r))"

definition mathRandom ::
  "(bytes \<Rightarrow> f64 \<times> num_error option) \<Rightarrow> (Value \<Rightarrow> string) \<Rightarrow> Value list \<Rightarrow> rngState \<Rightarrow> (Value \<times> rngState) res option" where
  "mathRandom pf tn args r =
     (case nextrand r of (rv, r1) \<Rightarrow>
      (if length args = 0 then Some (Inr (VFloat (i2d rv), r1))
       else if length args = 1 then
         (case checkInt pf tn 1 (arg 1 args) of
            Inl e \<Rightarrow> Some (Inl e)
          | Inr up \<Rightarrow> if up = 0 then Some (Inr (VInt rv, r1)) else random_between rv 1 up r1)
       else if length args = 2 then
         (case checkInt pf tn 1 (arg 1 args) of
            Inl e \<Rightarrow> Some (Inl e)
          | Inr low \<Rightarrow> (case checkInt pf tn 2 (arg 2 args) of
              Inl e \<Rightarrow> Some (Inl e) | Inr up \<Rightarrow> random_between rv low up r1))
       else Some (Inl (LuaError ''wrong number of arguments''))))"

text \<open>\<open>now\<close> and \<open>cnt\<close> are the clock and the counter of the automatic seed.\<close>

definition mathRandomseed ::
  "i64 \<Rightarrow> i64 \<Rightarrow> (bytes \<Rightarrow> f64 \<times> num_error option) \<Rightarrow> (Value \<Rightarrow> string) \<Rightarrow> Value list \<Rightarrow> (Value list \<times> rngState) res" where
  "mathRandomseed now cnt pf tn args =
     (if length args \<ge> 1 then
        rbind (checkInt pf tn 1 (arg 1 args)) (\<lambda>n1.
        rbind (if length args \<ge> 2 then checkInt pf tn 2 (arg 2 args) else Inr 0) (\<lambda>n2.
          Inr ([VInt n1, VInt n2], setseed n1 n2)))
      else Inr ([VInt now, VInt cnt], setseed now cnt))"

definition newRNG :: "i64 \<Rightarrow> i64 \<Rightarrow> rngState" where
  "newRNG now cnt = setseed now cnt"

subsection \<open>Numbers drawn from the generator\<close>

lemma rotl_bit_low: "j < 64 \<Longrightarrow> 45 \<le> j \<Longrightarrow> bit (rotl x 45) j \<longleftrightarrow> bit x (j - 45)"
  by (auto simp: rotl_def bit_simps dest: bit_imp_le_length)

lemma rotl_bit_high: "j < 45 \<Longrightarrow> bit (rotl x 45) j \<longleftrightarrow> bit x (j + 19)"
  by (auto simp: rotl_def bit_simps add.commute)

lemma rotl_inj: "rotl x 45 = rotl y 45 \<Longrightarrow> x = y"
proof (rule bit_word_eqI)
  fix i assume eq: "rotl x 45 = rotl y 45" and "i < LENGTH(64)"
  then show "bit x i \<longleftrightarrow> bit y i"
    using rotl_bit_low [of "i + 45" x] rotl_bit_low [of "i + 45" y] rotl_bit_high [of "i - 19" x] rotl_bit_high [of "i - 19" y]
    by (cases "i < 19") simp_all
qed

lemma shift_fixpoint: "x = push_bit 17 x \<Longrightarrow> x = (0 :: i64)"
proof (rule bit_word_eqI)
  fix i assume eq: "x = push_bit 17 x" and "i < LENGTH(64)"
  have "\<not> bit x i" for i
  proof (induction i rule: less_induct)
    case (less i)
    have "bit x i \<longleftrightarrow> bit (push_bit 17 x) i" using eq by simp
    then show ?case using less [of "i - 17"] by (auto simp: bit_simps)
  qed
  then show "bit x i \<longleftrightarrow> bit 0 i" by simp
qed

lemma nextrand_inj: "inj (\<lambda>r. snd (nextrand r))"
proof (rule injI)
  fix r q assume "snd (nextrand r) = snd (nextrand q)"
  then have e: "s0 r XOR s3 r XOR s1 r = s0 q XOR s3 q XOR s1 q" "s1 r XOR s2 r XOR s0 r = s1 q XOR s2 q XOR s0 q"
    "s2 r XOR s0 r XOR push_bit 17 (s1 r) = s2 q XOR s0 q XOR push_bit 17 (s1 q)"
    and "rotl (s3 r XOR s1 r) 45 = rotl (s3 q XOR s1 q) 45"
    by (simp_all add: nextrand_def Let_def xor.assoc)
  from rotl_inj [OF this(4)] have e3: "s3 r XOR s1 r = s3 q XOR s1 q" .
  have x: "(a :: i64) = b \<longleftrightarrow> a XOR b = 0" for a b by (auto simp: bit_eq_iff bit_simps)
  define d where "d = s1 r XOR s1 q"
  have "d = push_bit 17 d"
    using e unfolding d_def bit_eq_iff by (auto simp: bit_simps)
  then have "s1 r = s1 q" using shift_fixpoint x d_def by metis
  with e e3 have "s3 r = s3 q" "s0 r = s0 q" "s2 r = s2 q" unfolding bit_eq_iff by (auto simp: bit_simps)
  with \<open>s1 r = s1 q\<close> show "r = q" by (cases r; cases q) simp
qed

lemma setseed_nonzero: "setseed n1 n2 \<noteq> \<lparr>s0 = 0, s1 = 0, s2 = 0, s3 = 0\<rparr>"
proof
  let ?z = "\<lparr>s0 = 0, s1 = 0, s2 = 0, s3 = 0\<rparr>" and ?f = "\<lambda>r. snd (nextrand r)"
  assume "setseed n1 n2 = ?z"
  moreover have "?f ?z = ?z" by (simp add: nextrand_def rotl_def)
  then have "(?f ^^ k) ?z = ?z" for k by (induction k) auto
  ultimately have "(?f ^^ 16) \<lparr>s0 = n1, s1 = 0xff, s2 = n2, s3 = 0\<rparr> = (?f ^^ 16) ?z" unfolding setseed_def by metis
  moreover have "inj (?f ^^ 16)" using nextrand_inj by (rule inj_fn)
  ultimately have "\<lparr>s0 = n1, s1 = 0xff, s2 = n2, s3 = 0\<rparr> = ?z" by (rule injD [rotated])
  then show False by simp
qed

text \<open>
  The step of the random generator is injective, so the sequence of states never merges with another
  one, and seeding with any two numbers never leads to the state of zeros, which would repeat forever.
\<close>

lemma nextrand_injective:
  "inj (\<lambda>r. snd (nextrand r)) \<and> setseed n1 n2 \<noteq> \<lparr>s0 = 0, s1 = 0, s2 = 0, s3 = 0\<rparr>"
  using nextrand_inj setseed_nonzero by blast

text \<open>The window of the draws.\<close>

lemma bit_smear: "bit (smear k x) i \<longleftrightarrow> bit x i \<or> bit x (i + k)"
  by (auto simp: smear_def bit_simps add.commute)

lemma bit_window: "bit (window n) i \<longleftrightarrow> (\<exists>j < 64. bit n (i + j))"
proof -
  have dbl: "bit (smear k x) i \<longleftrightarrow> (\<exists>j < 2 * k. bit n (i + j))"
    if "\<And>i. bit x i \<longleftrightarrow> (\<exists>j < k. bit n (i + j))" for x k i
  proof -
    have "(\<exists>j < 2 * k. bit n (i + j)) \<longleftrightarrow> (\<exists>j < k. bit n (i + j)) \<or> (\<exists>j < k. bit n (i + k + j))"
    proof
      assume "\<exists>j < 2 * k. bit n (i + j)"
      then obtain j where "j < 2 * k" "bit n (i + j)" by blast
      then show "(\<exists>j < k. bit n (i + j)) \<or> (\<exists>j < k. bit n (i + k + j))"
      proof (cases "j < k")
        case False
        then have "j - k < k" "bit n (i + k + (j - k))" using \<open>j < 2 * k\<close> \<open>bit n (i + j)\<close> by auto
        then show ?thesis by blast
      qed (use \<open>bit n (i + j)\<close> in blast)
    next
      assume "(\<exists>j < k. bit n (i + j)) \<or> (\<exists>j < k. bit n (i + k + j))"
      then show "\<exists>j < 2 * k. bit n (i + j)"
      proof
        assume "\<exists>j < k. bit n (i + k + j)"
        then obtain j where "j < k" "bit n (i + (k + j))" by (auto simp: add.assoc)
        then show ?thesis by (intro exI [of _ "k + j"]) simp
      next
        assume "\<exists>j < k. bit n (i + j)"
        then obtain j where "j < k" "bit n (i + j)" by blast
        then show ?thesis by (intro exI [of _ j]) simp
      qed
    qed
    then show ?thesis by (simp add: bit_smear that)
  qed
  have "bit n i \<longleftrightarrow> (\<exists>j < 1. bit n (i + j))" for i by simp
  from dbl [OF this] have 1: "bit (smear 1 n) i \<longleftrightarrow> (\<exists>j < 2. bit n (i + j))" for i by simp
  from dbl [OF this] have 2: "bit (smear 2 (smear 1 n)) i \<longleftrightarrow> (\<exists>j < 4. bit n (i + j))" for i by simp
  from dbl [OF this] have 3: "bit (smear 4 (smear 2 (smear 1 n))) i \<longleftrightarrow> (\<exists>j < 8. bit n (i + j))" for i by simp
  from dbl [OF this] have 4: "bit (smear 8 (smear 4 (smear 2 (smear 1 n)))) i \<longleftrightarrow> (\<exists>j < 16. bit n (i + j))" for i by simp
  from dbl [OF this] have 5: "bit (smear 16 (smear 8 (smear 4 (smear 2 (smear 1 n))))) i \<longleftrightarrow> (\<exists>j < 32. bit n (i + j))" for i by simp
  from dbl [OF this] show ?thesis by (simp add: window_def)
qed

lemma window_bounds:
  assumes "n \<noteq> 0"
  shows "\<exists>b < 64. uint (window n) = 2 ^ (b + 1) - 1 \<and> 2 ^ b \<le> uint n \<and> uint n < 2 ^ (b + 1)"
proof -
  obtain i where i: "bit n i" using assms by (auto simp: bit_eq_iff)
  define b where "b = Max {i. bit n i}"
  have fin: "finite {i. bit n i}" by (rule finite_subset [of _ "{..<64}"]) (auto dest: bit_imp_le_length)
  have b: "bit n b" using Max_in [OF fin] i unfolding b_def by blast
  have top: "i \<le> b" if "bit n i" for i using Max_ge [OF fin] that unfolding b_def by blast
  have "b < 64" using b by (auto dest: bit_imp_le_length)
  have "bit (window n) i \<longleftrightarrow> i \<le> b" for i
  proof
    assume "i \<le> b"
    then have "b - i < 64 \<and> bit n (i + (b - i))" using b \<open>b < 64\<close> by simp
    then show "bit (window n) i" unfolding bit_window by blast
  next
    assume "bit (window n) i"
    then obtain j where "bit n (i + j)" unfolding bit_window by blast
    with top [OF this] show "i \<le> b" by simp
  qed
  note w = this
  have "uint (window n) = mask (b + 1)"
  proof (rule bit_eqI)
    fix i
    have "bit (uint (window n)) i \<longleftrightarrow> i < 64 \<and> bit (window n) i" by (simp add: bit_uint_iff)
    also have "\<dots> \<longleftrightarrow> bit (mask (b + 1) :: int) i" using w [of i] \<open>b < 64\<close> by (auto simp: bit_mask_iff)
    finally show "bit (uint (window n)) i \<longleftrightarrow> bit (mask (b + 1) :: int) i" .
  qed
  then have "uint (window n) = 2 ^ (b + 1) - 1" by (simp only: mask_eq_exp_minus_1)
  moreover have "uint n = take_bit (b + 1) (uint n)"
  proof (rule bit_eqI)
    fix i show "bit (uint n) i \<longleftrightarrow> bit (take_bit (b + 1) (uint n)) i" by (auto simp: bit_simps less_Suc_eq_le dest: top)
  qed
  then have "uint n < 2 ^ (b + 1)" by (metis take_bit_int_less_exp)
  moreover have "2 ^ b \<le> uint n"
  proof -
    have "bit (uint n) b" using b \<open>b < 64\<close> by (simp add: bit_simps)
    then have "uint n div 2 ^ b \<noteq> 0" by (auto simp: bit_iff_odd)
    then show ?thesis by (metis div_pos_pos_trivial linorder_not_less uint_ge_0)
  qed
  ultimately show ?thesis using \<open>b < 64\<close> by auto
qed

text \<open>The words the generator delivers from a state on, and the state left behind.\<close>

definition rng_after :: "rngState \<Rightarrow> nat \<Rightarrow> rngState" where
  "rng_after r i = ((\<lambda>r. snd (nextrand r)) ^^ i) r"

definition rng_draw :: "rngState \<Rightarrow> nat \<Rightarrow> i64" where
  "rng_draw r i = fst (nextrand (rng_after r i))"

lemma rng_after_0 [simp]: "rng_after r 0 = r"
  by (simp add: rng_after_def)

lemma rng_after_Suc: "rng_after r (Suc i) = rng_after (snd (nextrand r)) i"
  by (simp add: rng_after_def funpow_Suc_right del: funpow.simps)

lemma rng_draw_Suc: "rng_draw r (Suc i) = rng_draw (snd (nextrand r)) i"
  by (simp add: rng_draw_def rng_after_Suc)

lemma draw_loop_step:
  "draw_loop msk n rv r = (if n < rv then draw_loop msk n (rng_draw r 0 AND msk) (snd (nextrand r)) else Some (rv, r))"
  by (subst draw_loop.simps) (simp add: rng_draw_def split: prod.split)

text \<open>The loop stops at the first draw that is in range, and only there.\<close>

lemma draw_loop_first:
  assumes "\<And>j. j < i \<Longrightarrow> n < rng_draw r j AND msk" and "rng_draw r i AND msk \<le> n"
  shows "draw_loop msk n (rng_draw r 0 AND msk) (snd (nextrand r)) = Some (rng_draw r i AND msk, rng_after r (Suc i))"
  using assms
proof (induction i arbitrary: r)
  case 0
  then show ?case by (subst draw_loop_step) (simp add: rng_after_Suc leD)
next
  case (Suc i)
  from Suc.prems(1) [of 0] have "n < rng_draw r 0 AND msk" by simp
  moreover have "n < rng_draw (snd (nextrand r)) j AND msk" if "j < i" for j
    using Suc.prems(1) [of "Suc j"] that by (simp add: rng_draw_Suc)
  ultimately show ?case
    using Suc.IH [of "snd (nextrand r)"] Suc.prems(2)
    by (subst draw_loop_step) (simp add: rng_draw_Suc rng_after_Suc)
qed

lemma draw_loop_accepts:
  assumes "draw_loop msk n rv r = Some y"
  shows "rv \<le> n \<or> (\<exists>i. rng_draw r i AND msk \<le> n)"
proof (rule draw_loop.raw_induct [where P = "\<lambda>msk n rv r y. rv \<le> n \<or> (\<exists>i. rng_draw r i AND msk \<le> n)", OF _ assms])
  fix loop and msk and n :: i64 and rv r y
  assume IH: "\<And>msk n rv r y. loop msk n rv r = Some y \<Longrightarrow> rv \<le> n \<or> (\<exists>i. rng_draw r i AND msk \<le> n)"
    and run: "(if n < rv then case nextrand r of (x, r') \<Rightarrow> loop msk n (x AND msk) r' else Some (rv, r)) = Some y"
  show "rv \<le> n \<or> (\<exists>i. rng_draw r i AND msk \<le> n)"
  proof (cases "n < rv")
    case True
    with run have "loop msk n (rng_draw r 0 AND msk) (snd (nextrand r)) = Some y"
      by (simp add: rng_draw_def split: prod.splits)
    from IH [OF this] show ?thesis using rng_draw_Suc by metis
  qed (simp add: not_less)
qed

lemma sint_plus_offset:
  fixes n :: i64
  assumes "uint p = x" "x \<le> sint n - sint m"
  shows "sint (p + m :: i64) = sint m + x"
proof -
  have "p + m = word_of_int (x + sint m)" using assms(1) by (simp flip: assms(1))
  moreover have "min_int64 \<le> x + sint m" "x + sint m \<le> max_int64"
    using assms uint_ge_0 [of p] sint_i64_range [of m] sint_i64_range [of n] by linarith+
  ultimately have "sint (p + m) = x + sint m" using sint_of_int_id by metis
  then show ?thesis by simp
qed

text \<open>The mask takes the remainder by the least power of two above the length of the interval.\<close>

lemma uint_and_mask:
  assumes "uint msk = 2 ^ b - 1"
  shows "uint (x AND msk) = uint x mod 2 ^ b"
proof -
  have "uint (x AND msk) = uint x AND mask b"
    using assms by (simp only: uint_and mask_eq_exp_minus_1)
  also have "\<dots> = uint x mod 2 ^ b" by (simp add: take_bit_eq_mask [symmetric] take_bit_eq_mod)
  finally show ?thesis .
qed

lemma power_of_two_mask:
  fixes n :: i64
  assumes "n AND (n + 1) = 0"
  shows "window n = n"
proof (cases "n = 0")
  case True
  then show ?thesis by (simp add: window_def smear_def)
next
  case False
  then obtain b where b: "b < 64" "uint (window n) = 2 ^ (b + 1) - 1" "2 ^ b \<le> uint n" "uint n < 2 ^ (b + 1)"
    using window_bounds by blast
  have top: "bit (uint x) b" if "2 ^ b \<le> uint x" "uint x < 2 ^ (b + 1)" for x :: i64
  proof -
    have "uint x div 2 ^ b = 1" by (rule int_div_pos_eq [of _ _ _ "uint x - 2 ^ b"]) (use that in simp_all)
    then show ?thesis by (simp add: bit_iff_odd)
  qed
  have "uint n + 1 = 2 ^ (b + 1)"
  proof (rule ccontr)
    assume "uint n + 1 \<noteq> 2 ^ (b + 1)"
    with b(4) have less: "uint n + 1 < 2 ^ (b + 1)" by simp
    moreover have "(2 :: int) ^ (b + 1) \<le> 2 ^ 64" using b(1) by (intro power_increasing) auto
    ultimately have "uint (n + 1) = uint n + 1" by (simp add: uint_word_ariths)
    with less b(3) have "bit (uint (n + 1)) b" by (intro top) simp_all
    moreover have "bit (uint n) b" using b(3,4) by (rule top)
    ultimately have "bit (n AND (n + 1)) b" using b(1) by (simp add: bit_simps)
    with assms show False by simp
  qed
  with b(2) have "uint (window n) = uint n" by simp
  then show ?thesis by (simp add: word_uint_eq_iff)
qed

lemma project_window: "project rv n r = draw_loop (window n) n (rv AND window n) r"
  by (simp add: project_def Let_def power_of_two_mask word_and_le1 leD draw_loop_step [of n n])

lemma window_mask:
  fixes n :: i64
  obtains b where "b \<le> 64" "b = 0 \<or> 2 ^ (b - 1) \<le> uint n" "uint n < 2 ^ b" "uint (window n) = 2 ^ b - 1"
proof (cases "n = 0")
  case True
  then have "uint (window n) = 2 ^ 0 - 1" by (simp add: window_def smear_def)
  with True show ?thesis by (intro that [of 0]) simp_all
next
  case False
  then obtain b where "b < 64" "uint (window n) = 2 ^ (b + 1) - 1" "2 ^ b \<le> uint n" "uint n < 2 ^ (b + 1)"
    using window_bounds by blast
  then show ?thesis by (intro that [of "b + 1"]) simp_all
qed

lemma project_first:
  assumes "\<And>j. j < i \<Longrightarrow> n < rng_draw r j AND window n" and "rng_draw r i AND window n \<le> n"
  shows "project (rng_draw r 0) n (snd (nextrand r)) = Some (rng_draw r i AND window n, rng_after r (Suc i))"
  unfolding project_window using assms by (rule draw_loop_first)

lemma project_never:
  assumes "\<And>j. n < rng_draw r j AND window n"
  shows "project (rng_draw r 0) n (snd (nextrand r)) = None"
proof (rule ccontr)
  assume "project (rng_draw r 0) n (snd (nextrand r)) \<noteq> None"
  then obtain y where "draw_loop (window n) n (rng_draw r 0 AND window n) (snd (nextrand r)) = Some y"
    unfolding project_window by blast
  from draw_loop_accepts [OF this] obtain j where "rng_draw r j AND window n \<le> n"
    using rng_draw_Suc by metis
  with assms [of j] show False by (simp add: leD)
qed

lemma mathRandom_interval:
  "mathRandom pf tn [VInt m, VInt n] r = random_between (rng_draw r 0) m n (snd (nextrand r))"
  by (simp add: mathRandom_def arg_def rng_draw_def split: prod.split)

text \<open>
  C29: \<open>math.random(m, n)\<close> on every interval that is not empty, the whole range of the integers included:
  the words of the generator are reduced modulo \<open>2 ^ b\<close>, the least power of two above \<open>n - m\<close> (so more
  than half of the \<open>2 ^ b\<close> remainders are accepted), and the first word whose remainder \<open>x\<close> is at most
  \<open>n - m\<close> gives \<open>m + x\<close>, without wrap-around, with the generator left right behind that word; the call
  does not return exactly when no word of the sequence is accepted. So every number of the interval is the
  result for exactly one remainder. On an empty interval the call raises the error of the interval.
\<close>

theorem random_in_interval:
  "if sint n < sint m then mathRandom pf tn [VInt m, VInt n] r = Some (Inl (ArgError 1 ''interval is empty''))
   else \<exists>b \<le> 64. (b = 0 \<or> 2 ^ (b - 1) \<le> sint n - sint m) \<and> sint n - sint m < 2 ^ b \<and>
     (\<forall>i. (\<forall>j < i. sint n - sint m < uint (rng_draw r j) mod 2 ^ b) \<and> uint (rng_draw r i) mod 2 ^ b \<le> sint n - sint m \<longrightarrow>
        (\<exists>k. mathRandom pf tn [VInt m, VInt n] r = Some (Inr (VInt k, rng_after r (i + 1))) \<and>
             sint k = sint m + uint (rng_draw r i) mod 2 ^ b)) \<and>
     ((\<forall>i. sint n - sint m < uint (rng_draw r i) mod 2 ^ b) \<longrightarrow> mathRandom pf tn [VInt m, VInt n] r = None)"
proof (cases "sint n < sint m")
  case True
  then show ?thesis by (simp add: mathRandom_interval random_between_def)
next
  case False
  then have d: "uint (n - m) = sint n - sint m" by (intro uint_diff_sint) simp
  obtain b where b: "b \<le> 64" "b = 0 \<or> 2 ^ (b - 1) \<le> uint (n - m)" "uint (n - m) < 2 ^ b"
    and w: "uint (window (n - m)) = 2 ^ b - 1" by (rule window_mask)
  have rem: "uint (rng_draw r i AND window (n - m)) = uint (rng_draw r i) mod 2 ^ b" for i
    using w by (rule uint_and_mask)
  have acc: "rng_draw r i AND window (n - m) \<le> n - m \<longleftrightarrow> uint (rng_draw r i) mod 2 ^ b \<le> sint n - sint m" for i
    by (simp add: word_le_def rem d)
  have run: "mathRandom pf tn [VInt m, VInt n] r =
      map_option (\<lambda>(p, r'). Inr (VInt (p + m), r')) (project (rng_draw r 0) (n - m) (snd (nextrand r)))"
    using False by (simp add: mathRandom_interval random_between_def)
  have "\<exists>k. mathRandom pf tn [VInt m, VInt n] r = Some (Inr (VInt k, rng_after r (i + 1))) \<and>
      sint k = sint m + uint (rng_draw r i) mod 2 ^ b"
    if "\<forall>j < i. sint n - sint m < uint (rng_draw r j) mod 2 ^ b" "uint (rng_draw r i) mod 2 ^ b \<le> sint n - sint m" for i
  proof -
    have "project (rng_draw r 0) (n - m) (snd (nextrand r)) = Some (rng_draw r i AND window (n - m), rng_after r (Suc i))"
      using that by (intro project_first) (simp_all add: acc not_le [symmetric])
    moreover have "sint ((rng_draw r i AND window (n - m)) + m) = sint m + uint (rng_draw r i) mod 2 ^ b"
      using that(2) by (intro sint_plus_offset) (simp_all add: rem)
    ultimately show ?thesis by (simp add: run)
  qed
  moreover have "mathRandom pf tn [VInt m, VInt n] r = None" if "\<forall>i. sint n - sint m < uint (rng_draw r i) mod 2 ^ b"
  proof -
    have "project (rng_draw r 0) (n - m) (snd (nextrand r)) = None"
      using that by (intro project_never) (simp add: acc not_le [symmetric])
    then show ?thesis by (simp add: run)
  qed
  ultimately show ?thesis using False b by (simp only: d [symmetric]) auto
qed

definition sample_rng :: rngState where
  "sample_rng = \<lparr>s0 = 0xF800000000000000, s1 = 0x3600000000000000, s2 = 0, s3 = 0\<rparr>"

text \<open>
  From 1 to 5 the words are reduced modulo 8: the first one leaves 7 and is rejected, the second leaves 3
  and gives 4.
\<close>

theorem random_in_interval_witness:
  "mathRandom (\<lambda>_. (f64_zero, None)) (\<lambda>_. []) [VInt 1, VInt 5] sample_rng = Some (Inr (VInt 4, rng_after sample_rng 2))"
proof -
  have draws: "rng_draw sample_rng 0 = 63" "rng_draw sample_rng 1 = 27"
    by (simp_all add: rng_draw_def rng_after_def sample_rng_def nextrand_def rotl_def push_bit_eq_mult drop_bit_eq_div)
  obtain b where b: "b = 0 \<or> 2 ^ (b - 1) \<le> (4 :: int)" "(4 :: int) < 2 ^ b" and
    run: "\<forall>i. (\<forall>j < i. 4 < uint (rng_draw sample_rng j) mod 2 ^ b) \<and> uint (rng_draw sample_rng i) mod 2 ^ b \<le> 4 \<longrightarrow>
      (\<exists>k. mathRandom (\<lambda>_. (f64_zero, None)) (\<lambda>_. []) [VInt 1, VInt 5] sample_rng = Some (Inr (VInt k, rng_after sample_rng (i + 1))) \<and>
           sint k = 1 + uint (rng_draw sample_rng i) mod 2 ^ b)"
    using random_in_interval [of 5 1 "\<lambda>_. (f64_zero, None)" "\<lambda>_. []" sample_rng] by auto
  have "b = 3"
  proof -
    have "b \<noteq> 0" using b(2) by (cases b) simp_all
    with b(1) have "(2 :: int) ^ (b - 1) < 2 ^ 3" by simp
    then have "b - 1 < 3" by (rule power_less_imp_less_exp [rotated]) simp
    moreover have "(2 :: int) ^ 2 < 2 ^ b" using b(2) by simp
    then have "2 < b" by (rule power_less_imp_less_exp [rotated]) simp
    ultimately show ?thesis by simp
  qed
  then have "\<exists>k. mathRandom (\<lambda>_. (f64_zero, None)) (\<lambda>_. []) [VInt 1, VInt 5] sample_rng =
      Some (Inr (VInt k, rng_after sample_rng (1 + 1))) \<and> sint k = 1 + uint (rng_draw sample_rng 1) mod 2 ^ b"
    by (intro run [rule_format]) (use draws in simp)
  then obtain k where "sint k = 4" "mathRandom (\<lambda>_. (f64_zero, None)) (\<lambda>_. []) [VInt 1, VInt 5] sample_rng =
      Some (Inr (VInt k, rng_after sample_rng 2))"
    unfolding one_add_one using draws \<open>b = 3\<close> by auto
  moreover from this(1) have "k = 4" by (intro signed_word_eqI) simp
  ultimately show ?thesis by simp
qed

subsection \<open>Numbers in the unit interval\<close>

lemma round_mag_scale: "0 < q \<Longrightarrow> round_mag (c * q) q = round_mag c 1"
  by (simp add: round_mag_def round_div_scale [of q c] mult.commute [of q])

text \<open>
  The float made of a random word is the exact quotient of its upper 53 bits by \<open>2 ^ 53\<close>, at least 0 and
  below 1.
\<close>

lemma i2d_unit:
  "fscaled (i2d x) * 2 ^ 53 = uint (drop_bit 11 x) * int fscale \<and> \<not> is_nan (i2d x) \<and>
   f64_le f64_zero (i2d x) \<and> f64_lt (i2d x) (f64_of_int 1)"
proof -
  define k where "k = uint (drop_bit 11 x)"
  have "uint x < 2 ^ 64" using unsigned_less [of x] by simp
  moreover have "k = uint x div 2 ^ 11" unfolding k_def unsigned_drop_bit_eq drop_bit_eq_div by (simp add: uint_div_distrib)
  ultimately have k: "0 \<le> k" "k < 2 ^ 53" by (simp_all add: pos_imp_zdiv_nonneg_iff)
  let ?a = "f64_of_int k" and ?b = "0x3CA0000000000000 :: f64"
  have b: "f64_mag ?b = 970 * 2 ^ 52" "\<not> f64_neg ?b" by (simp_all add: f64_mag_def f64_neg_def)
  then have mb: "mag_scaled (f64_mag ?b) = 2 ^ 1021" "\<not> is_nan ?b" "\<not> is_inf ?b"
    by (simp_all add: mag_scaled_def is_nan_def is_inf_def inf_mag_def Let_def flip: power_add)
  have a: "fscaled ?a = k * int fscale" using k by (intro fscaled_f64_of_int_small) simp
  have ma: "mag_scaled (f64_mag ?a) = nat k * fscale"
    using nat_abs_mag [of ?a] k(1) unfolding a by (simp add: abs_mult nat_mult_distrib)
  have big: "nat k * 2 ^ 1021 \<le> mag_scaled inf_mag"
  proof -
    have "nat k * 2 ^ 1021 \<le> 2 ^ 53 * 2 ^ 1021" using k by (intro mult_right_mono) auto
    then show ?thesis unfolding mag_scaled_inf by (simp flip: power_add add: order_trans)
  qed
  define m where "m = round_mag (nat k * 2 ^ 1021) 1"
  have m: "mag_scaled m = nat k * 2 ^ 1021" "m \<le> inf_mag"
    using round_mag_exact [of "nat k" 1021] k big by (auto simp: m_def round_mag_le_inf)
  have "\<not> is_inf ?a"
  proof
    assume "is_inf ?a"
    then have "2 ^ 1024 * fscale = nat k * fscale" using ma mag_scaled_inf_fscale by (simp add: is_inf_def)
    then have "2 ^ 1024 = nat k" by simp
    moreover have "nat k < 2 ^ 53" using k by simp
    ultimately show False by simp
  qed
  moreover have "\<not> f64_neg ?a" using k(1) mag_le_inf [OF round_mag_le_inf, of "nat k * fscale" 1] by (simp add: f64_of_int_def)
  moreover have "round_mag (mag_scaled (f64_mag ?a) * mag_scaled (f64_mag ?b)) fscale = m"
  proof -
    have "nat k * fscale * 2 ^ 1021 = nat k * 2 ^ 1021 * fscale" by (simp only: ac_simps)
    then show ?thesis unfolding ma mb(1) m_def by (simp only: round_mag_scale fscale_pos)
  qed
  ultimately have i: "i2d x = mk_f64 False m"
    using b(2) mb(2,3) unfolding i2d_def f64_mul_def k_def [symmetric] by simp
  have f: "fscaled (i2d x) = k * 2 ^ 1021" unfolding i using m k by (simp add: fscaled_mk)
  moreover have "fscaled (f64_of_int 1) = int fscale" using fscaled_f64_of_int_small [of 1] by simp
  moreover have "k * 2 ^ 1021 < int fscale"
  proof -
    have "k * 2 ^ 1021 < 2 ^ 53 * 2 ^ 1021" using k(2) by simp
    then show ?thesis by (simp add: fscale_def flip: power_add)
  qed
  moreover have "\<not> is_nan (i2d x)" unfolding i using m(2) by (rule is_nan_mk)
  moreover have "k * 2 ^ 1021 * 2 ^ 53 = k * int fscale" by (simp add: fscale_def flip: power_add)
  ultimately show ?thesis using k(1) by (simp add: f64_le_def f64_lt_def k_def [symmetric])
qed

subsection \<open>Rounding and remainders\<close>

text \<open>
  \<open>math.floor\<close> and \<open>math.ceil\<close> of a float that is not a NaN return the integer below or above it when
  it fits, and otherwise the float of that value; integers are returned as they are.
\<close>

lemma floor_ceil_exact:
  assumes "\<not> is_nan f"
  shows "(let q = fscaled f div int fscale in
      if min_int64 \<le> q \<and> q \<le> max_int64 then mathFloor pf tn [VFloat f] = Inr (VInt (word_of_int q))
      else \<exists>g. mathFloor pf tn [VFloat f] = Inr (VFloat g) \<and> fscaled g = q * int fscale) \<and>
    (let q = - ((- fscaled f) div int fscale) in
      if min_int64 \<le> q \<and> q \<le> max_int64 then mathCeil pf tn [VFloat f] = Inr (VInt (word_of_int q))
      else \<exists>g. mathCeil pf tn [VFloat f] = Inr (VFloat g) \<and> fscaled g = q * int fscale) \<and>
    mathFloor pf tn [VInt i] = Inr (VInt i) \<and> mathCeil pf tn [VInt i] = Inr (VInt i)"
proof -
  have push: "if min_int64 \<le> q \<and> q \<le> max_int64 then pushnumint g = VInt (word_of_int q)
      else \<exists>h. pushnumint g = VFloat h \<and> fscaled h = q * int fscale"
    if "fscaled g = q * int fscale" "\<not> is_nan g" for g q
  proof -
    have iff: "numberToInteger g = Some i \<longleftrightarrow> sint i = q" for i
      using numberToInteger_exact [of g i] that by auto
    show ?thesis
    proof (cases "numberToInteger g")
      case None
      then have "\<not> (min_int64 \<le> q \<and> q \<le> max_int64)" using iff sint_of_int_id by force
      then show ?thesis using None that by (auto simp: pushnumint_def)
    next
      case (Some i)
      then have "sint i = q" using iff by simp
      then show ?thesis using Some sint_i64_range [of i] by (auto simp: pushnumint_def)
    qed
  qed
  show ?thesis
    using push [OF f64_floor_exact [OF assms]] push [OF f64_ceil_exact [OF assms]]
    by (auto simp: mathFloor_def mathCeil_def checkNumber_def tonumberCvt_def arg_def Let_def split: if_splits)
qed

lemma floor_ceil_exact_witness:
  "mathFloor (\<lambda>_. (f64_zero, None)) (\<lambda>_. []) [VFloat 0xC004000000000000] = Inr (VInt (- 3)) \<and>
   mathCeil (\<lambda>_. (f64_zero, None)) (\<lambda>_. []) [VFloat 0xC004000000000000] = Inr (VInt (- 2))"
proof -
  have n: "\<not> is_nan 0xC004000000000000" by (simp add: is_nan_def f64_mag_def inf_mag_def)
  have q: "fscaled 0xC004000000000000 div int fscale = - 3" "(- fscaled 0xC004000000000000) div int fscale = 2"
    by (simp_all add: fscaled_def f64_mag_def f64_neg_def mag_scaled_def fscale_def Let_def)
  show ?thesis using floor_ceil_exact [OF n, of "\<lambda>_. (f64_zero, None)" "\<lambda>_. []" 0] by (simp add: q Let_def)
qed

end
