(* ===== verification/Zio.thy ===== *)
theory Zio
  imports Values
begin

text \<open>
  The buffered input stream of the compiler (lzio.go). The reader, a Go closure (for \<open>load\<close> with a function,
  one that calls Lua code), is the list of the pieces it will return, in order, before it reports the end; an
  endless reader is outside the model. Characters are the Go ints of the code, -1 at the end of the input.
\<close>

definition eoz :: int where "eoz = -1"

record zio =
  zreader :: "bytes list option"
  zbuf :: bytes
  zpos :: nat

definition newStringZIO :: "bytes \<Rightarrow> zio" where
  "newStringZIO s = \<lparr>zreader = None, zbuf = s, zpos = 0\<rparr>"

definition newReaderZIO :: "bytes \<Rightarrow> bytes list \<Rightarrow> zio" where
  "newReaderZIO initial pieces = \<lparr>zreader = Some pieces, zbuf = initial, zpos = 0\<rparr>"

text \<open>A reader that reports the end and one that returns an empty piece both end the stream for good.\<close>

definition zio_fill :: "zio \<Rightarrow> bool \<times> zio" where
  "zio_fill z =
     (case zreader z of
        None \<Rightarrow> (False, z)
      | Some [] \<Rightarrow> (False, z\<lparr>zreader := None\<rparr>)
      | Some (p # ps) \<Rightarrow>
          if p = [] then (False, z\<lparr>zreader := None\<rparr>)
          else (True, z\<lparr>zbuf := p, zpos := 0, zreader := Some ps\<rparr>))"

definition getc :: "zio \<Rightarrow> int \<times> zio" where
  "getc z =
     (let (more, z) = (if length (zbuf z) \<le> zpos z then zio_fill z else (True, z)) in
      if \<not> more then (eoz, z) else (uint (zbuf z ! zpos z), z\<lparr>zpos := zpos z + 1\<rparr>))"

subsection \<open>The bytes of a stream\<close>

text \<open>What a stream still has to give.\<close>

definition zio_bytes :: "zio \<Rightarrow> bytes" where
  "zio_bytes z = drop (zpos z) (zbuf z) @
     (case zreader z of None \<Rightarrow> [] | Some ps \<Rightarrow> concat (takeWhile (\<lambda>p. p \<noteq> []) ps))"

lemma drop_nth: "k < length xs \<Longrightarrow> drop k xs = xs ! k # drop (Suc k) xs"
  by (simp add: Cons_nth_drop_Suc)

lemma getc_bytes:
  "fst (getc z) = (case zio_bytes z of [] \<Rightarrow> eoz | b # bs \<Rightarrow> uint b)"
  "zio_bytes (snd (getc z)) = tl (zio_bytes z)"
proof -
  have "fst (getc z) = (case zio_bytes z of [] \<Rightarrow> eoz | b # bs \<Rightarrow> uint b) \<and> zio_bytes (snd (getc z)) = tl (zio_bytes z)"
  proof (cases "zpos z < length (zbuf z)")
    case True
    then show ?thesis by (simp add: getc_def zio_bytes_def drop_nth)
  next
    case False
    show ?thesis
    proof (cases "\<exists>p ps. zreader z = Some (p # ps) \<and> p \<noteq> []")
      case True
      then obtain p ps where "zreader z = Some (p # ps)" "p \<noteq> []" by blast
      then show ?thesis using False
        by (cases p) (simp_all add: getc_def zio_fill_def zio_bytes_def drop_nth)
    next
      case none: False
      then have "zio_fill z = (False, z\<lparr>zreader := None\<rparr>)"
        by (cases z) (auto simp: zio_fill_def split: option.splits list.splits)
      moreover have "zio_bytes z = []" "zio_bytes (z\<lparr>zreader := None\<rparr>) = []"
        using False none by (cases "zreader z"; cases "the (zreader z)"; auto simp: zio_bytes_def)+
      ultimately show ?thesis using False by (simp add: getc_def)
    qed
  qed
  then show "fst (getc z) = (case zio_bytes z of [] \<Rightarrow> eoz | b # bs \<Rightarrow> uint b)"
    "zio_bytes (snd (getc z)) = tl (zio_bytes z)" by simp_all
qed

lemma zio_bytes_string [simp]: "zio_bytes (newStringZIO s) = s"
  by (simp add: zio_bytes_def newStringZIO_def)

lemma zio_bytes_reader: "zio_bytes (newReaderZIO s ps) = s @ concat (takeWhile (\<lambda>p. p \<noteq> []) ps)"
  by (simp add: zio_bytes_def newReaderZIO_def)

end
