(* ===== verification/Lexer.thy ===== *)
theory Lexer
  imports Zio Numerals Utf8
begin

text \<open>
  The lexical analyser (llex.go). A token kind is a Go int: the byte of a single-byte token, and a number from
  \<open>firstReserved\<close> on for the others. \<open>mx\<close> is the configuration variable \<open>MaxLexElement\<close> and \<open>pf\<close> is
  \<open>strconv.ParseFloat\<close>; \<open>lexError\<close>'s panic is the error \<open>CompileError\<close> with its message and line.
  The \<open>t *token\<close> that a scanner fills is passed and returned. Each operation is followed by the lemma that
  says how far it advances in the input, which the termination of the loops that call it needs.
\<close>

subsection \<open>Tokens\<close>

definition firstReserved :: int where "firstReserved = 257"

definition tkAnd :: int where "tkAnd = firstReserved + 0"
definition tkBreak :: int where "tkBreak = firstReserved + 1"
definition tkDo :: int where "tkDo = firstReserved + 2"
definition tkElse :: int where "tkElse = firstReserved + 3"
definition tkElseif :: int where "tkElseif = firstReserved + 4"
definition tkEnd :: int where "tkEnd = firstReserved + 5"
definition tkFalse :: int where "tkFalse = firstReserved + 6"
definition tkFor :: int where "tkFor = firstReserved + 7"
definition tkFunction :: int where "tkFunction = firstReserved + 8"
definition tkGoto :: int where "tkGoto = firstReserved + 9"
definition tkIf :: int where "tkIf = firstReserved + 10"
definition tkIn :: int where "tkIn = firstReserved + 11"
definition tkLocal :: int where "tkLocal = firstReserved + 12"
definition tkNil :: int where "tkNil = firstReserved + 13"
definition tkNot :: int where "tkNot = firstReserved + 14"
definition tkOr :: int where "tkOr = firstReserved + 15"
definition tkRepeat :: int where "tkRepeat = firstReserved + 16"
definition tkReturn :: int where "tkReturn = firstReserved + 17"
definition tkThen :: int where "tkThen = firstReserved + 18"
definition tkTrue :: int where "tkTrue = firstReserved + 19"
definition tkUntil :: int where "tkUntil = firstReserved + 20"
definition tkWhile :: int where "tkWhile = firstReserved + 21"
definition tkIDiv :: int where "tkIDiv = firstReserved + 22"
definition tkConcat :: int where "tkConcat = firstReserved + 23"
definition tkDots :: int where "tkDots = firstReserved + 24"
definition tkEq :: int where "tkEq = firstReserved + 25"
definition tkGe :: int where "tkGe = firstReserved + 26"
definition tkLe :: int where "tkLe = firstReserved + 27"
definition tkNe :: int where "tkNe = firstReserved + 28"
definition tkShl :: int where "tkShl = firstReserved + 29"
definition tkShr :: int where "tkShr = firstReserved + 30"
definition tkDbColon :: int where "tkDbColon = firstReserved + 31"
definition tkEOS :: int where "tkEOS = firstReserved + 32"
definition tkFlt :: int where "tkFlt = firstReserved + 33"
definition tkInt :: int where "tkInt = firstReserved + 34"
definition tkName :: int where "tkName = firstReserved + 35"
definition tkString :: int where "tkString = firstReserved + 36"

lemmas tk_defs = tkAnd_def tkBreak_def tkDo_def tkElse_def tkElseif_def tkEnd_def tkFalse_def tkFor_def
  tkFunction_def tkGoto_def tkIf_def tkIn_def tkLocal_def tkNil_def tkNot_def tkOr_def tkRepeat_def
  tkReturn_def tkThen_def tkTrue_def tkUntil_def tkWhile_def tkIDiv_def tkConcat_def tkDots_def tkEq_def
  tkGe_def tkLe_def tkNe_def tkShl_def tkShr_def tkDbColon_def tkEOS_def tkFlt_def tkInt_def tkName_def
  tkString_def firstReserved_def

definition numReserved :: nat where "numReserved = nat (tkWhile - firstReserved + 1)"

definition luaXTokens :: "string list" where
  "luaXTokens =
     [''and'', ''break'', ''do'', ''else'', ''elseif'',
      ''end'', ''false'', ''for'', ''function'', ''goto'', ''if'',
      ''in'', ''local'', ''nil'', ''not'', ''or'', ''repeat'',
      ''return'', ''then'', ''true'', ''until'', ''while'',
      ''//'', ''..'', ''...'', ''=='', ''>='', ''<='', ''~='',
      ''<<'', ''>>'', ''::'', ''<eof>'',
      ''<number>'', ''<integer>'', ''<name>'', ''<string>'']"

definition reservedWords :: "(bytes \<times> int) list" where
  "reservedWords = map (\<lambda>i. (lit (luaXTokens ! i), firstReserved + int i)) [0..<numReserved]"

record token =
  tk_kind :: int
  tk_num :: Value
  tk_str :: bytes

record lexState =
  lz :: zio
  lcurrent :: int
  lline :: nat
  lastline :: nat
  ltok :: token
  llookahead :: token
  lbuff :: bytes
  lsource :: bytes

subsection \<open>Characters\<close>

definition lisdigit :: "int \<Rightarrow> bool" where "lisdigit c = (48 \<le> c \<and> c \<le> 57)"

definition lisxdigit :: "int \<Rightarrow> bool" where
  "lisxdigit c = (lisdigit c \<or> (97 \<le> c \<and> c \<le> 102) \<or> (65 \<le> c \<and> c \<le> 70))"

definition lisalpha :: "int \<Rightarrow> bool" where
  "lisalpha c = (c = 95 \<or> (97 \<le> c \<and> c \<le> 122) \<or> (65 \<le> c \<and> c \<le> 90))"

definition lisalnum :: "int \<Rightarrow> bool" where "lisalnum c = (lisalpha c \<or> lisdigit c)"

definition lisspace :: "int \<Rightarrow> bool" where
  "lisspace c = (c = 32 \<or> c = 9 \<or> c = 10 \<or> c = 11 \<or> c = 12 \<or> c = 13)"

definition lisprint :: "int \<Rightarrow> bool" where "lisprint c = (0x20 \<le> c \<and> c < 0x7f)"

lemmas lis_defs = lisdigit_def lisxdigit_def lisalpha_def lisalnum_def lisspace_def

definition hexavalue :: "int \<Rightarrow> int" where
  "hexavalue c = (if lisdigit c then c - 48 else if 97 \<le> c \<and> c \<le> 102 then c - 97 + 10 else c - 65 + 10)"

subsection \<open>Errors\<close>

definition gostr :: "bytes \<Rightarrow> string" where "gostr s = map (\<lambda>b. char_of (unat b)) s"

definition quoted :: "string \<Rightarrow> string" where "quoted s = [CHR 0x27] @ s @ [CHR 0x27]"

definition IDSize :: nat where "IDSize = 60"

definition shortSrc :: "bytes \<Rightarrow> bytes" where
  "shortSrc source =
     (if source \<noteq> [] \<and> hd source = 61 then
        (if length source \<le> IDSize then tl source else tl (take IDSize source))
      else if source \<noteq> [] \<and> hd source = 64 then
        (if length source \<le> IDSize then tl source
         else lit ''...'' @ drop (length source - (IDSize - 3 - 1)) source)
      else
        let pre = lit ''[string '' @ [34]; rets = lit ''...''; post = [34, 93];
            bufflen = IDSize - (length pre + length rets + length post + 1);
            line1 = takeWhile (\<lambda>c. c \<noteq> 10) source in
        if length source < bufflen \<and> 10 \<notin> set source then pre @ source @ post
        else pre @ take bufflen line1 @ rets @ post)"

text \<open>\<open>luaXTokens[tok-firstReserved]\<close> is a Go panic out of range.\<close>

definition token2str :: "int \<Rightarrow> string res" where
  "token2str k =
     (if k < firstReserved then
        Inr (if lisprint k then quoted [char_of (nat k)]
             else quoted (''<'' @ [CHR 0x5C] @ gostr (FormatInt k) @ ''>''))
      else if k - firstReserved < int (length luaXTokens) then
        (let s = luaXTokens ! nat (k - firstReserved) in
         Inr (if k < tkEOS then quoted s else s))
      else Inl GoPanic)"

definition txtToken :: "int \<Rightarrow> lexState \<Rightarrow> string res" where
  "txtToken k ls =
     (if k \<in> {tkName, tkString, tkFlt, tkInt} then Inr (quoted (gostr (lbuff ls))) else token2str k)"

definition lexError :: "string \<Rightarrow> int \<Rightarrow> lexState \<Rightarrow> 'a res" where
  "lexError msg k ls =
     (let full = gostr (shortSrc (lsource ls)) @ '':'' @ gostr (FormatInt (int (lline ls))) @ '': '' @ msg in
      rbind (if k \<noteq> 0 then rbind (txtToken k ls) (\<lambda>s. Inr (full @ '' near '' @ s)) else Inr full)
        (\<lambda>full. Inl (CompileError full (lline ls))))"

definition syntaxError :: "string \<Rightarrow> lexState \<Rightarrow> 'a res" where
  "syntaxError msg ls = lexError msg (tk_kind (ltok ls)) ls"

lemma lexError_ok [simp]: "k \<in> {0, tkEOS, tkString, tkFlt} \<Longrightarrow> rok Q (lexError msg k ls)"
  by (auto simp: lexError_def txtToken_def token2str_def Let_def luaXTokens_def tk_defs)

lemma lexError_not_Inr [simp]: "lexError msg k ls \<noteq> Inr x"
  by (auto simp: lexError_def Let_def rbind_def split: sum.splits)

subsection \<open>Reading characters\<close>

definition lexNext :: "lexState \<Rightarrow> lexState" where
  "lexNext ls = (case getc (lz ls) of (c, z) \<Rightarrow> ls\<lparr>lcurrent := c, lz := z\<rparr>)"

definition newLexStateZIO :: "zio \<Rightarrow> bytes \<Rightarrow> lexState" where
  "newLexStateZIO z source =
     lexNext \<lparr>lz = z, lcurrent = 0, lline = 1, lastline = 1, ltok = \<lparr>tk_kind = 0, tk_num = VNil, tk_str = []\<rparr>,
       llookahead = \<lparr>tk_kind = tkEOS, tk_num = VNil, tk_str = []\<rparr>, lbuff = [], lsource = source\<rparr>"

definition newLexState :: "bytes \<Rightarrow> bytes \<Rightarrow> lexState" where
  "newLexState src source = newLexStateZIO (newStringZIO src) source"

text \<open>\<open>byte(c)\<close> truncates.\<close>

definition save :: "int \<Rightarrow> int \<Rightarrow> lexState \<Rightarrow> lexState res" where
  "save mx c ls =
     (if mx > 0 \<and> int (length (lbuff ls)) \<ge> mx then lexError ''lexical element too long'' 0 ls
      else Inr (ls\<lparr>lbuff := lbuff ls @ [word_of_int c]\<rparr>))"

definition saveAndNext :: "int \<Rightarrow> lexState \<Rightarrow> lexState res" where
  "saveAndNext mx ls = rbind (save mx (lcurrent ls) ls) (\<lambda>ls. Inr (lexNext ls))"

definition currIsNewline :: "lexState \<Rightarrow> bool" where
  "currIsNewline ls = (lcurrent ls = 10 \<or> lcurrent ls = 13)"

definition resetBuffer :: "lexState \<Rightarrow> lexState" where "resetBuffer ls = ls\<lparr>lbuff := []\<rparr>"

definition buffRemove :: "nat \<Rightarrow> lexState \<Rightarrow> lexState res" where
  "buffRemove n ls =
     (if n \<le> length (lbuff ls) then Inr (ls\<lparr>lbuff := take (length (lbuff ls) - n) (lbuff ls)\<rparr>) else Inl GoPanic)"

definition inclinenumber :: "lexState \<Rightarrow> lexState res" where
  "inclinenumber ls =
     (let old = lcurrent ls;
          ls = lexNext ls;
          ls = (if currIsNewline ls \<and> lcurrent ls \<noteq> old then lexNext ls else ls);
          ls = ls\<lparr>lline := lline ls + 1\<rparr> in
      if lline ls \<ge> 2 ^ 31 - 1 then lexError ''chunk has too many lines'' 0 ls else Inr ls)"

definition checkNext1 :: "int \<Rightarrow> lexState \<Rightarrow> bool \<times> lexState" where
  "checkNext1 c ls = (if lcurrent ls = c then (True, lexNext ls) else (False, ls))"

definition checkNext2 :: "int \<Rightarrow> byte \<times> byte \<Rightarrow> lexState \<Rightarrow> (bool \<times> lexState) res" where
  "checkNext2 mx st ls =
     (if lcurrent ls = uint (fst st) \<or> lcurrent ls = uint (snd st)
      then rbind (saveAndNext mx ls) (\<lambda>ls. Inr (True, ls)) else Inr (False, ls))"

subsection \<open>The characters still to come\<close>

text \<open>\<open>stream ls\<close> is the current character and those behind it; \<open>newlines\<close> counts line ends, a pair of two
  different line-end characters as one.\<close>

definition stream :: "lexState \<Rightarrow> int list" where
  "stream ls = (if lcurrent ls = eoz then [] else lcurrent ls # map uint (zio_bytes (lz ls)))"

fun newlines :: "int list \<Rightarrow> nat" where
  "newlines [] = 0"
| "newlines [c] = (if c = 10 \<or> c = 13 then 1 else 0)"
| "newlines (c # d # cs) =
     (if c = 10 \<or> c = 13 then Suc (if (d = 10 \<or> d = 13) \<and> d \<noteq> c then newlines cs else newlines (d # cs))
      else newlines (d # cs))"

text \<open>\<open>adv\<close>: characters were consumed, and the lines they ended counted; \<open>advs\<close>: at least one was consumed.\<close>

definition adv :: "lexState \<Rightarrow> lexState \<Rightarrow> bool" where
  "adv ls ls' \<longleftrightarrow> length (stream ls') \<le> length (stream ls) \<and> lline ls' + newlines (stream ls') = lline ls + newlines (stream ls) \<and>
     (lcurrent ls < 256 \<longrightarrow> lcurrent ls' < 256) \<and>
     lastline ls' = lastline ls \<and> ltok ls' = ltok ls \<and> llookahead ls' = llookahead ls \<and> lsource ls' = lsource ls"

definition advs :: "lexState \<Rightarrow> lexState \<Rightarrow> bool" where
  "advs ls ls' \<longleftrightarrow> adv ls ls' \<and> length (stream ls') < length (stream ls)"

lemma adv_refl [simp, intro]: "adv ls ls"
  by (simp add: adv_def)

lemma adv_trans: "adv a b \<Longrightarrow> adv b c \<Longrightarrow> adv a c"
  by (simp add: adv_def)

lemma advs_adv: "advs a b \<Longrightarrow> adv a b"
  by (simp add: advs_def)

lemma advs_trans: "advs a b \<Longrightarrow> adv b c \<Longrightarrow> advs a c" "adv a b \<Longrightarrow> advs b c \<Longrightarrow> advs a c"
  by (simp_all add: advs_def adv_def)

lemma newline_buff [simp]: "currIsNewline (ls\<lparr>lbuff := b\<rparr>) = currIsNewline ls"
  by (simp add: currIsNewline_def)

lemma adv_buff [simp]: "adv (ls\<lparr>lbuff := b\<rparr>) ls' = adv ls ls'" "adv ls (ls'\<lparr>lbuff := b\<rparr>) = adv ls ls'"
  "advs (ls\<lparr>lbuff := b\<rparr>) ls' = advs ls ls'" "advs ls (ls'\<lparr>lbuff := b\<rparr>) = advs ls ls'"
  by (simp_all add: adv_def advs_def stream_def)

lemma lexNext_frame [simp]:
  "lline (lexNext ls) = lline ls" "lastline (lexNext ls) = lastline ls" "ltok (lexNext ls) = ltok ls"
  "llookahead (lexNext ls) = llookahead ls" "lbuff (lexNext ls) = lbuff ls" "lsource (lexNext ls) = lsource ls"
  by (simp_all add: lexNext_def split: prod.splits)

lemma stream_buff [simp]: "stream (ls\<lparr>lbuff := b\<rparr>) = stream ls"
  "stream (ls\<lparr>lline := n\<rparr>) = stream ls"
  by (simp_all add: stream_def)

lemma lexNext_buff [simp]: "lexNext (ls\<lparr>lbuff := b\<rparr>) = (lexNext ls)\<lparr>lbuff := b\<rparr>"
  by (simp add: lexNext_def split: prod.splits)

lemma lexNext_stream: "stream (lexNext ls) = map uint (zio_bytes (lz ls))"
proof (cases "zio_bytes (lz ls)")
  case Nil
  then show ?thesis using getc_bytes [of "lz ls"] by (simp add: lexNext_def stream_def case_prod_unfold)
next
  case (Cons b bs)
  moreover have "uint b \<noteq> eoz" unfolding eoz_def using uint_ge_0 [of b] by linarith
  ultimately show ?thesis using getc_bytes [of "lz ls"] by (simp add: lexNext_def stream_def case_prod_unfold)
qed

lemma stream_next: "lcurrent ls \<noteq> eoz \<Longrightarrow> stream (lexNext ls) = tl (stream ls)"
  unfolding lexNext_stream by (simp add: stream_def)

lemma current_stream: "lcurrent ls = (case stream ls of [] \<Rightarrow> eoz | c # _ \<Rightarrow> c)"
  by (simp add: stream_def)

lemma newlines_tl: "cs \<noteq> [] \<Longrightarrow> hd cs \<noteq> 10 \<Longrightarrow> hd cs \<noteq> 13 \<Longrightarrow> newlines (tl cs) = newlines cs"
  by (cases cs rule: newlines.cases) auto

text \<open>Consuming a character that does not end a line.\<close>

definition visible :: "int \<Rightarrow> bool" where "visible c \<longleftrightarrow> c \<noteq> eoz \<and> c \<noteq> 10 \<and> c \<noteq> 13"

lemma visible_lis: "lisdigit c \<Longrightarrow> visible c" "lisxdigit c \<Longrightarrow> visible c" "lisalpha c \<Longrightarrow> visible c" "lisalnum c \<Longrightarrow> visible c"
  by (auto simp: lis_defs visible_def eoz_def)

lemma visible_ge: "14 \<le> c \<Longrightarrow> visible c"
  by (auto simp: visible_def eoz_def)

lemma current_next: "lcurrent (lexNext ls) < 256"
proof -
  have "uint b < 256" for b :: byte using unsigned_less [of b, where 'a = int] by simp
  then show ?thesis
    using getc_bytes [of "lz ls"] by (auto simp: lexNext_def case_prod_unfold eoz_def split: list.splits)
qed

lemma lexNext_advs: "visible (lcurrent ls) \<Longrightarrow> advs ls (lexNext ls)"
proof -
  assume v: "visible (lcurrent ls)"
  then have "stream ls \<noteq> []" "hd (stream ls) \<noteq> 10" "hd (stream ls) \<noteq> 13" "stream (lexNext ls) = tl (stream ls)"
    by (simp_all add: visible_def lexNext_stream) (simp_all add: stream_def)
  then show ?thesis using newlines_tl [of "stream ls"]
    by (simp add: advs_def adv_def current_next)
qed

lemma save_ok [simp]: "rok (\<lambda>ls'. ls' = ls\<lparr>lbuff := lbuff ls @ [word_of_int c]\<rparr>) (save mx c ls)"
  by (simp add: save_def)

lemma saveAndNext_ok: "rok (\<lambda>ls'. ls' = (lexNext ls)\<lparr>lbuff := lbuff ls @ [word_of_int (lcurrent ls)]\<rparr>) (saveAndNext mx ls)"
  by (simp add: saveAndNext_def save_def)

lemma saveAndNext_advs:
  "visible (lcurrent ls) \<Longrightarrow> rok (\<lambda>ls'. advs ls ls' \<and> lbuff ls' = lbuff ls @ [word_of_int (lcurrent ls)]) (saveAndNext mx ls)"
  by (rule rok_mono [OF saveAndNext_ok]) (auto simp: lexNext_advs)

lemma inclinenumber_advs:
  assumes "currIsNewline ls"
  shows "rok (\<lambda>ls'. advs ls ls' \<and> lbuff ls' = lbuff ls) (inclinenumber ls)"
proof -
  let ?ls1 = "lexNext ls"
  have c: "lcurrent ls = 10 \<or> lcurrent ls = 13" using assms by (simp add: currIsNewline_def)
  then have s: "stream ls = lcurrent ls # stream ?ls1" unfolding lexNext_stream by (auto simp: stream_def eoz_def)
  show ?thesis
  proof (cases "currIsNewline ?ls1 \<and> lcurrent ?ls1 \<noteq> lcurrent ls")
    case True
    then have "stream ?ls1 = lcurrent ?ls1 # stream (lexNext ?ls1)"
      unfolding lexNext_stream [of ?ls1] by (auto simp: stream_def eoz_def currIsNewline_def)
    then have "newlines (stream ls) = Suc (newlines (stream (lexNext ?ls1)))"
      "length (stream (lexNext ?ls1)) < length (stream ls)"
      using s True c by (auto simp: currIsNewline_def)
    then show ?thesis using True
      by (simp add: inclinenumber_def Let_def advs_def adv_def current_next)
  next
    case False
    then have "newlines (stream ls) = Suc (newlines (stream ?ls1))"
      using s c by (cases "stream ?ls1") (auto simp: currIsNewline_def current_stream [of ?ls1] eoz_def)
    moreover have "length (stream ?ls1) < length (stream ls)"
      using s by simp
    ultimately show ?thesis using False
      by (auto simp: inclinenumber_def Let_def advs_def adv_def current_next)
  qed
qed

lemma checkNext1_adv: "visible c \<Longrightarrow> adv ls (snd (checkNext1 c ls))"
  by (auto simp: checkNext1_def intro: advs_adv lexNext_advs)

definition visibles :: "byte \<times> byte \<Rightarrow> bool" where "visibles st \<longleftrightarrow> visible (uint (fst st)) \<and> visible (uint (snd st))"

lemma checkNext2_adv: "visibles st \<Longrightarrow> rok (\<lambda>(b, ls'). adv ls ls') (checkNext2 mx st ls)"
  by (auto simp: checkNext2_def visibles_def intro!: rok_mono [OF saveAndNext_advs] advs_adv)

text \<open>Lengths alone, for the termination of loops that may pass a line end.\<close>

lemma lexNext_len: "lcurrent ls \<noteq> eoz \<Longrightarrow> length (stream (lexNext ls)) < length (stream ls)"
  unfolding lexNext_stream by (simp add: stream_def)

lemma saveAndNext_len:
  "saveAndNext mx ls = Inr ls' \<Longrightarrow> lcurrent ls \<noteq> eoz \<Longrightarrow> length (stream ls') < length (stream ls)"
  using saveAndNext_ok [of ls mx] lexNext_len by auto

lemma checkNext2_len:
  "checkNext2 mx st ls = Inr (b, ls') \<Longrightarrow> (if b then length (stream ls') < length (stream ls) else ls' = ls)"
proof -
  have "uint b \<noteq> eoz" for b :: byte unfolding eoz_def using uint_ge_0 [of b] by linarith
  then show "checkNext2 mx st ls = Inr (b, ls') \<Longrightarrow> ?thesis"
    by (auto simp: checkNext2_def rbind_Inr_conv split: if_splits dest!: saveAndNext_len)
qed

text \<open>Chaining of steps that advance.\<close>

lemma rok_bind_eq: "rok P r \<Longrightarrow> (\<And>x. r = Inr x \<Longrightarrow> P x \<Longrightarrow> rok Q (f x)) \<Longrightarrow> rok Q (rbind r f)"
  by (cases r) auto

lemma rok_if: "(b \<Longrightarrow> rok Q x) \<Longrightarrow> (\<not> b \<Longrightarrow> rok Q y) \<Longrightarrow> rok Q (if b then x else y)"
  by simp

lemma rok_adv: "rok (adv b) r \<Longrightarrow> adv a b \<Longrightarrow> rok (adv a) r"
  by (erule rok_mono) (blast intro: adv_trans)

subsection \<open>Numerals\<close>

function numeral_loop :: "int \<Rightarrow> byte \<times> byte \<Rightarrow> lexState \<Rightarrow> lexState res" where
  "numeral_loop mx expo ls =
     rbind (checkNext2 mx expo ls) (\<lambda>(b, ls1).
       if b then rbind (checkNext2 mx (45, 43) ls1) (\<lambda>(_, ls2). numeral_loop mx expo ls2)
       else if lisxdigit (lcurrent ls1) \<or> lcurrent ls1 = 46 then rbind (saveAndNext mx ls1) (numeral_loop mx expo)
       else Inr ls1)"
  by pat_completeness auto
termination
proof (relation "measure (\<lambda>(mx, expo, ls). length (stream ls))", goal_cases)
  case (2 mx expo ls x b ls1 x' u ls2)
  then show ?case
    using checkNext2_len [of mx expo ls b ls1] checkNext2_len [of mx "(45, 43)" ls1 u ls2] by (auto split: if_splits)
next
  case (3 mx expo ls x b ls1 ls2)
  then have "lcurrent ls1 \<noteq> eoz" by (auto simp: lis_defs eoz_def)
  with 3 show ?case
    using checkNext2_len [of mx expo ls b ls1] saveAndNext_len [of mx ls1 ls2] by simp
qed simp

declare numeral_loop.simps [simp del]

definition readNumeral ::
  "int \<Rightarrow> (bytes \<Rightarrow> f64 \<times> num_error option) \<Rightarrow> token \<Rightarrow> lexState \<Rightarrow> (int \<times> token \<times> lexState) res" where
  "readNumeral mx pf t ls =
     (let first = lcurrent ls in
      rbind (saveAndNext mx ls) (\<lambda>ls.
      rbind (if first = 48 then checkNext2 mx (120, 88) ls else Inr (False, ls)) (\<lambda>(hex, ls).
      rbind (numeral_loop mx (if hex then (80, 112) else (69, 101)) ls) (\<lambda>ls.
      rbind (if lisalpha (lcurrent ls) then saveAndNext mx ls else Inr ls) (\<lambda>ls.
        case parseNumeral pf (lbuff ls) of
          None \<Rightarrow> lexError ''malformed number'' tkFlt ls
        | Some v \<Rightarrow> Inr (if IsInt v then tkInt else tkFlt, t\<lparr>tk_num := v\<rparr>, ls))))))"

lemma numeral_loop_adv: "visibles expo \<Longrightarrow> rok (adv ls) (numeral_loop mx expo ls)"
proof (induction mx expo ls rule: numeral_loop.induct)
  case (1 mx expo ls)
  have m: "visibles (45, 43)" by (simp add: visibles_def visible_ge)
  show ?case
    apply (subst numeral_loop.simps)
    apply (auto intro!: rok_mono [OF checkNext2_adv [OF 1(3)]] rok_mono [OF checkNext2_adv [OF m]]
        rok_mono [OF saveAndNext_advs] simp: visible_lis visible_ge)
    by ((rule rok_adv [OF 1(1)] rok_adv [OF 1(2)], (assumption | rule refl 1(3) | simp add: adv_def advs_def)+)[1])+
qed

lemma readNumeral_adv:
  "visible (lcurrent ls) \<Longrightarrow> rok (\<lambda>(k, t', ls'). advs ls ls') (readNumeral mx pf t ls)"
  unfolding readNumeral_def Let_def
  by (auto intro!: rok_mono [OF checkNext2_adv] rok_mono [OF numeral_loop_adv] rok_mono [OF saveAndNext_advs]
      simp: visible_lis visible_ge visibles_def adv_def advs_def split: option.splits)

subsection \<open>Long strings and comments\<close>

function count_eq :: "int \<Rightarrow> nat \<Rightarrow> lexState \<Rightarrow> (nat \<times> lexState) res" where
  "count_eq mx n ls =
     (if lcurrent ls = 61 then rbind (saveAndNext mx ls) (count_eq mx (n + 1)) else Inr (n, ls))"
  by pat_completeness auto
termination
  by (relation "measure (\<lambda>(mx, n, ls). length (stream ls))") (auto simp: eoz_def dest!: saveAndNext_len)

declare count_eq.simps [simp del]

definition skipSep :: "int \<Rightarrow> lexState \<Rightarrow> (nat \<times> lexState) res" where
  "skipSep mx ls =
     (let s = lcurrent ls in
      rbind (saveAndNext mx ls) (\<lambda>ls.
      rbind (count_eq mx 0 ls) (\<lambda>(count, ls).
        Inr (if lcurrent ls = s then count + 2 else if count = 0 then 1 else 0, ls))))"

lemma count_eq_adv:
  "rok (\<lambda>(m, ls'). adv ls ls' \<and> n \<le> m \<and> lbuff ls' = lbuff ls @ replicate (m - n) 61) (count_eq mx n ls)"
proof (induction mx n ls rule: count_eq.induct)
  case (1 mx n ls)
  show ?case
  proof (cases "lcurrent ls = 61")
    case True
    show ?thesis
      apply (subst count_eq.simps)
      apply (auto simp: True visible_ge intro!: rok_mono [OF saveAndNext_advs])
      apply (rule rok_mono [OF 1 [OF True, simplified]], assumption)
      apply (auto simp: adv_def advs_def)
      apply (metis Suc_diff_le diff_Suc_Suc replicate_Suc)+
      done
  qed (simp add: count_eq.simps)
qed

lemma skipSep_adv:
  "visible (lcurrent ls) \<Longrightarrow>
   rok (\<lambda>(m, ls'). advs ls ls' \<and> (\<exists>x. lbuff ls' = lbuff ls @ x \<and> (m \<ge> 2 \<longrightarrow> length x = m - 1 \<and> lcurrent ls' = lcurrent ls))) (skipSep mx ls)"
  unfolding skipSep_def Let_def
  by (auto intro!: rok_mono [OF saveAndNext_advs] rok_mono [OF count_eq_adv] simp: adv_def advs_def)

lemma skipSep_len: "skipSep mx ls = Inr (n, ls') \<Longrightarrow> visible (lcurrent ls) \<Longrightarrow> length (stream ls') < length (stream ls)"
  using skipSep_adv [of ls mx] by (auto simp: advs_def)

function long_loop :: "int \<Rightarrow> nat \<Rightarrow> bool \<Rightarrow> nat \<Rightarrow> lexState \<Rightarrow> lexState res" where
  "long_loop mx sep keep start ls =
     (if lcurrent ls = eoz then
        lexError (''unfinished long '' @ (if keep then ''string'' else ''comment'') @
          '' (starting at line '' @ gostr (FormatInt (int start)) @ '')'') tkEOS ls
      else if lcurrent ls = 93 then
        rbind (skipSep mx ls) (\<lambda>(n, ls). if n = sep then saveAndNext mx ls else long_loop mx sep keep start ls)
      else if currIsNewline ls then
        rbind (save mx 10 ls) (\<lambda>ls. rbind (inclinenumber ls) (\<lambda>ls.
          long_loop mx sep keep start (if keep then ls else resetBuffer ls)))
      else if keep then rbind (saveAndNext mx ls) (long_loop mx sep keep start)
      else long_loop mx sep keep start (lexNext ls))"
  by pat_completeness auto
termination
proof (relation "measure (\<lambda>(mx, sep, keep, start, ls). length (stream ls))", goal_cases)
  case (2 mx sep keep start ls x n ls1)
  then show ?case using skipSep_len [of mx ls n ls1] by (simp add: visible_ge)
next
  case (3 mx sep keep start ls ls1 ls2)
  then show ?case using save_ok [of ls 10 mx] inclinenumber_advs [of ls1]
    by (auto simp: advs_def resetBuffer_def currIsNewline_def)
qed (auto dest: saveAndNext_len lexNext_len)

declare long_loop.simps [simp del]

definition readLongString ::
  "int \<Rightarrow> token \<Rightarrow> nat \<Rightarrow> bool \<Rightarrow> lexState \<Rightarrow> (token \<times> lexState) res" where
  "readLongString mx t sep keep ls =
     (let start = lline ls in
      rbind (saveAndNext mx ls) (\<lambda>ls.
      rbind (if currIsNewline ls then inclinenumber ls else Inr ls) (\<lambda>ls.
      rbind (long_loop mx sep keep start ls) (\<lambda>ls.
        if keep then rbind (slice (lbuff ls) (int sep) (int (length (lbuff ls)) - int sep))
          (\<lambda>s. Inr (t\<lparr>tk_str := s\<rparr>, ls))
        else Inr (t, ls)))))"

definition long_post :: "nat \<Rightarrow> bool \<Rightarrow> lexState \<Rightarrow> lexState \<Rightarrow> bool" where
  "long_post sep keep ls ls' \<longleftrightarrow> adv ls ls' \<and> (keep \<longrightarrow> (\<exists>x. lbuff ls' = lbuff ls @ x \<and> sep \<le> length x))"

lemma long_post_step:
  "rok (long_post sep keep ls1) r \<Longrightarrow> adv ls ls1 \<Longrightarrow> (keep \<longrightarrow> (\<exists>x. lbuff ls1 = lbuff ls @ x)) \<Longrightarrow>
   rok (long_post sep keep ls) r"
  by (erule rok_mono) (fastforce simp: long_post_def adv_def)

lemma long_loop_adv: "2 \<le> sep \<Longrightarrow> rok (long_post sep keep ls) (long_loop mx sep keep start ls)"
proof (induction mx sep keep start ls rule: long_loop.induct)
  case (1 mx sep keep start ls)
  note IH = 1(1-4) and sep = 1(5)
  consider "lcurrent ls = eoz" | "lcurrent ls = 93" | "currIsNewline ls" "lcurrent ls \<noteq> eoz" "lcurrent ls \<noteq> 93"
    | "visible (lcurrent ls)" "\<not> currIsNewline ls" "lcurrent ls \<noteq> eoz" "lcurrent ls \<noteq> 93"
    by (auto simp: visible_def currIsNewline_def)
  then show ?case
  proof cases
    case 1 then show ?thesis by (simp add: long_loop.simps)
  next
    case 2
    have ne: "lcurrent ls \<noteq> eoz" using 2 by (simp add: eoz_def)
    have fin: "rok (long_post sep keep ls) (saveAndNext mx ls1)"
      if "advs ls ls1" "lcurrent ls1 = 93" "lbuff ls1 = lbuff ls @ x" "length x = sep - 1" for ls1 x
      using that sep by (auto intro!: rok_mono [OF saveAndNext_advs] simp: visible_ge long_post_def adv_def advs_def)
    show ?thesis
      using 2 ne sep apply (subst long_loop.simps)
      apply (auto intro!: rok_mono [OF skipSep_adv] fin simp: visible_ge)
      apply (rule long_post_step [OF IH(1)], auto simp: 2 ne advs_adv)+
      done
  next
    case 3
    have step: "rok (long_post sep keep ls) (long_loop mx sep keep start (if keep then b else resetBuffer b))"
      if "save mx 10 ls = Inr a" "inclinenumber a = Inr b" "advs ls b" "lbuff b = lbuff ls @ [10]" for a b
      using long_post_step [OF IH(2) [OF 3(2,3,1) that(1,2) sep]] that(3,4)
      by (cases keep) (simp_all add: advs_adv resetBuffer_def)
    from 3 show ?thesis
      by (subst long_loop.simps) (auto intro!: rok_mono [OF save_ok] rok_mono [OF inclinenumber_advs] step split del: if_split)
  next
    case 4
    have "rok (long_post sep keep ls) (long_loop mx sep keep start ls1)"
      if "saveAndNext mx ls = Inr ls1" "keep" "advs ls ls1" "lbuff ls1 = lbuff ls @ y" for ls1 y
      by (rule long_post_step [OF IH(3) [OF 4(3,4,2) that(2,1) sep]]) (use that in \<open>auto simp: advs_adv\<close>)
    moreover have "rok (long_post sep keep ls) (long_loop mx sep keep start (lexNext ls))" if "\<not> keep"
      by (rule long_post_step [OF IH(4) [OF 4(3,4,2) that sep]]) (use that 4 in \<open>auto simp: lexNext_advs advs_adv\<close>)
    ultimately show ?thesis
      using 4 by (subst long_loop.simps) (auto intro!: rok_mono [OF saveAndNext_advs])
  qed
qed

lemma readLongString_adv:
  assumes "2 \<le> sep" "keep \<longrightarrow> sep - 1 \<le> length (lbuff ls)" "lcurrent ls = 91"
  shows "rok (\<lambda>(t', ls'). advs ls ls') (readLongString mx t sep keep ls)"
  unfolding readLongString_def Let_def using assms
  apply (auto intro!: rok_mono [OF saveAndNext_advs] rok_mono [OF inclinenumber_advs] rok_mono [OF long_loop_adv] simp: visible_ge long_post_def slice_def)
  apply (auto simp: adv_def advs_def)
  done

subsection \<open>Escape sequences\<close>

definition esccheck :: "int \<Rightarrow> bool \<Rightarrow> string \<Rightarrow> lexState \<Rightarrow> unit res" where
  "esccheck mx ok msg ls =
     (if \<not> ok then rbind (if lcurrent ls \<noteq> eoz then saveAndNext mx ls else Inr ls) (lexError msg tkString) else Inr ())"

definition gethexa :: "int \<Rightarrow> lexState \<Rightarrow> (int \<times> lexState) res" where
  "gethexa mx ls =
     rbind (saveAndNext mx ls) (\<lambda>ls.
     rbind (esccheck mx (lisxdigit (lcurrent ls)) ''hexadecimal digit expected'' ls) (\<lambda>_.
       Inr (hexavalue (lcurrent ls), ls)))"

definition readhexaesc :: "int \<Rightarrow> lexState \<Rightarrow> (int \<times> lexState) res" where
  "readhexaesc mx ls =
     rbind (gethexa mx ls) (\<lambda>(r, ls).
     rbind (gethexa mx ls) (\<lambda>(h, ls).
     rbind (buffRemove 2 ls) (\<lambda>ls. Inr (push_bit 4 r + h, ls))))"

definition utf8_limit :: u32 where "utf8_limit = drop_bit 4 0x7FFFFFFF"

function utf8_digits :: "int \<Rightarrow> nat \<Rightarrow> u32 \<Rightarrow> lexState \<Rightarrow> (nat \<times> u32 \<times> lexState) res" where
  "utf8_digits mx i r ls =
     rbind (saveAndNext mx ls) (\<lambda>ls.
       if \<not> lisxdigit (lcurrent ls) then Inr (i, r, ls)
       else rbind (esccheck mx (r \<le> utf8_limit) ''UTF-8 value too large'' ls) (\<lambda>_.
         utf8_digits mx (i + 1) (push_bit 4 r + word_of_int (hexavalue (lcurrent ls))) ls))"
  by pat_completeness auto
termination
proof (relation "measure (\<lambda>(mx, i, r, ls). length (zio_bytes (lz ls)))", goal_cases)
  case (2 mx i r ls ls1 u)
  then have "ls1 = (lexNext ls)\<lparr>lbuff := lbuff ls @ [word_of_int (lcurrent ls)]\<rparr>"
    using saveAndNext_ok [of ls mx] by simp
  then have "lz ls1 = snd (getc (lz ls))" "lcurrent ls1 = fst (getc (lz ls))"
    by (simp_all add: lexNext_def case_prod_unfold)
  moreover have "lcurrent ls1 \<noteq> eoz" using 2 by (auto simp: lis_defs eoz_def)
  ultimately show ?case using getc_bytes [of "lz ls"] by (cases "zio_bytes (lz ls)") simp_all
qed simp

declare utf8_digits.simps [simp del]

definition readutf8esc :: "int \<Rightarrow> lexState \<Rightarrow> (u32 \<times> lexState) res" where
  "readutf8esc mx ls =
     rbind (saveAndNext mx ls) (\<lambda>ls.
     rbind (esccheck mx (lcurrent ls = 123) (''missing '' @ quoted ''{'') ls) (\<lambda>_.
     rbind (gethexa mx ls) (\<lambda>(h, ls).
     rbind (utf8_digits mx 4 (word_of_int h) ls) (\<lambda>(i, r, ls).
     rbind (esccheck mx (lcurrent ls = 125) (''missing '' @ quoted ''}'') ls) (\<lambda>_.
     rbind (buffRemove i (lexNext ls)) (\<lambda>ls. Inr (r, ls)))))))"

fun save_all :: "int \<Rightarrow> bytes \<Rightarrow> lexState \<Rightarrow> lexState res" where
  "save_all mx [] ls = Inr ls"
| "save_all mx (b # bs) ls = rbind (save mx (uint b) ls) (save_all mx bs)"

definition lexUtf8esc :: "int \<Rightarrow> lexState \<Rightarrow> lexState res" where
  "lexUtf8esc mx ls = rbind (readutf8esc mx ls) (\<lambda>(r, ls). save_all mx (utf8esc r) ls)"

function decesc_loop :: "int \<Rightarrow> nat \<Rightarrow> int \<Rightarrow> lexState \<Rightarrow> (nat \<times> int \<times> lexState) res" where
  "decesc_loop mx i r ls =
     (if i < 3 \<and> lisdigit (lcurrent ls)
      then rbind (saveAndNext mx ls) (decesc_loop mx (i + 1) (10 * r + (lcurrent ls - 48)))
      else Inr (i, r, ls))"
  by pat_completeness auto
termination by (relation "measure (\<lambda>(mx, i, r, ls). 3 - i)") auto

declare decesc_loop.simps [simp del]

definition readdecesc :: "int \<Rightarrow> lexState \<Rightarrow> (int \<times> lexState) res" where
  "readdecesc mx ls =
     rbind (decesc_loop mx 0 0 ls) (\<lambda>(i, r, ls).
     rbind (esccheck mx (r \<le> 255) ''decimal escape too large'' ls) (\<lambda>_.
     rbind (buffRemove i ls) (\<lambda>ls. Inr (r, ls))))"

definition escOnlySave :: "int \<Rightarrow> int \<Rightarrow> lexState \<Rightarrow> lexState res" where
  "escOnlySave mx c ls = rbind (buffRemove 1 ls) (save mx c)"

definition escReadSave :: "int \<Rightarrow> int \<Rightarrow> lexState \<Rightarrow> lexState res" where
  "escReadSave mx c ls = escOnlySave mx c (lexNext ls)"

function zap_loop :: "lexState \<Rightarrow> lexState res" where
  "zap_loop ls =
     (if lisspace (lcurrent ls) then
        (if currIsNewline ls then rbind (inclinenumber ls) zap_loop else zap_loop (lexNext ls))
      else Inr ls)"
  by pat_completeness auto
termination
proof (relation "measure (\<lambda>ls. length (stream ls))", goal_cases)
  case (2 ls ls1)
  then show ?case using inclinenumber_advs [of ls] by (simp add: advs_def)
next
  case (3 ls)
  then show ?case by (auto simp: lisspace_def eoz_def intro!: lexNext_len)
qed simp

declare zap_loop.simps [simp del]

text \<open>The escape after a backslash, which is already in the buffer: the inner switch of \<open>readString\<close>.\<close>

definition readEscape :: "int \<Rightarrow> lexState \<Rightarrow> lexState res" where
  "readEscape mx ls =
     (let c = lcurrent ls in
      if c = 97 then escReadSave mx 7 ls
      else if c = 98 then escReadSave mx 8 ls
      else if c = 102 then escReadSave mx 12 ls
      else if c = 110 then escReadSave mx 10 ls
      else if c = 114 then escReadSave mx 13 ls
      else if c = 116 then escReadSave mx 9 ls
      else if c = 118 then escReadSave mx 11 ls
      else if c = 120 then rbind (readhexaesc mx ls) (\<lambda>(r, ls). escReadSave mx r ls)
      else if c = 117 then lexUtf8esc mx ls
      else if c = 10 \<or> c = 13 then rbind (inclinenumber ls) (escOnlySave mx 10)
      else if c = 92 \<or> c = 34 \<or> c = 39 then escReadSave mx c ls
      else if c = eoz then Inr ls
      else if c = 122 then rbind (buffRemove 1 ls) (\<lambda>ls. zap_loop (lexNext ls))
      else rbind (esccheck mx (lisdigit c) ''invalid escape sequence'' ls) (\<lambda>_.
        rbind (readdecesc mx ls) (\<lambda>(r, ls). escOnlySave mx r ls)))"

subsubsection \<open>What the scanners of escapes consume and save\<close>

lemma esccheck_ok [simp]: "rok (\<lambda>_. ok) (esccheck mx ok msg ls)"
  by (auto simp: esccheck_def intro: rok_mono [OF saveAndNext_ok])

lemma buffRemove_ok: "n \<le> length (lbuff ls) \<Longrightarrow> buffRemove n ls = Inr (ls\<lparr>lbuff := take (length (lbuff ls) - n) (lbuff ls)\<rparr>)"
  by (simp add: buffRemove_def)

lemma gethexa_ok:
  "visible (lcurrent ls) \<Longrightarrow>
   rok (\<lambda>(h, ls'). advs ls ls' \<and> lbuff ls' = lbuff ls @ [word_of_int (lcurrent ls)] \<and> visible (lcurrent ls')) (gethexa mx ls)"
  by (auto simp: gethexa_def visible_lis intro!: rok_mono [OF saveAndNext_advs] rok_mono [OF esccheck_ok])

lemma readhexaesc_ok:
  "visible (lcurrent ls) \<Longrightarrow>
   rok (\<lambda>(r, ls'). advs ls ls' \<and> lbuff ls' = lbuff ls \<and> visible (lcurrent ls')) (readhexaesc mx ls)"
  by (auto simp: readhexaesc_def buffRemove_ok advs_def adv_def intro!: rok_mono [OF gethexa_ok])

lemma utf8_digits_ok:
  "visible (lcurrent ls) \<Longrightarrow>
   rok (\<lambda>(j, r', ls'). advs ls ls' \<and> i \<le> j \<and> (\<exists>x. lbuff ls' = lbuff ls @ x \<and> length x = Suc (j - i))) (utf8_digits mx i r ls)"
proof (induction mx i r ls rule: utf8_digits.induct)
  case (1 mx i r ls)
  have step: "rok (\<lambda>(j, r', ls'). advs ls ls' \<and> i \<le> j \<and> (\<exists>x. lbuff ls' = lbuff ls @ x \<and> length x = Suc (j - i)))
      (utf8_digits mx (Suc i) (push_bit 4 r + word_of_int (hexavalue (lcurrent ls1))) ls1)"
    if "saveAndNext mx ls = Inr ls1" "lisxdigit (lcurrent ls1)" "advs ls ls1" "lbuff ls1 = lbuff ls @ [c]"
      "r \<le> utf8_limit" for ls1 c
    by (rule rok_mono [OF 1(1) [OF that(1), of "()", simplified]]) (use that in \<open>auto simp: visible_lis advs_def adv_def esccheck_def\<close>)
  show ?case
    using 1(2) by (subst utf8_digits.simps)
      (auto intro!: rok_mono [OF saveAndNext_advs] rok_mono [OF esccheck_ok] step)
qed

lemma buffRemove_back:
  "lbuff ls' = b @ y \<Longrightarrow> n = Suc (length y) \<Longrightarrow> 1 \<le> length b \<Longrightarrow> buffRemove n ls' = Inr (ls'\<lparr>lbuff := butlast b\<rparr>)"
  by (auto simp: buffRemove_def butlast_conv_take Suc_diff_le)

lemma readutf8esc_ok:
  assumes "visible (lcurrent ls)" and "1 \<le> length (lbuff ls)"
  shows "rok (\<lambda>(r, ls'). advs ls ls' \<and> lbuff ls' = butlast (lbuff ls)) (readutf8esc mx ls)"
proof -
  have fin: "rok (\<lambda>(r, ls'). advs ls ls' \<and> lbuff ls' = butlast (lbuff ls))
      (rbind (buffRemove i (lexNext ls3)) (\<lambda>ls. Inr (r :: u32, ls)))"
    if "advs ls ls1" "advs ls1 ls2" "advs ls2 ls3" "lcurrent ls3 = 125" "lbuff ls3 = lbuff ls @ [c, d] @ x"
      "4 \<le> i" "length x = Suc (i - 4)" for ls1 ls2 ls3 c d x i r
  proof -
    have "buffRemove i (lexNext ls3) = Inr ((lexNext ls3)\<lparr>lbuff := butlast (lbuff ls)\<rparr>)"
      by (rule buffRemove_back [where y = "[c, d] @ x"]) (use that assms in auto)
    moreover have "advs ls (lexNext ls3)"
      using that lexNext_advs [of ls3] by (auto simp: advs_def adv_def visible_ge)
    ultimately show ?thesis by simp
  qed
  show ?thesis
    unfolding readutf8esc_def
    by (rule rok_bind_eq [OF saveAndNext_advs [OF assms(1)]], rule rok_bind_eq [OF esccheck_ok], rule rok_bind_eq [OF gethexa_ok],
        simp add: visible_ge, clarify, rule rok_bind_eq [OF utf8_digits_ok], assumption, clarify, rule rok_bind_eq [OF esccheck_ok])
      (rule fin, auto)
qed

lemma save_all_ok: "rok (\<lambda>ls'. ls' = ls\<lparr>lbuff := lbuff ls @ bs\<rparr>) (save_all mx bs ls)"
proof (induction bs arbitrary: ls)
  case (Cons b bs)
  show ?case by (auto intro!: rok_mono [OF save_ok] rok_mono [OF Cons])
qed simp

lemma decesc_loop_ok:
  "rok (\<lambda>(j, r', ls'). adv ls ls' \<and> i \<le> j \<and> (\<exists>x. lbuff ls' = lbuff ls @ x \<and> length x = j - i)) (decesc_loop mx i r ls)"
proof (induction mx i r ls rule: decesc_loop.induct)
  case (1 mx i r ls)
  show ?case
  proof (cases "i < 3 \<and> lisdigit (lcurrent ls)")
    case True
    have "rok (\<lambda>(j, r', ls'). adv ls ls' \<and> i \<le> j \<and> (\<exists>x. lbuff ls' = lbuff ls @ x \<and> length x = j - i))
        (decesc_loop mx (i + 1) (10 * r + (lcurrent ls - 48)) ls1)"
      if "saveAndNext mx ls = Inr ls1" "advs ls ls1" "lbuff ls1 = lbuff ls @ [c]" for ls1 c
      by (rule rok_mono [OF 1 [OF True that(1)]]) (use that in \<open>auto simp: advs_def adv_def\<close>)
    then show ?thesis using True
      by (subst decesc_loop.simps) (auto intro!: rok_mono [OF saveAndNext_advs] simp: visible_lis)
  qed (subst decesc_loop.simps, auto)
qed

lemma readdecesc_ok: "rok (\<lambda>(r, ls'). adv ls ls' \<and> lbuff ls' = lbuff ls) (readdecesc mx ls)"
  by (auto simp: readdecesc_def buffRemove_ok intro!: rok_mono [OF decesc_loop_ok] rok_mono [OF esccheck_ok])

lemma escOnlySave_ok:
  "lbuff ls \<noteq> [] \<Longrightarrow> rok (\<lambda>ls'. ls' = ls\<lparr>lbuff := butlast (lbuff ls) @ [word_of_int c]\<rparr>) (escOnlySave mx c ls)"
  by (auto simp: escOnlySave_def buffRemove_def butlast_conv_take Suc_le_eq intro!: rok_mono [OF save_ok])

lemma escReadSave_ok:
  "lbuff ls \<noteq> [] \<Longrightarrow> rok (\<lambda>ls'. ls' = (lexNext ls)\<lparr>lbuff := butlast (lbuff ls) @ [word_of_int c]\<rparr>) (escReadSave mx c ls)"
  using escOnlySave_ok [of "lexNext ls"] by (simp add: escReadSave_def)

lemma zap_loop_ok: "rok (\<lambda>ls'. adv ls ls' \<and> lbuff ls' = lbuff ls) (zap_loop ls)"
proof (induction ls rule: zap_loop.induct)
  case (1 ls)
  have nl: "rok (\<lambda>ls'. adv ls ls' \<and> lbuff ls' = lbuff ls) (zap_loop ls1)"
    if "inclinenumber ls = Inr ls1" "advs ls ls1" "lbuff ls1 = lbuff ls" "currIsNewline ls" for ls1
    by (rule rok_mono [OF 1(1) [OF _ that(4,1)]]) (use that in \<open>auto simp: advs_def adv_def currIsNewline_def lisspace_def\<close>)
  have sp: "rok (\<lambda>ls'. adv ls ls' \<and> lbuff ls' = lbuff ls) (zap_loop (lexNext ls))"
    if "lisspace (lcurrent ls)" "\<not> currIsNewline ls"
  proof (rule rok_mono [OF 1(2) [OF that]])
    have "visible (lcurrent ls)" using that by (auto simp: lisspace_def currIsNewline_def visible_def eoz_def)
    then show "adv (lexNext ls) x \<and> lbuff x = lbuff (lexNext ls) \<Longrightarrow> adv ls x \<and> lbuff x = lbuff ls" for x
      using lexNext_advs [of ls] by (auto simp: advs_def intro: adv_trans)
  qed
  show ?case
    by (subst zap_loop.simps) (auto intro!: rok_mono [OF inclinenumber_advs] nl sp)
qed

lemma readEscape_ok:
  assumes "lbuff ls \<noteq> []"
  shows "rok (\<lambda>ls'. adv ls ls' \<and> (\<exists>x. lbuff ls' = butlast (lbuff ls) @ x)) (readEscape mx ls)"
proof -
  have rs: "rok (\<lambda>ls'. adv ls ls' \<and> (\<exists>x. lbuff ls' = butlast (lbuff ls) @ x)) (escReadSave mx c ls1)"
    if "visible (lcurrent ls1)" "adv ls ls1" "lbuff ls1 = lbuff ls" for c ls1
    using that assms lexNext_advs [of ls1]
    by (auto intro!: rok_mono [OF escReadSave_ok] simp: advs_def intro: adv_trans)
  have os: "rok (\<lambda>ls'. adv ls ls' \<and> (\<exists>x. lbuff ls' = butlast (lbuff ls) @ x)) (escOnlySave mx c ls1)"
    if "adv ls ls1" "lbuff ls1 = lbuff ls" for c ls1
    using that assms by (auto intro!: rok_mono [OF escOnlySave_ok])
  have uesc: "rok (\<lambda>ls'. adv ls ls' \<and> (\<exists>x. lbuff ls' = butlast (lbuff ls) @ x)) (lexUtf8esc mx ls)" if "visible (lcurrent ls)"
    using that assms by (auto simp: lexUtf8esc_def advs_def Suc_le_eq intro!: rok_mono [OF readutf8esc_ok] rok_mono [OF save_all_ok])
  have zap: "rok (\<lambda>ls'. adv ls ls' \<and> (\<exists>x. lbuff ls' = butlast (lbuff ls) @ x)) (rbind (buffRemove 1 ls) (\<lambda>ls. zap_loop (lexNext ls)))"
    if "visible (lcurrent ls)"
    using assms lexNext_advs [OF that]
    by (auto simp: buffRemove_def butlast_conv_take Suc_le_eq advs_def intro!: rok_mono [OF zap_loop_ok] intro: adv_trans)
  have last: "\<exists>x. lbuff ls = butlast (lbuff ls) @ x" using assms by (metis append_butlast_last_id)
  show ?thesis
    unfolding readEscape_def Let_def
    by (intro rok_if rs os uesc zap; (rule rok_bind_eq [OF readhexaesc_ok] rok_bind_eq [OF inclinenumber_advs] rok_bind_eq [OF esccheck_ok])?)
      (auto simp: visible_ge currIsNewline_def advs_def intro!: last rs os rok_mono [OF readdecesc_ok] intro: adv_trans)
qed

subsection \<open>Quoted strings\<close>

lemma saveAndNext_Inr:
  "saveAndNext mx ls = Inr ls' \<Longrightarrow> ls' = (lexNext ls)\<lparr>lbuff := lbuff ls @ [word_of_int (lcurrent ls)]\<rparr>"
  using saveAndNext_ok [of ls mx] by simp

function string_loop :: "int \<Rightarrow> int \<Rightarrow> lexState \<Rightarrow> lexState res" where
  "string_loop mx del ls =
     (if lcurrent ls = del then Inr ls
      else if lcurrent ls = eoz then lexError ''unfinished string'' tkEOS ls
      else if lcurrent ls = 10 \<or> lcurrent ls = 13 then lexError ''unfinished string'' tkString ls
      else if lcurrent ls = 92 then
        rbind (saveAndNext mx ls) (\<lambda>ls. rbind (readEscape mx ls) (string_loop mx del))
      else rbind (saveAndNext mx ls) (string_loop mx del))"
  by pat_completeness auto
termination
proof (relation "measure (\<lambda>(mx, del, ls). length (stream ls))", goal_cases)
  case (2 mx del ls ls1 ls2)
  then have "lbuff ls1 \<noteq> []" using saveAndNext_Inr [of mx ls ls1] by auto
  then have "adv ls1 ls2" using readEscape_ok [of ls1 mx] 2 by simp
  then show ?case using saveAndNext_len [of mx ls ls1] 2 by (simp add: adv_def)
qed (auto dest: saveAndNext_len)

declare string_loop.simps [simp del]

definition readString :: "int \<Rightarrow> int \<Rightarrow> token \<Rightarrow> lexState \<Rightarrow> (token \<times> lexState) res" where
  "readString mx del t ls =
     rbind (saveAndNext mx ls) (\<lambda>ls.
     rbind (string_loop mx del ls) (\<lambda>ls.
     rbind (saveAndNext mx ls) (\<lambda>ls.
     rbind (slice (lbuff ls) 1 (int (length (lbuff ls)) - 1)) (\<lambda>s. Inr (t\<lparr>tk_str := s\<rparr>, ls)))))"

lemma string_loop_ok:
  "rok (\<lambda>ls'. adv ls ls' \<and> lcurrent ls' = del \<and> (\<exists>x. lbuff ls' = lbuff ls @ x)) (string_loop mx del ls)"
proof (induction mx del ls rule: string_loop.induct)
  case (1 mx del ls)
  note IH = 1
  let ?post = "\<lambda>ls ls'. adv ls ls' \<and> lcurrent ls' = del \<and> (\<exists>x. lbuff ls' = lbuff ls @ x)"
  consider "lcurrent ls = del \<or> lcurrent ls = eoz \<or> lcurrent ls = 10 \<or> lcurrent ls = 13"
    | "lcurrent ls \<noteq> del" "lcurrent ls \<noteq> eoz" "\<not> (lcurrent ls = 10 \<or> lcurrent ls = 13)" by blast
  then show ?case
  proof cases
    case 1 then show ?thesis by (subst string_loop.simps) auto
  next
    case 2
    have esc: "rok (?post ls) (string_loop mx del ls2)"
      if "lcurrent ls = 92" "saveAndNext mx ls = Inr ls1" "readEscape mx ls1 = Inr ls2" "advs ls ls1" "adv ls1 ls2"
        "lbuff ls2 = lbuff ls @ x" for ls1 ls2 x
      by (rule rok_mono [OF IH(1) [OF 2 that(1-3)]]) (use that in \<open>auto simp: advs_def adv_def\<close>)
    have plainchar: "rok (?post ls) (string_loop mx del ls1)"
      if "lcurrent ls \<noteq> 92" "saveAndNext mx ls = Inr ls1" "advs ls ls1" "lbuff ls1 = lbuff ls @ [c]" for ls1 c
      by (rule rok_mono [OF IH(2) [OF 2 that(1,2)]]) (use that in \<open>auto simp: advs_def adv_def\<close>)
    show ?thesis
    proof (cases "lcurrent ls = 92")
      case True
      with 2 show ?thesis
        by (subst string_loop.simps)
          (auto simp: visible_def intro!: rok_mono [OF saveAndNext_advs] rok_mono [OF readEscape_ok] intro: esc)
    next
      case False
      with 2 show ?thesis
        by (subst string_loop.simps) (auto simp: visible_def intro!: rok_mono [OF saveAndNext_advs] plainchar)
    qed
  qed
qed

lemma readString_ok: "visible del \<Longrightarrow> lcurrent ls = del \<Longrightarrow> rok (\<lambda>(t', ls'). advs ls ls') (readString mx del t ls)"
  by (auto simp: readString_def slice_def advs_def adv_def intro!: rok_mono [OF saveAndNext_advs] rok_mono [OF string_loop_ok])

subsection \<open>The scanner\<close>

text \<open>The rest of a short comment, and of an identifier.\<close>

function comment_loop :: "lexState \<Rightarrow> lexState" where
  "comment_loop ls = (if \<not> currIsNewline ls \<and> lcurrent ls \<noteq> eoz then comment_loop (lexNext ls) else ls)"
  by pat_completeness auto
termination by (relation "measure (\<lambda>ls. length (stream ls))") (auto intro: lexNext_len)

declare comment_loop.simps [simp del]

function word_loop :: "int \<Rightarrow> lexState \<Rightarrow> lexState res" where
  "word_loop mx ls = rbind (saveAndNext mx ls) (\<lambda>ls. if \<not> lisalnum (lcurrent ls) then Inr ls else word_loop mx ls)"
  by pat_completeness auto
termination
proof (relation "measure (\<lambda>(mx, ls). length (zio_bytes (lz ls)))", goal_cases)
  case (2 mx ls ls1)
  then have "lz ls1 = snd (getc (lz ls))" "lcurrent ls1 = fst (getc (lz ls))"
    using saveAndNext_Inr [of mx ls ls1] by (simp_all add: lexNext_def case_prod_unfold)
  moreover have "lcurrent ls1 \<noteq> eoz" using 2 by (auto simp: lis_defs eoz_def)
  ultimately show ?case using getc_bytes [of "lz ls"] by (cases "zio_bytes (lz ls)") simp_all
qed simp

declare word_loop.simps [simp del]

lemma comment_loop_adv: "adv ls (comment_loop ls)"
proof (induction ls rule: comment_loop.induct)
  case (1 ls)
  show ?case
  proof (cases "\<not> currIsNewline ls \<and> lcurrent ls \<noteq> eoz")
    case True
    then have "advs ls (lexNext ls)" by (intro lexNext_advs) (auto simp: visible_def currIsNewline_def)
    then show ?thesis using 1 [OF True] True by (subst comment_loop.simps) (auto simp: advs_def intro: adv_trans)
  qed (subst comment_loop.simps, auto)
qed

lemma word_loop_ok: "visible (lcurrent ls) \<Longrightarrow> rok (advs ls) (word_loop mx ls)"
proof (induction mx ls rule: word_loop.induct)
  case (1 mx ls)
  have "rok (advs ls) (word_loop mx ls1)" if "saveAndNext mx ls = Inr ls1" "lisalnum (lcurrent ls1)" "advs ls ls1" for ls1
    by (rule rok_mono [OF 1(1) [OF that(1)]]) (use that in \<open>auto simp: visible_lis advs_def adv_def\<close>)
  then show ?case using 1(2) by (subst word_loop.simps) (auto intro!: rok_mono [OF saveAndNext_advs])
qed

text \<open>A long comment, a short one, and what the two dashes and the brackets before them consume.\<close>

lemma dashes_advs: "lcurrent ls = 45 \<Longrightarrow> lcurrent (lexNext ls) = 45 \<Longrightarrow> advs ls (lexNext (lexNext ls))"
  using lexNext_advs [of ls] lexNext_advs [of "lexNext ls"] by (auto simp: visible_ge advs_def intro: adv_trans)

lemma skipSep_bracket:
  assumes "skipSep mx ls = Inr (n, ls1)" "lcurrent ls = 91"
  shows "advs ls ls1" "\<exists>x. lbuff ls1 = lbuff ls @ x \<and> (2 \<le> n \<longrightarrow> length x = n - 1 \<and> lcurrent ls1 = 91)"
  using skipSep_adv [of ls mx] assms by (auto simp: visible_ge)

lemma long_comment_advs:
  assumes "skipSep mx ls = Inr (n, ls1)" "lcurrent ls = 91" "2 \<le> n" "readLongString mx t n False (resetBuffer ls1) = Inr (t', ls2)"
  shows "advs ls ls2"
proof -
  have "advs ls ls1" "lcurrent ls1 = 91" using skipSep_bracket [OF assms(1,2)] assms(3) by auto
  moreover from this have "advs (resetBuffer ls1) ls2"
    using readLongString_adv [of n False "resetBuffer ls1" mx t] assms by (simp add: resetBuffer_def)
  ultimately show ?thesis by (auto simp: resetBuffer_def advs_def intro: adv_trans)
qed

function llex_loop ::
  "int \<Rightarrow> (bytes \<Rightarrow> f64 \<times> num_error option) \<Rightarrow> token \<Rightarrow> lexState \<Rightarrow> (int \<times> token \<times> lexState) res" where
  "llex_loop mx pf t ls =
     (let c = lcurrent ls in
      if c = 10 \<or> c = 13 then rbind (inclinenumber ls) (llex_loop mx pf t)
      else if c = 32 \<or> c = 12 \<or> c = 9 \<or> c = 11 then llex_loop mx pf t (lexNext ls)
      else if c = 45 then
        (let ls = lexNext ls in
         if lcurrent ls \<noteq> 45 then Inr (45, t, ls)
         else
           let ls = lexNext ls in
           if lcurrent ls = 91 then
             rbind (skipSep mx ls) (\<lambda>(sep, ls). let ls = resetBuffer ls in
               if sep \<ge> 2 then
                 rbind (readLongString mx t sep False ls) (\<lambda>(t, ls). llex_loop mx pf t (resetBuffer ls))
               else llex_loop mx pf t (comment_loop ls))
           else llex_loop mx pf t (comment_loop ls))
      else if c = 91 then
        rbind (skipSep mx ls) (\<lambda>(sep, ls).
          if sep \<ge> 2 then rbind (readLongString mx t sep True ls) (\<lambda>(t, ls). Inr (tkString, t, ls))
          else if sep = 0 then lexError ''invalid long string delimiter'' tkString ls
          else Inr (91, t, ls))
      else if c = 61 then
        (let (b, ls) = checkNext1 61 (lexNext ls) in Inr (if b then tkEq else 61, t, ls))
      else if c = 60 then
        (let (b, ls) = checkNext1 61 (lexNext ls) in
         if b then Inr (tkLe, t, ls)
         else let (b, ls) = checkNext1 60 ls in Inr (if b then tkShl else 60, t, ls))
      else if c = 62 then
        (let (b, ls) = checkNext1 61 (lexNext ls) in
         if b then Inr (tkGe, t, ls)
         else let (b, ls) = checkNext1 62 ls in Inr (if b then tkShr else 62, t, ls))
      else if c = 47 then
        (let (b, ls) = checkNext1 47 (lexNext ls) in Inr (if b then tkIDiv else 47, t, ls))
      else if c = 126 then
        (let (b, ls) = checkNext1 61 (lexNext ls) in Inr (if b then tkNe else 126, t, ls))
      else if c = 58 then
        (let (b, ls) = checkNext1 58 (lexNext ls) in Inr (if b then tkDbColon else 58, t, ls))
      else if c = 34 \<or> c = 39 then
        rbind (readString mx c t ls) (\<lambda>(t, ls). Inr (tkString, t, ls))
      else if c = 46 then
        rbind (saveAndNext mx ls) (\<lambda>ls.
          let (b, ls) = checkNext1 46 ls in
          if b then (let (b, ls) = checkNext1 46 ls in Inr (if b then tkDots else tkConcat, t, ls))
          else if \<not> lisdigit (lcurrent ls) then Inr (46, t, ls)
          else readNumeral mx pf t ls)
      else if lisdigit c then readNumeral mx pf t ls
      else if c = eoz then Inr (tkEOS, t, ls)
      else if lisalpha c then
        rbind (word_loop mx ls) (\<lambda>ls.
          let word = lbuff ls; t = t\<lparr>tk_str := word\<rparr> in
          Inr (case map_of reservedWords word of Some kind \<Rightarrow> kind | None \<Rightarrow> tkName, t, ls))
      else Inr (c, t, lexNext ls))"
  by pat_completeness auto
termination
proof (relation "measure (\<lambda>(mx, pf, t, ls). length (stream ls))", goal_cases)
  case (2 mx pf t ls c ls1)
  then show ?case using inclinenumber_advs [of ls] by (auto simp: advs_def currIsNewline_def)
next
  case (3 mx pf t ls c)
  then show ?case using lexNext_advs [of ls] by (auto simp: advs_def visible_def eoz_def)
next
  case (4 mx pf t ls c l1 l2 p n l3 l4 q t2 l5)
  then show ?case
    using dashes_advs [of ls] long_comment_advs [of mx l2 n l3 t t2 l5] by (simp add: advs_def resetBuffer_def)
next
  case (5 mx pf t ls c l1 l2 p n l3 l4)
  then show ?case
    using dashes_advs [of ls] skipSep_bracket(1) [of mx l2 n l3] comment_loop_adv [of l4]
    by (simp add: advs_def adv_def resetBuffer_def)
next
  case (6 mx pf t ls c l1 l2)
  then show ?case
    using dashes_advs [of ls] comment_loop_adv [of l2] by (simp add: advs_def adv_def)
qed simp

declare llex_loop.simps [simp del]

definition llex ::
  "int \<Rightarrow> (bytes \<Rightarrow> f64 \<times> num_error option) \<Rightarrow> token \<Rightarrow> lexState \<Rightarrow> (int \<times> token \<times> lexState) res" where
  "llex mx pf t ls = llex_loop mx pf t (resetBuffer ls)"

definition luaXNext :: "int \<Rightarrow> (bytes \<Rightarrow> f64 \<times> num_error option) \<Rightarrow> lexState \<Rightarrow> lexState res" where
  "luaXNext mx pf ls =
     (let ls = ls\<lparr>lastline := lline ls\<rparr> in
      if tk_kind (llookahead ls) \<noteq> tkEOS then
        Inr (ls\<lparr>ltok := llookahead ls, llookahead := (llookahead ls)\<lparr>tk_kind := tkEOS\<rparr>\<rparr>)
      else rbind (llex mx pf (ltok ls) ls) (\<lambda>(k, t, ls). Inr (ls\<lparr>ltok := t\<lparr>tk_kind := k\<rparr>\<rparr>)))"

definition luaXLookahead :: "int \<Rightarrow> (bytes \<Rightarrow> f64 \<times> num_error option) \<Rightarrow> lexState \<Rightarrow> (int \<times> lexState) res" where
  "luaXLookahead mx pf ls =
     rbind (llex mx pf (llookahead ls) ls) (\<lambda>(k, t, ls). Inr (k, ls\<lparr>llookahead := t\<lparr>tk_kind := k\<rparr>\<rparr>))"

end
