(* ===== verification/LexProps.thy ===== *)
theory LexProps
  imports Lexer
begin

text \<open>
  Properties of the lexical analyser (llex.go).
\<close>

subsection \<open>Progress, line numbers, no Go panic\<close>

definition tok_post :: "lexState \<Rightarrow> int \<times> token \<times> lexState \<Rightarrow> bool" where
  "tok_post ls r \<longleftrightarrow> (case r of (k, t', ls') \<Rightarrow> adv ls ls' \<and>
     (lcurrent ls < 256 \<longrightarrow> (if k = tkEOS then stream ls' = [] else advs ls ls')))"

lemma tok_post_step: "rok (tok_post ls1) r \<Longrightarrow> advs ls ls1 \<Longrightarrow> rok (tok_post ls) r"
  by (erule rok_mono) (auto simp: tok_post_def advs_def adv_def split: if_splits)

lemma tok_postI [intro]: "advs ls ls' \<Longrightarrow> k \<noteq> tkEOS \<Longrightarrow> tok_post ls (k, t', ls')"
  by (simp add: tok_post_def advs_adv)

lemma reserved_kind: "map_of reservedWords w = Some k \<Longrightarrow> k \<in> {firstReserved..tkWhile}"
  by (drule map_of_SomeD) (auto simp: reservedWords_def numReserved_def tk_defs)

lemma next2_advs: "visible (lcurrent ls) \<Longrightarrow> visible (lcurrent (lexNext ls)) \<Longrightarrow> advs ls (lexNext (lexNext ls))"
  using lexNext_advs [of ls] lexNext_advs [of "lexNext ls"] by (auto simp: advs_def intro: adv_trans)

lemma advs_next: "advs ls x \<Longrightarrow> visible (lcurrent x) \<Longrightarrow> advs ls (lexNext x)"
  using lexNext_advs [of x] by (auto simp: advs_def intro: adv_trans)

lemmas sym_intros = tok_postI lexNext_advs next2_advs

lemma readNumeral_kind: "readNumeral mx pf t ls = Inr (k, t', ls') \<Longrightarrow> k = tkInt \<or> k = tkFlt"
  by (auto simp: readNumeral_def Let_def rbind_Inr_conv split: option.splits if_splits)

lemma readNumeral_post: "advs ls ls1 \<or> ls1 = ls \<Longrightarrow> visible (lcurrent ls1) \<Longrightarrow> rok (tok_post ls) (readNumeral mx pf t ls1)"
  by (rule rok_mono [OF readNumeral_adv])
    (auto dest!: readNumeral_kind intro!: tok_postI simp: tk_defs advs_def intro: adv_trans)

lemma long_comment_post:
  assumes "lcurrent ls1 = 91" "advs ls ls1"
    and "\<And>n ls2 t' ls3. skipSep mx ls1 = Inr (n, ls2) \<Longrightarrow> 2 \<le> n \<Longrightarrow>
      readLongString mx t n False (resetBuffer ls2) = Inr (t', ls3) \<Longrightarrow> rok (tok_post (resetBuffer ls3)) (llex_loop mx pf t' (resetBuffer ls3))"
    and "\<And>n ls2. skipSep mx ls1 = Inr (n, ls2) \<Longrightarrow> \<not> 2 \<le> n \<Longrightarrow>
      rok (tok_post (comment_loop (resetBuffer ls2))) (llex_loop mx pf t (comment_loop (resetBuffer ls2)))"
  shows "rok (tok_post ls) (rbind (skipSep mx ls1) (\<lambda>(n, ls2).
    if 2 \<le> n then rbind (readLongString mx t n False (resetBuffer ls2)) (\<lambda>(t', ls3). llex_loop mx pf t' (resetBuffer ls3))
    else llex_loop mx pf t (comment_loop (resetBuffer ls2))))"
proof (rule rok_bind_eq [OF skipSep_adv], goal_cases)
  case (2 p)
  obtain n ls2 where p: "p = (n, ls2)" by (cases p)
  have adv2: "advs ls ls2" using skipSep_bracket(1) [of mx ls1 n ls2] 2(1) p assms(1,2) by (auto simp: advs_def intro: adv_trans)
  show ?case
  proof (cases "2 \<le> n")
    case True
    have "rok (tok_post ls) (llex_loop mx pf t' (resetBuffer ls3))"
      if "readLongString mx t n False (resetBuffer ls2) = Inr (t', ls3)" for t' ls3
    proof (rule tok_post_step [OF assms(3) [OF _ True that]])
      show "skipSep mx ls1 = Inr (n, ls2)" using 2(1) p by simp
      then show "advs ls (resetBuffer ls3)"
        using long_comment_advs [OF _ assms(1) True that] assms(2) by (auto simp: resetBuffer_def advs_def intro: adv_trans)
    qed
    moreover have "lcurrent ls2 = 91" using skipSep_bracket(2) [of mx ls1 n ls2] 2(1) p assms(1) True by auto
    ultimately show ?thesis
      using True p by (auto simp: resetBuffer_def intro!: rok_mono [OF readLongString_adv])
  next
    case False
    have "advs ls (comment_loop (resetBuffer ls2))"
      using adv2 comment_loop_adv [of "resetBuffer ls2"] by (auto simp: resetBuffer_def intro: advs_trans)
    then show ?thesis using tok_post_step [OF assms(4) [OF _ False]] 2(1) p False by simp
  qed
qed (use assms(1) in \<open>simp add: visible_ge\<close>)

lemma long_string_post:
  assumes "lcurrent ls = 91"
  shows "rok (tok_post ls) (rbind (skipSep mx ls) (\<lambda>(n, ls1).
    if 2 \<le> n then rbind (readLongString mx t n True ls1) (\<lambda>(t', ls2). Inr (tkString, t', ls2))
    else if n = 0 then lexError ''invalid long string delimiter'' tkString ls1 else Inr (91, t, ls1)))"
proof (rule rok_bind_eq [OF skipSep_adv], goal_cases)
  case (2 p)
  obtain n ls1 x where p: "p = (n, ls1)" "advs ls ls1" "lbuff ls1 = lbuff ls @ x" "2 \<le> n \<longrightarrow> length x = n - 1 \<and> lcurrent ls1 = 91"
    using 2 assms by auto
  then have "rok (tok_post ls) (rbind (readLongString mx t n True ls1) (\<lambda>(t', ls2). Inr (tkString, t', ls2)))" if "2 \<le> n"
    by (intro rok_bind_eq [OF readLongString_adv]) (use that in \<open>auto simp: tk_defs intro!: tok_postI intro: advs_trans advs_adv\<close>)
  then show ?case using p by (auto simp: tk_defs intro!: tok_postI)
qed (use assms in \<open>simp add: visible_ge\<close>)

lemma llex_loop_ok: "rok (tok_post ls) (llex_loop mx pf t ls)"
proof (induction mx pf t ls rule: llex_loop.induct)
  case (1 mx pf t ls)
  show ?case
    apply (subst llex_loop.simps)
    apply (unfold Let_def)
    apply (intro rok_if)
    subgoal by (auto simp: currIsNewline_def intro!: rok_mono [OF inclinenumber_advs] tok_post_step [OF 1(1)])
    subgoal by (auto simp: visible_def eoz_def intro!: tok_post_step [OF 1(2)] lexNext_advs)
    subgoal by (auto simp: visible_ge tk_defs intro!: sym_intros)
    subgoal using dashes_advs [of ls] by (intro long_comment_post 1(3) 1(4)) auto
    subgoal using dashes_advs [of ls] comment_loop_adv [of "lexNext (lexNext ls)"]
      by (auto intro!: tok_post_step [OF 1(5)] intro: advs_trans)
    subgoal by (rule long_string_post)
    subgoal by (auto simp: checkNext1_def visible_ge tk_defs intro!: sym_intros)
    subgoal by (auto simp: checkNext1_def visible_ge tk_defs intro!: sym_intros)
    subgoal by (auto simp: checkNext1_def visible_ge tk_defs intro!: sym_intros)
    subgoal by (auto simp: checkNext1_def visible_ge tk_defs intro!: sym_intros)
    subgoal by (auto simp: checkNext1_def visible_ge tk_defs intro!: sym_intros)
    subgoal by (auto simp: checkNext1_def visible_ge tk_defs intro!: sym_intros)
    subgoal by (auto simp: tk_defs visible_ge intro!: rok_mono [OF readString_ok] tok_postI)
    subgoal by (auto simp: visible_ge visible_lis tk_defs checkNext1_def intro!: rok_mono [OF saveAndNext_advs] tok_postI advs_next readNumeral_post)
    subgoal by (auto simp: visible_lis intro!: readNumeral_post)
    subgoal by (simp add: tok_post_def stream_def)
    subgoal by (auto simp: visible_lis tk_defs intro!: rok_mono [OF word_loop_ok] tok_postI split: option.splits dest: reserved_kind)
    subgoal by (auto simp: tok_post_def visible_def tk_defs intro!: lexNext_advs advs_adv)
    done
qed

end
