(* ===== verification/LexSim.thy ===== *)
theory LexSim
  imports LexProps
begin

text \<open>
  The scanner reads nothing of its state but the characters, the line, the buffer and the chunk name: two states
  that agree on these lex alike, however the input is cut into pieces and whatever tokens are stored.
\<close>

subsection \<open>Related states and results\<close>

definition alike :: "lexState \<Rightarrow> lexState \<Rightarrow> bool" where
  "alike a b \<longleftrightarrow> lcurrent b = lcurrent a \<and> zio_bytes (lz b) = zio_bytes (lz a) \<and> lline b = lline a \<and>
     lbuff b = lbuff a \<and> lsource b = lsource a"

definition rrel :: "('a \<Rightarrow> 'b \<Rightarrow> bool) \<Rightarrow> 'a res \<Rightarrow> 'b res \<Rightarrow> bool" where
  "rrel R r r' = (case (r, r') of (Inl e, Inl e') \<Rightarrow> e = e' | (Inr x, Inr y) \<Rightarrow> R x y | _ \<Rightarrow> False)"

lemma rrel_simps [simp]:
  "rrel R (Inl e) (Inl e') = (e = e')" "rrel R (Inr x) (Inr y) = R x y"
  "\<not> rrel R (Inl e) (Inr y)" "\<not> rrel R (Inr x) (Inl e)"
  by (simp_all add: rrel_def)

lemma rrel_bind:
  "rrel R r r' \<Longrightarrow> (\<And>x y. r = Inr x \<Longrightarrow> r' = Inr y \<Longrightarrow> R x y \<Longrightarrow> rrel S (f x) (g y)) \<Longrightarrow> rrel S (rbind r f) (rbind r' g)"
  by (cases r; cases r') simp_all

lemma rrel_if:
  "b' = b \<Longrightarrow> (b \<Longrightarrow> rrel R x x') \<Longrightarrow> (\<not> b \<Longrightarrow> rrel R y y') \<Longrightarrow> rrel R (if b then x else y) (if b' then x' else y')"
  by simp

lemma rrel_mono: "rrel R r r' \<Longrightarrow> (\<And>x y. R x y \<Longrightarrow> S x y) \<Longrightarrow> rrel S r r'"
  by (cases r; cases r') simp_all

lemma simD: "alike a b \<Longrightarrow> lcurrent b = lcurrent a" "alike a b \<Longrightarrow> lline b = lline a" "alike a b \<Longrightarrow> lbuff b = lbuff a"
  "alike a b \<Longrightarrow> lsource b = lsource a" "alike a b \<Longrightarrow> currIsNewline b = currIsNewline a" "alike a b \<Longrightarrow> stream b = stream a"
  by (auto simp: alike_def currIsNewline_def stream_def)

lemma sim_refl [simp, intro]: "alike a a" by (simp add: alike_def)

lemma sim_lexNext [intro]: "alike a b \<Longrightarrow> alike (lexNext a) (lexNext b)"
  using getc_bytes [of "lz a"] getc_bytes [of "lz b"] by (simp add: alike_def lexNext_def case_prod_unfold)

lemma sim_buff [intro]: "alike a b \<Longrightarrow> alike (a\<lparr>lbuff := x\<rparr>) (b\<lparr>lbuff := x\<rparr>)" by (simp add: alike_def)

lemma sim_line [intro]: "alike a b \<Longrightarrow> alike (a\<lparr>lline := x\<rparr>) (b\<lparr>lline := x\<rparr>)" by (simp add: alike_def)

lemma sim_frame [simp]: "alike (a\<lparr>lastline := n\<rparr>) b = alike a b" "alike a (b\<lparr>lastline := n\<rparr>) = alike a b"
  "alike (a\<lparr>ltok := t\<rparr>) b = alike a b" "alike a (b\<lparr>ltok := t\<rparr>) = alike a b"
  "alike (a\<lparr>llookahead := t\<rparr>) b = alike a b" "alike a (b\<lparr>llookahead := t\<rparr>) = alike a b"
  by (simp_all add: alike_def)

definition sim2 :: "'a \<times> lexState \<Rightarrow> 'a \<times> lexState \<Rightarrow> bool" where
  "sim2 p q \<longleftrightarrow> fst q = fst p \<and> alike (snd p) (snd q)"

definition sim3 :: "'a \<times> 'b \<times> lexState \<Rightarrow> 'a \<times> 'b \<times> lexState \<Rightarrow> bool" where
  "sim3 p q \<longleftrightarrow> fst q = fst p \<and> sim2 (snd p) (snd q)"

lemma sim23 [simp]: "sim2 (x, a) (y, b) \<longleftrightarrow> y = x \<and> alike a b" "sim3 (x, z, a) (y, w, b) \<longleftrightarrow> y = x \<and> w = z \<and> alike a b"
  by (auto simp: sim2_def sim3_def)

subsection \<open>Every operation preserves the relation\<close>

lemma sim_lexError: "alike a b \<Longrightarrow> rrel R (lexError m k a) (lexError m k b)"
proof -
  assume "alike a b"
  then have "lexError m k a = (lexError m k b :: 'a res)" for k and m :: string
    by (simp add: lexError_def txtToken_def simD Let_def)
  moreover have "(\<exists>e. (lexError m k b :: 'a res) = Inl e \<and> (lexError m k b :: 'b res) = Inl e)"
    by (auto simp: lexError_def Let_def rbind_def split: sum.splits)
  ultimately show ?thesis by auto
qed

lemma sim_save: "alike a b \<Longrightarrow> rrel alike (save mx c a) (save mx c b)"
  by (auto simp: save_def simD intro: sim_lexError)

lemma sim_saveAndNext: "alike a b \<Longrightarrow> rrel alike (saveAndNext mx a) (saveAndNext mx b)"
  unfolding saveAndNext_def by (auto simp: simD intro!: rrel_bind [OF sim_save])

lemma sim_buffRemove: "alike a b \<Longrightarrow> rrel alike (buffRemove n a) (buffRemove n b)"
  by (auto simp: buffRemove_def simD)

lemma sim_resetBuffer: "alike a b \<Longrightarrow> alike (resetBuffer a) (resetBuffer b)"
  by (auto simp: resetBuffer_def)

lemma sim_inclinenumber: "alike a b \<Longrightarrow> rrel alike (inclinenumber a) (inclinenumber b)"
proof -
  assume s: "alike a b"
  note n = sim_lexNext [OF s]
  show ?thesis using s simD [OF s] simD [OF n] sim_lexNext [OF n] n
    by (auto simp: inclinenumber_def Let_def intro!: sim_lexError sim_line)
qed

lemma sim_checkNext1: "alike a b \<Longrightarrow> sim2 (checkNext1 c a) (checkNext1 c b)"
  by (auto simp: checkNext1_def simD)

lemma sim_checkNext2: "alike a b \<Longrightarrow> rrel sim2 (checkNext2 mx st a) (checkNext2 mx st b)"
  unfolding checkNext2_def by (auto simp: simD intro!: rrel_bind [OF sim_saveAndNext])

lemma sim_numeral_loop: "alike a b \<Longrightarrow> rrel alike (numeral_loop mx e a) (numeral_loop mx e b)"
proof (induction mx e a arbitrary: b rule: numeral_loop.induct)
  case (1 mx e a)
  show ?case
    by (subst (1 2) numeral_loop.simps)
      (auto simp: simD intro!: rrel_bind [OF sim_checkNext2 [OF 1(3)]] rrel_bind [OF sim_checkNext2] rrel_bind [OF sim_saveAndNext],
       ((rule 1(1) 1(2), (assumption | rule refl | simp)+)[1])+)
qed

lemma sim_readNumeral:
  "alike a b \<Longrightarrow> rrel (\<lambda>(k, t', a') (k', s', b'). k' = k \<and> tk_num s' = tk_num t' \<and> alike a' b') (readNumeral mx pf t a) (readNumeral mx pf s b)"
  unfolding readNumeral_def Let_def
  by (auto simp: simD split: option.splits
      intro!: rrel_bind [OF sim_saveAndNext] rrel_bind [OF sim_checkNext2] rrel_bind [OF sim_numeral_loop] sim_lexError)

lemma sim_count_eq: "alike a b \<Longrightarrow> rrel sim2 (count_eq mx n a) (count_eq mx n b)"
proof (induction mx n a arbitrary: b rule: count_eq.induct)
  case (1 mx n a)
  show ?case
    by (subst (1 2) count_eq.simps) (auto simp: simD [OF 1(2)] 1(2) intro!: rrel_bind [OF sim_saveAndNext] 1(1) [simplified])
qed

lemma sim_skipSep: "alike a b \<Longrightarrow> rrel sim2 (skipSep mx a) (skipSep mx b)"
  unfolding skipSep_def Let_def
  by (auto simp: simD intro!: rrel_bind [OF sim_saveAndNext] rrel_bind [OF sim_count_eq])

lemma sim_long_loop: "alike a b \<Longrightarrow> rrel alike (long_loop mx sep keep st a) (long_loop mx sep keep st b)"
proof (induction mx sep keep st a arbitrary: b rule: long_loop.induct)
  case (1 mx sep keep st a)
  note s = simD [OF 1(5)] 1(5)
  have close: "rrel alike (if n = sep then saveAndNext mx x else long_loop mx sep keep st x)
      (if n = sep then saveAndNext mx y else long_loop mx sep keep st y)"
    if "skipSep mx a = Inr (n, x)" "lcurrent a \<noteq> eoz" "lcurrent a = 93" "alike x y" for n x y
    using that by (intro rrel_if refl sim_saveAndNext 1(1)) auto
  have nl: "rrel alike (long_loop mx sep keep st (if keep then x else resetBuffer x)) (long_loop mx sep keep st (if keep then y else resetBuffer y))"
    if "save mx 10 a = Inr a1" "inclinenumber a1 = Inr x" "currIsNewline a" "lcurrent a \<noteq> eoz" "lcurrent a \<noteq> 93" "alike x y" for a1 x y
    using that by (intro 1(2)) (auto intro: sim_resetBuffer)
  have kept: "rrel alike (long_loop mx sep keep st x) (long_loop mx sep keep st y)"
    if "saveAndNext mx a = Inr x" "keep" "\<not> currIsNewline a" "lcurrent a \<noteq> eoz" "lcurrent a \<noteq> 93" "alike x y" for x y
    using that by (intro 1(3)) auto
  have dropped: "rrel alike (long_loop mx sep keep st (lexNext a)) (long_loop mx sep keep st (lexNext b))"
    if "\<not> keep" "\<not> currIsNewline a" "lcurrent a \<noteq> eoz" "lcurrent a \<noteq> 93"
    using that 1(5) by (intro 1(4)) auto
  show ?case
    apply (subst (1 2) long_loop.simps, simp only: s(1-5), intro rrel_if refl)
    subgoal by (rule sim_lexError [OF s(7)])
    subgoal by (rule rrel_bind [OF sim_skipSep [OF s(7)]]) (auto intro!: close split del: if_split)
    subgoal by (rule rrel_bind [OF sim_save [OF s(7)]], erule rrel_bind [OF sim_inclinenumber], rule nl)
    subgoal by (rule rrel_bind [OF sim_saveAndNext [OF s(7)]], rule kept)
    subgoal by (rule dropped)
    done
qed

lemma sim_readLongString:
  "alike a b \<Longrightarrow> rrel (\<lambda>(t', a') (s', b'). (if keep then tk_str s' = tk_str t' else t' = t \<and> s' = s) \<and> alike a' b')
     (readLongString mx t sep keep a) (readLongString mx s sep keep b)"
  unfolding readLongString_def Let_def
  by (auto simp: simD slice_def
      intro!: rrel_bind [OF sim_saveAndNext] rrel_bind [OF sim_inclinenumber] rrel_bind [OF sim_long_loop])

lemma sim_esccheck: "alike a b \<Longrightarrow> rrel (=) (esccheck mx ok m a) (esccheck mx ok m b)"
  unfolding esccheck_def
  by (auto simp: simD intro!: rrel_bind [OF sim_saveAndNext] sim_lexError)

lemma sim_gethexa: "alike a b \<Longrightarrow> rrel sim2 (gethexa mx a) (gethexa mx b)"
  unfolding gethexa_def
  by (auto simp: simD intro!: rrel_bind [OF sim_saveAndNext] rrel_bind [OF sim_esccheck])

lemma sim_readhexaesc: "alike a b \<Longrightarrow> rrel sim2 (readhexaesc mx a) (readhexaesc mx b)"
  unfolding readhexaesc_def
  by (auto simp: simD intro!: rrel_bind [OF sim_gethexa] rrel_bind [OF sim_buffRemove])

lemma sim_utf8_digits: "alike a b \<Longrightarrow> rrel sim3 (utf8_digits mx i r a) (utf8_digits mx i r b)"
proof (induction mx i r a arbitrary: b rule: utf8_digits.induct)
  case (1 mx i r a)
  have more: "rrel sim3
      (rbind (esccheck mx (r \<le> utf8_limit) ''UTF-8 value too large'' x) (\<lambda>_. utf8_digits mx (i + 1) (push_bit 4 r + word_of_int (hexavalue (lcurrent x))) x))
      (rbind (esccheck mx (r \<le> utf8_limit) ''UTF-8 value too large'' y) (\<lambda>_. utf8_digits mx (i + 1) (push_bit 4 r + word_of_int (hexavalue (lcurrent y))) y))"
    if "saveAndNext mx a = Inr x" "lisxdigit (lcurrent x)" "alike x y" for x y
    unfolding simD(1) [OF that(3)]
    by (rule rrel_bind [OF sim_esccheck [OF that(3)]], rule 1(1)) (use that in auto)
  show ?case
    apply (subst (1 2) utf8_digits.simps)
    apply (rule rrel_bind [OF sim_saveAndNext [OF 1(2)]])
    apply (rule rrel_if)
    subgoal by (simp add: simD)
    subgoal by (simp add: simD)
    subgoal by (rule more) simp_all
    done
qed

lemma sim_readutf8esc: "alike a b \<Longrightarrow> rrel sim2 (readutf8esc mx a) (readutf8esc mx b)"
  unfolding readutf8esc_def
  by (auto simp: simD intro!: rrel_bind [OF sim_saveAndNext] rrel_bind [OF sim_esccheck] rrel_bind [OF sim_gethexa]
      rrel_bind [OF sim_utf8_digits] rrel_bind [OF sim_buffRemove] sim_lexNext)

lemma sim_save_all: "alike a b \<Longrightarrow> rrel alike (save_all mx bs a) (save_all mx bs b)"
  by (induction bs arbitrary: a b) (auto intro!: rrel_bind [OF sim_save])

lemma sim_lexUtf8esc: "alike a b \<Longrightarrow> rrel alike (lexUtf8esc mx a) (lexUtf8esc mx b)"
  unfolding lexUtf8esc_def by (auto intro!: rrel_bind [OF sim_readutf8esc] sim_save_all)

lemma sim_decesc_loop: "alike a b \<Longrightarrow> rrel sim3 (decesc_loop mx i r a) (decesc_loop mx i r b)"
proof (induction mx i r a arbitrary: b rule: decesc_loop.induct)
  case (1 mx i r a)
  show ?case
    by (subst (1 2) decesc_loop.simps, intro rrel_if)
      (auto simp: simD [OF 1(2)] 1(2) intro!: rrel_bind [OF sim_saveAndNext] 1(1) [simplified])
qed

lemma sim_readdecesc: "alike a b \<Longrightarrow> rrel sim2 (readdecesc mx a) (readdecesc mx b)"
  unfolding readdecesc_def
  by (auto intro!: rrel_bind [OF sim_decesc_loop] rrel_bind [OF sim_esccheck] rrel_bind [OF sim_buffRemove])

lemma sim_escOnlySave: "alike a b \<Longrightarrow> rrel alike (escOnlySave mx c a) (escOnlySave mx c b)"
  unfolding escOnlySave_def by (auto intro!: rrel_bind [OF sim_buffRemove] sim_save)

lemma sim_escReadSave: "alike a b \<Longrightarrow> rrel alike (escReadSave mx c a) (escReadSave mx c b)"
  unfolding escReadSave_def by (auto intro!: sim_escOnlySave)

lemma sim_zap_loop: "alike a b \<Longrightarrow> rrel alike (zap_loop a) (zap_loop b)"
proof (induction a arbitrary: b rule: zap_loop.induct)
  case (1 a)
  show ?case
    by (subst (1 2) zap_loop.simps, intro rrel_if)
      (auto simp: simD [OF 1(3)] 1(3) intro!: rrel_bind [OF sim_inclinenumber] 1(1) 1(2))
qed

lemma sim_readEscape: "alike a b \<Longrightarrow> rrel alike (readEscape mx a) (readEscape mx b)"
  unfolding readEscape_def Let_def
  by (intro rrel_if)
    (auto simp: simD intro!: sim_escReadSave sim_escOnlySave sim_lexUtf8esc sim_zap_loop rrel_bind [OF sim_readhexaesc]
      rrel_bind [OF sim_inclinenumber] rrel_bind [OF sim_buffRemove] rrel_bind [OF sim_esccheck] rrel_bind [OF sim_readdecesc])

lemma sim_string_loop: "alike a b \<Longrightarrow> rrel alike (string_loop mx del a) (string_loop mx del b)"
proof (induction mx del a arbitrary: b rule: string_loop.induct)
  case (1 mx del a)
  note s = simD [OF 1(3)] 1(3)
  show ?case
    apply (subst (1 2) string_loop.simps, simp only: s(1-5), intro rrel_if refl)
    subgoal using s(7) by simp
    subgoal by (rule sim_lexError [OF s(7)])
    subgoal by (rule sim_lexError [OF s(7)])
    subgoal by (rule rrel_bind [OF sim_saveAndNext [OF s(7)]], erule rrel_bind [OF sim_readEscape], rule 1(1))
    subgoal by (rule rrel_bind [OF sim_saveAndNext [OF s(7)]], rule 1(2))
    done
qed

lemma sim_readString:
  "alike a b \<Longrightarrow> rrel (\<lambda>(t', a') (s', b'). tk_str s' = tk_str t' \<and> alike a' b') (readString mx del t a) (readString mx del s b)"
  unfolding readString_def
  by (auto simp: simD slice_def intro!: rrel_bind [OF sim_saveAndNext] rrel_bind [OF sim_string_loop])

lemma sim_comment_loop: "alike a b \<Longrightarrow> alike (comment_loop a) (comment_loop b)"
proof (induction a arbitrary: b rule: comment_loop.induct)
  case (1 a)
  show ?case by (subst (1 2) comment_loop.simps) (auto simp: simD [OF 1(2)] 1(2) intro!: 1(1))
qed

lemma sim_word_loop: "alike a b \<Longrightarrow> rrel alike (word_loop mx a) (word_loop mx b)"
proof (induction mx a arbitrary: b rule: word_loop.induct)
  case (1 mx a)
  show ?case
    by (subst (1 2) word_loop.simps, rule rrel_bind [OF sim_saveAndNext [OF 1(2)]], rule rrel_if)
      (auto simp: simD intro!: 1(1))
qed

subsection \<open>Tokens\<close>

text \<open>The payload that a token of a kind carries; the other fields of a token may be left from an earlier one.\<close>

definition same_payload :: "int \<Rightarrow> token \<Rightarrow> token \<Rightarrow> bool" where
  "same_payload k t s \<longleftrightarrow>
     (if k = tkInt \<or> k = tkFlt then tk_num s = tk_num t else if k = tkString \<or> k = tkName then tk_str s = tk_str t else True)"

definition lex_rel :: "int \<times> token \<times> lexState \<Rightarrow> int \<times> token \<times> lexState \<Rightarrow> bool" where
  "lex_rel r q = (case (r, q) of ((k, t, a), (k', s, b)) \<Rightarrow> k' = k \<and> same_payload k t s \<and> alike a b)"

lemma lex_rel_sym: "k \<notin> {tkInt, tkFlt, tkString, tkName} \<Longrightarrow> alike a b \<Longrightarrow> lex_rel (k, t, a) (k, s, b)"
  by (simp add: lex_rel_def same_payload_def)

lemma lex_rel_str: "tk_str s = tk_str t \<Longrightarrow> alike a b \<Longrightarrow> lex_rel (tkString, t, a) (tkString, s, b)"
  by (simp add: lex_rel_def same_payload_def tk_defs)

lemma sim_number: "alike a b \<Longrightarrow> rrel lex_rel (readNumeral mx pf t a) (readNumeral mx pf s b)"
proof -
  assume "alike a b"
  then have "rrel (\<lambda>(k, t', a') (k', s', b'). k' = k \<and> tk_num s' = tk_num t' \<and> alike a' b') (readNumeral mx pf t a) (readNumeral mx pf s b)"
    by (rule sim_readNumeral)
  then show ?thesis
    by (cases "readNumeral mx pf t a"; cases "readNumeral mx pf s b")
      (auto dest!: readNumeral_kind simp: lex_rel_def same_payload_def)
qed

lemma sim_llex_loop: "alike a b \<Longrightarrow> lcurrent a < 256 \<Longrightarrow> rrel lex_rel (llex_loop mx pf t a) (llex_loop mx pf s b)"
proof (induction mx pf t a arbitrary: s b rule: llex_loop.induct)
  case (1 mx pf t a)
  note s = simD [OF 1(6)] 1(6)
  note s1 = simD [OF sim_lexNext [OF 1(6)]] sim_lexNext [OF 1(6)]
  note s2 = simD [OF sim_lexNext [OF s1(7)]] sim_lexNext [OF s1(7)]
  have long: "rrel lex_rel
      (if 2 \<le> n then rbind (readLongString mx t n False (resetBuffer x)) (\<lambda>(t, ls). llex_loop mx pf t (resetBuffer ls))
       else llex_loop mx pf t (comment_loop (resetBuffer x)))
      (if 2 \<le> n then rbind (readLongString mx s n False (resetBuffer y)) (\<lambda>(t, ls). llex_loop mx pf t (resetBuffer ls))
       else llex_loop mx pf s (comment_loop (resetBuffer y)))"
    if sk: "skipSep mx (lexNext (lexNext a)) = Inr (n, x)" and xy: "alike x y"
      and c: "lcurrent a = 45" "lcurrent (lexNext a) = 45" "lcurrent (lexNext (lexNext a)) = 91" for n x y
  proof (intro rrel_if refl)
    have x: "lcurrent x < 256" "2 \<le> n \<Longrightarrow> lcurrent x = 91"
      using skipSep_bracket [OF sk c(3)] current_next [of "lexNext a"] by (auto simp: advs_def adv_def)
    show "rrel lex_rel (llex_loop mx pf t (comment_loop (resetBuffer x))) (llex_loop mx pf s (comment_loop (resetBuffer y)))" if "\<not> 2 \<le> n"
      by (rule 1(4) [OF _ _ _ _ refl _ refl _ sk refl refl]; use c that x sim_comment_loop [OF sim_resetBuffer [OF xy]]
            comment_loop_adv [of "resetBuffer x"] in \<open>simp add: adv_def resetBuffer_def\<close>)
    show "rrel lex_rel (rbind (readLongString mx t n False (resetBuffer x)) (\<lambda>(t, ls). llex_loop mx pf t (resetBuffer ls)))
        (rbind (readLongString mx s n False (resetBuffer y)) (\<lambda>(t, ls). llex_loop mx pf t (resetBuffer ls)))" if n: "2 \<le> n"
    proof (rule rrel_bind [OF sim_readLongString [OF sim_resetBuffer [OF xy]]], clarsimp)
      fix p q assume r: "readLongString mx t n False (resetBuffer x) = Inr (t, p)" and pq: "alike p q"
      have "lcurrent (resetBuffer p) < 256"
        using long_comment_advs [OF sk c(3) n r] current_next [of "lexNext a"] by (auto simp: advs_def adv_def resetBuffer_def)
      then show "rrel lex_rel (llex_loop mx pf t (resetBuffer p)) (llex_loop mx pf s (resetBuffer q))"
        by (intro 1(3) [OF _ _ _ _ refl _ refl _ sk refl refl n r refl]; use c pq in \<open>simp add: sim_resetBuffer\<close>)
    qed
  qed
  show ?case
    apply (subst (1 2) llex_loop.simps)
    apply (unfold Let_def s(1) s1(1) s2(1))
    apply (intro rrel_if refl)
    subgoal using inclinenumber_advs [of a] 1(7)
      by (intro rrel_bind [OF sim_inclinenumber [OF s(7)]] 1(1)) (auto simp: advs_def adv_def currIsNewline_def)
    subgoal by (intro 1(2)) (auto intro!: s1 current_next)
    subgoal by (auto simp: tk_defs intro!: lex_rel_sym s1)
    subgoal by (rule rrel_bind [OF sim_skipSep [OF s2(7)]]) (auto simp only: sim23 prod.case intro!: long)
    subgoal using comment_loop_adv [of "lexNext (lexNext a)"] current_next [of "lexNext a"]
      by (intro 1(5)) (auto intro!: sim_comment_loop s2 simp: adv_def)
    subgoal by (rule rrel_bind [OF sim_skipSep [OF s(7)]])
      (auto split del: if_split intro!: rrel_if rrel_bind [OF sim_readLongString] lex_rel_str sim_lexError,
        simp add: lex_rel_def same_payload_def tk_defs)
    subgoal using sim_checkNext1 [OF s1(7), of 61] by (auto simp: tk_defs split: prod.splits intro!: lex_rel_sym)
    subgoal by (auto simp: checkNext1_def s1 s2(1) tk_defs intro!: lex_rel_sym s1(7) s2(7))
    subgoal by (auto simp: checkNext1_def s1 s2(1) tk_defs intro!: lex_rel_sym s1(7) s2(7))
    subgoal using sim_checkNext1 [OF s1(7), of 47] by (auto simp: tk_defs split: prod.splits intro!: lex_rel_sym)
    subgoal using sim_checkNext1 [OF s1(7), of 61] by (auto simp: tk_defs split: prod.splits intro!: lex_rel_sym)
    subgoal using sim_checkNext1 [OF s1(7), of 58] by (auto simp: tk_defs split: prod.splits intro!: lex_rel_sym)
    subgoal by (rule rrel_bind [OF sim_readString [OF s(7)]]) (auto intro!: lex_rel_str)
    subgoal by (rule rrel_bind [OF sim_saveAndNext [OF s(7)]])
      (auto simp: checkNext1_def simD simD(1) [OF sim_lexNext] sim_lexNext tk_defs intro!: lex_rel_sym sim_number)
    subgoal by (rule sim_number [OF s(7)])
    subgoal using s(7) by (auto simp: tk_defs intro!: lex_rel_sym)
    subgoal by (rule rrel_bind [OF sim_word_loop [OF s(7)]])
      (auto simp: simD lex_rel_def same_payload_def tk_defs split: option.splits dest: reserved_kind)
    subgoal using s1(7) 1(7) by (auto simp: tk_defs intro!: lex_rel_sym)
    done
qed

lemma sim_llex: "alike a b \<Longrightarrow> lcurrent a < 256 \<Longrightarrow> rrel lex_rel (llex mx pf t a) (llex mx pf s b)"
  unfolding llex_def by (intro sim_llex_loop) (auto simp: sim_resetBuffer resetBuffer_def)

subsection \<open>A chunk\<close>

text \<open>The tokens of a chunk as the compiler reads them, up to the end of the input; \<open>None\<close>: not after \<open>n\<close> tokens.\<close>

fun chunk_tokens ::
  "int \<Rightarrow> (bytes \<Rightarrow> f64 \<times> num_error option) \<Rightarrow> nat \<Rightarrow> lexState \<Rightarrow> (token list \<times> lexState) res option" where
  "chunk_tokens mx pf 0 ls = None"
| "chunk_tokens mx pf (Suc n) ls =
     (case luaXNext mx pf ls of
        Inl e \<Rightarrow> Some (Inl e)
      | Inr ls' \<Rightarrow>
          if tk_kind (ltok ls') = tkEOS then Some (Inr ([], ls'))
          else map_option (\<lambda>r. rbind r (\<lambda>(ts, l). Inr (ltok ls' # ts, l))) (chunk_tokens mx pf n ls'))"

lemma llex_ok:
  "lcurrent ls < 256 \<Longrightarrow> rok (\<lambda>(k, t', ls'). adv ls ls' \<and> (if k = tkEOS then stream ls' = [] else advs ls ls')) (llex mx pf t ls)"
  using llex_loop_ok [of "resetBuffer ls" mx pf t]
  by (auto simp: llex_def resetBuffer_def tok_post_def elim: rok_mono)

lemma luaXNext_ok:
  assumes "lcurrent ls < 256" "tk_kind (llookahead ls) = tkEOS"
  shows "rok (\<lambda>ls'. lcurrent ls' < 256 \<and> tk_kind (llookahead ls') = tkEOS \<and>
    lline ls' + newlines (stream ls') = lline ls + newlines (stream ls) \<and>
    (if tk_kind (ltok ls') = tkEOS then stream ls' = [] else length (stream ls') < length (stream ls))) (luaXNext mx pf ls)"
proof -
  have "stream (l\<lparr>ltok := x\<rparr>) = stream l" "stream (l\<lparr>lastline := n\<rparr>) = stream l" for l x n by (simp_all add: stream_def)
  then show ?thesis using assms
    by (auto simp: luaXNext_def Let_def advs_def adv_def split: if_splits intro!: rok_mono [OF llex_ok])
qed

lemma chunk_tokens_ok:
  "lcurrent ls < 256 \<Longrightarrow> tk_kind (llookahead ls) = tkEOS \<Longrightarrow> length (stream ls) < n \<Longrightarrow>
   \<exists>r. chunk_tokens mx pf n ls = Some r \<and>
     rok (\<lambda>(ts, ls'). stream ls' = [] \<and> lline ls' = lline ls + newlines (stream ls) \<and> length ts \<le> length (stream ls)) r"
proof (induction n arbitrary: ls)
  case (Suc n)
  show ?case
  proof (cases "luaXNext mx pf ls")
    case (Inl e)
    then show ?thesis using luaXNext_ok [OF Suc.prems(1,2), of mx pf] by simp
  next
    case (Inr ls')
    note ok = luaXNext_ok [OF Suc.prems(1,2), of mx pf, unfolded Inr, simplified]
    show ?thesis
    proof (cases "tk_kind (ltok ls') = tkEOS")
      case True
      then show ?thesis using ok Inr by auto
    next
      case False
      then obtain r where "chunk_tokens mx pf n ls' = Some r"
        "rok (\<lambda>(ts, l). stream l = [] \<and> lline l = lline ls' + newlines (stream ls') \<and> length ts \<le> length (stream ls')) r"
        using Suc.IH [of ls'] ok Suc.prems(3) by auto
      then show ?thesis using ok Inr False by (auto elim!: rok_mono)
    qed
  qed
qed simp

lemma newLexStateZIO_simps:
  "stream (newLexStateZIO z src) = map uint (zio_bytes z)" "lline (newLexStateZIO z src) = 1"
  "lcurrent (newLexStateZIO z src) < 256" "tk_kind (llookahead (newLexStateZIO z src)) = tkEOS"
  by (simp_all add: newLexStateZIO_def current_next lexNext_stream)

text \<open>
  C19: lexing ends for every chunk, whatever its bytes: after at most one token for each byte the end of the input is
  reached or a compile error raised, never a Go panic, although the buffer is sliced and shortened by computed
  amounts; at the end the line counter has counted every line end of the chunk, wherever it stood (between tokens,
  in comments, in long strings and behind backslashes), a pair of different line-end characters as one.
\<close>

theorem chunk_lexes:
  "\<exists>r. chunk_tokens mx pf (Suc (length (zio_bytes z))) (newLexStateZIO z src) = Some r \<and>
    (case r of Inl e \<Rightarrow> e \<noteq> GoPanic
     | Inr (ts, ls') \<Rightarrow> length ts \<le> length (zio_bytes z) \<and> stream ls' = [] \<and> lline ls' = 1 + newlines (map uint (zio_bytes z)))"
proof -
  note init = newLexStateZIO_simps [of z src]
  obtain r where "chunk_tokens mx pf (Suc (length (zio_bytes z))) (newLexStateZIO z src) = Some r"
    "rok (\<lambda>(ts, ls'). stream ls' = [] \<and> lline ls' = 1 + newlines (map uint (zio_bytes z)) \<and> length ts \<le> length (zio_bytes z)) r"
    using chunk_tokens_ok [OF init(3,4), of "Suc (length (zio_bytes z))" mx pf] by (auto simp: init)
  then show ?thesis by (cases r) auto
qed

text \<open>What the parser sees of a token.\<close>

definition shown :: "token \<Rightarrow> int \<times> (Value + bytes) option" where
  "shown t = (tk_kind t,
     if tk_kind t = tkInt \<or> tk_kind t = tkFlt then Some (Inl (tk_num t))
     else if tk_kind t = tkString \<or> tk_kind t = tkName then Some (Inr (tk_str t)) else None)"

lemma same_payload_shown: "same_payload k t s \<Longrightarrow> shown (s\<lparr>tk_kind := k\<rparr>) = shown (t\<lparr>tk_kind := k\<rparr>)"
  by (auto simp: same_payload_def shown_def split: if_splits)

lemma llex_eos: "lcurrent ls = eoz \<Longrightarrow> llex mx pf t ls = Inr (tkEOS, t, ls\<lparr>lbuff := []\<rparr>)"
  unfolding llex_def by (subst llex_loop.simps) (simp add: resetBuffer_def eoz_def lis_defs)

definition same_next :: "lexState \<Rightarrow> lexState \<Rightarrow> bool" where
  "same_next a b \<longleftrightarrow> alike a b \<and> shown (ltok b) = shown (ltok a)"

lemma sim_luaXNext:
  assumes "alike a b" "lcurrent a < 256" "tk_kind (llookahead a) = tkEOS" "tk_kind (llookahead b) = tkEOS"
  shows "rrel same_next (luaXNext mx pf a) (luaXNext mx pf b)"
proof -
  have "rrel lex_rel (llex mx pf (ltok a) (a\<lparr>lastline := lline a\<rparr>)) (llex mx pf (ltok b) (b\<lparr>lastline := lline b\<rparr>))"
    by (rule sim_llex) (use assms in simp_all)
  then show ?thesis using assms(3,4)
    by (auto simp: luaXNext_def Let_def lex_rel_def same_next_def elim!: rrel_bind intro!: same_payload_shown)
qed

lemma sim_chunk_tokens:
  "alike a b \<Longrightarrow> lcurrent a < 256 \<Longrightarrow> tk_kind (llookahead a) = tkEOS \<Longrightarrow> tk_kind (llookahead b) = tkEOS \<Longrightarrow>
   map_option (map_sum id (\<lambda>(ts, l). (map shown ts, lline l))) (chunk_tokens mx pf n b) =
   map_option (map_sum id (\<lambda>(ts, l). (map shown ts, lline l))) (chunk_tokens mx pf n a)"
proof (induction n arbitrary: a b)
  case (Suc n)
  note rel = sim_luaXNext [OF Suc.prems, of mx pf]
  show ?case
  proof (cases "luaXNext mx pf a")
    case (Inl e)
    then show ?thesis using rel by (cases "luaXNext mx pf b") simp_all
  next
    case (Inr a')
    then obtain b' where b': "luaXNext mx pf b = Inr b'" and s: "alike a' b'" "shown (ltok b') = shown (ltok a')"
      using rel by (cases "luaXNext mx pf b") (auto simp: same_next_def)
    have k: "tk_kind (ltok b') = tk_kind (ltok a')" using s(2) by (simp add: shown_def)
    have nx: "lcurrent a' < 256" "tk_kind (llookahead a') = tkEOS" "tk_kind (llookahead b') = tkEOS"
      using luaXNext_ok [OF Suc.prems(2,3), of mx pf] luaXNext_ok [of b mx pf] Inr b' Suc.prems simD(1) [OF Suc.prems(1)] by auto
    have eq: "map_option (map_sum id (\<lambda>(ts, l). (map shown ts, lline l))) (map_option (\<lambda>r. rbind r (\<lambda>(ts, l). Inr (u # ts, l))) q) =
        map_option (map_sum id (\<lambda>(ts, l). (shown u # ts, l))) (map_option (map_sum id (\<lambda>(ts, l). (map shown ts, lline l))) q)" for u q
      by (cases q; cases "the q") (auto simp: rbind_def)
    show ?thesis
    proof (cases "tk_kind (ltok a') = tkEOS")
      case True
      then show ?thesis by (simp add: Inr b' k simD(2) [OF s(1)])
    next
      case False
      then show ?thesis
        by (simp only: chunk_tokens.simps Inr b' sum.case k if_False eq s(2) Suc.IH [OF s(1) nx])
    qed
  qed
qed simp

text \<open>
  C21: a chunk that a reader delivers in pieces (\<open>load\<close> with a function, \<open>loadfile\<close>) lexes to the tokens, the line
  count and the errors of the one string that the pieces up to the first empty one make up, wherever it is cut:
  inside a token, a line-end pair or an escape sequence.
\<close>

theorem pieces_lex_alike:
  "map_option (map_sum id (\<lambda>(ts, l). (map shown ts, lline l)))
     (chunk_tokens mx pf n (newLexStateZIO (newReaderZIO s ps) src)) =
   map_option (map_sum id (\<lambda>(ts, l). (map shown ts, lline l)))
     (chunk_tokens mx pf n (newLexState (s @ concat (takeWhile (\<lambda>p. p \<noteq> []) ps)) src))"
proof (rule sim_chunk_tokens)
  let ?z = "newReaderZIO s ps" and ?y = "newStringZIO (s @ concat (takeWhile (\<lambda>p. p \<noteq> []) ps))"
  have "zio_bytes ?z = zio_bytes ?y" by (simp add: zio_bytes_reader)
  then have "alike \<lparr>lz = ?y, lcurrent = 0, lline = 1, lastline = 1, ltok = t, llookahead = u, lbuff = [], lsource = src\<rparr>
      \<lparr>lz = ?z, lcurrent = 0, lline = 1, lastline = 1, ltok = t, llookahead = u, lbuff = [], lsource = src\<rparr>" for t u
    by (simp add: alike_def)
  then show "alike (newLexState (s @ concat (takeWhile (\<lambda>p. p \<noteq> []) ps)) src) (newLexStateZIO ?z src)"
    unfolding newLexState_def newLexStateZIO_def by (intro sim_lexNext)
qed (simp_all add: newLexState_def newLexStateZIO_simps)

text \<open>
  Reading a token ahead changes nothing: \<open>luaXLookahead\<close> followed by \<open>luaXNext\<close> gives the token, the position and
  the line, or the error, of \<open>luaXNext\<close> alone, also at the end of the input, where the code cannot tell the token
  read ahead from none.
\<close>

lemma lookahead_next:
  assumes "lcurrent ls < 256" and "tk_kind (llookahead ls) = tkEOS"
  shows "map_sum id (\<lambda>l. (shown (ltok l), stream l, lline l)) (rbind (luaXLookahead mx pf ls) (\<lambda>(k, l). luaXNext mx pf l)) =
    map_sum id (\<lambda>l. (shown (ltok l), stream l, lline l)) (luaXNext mx pf ls)"
proof -
  let ?v = "\<lambda>l. (shown (ltok l), stream l, lline l)"
  have upd: "stream (l\<lparr>ltok := x\<rparr>) = stream l" "stream (l\<lparr>lastline := n\<rparr>) = stream l" "stream (l\<lparr>llookahead := x\<rparr>) = stream l" for l x n by (simp_all add: stream_def)
  have "rrel lex_rel (llex mx pf (llookahead ls) ls) (llex mx pf (ltok ls) (ls\<lparr>lastline := lline ls\<rparr>))"
    by (rule sim_llex) (use assms in simp_all)
  then show ?thesis
  proof (cases "llex mx pf (llookahead ls) ls")
    case (Inl e)
    then show ?thesis using \<open>rrel lex_rel _ _\<close> assms(2)
      by (cases "llex mx pf (ltok ls) (ls\<lparr>lastline := lline ls\<rparr>)") (simp_all add: luaXLookahead_def luaXNext_def Let_def)
  next
    case (Inr r)
    then obtain k t a t' b where r: "llex mx pf (llookahead ls) ls = Inr (k, t, a)"
      "llex mx pf (ltok ls) (ls\<lparr>lastline := lline ls\<rparr>) = Inr (k, t', b)" and p: "same_payload k t t'" "alike a b"
      using \<open>rrel lex_rel _ _\<close> by (cases r; cases "llex mx pf (ltok ls) (ls\<lparr>lastline := lline ls\<rparr>)") (auto simp: lex_rel_def)
    have direct: "map_sum id ?v (luaXNext mx pf ls) = Inr (shown (t\<lparr>tk_kind := k\<rparr>), stream a, lline a)"
      using assms(2) r(2) same_payload_shown [OF p(1)] by (simp add: luaXNext_def Let_def upd simD [OF p(2)])
    show ?thesis
    proof (cases "k = tkEOS")
      case False
      then show ?thesis unfolding direct using r(1) by (simp add: luaXLookahead_def luaXNext_def Let_def upd)
    next
      case True
      then have "stream a = []" using llex_ok [OF assms(1), of mx pf "llookahead ls"] r(1) by simp
      then have "lcurrent a = eoz" by (simp add: current_stream)
      then have "luaXNext mx pf (a\<lparr>llookahead := t\<lparr>tk_kind := k\<rparr>\<rparr>) = 
          Inr (a\<lparr>llookahead := t\<lparr>tk_kind := k\<rparr>, lastline := lline a, lbuff := [], ltok := (ltok a)\<lparr>tk_kind := tkEOS\<rparr>\<rparr>)"
        using True by (simp add: luaXNext_def Let_def llex_eos)
      then show ?thesis unfolding direct using r(1) True
        by (simp add: luaXLookahead_def upd shown_def tk_defs)
    qed
  qed
qed

lemma lookahead_next_witness:
  "map_sum id (\<lambda>l. (shown (ltok l), stream l, lline l))
     (rbind (luaXLookahead 0 (\<lambda>_. (0, None)) (newLexState (lit ''x == 1'') [])) (\<lambda>(k, l). luaXNext 0 (\<lambda>_. (0, None)) l)) =
   map_sum id (\<lambda>l. (shown (ltok l), stream l, lline l)) (luaXNext 0 (\<lambda>_. (0, None)) (newLexState (lit ''x == 1'') []))"
  unfolding newLexState_def
  by (rule lookahead_next [of "newLexStateZIO (newStringZIO (lit ''x == 1'')) []"]) (simp_all only: newLexStateZIO_simps)

end
