(* ===== verification/LexQuote.thy ===== *)
theory LexQuote
  imports LexProps
begin

text \<open>
  The literals that the option \<open>%q\<close> of \<open>string.format\<close> writes (lstrlib.go), and how the scanner reads them back.
\<close>

subsection \<open>Writing literals\<close>

definition fmtIsCntrl :: "byte \<Rightarrow> bool" where "fmtIsCntrl c = (c < 0x20 \<or> c = 0x7f)"

text \<open>\<open>%03d\<close>\<close>

definition pad3 :: "bytes \<Rightarrow> bytes" where "pad3 f = replicate (3 - length f) 48 @ f"

fun quote_body :: "bytes \<Rightarrow> bytes" where
  "quote_body [] = []"
| "quote_body (c # cs) =
     (if c = 34 \<or> c = 92 \<or> c = 10 then [92, c]
      else if fmtIsCntrl c then
        92 # (if (case cs of [] \<Rightarrow> False | d # _ \<Rightarrow> 48 \<le> d \<and> d \<le> 57) then pad3 (FormatInt (uint c)) else FormatInt (uint c))
      else [c]) @ quote_body cs"

definition fmtAddQuoted :: "bytes \<Rightarrow> bytes" where "fmtAddQuoted s = [34] @ quote_body s @ [34]"

text \<open>\<open>hex\<close> is Go's \<open>%x\<close> of a float followed by \<open>fmtFixHexExp\<close>.\<close>

definition fmtQuoteFloat :: "(f64 \<Rightarrow> bytes) \<Rightarrow> f64 \<Rightarrow> bytes" where
  "fmtQuoteFloat hex n =
     (if is_inf n then (if f64_neg n then lit ''-1e9999'' else lit ''1e9999'')
      else if is_nan n then lit ''(0/0)'' else hex n)"

fun format_hex :: "nat \<Rightarrow> bytes" where
  "format_hex n = (let d = n mod 16; c = of_nat (if d < 10 then 48 + d else 87 + d) in
     if n < 16 then [c] else format_hex (n div 16) @ [c])"

declare format_hex.simps [simp del]

definition addLiteral :: "(f64 \<Rightarrow> bytes) \<Rightarrow> (f64 \<Rightarrow> bytes) \<Rightarrow> nat \<Rightarrow> Value \<Rightarrow> bytes res" where
  "addLiteral fmtg hex n v =
     (case v of
        VString s \<Rightarrow> Inr (fmtAddQuoted s)
      | VInt i \<Rightarrow> Inr (if sint i = min_int64 then lit ''0x'' @ format_hex (unat i) else numToString fmtg v)
      | VFloat f \<Rightarrow> Inr (fmtQuoteFloat hex f)
      | VNil \<Rightarrow> Inr (lit ''nil'')
      | VTrue \<Rightarrow> Inr (lit ''true'')
      | VFalse \<Rightarrow> Inr (lit ''false'')
      | _ \<Rightarrow> Inl (ArgError n ''value has no literal form''))"

subsection \<open>Running the scanner on known characters\<close>

lemma streamD:
  assumes "stream ls = c # cs"
  shows "lcurrent ls = c" "lcurrent ls \<noteq> eoz" "stream (lexNext ls) = cs"
proof -
  show "lcurrent ls \<noteq> eoz" using assms by (auto simp: stream_def)
  then show "stream (lexNext ls) = cs" using stream_next [of ls] assms by simp
  show "lcurrent ls = c" using current_stream [of ls] assms by simp
qed

lemma save_unlimited: "mx \<le> 0 \<Longrightarrow> save mx c ls = Inr (ls\<lparr>lbuff := lbuff ls @ [word_of_int c]\<rparr>)"
  by (simp add: save_def)

lemma saveAndNext_unlimited:
  "mx \<le> 0 \<Longrightarrow> saveAndNext mx ls = Inr ((lexNext ls)\<lparr>lbuff := lbuff ls @ [word_of_int (lcurrent ls)]\<rparr>)"
  by (simp add: saveAndNext_def save_unlimited)

lemmas unlimited = save_unlimited saveAndNext_unlimited

lemma escOnlySave_unlimited:
  "mx \<le> 0 \<Longrightarrow> lbuff ls = b @ [x] \<Longrightarrow> escOnlySave mx c ls = Inr (ls\<lparr>lbuff := b @ [word_of_int c]\<rparr>)"
  by (simp add: escOnlySave_def buffRemove_def unlimited)

lemma lisdigit_uint: "lisdigit (uint c) = is_digit c"
  by (auto simp: lisdigit_def is_digit_def word_le_def)

lemma digits_value_int: "is_digit c \<Longrightarrow> int (10 * r + (unat c - 48)) = 10 * int r + (uint c - 48)"
  by (simp add: is_digit_def word_le_nat_alt of_nat_diff)

lemma decesc_digits:
  assumes "mx \<le> 0"
  shows "list_all is_digit ds \<Longrightarrow> stream ls = map uint ds @ rest \<Longrightarrow> i + length ds \<le> 3 \<Longrightarrow>
    i + length ds = 3 \<or> rest = [] \<or> \<not> lisdigit (hd rest) \<Longrightarrow>
    \<exists>ls'. decesc_loop mx i (int r) ls = Inr (i + length ds, int (digits_value r ds), ls') \<and> stream ls' = rest \<and>
      lbuff ls' = lbuff ls @ ds \<and> lline ls' = lline ls"
proof (induction ds arbitrary: i r ls)
  case Nil
  then have "\<not> (i < 3 \<and> lisdigit (lcurrent ls))"
    by (cases rest) (auto simp: current_stream [of ls] eoz_def lis_defs)
  then show ?case using Nil by (subst decesc_loop.simps) auto
next
  case (Cons d ds)
  note d = streamD [of ls "uint d" "map uint ds @ rest"]
  let ?ls = "(lexNext ls)\<lparr>lbuff := lbuff ls @ [d]\<rparr>"
  obtain ls' where "decesc_loop mx (Suc i) (int (10 * r + (unat d - 48))) ?ls =
      Inr (Suc i + length ds, int (digits_value (10 * r + (unat d - 48)) ds), ls')" "stream ls' = rest"
      "lbuff ls' = lbuff ls @ d # ds" "lline ls' = lline ls"
    using Cons.IH [of ?ls "Suc i" "10 * r + (unat d - 48)"] Cons.prems d by auto
  moreover have "decesc_loop mx i (int r) ls = decesc_loop mx (Suc i) (int (10 * r + (unat d - 48))) ?ls"
    using Cons.prems d assms by (subst decesc_loop.simps) (simp add: unlimited lisdigit_uint digits_value_int del: of_nat_add of_nat_mult)
  ultimately show ?case by (auto simp: mult.commute)
qed

lemma readEscape_digit:
  "lisdigit (lcurrent ls) \<Longrightarrow> readEscape mx ls = rbind (readdecesc mx ls) (\<lambda>(r, ls). escOnlySave mx r ls)"
  by (auto simp: readEscape_def Let_def lisdigit_def eoz_def esccheck_def)

text \<open>One round of the string loop that reads the spelling of the byte \<open>c\<close>.\<close>

definition reads :: "int \<Rightarrow> lexState \<Rightarrow> byte \<Rightarrow> nat \<Rightarrow> int list \<Rightarrow> lexState \<Rightarrow> bool" where
  "reads mx ls c n rest ls' \<longleftrightarrow> string_loop mx 34 ls = string_loop mx 34 ls' \<and> stream ls' = rest \<and>
     lbuff ls' = lbuff ls @ [c] \<and> lline ls' = lline ls + n"

lemma reads_decimal:
  assumes "mx \<le> 0" "stream ls = 92 # map uint ds @ rest" "list_all is_digit ds" "ds \<noteq> []" "length ds \<le> 3"
    "length ds = 3 \<or> rest = [] \<or> \<not> lisdigit (hd rest)" "digits_value 0 ds = unat c"
  shows "\<exists>ls'. reads mx ls c 0 rest ls'"
proof -
  note s = streamD [OF assms(2)]
  let ?ls = "(lexNext ls)\<lparr>lbuff := lbuff ls @ [92]\<rparr>"
  obtain ls' where ls': "decesc_loop mx 0 0 ?ls = Inr (length ds, int (unat c), ls')" "stream ls' = rest"
      "lbuff ls' = (lbuff ls @ [92]) @ ds" "lline ls' = lline ls"
    using decesc_digits [of mx ds ?ls rest 0 0] assms s by auto
  obtain d ds' where ds: "ds = d # ds'" using assms(4) by (cases ds) auto
  have "lisdigit (lcurrent ?ls)"
    using streamD(1) [of "lexNext ls" "uint d"] s(3) ds assms(3) by (simp add: lisdigit_uint)
  moreover have "uint c \<le> 255" using uint_lt2p [of c] by simp
  ultimately have "readEscape mx ?ls = Inr (ls'\<lparr>lbuff := lbuff ls @ [c]\<rparr>)"
    using ls' assms(1) by (simp add: readEscape_digit readdecesc_def esccheck_def buffRemove_def
      escOnlySave_unlimited [of mx _ "lbuff ls" 92])
  then have "reads mx ls c 0 rest (ls'\<lparr>lbuff := lbuff ls @ [c]\<rparr>)"
    using s assms(1) ls' by (simp add: reads_def string_loop.simps [of mx 34 ls] unlimited eoz_def)
  then show ?thesis ..
qed

lemma reads_plain:
  assumes "mx \<le> 0" "stream ls = uint c # rest" "c \<notin> {34, 92, 10, 13}"
  shows "\<exists>ls'. reads mx ls c 0 rest ls'"
proof -
  note s = streamD [OF assms(2)]
  have "uint c \<noteq> 34" "uint c \<noteq> 92" "uint c \<noteq> 10" "uint c \<noteq> 13"
    using assms(3) by (auto simp: word_uint_eq_iff)
  then have "string_loop mx 34 ls = string_loop mx 34 ((lexNext ls)\<lparr>lbuff := lbuff ls @ [c]\<rparr>)"
    using s(1,2) assms(1) by (subst string_loop.simps) (simp add: unlimited)
  then have "reads mx ls c 0 rest ((lexNext ls)\<lparr>lbuff := lbuff ls @ [c]\<rparr>)"
    using s(3) by (simp add: reads_def)
  then show ?thesis ..
qed

lemma reads_backslash:
  assumes "mx \<le> 0" "stream ls = 92 # uint c # rest" "c = 34 \<or> c = 92"
  shows "\<exists>ls'. reads mx ls c 0 rest ls'"
proof -
  note s = streamD [OF assms(2)]
  note s2 = streamD [OF s(3)]
  have "readEscape mx ((lexNext ls)\<lparr>lbuff := lbuff ls @ [92]\<rparr>) = Inr ((lexNext (lexNext ls))\<lparr>lbuff := lbuff ls @ [c]\<rparr>)"
    using assms(3,1) s2(1) by (elim disjE; simp add: readEscape_def Let_def escReadSave_def escOnlySave_unlimited [of mx _ "lbuff ls" 92])
  then have "reads mx ls c 0 rest ((lexNext (lexNext ls))\<lparr>lbuff := lbuff ls @ [c]\<rparr>)"
    using s s2 assms(1) by (simp add: reads_def string_loop.simps [of mx 34 ls] unlimited eoz_def)
  then show ?thesis ..
qed

lemma reads_newline:
  assumes "mx \<le> 0" "stream ls = 92 # 10 # rest" "rest = [] \<or> hd rest \<noteq> 13" "lline ls + 1 < 2 ^ 31 - 1"
  shows "\<exists>ls'. reads mx ls 10 1 rest ls'"
proof -
  note s = streamD [OF assms(2)]
  note s2 = streamD [OF s(3)]
  have "lcurrent (lexNext (lexNext ls)) \<noteq> 13"
    using assms(3) s2(3) by (cases rest) (auto simp: current_stream [of "lexNext (lexNext ls)"] eoz_def)
  then have "inclinenumber ((lexNext ls)\<lparr>lbuff := lbuff ls @ [92]\<rparr>) =
      Inr ((lexNext (lexNext ls))\<lparr>lline := Suc (lline ls), lbuff := lbuff ls @ [92]\<rparr>)"
    using s2 assms(4) by (simp add: inclinenumber_def Let_def currIsNewline_def)
  then have "readEscape mx ((lexNext ls)\<lparr>lbuff := lbuff ls @ [92]\<rparr>) =
      Inr ((lexNext (lexNext ls))\<lparr>lline := Suc (lline ls), lbuff := lbuff ls @ [10]\<rparr>)"
    using s2 assms(1) by (simp add: readEscape_def Let_def escOnlySave_unlimited [of mx _ "lbuff ls" 92])
  then have "reads mx ls 10 1 rest ((lexNext (lexNext ls))\<lparr>lline := Suc (lline ls), lbuff := lbuff ls @ [10]\<rparr>)"
    using s s2 assms(1) by (simp add: reads_def string_loop.simps [of mx 34 ls] unlimited eoz_def)
  then show ?thesis ..
qed

subsection \<open>Reading back what was quoted\<close>

lemma hd_quote:
  "hd (map uint (quote_body cs) @ 34 # rest) \<noteq> 13"
  "lisdigit (hd (map uint (quote_body cs) @ 34 # rest)) \<Longrightarrow> (case cs of [] \<Rightarrow> False | d # _ \<Rightarrow> 48 \<le> d \<and> d \<le> 57)"
proof -
  show "hd (map uint (quote_body cs) @ 34 # rest) \<noteq> 13"
  proof (cases cs)
    case (Cons d ds)
    have "uint d = 13 \<Longrightarrow> d = 13" by (simp add: word_uint_eq_iff)
    then show ?thesis using Cons by (auto simp: fmtIsCntrl_def)
  qed simp
  show "(case cs of [] \<Rightarrow> False | d # _ \<Rightarrow> 48 \<le> d \<and> d \<le> 57)" if "lisdigit (hd (map uint (quote_body cs) @ 34 # rest))"
    using that by (cases cs) (auto simp: lisdigit_def word_le_def split: if_splits)
qed

lemma length_format_nat: "n < 1000 \<Longrightarrow> length (format_nat n) \<le> 3"
  by (simp add: format_nat.simps [of n] format_nat.simps [of "n div 10"] format_nat.simps [of "n div 10 div 10"])

lemma pad3_digits:
  assumes "n < 1000"
  shows "length (pad3 (format_nat n)) = 3" "list_all is_digit (pad3 (format_nat n))" "digits_value 0 (pad3 (format_nat n)) = n"
proof -
  have "digits_value 0 (replicate k 48) = 0" for k by (induction k) simp_all
  then show "digits_value 0 (pad3 (format_nat n)) = n" using format_nat_digits [of n] by (simp add: pad3_def digits_value_append)
  show "length (pad3 (format_nat n)) = 3" using length_format_nat [OF assms] by (simp add: pad3_def)
  show "list_all is_digit (pad3 (format_nat n))"
    using format_nat_digits [of n] by (auto simp: pad3_def is_digit_def list_all_iff)
qed

lemma reads_quoted:
  assumes "mx \<le> 0" "stream ls = map uint (quote_body (c # cs)) @ 34 # rest" "lline ls + 1 < 2 ^ 31 - 1 \<or> c \<noteq> 10"
  shows "\<exists>ls'. reads mx ls c (if c = 10 then 1 else 0) (map uint (quote_body cs) @ 34 # rest) ls'"
proof -
  let ?R = "map uint (quote_body cs) @ 34 # rest"
  let ?f = "FormatInt (uint c)" and ?next = "case cs of [] \<Rightarrow> False | d # _ \<Rightarrow> 48 \<le> d \<and> d \<le> 57"
  have f: "?f = format_nat (unat c)" by (simp add: FormatInt_def nat_uint_eq)
  have n: "unat c < 1000" using unsigned_less [of c, where 'a = nat] by simp
  note fmt = format_nat_digits [of "unat c"] length_format_nat [OF n] pad3_digits [OF n]
  consider "c = 10" | "c = 34 \<or> c = 92" | "c \<notin> {34, 92, 10}" "fmtIsCntrl c" | "c \<notin> {34, 92, 10}" "\<not> fmtIsCntrl c" by blast
  then show ?thesis
  proof cases
    case 1
    then show ?thesis using reads_newline [of mx ls ?R] assms hd_quote(1) [of cs rest] by simp
  next
    case 2
    then show ?thesis using reads_backslash [of mx ls c ?R] assms(1,2) by auto
  next
    case 3
    define ds where "ds = (if ?next then pad3 ?f else ?f)"
    have "stream ls = 92 # map uint ds @ ?R" using assms(2) 3 by (simp add: ds_def)
    moreover have "list_all is_digit ds" "ds \<noteq> []" "length ds \<le> 3" "digits_value 0 ds = unat c"
      using fmt by (auto simp: ds_def f)
    moreover have "length ds = 3 \<or> ?R = [] \<or> \<not> lisdigit (hd ?R)"
      using hd_quote(2) [of cs rest] fmt by (auto simp: ds_def f)
    ultimately show ?thesis using reads_decimal [OF assms(1), of ls ds ?R c] 3(1) by auto
  next
    case 4
    then have "c \<noteq> 13" by (auto simp: fmtIsCntrl_def)
    then show ?thesis using reads_plain [of mx ls c ?R] assms(1,2) 4 by auto
  qed
qed

lemma string_loop_quoted:
  assumes "mx \<le> 0"
  shows "stream ls = map uint (quote_body s) @ 34 # rest \<Longrightarrow> lline ls + count_list s 10 < 2 ^ 31 - 1 \<Longrightarrow>
    \<exists>ls'. string_loop mx 34 ls = Inr ls' \<and> stream ls' = 34 # rest \<and> lbuff ls' = lbuff ls @ s \<and>
      lline ls' = lline ls + count_list s 10"
proof (induction s arbitrary: ls)
  case Nil
  then show ?case using streamD(1) [of ls 34 rest] by (subst string_loop.simps) auto
next
  case (Cons c cs)
  obtain ls1 where r: "reads mx ls c (if c = 10 then 1 else 0) (map uint (quote_body cs) @ 34 # rest) ls1"
    using reads_quoted [OF assms Cons.prems(1)] Cons.prems(2) by (auto split: if_splits)
  then show ?case using Cons.IH [of ls1] Cons.prems(2) by (fastforce simp: reads_def split: if_splits)
qed

text \<open>
  C20: a string written by the option \<open>%q\<close> of \<open>string.format\<close> is one string token that holds the same bytes, whatever
  the bytes are and whatever follows the literal: quotes, backslashes, control characters before digits and line
  ends survive, and the lines are counted.
\<close>

theorem quoted_roundtrip:
  assumes "mx \<le> 0" and "count_list s 10 < 2 ^ 31 - 2"
  shows "\<exists>lit ls'. addLiteral fmtg hex n (VString s) = Inr lit \<and> llex mx pf t (newLexState (lit @ rest) src) = Inr (tkString, t\<lparr>tk_str := s\<rparr>, ls') \<and>
    stream ls' = map uint rest \<and> lline ls' = 1 + count_list s 10"
proof -
  let ?ls = "resetBuffer (newLexState (fmtAddQuoted s @ rest) src)"
  have st: "stream ?ls = 34 # map uint (quote_body s) @ 34 # map uint rest" "lline ?ls = 1" "lbuff ?ls = []"
    by (simp_all add: newLexState_def newLexStateZIO_def lexNext_stream resetBuffer_def fmtAddQuoted_def)
  note s = streamD [OF st(1)]
  let ?ls1 = "(lexNext ?ls)\<lparr>lbuff := [34]\<rparr>"
  obtain ls2 where ls2: "string_loop mx 34 ?ls1 = Inr ls2" "stream ls2 = 34 # map uint rest" "lbuff ls2 = [34] @ s"
      "lline ls2 = 1 + count_list s 10"
    using string_loop_quoted [OF assms(1), of ?ls1 s "map uint rest"] s(3) st(2) assms(2) by auto
  note s2 = streamD [OF ls2(2)]
  have "readString mx 34 t ?ls = Inr (t\<lparr>tk_str := s\<rparr>, (lexNext ls2)\<lparr>lbuff := [34] @ s @ [34]\<rparr>)"
    using assms(1) s(1) st(3) s2 ls2 by (simp add: readString_def unlimited slice_def)
  then have "llex mx pf t (newLexState (fmtAddQuoted s @ rest) src) =
      Inr (tkString, t\<lparr>tk_str := s\<rparr>, (lexNext ls2)\<lparr>lbuff := [34] @ s @ [34]\<rparr>)"
    unfolding llex_def by (subst llex_loop.simps) (simp add: s(1))
  then show ?thesis using s2 ls2 by (simp add: addLiteral_def)
qed

theorem quoted_roundtrip_witness:
  "\<exists>lit ls'. addLiteral (\<lambda>_. []) (\<lambda>_. []) 1 (VString [34, 10, 1, 49]) = Inr lit \<and>
     llex 0 (\<lambda>_. (0, None)) \<lparr>tk_kind = 0, tk_num = VNil, tk_str = []\<rparr> (newLexState (lit @ [32]) []) =
       Inr (tkString, \<lparr>tk_kind = 0, tk_num = VNil, tk_str = [34, 10, 1, 49]\<rparr>, ls') \<and>
     stream ls' = [32] \<and> lline ls' = Suc 1"
  using quoted_roundtrip [of 0 "[34, 10, 1, 49]" "\<lambda>_. []" "\<lambda>_. []" 1 "\<lambda>_. (0, None)"
    "\<lparr>tk_kind = 0, tk_num = VNil, tk_str = []\<rparr>" "[32]" "[]"] by simp

text \<open>The word loop, on a word that is not continued.\<close>

lemma word_loop_word:
  assumes "mx \<le> 0"
  shows "w \<noteq> [] \<Longrightarrow> \<forall>c \<in> set (tl w). lisalnum (uint c) \<Longrightarrow> stream ls = map uint w @ rest \<Longrightarrow>
    rest = [] \<or> \<not> lisalnum (hd rest) \<Longrightarrow>
    \<exists>ls'. word_loop mx ls = Inr ls' \<and> stream ls' = rest \<and> lbuff ls' = lbuff ls @ w \<and> lline ls' = lline ls"
proof (induction w arbitrary: ls)
  case (Cons c w)
  note s = streamD [of ls "uint c" "map uint w @ rest"]
  let ?ls = "(lexNext ls)\<lparr>lbuff := lbuff ls @ [c]\<rparr>"
  have st: "stream ?ls = map uint w @ rest" "saveAndNext mx ls = Inr ?ls"
    using s Cons.prems(3) assms by (simp_all add: unlimited)
  show ?case
  proof (cases w)
    case Nil
    then have "\<not> lisalnum (lcurrent ?ls)"
      using st(1) Cons.prems(4) by (cases rest) (auto simp: current_stream [of "lexNext ls"] eoz_def lis_defs)
    then show ?thesis using st Nil s Cons.prems(3) by (subst word_loop.simps) auto
  next
    case (Cons d w')
    then have "lisalnum (lcurrent ?ls)" using st(1) Cons.prems(2) by (simp add: current_stream [of "lexNext ls"])
    then have "word_loop mx ls = word_loop mx ?ls" using st(2) by (subst word_loop.simps) simp
    then show ?thesis using Cons.IH [of ?ls] st Cons.prems Cons by auto
  qed
qed simp

lemma reserved_word:
  "map_of reservedWords w = Some k \<Longrightarrow> lit (luaXTokens ! nat (k - firstReserved)) = w \<and> token2str k = Inr (quoted (luaXTokens ! nat (k - firstReserved)))"
  "map_of reservedWords w = None \<longleftrightarrow> w \<notin> lit ` set (take numReserved luaXTokens)"
proof -
  have l: "length luaXTokens = 37" "numReserved = 22" by (simp_all add: luaXTokens_def numReserved_def tk_defs)
  show "lit (luaXTokens ! nat (k - firstReserved)) = w \<and> token2str k = Inr (quoted (luaXTokens ! nat (k - firstReserved)))"
    if "map_of reservedWords w = Some k"
    using map_of_SomeD [OF that] by (auto simp: reservedWords_def token2str_def Let_def tk_defs l)
  show "map_of reservedWords w = None \<longleftrightarrow> w \<notin> lit ` set (take numReserved luaXTokens)"
  proof -
    have "map fst reservedWords = map lit (take numReserved luaXTokens)"
      by (rule nth_equalityI) (simp_all add: reservedWords_def l)
    then have "fst ` set reservedWords = lit ` set (take numReserved luaXTokens)" by (metis set_map)
    then show ?thesis by (simp add: map_of_eq_None_iff)
  qed
qed

text \<open>
  A word (a letter or underscore, then letters, underscores and digits) that ends at another character or at the
  end of the input is one token: the reserved word of that spelling, which error messages print as the word in
  quotes, or else a name with the bytes of the word.
\<close>

lemma word_lexes:
  assumes "mx \<le> 0" "w \<noteq> []" "lisalpha (uint (hd w))" "\<forall>c \<in> set (tl w). lisalnum (uint c)"
    and "rest = [] \<or> \<not> lisalnum (uint (hd rest))"
  shows "\<exists>k ls'. llex mx pf t (newLexState (w @ rest) src) = Inr (k, t\<lparr>tk_str := w\<rparr>, ls') \<and> stream ls' = map uint rest \<and>
    (if w \<in> lit ` set (take numReserved luaXTokens)
     then k \<in> {firstReserved..tkWhile} \<and> (\<exists>s. w = lit s \<and> token2str k = Inr (quoted s)) else k = tkName)"
proof -
  let ?ls = "resetBuffer (newLexState (w @ rest) src)"
  have st: "stream ?ls = map uint w @ map uint rest" "lbuff ?ls = []"
    by (simp_all add: newLexState_def newLexStateZIO_def lexNext_stream resetBuffer_def)
  obtain ls' where ls': "word_loop mx ?ls = Inr ls'" "stream ls' = map uint rest" "lbuff ls' = w"
    using word_loop_word [OF assms(1,2,4) st(1)] assms(5) st(2) by (cases rest) auto
  let ?k = "case map_of reservedWords w of Some kind \<Rightarrow> kind | None \<Rightarrow> tkName"
  have "map uint w = uint (hd w) # map uint (tl w)" using assms(2) by (cases w) simp_all
  then have c: "lisalpha (lcurrent ?ls)"
    using streamD(1) [of ?ls "uint (hd w)" "map uint (tl w) @ map uint rest"] st(1) assms(3) by simp
  then have "llex mx pf t (newLexState (w @ rest) src) = Inr (?k, t\<lparr>tk_str := w\<rparr>, ls')"
    unfolding llex_def by (subst llex_loop.simps) (auto simp: ls' lis_defs eoz_def)
  moreover have "if w \<in> lit ` set (take numReserved luaXTokens)
     then ?k \<in> {firstReserved..tkWhile} \<and> (\<exists>s. w = lit s \<and> token2str ?k = Inr (quoted s)) else ?k = tkName"
    using reserved_word [of w] reserved_kind [of w] by (cases "map_of reservedWords w") (auto, metis)
  ultimately show ?thesis using ls'(2) by blast
qed

lemma word_lexes_witness:
  "\<exists>k ls'. llex 0 (\<lambda>_. (0, None)) \<lparr>tk_kind = 0, tk_num = VNil, tk_str = []\<rparr> (newLexState (lit ''end'' @ [59]) []) =
      Inr (k, \<lparr>tk_kind = 0, tk_num = VNil, tk_str = lit ''end''\<rparr>, ls') \<and> stream ls' = [59] \<and> k \<in> {257..278}"
  using word_lexes [of 0 "lit ''end''" "[59]" "\<lambda>_. (0, None)" "\<lparr>tk_kind = 0, tk_num = VNil, tk_str = []\<rparr>" "[]"]
  by (simp add: lit_def lis_defs luaXTokens_def numReserved_def tk_defs) blast

end
