(* ===== verification/CodeGen.thy ===== *)
theory CodeGen
  imports Opcodes Numerals Dump
begin

text \<open>
  The code generator (lcode.go): the register allocator, the constant table, expression descriptors, jump
  lists and the code of operators. A function of the source is a function \<open>gen\<close> of the state of the function
  under compilation: \<open>Some (Inl e)\<close> is a compile error or a Go panic, and \<open>None\<close> a loop over a jump list that does
  not end. An \<open>expdesc\<close> that the code updates through a pointer is passed and returned. A \<open>FuncState\<close> holds the
  fields of its prototype that the generator fills, and the shared \<open>compiler\<close>, which the code reaches through a
  pointer. Go's \<open>int\<close> is unbounded.
\<close>

subsection \<open>Constants\<close>

definition noJump :: int where "noJump = -1"
definition NoReg :: int where "NoReg = MaxArgA"
definition maxIndexRK :: int where "maxIndexRK = MaxArgB"
definition maxRegisters :: int where "maxRegisters = 255"
definition maxVars :: int where "maxVars = 200"
definition maxUpvalues :: int where "maxUpvalues = 255"
definition multiRet :: int where "multiRet = -1"

definition VarKindReg :: byte where "VarKindReg = 0"
definition VarKindConst :: byte where "VarKindConst = 1"
definition VarKindToClose :: byte where "VarKindToClose = 2"
definition VarKindCTConst :: byte where "VarKindCTConst = 3"

abbreviation (input) TM_ADD :: int where "TM_ADD \<equiv> 6"
abbreviation (input) TM_SUB :: int where "TM_SUB \<equiv> 7"
abbreviation (input) TM_SHL :: int where "TM_SHL \<equiv> 16"
abbreviation (input) TM_SHR :: int where "TM_SHR \<equiv> 17"

text \<open>\<open>BinOpr\<close> and \<open>UnOpr\<close> are Go ints, with which the code computes.\<close>

abbreviation (input) OPR_ADD :: int where "OPR_ADD \<equiv> 0"
abbreviation (input) OPR_SUB :: int where "OPR_SUB \<equiv> 1"
abbreviation (input) OPR_MUL :: int where "OPR_MUL \<equiv> 2"
abbreviation (input) OPR_MOD :: int where "OPR_MOD \<equiv> 3"
abbreviation (input) OPR_POW :: int where "OPR_POW \<equiv> 4"
abbreviation (input) OPR_DIV :: int where "OPR_DIV \<equiv> 5"
abbreviation (input) OPR_IDIV :: int where "OPR_IDIV \<equiv> 6"
abbreviation (input) OPR_BAND :: int where "OPR_BAND \<equiv> 7"
abbreviation (input) OPR_BOR :: int where "OPR_BOR \<equiv> 8"
abbreviation (input) OPR_BXOR :: int where "OPR_BXOR \<equiv> 9"
abbreviation (input) OPR_SHL :: int where "OPR_SHL \<equiv> 10"
abbreviation (input) OPR_SHR :: int where "OPR_SHR \<equiv> 11"
abbreviation (input) OPR_CONCAT :: int where "OPR_CONCAT \<equiv> 12"
abbreviation (input) OPR_EQ :: int where "OPR_EQ \<equiv> 13"
abbreviation (input) OPR_LT :: int where "OPR_LT \<equiv> 14"
abbreviation (input) OPR_LE :: int where "OPR_LE \<equiv> 15"
abbreviation (input) OPR_NE :: int where "OPR_NE \<equiv> 16"
abbreviation (input) OPR_GT :: int where "OPR_GT \<equiv> 17"
abbreviation (input) OPR_GE :: int where "OPR_GE \<equiv> 18"
abbreviation (input) OPR_AND :: int where "OPR_AND \<equiv> 19"
abbreviation (input) OPR_OR :: int where "OPR_OR \<equiv> 20"

definition foldbinop :: "int \<Rightarrow> bool" where "foldbinop opr = (opr \<le> OPR_SHR)"

abbreviation (input) OPR_MINUS :: int where "OPR_MINUS \<equiv> 0"
abbreviation (input) OPR_BNOT :: int where "OPR_BNOT \<equiv> 1"
abbreviation (input) OPR_NOT :: int where "OPR_NOT \<equiv> 2"
abbreviation (input) OPR_LEN :: int where "OPR_LEN \<equiv> 3"

text \<open>The operation codes of lvm_arith.go in their order: \<open>OpAdd\<close> is 0, \<open>OpUnm\<close> is 12.\<close>

definition arith_ops :: "arith_op list" where
  "arith_ops = [OpAdd, OpSub, OpMul, OpMod, OpPow, OpDiv, OpIDiv, OpBAnd, OpBOr, OpBXor, OpShl, OpShr, OpUnm, OpBNot]"

subsection \<open>Expression descriptors\<close>

datatype expkind = VVOID | VNIL | VTRUE | VFALSE | VK | VKFLT | VKINT | VKSTR | VNONRELOC | VLOCAL | VUPVAL | VCONST
  | VINDEXED | VINDEXUP | VINDEXI | VINDEXSTR | VJMP | VRELOC | VCALL | VVARARG

definition vkisvar :: "expkind \<Rightarrow> bool" where
  "vkisvar k = (k \<in> {VLOCAL, VUPVAL, VCONST, VINDEXED, VINDEXUP, VINDEXI, VINDEXSTR})"

definition vkisindexed :: "expkind \<Rightarrow> bool" where
  "vkisindexed k = (k \<in> {VINDEXED, VINDEXUP, VINDEXI, VINDEXSTR})"

record expdesc =
  e_k :: expkind
  e_ival :: i64
  e_nval :: f64
  e_strval :: bytes
  e_info :: int
  e_idx :: int
  e_ind :: int
  e_ridx :: int
  e_vidx :: nat
  e_t :: int
  e_f :: int

definition hasJumps :: "expdesc \<Rightarrow> bool" where "hasJumps e = (e_t e \<noteq> e_f e)"

definition initExp :: "expdesc \<Rightarrow> expkind \<Rightarrow> int \<Rightarrow> expdesc" where
  "initExp e k info = e\<lparr>e_t := noJump, e_f := noJump, e_k := k, e_info := info\<rparr>"

definition zero_exp :: expdesc where
  "zero_exp = \<lparr>e_k = VVOID, e_ival = 0, e_nval = 0, e_strval = [], e_info = 0, e_idx = 0, e_ind = 0, e_ridx = 0,
     e_vidx = 0, e_t = 0, e_f = 0\<rparr>"

definition codestring :: "expdesc \<Rightarrow> bytes \<Rightarrow> expdesc" where
  "codestring e s = e\<lparr>e_t := noJump, e_f := noJump, e_k := VKSTR, e_strval := s\<rparr>"

subsection \<open>The state\<close>

record varDesc =
  vd_kind :: byte
  vd_ridx :: int
  vd_pidx :: nat
  vd_name :: bytes
  vd_val :: Value

record labelDesc =
  lb_name :: bytes
  lb_pc :: int
  lb_line :: int
  lb_nactvar :: nat
  lb_close :: bool

record blockCnt =
  bl_firstlabel :: nat
  bl_firstgoto :: nat
  bl_nactvar :: nat
  bl_upval :: bool
  bl_isloop :: bool
  bl_insidetbc :: bool

text \<open>The key of a constant: its tag, its scalar and its string.\<close>

type_synonym constKey = "vtag \<times> 64 word \<times> bytes"

record compiler =
  c_actvar :: "varDesc list"
  c_nactvar :: nat
  c_gt :: "labelDesc list"
  c_label :: "labelDesc list"
  c_source :: bytes
  c_envName :: bytes
  c_kcache :: "constKey \<Rightarrow> nat option"

record FuncState =
  fs_Code :: "Instruction list"
  fs_LineInfo :: "32 word list"
  fs_Constants :: "Value list"
  fs_MaxStackSize :: byte
  fs_IsVararg :: bool
  fs_NumParams :: byte
  fs_LineDefined :: int
  fs_LocVars :: "LocVar list"
  fs_Upvalues :: "UpvalDesc list"
  fs_Protos :: "Proto list"
  fs_pc :: int
  fs_lasttarget :: int
  fs_freereg :: int
  fs_lastline :: int
  fs_needclose :: bool
  fs_ls :: compiler
  fs_bl :: "blockCnt list"
  fs_nactvar :: nat
  fs_nups :: nat
  fs_firstlocal :: nat
  fs_firstlabel :: nat
  fs_ndebugvars :: nat

text \<open>\<open>newFuncState\<close> on a fresh prototype.\<close>

definition newFuncState :: "compiler \<Rightarrow> FuncState" where
  "newFuncState c =
     \<lparr>fs_Code = [], fs_LineInfo = [], fs_Constants = [], fs_MaxStackSize = 0, fs_IsVararg = False, fs_NumParams = 0,
      fs_LineDefined = 0, fs_LocVars = [], fs_Upvalues = [], fs_Protos = [], fs_pc = 0, fs_lasttarget = 0, fs_freereg = 0,
      fs_lastline = 0, fs_needclose = False, fs_ls = c, fs_bl = [], fs_nactvar = 0, fs_nups = 0, fs_firstlocal = 0,
      fs_firstlabel = 0, fs_ndebugvars = 0\<rparr>"

type_synonym 'a gen = "FuncState \<Rightarrow> ('a \<times> FuncState) res option"

definition gret :: "'a \<Rightarrow> 'a gen" where "gret x fs = Some (Inr (x, fs))"

definition gbind :: "'a gen \<Rightarrow> ('a \<Rightarrow> 'b gen) \<Rightarrow> 'b gen" where
  "gbind m k fs = (case m fs of None \<Rightarrow> None | Some (Inl e) \<Rightarrow> Some (Inl e) | Some (Inr (x, fs')) \<Rightarrow> k x fs')"

definition gseq :: "'a gen \<Rightarrow> 'b gen \<Rightarrow> 'b gen" where "gseq m k = gbind m (\<lambda>_. k)"

definition gget :: "(FuncState \<Rightarrow> 'a) \<Rightarrow> 'a gen" where "gget f fs = Some (Inr (f fs, fs))"

definition gmod :: "(FuncState \<Rightarrow> FuncState) \<Rightarrow> unit gen" where "gmod f fs = Some (Inr ((), f fs))"

definition gpanic :: "'a gen" where "gpanic fs = Some (Inl GoPanic)"

definition glift :: "'a res \<Rightarrow> 'a gen" where
  "glift r fs = (case r of Inl e \<Rightarrow> Some (Inl e) | Inr x \<Rightarrow> Some (Inr (x, fs)))"

definition gwhen :: "bool \<Rightarrow> unit gen \<Rightarrow> unit gen" where "gwhen b m = (if b then m else gret ())"

definition fs_syntaxError :: "string \<Rightarrow> 'a gen" where
  "fs_syntaxError msg fs = Some (Inl (CompileError msg (nat (fs_lastline fs))))"

text \<open>Instructions and constants by index: a Go panic out of range.\<close>

definition instr_at :: "int \<Rightarrow> Instruction gen" where
  "instr_at pc fs = (if 0 \<le> pc \<and> pc < int (length (fs_Code fs)) then Some (Inr (fs_Code fs ! nat pc, fs)) else Some (Inl GoPanic))"

definition set_instr :: "int \<Rightarrow> Instruction \<Rightarrow> unit gen" where
  "set_instr pc i fs =
     (if 0 \<le> pc \<and> pc < int (length (fs_Code fs)) then Some (Inr ((), fs\<lparr>fs_Code := (fs_Code fs)[nat pc := i]\<rparr>)) else Some (Inl GoPanic))"

definition mod_instr :: "int \<Rightarrow> (Instruction \<Rightarrow> Instruction) \<Rightarrow> unit gen" where
  "mod_instr pc f = gbind (instr_at pc) (\<lambda>i. set_instr pc (f i))"

text \<open>The register level above the \<open>n\<close> first active variables; the compile-time constants have no register.\<close>

primrec reglevel :: "nat \<Rightarrow> int gen" where
  "reglevel 0 = gret 0"
| "reglevel (Suc n) = (\<lambda>fs.
     let i = fs_firstlocal fs + n in
     if i < length (c_actvar (fs_ls fs)) then
       (let vd = c_actvar (fs_ls fs) ! i in if vd_kind vd \<noteq> VarKindCTConst then gret (vd_ridx vd + 1) fs else reglevel n fs)
     else gpanic fs)"

definition nvarstack :: "int gen" where "nvarstack = gbind (gget fs_nactvar) reglevel"

definition kres :: "int \<Rightarrow> Value gen" where
  "kres info fs =
     (if 0 \<le> info \<and> info < int (length (c_actvar (fs_ls fs))) then gret (vd_val (c_actvar (fs_ls fs) ! nat info)) fs else gpanic fs)"

subsection \<open>Constants of the function\<close>

fun constKeyOf :: "Value \<Rightarrow> constKey" where
  "constKeyOf (VString s) = (tagString, 0, s)"
| "constKeyOf (VInt i) = (tagInt, i, [])"
| "constKeyOf (VFloat f) = (tagFloat, f, [])"
| "constKeyOf v = (tag v, 0, [])"

definition addk :: "Value \<Rightarrow> int gen" where
  "addk v fs =
     (let key = constKeyOf v; ks = fs_Constants fs in
      case (case c_kcache (fs_ls fs) key of None \<Rightarrow> None
            | Some idx \<Rightarrow> if idx < length ks \<and> constKeyOf (ks ! idx) = key then Some idx else None) of
        Some idx \<Rightarrow> gret (int idx) fs
      | None \<Rightarrow>
          if int (length ks) \<ge> MaxArgAx then
            fs_syntaxError (''too many constants (limit is '' @ map (\<lambda>b. char_of (unat b)) (FormatInt MaxArgAx) @ '')'') fs
          else gret (int (length ks))
            (fs\<lparr>fs_Constants := ks @ [v], fs_ls := (fs_ls fs)\<lparr>c_kcache := (c_kcache (fs_ls fs))(key \<mapsto> length ks)\<rparr>\<rparr>))"

definition stringK :: "bytes \<Rightarrow> int gen" where "stringK s = addk (VString s)"
definition intK :: "i64 \<Rightarrow> int gen" where "intK n = addk (VInt n)"
definition numberK :: "f64 \<Rightarrow> int gen" where "numberK n = addk (VFloat n)"
definition boolF :: "int gen" where "boolF = addk VFalse"
definition boolT :: "int gen" where "boolT = addk VTrue"
definition nilK :: "int gen" where "nilK = addk VNil"

subsection \<open>Numerals\<close>

definition nvalue :: "Value \<Rightarrow> f64" where
  "nvalue v = (case v of VInt i \<Rightarrow> f64_of_int (sint i) | VFloat f \<Rightarrow> f | _ \<Rightarrow> 0)"

definition tonumeral :: "expdesc \<Rightarrow> Value option" where
  "tonumeral e =
     (if hasJumps e then None
      else case e_k e of VKINT \<Rightarrow> Some (VInt (e_ival e)) | VKFLT \<Rightarrow> Some (VFloat (e_nval e)) | _ \<Rightarrow> None)"

definition luaK_exp2const :: "expdesc \<Rightarrow> Value option gen" where
  "luaK_exp2const e =
     (if hasJumps e then gret None
      else case e_k e of
        VFALSE \<Rightarrow> gret (Some VFalse)
      | VTRUE \<Rightarrow> gret (Some VTrue)
      | VNIL \<Rightarrow> gret (Some VNil)
      | VKSTR \<Rightarrow> gret (Some (VString (e_strval e)))
      | VCONST \<Rightarrow> gbind (kres (e_info e)) (\<lambda>v. gret (Some v))
      | _ \<Rightarrow> gret (tonumeral e))"

definition const2exp :: "Value \<Rightarrow> expdesc \<Rightarrow> expdesc gen" where
  "const2exp v e =
     (case v of
        VInt i \<Rightarrow> gret (e\<lparr>e_k := VKINT, e_ival := i\<rparr>)
      | VFloat f \<Rightarrow> gret (e\<lparr>e_k := VKFLT, e_nval := f\<rparr>)
      | VFalse \<Rightarrow> gret (e\<lparr>e_k := VFALSE\<rparr>)
      | VTrue \<Rightarrow> gret (e\<lparr>e_k := VTRUE\<rparr>)
      | VNil \<Rightarrow> gret (e\<lparr>e_k := VNIL\<rparr>)
      | VString s \<Rightarrow> gret (e\<lparr>e_k := VKSTR, e_strval := s\<rparr>)
      | _ \<Rightarrow> gpanic)"

subsection \<open>Emission\<close>

text \<open>The pc of the previous instruction when no jump may target the place behind it.\<close>

definition previousInstruction :: "FuncState \<Rightarrow> int option" where
  "previousInstruction fs = (if fs_pc fs > 0 \<and> fs_pc fs > fs_lasttarget fs then Some (fs_pc fs - 1) else None)"

definition luaK_code :: "Instruction \<Rightarrow> int gen" where
  "luaK_code i fs =
     (let fs = fs\<lparr>fs_Code := fs_Code fs @ [i], fs_LineInfo := fs_LineInfo fs @ [word_of_int (fs_lastline fs)]\<rparr>;
          fs = fs\<lparr>fs_pc := int (length (fs_Code fs))\<rparr> in gret (fs_pc fs - 1) fs)"

definition codeABCk :: "OpCode \<Rightarrow> int \<Rightarrow> int \<Rightarrow> int \<Rightarrow> int \<Rightarrow> int gen" where
  "codeABCk opc a b c k = luaK_code (CreateABCk opc a b c k)"
definition codeABC :: "OpCode \<Rightarrow> int \<Rightarrow> int \<Rightarrow> int \<Rightarrow> int gen" where
  "codeABC opc a b c = codeABCk opc a b c 0"
definition codeABx :: "OpCode \<Rightarrow> int \<Rightarrow> int \<Rightarrow> int gen" where
  "codeABx opc a bx = luaK_code (CreateABx opc a bx)"
definition codeAsBx :: "OpCode \<Rightarrow> int \<Rightarrow> int \<Rightarrow> int gen" where
  "codeAsBx opc a sbx = luaK_code (CreateABx opc a (sbx + OffsetsBx))"
definition codesJ :: "OpCode \<Rightarrow> int \<Rightarrow> int \<Rightarrow> int gen" where
  "codesJ opc sj k = luaK_code (CreatesJ opc sj k)"
definition codeextraarg :: "int \<Rightarrow> int gen" where
  "codeextraarg a = luaK_code (CreateAx OP_EXTRAARG a)"

definition codek :: "int \<Rightarrow> int \<Rightarrow> int gen" where
  "codek reg k =
     (if k \<le> MaxArgBx then codeABx OP_LOADK reg k
      else gbind (codeABx OP_LOADKX reg 0) (\<lambda>p. gseq (codeextraarg k) (gret p)))"

definition removelastlineinfo :: "unit gen" where
  "removelastlineinfo fs =
     (if fs_LineInfo fs = [] then gpanic fs else gret () (fs\<lparr>fs_LineInfo := butlast (fs_LineInfo fs)\<rparr>))"

definition removelastinstruction :: "unit gen" where
  "removelastinstruction = gseq removelastlineinfo (\<lambda>fs.
     if 0 \<le> fs_pc fs - 1 \<and> fs_pc fs - 1 \<le> int (length (fs_Code fs))
     then gret () (fs\<lparr>fs_Code := take (nat (fs_pc fs - 1)) (fs_Code fs), fs_pc := fs_pc fs - 1\<rparr>) else gpanic fs)"

definition luaK_fixline :: "int \<Rightarrow> unit gen" where
  "luaK_fixline line fs =
     (if 0 \<le> fs_pc fs - 1 \<and> fs_pc fs - 1 < int (length (fs_LineInfo fs))
      then gret () (fs\<lparr>fs_LineInfo := (fs_LineInfo fs)[nat (fs_pc fs - 1) := word_of_int line]\<rparr>) else gpanic fs)"

subsection \<open>Registers\<close>

definition checkStack :: "int \<Rightarrow> unit gen" where
  "checkStack n fs =
     (let newstack = fs_freereg fs + n in
      if newstack > uint (fs_MaxStackSize fs) then
        (if newstack \<ge> maxRegisters then fs_syntaxError ''function or expression needs too many registers'' fs
         else gret () (fs\<lparr>fs_MaxStackSize := word_of_int newstack\<rparr>))
      else gret () fs)"

definition reserveRegs :: "int \<Rightarrow> unit gen" where
  "reserveRegs n = gseq (checkStack n) (gmod (\<lambda>fs. fs\<lparr>fs_freereg := fs_freereg fs + n\<rparr>))"

definition freeReg :: "int \<Rightarrow> unit gen" where
  "freeReg reg = gbind nvarstack (\<lambda>n. gwhen (reg \<ge> n) (gmod (\<lambda>fs. fs\<lparr>fs_freereg := fs_freereg fs - 1\<rparr>)))"

definition freeRegs :: "int \<Rightarrow> int \<Rightarrow> unit gen" where
  "freeRegs r1 r2 = (if r1 > r2 then gseq (freeReg r1) (freeReg r2) else gseq (freeReg r2) (freeReg r1))"

definition freeExp :: "expdesc \<Rightarrow> unit gen" where
  "freeExp e = gwhen (e_k e = VNONRELOC) (freeReg (e_info e))"

definition freeExps :: "expdesc \<Rightarrow> expdesc \<Rightarrow> unit gen" where
  "freeExps e1 e2 =
     freeRegs (if e_k e1 = VNONRELOC then e_info e1 else -1) (if e_k e2 = VNONRELOC then e_info e2 else -1)"

subsection \<open>Loads of constants\<close>

definition fitsBx :: "i64 \<Rightarrow> bool" where
  "fitsBx i = (- OffsetsBx \<le> sint i \<and> sint i \<le> MaxArgBx - OffsetsBx)"

definition fitsC :: "i64 \<Rightarrow> bool" where
  "fitsC i = (i + word_of_int OffsetsC \<le> word_of_int MaxArgC)"

definition luaK_int :: "int \<Rightarrow> i64 \<Rightarrow> int gen" where
  "luaK_int reg i =
     (if fitsBx i then codeAsBx OP_LOADI reg (sint i) else gbind (intK i) (codek reg))"

definition luaK_float :: "int \<Rightarrow> f64 \<Rightarrow> int gen" where
  "luaK_float reg f =
     (case fltToIntEq f of
        Some fi \<Rightarrow> if fitsBx fi then codeAsBx OP_LOADF reg (sint fi) else gbind (numberK f) (codek reg)
      | None \<Rightarrow> gbind (numberK f) (codek reg))"

definition luaK_nil :: "int \<Rightarrow> int \<Rightarrow> unit gen" where
  "luaK_nil from n fs =
     (let l = from + n - 1; emit = gseq (codeABC OP_LOADNIL from (n - 1) 0) (gret ()) in
      case previousInstruction fs of
        None \<Rightarrow> emit fs
      | Some p \<Rightarrow> gbind (instr_at p) (\<lambda>prev.
          if GetOpCode prev = OP_LOADNIL then
            (let pfrom = GetArgA prev; pl = pfrom + GetArgB prev in
             if (pfrom \<le> from \<and> from \<le> pl + 1) \<or> (from \<le> pfrom \<and> pfrom \<le> l + 1) then
               (let from = (if pfrom < from then pfrom else from); l = (if pl > l then pl else l) in
                set_instr p (SetArgB (SetArgA prev from) (l - from)))
             else emit)
          else emit) fs)"

subsection \<open>Jump lists\<close>

definition getJump :: "int \<Rightarrow> int gen" where
  "getJump pc = gbind (instr_at pc) (\<lambda>i.
     let offset = GetArgsJ i in gret (if offset = noJump then noJump else pc + 1 + offset))"

definition fixJump :: "int \<Rightarrow> int \<Rightarrow> unit gen" where
  "fixJump pc dest = gbind (instr_at pc) (\<lambda>i.
     let offset = dest - (pc + 1) in
     if \<not> (- OffsetsJ \<le> offset \<and> offset \<le> MaxArgJ - OffsetsJ) then fs_syntaxError ''control structure too long''
     else set_instr pc (SetArgsJ i offset))"

text \<open>The last jump of a list.\<close>

partial_function (option) last_jump :: "int \<Rightarrow> FuncState \<Rightarrow> (int \<times> FuncState) res option" where
  "last_jump list fs =
     (case getJump list fs of
        None \<Rightarrow> None
      | Some r \<Rightarrow> (case r of
          Inl e \<Rightarrow> Some (Inl e)
        | Inr p \<Rightarrow> if fst p = noJump then Some (Inr (list, snd p)) else last_jump (fst p) (snd p)))"

declare last_jump.simps [code]

text \<open>\<open>luaK_concat(&l1, l2)\<close> returns the new \<open>l1\<close>.\<close>

definition luaK_concat :: "int \<Rightarrow> int \<Rightarrow> int gen" where
  "luaK_concat l1 l2 =
     (if l2 = noJump then gret l1
      else if l1 = noJump then gret l2
      else gbind (last_jump l1) (\<lambda>list. gseq (fixJump list l2) (gret l1)))"

definition luaK_jump :: "int gen" where "luaK_jump = codesJ OP_JMP noJump 0"

definition luaK_ret :: "int \<Rightarrow> int \<Rightarrow> unit gen" where
  "luaK_ret first nret =
     gseq (codeABC (if nret = 0 then OP_RETURN0 else if nret = 1 then OP_RETURN1 else OP_RETURN) first (nret + 1) 0) (gret ())"

definition condjump :: "OpCode \<Rightarrow> int \<Rightarrow> int \<Rightarrow> int \<Rightarrow> int \<Rightarrow> int gen" where
  "condjump opc a b c k = gseq (codeABCk opc a b c k) luaK_jump"

definition luaK_getlabel :: "int gen" where
  "luaK_getlabel fs = gret (fs_pc fs) (fs\<lparr>fs_lasttarget := fs_pc fs\<rparr>)"

text \<open>The pc of the test that controls the jump at \<open>pc\<close>, or of the jump itself.\<close>

definition getjumpcontrol :: "int \<Rightarrow> int gen" where
  "getjumpcontrol pc = gseq (instr_at pc)
     (if pc \<ge> 1 then gbind (instr_at (pc - 1)) (\<lambda>i. gbind (glift (IsTest (GetOpCode i))) (\<lambda>b. gret (if b then pc - 1 else pc))) else gret pc)"

definition patchtestreg :: "int \<Rightarrow> int \<Rightarrow> bool gen" where
  "patchtestreg node reg = gbind (getjumpcontrol node) (\<lambda>p. gbind (instr_at p) (\<lambda>i.
     if GetOpCode i \<noteq> OP_TESTSET then gret False
     else gseq (set_instr p (if reg \<noteq> NoReg \<and> reg \<noteq> GetArgB i then SetArgA i reg
                             else CreateABCk OP_TEST (GetArgB i) 0 0 (GetArgk i))) (gret True)))"

partial_function (option) removevalues :: "int \<Rightarrow> FuncState \<Rightarrow> (unit \<times> FuncState) res option" where
  "removevalues list fs =
     (if list = noJump then Some (Inr ((), fs))
      else (case patchtestreg list NoReg fs of
        None \<Rightarrow> None
      | Some r \<Rightarrow> (case r of
          Inl e \<Rightarrow> Some (Inl e)
        | Inr p \<Rightarrow> (case getJump list (snd p) of
            None \<Rightarrow> None
          | Some r \<Rightarrow> (case r of Inl e \<Rightarrow> Some (Inl e) | Inr q \<Rightarrow> removevalues (fst q) (snd q))))))"

declare removevalues.simps [code]

partial_function (option) patchlistaux :: "int \<Rightarrow> int \<Rightarrow> int \<Rightarrow> int \<Rightarrow> FuncState \<Rightarrow> (unit \<times> FuncState) res option" where
  "patchlistaux list vtarget reg dtarget fs =
     (if list = noJump then Some (Inr ((), fs))
      else (case gbind (getJump list) (\<lambda>nxt. gbind (patchtestreg list reg) (\<lambda>b.
                   gseq (fixJump list (if b then vtarget else dtarget)) (gret nxt))) fs of
        None \<Rightarrow> None
      | Some r \<Rightarrow> (case r of Inl e \<Rightarrow> Some (Inl e) | Inr p \<Rightarrow> patchlistaux (fst p) vtarget reg dtarget (snd p))))"

declare patchlistaux.simps [code]

definition luaK_patchlist :: "int \<Rightarrow> int \<Rightarrow> unit gen" where
  "luaK_patchlist list target = patchlistaux list target NoReg target"

definition luaK_patchtohere :: "int \<Rightarrow> unit gen" where
  "luaK_patchtohere list = gbind luaK_getlabel (luaK_patchlist list)"

subsection \<open>Discharging expressions\<close>

definition luaK_setreturns :: "expdesc \<Rightarrow> int \<Rightarrow> unit gen" where
  "luaK_setreturns e nresults =
     gseq (instr_at (e_info e))
      (if e_k e = VCALL then mod_instr (e_info e) (\<lambda>i. SetArgC i (nresults + 1))
       else gseq (mod_instr (e_info e) (\<lambda>i. SetArgC i (nresults + 1)))
         (gbind (gget fs_freereg) (\<lambda>r. gseq (mod_instr (e_info e) (\<lambda>i. SetArgA i r)) (reserveRegs 1))))"

definition luaK_setmultret :: "expdesc \<Rightarrow> unit gen" where "luaK_setmultret e = luaK_setreturns e multiRet"

definition str2K :: "expdesc \<Rightarrow> expdesc gen" where
  "str2K e = gbind (stringK (e_strval e)) (\<lambda>k. gret (e\<lparr>e_info := k, e_k := VK\<rparr>))"

definition luaK_setoneret :: "expdesc \<Rightarrow> expdesc gen" where
  "luaK_setoneret e =
     (if e_k e = VCALL then gbind (instr_at (e_info e)) (\<lambda>i. gret (e\<lparr>e_k := VNONRELOC, e_info := GetArgA i\<rparr>))
      else if e_k e = VVARARG then gseq (mod_instr (e_info e) (\<lambda>i. SetArgC i 2)) (gret (e\<lparr>e_k := VRELOC\<rparr>))
      else gret e)"

text \<open>The load that an indexed variable becomes.\<close>

definition load_reloc :: "expdesc \<Rightarrow> int gen \<Rightarrow> expdesc gen" where
  "load_reloc e m = gbind m (\<lambda>pc. gret (e\<lparr>e_info := pc, e_k := VRELOC\<rparr>))"

definition luaK_dischargevars :: "expdesc \<Rightarrow> expdesc gen" where
  "luaK_dischargevars e =
     (case e_k e of
        VCONST \<Rightarrow> gbind (kres (e_info e)) (\<lambda>v. const2exp v e)
      | VLOCAL \<Rightarrow> gret (e\<lparr>e_info := e_ridx e, e_k := VNONRELOC\<rparr>)
      | VUPVAL \<Rightarrow> load_reloc e (codeABC OP_GETUPVAL 0 (e_info e) 0)
      | VINDEXUP \<Rightarrow> load_reloc e (codeABC OP_GETTABUP 0 (e_ind e) (e_idx e))
      | VINDEXI \<Rightarrow> gseq (freeReg (e_ind e)) (load_reloc e (codeABC OP_GETI 0 (e_ind e) (e_idx e)))
      | VINDEXSTR \<Rightarrow> gseq (freeReg (e_ind e)) (load_reloc e (codeABC OP_GETFIELD 0 (e_ind e) (e_idx e)))
      | VINDEXED \<Rightarrow> gseq (freeRegs (e_ind e) (e_idx e)) (load_reloc e (codeABC OP_GETTABLE 0 (e_ind e) (e_idx e)))
      | VVARARG \<Rightarrow> luaK_setoneret e
      | VCALL \<Rightarrow> luaK_setoneret e
      | _ \<Rightarrow> gret e)"

text \<open>The switch of \<open>discharge2reg\<close>, which leaves \<open>e\<close> alone but for a string constant.\<close>

definition load_exp :: "expdesc \<Rightarrow> int \<Rightarrow> unit gen" where
  "load_exp e reg =
     (case e_k e of
        VNIL \<Rightarrow> luaK_nil reg 1
      | VFALSE \<Rightarrow> gseq (codeABC OP_LOADFALSE reg 0 0) (gret ())
      | VTRUE \<Rightarrow> gseq (codeABC OP_LOADTRUE reg 0 0) (gret ())
      | VKSTR \<Rightarrow> gbind (str2K e) (\<lambda>e. gseq (codek reg (e_info e)) (gret ()))
      | VK \<Rightarrow> gseq (codek reg (e_info e)) (gret ())
      | VKFLT \<Rightarrow> gseq (luaK_float reg (e_nval e)) (gret ())
      | VKINT \<Rightarrow> gseq (luaK_int reg (e_ival e)) (gret ())
      | VRELOC \<Rightarrow> mod_instr (e_info e) (\<lambda>i. SetArgA i reg)
      | VNONRELOC \<Rightarrow> gwhen (reg \<noteq> e_info e) (gseq (codeABC OP_MOVE reg (e_info e) 0) (gret ()))
      | _ \<Rightarrow> gret ())"

definition discharge2reg :: "expdesc \<Rightarrow> int \<Rightarrow> expdesc gen" where
  "discharge2reg e reg = gbind (luaK_dischargevars e) (\<lambda>e.
     if e_k e = VJMP then gret e
     else gseq (load_exp e reg) (gret (e\<lparr>e_info := reg, e_k := VNONRELOC\<rparr>)))"

definition discharge2anyreg :: "expdesc \<Rightarrow> expdesc gen" where
  "discharge2anyreg e =
     (if e_k e \<noteq> VNONRELOC then gseq (reserveRegs 1) (gbind (gget fs_freereg) (\<lambda>r. discharge2reg e (r - 1))) else gret e)"

definition code_loadbool :: "int \<Rightarrow> OpCode \<Rightarrow> int gen" where
  "code_loadbool a opc = gseq luaK_getlabel (codeABC opc a 0 0)"

partial_function (option) need_value :: "int \<Rightarrow> FuncState \<Rightarrow> (bool \<times> FuncState) res option" where
  "need_value list fs =
     (if list = noJump then Some (Inr (False, fs))
      else (case gbind (getjumpcontrol list) instr_at fs of
        None \<Rightarrow> None
      | Some r \<Rightarrow> (case r of
          Inl e \<Rightarrow> Some (Inl e)
        | Inr p \<Rightarrow> if GetOpCode (fst p) \<noteq> OP_TESTSET then Some (Inr (True, snd p))
            else (case getJump list (snd p) of
              None \<Rightarrow> None
            | Some r \<Rightarrow> (case r of Inl e \<Rightarrow> Some (Inl e) | Inr q \<Rightarrow> need_value (fst q) (snd q))))))"

declare need_value.simps [code]

definition exp2reg :: "expdesc \<Rightarrow> int \<Rightarrow> expdesc gen" where
  "exp2reg e reg = gbind (discharge2reg e reg) (\<lambda>e.
     gbind (if e_k e = VJMP then gbind (luaK_concat (e_t e) (e_info e)) (\<lambda>l. gret (e\<lparr>e_t := l\<rparr>)) else gret e) (\<lambda>e.
     gseq (gwhen (hasJumps e)
       (gbind (need_value (e_t e)) (\<lambda>nt. gbind (if nt then gret True else need_value (e_f e)) (\<lambda>nv.
        gbind (if nv then
            gbind (if e_k e \<noteq> VJMP then luaK_jump else gret noJump) (\<lambda>fj.
            gbind (code_loadbool reg OP_LFALSESKIP) (\<lambda>pf.
            gbind (code_loadbool reg OP_LOADTRUE) (\<lambda>pt.
            gseq (luaK_patchtohere fj) (gret (pf, pt)))))
          else gret (noJump, noJump)) (\<lambda>(pf, pt).
        gbind luaK_getlabel (\<lambda>final.
        gseq (patchlistaux (e_f e) final reg pf) (patchlistaux (e_t e) final reg pt)))))))
       (gret (e\<lparr>e_f := noJump, e_t := noJump, e_info := reg, e_k := VNONRELOC\<rparr>))))"

definition luaK_exp2nextreg :: "expdesc \<Rightarrow> expdesc gen" where
  "luaK_exp2nextreg e = gbind (luaK_dischargevars e) (\<lambda>e.
     gseq (freeExp e) (gseq (reserveRegs 1) (gbind (gget fs_freereg) (\<lambda>r. exp2reg e (r - 1)))))"

definition luaK_exp2anyreg :: "expdesc \<Rightarrow> expdesc gen" where
  "luaK_exp2anyreg e = gbind (luaK_dischargevars e) (\<lambda>e.
     if e_k e = VNONRELOC then
       (if \<not> hasJumps e then gret e
        else gbind nvarstack (\<lambda>n. if e_info e \<ge> n then exp2reg e (e_info e) else luaK_exp2nextreg e))
     else luaK_exp2nextreg e)"

definition luaK_exp2anyregup :: "expdesc \<Rightarrow> expdesc gen" where
  "luaK_exp2anyregup e = (if e_k e \<noteq> VUPVAL \<or> hasJumps e then luaK_exp2anyreg e else gret e)"

definition luaK_exp2val :: "expdesc \<Rightarrow> expdesc gen" where
  "luaK_exp2val e = (if e_k e = VJMP \<or> hasJumps e then luaK_exp2anyreg e else luaK_dischargevars e)"

definition exp2K :: "expdesc \<Rightarrow> (bool \<times> expdesc) gen" where
  "exp2K e =
     (let fit = (\<lambda>info. gret (if info \<le> maxIndexRK then (True, e\<lparr>e_k := VK, e_info := info\<rparr>) else (False, e))) in
      if hasJumps e then gret (False, e)
      else case e_k e of
        VTRUE \<Rightarrow> gbind boolT fit
      | VFALSE \<Rightarrow> gbind boolF fit
      | VNIL \<Rightarrow> gbind nilK fit
      | VKINT \<Rightarrow> gbind (intK (e_ival e)) fit
      | VKFLT \<Rightarrow> gbind (numberK (e_nval e)) fit
      | VKSTR \<Rightarrow> gbind (stringK (e_strval e)) fit
      | VK \<Rightarrow> fit (e_info e)
      | _ \<Rightarrow> gret (False, e))"

definition exp2RK :: "expdesc \<Rightarrow> (bool \<times> expdesc) gen" where
  "exp2RK e = gbind (exp2K e) (\<lambda>(b, e). if b then gret (True, e) else gbind (luaK_exp2anyreg e) (\<lambda>e. gret (False, e)))"

definition codeABRK :: "OpCode \<Rightarrow> int \<Rightarrow> int \<Rightarrow> expdesc \<Rightarrow> expdesc gen" where
  "codeABRK opc a b ec = gbind (exp2RK ec) (\<lambda>(k, ec).
     gseq (codeABCk opc a b (e_info ec) (if k then 1 else 0)) (gret ec))"

definition luaK_storevar :: "expdesc \<Rightarrow> expdesc \<Rightarrow> expdesc gen" where
  "luaK_storevar var ex =
     (case e_k var of
        VLOCAL \<Rightarrow> gseq (freeExp ex) (exp2reg ex (e_ridx var))
      | VUPVAL \<Rightarrow> gbind (luaK_exp2anyreg ex) (\<lambda>ex. gseq (codeABC OP_SETUPVAL (e_info ex) (e_info var) 0) (gseq (freeExp ex) (gret ex)))
      | VINDEXUP \<Rightarrow> gbind (codeABRK OP_SETTABUP (e_ind var) (e_idx var) ex) (\<lambda>ex. gseq (freeExp ex) (gret ex))
      | VINDEXI \<Rightarrow> gbind (codeABRK OP_SETI (e_ind var) (e_idx var) ex) (\<lambda>ex. gseq (freeExp ex) (gret ex))
      | VINDEXSTR \<Rightarrow> gbind (codeABRK OP_SETFIELD (e_ind var) (e_idx var) ex) (\<lambda>ex. gseq (freeExp ex) (gret ex))
      | VINDEXED \<Rightarrow> gbind (codeABRK OP_SETTABLE (e_ind var) (e_idx var) ex) (\<lambda>ex. gseq (freeExp ex) (gret ex))
      | _ \<Rightarrow> gpanic)"

definition luaK_self :: "expdesc \<Rightarrow> expdesc \<Rightarrow> (expdesc \<times> expdesc) gen" where
  "luaK_self e key = gbind (luaK_exp2anyreg e) (\<lambda>e.
     let ereg = e_info e in
     gseq (freeExp e) (gbind (gget fs_freereg) (\<lambda>r. let e = e\<lparr>e_info := r, e_k := VNONRELOC\<rparr> in
     gseq (reserveRegs 2) (gbind (codeABRK OP_SELF (e_info e) ereg key) (\<lambda>key.
     gseq (freeExp key) (gret (e, key)))))))"

subsection \<open>Conditions\<close>

definition negatecondition :: "expdesc \<Rightarrow> unit gen" where
  "negatecondition e = gbind (getjumpcontrol (e_info e)) (\<lambda>p. mod_instr p (\<lambda>i. SetArgk i (GetArgk i XOR 1)))"

definition jumponcond :: "expdesc \<Rightarrow> int \<Rightarrow> (int \<times> expdesc) gen" where
  "jumponcond e cnd =
     (let slow = gbind (discharge2anyreg e) (\<lambda>e. gseq (freeExp e)
        (gbind (condjump OP_TESTSET NoReg (e_info e) 0 cnd) (\<lambda>pc. gret (pc, e)))) in
      if e_k e = VRELOC then
        gbind (instr_at (e_info e)) (\<lambda>ie.
          if GetOpCode ie = OP_NOT then
            gseq removelastinstruction
              (gbind (condjump OP_TEST (GetArgB ie) 0 0 (if cnd \<noteq> 0 then 0 else 1)) (\<lambda>pc. gret (pc, e)))
          else slow)
      else slow)"

definition luaK_goiftrue :: "expdesc \<Rightarrow> expdesc gen" where
  "luaK_goiftrue e = gbind (luaK_dischargevars e) (\<lambda>e.
     gbind (if e_k e = VJMP then gseq (negatecondition e) (gret (e_info e, e))
            else if e_k e \<in> {VK, VKFLT, VKINT, VKSTR, VTRUE} then gret (noJump, e)
            else jumponcond e 0) (\<lambda>(pc, e).
     gbind (luaK_concat (e_f e) pc) (\<lambda>l.
     gseq (luaK_patchtohere (e_t e)) (gret (e\<lparr>e_f := l, e_t := noJump\<rparr>)))))"

definition luaK_goiffalse :: "expdesc \<Rightarrow> expdesc gen" where
  "luaK_goiffalse e = gbind (luaK_dischargevars e) (\<lambda>e.
     gbind (if e_k e = VJMP then gret (e_info e, e)
            else if e_k e \<in> {VNIL, VFALSE} then gret (noJump, e)
            else jumponcond e 1) (\<lambda>(pc, e).
     gbind (luaK_concat (e_t e) pc) (\<lambda>l.
     gseq (luaK_patchtohere (e_f e)) (gret (e\<lparr>e_t := l, e_f := noJump\<rparr>)))))"

definition codenot :: "expdesc \<Rightarrow> expdesc gen" where
  "codenot e =
     gbind (if e_k e \<in> {VNIL, VFALSE} then gret (e\<lparr>e_k := VTRUE\<rparr>)
            else if e_k e \<in> {VK, VKFLT, VKINT, VKSTR, VTRUE} then gret (e\<lparr>e_k := VFALSE\<rparr>)
            else if e_k e = VJMP then gseq (negatecondition e) (gret e)
            else if e_k e \<in> {VRELOC, VNONRELOC} then
              gbind (discharge2anyreg e) (\<lambda>e. gseq (freeExp e)
                (gbind (codeABC OP_NOT 0 (e_info e) 0) (\<lambda>pc. gret (e\<lparr>e_info := pc, e_k := VRELOC\<rparr>))))
            else gpanic) (\<lambda>e.
     let e = e\<lparr>e_t := e_f e, e_f := e_t e\<rparr> in
     gseq (removevalues (e_f e)) (gseq (removevalues (e_t e)) (gret e)))"

subsection \<open>Indexing\<close>

definition isKstr :: "expdesc \<Rightarrow> bool gen" where
  "isKstr e =
     (if e_k e \<noteq> VK \<or> hasJumps e \<or> e_info e > MaxArgB then gret False
      else (\<lambda>fs. if 0 \<le> e_info e \<and> e_info e < int (length (fs_Constants fs))
        then gret (case fs_Constants fs ! nat (e_info e) of VString s \<Rightarrow> length s \<le> maxShortLen | _ \<Rightarrow> False) fs
        else gpanic fs))"

definition isKint :: "expdesc \<Rightarrow> bool" where "isKint e = (e_k e = VKINT \<and> \<not> hasJumps e)"

definition isCint :: "expdesc \<Rightarrow> bool" where "isCint e = (isKint e \<and> e_ival e \<le> word_of_int MaxArgC)"

definition isSCint :: "expdesc \<Rightarrow> bool" where "isSCint e = (isKint e \<and> fitsC (e_ival e))"

text \<open>The encoded value, whether the number was a float, and success.\<close>

definition isSCnumber :: "expdesc \<Rightarrow> int \<times> bool \<times> bool" where
  "isSCnumber e =
     (case (case e_k e of
              VKINT \<Rightarrow> Some (e_ival e, False)
            | VKFLT \<Rightarrow> map_option (\<lambda>fi. (fi, True)) (fltToIntEq (e_nval e))
            | _ \<Rightarrow> None) of
        None \<Rightarrow> (0, False, False)
      | Some (i, isfloat) \<Rightarrow>
          if \<not> hasJumps e \<and> fitsC i then (Int2sC (sint i), isfloat, True) else (0, isfloat, False))"

definition luaK_indexed :: "expdesc \<Rightarrow> expdesc \<Rightarrow> (expdesc \<times> expdesc) gen" where
  "luaK_indexed t k =
     gbind (if e_k k = VKSTR then str2K k else gret k) (\<lambda>k.
     gbind (if e_k t = VUPVAL then gbind (isKstr k) (\<lambda>b. if \<not> b then luaK_exp2anyreg t else gret t) else gret t) (\<lambda>t.
     if e_k t = VUPVAL then gret (t\<lparr>e_ind := e_info t, e_idx := e_info k, e_k := VINDEXUP\<rparr>, k)
     else
       let t = t\<lparr>e_ind := if e_k t = VLOCAL then e_ridx t else e_info t\<rparr> in
       gbind (isKstr k) (\<lambda>b.
         if b then gret (t\<lparr>e_idx := e_info k, e_k := VINDEXSTR\<rparr>, k)
         else if isCint k then gret (t\<lparr>e_idx := sint (e_ival k), e_k := VINDEXI\<rparr>, k)
         else gbind (luaK_exp2anyreg k) (\<lambda>k. gret (t\<lparr>e_idx := e_info k, e_k := VINDEXED\<rparr>, k)))))"

subsection \<open>Constant folding\<close>

definition validop :: "arith_op \<Rightarrow> Value \<Rightarrow> Value \<Rightarrow> bool" where
  "validop opr v1 v2 =
     (if opr \<in> {OpBAnd, OpBOr, OpBXor, OpShl, OpShr, OpBNot} then toIntegerNS v1 \<noteq> None \<and> toIntegerNS v2 \<noteq> None
      else if opr \<in> {OpDiv, OpIDiv, OpMod} then \<not> f64_eq (nvalue v2) 0
      else True)"

text \<open>\<open>math.Pow\<close> is the parameter \<open>pw\<close>; the result says whether the operation was folded into \<open>e1\<close>.\<close>

definition constfolding :: "(f64 \<Rightarrow> f64 \<Rightarrow> f64) \<Rightarrow> arith_op \<Rightarrow> expdesc \<Rightarrow> expdesc \<Rightarrow> (expdesc option) res" where
  "constfolding pw opr e1 e2 =
     (case (tonumeral e1, tonumeral e2) of
        (Some v1, Some v2) \<Rightarrow>
          if \<not> validop opr v1 v2 then Inr None
          else rbind (rawArith pw opr v1 v2) (\<lambda>r. Inr (case r of
              Some (VInt i) \<Rightarrow> Some (e1\<lparr>e_k := VKINT, e_ival := i\<rparr>)
            | Some (VFloat n) \<Rightarrow> if is_nan n \<or> f64_eq n 0 then None else Some (e1\<lparr>e_k := VKFLT, e_nval := n\<rparr>)
            | _ \<Rightarrow> None))
      | _ \<Rightarrow> Inr None)"

subsection \<open>Operators\<close>

definition binopr2op :: "int \<Rightarrow> int \<Rightarrow> OpCode \<Rightarrow> OpCode" where "binopr2op opr baser base = opr - baser + base"
definition unopr2op :: "int \<Rightarrow> OpCode" where "unopr2op opr = opr - OPR_MINUS + OP_UNM"
definition binopr2TM :: "int \<Rightarrow> int" where "binopr2TM opr = opr - OPR_ADD + TM_ADD"

definition codeunexpval :: "OpCode \<Rightarrow> expdesc \<Rightarrow> int \<Rightarrow> expdesc gen" where
  "codeunexpval opc e line = gbind (luaK_exp2anyreg e) (\<lambda>e.
     gseq (freeExp e) (gbind (codeABC opc 0 (e_info e) 0) (\<lambda>pc.
     gseq (luaK_fixline line) (gret (e\<lparr>e_info := pc, e_k := VRELOC\<rparr>)))))"

definition finishbinexpval ::
  "expdesc \<Rightarrow> expdesc \<Rightarrow> OpCode \<Rightarrow> int \<Rightarrow> int \<Rightarrow> int \<Rightarrow> OpCode \<Rightarrow> int \<Rightarrow> expdesc gen" where
  "finishbinexpval e1 e2 opc v2 flip line mmop event = gbind (luaK_exp2anyreg e1) (\<lambda>e1.
     let v1 = e_info e1 in
     gbind (codeABCk opc 0 v1 v2 0) (\<lambda>pc.
     gseq (freeExps e1 e2)
     (gseq (luaK_fixline line)
     (gseq (codeABCk mmop v1 v2 event flip)
     (gseq (luaK_fixline line) (gret (e1\<lparr>e_info := pc, e_k := VRELOC\<rparr>)))))))"

definition codebinexpval :: "int \<Rightarrow> expdesc \<Rightarrow> expdesc \<Rightarrow> int \<Rightarrow> expdesc gen" where
  "codebinexpval opr e1 e2 line = gbind (luaK_exp2anyreg e2) (\<lambda>e2.
     finishbinexpval e1 e2 (binopr2op opr OPR_ADD OP_ADD) (e_info e2) 0 line OP_MMBIN (binopr2TM opr))"

definition codebini :: "OpCode \<Rightarrow> expdesc \<Rightarrow> expdesc \<Rightarrow> int \<Rightarrow> int \<Rightarrow> int \<Rightarrow> expdesc gen" where
  "codebini opc e1 e2 flip line event = finishbinexpval e1 e2 opc (Int2sC (sint (e_ival e2))) flip line OP_MMBINI event"

definition codebinK :: "int \<Rightarrow> expdesc \<Rightarrow> expdesc \<Rightarrow> int \<Rightarrow> int \<Rightarrow> expdesc gen" where
  "codebinK opr e1 e2 flip line =
     finishbinexpval e1 e2 (binopr2op opr OPR_ADD OP_ADDK) (e_info e2) flip line OP_MMBINK (binopr2TM opr)"

text \<open>\<open>None\<close>: not a suitable constant.\<close>

definition finishbinexpneg :: "expdesc \<Rightarrow> expdesc \<Rightarrow> OpCode \<Rightarrow> int \<Rightarrow> int \<Rightarrow> expdesc option gen" where
  "finishbinexpneg e1 e2 opc line event =
     (if \<not> isKint e2 then gret None
      else let i2 = e_ival e2 in
        if \<not> (fitsC i2 \<and> fitsC (- i2)) then gret None
        else let v2 = sint i2 in
          gbind (finishbinexpval e1 e2 opc (Int2sC (- v2)) 0 line OP_MMBINI event) (\<lambda>e1.
          gbind (gget fs_pc) (\<lambda>pc. gseq (mod_instr (pc - 1) (\<lambda>i. SetArgB i (Int2sC v2))) (gret (Some e1)))))"

definition codebinNoK :: "int \<Rightarrow> expdesc \<Rightarrow> expdesc \<Rightarrow> int \<Rightarrow> int \<Rightarrow> expdesc gen" where
  "codebinNoK opr e1 e2 flip line =
     (if flip \<noteq> 0 then codebinexpval opr e2 e1 line else codebinexpval opr e1 e2 line)"

definition codearith :: "int \<Rightarrow> expdesc \<Rightarrow> expdesc \<Rightarrow> int \<Rightarrow> int \<Rightarrow> expdesc gen" where
  "codearith opr e1 e2 flip line =
     gbind (if tonumeral e2 \<noteq> None then exp2K e2 else gret (False, e2)) (\<lambda>(b, e2).
       if b then codebinK opr e1 e2 flip line else codebinNoK opr e1 e2 flip line)"

definition codecommutative :: "int \<Rightarrow> expdesc \<Rightarrow> expdesc \<Rightarrow> int \<Rightarrow> expdesc gen" where
  "codecommutative opr e1 e2 line =
     (let (e1, e2, flip) = (if tonumeral e1 \<noteq> None then (e2, e1, 1) else (e1, e2, 0)) in
      if opr = OPR_ADD \<and> isSCint e2 then codebini OP_ADDI e1 e2 flip line TM_ADD
      else codearith opr e1 e2 flip line)"

definition codebitwise :: "int \<Rightarrow> expdesc \<Rightarrow> expdesc \<Rightarrow> int \<Rightarrow> expdesc gen" where
  "codebitwise opr e1 e2 line =
     (let (e1, e2, flip) = (if e_k e1 = VKINT then (e2, e1, 1) else (e1, e2, 0)) in
      gbind (if e_k e2 = VKINT then exp2K e2 else gret (False, e2)) (\<lambda>(b, e2).
        if b then codebinK opr e1 e2 flip line else codebinNoK opr e1 e2 flip line))"

definition codeorder :: "int \<Rightarrow> expdesc \<Rightarrow> expdesc \<Rightarrow> expdesc gen" where
  "codeorder opr e1 e2 =
     (let (im, isfloat, ok) = isSCnumber e2; (im1, fl1, ok1) = isSCnumber e1;
          finish = (\<lambda>e1 e2 opc r1 r2 isfloat. gseq (freeExps e1 e2)
            (gbind (condjump opc r1 r2 (if isfloat then 1 else 0) 1) (\<lambda>pc. gret (e1\<lparr>e_info := pc, e_k := VJMP\<rparr>)))) in
      if ok then
        gbind (luaK_exp2anyreg e1) (\<lambda>e1. finish e1 e2 (binopr2op opr OPR_LT OP_LTI) (e_info e1) im isfloat)
      else if ok1 then
        gbind (luaK_exp2anyreg e2) (\<lambda>e2. finish e1 e2 (binopr2op opr OPR_LT OP_GTI) (e_info e2) im1 (isfloat \<or> fl1))
      else
        gbind (luaK_exp2anyreg e1) (\<lambda>e1. gbind (luaK_exp2anyreg e2) (\<lambda>e2.
          finish e1 e2 (binopr2op opr OPR_LT OP_LT) (e_info e1) (e_info e2) (isfloat \<or> fl1))))"

definition codeeq :: "int \<Rightarrow> expdesc \<Rightarrow> expdesc \<Rightarrow> expdesc gen" where
  "codeeq opr e1 e2 =
     (let (e1, e2) = (if e_k e1 \<noteq> VNONRELOC then (e2, e1) else (e1, e2)) in
      gbind (luaK_exp2anyreg e1) (\<lambda>e1.
        let r1 = e_info e1; (im, isfloat, ok) = isSCnumber e2 in
        gbind (if ok then gret (OP_EQI, im, e2)
               else gbind (exp2RK e2) (\<lambda>(b, e2).
                 if b then gret (OP_EQK, e_info e2, e2)
                 else gbind (luaK_exp2anyreg e2) (\<lambda>e2. gret (OP_EQ, e_info e2, e2)))) (\<lambda>(opc, r2, e2).
        gseq (freeExps e1 e2)
          (gbind (condjump opc r1 r2 (if isfloat then 1 else 0) (if opr = OPR_EQ then 1 else 0)) (\<lambda>pc.
            gret (e1\<lparr>e_info := pc, e_k := VJMP\<rparr>))))))"

definition luaK_prefix :: "(f64 \<Rightarrow> f64 \<Rightarrow> f64) \<Rightarrow> int \<Rightarrow> expdesc \<Rightarrow> int \<Rightarrow> expdesc gen" where
  "luaK_prefix pw opr e line =
     (let ef = initExp zero_exp VKINT 0 in
      gbind (luaK_dischargevars e) (\<lambda>e.
        if opr = OPR_MINUS \<or> opr = OPR_BNOT then
          gbind (glift (constfolding pw (arith_ops ! nat (opr + 12)) e ef)) (\<lambda>r. case r of
            Some e \<Rightarrow> gret e | None \<Rightarrow> codeunexpval (unopr2op opr) e line)
        else if opr = OPR_LEN then codeunexpval (unopr2op opr) e line
        else if opr = OPR_NOT then codenot e
        else gpanic))"

definition luaK_infix :: "int \<Rightarrow> expdesc \<Rightarrow> expdesc gen" where
  "luaK_infix opr v = gbind (luaK_dischargevars v) (\<lambda>v.
     if opr = OPR_AND then luaK_goiftrue v
     else if opr = OPR_OR then luaK_goiffalse v
     else if opr = OPR_CONCAT then luaK_exp2nextreg v
     else if OPR_ADD \<le> opr \<and> opr \<le> OPR_SHR then
       (if tonumeral v = None then luaK_exp2anyreg v else gret v)
     else if opr = OPR_EQ \<or> opr = OPR_NE then
       (if tonumeral v = None then gbind (exp2RK v) (\<lambda>(b, v). gret v) else gret v)
     else if opr \<in> {OPR_LT, OPR_LE, OPR_GT, OPR_GE} then
       (if \<not> snd (snd (isSCnumber v)) then luaK_exp2anyreg v else gret v)
     else gpanic)"

definition codeconcat :: "expdesc \<Rightarrow> expdesc \<Rightarrow> int \<Rightarrow> unit gen" where
  "codeconcat e1 e2 line fs =
     (let emit = gseq (codeABC OP_CONCAT (e_info e1) 2 0) (gseq (freeExp e2) (luaK_fixline line)) in
      case previousInstruction fs of
        None \<Rightarrow> emit fs
      | Some p \<Rightarrow> gbind (instr_at p) (\<lambda>ie2.
          if GetOpCode ie2 = OP_CONCAT then
            gseq (freeExp e2) (set_instr p (SetArgB (SetArgA ie2 (e_info e1)) (GetArgB ie2 + 1)))
          else emit) fs)"

definition luaK_posfix :: "(f64 \<Rightarrow> f64 \<Rightarrow> f64) \<Rightarrow> int \<Rightarrow> expdesc \<Rightarrow> expdesc \<Rightarrow> int \<Rightarrow> expdesc gen" where
  "luaK_posfix pw opr e1 e2 line = gbind (luaK_dischargevars e2) (\<lambda>e2.
     gbind (if foldbinop opr then glift (constfolding pw (arith_ops ! nat opr) e1 e2) else gret None) (\<lambda>folded.
     case folded of Some e1 \<Rightarrow> gret e1 | None \<Rightarrow>
     if opr = OPR_AND then gbind (luaK_concat (e_f e2) (e_f e1)) (\<lambda>l. gret (e2\<lparr>e_f := l\<rparr>))
     else if opr = OPR_OR then gbind (luaK_concat (e_t e2) (e_t e1)) (\<lambda>l. gret (e2\<lparr>e_t := l\<rparr>))
     else if opr = OPR_CONCAT then gbind (luaK_exp2nextreg e2) (\<lambda>e2. gseq (codeconcat e1 e2 line) (gret e1))
     else if opr = OPR_ADD \<or> opr = OPR_MUL then codecommutative opr e1 e2 line
     else if opr = OPR_SUB then
       gbind (finishbinexpneg e1 e2 OP_ADDI line TM_SUB) (\<lambda>r. case r of
         Some e1 \<Rightarrow> gret e1 | None \<Rightarrow> codearith opr e1 e2 0 line)
     else if opr \<in> {OPR_DIV, OPR_IDIV, OPR_MOD, OPR_POW} then codearith opr e1 e2 0 line
     else if opr \<in> {OPR_BAND, OPR_BOR, OPR_BXOR} then codebitwise opr e1 e2 line
     else if opr = OPR_SHL then
       (if isSCint e1 then codebini OP_SHLI e2 e1 1 line TM_SHL
        else gbind (finishbinexpneg e1 e2 OP_SHRI line TM_SHL) (\<lambda>r. case r of
          Some e1 \<Rightarrow> gret e1 | None \<Rightarrow> codebinexpval opr e1 e2 line))
     else if opr = OPR_SHR then
       (if isSCint e2 then codebini OP_SHRI e1 e2 0 line TM_SHR else codebinexpval opr e1 e2 line)
     else if opr = OPR_EQ \<or> opr = OPR_NE then codeeq opr e1 e2
     else if opr = OPR_GT \<or> opr = OPR_GE then codeorder (opr - OPR_GT + OPR_LT) e2 e1
     else if opr = OPR_LT \<or> opr = OPR_LE then codeorder opr e1 e2
     else gpanic))"

subsection \<open>Table constructors and the final pass\<close>

text \<open>\<open>ceillog2\<close> takes a Go \<open>uint\<close>: its argument less one, wrapping.\<close>

function log2_bits :: "nat \<Rightarrow> nat \<Rightarrow> nat" where
  "log2_bits l x = (if x \<ge> 256 then log2_bits (l + 8) (x div 256) else if x \<noteq> 0 then log2_bits (l + 1) (x div 2) else l)"
  by pat_completeness auto
termination by (relation "measure snd") auto

declare log2_bits.simps [simp del]

definition ceillog2 :: "i64 \<Rightarrow> nat" where "ceillog2 x = log2_bits 0 (unat (x - 1))"

definition luaK_settablesize :: "int \<Rightarrow> int \<Rightarrow> int \<Rightarrow> int \<Rightarrow> unit gen" where
  "luaK_settablesize pc ra asize hsize =
     (let rb = (if hsize \<noteq> 0 then int (ceillog2 (word_of_int hsize)) + 1 else 0);
          extra = asize div (MaxArgC + 1); rc = asize mod (MaxArgC + 1); k = (if extra > 0 then 1 else 0) in
      gseq (set_instr pc (CreateABCk OP_NEWTABLE ra rb rc k)) (set_instr (pc + 1) (CreateAx OP_EXTRAARG extra)))"

definition luaK_setlist :: "int \<Rightarrow> int \<Rightarrow> int \<Rightarrow> unit gen" where
  "luaK_setlist base nelems tostore =
     (let tostore = (if tostore = multiRet then 0 else tostore) in
      gseq (if nelems \<le> MaxArgC then codeABC OP_SETLIST base tostore nelems
            else gseq (codeABCk OP_SETLIST base tostore (nelems mod (MaxArgC + 1)) 1) (codeextraarg (nelems div (MaxArgC + 1))))
        (gmod (\<lambda>fs. fs\<lparr>fs_freereg := base + 1\<rparr>)))"

text \<open>The loop of \<open>finaltarget\<close>, at most 100 rounds.\<close>

fun finaltarget_loop :: "nat \<Rightarrow> Instruction list \<Rightarrow> int \<Rightarrow> int res" where
  "finaltarget_loop 0 code i = Inr i"
| "finaltarget_loop (Suc n) code i =
     (if 0 \<le> i \<and> i < int (length code) then
        (let ins = code ! nat i in
         if GetOpCode ins \<noteq> OP_JMP then Inr i else finaltarget_loop n code (i + GetArgsJ ins + 1))
      else Inl GoPanic)"

definition finaltarget :: "Instruction list \<Rightarrow> int \<Rightarrow> int res" where "finaltarget code i = finaltarget_loop 100 code i"

text \<open>One instruction of \<open>luaK_finish\<close>, and its loop.\<close>

definition finish_instr :: "int \<Rightarrow> unit gen" where
  "finish_instr i = gbind (instr_at i) (\<lambda>ins fs.
     let opc = GetOpCode ins;
         ret = (\<lambda>ins. (let ins = (if fs_needclose fs then SetArgk ins 1 else ins) in
                 if fs_IsVararg fs then SetArgC ins (uint (fs_NumParams fs) + 1) else ins)) in
     if opc = OP_RETURN0 \<or> opc = OP_RETURN1 then
       (if fs_needclose fs \<or> fs_IsVararg fs then set_instr i (ret (SetOpCode ins OP_RETURN)) fs else gret () fs)
     else if opc = OP_RETURN \<or> opc = OP_TAILCALL then set_instr i (ret ins) fs
     else if opc = OP_JMP then gbind (glift (finaltarget (fs_Code fs) i)) (fixJump i) fs
     else gret () fs)"

fun finish_loop :: "nat \<Rightarrow> int \<Rightarrow> unit gen" where
  "finish_loop 0 i = gret ()"
| "finish_loop (Suc n) i = gseq (finish_instr i) (finish_loop n (i + 1))"

definition luaK_finish :: "unit gen" where
  "luaK_finish = gbind (gget fs_pc) (\<lambda>pc. finish_loop (nat pc) 0)"

end
