(* ===== verification/JumpLists.thy ===== *)
theory JumpLists
  imports CodeGen
begin

text \<open>
  Jump lists (lcode.go). The pending jumps to one unknown target are linked through their own offset fields. Here
  such a list is related to the list of the program counters in it, and the list operations are shown to do to
  the linked instructions what appending and overwriting do to lists.
\<close>

subsection \<open>The generator monad\<close>

lemma gen_simps [simp]:
  "gbind (gret x) k = k x" "gret x fs = Some (Inr (x, fs))" "gget f fs = Some (Inr (f fs, fs))"
  "gmod g fs = Some (Inr ((), g fs))" "gpanic fs = Some (Inl GoPanic)" "gwhen True m = m" "gwhen False m = gret ()"
  by (simp_all add: gret_def gbind_def gget_def gmod_def gpanic_def gwhen_def fun_eq_iff)

lemma gbind_step:
  "m fs = Some (Inr (x, fs')) \<Longrightarrow> gbind m k fs = k x fs'"
  "m fs = Some (Inr (x, fs')) \<Longrightarrow> gseq m n fs = n fs'"
  "m fs = Some (Inl e) \<Longrightarrow> gbind m k fs = Some (Inl e)"
  by (simp_all add: gbind_def gseq_def)

lemma getArg_range: "sz \<le> 32 \<Longrightarrow> 0 \<le> getArg i pos sz \<and> getArg i pos sz < 2 ^ sz"
  by (simp add: getArg_eq unsigned_take_bit_eq)

text \<open>Code whose opcodes exist, so that \<open>IsTest\<close> can be asked of every instruction.\<close>

definition opcodes_ok :: "Instruction list \<Rightarrow> bool" where
  "opcodes_ok code \<longleftrightarrow> (\<forall>i \<in> set code. GetOpCode i < NumOpCodes)"

lemma GetOpCode_nonneg: "0 \<le> GetOpCode i"
  by (simp add: GetOpCode_def getArg_def)

lemma opcodes_okD: "opcodes_ok code \<Longrightarrow> p < length code \<Longrightarrow> IsTest (GetOpCode (code ! p)) = Inr (GetOpCode (code ! p) \<in> {OP_EQ..OP_TESTSET})"
  using opcode_table GetOpCode_nonneg [of "code ! p"] by (auto simp: opcodes_ok_def NumOpCodes_def)

lemma opcodes_ok_nth: "opcodes_ok code \<Longrightarrow> p < length code \<Longrightarrow> GetOpCode (code ! p) < NumOpCodes"
  by (simp add: opcodes_ok_def)

subsection \<open>Linked lists of jumps\<close>

definition jump_dest :: "Instruction \<Rightarrow> nat \<Rightarrow> int" where
  "jump_dest i p = (if GetArgsJ i = noJump then noJump else int p + 1 + GetArgsJ i)"

fun jlist :: "Instruction list \<Rightarrow> int \<Rightarrow> nat list \<Rightarrow> bool" where
  "jlist code l [] \<longleftrightarrow> l = noJump"
| "jlist code l (p # ps) \<longleftrightarrow> l = int p \<and> p < length code \<and> GetOpCode (code ! p) = OP_JMP \<and> jlist code (jump_dest (code ! p) p) ps"

lemma jlist_unique: "jlist code l ps \<Longrightarrow> jlist code l qs \<Longrightarrow> ps = qs"
proof (induction ps arbitrary: l qs)
  case Nil
  then show ?case by (cases qs) (auto simp: noJump_def)
next
  case (Cons p ps)
  then show ?case by (cases qs) (auto simp: noJump_def)
qed

lemma jlist_suffix: "jlist code l (ps @ p # qs) \<Longrightarrow> jlist code (int p) (p # qs)"
  by (induction ps arbitrary: l) auto

lemma jlist_distinct: "jlist code l ps \<Longrightarrow> distinct ps"
proof (induction ps arbitrary: l)
  case (Cons p ps)
  have "p \<notin> set ps"
  proof
    assume "p \<in> set ps"
    then obtain as bs where ps: "ps = as @ p # bs" by (meson split_list)
    then have "jlist code (int p) (p # bs)" using Cons.prems jlist_suffix [of code l "p # as" p bs] by simp
    then have "p # ps = p # bs" using Cons.prems by (intro jlist_unique [of code l]) auto
    with ps show False by simp
  qed
  with Cons show ?case by auto
qed simp

lemma jlist_cong:
  "jlist code l ps \<Longrightarrow> length code' = length code \<Longrightarrow> (\<And>p. p \<in> set ps \<Longrightarrow> code' ! p = code ! p) \<Longrightarrow> jlist code' l ps"
  by (induction ps arbitrary: l) auto

lemma jlist_bound: "jlist code l ps \<Longrightarrow> p \<in> set ps \<Longrightarrow> p < length code \<and> GetOpCode (code ! p) = OP_JMP"
  by (induction ps arbitrary: l) auto

lemma upd_nth: "xs[p := v] ! i = (if i = p \<and> p < length xs then v else xs ! i)"
  by (cases "p < length xs") (auto simp: not_less nth_list_update list_update_beyond)

subsection \<open>Single steps\<close>

lemma instr_at_nat [simp]: "p < length (fs_Code fs) \<Longrightarrow> instr_at (int p) fs = Some (Inr (fs_Code fs ! p, fs))"
  by (simp add: instr_at_def)

lemma set_instr_nat [simp]:
  "p < length (fs_Code fs) \<Longrightarrow> set_instr (int p) i fs = Some (Inr ((), fs\<lparr>fs_Code := (fs_Code fs)[p := i]\<rparr>))"
  by (simp add: set_instr_def)

lemma getJump_nat: "p < length (fs_Code fs) \<Longrightarrow> getJump (int p) fs = Some (Inr (jump_dest (fs_Code fs ! p) p, fs))"
  by (simp add: getJump_def gbind_step Let_def jump_dest_def)

text \<open>Targets and positions below \<open>2 ^ 24 - 1\<close> are within the reach of a jump.\<close>

definition set_dest :: "Instruction \<Rightarrow> nat \<Rightarrow> int \<Rightarrow> Instruction" where
  "set_dest i p dest = SetArgsJ i (dest - (int p + 1))"

lemma reach:
  assumes "int p < OffsetsJ" "0 \<le> dest" "dest \<le> OffsetsJ"
  shows "- OffsetsJ \<le> dest - (int p + 1) \<and> dest - (int p + 1) \<le> MaxArgJ - OffsetsJ"
  using assms by simp

lemma set_dest_fields:
  assumes "int p < OffsetsJ" "0 \<le> dest" "dest \<le> OffsetsJ"
  shows "GetOpCode (set_dest i p dest) = GetOpCode i" "dest \<noteq> int p \<Longrightarrow> jump_dest (set_dest i p dest) p = dest"
proof -
  have r: "- OffsetsJ \<le> dest - (int p + 1)" "dest - (int p + 1) \<le> OffsetsJ + 1" using assms by simp_all
  show "GetOpCode (set_dest i p dest) = GetOpCode i"
    using jump_offset_roundtrip [OF r, of 0 i] by (simp add: set_dest_def)
  have "GetArgsJ (set_dest i p dest) = dest - (int p + 1)"
    using jump_offset_roundtrip [OF r, of 0 i] by (simp add: set_dest_def)
  then show "jump_dest (set_dest i p dest) p = dest" if "dest \<noteq> int p"
    using that by (simp add: jump_dest_def noJump_def)
qed

lemma fixJump_nat:
  assumes "p < length (fs_Code fs)" "int p < OffsetsJ" "0 \<le> dest" "dest \<le> OffsetsJ"
  shows "fixJump (int p) dest fs = Some (Inr ((), fs\<lparr>fs_Code := (fs_Code fs)[p := set_dest (fs_Code fs ! p) p dest]\<rparr>))"
  using assms reach [OF assms(2-4)] by (simp add: fixJump_def gbind_step Let_def set_dest_def)

text \<open>The test in front of a jump that can also set a register, and what patching makes of it.\<close>

definition controlled :: "Instruction list \<Rightarrow> nat \<Rightarrow> bool" where
  "controlled code p \<longleftrightarrow> p \<ge> 1 \<and> GetOpCode (code ! (p - 1)) = OP_TESTSET"

definition patched_test :: "int \<Rightarrow> Instruction \<Rightarrow> Instruction" where
  "patched_test reg i =
     (if reg \<noteq> NoReg \<and> reg \<noteq> GetArgB i then SetArgA i reg else CreateABCk OP_TEST (GetArgB i) 0 0 (GetArgk i))"

lemma patchtestreg_nat:
  assumes "p < length (fs_Code fs)" "opcodes_ok (fs_Code fs)" "GetOpCode (fs_Code fs ! p) = OP_JMP"
  shows "patchtestreg (int p) reg fs = Some (Inr (controlled (fs_Code fs) p,
    if controlled (fs_Code fs) p then fs\<lparr>fs_Code := (fs_Code fs)[p - 1 := patched_test reg (fs_Code fs ! (p - 1))]\<rparr> else fs))"
proof (cases p)
  case 0
  then show ?thesis using assms
    by (simp add: patchtestreg_def getjumpcontrol_def gseq_def gbind_def instr_at_def controlled_def)
next
  case (Suc q)
  have "IsTest (GetOpCode (fs_Code fs ! q)) = Inr (GetOpCode (fs_Code fs ! q) \<in> {OP_EQ..OP_TESTSET})"
    using opcodes_okD [OF assms(2), of q] assms(1) Suc by simp
  moreover have "nat (1 + int q) = Suc q" "nat (int q) = q" by simp_all
  ultimately show ?thesis using assms Suc
    by (auto simp: patchtestreg_def getjumpcontrol_def gseq_def gbind_def instr_at_def set_instr_def glift_def controlled_def patched_test_def
        split: if_splits)
qed

subsection \<open>Appending\<close>

lemma last_jump_nat:
  "jlist (fs_Code fs) l ps \<Longrightarrow> ps \<noteq> [] \<Longrightarrow> last_jump l fs = Some (Inr (int (last ps), fs))"
proof (induction ps arbitrary: l)
  case (Cons p ps)
  then show ?case by (cases ps) (simp_all add: last_jump.simps getJump_nat noJump_def)
qed simp

lemma jlist_append:
  assumes "jlist code l (ps @ [p])" "jlist code (int q) (q # qs)" "p \<notin> set (q # qs)" "length code \<le> 16777215"
  shows "jlist (code[p := set_dest (code ! p) p (int q)]) l (ps @ p # q # qs)"
  using assms(1)
proof (induction ps arbitrary: l)
  case Nil
  then have p: "p < length code" "int p < OffsetsJ" "l = int p" "GetOpCode (code ! p) = OP_JMP" using assms(4) by auto
  have "int q \<le> OffsetsJ" "int q \<noteq> int p" using assms by auto
  with set_dest_fields [of p "int q" "code ! p"] p
  have "GetOpCode (set_dest (code ! p) p (int q)) = OP_JMP" "jump_dest (set_dest (code ! p) p (int q)) p = int q" by auto
  moreover have "jlist (code[p := set_dest (code ! p) p (int q)]) (int q) (q # qs)"
    using assms(3) by (intro jlist_cong [OF assms(2)]) (auto intro!: nth_list_update_neq)
  ultimately show ?case using p by simp
next
  case (Cons a ps)
  have "a \<noteq> p" using jlist_distinct [OF Cons.prems] by auto
  then have "code[p := x] ! a = code ! a" for x by simp
  with Cons show ?case by simp
qed

lemma concat_lists:
  assumes "jlist (fs_Code fs) l1 ps1" "jlist (fs_Code fs) l2 ps2" "set ps1 \<inter> set ps2 = {}" "length (fs_Code fs) \<le> 16777215"
  obtains l code where "luaK_concat l1 l2 fs = Some (Inr (l, fs\<lparr>fs_Code := code\<rparr>))" "jlist code l (ps1 @ ps2)"
    "length code = length (fs_Code fs)" "\<And>i. GetOpCode (code ! i) = GetOpCode (fs_Code fs ! i)"
    "\<And>i. i \<notin> set ps1 \<Longrightarrow> code ! i = fs_Code fs ! i"
proof (cases "ps1 = [] \<or> ps2 = []")
  case True
  then show thesis using assms by (intro that [of "if ps1 = [] then l2 else l1" "fs_Code fs"]) (auto simp: luaK_concat_def noJump_def gret_def)
next
  case False
  obtain qs p where ps1: "ps1 = qs @ [p]" using False by (cases ps1 rule: rev_cases) auto
  obtain q rs where ps2: "ps2 = q # rs" using False by (cases ps2) auto
  have p: "p < length (fs_Code fs)" using assms(1) jlist_bound [OF assms(1), of p] by (simp add: ps1)
  have l2: "l2 = int q" "q < length (fs_Code fs)" using assms(2) by (simp_all add: ps2)
  have l1: "l1 \<noteq> noJump" using assms(1) False by (cases ps1) (auto simp: noJump_def)
  let ?code = "(fs_Code fs)[p := set_dest (fs_Code fs ! p) p (int q)]"
  have r: "int p < OffsetsJ" "int q \<le> OffsetsJ" using p l2 assms(4) by auto
  have "luaK_concat l1 l2 fs = Some (Inr (l1, fs\<lparr>fs_Code := ?code\<rparr>))"
    using l1 l2 assms(1) p r last_jump_nat [OF assms(1)] False
    by (simp add: luaK_concat_def noJump_def gbind_step fixJump_nat ps1)
  moreover have "jlist ?code l1 (ps1 @ ps2)" using jlist_append [of "fs_Code fs" l1 qs p q rs] assms p by (simp add: ps1 ps2 l2)
  ultimately show thesis using r set_dest_fields(1) [of p "int q"] by (intro that [of l1 ?code]) (auto simp: upd_nth ps1)
qed

subsection \<open>Patching\<close>

text \<open>What patching a list makes of the instruction at \<open>i\<close>.\<close>

definition patched :: "Instruction list \<Rightarrow> nat list \<Rightarrow> int \<Rightarrow> int \<Rightarrow> int \<Rightarrow> nat \<Rightarrow> Instruction" where
  "patched code ps vtarget reg dtarget i =
     (if i \<in> set ps then set_dest (code ! i) i (if controlled code i then vtarget else dtarget)
      else if Suc i \<in> set ps \<and> GetOpCode (code ! i) = OP_TESTSET then patched_test reg (code ! i)
      else code ! i)"

lemma patched_test_opcode: "GetOpCode i < NumOpCodes \<Longrightarrow> GetOpCode (patched_test reg i) < NumOpCodes"
  using setters_frame [of i reg] CreateABCk_decode [of OP_TEST "GetArgB i" 0 0 "GetArgk i"] getArg_range [of 8 i PosB] getArg_range [of 1 i PosK]
  by (auto simp: patched_test_def NumOpCodes_def GetArgB_def GetArgk_def SizeB_def)

lemma patchlistaux_nat:
  assumes "jlist (fs_Code fs) l ps" "opcodes_ok (fs_Code fs)" "length (fs_Code fs) \<le> 16777215"
    "0 \<le> vtarget" "vtarget \<le> OffsetsJ" "0 \<le> dtarget" "dtarget \<le> OffsetsJ"
  shows "patchlistaux l vtarget reg dtarget fs =
    Some (Inr ((), fs\<lparr>fs_Code := map (patched (fs_Code fs) ps vtarget reg dtarget) [0..<length (fs_Code fs)]\<rparr>))"
  using assms(1-3)
proof (induction ps arbitrary: l fs)
  case Nil
  have "map (patched (fs_Code fs) [] vtarget reg dtarget) [0..<length (fs_Code fs)] = fs_Code fs"
    by (rule nth_equalityI) (auto simp: patched_def)
  with Nil show ?case by (simp add: patchlistaux.simps)
next
  case (Cons p ps)
  define code where "code = fs_Code fs"
  define b where "b = controlled code p"
  define code1 where "code1 = (if b then code[p - 1 := patched_test reg (code ! (p - 1))] else code)"
  define code2 where "code2 = code1[p := set_dest (code1 ! p) p (if b then vtarget else dtarget)]"
  have p: "l = int p" "p < length code" "GetOpCode (code ! p) = OP_JMP" "jlist code (jump_dest (code ! p) p) ps" "int p < OffsetsJ"
    using Cons.prems by (auto simp: code_def)
  have bp: "b \<Longrightarrow> 0 < p \<and> GetOpCode (code ! (p - 1)) = OP_TESTSET" by (simp add: b_def controlled_def)
  have len: "length code1 = length code" "length code2 = length code" by (simp_all add: code1_def code2_def)
  have c1: "code1 ! p = code ! p" using bp by (auto simp: code1_def upd_nth)
  have d: "p \<notin> set ps" using jlist_distinct [OF Cons.prems(1)] by simp
  have old: "code2 ! q = code ! q" if "q \<in> set ps" for q
    using that d bp jlist_bound [OF p(4) that] by (auto simp: code2_def code1_def upd_nth)
  have step: "gbind (getJump (int p)) (\<lambda>nxt. gbind (patchtestreg (int p) reg) (\<lambda>b. gseq (fixJump (int p) (if b then vtarget else dtarget)) (gret nxt))) fs
      = Some (Inr (jump_dest (code ! p) p, fs\<lparr>fs_Code := code2\<rparr>))"
    using p Cons.prems(2) reach assms(4-7)
    by (simp add: gbind_step getJump_nat patchtestreg_nat fixJump_nat code_def [symmetric] b_def [symmetric] code2_def code1_def)
  have dest_op: "GetOpCode (set_dest i p (if b then vtarget else dtarget)) = GetOpCode i" for i
    using set_dest_fields(1) [OF p(5)] assms(4-7) by simp
  have ops: "GetOpCode (code2 ! i) < NumOpCodes" if "i < length code" for i
    using opcodes_ok_nth [OF Cons.prems(2), of i] opcodes_ok_nth [OF Cons.prems(2), of "p - 1"] that p dest_op bp patched_test_opcode
    by (auto simp: code2_def code1_def upd_nth code_def)
  then have "opcodes_ok code2" by (auto simp: opcodes_ok_def in_set_conv_nth len)
  then have "patchlistaux (jump_dest (code ! p) p) vtarget reg dtarget (fs\<lparr>fs_Code := code2\<rparr>) =
      Some (Inr ((), fs\<lparr>fs_Code := map (patched code2 ps vtarget reg dtarget) [0..<length code]\<rparr>))"
    using Cons.IH [of "fs\<lparr>fs_Code := code2\<rparr>"] Cons.prems jlist_cong [OF p(4) len(2) old] by (simp add: len code_def)
  moreover have "patched code2 ps vtarget reg dtarget i = patched code (p # ps) vtarget reg dtarget i" if "i < length code" for i
  proof (cases "i = p")
    case True
    then show ?thesis using d p c1 dest_op by (auto simp: patched_def code2_def b_def upd_nth len)
  next
    case False
    show ?thesis
    proof (cases "b \<and> Suc i = p")
      case True
      then have "i \<notin> set ps" "code2 ! i = patched_test reg (code ! i)" using bp that jlist_bound [OF p(4), of i] False
        by (auto simp: code2_def code1_def upd_nth)
      then show ?thesis using True bp d False by (auto simp: patched_def)
    next
      case other: False
      then have "code2 ! i = code ! i" using False bp by (auto simp: code2_def code1_def upd_nth)
      moreover have "controlled code2 i = controlled code i" if "i \<in> set ps"
        using that False other bp dest_op p d by (auto simp: controlled_def code2_def code1_def upd_nth)
      ultimately show ?thesis using False other p by (auto simp: patched_def b_def controlled_def)
    qed
  qed
  ultimately show ?case using p step by (simp add: patchlistaux.simps noJump_def code_def cong: map_cong)
qed

lemma set_dest_offset:
  assumes "int p < OffsetsJ" "0 \<le> dest" "dest \<le> OffsetsJ"
  shows "int p + 1 + GetArgsJ (set_dest i p dest) = dest"
proof -
  have r: "- OffsetsJ \<le> dest - (int p + 1)" "dest - (int p + 1) \<le> OffsetsJ + 1" using assms by simp_all
  then show ?thesis using jump_offset_roundtrip [OF r, of 0 i] by (simp add: set_dest_def)
qed

text \<open>
  C30: \<open>luaK_concat\<close> and \<open>luaK_patchlist\<close> on the linked jumps are append and overwrite on lists of program counters:
  on two disjoint lists of pending jumps they end and, without changing anything else of the state, make every jump of both lists go to the
  target; a TESTSET in front of one of these jumps becomes a TEST, as nobody wants its value, and no other
  instruction changes.
\<close>

theorem jump_lists:
  assumes "jlist (fs_Code fs) l1 ps1" "jlist (fs_Code fs) l2 ps2" "set ps1 \<inter> set ps2 = {}"
    "opcodes_ok (fs_Code fs)" "length (fs_Code fs) \<le> 16777215" "0 \<le> target" "target \<le> OffsetsJ"
  shows "\<exists>code. gbind (luaK_concat l1 l2) (\<lambda>l. luaK_patchlist l target) fs = Some (Inr ((), fs\<lparr>fs_Code := code\<rparr>)) \<and>
    length code = length (fs_Code fs) \<and>
    (\<forall>p \<in> set (ps1 @ ps2). GetOpCode (code ! p) = OP_JMP \<and> int p + 1 + GetArgsJ (code ! p) = target) \<and>
    (\<forall>i \<in> {..<length code} - set (ps1 @ ps2). code ! i =
      (let old = fs_Code fs ! i in
       if Suc i \<in> set (ps1 @ ps2) \<and> GetOpCode old = OP_TESTSET then CreateABCk OP_TEST (GetArgB old) 0 0 (GetArgk old) else old))"
proof -
  obtain l code where con: "luaK_concat l1 l2 fs = Some (Inr (l, fs\<lparr>fs_Code := code\<rparr>))" "jlist code l (ps1 @ ps2)"
    "length code = length (fs_Code fs)" "\<And>i. GetOpCode (code ! i) = GetOpCode (fs_Code fs ! i)"
    "\<And>i. i \<notin> set ps1 \<Longrightarrow> code ! i = fs_Code fs ! i"
    using concat_lists [OF assms(1-3,5)] by blast
  have ok: "opcodes_ok code" using opcodes_ok_nth [OF assms(4)] con(3,4) by (auto simp: opcodes_ok_def [of code] in_set_conv_nth)
  let ?new = "map (patched code (ps1 @ ps2) target NoReg target) [0..<length code]"
  have "gbind (luaK_concat l1 l2) (\<lambda>l. luaK_patchlist l target) fs = Some (Inr ((), fs\<lparr>fs_Code := ?new\<rparr>))"
    using con(1,3) patchlistaux_nat [of "fs\<lparr>fs_Code := code\<rparr>" l "ps1 @ ps2" target target NoReg] con(2) ok assms(5-7)
    by (simp add: gbind_step luaK_patchlist_def)
  moreover have "GetOpCode (?new ! p) = OP_JMP \<and> int p + 1 + GetArgsJ (?new ! p) = target" if "p \<in> set (ps1 @ ps2)" for p
  proof -
    have "p < length code" "GetOpCode (code ! p) = OP_JMP" using jlist_bound [OF con(2) that] by auto
    moreover then have "int p < OffsetsJ" using con(3) assms(5) by simp
    ultimately show ?thesis using that set_dest_fields(1) [of p target] set_dest_offset [of p target] assms(6,7)
      by (auto simp: patched_def)
  qed
  ultimately show ?thesis using con(3-5)
    by (intro exI [of _ ?new]) (auto simp: patched_def Let_def patched_test_def)
qed

definition two_lists :: "Instruction list" where
  "two_lists = [CreateABCk OP_TESTSET NoReg 7 0 1, CreatesJ OP_JMP noJump 0, CreateABCk OP_MOVE 1 2 0 0, CreatesJ OP_JMP (-3) 0,
     CreatesJ OP_JMP noJump 0]"

lemma two_lists_ok: "jlist two_lists 3 [3, 1]" "jlist two_lists 4 [4]" "opcodes_ok two_lists" "length two_lists = 5"
  "GetOpCode (two_lists ! 0) = OP_TESTSET \<and> GetArgB (two_lists ! 0) = 7 \<and> GetArgk (two_lists ! 0) = 1"
  by code_simp+

theorem jump_lists_witness:
  "\<forall>c. \<exists>code. gbind (luaK_concat 3 4) (\<lambda>l. luaK_patchlist l 5) (newFuncState c\<lparr>fs_Code := two_lists\<rparr>)
     = Some (Inr ((), newFuncState c\<lparr>fs_Code := code\<rparr>)) \<and> code ! 0 = CreateABCk OP_TEST 7 0 0 1 \<and> 2 + GetArgsJ (code ! 1) = 5"
  (is "\<forall>c. ?P c")
proof
  fix c
  obtain code where c: "gbind (luaK_concat 3 4) (\<lambda>l. luaK_patchlist l 5) (newFuncState c\<lparr>fs_Code := two_lists\<rparr>)
      = Some (Inr ((), newFuncState c\<lparr>fs_Code := code\<rparr>))" "length code = 5"
      "\<forall>p \<in> {3, 1, 4}. int p + 1 + GetArgsJ (code ! p) = 5" "code ! 0 = CreateABCk OP_TEST 7 0 0 1"
    using jump_lists [of "newFuncState c\<lparr>fs_Code := two_lists\<rparr>" 3 "[3, 1]" 4 "[4]" 5] two_lists_ok
    by (auto simp: Let_def)
  then show "?P c" by auto
qed

end
