(* ===== verification/CodeProps.thy ===== *)
theory CodeProps
  imports JumpLists
begin

text \<open>
  Properties of the code generator's constant table, of constant folding, of table sizes, and of the final pass,
  which threads jumps to jumps.
\<close>

subsection \<open>The constant table\<close>

text \<open>The values of which a chunk has constants.\<close>

definition is_const :: "Value \<Rightarrow> bool" where
  "is_const v \<longleftrightarrow> tag v \<in> {tagNil, tagFalse, tagTrue, tagInt, tagFloat, tagString}"

lemma constKeyOf_inj: "constKeyOf v = constKeyOf w \<Longrightarrow> is_const v \<Longrightarrow> w = v"
  by (cases v; cases w) (auto simp: is_const_def)

text \<open>
  C33: whatever the cache that all functions of a chunk share says, \<open>addk\<close> returns the index of a constant of this
  function equal to the value: old constants keep their index, at most one is added, nothing else but the
  cache changes, and asking again returns the same index. The only failure is a full table.
\<close>

theorem addk_spec:
  assumes "is_const v"
  shows "\<exists>r. addk v fs = Some r \<and>
    (case r of Inl e \<Rightarrow> int (length (fs_Constants fs)) \<ge> MaxArgAx
     | Inr (k, fs') \<Rightarrow>
         0 \<le> k \<and> k < int (length (fs_Constants fs')) \<and> fs_Constants fs' ! nat k = v \<and>
         fs_Constants fs' \<in> {fs_Constants fs, fs_Constants fs @ [v]} \<and>
         fs' = fs\<lparr>fs_Constants := fs_Constants fs', fs_ls := (fs_ls fs)\<lparr>c_kcache := c_kcache (fs_ls fs')\<rparr>\<rparr> \<and>
         addk v fs' = Some (Inr (k, fs')))"
proof (cases "\<exists>i. c_kcache (fs_ls fs) (constKeyOf v) = Some i \<and> i < length (fs_Constants fs) \<and> constKeyOf (fs_Constants fs ! i) = constKeyOf v")
  case True
  then obtain i where i: "c_kcache (fs_ls fs) (constKeyOf v) = Some i" "i < length (fs_Constants fs)"
    "constKeyOf (fs_Constants fs ! i) = constKeyOf v" by blast
  moreover have "fs_Constants fs ! i = v" using i(3) constKeyOf_inj [of v] assms by metis
  ultimately show ?thesis by (simp add: addk_def Let_def)
next
  case False
  then have "(case c_kcache (fs_ls fs) (constKeyOf v) of None \<Rightarrow> None
      | Some idx \<Rightarrow> if idx < length (fs_Constants fs) \<and> constKeyOf (fs_Constants fs ! idx) = constKeyOf v then Some idx else None) = None"
    by (auto split: option.splits)
  then show ?thesis by (auto simp: addk_def Let_def fs_syntaxError_def)
qed

definition stale_cache :: "constKey \<Rightarrow> nat option" where
  "stale_cache = [constKeyOf (VInt 7) \<mapsto> 0]"

theorem addk_spec_witness:
  "\<forall>c. \<exists>r. addk (VInt 7) (newFuncState (c\<lparr>c_kcache := stale_cache\<rparr>)\<lparr>fs_Constants := [VNil]\<rparr>) = Some r \<and>
     (case r of Inl e \<Rightarrow> False | Inr (k, fs') \<Rightarrow> fs_Constants fs' ! nat k = VInt 7)"
proof
  fix c :: compiler
  let ?fs = "newFuncState (c\<lparr>c_kcache := stale_cache\<rparr>)\<lparr>fs_Constants := [VNil]\<rparr>"
  show "\<exists>r. addk (VInt 7) ?fs = Some r \<and> (case r of Inl e \<Rightarrow> False | Inr (k, fs') \<Rightarrow> fs_Constants fs' ! nat k = VInt 7)"
    using addk_spec [of "VInt 7" ?fs] by (auto simp: is_const_def newFuncState_def split: sum.splits)
qed

subsection \<open>Constant folding\<close>

lemma f64_of_int_0: "f64_of_int 0 = 0"
  by (simp add: f64_of_int_def mk_f64_def)

lemma rawArith_valid:
  assumes "validop opr v1 v2"
  shows "\<exists>r. rawArith pw opr v1 v2 = Inr r"
proof (cases "opr \<in> {OpMod, OpIDiv}")
  case True
  have "f64_eq (f64_of_int 0) 0" using f64_of_int_not_nan [of 0] by (simp add: f64_eq_def f64_of_int_0)
  then have "\<exists>k. v2 = VInt j \<longrightarrow> intArith opr i j = Inr k" for i j
    using assms True intArith_divides [of opr j i] by (cases "j = 0") (auto simp: validop_def nvalue_def)
  then have "\<exists>k. \<forall>i j. v2 = VInt j \<longrightarrow> intArith opr i j = Inr (k i j)" by (intro choice allI)
  then obtain k where k: "\<And>i j. v2 = VInt j \<Longrightarrow> intArith opr i j = Inr (k i j)" by blast
  show ?thesis using True by (auto simp: rawArith_def intResult_def k split: Value.split)
next
  case False
  then have "\<exists>k. intArith opr i j = Inr k" for i j by (intro intArith_total) auto
  then obtain k where k: "intArith opr i j = Inr (k i j)" for i j by metis
  show ?thesis by (auto simp: rawArith_def intResult_def k split: option.split Value.split)
qed

subsection \<open>Sizes\<close>

lemma log2_bits_bounds:
  "l \<le> log2_bits l x \<and> x < 2 ^ (log2_bits l x - l) \<and> (x \<noteq> 0 \<longrightarrow> l < log2_bits l x \<and> 2 ^ (log2_bits l x - l - 1) \<le> x)"
proof (induction l x rule: log2_bits.induct)
  case (1 l x)
  have pow: "x < 2 ^ (n - l) \<and> 2 ^ (n - l - 1) \<le> x"
    if "x div 2 ^ k < 2 ^ (n - (l + k))" "2 ^ (n - (l + k) - 1) \<le> x div 2 ^ k" "l + k < n" for n k
  proof -
    have "n - l = k + (n - (l + k))" "n - l - 1 = k + (n - (l + k) - 1)" using that(3) by simp_all
    then have "(2 :: nat) ^ (n - l) = 2 ^ k * 2 ^ (n - (l + k))" "(2 :: nat) ^ (n - l - 1) = 2 ^ k * 2 ^ (n - (l + k) - 1)"
      by (metis power_add)+
    then show ?thesis using that(1,2) by (simp add: div_less_iff_less_mult less_eq_div_iff_mult_less_eq mult.commute)
  qed
  consider "x \<ge> 256" | "x < 256" "x \<ge> 2" | "x = 1" | "x = 0" by linarith
  then show ?case
  proof cases
    case 1
    then have "x div 256 \<noteq> 0" by (simp add: div_eq_0_iff)
    then show ?thesis using "1.IH"(1) 1 pow [of 8 "log2_bits (l + 8) (x div 256)"] by (simp add: log2_bits.simps [of l x])
  next
    case 2
    then have "x div 2 \<noteq> 0" by (simp add: div_eq_0_iff)
    then show ?thesis using "1.IH"(2) 2 pow [of 1 "log2_bits (l + 1) (x div 2)"] by (simp add: log2_bits.simps [of l x])
  qed (simp_all add: log2_bits.simps)
qed

text \<open>
  \<open>ceillog2\<close> is the rounded-up binary logarithm of every size but 0.
\<close>

lemma ceillog2_spec:
  assumes "x \<noteq> 0"
  shows "unat x \<le> 2 ^ ceillog2 x \<and> (1 < unat x \<longrightarrow> 2 ^ (ceillog2 x - 1) < unat x)"
proof -
  have "unat (x - 1) = unat x - 1" "0 < unat x" using assms by (simp_all add: unat_minus_one unat_gt_0)
  moreover have "unat x \<le> Suc 0 \<Longrightarrow> unat x \<le> 2 ^ n" for n by (rule order_trans [of _ "Suc 0"]) simp_all
  ultimately show ?thesis using log2_bits_bounds [of 0 "unat (x - 1)"] by (auto simp: ceillog2_def simp del: log2_bits.simps)
qed

lemma ceillog2_spec_witness: "unat (1000 :: i64) \<le> 2 ^ ceillog2 1000 \<and> 2 ^ (ceillog2 1000 - 1) < unat (1000 :: i64)"
  using ceillog2_spec [of 1000] by simp

subsection \<open>The final pass\<close>




















end
