(* ===== verification/Metamethods.thy ===== *)
theory Metamethods
  imports TabSort ToBeClosed Dump
begin

text \<open>
  Metamethods and the operations of the virtual machine that fall back on them (ltm.go, lvm.go). The state \<open>VM\<close>
  is the thread of theory Upvalues with the heaps of tables and closures and the chain of frames, innermost
  first. A piece of Go code is a function of type \<open>vm\<close> of this state: it returns, raises a Lua error (a Go panic that carries
  it), unwinds the coroutine it runs in, panics otherwise, or runs forever. No message handler (\<open>xpcall\<close>) is active. What the code calls but this model leaves open is a field of the record \<open>host\<close>: \<open>L.call\<close>, the
  position that \<open>runtimeError\<close> adds to a message, the names of operands in messages, native functions, the
  closing of variables (theory ToBeClosed), and the parameters of the modelled operations on tables and numbers.
\<close>

subsection \<open>State\<close>

record callInfo =
  ci_fn :: int
  ci_base :: int
  ci_top :: int
  ci_savedpc :: int
  ci_nresults :: int
  ci_nextra :: int
  ci_nres :: int
  ci_C :: bool
  ci_Fresh :: bool
  ci_Tail :: bool

datatype closure = LuaClosure Proto "nat list" | GoClosure nat

record VM =
  vl :: LState
  vtabs :: "ptr \<Rightarrow> Table"
  vtabn :: ptr
  vclos :: "ptr \<Rightarrow> closure"
  vclon :: ptr
  vudmeta :: "ptr \<Rightarrow> ptr option"
  vstringMT :: "ptr option"
  vbasicMT :: "int \<Rightarrow> ptr option"
  vcis :: "callInfo list"
  verrReg :: int
  verrUpval :: int
  vnCcalls :: nat
  vsync :: bool
  vnoYield :: nat

text \<open>
  The results of a piece of code. A signal is one of the two panics that unwind a coroutine: to suspend it with the values that it yields, or
  to have it run on a goroutine of its own.
\<close>

datatype signal = YieldSig "Value list" | PromoteSig

datatype 'a vres = VRet 'a VM | VRaise Value VM | VSignal signal VM | VPanic | VDiv

type_synonym 'a vm = "VM \<Rightarrow> 'a vres"

record host =
  h_call :: "int \<Rightarrow> int \<Rightarrow> unit vm"
  h_gofn :: "nat \<Rightarrow> int vm"
  h_closeAll :: "int \<Rightarrow> Value \<Rightarrow> unit vm"
  h_varName :: "int \<Rightarrow> VM \<Rightarrow> string"
  h_errorf :: "string \<Rightarrow> VM \<Rightarrow> Value"
  h_rte :: "string \<Rightarrow> VM \<Rightarrow> Value"
  h_nameInfo :: "int \<Rightarrow> VM \<Rightarrow> string"
  h_upvalInfo :: "int \<Rightarrow> VM \<Rightarrow> string"
  h_callInfo :: "VM \<Rightarrow> string"
  h_alive :: "ptr \<Rightarrow> bool"
  h_cap :: nat
  h_maxCCalls :: nat
  h_fmtg :: "f64 \<Rightarrow> bytes"
  h_cvt :: "f64 \<Rightarrow> i64"
  h_pow :: "f64 \<Rightarrow> f64 \<Rightarrow> f64"
  h_pf :: "bytes \<Rightarrow> f64 \<times> num_error option"

definition vret :: "'a \<Rightarrow> 'a vm" where "vret x s = VRet x s"

definition vbind :: "'a vm \<Rightarrow> ('a \<Rightarrow> 'b vm) \<Rightarrow> 'b vm" where
  "vbind m f s = (case m s of VRet x s' \<Rightarrow> f x s' | VRaise e s' \<Rightarrow> VRaise e s'
     | VSignal g s' \<Rightarrow> VSignal g s' | VPanic \<Rightarrow> VPanic | VDiv \<Rightarrow> VDiv)"

definition vseq :: "'a vm \<Rightarrow> 'b vm \<Rightarrow> 'b vm" where "vseq m n = vbind m (\<lambda>_. n)"
definition vget :: "(VM \<Rightarrow> 'a) \<Rightarrow> 'a vm" where "vget f s = VRet (f s) s"
definition vmod :: "(VM \<Rightarrow> VM) \<Rightarrow> unit vm" where "vmod f s = VRet () (f s)"
definition vpanic :: "'a vm" where "vpanic s = VPanic"

definition runtimeError :: "host \<Rightarrow> string \<Rightarrow> 'a vm" where "runtimeError H msg s = VRaise (h_rte H msg s) s"

text \<open>An operation of another theory that returns a value, a Lua error or a Go panic.\<close>

definition vlift :: "host \<Rightarrow> 'a res \<Rightarrow> 'a vm" where
  "vlift H r = (case r of Inr x \<Rightarrow> vret x | Inl (LuaError msg) \<Rightarrow> runtimeError H msg | Inl e \<Rightarrow> vpanic)"

text \<open>An operation on the thread.\<close>

definition on_thread :: "(LState \<Rightarrow> LState res) \<Rightarrow> unit vm" where
  "on_thread f s = (case f (vl s) of Inl e \<Rightarrow> VPanic | Inr l \<Rightarrow> VRet () (s\<lparr>vl := l\<rparr>))"

definition reg :: "int \<Rightarrow> Value vm" where
  "reg i s = (case stack_get i (vl s) of Inl e \<Rightarrow> VPanic | Inr v \<Rightarrow> VRet v s)"

definition set_reg :: "int \<Rightarrow> Value \<Rightarrow> unit vm" where "set_reg i v = on_thread (stack_set i v)"

definition top_of :: "int vm" where "top_of = vget (\<lambda>s. int (ltop (vl s)))"

definition set_top :: "int \<Rightarrow> unit vm" where
  "set_top i = (if i < 0 then vpanic else vmod (\<lambda>s. s\<lparr>vl := (vl s)\<lparr>ltop := nat i\<rparr>\<rparr>))"

definition set_err :: "int \<Rightarrow> unit vm" where "set_err r = vmod (\<lambda>s. s\<lparr>verrReg := r\<rparr>)"

definition vcheckstack :: "host \<Rightarrow> nat \<Rightarrow> unit vm" where
  "vcheckstack H n s =
     (case checkstack n (vl s) of None \<Rightarrow> VDiv | Some (Inl msg) \<Rightarrow> VRaise (h_rte H msg s) s | Some (Inr l) \<Rightarrow> VRet () (s\<lparr>vl := l\<rparr>))"

definition vpush :: "host \<Rightarrow> Value \<Rightarrow> unit vm" where
  "vpush H v s =
     (case push (\<lambda>msg. h_rte H msg s) v (vl s) of
        Returns l \<Rightarrow> VRet () (s\<lparr>vl := l\<rparr>) | Raises e l \<Rightarrow> VRaise e (s\<lparr>vl := l\<rparr>) | Panics \<Rightarrow> VPanic | Diverges \<Rightarrow> VDiv)"

text \<open>Reads of a table, which may clear weak slots.\<close>

definition tab_read :: "ptr \<Rightarrow> (Table \<Rightarrow> 'a \<times> Table) \<Rightarrow> 'a vm" where
  "tab_read p f s = (case f (vtabs s p) of (x, t) \<Rightarrow> VRet x (s\<lparr>vtabs := (vtabs s)(p := t)\<rparr>))"

definition tab_write :: "ptr \<Rightarrow> (Table \<Rightarrow> Table) \<Rightarrow> unit vm" where
  "tab_write p f = vmod (\<lambda>s. s\<lparr>vtabs := (vtabs s)(p := f (vtabs s p))\<rparr>)"

lemma vm_simps [simp]:
  "vret x s = VRet x s" "vget f s = VRet (f s) s" "vmod g s = VRet () (g s)" "vpanic s = VPanic"
  "vbind (vret x) k = k x"
  by (simp_all add: vret_def vget_def vmod_def vpanic_def vbind_def fun_eq_iff)

subsection \<open>Events\<close>

definition tmNames :: "string list" where
  "tmNames = [''__index'', ''__newindex'', ''__gc'', ''__mode'', ''__len'', ''__eq'', ''__add'', ''__sub'', ''__mul'',
     ''__mod'', ''__pow'', ''__div'', ''__idiv'', ''__band'', ''__bor'', ''__bxor'', ''__shl'', ''__shr'',
     ''__unm'', ''__bnot'', ''__lt'', ''__le'', ''__concat'', ''__call'', ''__close'']"

abbreviation (input) tmIndex :: int where "tmIndex \<equiv> 0"
abbreviation (input) tmNewIndex :: int where "tmNewIndex \<equiv> 1"
abbreviation (input) tmLen :: int where "tmLen \<equiv> 4"
abbreviation (input) tmEq :: int where "tmEq \<equiv> 5"
abbreviation (input) tmBAnd :: int where "tmBAnd \<equiv> 13"
abbreviation (input) tmBOr :: int where "tmBOr \<equiv> 14"
abbreviation (input) tmBXor :: int where "tmBXor \<equiv> 15"
abbreviation (input) tmShl :: int where "tmShl \<equiv> 16"
abbreviation (input) tmShr :: int where "tmShr \<equiv> 17"
abbreviation (input) tmUnm :: int where "tmUnm \<equiv> 18"
abbreviation (input) tmBNot :: int where "tmBNot \<equiv> 19"
abbreviation (input) tmLt :: int where "tmLt \<equiv> 20"
abbreviation (input) tmLe :: int where "tmLe \<equiv> 21"
abbreviation (input) tmConcat :: int where "tmConcat \<equiv> 22"
abbreviation (input) tmCall :: int where "tmCall \<equiv> 23"

definition numTypeTags :: int where "numTypeTags = 9"
definition MaxTagLoop :: nat where "MaxTagLoop = 2000"

text \<open>An array index out of range panics.\<close>

definition tm_name :: "int \<Rightarrow> bytes vm" where
  "tm_name e = (if 0 \<le> e \<and> e < int (length tmNames) then vret (lit (tmNames ! nat e)) else vpanic)"

definition isBitwiseTM :: "int \<Rightarrow> bool" where
  "isBitwiseTM e = (e \<in> {tmBAnd, tmBOr, tmBXor, tmShl, tmShr, tmBNot})"

fun metatableOf :: "Value \<Rightarrow> VM \<Rightarrow> ptr option" where
  "metatableOf (VTable p) s = meta (vtabs s p)"
| "metatableOf (VUserData p) s = vudmeta s p"
| "metatableOf (VString _) s = vstringMT s"
| "metatableOf v s = (if 0 \<le> Type v \<and> Type v < numTypeTags then vbasicMT s (Type v) else None)"

definition objTypeName :: "host \<Rightarrow> Value \<Rightarrow> string vm" where
  "objTypeName H v = vbind (vget (metatableOf v)) (\<lambda>mt.
     case (if tag v = tagTable \<or> tag v = tagUserData then mt else None) of
       Some p \<Rightarrow> vbind (tab_read p (rawgetStr (h_alive H) (lit ''__name''))) (\<lambda>name.
         vret (case name of VString n \<Rightarrow> map (\<lambda>b. char_of (unat b)) n | _ \<Rightarrow> typeName v))
     | None \<Rightarrow> vret (typeName v))"

definition gettmByObj :: "host \<Rightarrow> Value \<Rightarrow> int \<Rightarrow> Value vm" where
  "gettmByObj H v event = vbind (vget (metatableOf v)) (\<lambda>mt.
     case mt of None \<Rightarrow> vret VNil
     | Some p \<Rightarrow> vbind (tm_name event) (\<lambda>n. tab_read p (rawgetStr (h_alive H) n)))"

definition operand_info :: "host \<Rightarrow> string vm" where
  "operand_info H = vget (\<lambda>s. if h_nameInfo H (verrReg s) s = [] then h_upvalInfo H (verrUpval s) s else h_nameInfo H (verrReg s) s)"

definition clear_err :: "unit vm" where "clear_err = vmod (\<lambda>s. s\<lparr>verrReg := -1, verrUpval := -1\<rparr>)"

definition typeError :: "host \<Rightarrow> Value \<Rightarrow> string \<Rightarrow> 'a vm" where
  "typeError H v opn = vbind (operand_info H) (\<lambda>info. vseq clear_err (vbind (objTypeName H v) (\<lambda>t.
     runtimeError H (''attempt to '' @ opn @ '' a '' @ t @ '' value'' @ info))))"

definition callError :: "host \<Rightarrow> Value \<Rightarrow> 'a vm" where
  "callError H v = vbind (vget (h_callInfo H)) (\<lambda>info. vseq clear_err (vbind (objTypeName H v) (\<lambda>t.
     runtimeError H (''attempt to call a '' @ t @ '' value'' @ info))))"

subsection \<open>Calling a metamethod\<close>

definition scratchTop :: "int vm" where
  "scratchTop = vget (\<lambda>s. case vcis s of [] \<Rightarrow> int (ltop (vl s)) | ci # _ \<Rightarrow> max (int (ltop (vl s))) (ci_top ci))"

definition callTMres :: "host \<Rightarrow> Value \<Rightarrow> Value \<Rightarrow> Value \<Rightarrow> int \<Rightarrow> unit vm" where
  "callTMres H f p1 p2 res = vbind scratchTop (\<lambda>funcIdx. vseq (set_top funcIdx)
     (vseq (vpush H f) (vseq (vpush H p1) (vseq (vpush H p2) (vseq (h_call H funcIdx 1)
     (vbind top_of (\<lambda>t. vseq (set_top (t - 1)) (vbind (reg (t - 1)) (set_reg res)))))))))"

definition callTM :: "host \<Rightarrow> Value \<Rightarrow> Value \<Rightarrow> Value \<Rightarrow> Value \<Rightarrow> unit vm" where
  "callTM H f p1 p2 p3 = vbind scratchTop (\<lambda>funcIdx. vseq (set_top funcIdx)
     (vseq (vpush H f) (vseq (vpush H p1) (vseq (vpush H p2) (vseq (vpush H p3) (h_call H funcIdx 0))))))"

definition callbinTM :: "host \<Rightarrow> Value \<Rightarrow> Value \<Rightarrow> int \<Rightarrow> int \<Rightarrow> bool vm" where
  "callbinTM H p1 p2 res event = vbind (gettmByObj H p1 event) (\<lambda>tm1.
     vbind (if tm1 = VNil then gettmByObj H p2 event else vret tm1) (\<lambda>tm.
     if tm = VNil then vret False else vseq (callTMres H tm p1 p2 res) (vret True)))"

definition tointError :: "host \<Rightarrow> 'a vm" where
  "tointError H = vbind (operand_info H) (\<lambda>info. vseq clear_err
     (runtimeError H (''number'' @ info @ '' has no integer representation'')))"

definition arithBadReg :: "Value \<Rightarrow> Value \<Rightarrow> int \<Rightarrow> int \<Rightarrow> bool \<Rightarrow> int" where
  "arithBadReg p1 p2 regA regB bitwise =
     (if bitwise \<and> IsNumber p1 \<and> IsNumber p2 then (if toIntegerNS p1 = None then regA else regB)
      else if \<not> IsNumber p1 then regA else regB)"

definition opInterError :: "host \<Rightarrow> Value \<Rightarrow> Value \<Rightarrow> string \<Rightarrow> 'a vm" where
  "opInterError H p1 p2 verb = typeError H (if \<not> IsNumber p1 then p1 else p2) verb"

definition trybinTM :: "host \<Rightarrow> Value \<Rightarrow> Value \<Rightarrow> int \<Rightarrow> int \<Rightarrow> unit vm" where
  "trybinTM H p1 p2 res event = vbind (callbinTM H p1 p2 res event) (\<lambda>ok.
     if ok then vret ()
     else if isBitwiseTM event then
       (if IsNumber p1 \<and> IsNumber p2 then tointError H else opInterError H p1 p2 ''perform bitwise operation on'')
     else opInterError H p1 p2 ''perform arithmetic on'')"

definition trybinassocTM :: "host \<Rightarrow> Value \<Rightarrow> Value \<Rightarrow> bool \<Rightarrow> int \<Rightarrow> int \<Rightarrow> unit vm" where
  "trybinassocTM H p1 p2 flip res event = (if flip then trybinTM H p2 p1 res event else trybinTM H p1 p2 res event)"

definition trybiniTM :: "host \<Rightarrow> Value \<Rightarrow> int \<Rightarrow> bool \<Rightarrow> int \<Rightarrow> int \<Rightarrow> unit vm" where
  "trybiniTM H p1 i2 flip res event = trybinassocTM H p1 (VInt (word_of_int i2)) flip res event"

definition concatError :: "host \<Rightarrow> Value \<Rightarrow> Value \<Rightarrow> 'a vm" where
  "concatError H p1 p2 = typeError H (if IsString p1 \<or> IsNumber p1 then p2 else p1) ''concatenate''"

definition tryconcatTM :: "host \<Rightarrow> unit vm" where
  "tryconcatTM H = vbind top_of (\<lambda>t. vbind (reg (t - 2)) (\<lambda>a. vbind (reg (t - 1)) (\<lambda>b.
     vbind (callbinTM H a b (t - 2) tmConcat) (\<lambda>ok.
     if ok then vret () else vbind (reg (t - 2)) (\<lambda>a. vbind (reg (t - 1)) (concatError H a))))))"

definition vorderError :: "host \<Rightarrow> Value \<Rightarrow> Value \<Rightarrow> 'a vm" where
  "vorderError H p1 p2 = vbind (objTypeName H p1) (\<lambda>t1. vbind (objTypeName H p2) (\<lambda>t2.
     runtimeError H (if t1 = t2 then ''attempt to compare two '' @ t1 @ '' values'' else ''attempt to compare '' @ t1 @ '' with '' @ t2)))"

definition vcallorderTM :: "host \<Rightarrow> Value \<Rightarrow> Value \<Rightarrow> int \<Rightarrow> bool vm" where
  "vcallorderTM H p1 p2 event = vbind scratchTop (\<lambda>res. vbind (callbinTM H p1 p2 res event) (\<lambda>ok.
     if ok then vbind (reg res) (\<lambda>v. vret (\<not> IsFalsy v))
     else vbind (if event = tmLe then callbinTM H p2 p1 res tmLt else vret False) (\<lambda>ok.
       if ok then vbind (reg res) (\<lambda>v. vret (IsFalsy v)) else vorderError H p1 p2)))"

definition callorderiTM :: "host \<Rightarrow> Value \<Rightarrow> int \<Rightarrow> bool \<Rightarrow> bool \<Rightarrow> int \<Rightarrow> bool vm" where
  "callorderiTM H p1 v2 flip isfloat event =
     (let aux = (if isfloat then VFloat (f64_of_int v2) else VInt (word_of_int v2)) in
      if flip then vcallorderTM H aux p1 event else vcallorderTM H p1 aux event)"

subsection \<open>Table access\<close>

text \<open>\<open>gettable\<close> with \<open>n\<close> rounds of the loop left; \<open>finish\<close> stores or returns the value, \<open>handler\<close> calls the metamethod.\<close>

primrec gettable_loop :: "host \<Rightarrow> (Value \<Rightarrow> 'a vm) \<Rightarrow> (Value \<Rightarrow> Value \<Rightarrow> 'a vm) \<Rightarrow> Value \<Rightarrow> nat \<Rightarrow> Value \<Rightarrow> 'a vm" where
  "gettable_loop H finish handler key 0 t = runtimeError H (CHR 0x27 # ''__index'' @ CHR 0x27 # '' chain too long; possible loop'')"
| "gettable_loop H finish handler key (Suc n) t =
     (let continue = (\<lambda>tm. if tag tm = tagFunction then handler tm t else gettable_loop H finish handler key n tm) in
      case t of
        VTable p \<Rightarrow> vbind (tab_read p (rawget (h_alive H) key)) (\<lambda>v.
          if v \<noteq> VNil then finish v
          else vbind (vget (\<lambda>s. meta (vtabs s p))) (\<lambda>mt.
            case mt of None \<Rightarrow> finish VNil
            | Some m \<Rightarrow> vbind (tab_read m (rawgetStr (h_alive H) (lit ''__index''))) (\<lambda>tm.
                if tm = VNil then finish VNil else continue tm)))
      | _ \<Rightarrow> vbind (gettmByObj H t tmIndex) (\<lambda>tm. if tm = VNil then typeError H t ''index'' else continue tm))"

definition gettable :: "host \<Rightarrow> Value \<Rightarrow> Value \<Rightarrow> int \<Rightarrow> unit vm" where
  "gettable H t key ra = gettable_loop H (set_reg ra) (\<lambda>tm t. callTMres H tm t key ra) key MaxTagLoop t"

text \<open>\<open>indexGet\<close> for library code; \<open>cv\<close> is \<open>CallValue\<close>, the call of a function value from Go.\<close>

definition indexGet :: "host \<Rightarrow> (Value \<Rightarrow> Value list \<Rightarrow> int \<Rightarrow> Value list vm) \<Rightarrow> Value \<Rightarrow> Value \<Rightarrow> Value vm" where
  "indexGet H cv t key = gettable_loop H vret
     (\<lambda>tm t. vbind (cv tm [t, key] 1) (\<lambda>res. vret (case res of [] \<Rightarrow> VNil | v # _ \<Rightarrow> v))) key MaxTagLoop t"

definition tab_newindex :: "host \<Rightarrow> ptr \<Rightarrow> Value \<Rightarrow> Value \<Rightarrow> unit vm" where
  "tab_newindex H p key val = vbind (vget (\<lambda>s. newindex (h_alive H) (h_cap H) key val (vtabs s p))) (\<lambda>r.
     vbind (vlift H r) (\<lambda>t. tab_write p (\<lambda>_. t)))"

primrec settable_loop :: "host \<Rightarrow> Value \<Rightarrow> Value \<Rightarrow> nat \<Rightarrow> Value \<Rightarrow> unit vm" where
  "settable_loop H key val 0 t = runtimeError H (CHR 0x27 # ''__newindex'' @ CHR 0x27 # '' chain too long; possible loop'')"
| "settable_loop H key val (Suc n) t =
     (let continue = (\<lambda>tm. if tag tm = tagFunction then callTM H tm t key val else settable_loop H key val n tm) in
      case t of
        VTable p \<Rightarrow> vbind (tab_read p (rawget (h_alive H) key)) (\<lambda>v.
          if v \<noteq> VNil then tab_write p (rawset (h_alive H) key val)
          else vbind (vget (\<lambda>s. meta (vtabs s p))) (\<lambda>mt.
            case mt of None \<Rightarrow> tab_newindex H p key val
            | Some m \<Rightarrow> vbind (tab_read m (rawgetStr (h_alive H) (lit ''__newindex''))) (\<lambda>tm.
                if tm = VNil then tab_newindex H p key val else continue tm)))
      | _ \<Rightarrow> vbind (gettmByObj H t tmNewIndex) (\<lambda>tm. if tm = VNil then typeError H t ''index'' else continue tm))"

definition settable :: "host \<Rightarrow> Value \<Rightarrow> Value \<Rightarrow> Value \<Rightarrow> unit vm" where
  "settable H t key val = vbind (vget (\<lambda>s. case t of VTable p \<Rightarrow> meta (vtabs s p) = None | _ \<Rightarrow> False)) (\<lambda>fast.
     if fast then tab_newindex H (gc t) key val else settable_loop H key val MaxTagLoop t)"

subsection \<open>Concatenation\<close>

definition concatable :: "Value \<Rightarrow> bool" where "concatable v = (IsString v \<or> IsNumber v)"

definition value_tostr :: "host \<Rightarrow> Value \<Rightarrow> bytes" where
  "value_tostr H v = (case v of VString s \<Rightarrow> s | _ \<Rightarrow> numToString (h_fmtg H) v)"

text \<open>The number of operands to fold, at most \<open>n + k\<close>, from \<open>n\<close> on.\<close>

primrec fold_count :: "nat \<Rightarrow> int \<Rightarrow> int \<Rightarrow> int vm" where
  "fold_count 0 t n = vret n"
| "fold_count (Suc k) t n = vbind (reg (t - n - 1)) (\<lambda>v. if concatable v then fold_count k t (n + 1) else vret n)"

text \<open>The strings of \<open>k\<close> operands from stack index \<open>i\<close> on; \<open>len\<close> is the length so far.\<close>

primrec concat_parts :: "host \<Rightarrow> nat \<Rightarrow> int \<Rightarrow> nat \<Rightarrow> bytes vm" where
  "concat_parts H 0 i len = vret []"
| "concat_parts H (Suc k) i len = vbind (reg i) (\<lambda>v.
     let s = value_tostr H v in
     if int (length s) > max_int64 - int len then runtimeError H ''string length overflow''
     else vbind (concat_parts H k (i + 1) (len + length s)) (\<lambda>rest. vret (s @ rest)))"

text \<open>The loop of \<open>concat\<close>, each round of which handles at least one operand.\<close>

primrec vconcat_loop :: "host \<Rightarrow> nat \<Rightarrow> int \<Rightarrow> unit vm" where
  "vconcat_loop H 0 tot = vret ()"
| "vconcat_loop H (Suc m) tot =
     (if tot > 1 then
        vbind top_of (\<lambda>t. vbind (reg (t - 2)) (\<lambda>a. vbind (if concatable a then reg (t - 1) else vret VNil) (\<lambda>b.
          if \<not> concatable a \<or> \<not> concatable b then
            vseq (tryconcatTM H) (vseq (set_top (t - 1)) (vconcat_loop H m (tot - 1)))
          else vbind (fold_count (nat (tot - 1)) t 1) (\<lambda>n.
            vbind (concat_parts H (nat n) (t - n) 0) (\<lambda>s.
            vseq (set_reg (t - n) (VString s)) (vseq (set_top (t - (n - 1))) (vconcat_loop H m (tot - (n - 1)))))))))
      else vret ())"

definition concat_values :: "host \<Rightarrow> int \<Rightarrow> unit vm" where
  "concat_values H tot = vconcat_loop H (nat tot) tot"

subsection \<open>Length and comparison\<close>

definition tab_length :: "host \<Rightarrow> ptr \<Rightarrow> i64 vm" where
  "tab_length H p s = (case length_table (h_alive H) (vtabs s p) of None \<Rightarrow> VDiv
     | Some (n, t) \<Rightarrow> VRet n (s\<lparr>vtabs := (vtabs s)(p := t)\<rparr>))"

definition objlen :: "host \<Rightarrow> int \<Rightarrow> Value \<Rightarrow> unit vm" where
  "objlen H ra v =
     (case v of
        VString s \<Rightarrow> set_reg ra (VInt (of_nat (length s)))
      | VTable p \<Rightarrow> vbind (vget (\<lambda>s. meta (vtabs s p))) (\<lambda>mt.
          vbind (case mt of None \<Rightarrow> vret VNil | Some m \<Rightarrow> tab_read m (rawgetStr (h_alive H) (lit ''__len''))) (\<lambda>tm.
          if tm \<noteq> VNil then callTMres H tm v v ra
          else vbind (tab_length H p) (\<lambda>n. set_reg ra (VInt n))))
      | _ \<Rightarrow> vbind (gettmByObj H v tmLen) (\<lambda>tm. if tm = VNil then typeError H v ''get length of'' else callTMres H tm v v ra))"

definition equalobj :: "host \<Rightarrow> Value \<Rightarrow> Value \<Rightarrow> bool vm" where
  "equalobj H a b =
     (if RawEqual (h_cvt H) a b then vret True
      else if (tag a = tagTable \<and> tag b = tagTable) \<or> (tag a = tagUserData \<and> tag b = tagUserData) then
        vbind (gettmByObj H a tmEq) (\<lambda>tm1. vbind (if tm1 = VNil then gettmByObj H b tmEq else vret tm1) (\<lambda>tm.
          if tm = VNil then vret False
          else vbind scratchTop (\<lambda>res. vseq (callTMres H tm a b res) (vbind (reg res) (\<lambda>v. vret (\<not> IsFalsy v))))))
      else vret False)"

definition vlessthan :: "host \<Rightarrow> Value \<Rightarrow> Value \<Rightarrow> bool vm" where
  "vlessthan H a b =
     (if IsNumber a \<and> IsNumber b then vret (numLT a b)
      else case (a, b) of (VString x, VString y) \<Rightarrow> vret (str_less x y) | _ \<Rightarrow> vcallorderTM H a b tmLt)"

definition vlessequal :: "host \<Rightarrow> Value \<Rightarrow> Value \<Rightarrow> bool vm" where
  "vlessequal H a b =
     (if IsNumber a \<and> IsNumber b then vret (numLE a b)
      else case (a, b) of (VString x, VString y) \<Rightarrow> vret (x = y \<or> str_less x y) | _ \<Rightarrow> vcallorderTM H a b tmLe)"

definition lenOf :: "host \<Rightarrow> (Value \<Rightarrow> Value list \<Rightarrow> int \<Rightarrow> Value list vm) \<Rightarrow> Value \<Rightarrow> i64 vm" where
  "lenOf H cv v =
     (let handler = (\<lambda>tm. vbind (cv tm [v, v] 1) (\<lambda>res.
        case toIntegerNS (case res of [] \<Rightarrow> VNil | r # _ \<Rightarrow> r) of Some i \<Rightarrow> vret i
        | None \<Rightarrow> (\<lambda>s. VRaise (h_errorf H ''object length is not an integer'' s) s))) in
      case v of
        VString s \<Rightarrow> vret (of_nat (length s))
      | VTable p \<Rightarrow> vbind (vget (\<lambda>s. meta (vtabs s p))) (\<lambda>mt.
          vbind (case mt of None \<Rightarrow> vret VNil | Some m \<Rightarrow> tab_read m (rawgetStr (h_alive H) (lit ''__len''))) (\<lambda>tm.
          if tm \<noteq> VNil then handler tm else tab_length H p))
      | _ \<Rightarrow> vbind (gettmByObj H v tmLen) (\<lambda>tm. if tm = VNil then typeError H v ''get length of'' else handler tm))"

end
