(* ===== verification/Frames.thy ===== *)
theory Frames
  imports Metamethods
begin

text \<open>
  Calls and frames (ldo.go, ltm.go): preparing a call, returning from one, tail calls and variadic arguments. There are no
  debug hooks, and the reuse of frame objects is not visible. A frame is the head of the chain \<open>vcis\<close>.
\<close>

subsection \<open>Frames and ranges of the stack\<close>

definition luaMinStack :: nat where "luaMinStack = 20"

abbreviation (input) multRet :: int where "multRet \<equiv> -1"

definition cur_ci :: "callInfo vm" where
  "cur_ci s = (case vcis s of [] \<Rightarrow> VPanic | ci # _ \<Rightarrow> VRet ci s)"

definition upd_ci :: "(callInfo \<Rightarrow> callInfo) \<Rightarrow> unit vm" where
  "upd_ci f s = (case vcis s of [] \<Rightarrow> VPanic | ci # cs \<Rightarrow> VRet () (s\<lparr>vcis := f ci # cs\<rparr>))"

text \<open>Copying \<open>k\<close> slots upwards in order, and clearing \<open>k\<close> slots.\<close>

primrec copy_slots :: "nat \<Rightarrow> int \<Rightarrow> int \<Rightarrow> unit vm" where
  "copy_slots 0 src dst = vret ()"
| "copy_slots (Suc k) src dst = vbind (reg src) (\<lambda>v. vseq (set_reg dst v) (copy_slots k (src + 1) (dst + 1)))"

primrec nil_slots :: "nat \<Rightarrow> int \<Rightarrow> unit vm" where
  "nil_slots 0 i = vret ()"
| "nil_slots (Suc k) i = vseq (set_reg i VNil) (nil_slots k (i + 1))"

subsection \<open>Returning\<close>

definition moveresults :: "int \<Rightarrow> int \<Rightarrow> int \<Rightarrow> unit vm" where
  "moveresults res nres wanted = vbind top_of (\<lambda>oldTop.
     vseq
      (if wanted = 0 then set_top res
       else if wanted = 1 then
         vseq (if nres = 0 then set_reg res VNil else vbind (reg (oldTop - nres)) (set_reg res)) (set_top (res + 1))
       else
         let wanted = (if wanted = multRet then nres else wanted); first = oldTop - nres;
             nres = (if nres > wanted then wanted else nres) in
         vseq (copy_slots (nat nres) first res)
           (vseq (nil_slots (nat (wanted - nres)) (res + nres)) (set_top (res + wanted))))
      (vbind top_of (\<lambda>newTop. nil_slots (nat (oldTop - newTop)) newTop)))"

definition poscall :: "int \<Rightarrow> unit vm" where
  "poscall nres = vbind cur_ci (\<lambda>ci. vseq (moveresults (ci_fn ci) nres (ci_nresults ci)) (vmod (\<lambda>s. s\<lparr>vcis := tl (vcis s)\<rparr>)))"

subsection \<open>Calling\<close>

definition new_ci :: "int \<Rightarrow> int \<Rightarrow> int \<Rightarrow> int \<Rightarrow> bool \<Rightarrow> callInfo" where
  "new_ci fn base ctop nresults isC =
     \<lparr>ci_fn = fn, ci_base = base, ci_top = ctop, ci_savedpc = 0, ci_nresults = nresults, ci_nextra = 0, ci_nres = 0,
      ci_C = isC, ci_Fresh = False, ci_Tail = False\<rparr>"

definition push_ci :: "callInfo \<Rightarrow> unit vm" where "push_ci ci = vmod (\<lambda>s. s\<lparr>vcis := ci # vcis s\<rparr>)"

primrec shift_up :: "nat \<Rightarrow> int \<Rightarrow> unit vm" where
  "shift_up 0 p = vret ()"
| "shift_up (Suc k) p = vbind (reg (p - 1)) (\<lambda>v. vseq (set_reg p v) (shift_up k (p - 1)))"

definition tryCallTM :: "host \<Rightarrow> int \<Rightarrow> int vm" where
  "tryCallTM H funcIdx = vbind (reg funcIdx) (\<lambda>f. vbind (gettmByObj H f tmCall) (\<lambda>tm.
     if tm = VNil then callError H f
     else vseq (vcheckstack H 1) (vbind top_of (\<lambda>t. vseq (shift_up (nat (t - funcIdx)) t)
       (vseq (set_top (t + 1)) (vseq (set_reg funcIdx tm) (vret funcIdx)))))))"

definition precallC :: "host \<Rightarrow> int \<Rightarrow> int \<Rightarrow> nat \<Rightarrow> int vm" where
  "precallC H funcIdx nresults g = vseq (vcheckstack H luaMinStack) (vbind top_of (\<lambda>t.
     vseq (push_ci (new_ci funcIdx (funcIdx + 1) (t + int luaMinStack) nresults True))
       (vbind (h_gofn H g) (\<lambda>n. vseq (poscall n) (vret n)))))"

text \<open>The missing arguments of a call become nil, at the top of the stack.\<close>

primrec push_nils :: "nat \<Rightarrow> unit vm" where
  "push_nils 0 = vret ()"
| "push_nils (Suc k) = vbind top_of (\<lambda>t. vseq (set_reg t VNil) (vseq (set_top (t + 1)) (push_nils k)))"

definition closure_of :: "Value \<Rightarrow> VM \<Rightarrow> closure option" where
  "closure_of v s = (case v of VFunction p \<Rightarrow> Some (vclos s p) | _ \<Rightarrow> None)"

text \<open>
  \<open>precall\<close> with \<open>n\<close> rounds of its loop left: a round without a function puts a \<open>__call\<close> handler below it, which the
  stack has room for at most as often as it has slots. \<open>True\<close>: a Lua frame is on top of the chain.
\<close>

primrec precall_loop :: "host \<Rightarrow> int \<Rightarrow> nat \<Rightarrow> int \<Rightarrow> bool vm" where
  "precall_loop H nresults 0 funcIdx = (\<lambda>s. VDiv)"
| "precall_loop H nresults (Suc n) funcIdx = vbind (reg funcIdx) (\<lambda>f. vbind (vget (closure_of f)) (\<lambda>cl.
     case cl of
       Some (LuaClosure p ups) \<Rightarrow> vbind top_of (\<lambda>t.
         let narg = t - funcIdx - 1; nfix = uint (NumParams p); fsize = uint (MaxStackSize p) in
         vseq (vcheckstack H (nat fsize)) (vseq (push_ci (new_ci funcIdx (funcIdx + 1) (funcIdx + 1 + fsize) nresults False))
           (vseq (push_nils (nat (nfix - narg))) (vret True))))
     | Some (GoClosure g) \<Rightarrow> vseq (precallC H funcIdx nresults g) (vret False)
     | None \<Rightarrow> vbind (tryCallTM H funcIdx) (precall_loop H nresults n)))"

definition call_rounds :: "VM \<Rightarrow> nat" where "call_rounds s = maxStack (vl s) + ErrorStackReserve + 1"

definition precall :: "host \<Rightarrow> int \<Rightarrow> int \<Rightarrow> bool vm" where
  "precall H funcIdx nresults = vbind (vget call_rounds) (\<lambda>n. precall_loop H nresults n funcIdx)"

text \<open>\<open>L.call\<close>; \<open>exec\<close> is \<open>execute\<close> on the fresh frame. The count of nested calls is restored also by an error.
  A coroutine that runs on the stack of its resumer cannot be suspended inside the call, so it first moves to a goroutine.\<close>

definition vcall :: "host \<Rightarrow> unit vm \<Rightarrow> int \<Rightarrow> int \<Rightarrow> unit vm" where
  "vcall H exec funcIdx nresults s =
     (if vsync s \<and> vnoYield s = 0 then VSignal PromoteSig s
      else if vnCcalls s \<ge> h_maxCCalls H then runtimeError H ''C stack overflow'' s
      else
        let dec = (\<lambda>s. s\<lparr>vnCcalls := vnCcalls s - 1\<rparr>) in
        case vbind (precall H funcIdx nresults) (\<lambda>lua. if lua then vseq (upd_ci (\<lambda>ci. ci\<lparr>ci_Fresh := True\<rparr>)) exec else vret ())
            (s\<lparr>vnCcalls := vnCcalls s + 1\<rparr>) of
          VRet x s' \<Rightarrow> VRet x (dec s') | VRaise e s' \<Rightarrow> VRaise e (dec s') | VSignal g s' \<Rightarrow> VSignal g (dec s') | r \<Rightarrow> r)"

subsection \<open>Tail calls\<close>

text \<open>\<open>pretailcall\<close> on the current frame: \<open>-1\<close> for a Lua function, whose frame replaces the current one.\<close>

primrec pretailcall_loop :: "host \<Rightarrow> int \<Rightarrow> nat \<Rightarrow> int \<Rightarrow> int \<Rightarrow> int vm" where
  "pretailcall_loop H delta 0 funcIdx narg1 = (\<lambda>s. VDiv)"
| "pretailcall_loop H delta (Suc n) funcIdx narg1 = vbind (reg funcIdx) (\<lambda>f. vbind (vget (closure_of f)) (\<lambda>cl.
     case cl of
       Some (LuaClosure p ups) \<Rightarrow>
         let fsize = uint (MaxStackSize p); nfix = uint (NumParams p) in
         vseq (vcheckstack H (nat fsize)) (vseq (upd_ci (\<lambda>ci. ci\<lparr>ci_fn := ci_fn ci - delta\<rparr>)) (vbind cur_ci (\<lambda>ci.
           vseq (copy_slots (nat narg1) funcIdx (ci_fn ci))
             (let funcIdx = ci_fn ci; narg2 = (if narg1 \<le> nfix then nfix + 1 else narg1) in
              vseq (nil_slots (nat (narg2 - narg1)) (funcIdx + narg1))
               (vseq (upd_ci (\<lambda>ci. ci\<lparr>ci_base := ci_fn ci + 1, ci_top := funcIdx + 1 + fsize, ci_savedpc := 0, ci_nextra := 0,
                   ci_Tail := True\<rparr>))
                 (vseq (set_top (funcIdx + narg2)) (vret (-1))))))))
     | Some (GoClosure g) \<Rightarrow> precallC H funcIdx multRet g
     | None \<Rightarrow> vbind (tryCallTM H funcIdx) (\<lambda>funcIdx. pretailcall_loop H delta n funcIdx (narg1 + 1))))"

definition pretailcall :: "host \<Rightarrow> int \<Rightarrow> int \<Rightarrow> int \<Rightarrow> int vm" where
  "pretailcall H funcIdx narg1 delta = vbind (vget call_rounds) (\<lambda>n. pretailcall_loop H delta n funcIdx narg1)"

subsection \<open>Variadic arguments\<close>

text \<open>The loop that copies the fixed parameters to the top and clears the originals.\<close>

primrec move_params :: "nat \<Rightarrow> int \<Rightarrow> unit vm" where
  "move_params 0 i = vret ()"
| "move_params (Suc k) i = vbind top_of (\<lambda>t. vbind (reg i) (\<lambda>v. vseq (set_reg t v) (vseq (set_top (t + 1))
     (vseq (set_reg i VNil) (move_params k (i + 1))))))"

definition adjustvarargs :: "host \<Rightarrow> int \<Rightarrow> Proto \<Rightarrow> unit vm" where
  "adjustvarargs H nfix p = vbind cur_ci (\<lambda>ci. vbind top_of (\<lambda>t.
     let actual = t - ci_fn ci - 1; nextra = (if actual - nfix < 0 then 0 else actual - nfix) in
     vseq (upd_ci (\<lambda>ci. ci\<lparr>ci_nextra := nextra\<rparr>)) (vseq (vcheckstack H (nat (uint (MaxStackSize p) + 1)))
       (vbind (reg (ci_fn ci)) (\<lambda>f. vseq (set_reg t f) (vseq (set_top (t + 1)) (vseq (move_params (nat nfix) (ci_fn ci + 1))
         (upd_ci (\<lambda>ci. ci\<lparr>ci_fn := ci_fn ci + actual + 1, ci_base := ci_fn ci + actual + 1 + 1, ci_top := ci_top ci + actual + 1\<rparr>)))))))))"

definition getvarargs :: "host \<Rightarrow> int \<Rightarrow> int \<Rightarrow> unit vm" where
  "getvarargs H to wanted = vbind cur_ci (\<lambda>ci.
     let nextra = ci_nextra ci in
     vseq (if wanted < 0 then vseq (vcheckstack H (nat nextra)) (set_top (to + nextra)) else vret ())
       (let wanted = (if wanted < 0 then nextra else wanted); k = min wanted nextra in
        vseq (copy_slots (nat k) (ci_fn ci - nextra) to) (nil_slots (nat (wanted - k)) (to + k))))"

end
