(* ===== verification/Execute.thy ===== *)
theory Execute
  imports Frames
begin

text \<open>
  The instruction dispatch (lvm_execute.go). One step fetches the instruction at the frame's program counter and executes it; the groups
  of instructions are definitions of their own. Hooks and the polling of finalizers between two instructions are left out.
\<close>

subsection \<open>The frame\<close>

text \<open>The local variables of \<open>execute\<close>; \<open>f_pc\<close> is the index of the next instruction.\<close>

record frame =
  f_i :: Instruction
  f_pc :: int
  f_base :: int
  f_proto :: Proto
  f_upvals :: "nat list"

definition f_ra :: "frame \<Rightarrow> int" where "f_ra f = f_base f + GetArgA (f_i f)"
definition f_rb :: "frame \<Rightarrow> int" where "f_rb f = f_base f + GetArgB (f_i f)"
definition f_rc :: "frame \<Rightarrow> int" where "f_rc f = f_base f + GetArgC (f_i f)"

text \<open>How the loop goes on: with the instruction at an index, with the frame that is now current, or not at all.\<close>

datatype ctrl = Goto int | Reenter | Exit

definition go_on :: "frame \<Rightarrow> unit vm \<Rightarrow> ctrl vm" where "go_on f m = vseq m (vret (Goto (f_pc f)))"

definition code_at :: "frame \<Rightarrow> int \<Rightarrow> Instruction vm" where
  "code_at f i = (let code = Code (f_proto f) in if 0 \<le> i \<and> i < int (length code) then vret (code ! nat i) else vpanic)"

definition kst :: "frame \<Rightarrow> int \<Rightarrow> Value vm" where
  "kst f i = (let k = Constants (f_proto f) in if 0 \<le> i \<and> i < int (length k) then vret (k ! nat i) else vpanic)"

definition upval :: "frame \<Rightarrow> int \<Rightarrow> nat vm" where
  "upval f i = (if 0 \<le> i \<and> i < int (length (f_upvals f)) then vret (f_upvals f ! nat i) else vpanic)"

definition get_upval :: "frame \<Rightarrow> int \<Rightarrow> Value vm" where
  "get_upval f i = vbind (upval f i) (\<lambda>u s. case uv_get u (vl s) of Inl e \<Rightarrow> VPanic | Inr v \<Rightarrow> VRet v s)"

definition rkc :: "frame \<Rightarrow> Value vm" where
  "rkc f = (if Testk (f_i f) then kst f (GetArgC (f_i f)) else reg (f_rc f))"

definition condJump :: "frame \<Rightarrow> bool \<Rightarrow> ctrl vm" where
  "condJump f cnd =
     (if (if cnd then 1 else 0) \<noteq> GetArgk (f_i f) then vret (Goto (f_pc f + 1))
      else vbind (code_at f (f_pc f)) (\<lambda>ni. vret (Goto (f_pc f + GetArgsJ ni + 1))))"

subsection \<open>Loads and moves\<close>

definition exec_load :: "host \<Rightarrow> frame \<Rightarrow> ctrl vm" where
  "exec_load H f =
     (let i = f_i f; opc = GetOpCode i; ra = f_ra f in
      if opc = OP_MOVE then go_on f (vbind (reg (f_rb f)) (set_reg ra))
      else if opc = OP_LOADI then go_on f (set_reg ra (VInt (word_of_int (GetArgsBx i))))
      else if opc = OP_LOADF then go_on f (set_reg ra (VFloat (f64_of_int (GetArgsBx i))))
      else if opc = OP_LOADK then go_on f (vbind (kst f (GetArgBx i)) (set_reg ra))
      else if opc = OP_LOADKX then
        vbind (code_at f (f_pc f)) (\<lambda>ax. vbind (kst f (GetArgAx ax)) (\<lambda>v. vseq (set_reg ra v) (vret (Goto (f_pc f + 1)))))
      else if opc = OP_LOADFALSE then go_on f (set_reg ra VFalse)
      else if opc = OP_LFALSESKIP then vseq (set_reg ra VFalse) (vret (Goto (f_pc f + 1)))
      else if opc = OP_LOADTRUE then go_on f (set_reg ra VTrue)
      else if opc = OP_LOADNIL then go_on f (nil_slots (nat (GetArgB i + 1)) ra)
      else if opc = OP_GETUPVAL then go_on f (vbind (get_upval f (GetArgB i)) (set_reg ra))
      else go_on f (vbind (upval f (GetArgB i)) (\<lambda>u. vbind (reg ra) (\<lambda>v. on_thread (uv_set u v)))))"

subsection \<open>Tables\<close>

text \<open>The fast path of an integer key: the value in the array part of a table.\<close>

definition fast_int :: "Value \<Rightarrow> i64 \<Rightarrow> Value option vm" where
  "fast_int t n = vget (\<lambda>s. case t of VTable p \<Rightarrow> fastGetInt (vtabs s p) n | _ \<Rightarrow> None)"

definition exec_gettable :: "host \<Rightarrow> frame \<Rightarrow> ctrl vm" where
  "exec_gettable H f =
     (let i = f_i f; opc = GetOpCode i; ra = f_ra f;
          slow = (\<lambda>rb key. vseq (set_err (GetArgB i)) (gettable H rb key ra));
          at_int = (\<lambda>rb key n. vbind (fast_int rb n) (\<lambda>r. case r of Some v \<Rightarrow> set_reg ra v | None \<Rightarrow> slow rb key)) in
      if opc = OP_GETTABUP then
        go_on f (vseq (vmod (\<lambda>s. s\<lparr>verrUpval := GetArgB i\<rparr>)) (vbind (get_upval f (GetArgB i)) (\<lambda>up.
          vbind (kst f (GetArgC i)) (\<lambda>key. gettable H up key ra))))
      else if opc = OP_GETTABLE then
        go_on f (vbind (reg (f_rb f)) (\<lambda>rb. vbind (reg (f_rc f)) (\<lambda>rc.
          case rc of VInt n \<Rightarrow> at_int rb rc n | _ \<Rightarrow> slow rb rc)))
      else if opc = OP_GETI then
        go_on f (vbind (reg (f_rb f)) (\<lambda>rb. at_int rb (VInt (word_of_int (GetArgC i))) (word_of_int (GetArgC i))))
      else if opc = OP_GETFIELD then
        go_on f (vseq (set_err (GetArgB i)) (vbind (reg (f_rb f)) (\<lambda>rb. vbind (kst f (GetArgC i)) (\<lambda>key. gettable H rb key ra))))
      else go_on f (vbind (reg (f_rb f)) (\<lambda>rb. vseq (set_reg (ra + 1) rb)
          (vseq (set_err (GetArgB i)) (vbind (rkc f) (\<lambda>key. gettable H rb key ra))))))"

definition exec_settable :: "host \<Rightarrow> frame \<Rightarrow> ctrl vm" where
  "exec_settable H f =
     (let i = f_i f; opc = GetOpCode i; ra = f_ra f in
      if opc = OP_SETTABUP then
        go_on f (vseq (vmod (\<lambda>s. s\<lparr>verrUpval := GetArgA i\<rparr>)) (vbind (get_upval f (GetArgA i)) (\<lambda>up.
          vbind (kst f (GetArgB i)) (\<lambda>key. vbind (rkc f) (settable H up key)))))
      else
        go_on f (vseq (set_err (GetArgA i)) (vbind (reg ra) (\<lambda>t.
          vbind (if opc = OP_SETTABLE then reg (f_rb f) else if opc = OP_SETI then vret (VInt (word_of_int (GetArgB i)))
                 else kst f (GetArgB i)) (\<lambda>key. vbind (rkc f) (settable H t key))))))"

definition new_table :: "Value vm" where
  "new_table s = VRet (VTable (vtabn s)) (s\<lparr>vtabs := (vtabs s)(vtabn s := newTable), vtabn := vtabn s + 1\<rparr>)"

text \<open>The size hint only reserves memory.\<close>

definition exec_newtable :: "host \<Rightarrow> frame \<Rightarrow> ctrl vm" where
  "exec_newtable H f =
     vseq (if Testk (f_i f) then vbind (code_at f (f_pc f)) (\<lambda>_. vret ()) else vret ())
       (vbind new_table (\<lambda>t. vseq (set_reg (f_ra f) t) (vret (Goto (f_pc f + 1)))))"

primrec set_items :: "nat \<Rightarrow> ptr \<Rightarrow> int \<Rightarrow> int \<Rightarrow> unit vm" where
  "set_items 0 p n r = vret ()"
| "set_items (Suc k) p n r = vbind (reg r) (\<lambda>v. vseq (tab_write p (rawsetInt (word_of_int n) v)) (set_items k p (n + 1) (r + 1)))"

definition exec_setlist :: "host \<Rightarrow> frame \<Rightarrow> ctrl vm" where
  "exec_setlist H f =
     (let i = f_i f; ra = f_ra f in vbind (reg ra) (\<lambda>h.
      case h of
        VTable p \<Rightarrow>
          vbind (if GetArgB i = 0 then vbind top_of (\<lambda>t. vret (t - ra - 1))
                 else vbind cur_ci (\<lambda>ci. vseq (set_top (ci_top ci)) (vret (GetArgB i)))) (\<lambda>n.
          vbind (if Testk i then vbind (code_at f (f_pc f)) (\<lambda>ax. vret (GetArgC i + GetArgAx ax * (MaxArgC + 1), f_pc f + 1))
                 else vret (GetArgC i, f_pc f)) (\<lambda>(first, pc).
          vseq (set_items (nat n) p (first + 1) (ra + 1)) (vret (Goto pc))))
      | _ \<Rightarrow> vpanic))"

subsection \<open>Arithmetic\<close>

text \<open>A result of the fast path is stored and the metamethod instruction behind it skipped.\<close>

definition fast :: "host \<Rightarrow> frame \<Rightarrow> Value option res \<Rightarrow> ctrl vm" where
  "fast H f r = vbind (vlift H r) (\<lambda>r.
     case r of Some v \<Rightarrow> vseq (set_reg (f_ra f) v) (vret (Goto (f_pc f + 1))) | None \<Rightarrow> vret (Goto (f_pc f)))"

text \<open>The operators of OP_ADD to OP_SHR, and of OP_ADDK to OP_BXORK, in their order.\<close>

definition bin_fast :: "host \<Rightarrow> int \<Rightarrow> Value \<Rightarrow> Value \<Rightarrow> Value option res" where
  "bin_fast H n v1 v2 =
     (if n = 0 then Inr (addIF v1 v2) else if n = 1 then Inr (subIF v1 v2) else if n = 2 then Inr (mulIF v1 v2)
      else if n = 3 then arithMod v1 v2 else if n = 4 then Inr (arithFlt v1 v2 (h_pow H))
      else if n = 5 then Inr (arithFlt v1 v2 f64_div) else if n = 6 then arithIDiv v1 v2
      else if n = 7 then Inr (bandIF v1 v2) else if n = 8 then Inr (borIF v1 v2) else if n = 9 then Inr (bxorIF v1 v2)
      else if n = 10 then Inr (shlIF v1 v2) else Inr (shrIF v1 v2))"

definition exec_arith :: "host \<Rightarrow> frame \<Rightarrow> ctrl vm" where
  "exec_arith H f =
     (let i = f_i f; opc = GetOpCode i in
      vbind (reg (f_rb f)) (\<lambda>v1.
      if opc = OP_ADDI then fast H f (Inr (addImm v1 (GetArgsC i)))
      else if opc = OP_SHRI then
        fast H f (Inr (map_option (\<lambda>ib. VInt (shiftL ib (word_of_int (- GetArgsC i)))) (toIntegerNS v1)))
      else if opc = OP_SHLI then
        fast H f (Inr (map_option (\<lambda>ib. VInt (shiftL (word_of_int (GetArgsC i)) ib)) (toIntegerNS v1)))
      else if OP_ADDK \<le> opc \<and> opc \<le> OP_BXORK then vbind (kst f (GetArgC i)) (\<lambda>v2. fast H f (bin_fast H (opc - OP_ADDK) v1 v2))
      else vbind (reg (f_rc f)) (\<lambda>v2. fast H f (bin_fast H (opc - OP_ADD) v1 v2))))"

definition exec_mmbin :: "host \<Rightarrow> frame \<Rightarrow> ctrl vm" where
  "exec_mmbin H f =
     (let i = f_i f; opc = GetOpCode i; ev = GetArgC i; a = GetArgA i in
      go_on f (vbind (code_at f (f_pc f - 2)) (\<lambda>pi. let result = f_base f + GetArgA pi in
        vbind (reg (f_ra f)) (\<lambda>v1.
        if opc = OP_MMBIN then vbind (reg (f_rb f)) (\<lambda>v2.
          vseq (set_err (arithBadReg v1 v2 a (GetArgB i) (isBitwiseTM ev))) (trybinTM H v1 v2 result ev))
        else if opc = OP_MMBINI then
          vseq (set_err (arithBadReg v1 (VInt (word_of_int (GetArgsB i))) a (-1) (isBitwiseTM ev)))
            (trybiniTM H v1 (GetArgsB i) (GetArgk i \<noteq> 0) result ev)
        else vbind (kst f (GetArgB i)) (\<lambda>v2.
          vseq (set_err (arithBadReg v1 v2 a (-1) (isBitwiseTM ev))) (trybinassocTM H v1 v2 (GetArgk i \<noteq> 0) result ev))))))"

definition exec_unary :: "host \<Rightarrow> frame \<Rightarrow> ctrl vm" where
  "exec_unary H f =
     (let i = f_i f; opc = GetOpCode i; ra = f_ra f in
      go_on f (vbind (reg (f_rb f)) (\<lambda>rb.
        if opc = OP_UNM then
          (case rb of VInt n \<Rightarrow> set_reg ra (VInt (0 - n))
           | _ \<Rightarrow> (case toNumberNS rb of Some n \<Rightarrow> set_reg ra (VFloat (f64_uminus n))
               | None \<Rightarrow> vseq (set_err (GetArgB i)) (trybinTM H rb rb ra tmUnm)))
        else if opc = OP_BNOT then
          (case toIntegerNS rb of Some n \<Rightarrow> set_reg ra (VInt (NOT n))
           | None \<Rightarrow> vseq (set_err (GetArgB i)) (trybinTM H rb rb ra tmBNot))
        else if opc = OP_NOT then set_reg ra (Bool (IsFalsy rb))
        else vseq (set_err (GetArgB i)) (objlen H ra rb))))"

subsection \<open>Comparisons and tests\<close>

definition order_tm :: "host \<Rightarrow> frame \<Rightarrow> Value \<Rightarrow> orderKind \<Rightarrow> bool vm" where
  "order_tm H f sa kind =
     (let im = GetArgsB (f_i f); isf = (GetArgC (f_i f) \<noteq> 0) in
      case kind of
        opLT \<Rightarrow> callorderiTM H sa im False isf tmLt
      | opLE \<Rightarrow> callorderiTM H sa im False isf tmLe
      | opGT \<Rightarrow> callorderiTM H sa im True isf tmLt
      | opGE \<Rightarrow> callorderiTM H sa im True isf tmLe)"

definition exec_orderI :: "host \<Rightarrow> frame \<Rightarrow> orderKind \<Rightarrow> bool vm" where
  "exec_orderI H f kind = vbind (reg (f_ra f)) (\<lambda>sa.
     case orderI sa (GetArgsB (f_i f)) kind of Some b \<Rightarrow> vret b | None \<Rightarrow> order_tm H f sa kind)"

definition exec_cond :: "host \<Rightarrow> frame \<Rightarrow> ctrl vm" where
  "exec_cond H f =
     (let i = f_i f; opc = GetOpCode i in
      if opc = OP_LTI then vbind (exec_orderI H f opLT) (condJump f)
      else if opc = OP_LEI then vbind (exec_orderI H f opLE) (condJump f)
      else if opc = OP_GTI then vbind (exec_orderI H f opGT) (condJump f)
      else if opc = OP_GEI then vbind (exec_orderI H f opGE) (condJump f)
      else if opc = OP_TESTSET then vbind (reg (f_rb f)) (\<lambda>rb.
        if (if IsFalsy rb then 1 else 0) = GetArgk i then vret (Goto (f_pc f + 1))
        else vseq (set_reg (f_ra f) rb) (vbind (code_at f (f_pc f)) (\<lambda>ni. vret (Goto (f_pc f + GetArgsJ ni + 1)))))
      else vbind (reg (f_ra f)) (\<lambda>sa.
        if opc = OP_EQ then vbind (reg (f_rb f)) (\<lambda>rb. vbind (equalobj H sa rb) (condJump f))
        else if opc = OP_LT then vbind (reg (f_rb f)) (\<lambda>rb.
          vbind (if IsNumber sa \<and> IsNumber rb then vret (numLT sa rb) else vlessthan H sa rb) (condJump f))
        else if opc = OP_LE then vbind (reg (f_rb f)) (\<lambda>rb.
          vbind (if IsNumber sa \<and> IsNumber rb then vret (numLE sa rb) else vlessequal H sa rb) (condJump f))
        else if opc = OP_EQK then vbind (kst f (GetArgB i)) (\<lambda>k. condJump f (RawEqual (h_cvt H) sa k))
        else if opc = OP_EQI then condJump f
          (case sa of VInt n \<Rightarrow> n = word_of_int (GetArgsB i) | VFloat x \<Rightarrow> f64_eq x (f64_of_int (GetArgsB i)) | _ \<Rightarrow> False)
        else condJump f (\<not> IsFalsy sa)))"

subsection \<open>Calls and returns\<close>

definition exec_call :: "host \<Rightarrow> frame \<Rightarrow> ctrl vm" where
  "exec_call H f =
     (let i = f_i f; b = GetArgB i; ra = f_ra f in
      vseq (if b \<noteq> 0 then set_top (ra + b) else vret ())
        (vseq (set_err (GetArgA i)) (vbind (precall H ra (GetArgC i - 1)) (\<lambda>lua. vret (if lua then Reenter else Goto (f_pc f))))))"

text \<open>The frame returns \<open>n\<close> values at the top of the stack.\<close>

definition leave_frame :: "int \<Rightarrow> ctrl vm" where
  "leave_frame n = vbind cur_ci (\<lambda>ci. vseq (poscall n) (vret (if ci_Fresh ci then Exit else Reenter)))"

definition exec_tailcall :: "host \<Rightarrow> frame \<Rightarrow> ctrl vm" where
  "exec_tailcall H f =
     (let i = f_i f; nparams1 = GetArgC i; ra = f_ra f in
      vbind cur_ci (\<lambda>ci.
      let delta = (if nparams1 \<noteq> 0 then ci_nextra ci + nparams1 else 0) in
      vbind (if GetArgB i \<noteq> 0 then vseq (set_top (ra + GetArgB i)) (vret (GetArgB i)) else vbind top_of (\<lambda>t. vret (t - ra))) (\<lambda>b.
      vseq (if Testk i then on_thread (closeUpvals (f_base f)) else vret ())
        (vseq (set_err (GetArgA i)) (vbind (pretailcall H ra b delta) (\<lambda>n.
          if n < 0 then vret Reenter
          else vseq (upd_ci (\<lambda>ci. ci\<lparr>ci_fn := ci_fn ci - delta\<rparr>)) (leave_frame n)))))))"

definition exec_return :: "host \<Rightarrow> frame \<Rightarrow> ctrl vm" where
  "exec_return H f =
     (let i = f_i f; nparams1 = GetArgC i; ra = f_ra f in
      vbind top_of (\<lambda>t.
      let n = (if GetArgB i - 1 < 0 then t - ra else GetArgB i - 1) in
      vseq (if Testk i then
              vseq (upd_ci (\<lambda>ci. ci\<lparr>ci_nres := n\<rparr>)) (vbind cur_ci (\<lambda>ci.
                vseq (if t < ci_top ci then set_top (ci_top ci) else vret ()) (h_closeAll H (f_base f) VNil)))
            else vret ())
        (vseq (if nparams1 \<noteq> 0 then upd_ci (\<lambda>ci. ci\<lparr>ci_fn := ci_fn ci - (ci_nextra ci + nparams1)\<rparr>) else vret ())
          (vseq (set_top (ra + n)) (leave_frame n)))))"

definition exec_return01 :: "frame \<Rightarrow> int \<Rightarrow> ctrl vm" where
  "exec_return01 f n = vseq (set_top (f_ra f + n)) (leave_frame n)"

subsection \<open>Loops, closures and varargs\<close>

definition on_stack :: "host \<Rightarrow> (Value list \<Rightarrow> (Value list \<times> bool) res) \<Rightarrow> bool vm" where
  "on_stack H g = vbind (vget (\<lambda>s. g (stack (vl s)))) (\<lambda>r. vbind (vlift H r) (\<lambda>(st, b).
     vseq (vmod (\<lambda>s. s\<lparr>vl := (vl s)\<lparr>stack := st\<rparr>\<rparr>)) (vret b)))"

definition type_name_in :: "host \<Rightarrow> VM \<Rightarrow> Value \<Rightarrow> string" where
  "type_name_in H s v = (case objTypeName H v s of VRet n s' \<Rightarrow> n | _ \<Rightarrow> [])"

definition vnewtbcupval :: "host \<Rightarrow> int \<Rightarrow> unit vm" where
  "vnewtbcupval H lv = vbind (reg lv) (\<lambda>v.
     if IsFalsy v then vret ()
     else vbind (gettmByObj H v 24) (\<lambda>tm.
       if tm = VNil then vbind (vget (h_varName H lv)) (\<lambda>nm.
         runtimeError H (''variable '' @ [CHR 39] @ nm @ [CHR 39] @ '' got a non-closable value''))
       else (\<lambda>s. if vsync s \<and> vnoYield s = 0 then VSignal PromoteSig s else VRet () (s\<lparr>vl := (vl s)\<lparr>tbc := tbc (vl s) @ [nat lv]\<rparr>\<rparr>))))"

definition exec_for :: "host \<Rightarrow> frame \<Rightarrow> ctrl vm" where
  "exec_for H f =
     (let i = f_i f; opc = GetOpCode i; ra = f_ra f; pc = f_pc f in
      if opc = OP_FORLOOP then
        vbind (on_stack H (\<lambda>st. forloop st (nat ra))) (\<lambda>b. vret (Goto (if b then pc - GetArgBx i else pc)))
      else if opc = OP_FORPREP then
        vbind (vget (type_name_in H)) (\<lambda>tn. vbind (on_stack H (\<lambda>st. forprep (h_pf H) tn st (nat ra))) (\<lambda>skip.
          vret (Goto (if skip then pc + GetArgBx i + 1 else pc))))
      else if opc = OP_TFORPREP then vseq (vnewtbcupval H (ra + 3)) (vret (Goto (pc + GetArgBx i)))
      else if opc = OP_TFORCALL then
        vseq (copy_slots 3 ra (ra + 4)) (vseq (set_top (ra + 4 + 3)) (vbind (precall H (ra + 4) (GetArgC i)) (\<lambda>lua.
          vret (if lua then Reenter else Goto pc))))
      else vbind (reg (ra + 4)) (\<lambda>v. if v \<noteq> VNil then vseq (set_reg (ra + 2) v) (vret (Goto (pc - GetArgBx i))) else vret (Goto pc)))"

definition pushClosure :: "frame \<Rightarrow> int \<Rightarrow> unit vm" where
  "pushClosure f n =
     (if 0 \<le> n \<and> n < int (length (Protos (f_proto f))) then
        let p = Protos (f_proto f) ! nat n in (\<lambda>s.
        case capture_loop (map (\<lambda>u. (uv_InStack u, unat (uv_Index u))) (Upvalues p)) (f_upvals f) (f_base f) (vl s) of
          Inl e \<Rightarrow> VPanic
        | Inr (us, l) \<Rightarrow> set_reg (f_ra f) (VFunction (vclon s))
            (s\<lparr>vl := l, vclos := (vclos s)(vclon s := LuaClosure p us), vclon := vclon s + 1\<rparr>))
      else vpanic)"

definition exec_misc :: "host \<Rightarrow> frame \<Rightarrow> ctrl vm" where
  "exec_misc H f =
     (let i = f_i f; opc = GetOpCode i; ra = f_ra f in
      if opc = OP_CONCAT then go_on f (vseq (set_top (ra + GetArgB i)) (concat_values H (GetArgB i)))
      else if opc = OP_CLOSE then go_on f (h_closeAll H ra VNil)
      else if opc = OP_TBC then go_on f (vnewtbcupval H ra)
      else if opc = OP_JMP then vret (Goto (f_pc f + GetArgsJ i))
      else if opc = OP_CLOSURE then go_on f (pushClosure f (GetArgBx i))
      else if opc = OP_VARARG then go_on f (getvarargs H ra (GetArgC i - 1))
      else if opc = OP_VARARGPREP then go_on f (adjustvarargs H (GetArgA i) (f_proto f))
      else go_on f (vret ()))"

subsection \<open>Dispatch\<close>

definition dispatch :: "host \<Rightarrow> frame \<Rightarrow> ctrl vm" where
  "dispatch H f =
     (let opc = GetOpCode (f_i f) in
      if opc \<le> OP_SETUPVAL then exec_load H f
      else if opc \<le> OP_GETFIELD \<or> opc = OP_SELF then exec_gettable H f
      else if opc \<le> OP_SETFIELD then exec_settable H f
      else if opc = OP_NEWTABLE then exec_newtable H f
      else if opc \<le> OP_SHR then exec_arith H f
      else if opc \<le> OP_MMBINK then exec_mmbin H f
      else if opc \<le> OP_LEN then exec_unary H f
      else if OP_EQ \<le> opc \<and> opc \<le> OP_TESTSET then exec_cond H f
      else if opc = OP_CALL then exec_call H f
      else if opc = OP_TAILCALL then exec_tailcall H f
      else if opc = OP_RETURN then exec_return H f
      else if opc = OP_RETURN0 then exec_return01 f 0
      else if opc = OP_RETURN1 then exec_return01 f 1
      else if OP_FORLOOP \<le> opc \<and> opc \<le> OP_TFORLOOP then exec_for H f
      else if opc = OP_SETLIST then exec_setlist H f
      else exec_misc H f)"

text \<open>One round of the inner loop, with the program counter of the current frame.\<close>

definition exec_step :: "host \<Rightarrow> int \<Rightarrow> ctrl vm" where
  "exec_step H pc = vbind cur_ci (\<lambda>ci. vbind (reg (ci_fn ci)) (\<lambda>fv. vbind (vget (closure_of fv)) (\<lambda>cl.
     case cl of
       Some (LuaClosure p ups) \<Rightarrow>
         if 0 \<le> pc \<and> pc < int (length (Code p)) then
           vseq (upd_ci (\<lambda>ci. ci\<lparr>ci_savedpc := pc + 1\<rparr>)) (vseq clear_err
             (dispatch H \<lparr>f_i = Code p ! nat pc, f_pc = pc + 1, f_base = ci_base ci, f_proto = p, f_upvals = ups\<rparr>))
         else vpanic
     | _ \<Rightarrow> vpanic)))"

text \<open>\<open>execute\<close>, at most \<open>n\<close> instructions of it: \<open>VDiv\<close> when they are not enough.\<close>

primrec execute_loop :: "host \<Rightarrow> nat \<Rightarrow> int \<Rightarrow> unit vm" where
  "execute_loop H 0 pc = (\<lambda>s. VDiv)"
| "execute_loop H (Suc n) pc = vbind (exec_step H pc) (\<lambda>c.
     case c of Goto pc' \<Rightarrow> execute_loop H n pc'
     | Reenter \<Rightarrow> vbind cur_ci (\<lambda>ci. execute_loop H n (ci_savedpc ci))
     | Exit \<Rightarrow> vret ())"

definition execute :: "host \<Rightarrow> nat \<Rightarrow> unit vm" where
  "execute H n = vbind cur_ci (\<lambda>ci. execute_loop H n (ci_savedpc ci))"

text \<open>An outcome, once there, does not depend on the number of instructions that are still allowed.\<close>

lemma execute_loop_more:
  "execute_loop H n pc s = r \<Longrightarrow> r \<noteq> VDiv \<Longrightarrow> n \<le> m \<Longrightarrow> execute_loop H m pc s = r"
proof (induction n arbitrary: m pc s)
  case (Suc n)
  then obtain k where m: "m = Suc k" "n \<le> k" by (cases m) auto
  show ?case
  proof (cases "exec_step H pc s")
    case (VRet c s')
    then show ?thesis using Suc.prems m Suc.IH [of _ _ k] by (cases c) (auto simp: vbind_def cur_ci_def split: list.splits)
  qed (use Suc.prems m in \<open>auto simp: vbind_def\<close>)
qed simp

text \<open>The host whose \<open>L.call\<close> is the machine itself, to a depth \<open>d\<close> of nested calls of at most \<open>n\<close> instructions each.\<close>

primrec machine :: "host \<Rightarrow> nat \<Rightarrow> nat \<Rightarrow> host" where
  "machine H n 0 = H\<lparr>h_call := \<lambda>fi nres s. VDiv\<rparr>"
| "machine H n (Suc d) = H\<lparr>h_call := \<lambda>fi nres. vcall (machine H n d) (execute (machine H n d) n) fi nres\<rparr>"

end
