(* ===== verification/FrameProps.thy ===== *)
theory FrameProps
  imports Execute
begin

text \<open>
  What calls and returns do to the stack: results are adjusted to the number wanted, and the variadic arguments of a function are
  what the caller passed beyond its parameters.
\<close>

subsection \<open>Ranges of the stack\<close>

definition with_stack :: "VM \<Rightarrow> Value list \<Rightarrow> VM" where "with_stack s st = s\<lparr>vl := (vl s)\<lparr>stack := st\<rparr>\<rparr>"
definition with_top :: "VM \<Rightarrow> nat \<Rightarrow> VM" where "with_top s t = s\<lparr>vl := (vl s)\<lparr>ltop := t\<rparr>\<rparr>"

lemma with_stack_simps [simp]:
  "stack (vl (with_stack s st)) = st" "with_stack (with_stack s st) st' = with_stack s st'" "ltop (vl (with_stack s st)) = ltop (vl s)"
  "vcis (with_stack s st) = vcis s" "with_stack s (stack (vl s)) = s" "stack (vl (with_top s t)) = stack (vl s)" "ltop (vl (with_top s t)) = t"
  "vcis (with_top s t) = vcis s" "with_stack (with_top s t) st = with_top (with_stack s st) t" "with_top (with_top s t) t' = with_top s t'"
  by (simp_all add: with_stack_def with_top_def)

lemma vbind_step:
  "m s = VRet x s' \<Longrightarrow> vbind m k s = k x s'" "m s = VRet x s' \<Longrightarrow> vseq m n s = n s'"
  "m s = VRaise e s' \<Longrightarrow> vbind m k s = VRaise e s'" "m s = VRaise e s' \<Longrightarrow> vseq m n s = VRaise e s'"
  by (simp_all add: vbind_def vseq_def)

lemma reg_nat [simp]: "i < length (stack (vl s)) \<Longrightarrow> reg (int i) s = VRet (stack (vl s) ! i) s"
  by (simp add: reg_def stack_get_def)

lemma set_reg_nat [simp]: "i < length (stack (vl s)) \<Longrightarrow> set_reg (int i) v s = VRet () (with_stack s ((stack (vl s))[i := v]))"
  by (simp add: set_reg_def on_thread_def stack_set_def with_stack_def)

lemma top_simps [simp]: "top_of s = VRet (int (ltop (vl s))) s" "set_top (int t) s = VRet () (with_top s t)"
  by (simp_all add: top_of_def set_top_def with_top_def)

lemma set_top_add [simp]: "set_top (int i + 1) s = VRet () (with_top s (Suc i))" "set_top (int i + int j) s = VRet () (with_top s (i + j))"
  by (simp_all add: set_top_def with_top_def nat_add_distrib)

text \<open>The list \<open>st\<close> with its part from \<open>i\<close> on replaced by \<open>xs\<close>.\<close>

definition overwrite :: "'a list \<Rightarrow> nat \<Rightarrow> 'a list \<Rightarrow> 'a list" where
  "overwrite st i xs = take i st @ xs @ drop (i + length xs) st"

lemma length_overwrite [simp]: "i + length xs \<le> length st \<Longrightarrow> length (overwrite st i xs) = length st"
  by (simp add: overwrite_def)

lemma nth_overwrite:
  "i + length xs \<le> length st \<Longrightarrow> overwrite st i xs ! j = (if i \<le> j \<and> j < i + length xs then xs ! (j - i) else st ! j)"
  by (auto simp: overwrite_def nth_append)

lemma overwrite_Nil [simp]: "i \<le> length st \<Longrightarrow> overwrite st i [] = st"
  by (simp add: overwrite_def)

lemma overwrite_Cons: "i + length xs < length st \<Longrightarrow> overwrite (st[i := x]) (Suc i) xs = overwrite st i (x # xs)"
  by (rule nth_equalityI) (auto simp: nth_overwrite nth_Cons' nth_list_update)

lemma slots_Suc:
  "nil_slots (Suc k) (int i) = vseq (set_reg (int i) VNil) (nil_slots k (int (Suc i)))"
  "copy_slots (Suc k) (int i) (int j) = vbind (reg (int i)) (\<lambda>v. vseq (set_reg (int j) v) (copy_slots k (int (Suc i)) (int (Suc j))))"
  by (simp_all add: add.commute)

lemmas slot_steps = slots_Suc vbind_step overwrite_Cons

lemma nil_slots_nat:
  "i + k \<le> length (stack (vl s)) \<Longrightarrow> nil_slots k (int i) s = VRet () (with_stack s (overwrite (stack (vl s)) i (replicate k VNil)))"
proof (induction k arbitrary: i s)
  case (Suc k)
  then show ?case by (simp add: slot_steps del: nil_slots.simps of_nat_Suc)
qed simp

lemma copy_slots_nat:
  "src + k \<le> length (stack (vl s)) \<Longrightarrow> dst + k \<le> length (stack (vl s)) \<Longrightarrow> dst \<le> src \<or> src + k \<le> dst \<Longrightarrow>
   copy_slots k (int src) (int dst) s = VRet () (with_stack s (overwrite (stack (vl s)) dst (take k (drop src (stack (vl s))))))"
proof (induction k arbitrary: src dst s)
  case (Suc k)
  let ?st = "stack (vl s)"
  have keep: "take k (drop (Suc src) (?st[dst := ?st ! src])) = take k (drop (Suc src) ?st)"
    using Suc.prems by (intro nth_equalityI) auto
  have "take (Suc k) (drop src ?st) = ?st ! src # take k (drop (Suc src) ?st)"
    using Suc.prems by (simp add: Cons_nth_drop_Suc [symmetric])
  moreover have "Suc dst \<le> Suc src \<or> Suc src + k \<le> Suc dst" using Suc.prems(3) by auto
  ultimately show ?case using Suc.prems keep Suc.IH [of "Suc src" "with_stack s (?st[dst := ?st ! src])" "Suc dst"]
    by (simp add: slot_steps del: copy_slots.simps of_nat_Suc)
qed simp

subsection \<open>Returning\<close>

text \<open>The results of a call as its caller gets them.\<close>

definition adjusted :: "int \<Rightarrow> Value list \<Rightarrow> Value list" where
  "adjusted wanted vs = (if wanted = -1 then vs else take (nat wanted) vs @ replicate (nat wanted - length vs) VNil)"

lemma nat_int_diff: "nat (int a - int b) = a - b" by simp

lemma overwrite_append:
  "i + length xs + length ys \<le> length st \<Longrightarrow> overwrite (overwrite st i xs) (i + length xs) ys = overwrite st i (xs @ ys)"
  by (rule nth_equalityI) (auto simp: nth_overwrite nth_append)

lemma moveresults_nat:
  assumes "t = ltop (vl s)" "st = stack (vl s)" "t \<le> length st" "res + nres \<le> t" "-1 \<le> wanted" "res + nat wanted \<le> length st"
    "vs = adjusted wanted (take nres (drop (t - nres) st))"
  shows "moveresults (int res) (int nres) wanted s = VRet () (with_top (with_stack s
    (overwrite st res (vs @ replicate (t - (res + length vs)) VNil))) (res + length vs))"
proof -
  have clear: "vbind top_of (\<lambda>newTop. nil_slots (nat (int t - newTop)) newTop) (with_top (with_stack s st') t') =
      VRet () (with_top (with_stack s (overwrite st' t' (replicate (t - t') VNil))) t')"
    if "length st' = length st" "t' \<le> length st" for st' t'
    using that assms(3) nil_slots_nat [of t' "t - t'" "with_top (with_stack s st') t'"]
    by (simp add: vbind_step nat_int_diff)
  have len: "res + length vs \<le> length st" using assms by (auto simp: adjusted_def)
  consider "wanted = 0" | "wanted = 1" | "wanted \<noteq> 0" "wanted \<noteq> 1" by blast
  then have "(if wanted = 0 then set_top (int res) else if wanted = 1 then
         vseq (if int nres = 0 then set_reg (int res) VNil else vbind (reg (int t - int nres)) (set_reg (int res))) (set_top (int res + 1))
       else
         let wanted = (if wanted = -1 then int nres else wanted); first = int t - int nres;
             nres = (if int nres > wanted then wanted else int nres) in
         vseq (copy_slots (nat nres) first (int res))
           (vseq (nil_slots (nat (wanted - nres)) (int res + nres)) (set_top (int res + wanted)))) s =
       VRet () (with_top (with_stack s (overwrite st res vs)) (res + length vs))"
  proof cases
    case 1
    then show ?thesis using assms by (simp add: adjusted_def)
  next
    case 2
    have "int res + 1 = int (Suc res)" by simp
    moreover have "reg (int t - int nres) s = VRet (st ! (t - nres)) s" if "nres > 0"
      using that assms reg_nat [of "t - nres" s] by (simp add: of_nat_diff)
    moreover have "take 1 (take nres (drop (t - nres) st)) = [st ! (t - nres)]" if "nres > 0"
      using that assms by (simp add: Cons_nth_drop_Suc [symmetric])
    moreover have "st[res := x] = overwrite st res [x]" for x
      using 2 assms by (intro nth_equalityI) (auto simp: nth_overwrite nth_list_update)
    ultimately show ?thesis using 2 assms
      by (cases "nres = 0") (simp_all add: adjusted_def vbind_step del: of_nat_Suc take_take)
  next
    case 3
    define w where "w = (if wanted = -1 then nres else nat wanted)"
    define m where "m = min nres w"
    let ?xs = "take m (drop (t - nres) st)"
    have w: "(if wanted = -1 then int nres else wanted) = int w" using assms(5) by (simp add: w_def)
    have m: "(if int nres > int w then int w else int nres) = int m" "nat (int w - int m) = w - m" by (simp_all add: m_def)
    have vs: "vs = ?xs @ replicate (w - m) VNil" "length ?xs = m" "m \<le> w"
      using assms by (auto simp: adjusted_def w_def m_def min_def)
    have bounds: "t - nres + m \<le> length st" "res \<le> t - nres" "res + w \<le> length st" using assms vs by (auto simp: m_def w_def split: if_splits)
    have "copy_slots m (int t - int nres) (int res) s = VRet () (with_stack s (overwrite st res ?xs))"
      using copy_slots_nat [of "t - nres" m s res] assms(1,2,4) bounds vs(3) by (simp add: of_nat_diff)
    moreover have "nil_slots (w - m) (int res + int m) (with_stack s (overwrite st res ?xs)) = VRet () (with_stack s (overwrite st res vs))"
      using nil_slots_nat [of "res + m" "w - m" "with_stack s (overwrite st res ?xs)"] bounds vs overwrite_append [of res ?xs "replicate (w - m) VNil" st]
      by simp
    moreover have "length vs = w" using vs by simp
    ultimately show ?thesis using 3 w m by (simp add: vbind_step Let_def del: of_nat_add)
  qed
  then have body: "moveresults (int res) (int nres) wanted s =
      vbind top_of (\<lambda>newTop. nil_slots (nat (int t - newTop)) newTop) (with_top (with_stack s (overwrite st res vs)) (res + length vs))"
    unfolding moveresults_def vbind_step(1) [OF top_simps(1)] assms(1) [symmetric] by (rule vbind_step(2))
  have "overwrite (overwrite st res vs) (res + length vs) (replicate (t - (res + length vs)) VNil) =
      overwrite st res (vs @ replicate (t - (res + length vs)) VNil)"
    using len assms(3) by (intro overwrite_append) auto
  then show ?thesis using clear [of "overwrite st res vs" "res + length vs"] len by (simp only: body length_overwrite)
qed

text \<open>
  C34: a return hands over exactly the values it has, cut off or filled up with nil to the number that the caller wants, at the place of the
  called function; the caller's frame is current again, every slot that the call vacated is cleared and no other slot changes.
\<close>

theorem return_adjusts:
  assumes "vcis s = ci # cs" "ci_fn ci = int fn" "-1 \<le> ci_nresults ci" "ltop (vl s) \<le> length (stack (vl s))"
    "fn + nres \<le> ltop (vl s)" "fn + nat (ci_nresults ci) \<le> length (stack (vl s))"
    "vs = adjusted (ci_nresults ci) (take nres (drop (ltop (vl s) - nres) (stack (vl s))))"
  shows "\<exists>s'. poscall (int nres) s = VRet () s' \<and> vcis s' = cs \<and> ltop (vl s') = fn + length vs \<and>
    stack (vl s') = overwrite (stack (vl s)) fn (vs @ replicate (ltop (vl s) - (fn + length vs)) VNil)"
proof -
  have "moveresults (int fn) (int nres) (ci_nresults ci) s = VRet () (with_top (with_stack s
      (overwrite (stack (vl s)) fn (vs @ replicate (ltop (vl s) - (fn + length vs)) VNil))) (fn + length vs))"
    using assms by (intro moveresults_nat) auto
  then show ?thesis using assms(1,2) by (simp add: poscall_def vbind_step cur_ci_def)
qed

subsection \<open>Variadic arguments\<close>

definition room :: "nat \<Rightarrow> LState \<Rightarrow> bool" where
  "room n l \<longleftrightarrow> stack_ok l \<and> \<not> inErrfunc l \<and> ltop l + n \<le> maxStack l"

lemma vcheckstack_room:
  assumes "room n (vl s)"
  obtains k where "vcheckstack H n s = VRet () (with_stack s (stack (vl s) @ replicate k VNil))"
    "ltop (vl s) + n \<le> length (stack (vl s)) + k"
proof -
  have "stack_ok (vl s)" using assms by (simp add: room_def)
  then show ?thesis
  proof (cases rule: checkstack_cases [of "vl s" n])
    case (fails msg)
    then show ?thesis using assms by (auto simp: room_def checkstack_def Let_def split: if_splits option.splits)
  next
    case (grows l)
    then obtain k where "l = (vl s)\<lparr>stack := stack (vl s) @ replicate k VNil\<rparr>" "ltop (vl s) + n \<le> length (stack l)"
      by (auto simp: grown_def)
    with grows show ?thesis by (intro that [of k]) (auto simp: vcheckstack_def with_stack_def)
  qed
qed

lemma move_params_Suc:
  "move_params (Suc k) (int i) = vbind top_of (\<lambda>t. vbind (reg (int i)) (\<lambda>v. vseq (set_reg t v) (vseq (set_top (t + 1))
     (vseq (set_reg (int i) VNil) (move_params k (int (Suc i)))))))"
  by (simp add: add.commute)

text \<open>The stack after \<open>k\<close> slots from \<open>i\<close> on have moved to \<open>t\<close>.\<close>

definition moved :: "nat \<Rightarrow> nat \<Rightarrow> nat \<Rightarrow> Value list \<Rightarrow> Value list" where
  "moved t i k st = map (\<lambda>j. if i \<le> j \<and> j < i + k then VNil else if t \<le> j \<and> j < t + k then st ! (i + (j - t)) else st ! j) [0..<length st]"

lemma move_params_nat:
  "i + k \<le> ltop (vl s) \<Longrightarrow> ltop (vl s) + k \<le> length (stack (vl s)) \<Longrightarrow>
   move_params k (int i) s = VRet () (with_top (with_stack s (moved (ltop (vl s)) i k (stack (vl s)))) (ltop (vl s) + k))"
proof (induction k arbitrary: i s)
  case 0
  have "moved t i 0 st = st" for t i st by (rule nth_equalityI) (auto simp: moved_def)
  moreover have "with_top s (ltop (vl s)) = s" by (simp add: with_top_def)
  ultimately show ?case by simp
next
  case (Suc k)
  let ?st = "stack (vl s)" and ?t = "ltop (vl s)"
  let ?st1 = "?st[?t := ?st ! i, i := VNil]"
  let ?s1 = "with_top (with_stack s ?st1) (Suc ?t)"
  have "move_params (Suc k) (int i) s = move_params k (int (Suc i)) ?s1"
    using Suc.prems by (simp add: move_params_Suc vbind_step del: move_params.simps of_nat_Suc)
  moreover have "moved (Suc ?t) (Suc i) k ?st1 ! j = moved ?t i (Suc k) ?st ! j" if "j < length ?st" for j
  proof -
    consider "j = i" | "j = ?t" | "j \<noteq> i" "j \<noteq> ?t" by blast
    then show ?thesis using that Suc.prems by cases (auto simp: moved_def nth_list_update intro!: arg_cong2 [where f = nth])
  qed
  then have "moved (Suc ?t) (Suc i) k ?st1 = moved ?t i (Suc k) ?st"
    by (intro nth_equalityI) (simp_all add: moved_def)
  ultimately show ?case using Suc.IH [of "Suc i" ?s1] Suc.prems by simp
qed

definition with_cis :: "VM \<Rightarrow> callInfo list \<Rightarrow> VM" where "with_cis s cs = s\<lparr>vcis := cs\<rparr>"

lemma with_cis_simps [simp]:
  "vcis (with_cis s cs) = cs" "vl (with_cis s cs) = vl s" "with_cis (with_cis s cs) ds = with_cis s ds"
  "with_stack (with_cis s cs) st = with_cis (with_stack s st) cs" "with_top (with_cis s cs) t = with_cis (with_top s t) cs"
  by (simp_all add: with_cis_def with_stack_def with_top_def)

lemma ci_steps: "vcis s = ci # cs \<Longrightarrow> cur_ci s = VRet ci s" "vcis s = ci # cs \<Longrightarrow> upd_ci g s = VRet () (with_cis s (g ci # cs))"
  by (simp_all add: cur_ci_def upd_ci_def with_cis_def)

text \<open>The frame of a function with \<open>nfix\<close> parameters after \<open>VARARGPREP\<close>.\<close>

lemma adjustvarargs_nat:
  assumes "vcis s = ci # cs" "ci_fn ci = int fn" "fn + 1 + nfix \<le> ltop (vl s)" "room (unat (MaxStackSize p) + 1) (vl s)"
    "nfix \<le> unat (MaxStackSize p)"
  defines "t \<equiv> ltop (vl s)"
  obtains k where
    "adjustvarargs H (int nfix) p s = VRet () (with_cis (with_top (with_stack s
       (moved (t + 1) (fn + 1) nfix ((stack (vl s) @ replicate k VNil)[t := (stack (vl s) @ replicate k VNil) ! fn]))) (t + 1 + nfix))
       (ci\<lparr>ci_nextra := int t - int fn - 1 - int nfix, ci_fn := int t, ci_base := int t + 1, ci_top := ci_top ci + (int t - int fn)\<rparr> # cs))"
    "t + unat (MaxStackSize p) + 1 \<le> length (stack (vl s)) + k"
proof -
  let ?ci = "ci\<lparr>ci_nextra := int t - int fn - 1 - int nfix\<rparr>"
  obtain k where k: "vcheckstack H (unat (MaxStackSize p) + 1) (with_cis s (?ci # cs)) =
        VRet () (with_cis (with_stack s (stack (vl s) @ replicate k VNil)) (?ci # cs))"
      "t + unat (MaxStackSize p) + 1 \<le> length (stack (vl s)) + k"
    using vcheckstack_room [of "unat (MaxStackSize p) + 1" "with_cis s (?ci # cs)" H thesis] assms(4) by (simp add: t_def add.assoc)
  have size: "nat (uint (MaxStackSize p) + 1) = unat (MaxStackSize p) + 1" by (simp add: nat_add_distrib)
  have nextra: "\<not> int t - int fn - 1 < int nfix" using assms(3) by (simp add: t_def)
  have len: "t < length (stack (vl s)) + k" "fn < length (stack (vl s)) + k" "t + 1 + nfix \<le> length (stack (vl s)) + k" "fn < t"
    using k(2) assms(3,5) by (auto simp: t_def)
  let ?st = "stack (vl s) @ replicate k VNil"
  let ?s1 = "with_cis (with_stack s ?st) (?ci # cs)"
  let ?s2 = "with_top (with_stack ?s1 (?st[t := ?st ! fn])) (t + 1)"
  have mv: "move_params nfix (int fn + 1) ?s2 =
      VRet () (with_top (with_stack ?s2 (moved (t + 1) (fn + 1) nfix (?st[t := ?st ! fn]))) (t + 1 + nfix))"
    using move_params_nat [of "fn + 1" nfix ?s2] assms(3) len by (simp add: t_def add.commute)
  have fnv: "reg (int fn) ?s1 = VRet (?st ! fn) ?s1" "set_reg (int t) x ?s1 = VRet () (with_stack ?s1 (?st[t := x]))" for x
    using len by (simp_all del: with_cis_simps(4,5))
  have "adjustvarargs H (int nfix) p s = VRet () (with_cis (with_top (with_stack s
       (moved (t + 1) (fn + 1) nfix (?st[t := ?st ! fn]))) (t + 1 + nfix))
       (ci\<lparr>ci_nextra := int t - int fn - 1 - int nfix, ci_fn := int t, ci_base := int t + 1, ci_top := ci_top ci + (int t - int fn)\<rparr> # cs))"
    using assms(2) fnv k(1) mv nextra size
    by (simp add: adjustvarargs_def vbind_step ci_steps [OF assms(1)] ci_steps [OF with_cis_simps(1)] Let_def t_def [symmetric] add.commute [of 1])
  with k(2) show ?thesis by (rule that [rotated])
qed

lemma getvarargs_nat:
  assumes "vcis s = ci # cs" "ci_nextra ci = int n" "ci_fn ci = int t" "n \<le> t"
  shows "getvarargs H (int dst) (int w) s =
    vseq (copy_slots (min w n) (int (t - n)) (int dst)) (nil_slots (w - min w n) (int (dst + min w n))) s"
proof -
  have "nat (min (int w) (int n)) = min w n" "nat (int w - min (int w) (int n)) = w - min w n"
      "int (min w n) = min (int w) (int n)" by simp_all
  moreover have "vseq (vret ()) m s = m s" for m :: "unit vm" by (simp add: vseq_def vbind_def vret_def)
  moreover have "vbind cur_ci k s = k ci s" for k :: "callInfo \<Rightarrow> unit vm"
    using ci_steps(1) [OF assms(1)] by (rule vbind_step(1))
  ultimately show ?thesis using assms(2-4) by (simp add: getvarargs_def Let_def of_nat_diff)
qed

text \<open>
  C35: in a variadic function, \<open>...\<close> stands for exactly the arguments that the caller passed beyond the parameters, in order and filled up with nil to the
  number asked for, and the parameters are what the caller passed in their places.
\<close>

theorem varargs_kept:
  assumes "vcis s = ci # cs" "ci_fn ci = int fn" "fn + 1 + nfix \<le> t" "t = ltop (vl s)" "t \<le> length (stack (vl s))"
    "room (unat (MaxStackSize p) + 1) (vl s)" "nfix \<le> r" "r + w \<le> unat (MaxStackSize p)"
  shows "\<exists>s'. vseq (adjustvarargs H (int nfix) p) (getvarargs H (int (t + 1 + r)) (int w)) s = VRet () s' \<and>
    ci_base (hd (vcis s')) = int (t + 1) \<and>
    (\<forall>i < nfix. stack (vl s') ! (t + 1 + i) = stack (vl s) ! (fn + 1 + i)) \<and>
    (\<forall>i < w. stack (vl s') ! (t + 1 + r + i) = (if i < t - (fn + 1 + nfix) then stack (vl s) ! (fn + 1 + nfix + i) else VNil))"
proof -
  have "nfix \<le> unat (MaxStackSize p)" using assms(7,8) by simp
  then obtain k where k: "adjustvarargs H (int nfix) p s = VRet () (with_cis (with_top (with_stack s
       (moved (t + 1) (fn + 1) nfix ((stack (vl s) @ replicate k VNil)[t := (stack (vl s) @ replicate k VNil) ! fn]))) (t + 1 + nfix))
       (ci\<lparr>ci_nextra := int t - int fn - 1 - int nfix, ci_fn := int t, ci_base := int t + 1, ci_top := ci_top ci + (int t - int fn)\<rparr> # cs))"
    "t + unat (MaxStackSize p) + 1 \<le> length (stack (vl s)) + k"
    using adjustvarargs_nat [OF assms(1,2) _ assms(6), of nfix H thesis] assms(3,4) by metis
  define st where "st = moved (t + 1) (fn + 1) nfix ((stack (vl s) @ replicate k VNil)[t := (stack (vl s) @ replicate k VNil) ! fn])"
  define n where "n = t - (fn + 1 + nfix)"
  let ?ci = "ci\<lparr>ci_nextra := int t - int fn - 1 - int nfix, ci_fn := int t, ci_base := int t + 1, ci_top := ci_top ci + (int t - int fn)\<rparr>"
  let ?s1 = "with_cis (with_top (with_stack s st) (t + 1 + nfix)) (?ci # cs)"
  have n: "int t - int fn - 1 - int nfix = int n" using assms(3) by (simp add: n_def of_nat_diff)
  have len: "length st = length (stack (vl s)) + k" by (simp add: st_def moved_def)
  have st: "i < length st \<Longrightarrow> st ! i = (if fn + 1 \<le> i \<and> i < fn + 1 + nfix then VNil
      else if t + 1 \<le> i \<and> i < t + 1 + nfix then stack (vl s) ! (fn + 1 + (i - (t + 1))) else if i < t then stack (vl s) ! i else st ! i)" for i
    using assms(3,5) len by (auto simp: st_def moved_def nth_append nth_list_update)
  let ?xs = "take (min w n) (drop (t - n) st)" and ?nils = "replicate (w - min w n) VNil"
  have nt: "n \<le> t" "t - n = fn + 1 + nfix" using assms(3) by (simp_all add: n_def)
  have room: "t + 1 + r + w \<le> length st" using k(2) assms(8) len by simp
  have xs: "length ?xs = min w n" using nt room by simp
  have sv: "stack (vl ?s1) = st" "stack (vl (with_stack ?s1 st')) = st'" "with_stack (with_stack ?s1 st') st'' = with_stack ?s1 st''" for st' st'' by simp_all
  have "copy_slots (min w n) (int (t - n)) (int (t + 1 + r)) ?s1 = VRet () (with_stack ?s1 (overwrite st (t + 1 + r) ?xs))"
    by (rule copy_slots_nat [of "t - n" "min w n" ?s1 "t + 1 + r", unfolded sv]) (use nt room in auto)
  moreover have "nil_slots (w - min w n) (int (t + 1 + r + min w n)) (with_stack ?s1 (overwrite st (t + 1 + r) ?xs)) =
      VRet () (with_stack ?s1 (overwrite st (t + 1 + r) (?xs @ ?nils)))"
    using nil_slots_nat [of "t + 1 + r + min w n" "w - min w n" "with_stack ?s1 (overwrite st (t + 1 + r) ?xs)", unfolded sv] room xs
      overwrite_append [of "t + 1 + r" ?xs ?nils st] by (simp del: with_cis_simps of_nat_add of_nat_Suc)
  ultimately have "vseq (copy_slots (min w n) (int (t - n)) (int (t + 1 + r))) (nil_slots (w - min w n) (int (t + 1 + r + min w n))) ?s1 =
      VRet () (with_stack ?s1 (overwrite st (t + 1 + r) (?xs @ ?nils)))"
    by (simp only: vbind_step(2))
  then have "getvarargs H (int (t + 1 + r)) (int w) ?s1 = VRet () (with_stack ?s1 (overwrite st (t + 1 + r) (?xs @ ?nils)))"
    by (rule getvarargs_nat [OF with_cis_simps(1) _ _ nt(1), THEN trans, rotated 2]) (simp_all add: n)
  then have run: "vseq (adjustvarargs H (int nfix) p) (getvarargs H (int (t + 1 + r)) (int w)) s =
      VRet () (with_stack ?s1 (overwrite st (t + 1 + r) (?xs @ ?nils)))"
    using k(1) unfolding st_def by (rule vbind_step(2) [THEN trans, rotated])
  have item: "overwrite st (t + 1 + r) (?xs @ ?nils) ! (t + 1 + r + i) = (if i < n then stack (vl s) ! (fn + 1 + nfix + i) else VNil)"
    if i: "i < w" for i
  proof -
    have o: "overwrite st (t + 1 + r) (?xs @ ?nils) ! (t + 1 + r + i) = (?xs @ ?nils) ! i"
      using i room xs by (subst nth_overwrite) auto
    have a: "(?xs @ ?nils) ! i = (if i < n then st ! (fn + 1 + nfix + i) else VNil)"
      using i xs nt room by (auto simp: nth_append)
    have b: "st ! (fn + 1 + nfix + i) = stack (vl s) ! (fn + 1 + nfix + i)" if "i < n"
      using that by (subst st) (use nt room assms(3) in auto)
    show ?thesis unfolding o a using b by (rule if_cong [OF refl _ refl])
  qed
  have param: "overwrite st (t + 1 + r) (?xs @ ?nils) ! (t + 1 + i) = stack (vl s) ! (fn + 1 + i)" if i: "i < nfix" for i
  proof -
    have "overwrite st (t + 1 + r) (?xs @ ?nils) ! (t + 1 + i) = st ! (t + 1 + i)"
      using i room xs assms(7) by (subst nth_overwrite) auto
    also have "\<dots> = stack (vl s) ! (fn + 1 + i)"
      by (subst st) (use i room assms(3,7) in auto)
    finally show ?thesis .
  qed
  have final: "vcis (with_stack ?s1 st') = ?ci # cs" "stack (vl (with_stack ?s1 st')) = st'" for st' by simp_all
  show ?thesis
  proof (rule exI, intro conjI)
    show "ci_base (hd (vcis (with_stack ?s1 (overwrite st (t + 1 + r) (?xs @ ?nils))))) = int (t + 1)" unfolding final by simp
  qed (use run item param in \<open>simp_all only: final n_def [symmetric] not_False_eq_True simp_thms\<close>, blast+)
qed

text \<open>A frame of the function at slot 0 of a stack with the given registers, for the concrete cases.\<close>

definition frame_of :: "int \<Rightarrow> callInfo" where
  "frame_of nresults = \<lparr>ci_fn = 0, ci_base = 1, ci_top = 10, ci_savedpc = 0, ci_nresults = nresults, ci_nextra = 0, ci_nres = 0,
     ci_C = False, ci_Fresh = False, ci_Tail = False\<rparr>"

definition vm_of :: "Value list \<Rightarrow> nat \<Rightarrow> int \<Rightarrow> VM" where
  "vm_of regs t nresults = \<lparr>vl = (init_state regs 1000)\<lparr>ltop := t\<rparr>, vtabs = (\<lambda>p. newTable), vtabn = 0, vclos = (\<lambda>p. GoClosure 0), vclon = 0,
     vudmeta = (\<lambda>p. None), vstringMT = None, vbasicMT = (\<lambda>i. None), vcis = [frame_of nresults], verrReg = 0, verrUpval = 0, vnCcalls = 0, vsync = False, vnoYield = 0\<rparr>"

lemma vm_of_simps [simp]:
  "vl (vm_of regs t n) = (init_state regs 1000)\<lparr>ltop := t\<rparr>" "vcis (vm_of regs t n) = [frame_of n]"
  by (simp_all add: vm_of_def)

theorem return_adjusts_witness:
  "\<exists>s'. poscall 2 (vm_of [VTable 1, VInt 1, VInt 2, VInt 3, VNil] 4 3) = VRet () s' \<and> vcis s' = [] \<and> ltop (vl s') = 3 \<and>
     stack (vl s') = [VInt 2, VInt 3, VNil, VNil, VNil]"
  using return_adjusts [of "vm_of [VTable 1, VInt 1, VInt 2, VInt 3, VNil] 4 3" "frame_of 3" "[]" 0 2 "[VInt 2, VInt 3, VNil]"]
  by (simp add: frame_of_def init_state_def adjusted_def overwrite_def numeral_eq_Suc)

theorem varargs_kept_witness:
  "\<forall>H. \<exists>s'. vseq (adjustvarargs H (int 1) (Proto 1 True 4 [] [] [] [] [] 0 0 [] []))
       (getvarargs H (int (4 + 1 + 1)) (int 3)) (vm_of ([VInt 0, VInt 1, VInt 2, VInt 3] @ replicate 30 VNil) 4 0) = VRet () s' \<and>
     ci_base (hd (vcis s')) = int (4 + 1) \<and> stack (vl s') ! 5 = VInt 1 \<and>
     stack (vl s') ! 6 = VInt 2 \<and> stack (vl s') ! 7 = VInt 3 \<and> stack (vl s') ! 8 = VNil"
proof
  fix H
  let ?s = "vm_of ([VInt 0, VInt 1, VInt 2, VInt 3] @ replicate 30 VNil) 4 0" and ?p = "Proto 1 True 4 [] [] [] [] [] 0 0 [] []"
  have "\<exists>s'. vseq (adjustvarargs H (int 1) ?p) (getvarargs H (int (4 + 1 + 1)) (int 3)) ?s = VRet () s' \<and>
    ci_base (hd (vcis s')) = int (4 + 1) \<and>
    (\<forall>i < 1. stack (vl s') ! (4 + 1 + i) = stack (vl ?s) ! (0 + 1 + i)) \<and>
    (\<forall>i < 3. stack (vl s') ! (4 + 1 + 1 + i) = (if i < 4 - (0 + 1 + 1) then stack (vl ?s) ! (0 + 1 + 1 + i) else VNil))"
    by (rule varargs_kept [of ?s "frame_of 0" "[]" 0 1 4 ?p 1 3 H])
      (simp_all add: frame_of_def init_state_def room_def stack_ok_def)
  then show "\<exists>s'. vseq (adjustvarargs H (int 1) ?p) (getvarargs H (int (4 + 1 + 1)) (int 3)) ?s = VRet () s' \<and>
     ci_base (hd (vcis s')) = int (4 + 1) \<and> stack (vl s') ! 5 = VInt 1 \<and>
     stack (vl s') ! 6 = VInt 2 \<and> stack (vl s') ! 7 = VInt 3 \<and> stack (vl s') ! 8 = VNil"
    by (elim exE) (intro exI, auto simp: init_state_def All_less_Suc numeral_eq_Suc)
qed

subsection \<open>All variadic arguments at once\<close>

lemma copy_slots_panics:
  "src + k \<le> length (stack (vl s)) \<Longrightarrow> length (stack (vl s)) < dst + k \<Longrightarrow> dst \<le> length (stack (vl s)) \<Longrightarrow>
   copy_slots k (int src) (int dst) s = VPanic"
proof (induction k arbitrary: src dst s)
  case (Suc k)
  show ?case
  proof (cases "dst < length (stack (vl s))")
    case True
    then show ?thesis using Suc.prems Suc.IH [of "Suc src" "with_stack s ((stack (vl s))[dst := stack (vl s) ! src])" "Suc dst"]
      by (simp add: slot_steps del: copy_slots.simps of_nat_Suc)
  next
    case False
    then have "set_reg (int dst) v s = VPanic" for v using Suc.prems by (simp add: set_reg_def on_thread_def stack_set_def)
    then show ?thesis using Suc.prems by (simp add: slots_Suc vbind_step del: copy_slots.simps of_nat_Suc) (simp add: vseq_def vbind_def)
  qed
qed simp

text \<open>
  C36: \<open>getvarargs\<close> asks for room above the top of the stack, but a Lua function that is running keeps its registers above the top: when the
  registers and the extra arguments together do not fit although the room asked for is there, handing over all variadic arguments is a Go
  index panic and not a Lua error.
\<close>

theorem getvarargs_panics:
  assumes "vcis s = ci # cs" "ci_nextra ci = int n" "ci_fn ci = int fn" "n \<le> fn" "fn \<le> length (stack (vl s))"
    "\<not> inErrfunc (vl s)" "ltop (vl s) + n \<le> maxStack (vl s)" "ltop (vl s) + n + extraStack \<le> length (stack (vl s))"
    "dst \<le> length (stack (vl s))" "length (stack (vl s)) < dst + n"
  shows "getvarargs H (int dst) (-1) s = VPanic"
proof -
  have "vcheckstack H n s = VRet () s" using assms(6-8) by (simp add: vcheckstack_def checkstack_def)
  then have "vseq (vcheckstack H n) (set_top (int dst + int n)) s = VRet () (with_top s (dst + n))" by (simp add: vbind_step)
  moreover have "copy_slots n (int fn - int n) (int dst) (with_top s (dst + n)) = VPanic"
    using copy_slots_panics [of "fn - n" n "with_top s (dst + n)" dst] assms(4,5,9,10) by (simp add: of_nat_diff)
  then have "vseq (copy_slots n (int fn - int n) (int dst)) k (with_top s (dst + n)) = VPanic" for k :: "unit vm"
    by (simp add: vseq_def vbind_def)
  moreover have "vbind cur_ci k s = k ci s" for k :: "callInfo \<Rightarrow> unit vm"
    using ci_steps(1) [OF assms(1)] by (rule vbind_step(1))
  ultimately show ?thesis using assms(2,3) by (simp add: getvarargs_def Let_def vbind_step(2))
qed

text \<open>A function with the maximal stack size 30 that got 35 extra arguments and no others, and evaluates \<open>...\<close> into its register 25.\<close>

theorem getvarargs_panics_witness:
  "\<forall>H. vseq (adjustvarargs H (int 0) (Proto 0 True 30 [] [] [] [] [] 0 0 [] [])) (getvarargs H (int (37 + 25)) (-1))
     (vm_of (replicate 90 VNil) 36 0) = VPanic"
proof
  fix H
  let ?s = "vm_of (replicate 90 VNil) 36 0"
  let ?s1 = "with_cis (with_top ?s 37) [(frame_of 0)\<lparr>ci_nextra := 35, ci_fn := 36, ci_base := 37, ci_top := 46\<rparr>]"
  have "vcheckstack H n s = VRet () s" if "ltop (vl s) + n + extraStack \<le> length (stack (vl s))" "ltop (vl s) + n \<le> maxStack (vl s)"
      "\<not> inErrfunc (vl s)" for n s
    using that by (simp add: vcheckstack_def checkstack_def)
  moreover have "(replicate 90 VNil)[36 := VNil] = replicate 90 VNil"
    by (rule nth_equalityI) (simp_all add: nth_list_update)
  moreover have "with_stack s' (replicate 90 VNil) = s'" if "stack (vl s') = replicate 90 VNil" for s' using that by (simp add: with_stack_def)
  moreover have "vseq (vret ()) m s = m s" for m :: "unit vm" and s by (simp add: vseq_def vbind_def vret_def)
  ultimately have "adjustvarargs H (int 0) (Proto 0 True 30 [] [] [] [] [] 0 0 [] []) ?s = VRet () ?s1"
    using reg_nat [of 0] set_reg_nat [of 36] top_simps(2) [of 37]
    by (simp add: adjustvarargs_def vbind_step ci_steps frame_of_def init_state_def extraStack_def del: with_cis_simps(4,5) with_stack_simps(9)) (simp add: with_cis_def with_top_def)
  moreover have "getvarargs H (int (37 + 25)) (-1) ?s1 = VPanic"
    by (rule getvarargs_panics [of ?s1 "(frame_of 0)\<lparr>ci_nextra := 35, ci_fn := 36, ci_base := 37, ci_top := 46\<rparr>" "[]" 35 36])
      (simp_all add: init_state_def extraStack_def with_top_def)
  ultimately show "vseq (adjustvarargs H (int 0) (Proto 0 True 30 [] [] [] [] [] 0 0 [] [])) (getvarargs H (int (37 + 25)) (-1)) ?s = VPanic"
    by (rule vbind_step(2) [THEN trans])
qed

end
