(* ===== verification/FoldProps.thy ===== *)
theory FoldProps
  imports CodeProps FrameProps
begin

text \<open>
  Constant folding (\<open>constfolding\<close>, lcode.go) against the instructions it saves (\<open>dispatch\<close>, lvm.go): the compiler folds
  with \<open>rawArith\<close>, the instructions have arithmetic of their own.
\<close>

subsection \<open>Instructions that apply an operator\<close>











subsection \<open>What is folded\<close>














end
