(* ===== verification/MetaProps.thy ===== *)
theory MetaProps
  imports FrameProps
begin

text \<open>
  Indexing through chains of \<open>__index\<close> tables, and concatenation of strings and numbers.
\<close>

subsection \<open>Inheritance through \<open>__index\<close>\<close>

definition tables_ok :: "VM \<Rightarrow> bool" where "tables_ok s \<longleftrightarrow> (\<forall>p. tbl_ok (vtabs s p))"

text \<open>The tables of \<open>s'\<close> read like those of \<open>s\<close>; nothing else differs.\<close>

definition reads_alike :: "host \<Rightarrow> VM \<Rightarrow> VM \<Rightarrow> bool" where
  "reads_alike H s' s \<longleftrightarrow> (\<exists>T. s' = s\<lparr>vtabs := T\<rparr> \<and>
     (\<forall>p. tbl_ok (T p) \<and> tget (h_alive H) (T p) = tget (h_alive H) (vtabs s p) \<and> meta (T p) = meta (vtabs s p)))"

definition index_of :: "host \<Rightarrow> VM \<Rightarrow> ptr \<Rightarrow> Value" where
  "index_of H s p = (case meta (vtabs s p) of None \<Rightarrow> VNil | Some m \<Rightarrow> tget (h_alive H) (vtabs s m) (VString (lit ''__index'')))"

lemma reads_alike_refl: "tables_ok s \<Longrightarrow> reads_alike H s s"
  by (auto simp: reads_alike_def tables_ok_def intro!: exI [of _ "vtabs s"])

lemma reads_alike_trans: "reads_alike H s'' s' \<Longrightarrow> reads_alike H s' s \<Longrightarrow> reads_alike H s'' s"
  by (auto simp: reads_alike_def)

lemma meta_hash_get [simp]: "meta (snd (hash_get alive nk t)) = meta t"
  by (simp add: hash_get_def hashdel_def Let_def split: option.split)

lemma meta_rawget [simp]: "meta (snd (rawget alive key t)) = meta t"
  by (auto simp: rawget_def rawgetInt_def Let_def split: Value.splits option.splits)

lemma rawgetStr_rawget: "rawgetStr alive k = rawget alive (VString k)"
  by (rule ext) (simp add: rawgetStr_def rawget_def normKey_def str_key_def)

lemma tab_read_alike:
  assumes "tables_ok s"
  obtains s' where "tab_read p (rawget (h_alive H) key) s = VRet (tget (h_alive H) (vtabs s p) key) s'" "reads_alike H s' s"
proof -
  have "read_equal (h_alive H) (snd (rawget (h_alive H) key (vtabs s p))) (vtabs s p)"
    using assms by (intro rawget_frame) (simp add: tables_ok_def)
  then have t: "tbl_ok (snd (rawget (h_alive H) key (vtabs s p)))"
      "\<And>k. tget (h_alive H) (snd (rawget (h_alive H) key (vtabs s p))) k = tget (h_alive H) (vtabs s p) k"
    by (auto simp: read_equal_def read_equal_tget)
  have "reads_alike H (s\<lparr>vtabs := (vtabs s)(p := snd (rawget (h_alive H) key (vtabs s p)))\<rparr>) s"
    unfolding reads_alike_def using assms t
    by (intro exI [of _ "(vtabs s)(p := snd (rawget (h_alive H) key (vtabs s p)))"]) (simp add: tables_ok_def fun_eq_iff)
  then show ?thesis
    by (rule that [rotated]) (simp add: tab_read_def fst_rawget [symmetric] split: prod.split)
qed

lemma alike_simps:
  assumes "reads_alike H s' s"
  shows "tables_ok s'" "index_of H s' p = index_of H s p" "tget (h_alive H) (vtabs s' p) k = tget (h_alive H) (vtabs s p) k"
    "meta (vtabs s' p) = meta (vtabs s p)" "vl s' = vl s" "vcis s' = vcis s"
  using assms by (auto simp: reads_alike_def tables_ok_def index_of_def split: option.split)

lemma vbind_vget [simp]: "vbind (vget g) k s = k (g s) s"
  by (simp add: vbind_def)

text \<open>One round of the loop on a table.\<close>

lemma index_round:
  fixes fin :: "Value \<Rightarrow> 'c vm"
  assumes "tables_ok s"
  obtains s' where "reads_alike H s' s"
    "gettable_loop H fin handler key (Suc n) (VTable p) s =
      (if tget (h_alive H) (vtabs s p) key \<noteq> VNil then fin (tget (h_alive H) (vtabs s p) key) s'
       else if index_of H s p = VNil then fin VNil s'
       else if tag (index_of H s p) = tagFunction then handler (index_of H s p) (VTable p) s'
       else gettable_loop H fin handler key n (index_of H s p) s')"
proof -
  obtain s1 where s1: "tab_read p (rawget (h_alive H) key) s = VRet (tget (h_alive H) (vtabs s p) key) s1" "reads_alike H s1 s"
    using tab_read_alike [OF assms] .
  have b1: "vbind (tab_read p (rawget (h_alive H) key)) k s = k (tget (h_alive H) (vtabs s p) key) s1" for k :: "Value \<Rightarrow> 'c vm"
    using s1(1) by (rule vbind_step(1))
  show ?thesis
  proof (cases "tget (h_alive H) (vtabs s p) key = VNil \<and> meta (vtabs s p) \<noteq> None")
    case False
    then show ?thesis
      by (intro that [OF s1(2)]) (use alike_simps(4) [OF s1(2), of p] in \<open>auto simp: b1 index_of_def Let_def\<close>)
  next
    case True
    then obtain m where m: "meta (vtabs s p) = Some m" by auto
    obtain s2 where s2: "tab_read m (rawget (h_alive H) (VString (lit ''__index''))) s1 = VRet (index_of H s p) s2" "reads_alike H s2 s1"
      by (rule tab_read_alike [OF alike_simps(1) [OF s1(2)], of m H "VString (lit ''__index'')"])
        (simp add: index_of_def m alike_simps(3) [OF s1(2)])
    have b2: "vbind (tab_read m (rawgetStr (h_alive H) (lit ''__index''))) k s1 = k (index_of H s p) s2" for k :: "Value \<Rightarrow> 'c vm"
      using s2(1) unfolding rawgetStr_rawget by (rule vbind_step(1))
    have "meta (vtabs s1 p) = Some m" "tget (h_alive H) (vtabs s p) key = VNil" using True m alike_simps(4) [OF s1(2), of p] by simp_all
    then show ?thesis
      by (intro that [OF reads_alike_trans [OF s2(2) s1(2)]]) (simp add: b1 b2 Let_def)
  qed
qed

text \<open>\<open>n\<close> tables without the key, each the \<open>__index\<close> of the one before.\<close>

definition index_path :: "host \<Rightarrow> VM \<Rightarrow> Value \<Rightarrow> nat \<Rightarrow> (nat \<Rightarrow> ptr) \<Rightarrow> bool" where
  "index_path H s key n f \<longleftrightarrow> (\<forall>i < n. tget (h_alive H) (vtabs s (f i)) key = VNil \<and> index_of H s (f i) = VTable (f (Suc i)))"

lemma index_along:
  "tables_ok s \<Longrightarrow> index_path H s key n f \<Longrightarrow>
   \<exists>s'. reads_alike H s' s \<and> gettable_loop H fin handler key (n + m) (VTable (f 0)) s = gettable_loop H fin handler key m (VTable (f n)) s'"
proof (induction n arbitrary: f s)
  case 0
  then show ?case using reads_alike_refl by auto
next
  case (Suc n)
  obtain s1 where s1: "reads_alike H s1 s"
    "gettable_loop H fin handler key (Suc (n + m)) (VTable (f 0)) s = gettable_loop H fin handler key (n + m) (VTable (f 1)) s1"
    using index_round [OF Suc.prems(1), of H fin handler key "n + m" "f 0" thesis] Suc.prems(2) by (auto simp: index_path_def)
  have "index_path H s1 key n (\<lambda>i. f (Suc i))" using Suc.prems(2) by (auto simp: index_path_def alike_simps [OF s1(1)])
  from Suc.IH [OF alike_simps(1) [OF s1(1)] this] obtain s2 where s2: "reads_alike H s2 s1"
    "gettable_loop H fin handler key (n + m) (VTable (f 1)) s1 = gettable_loop H fin handler key m (VTable (f (Suc n))) s2"
    by auto
  show ?case
    by (intro exI [of _ s2] conjI reads_alike_trans [OF s2(1) s1(1)]) (use s1(2) s2(2) in \<open>simp del: gettable_loop.simps\<close>)
qed

text \<open>
  C37: indexing a table looks for the key along the chain of \<open>__index\<close> tables: the value of the first table that has the key goes to the register,
  nil when the chain ends without one; no table and no other register changes to any reader.
\<close>

theorem index_inherits:
  assumes "tables_ok s" "index_path H s key n f" "n < MaxTagLoop" "ra < length (stack (vl s))"
    "tget (h_alive H) (vtabs s (f n)) key \<noteq> VNil \<or> index_of H s (f n) = VNil"
  shows "\<exists>s'. reads_alike H s' s \<and> gettable H (VTable (f 0)) key (int ra) s =
    VRet () (with_stack s' ((stack (vl s))[ra := tget (h_alive H) (vtabs s (f n)) key]))"
proof -
  obtain m where m: "MaxTagLoop = n + Suc m" using assms(3) less_imp_Suc_add by auto
  obtain s1 where s1: "reads_alike H s1 s" "gettable H (VTable (f 0)) key (int ra) s =
      gettable_loop H (set_reg (int ra)) (\<lambda>tm t. callTMres H tm t key (int ra)) key (Suc m) (VTable (f n)) s1"
    using index_along [OF assms(1,2)] unfolding gettable_def m by metis
  obtain s2 where s2: "reads_alike H s2 s1"
    "gettable_loop H (set_reg (int ra)) (\<lambda>tm t. callTMres H tm t key (int ra)) key (Suc m) (VTable (f n)) s1 =
       set_reg (int ra) (tget (h_alive H) (vtabs s1 (f n)) key) s2"
    using index_round [OF alike_simps(1) [OF s1(1)], of H "set_reg (int ra)" "\<lambda>tm t. callTMres H tm t key (int ra)" key m "f n" thesis]
      assms(5) alike_simps(2,3) [OF s1(1)] by auto
  have "reads_alike H s2 s" using s2(1) s1(1) by (rule reads_alike_trans)
  then show ?thesis using s1(2) s2(2) assms(4) alike_simps(3,5) [OF s1(1)] alike_simps(5) [OF s2(1)] by (intro exI [of _ s2]) simp
qed

text \<open>
  C38: a chain of \<open>__index\<close> tables that does not settle within \<open>MaxTagLoop\<close> tables, a cyclic one above all, is a Lua error and not an endless loop.
\<close>

theorem index_loop_error:
  assumes "tables_ok s" "index_path H s key MaxTagLoop f"
  shows "\<exists>s'. reads_alike H s' s \<and> gettable H (VTable (f 0)) key ra s =
    VRaise (h_rte H (CHR 0x27 # ''__index'' @ CHR 0x27 # '' chain too long; possible loop'') s') s'"
proof -
  obtain s1 where "reads_alike H s1 s" "gettable H (VTable (f 0)) key ra s =
      gettable_loop H (set_reg ra) (\<lambda>tm t. callTMres H tm t key ra) key 0 (VTable (f MaxTagLoop)) s1"
    using index_along [OF assms, of "set_reg ra" "\<lambda>tm t. callTMres H tm t key ra" 0] unfolding gettable_def by auto
  then show ?thesis by (auto simp: runtimeError_def)
qed

text \<open>A table with one field and the metatable \<open>mt\<close>, for the concrete cases.\<close>

definition one_field :: "bytes \<Rightarrow> Value \<Rightarrow> ptr option \<Rightarrow> Table" where
  "one_field k v mt = (hashset (str_key k) (VString k) v newTable)\<lparr>meta := mt\<rparr>"

lemma with_meta [simp]: "tbl_ok (t\<lparr>meta := mt\<rparr>) = tbl_ok t" "tget alive (t\<lparr>meta := mt\<rparr>) k = tget alive t k"
proof -
  have h: "hash_val (t\<lparr>meta := mt\<rparr>) = hash_val t" by (simp add: fun_eq_iff hash_val_def)
  then have "lookup alive (t\<lparr>meta := mt\<rparr>) = lookup alive t" by (simp add: fun_eq_iff lookup_def)
  with h show "tbl_ok (t\<lparr>meta := mt\<rparr>) = tbl_ok t" "tget alive (t\<lparr>meta := mt\<rparr>) k = tget alive t k"
    by (simp_all add: tbl_ok_def slots_ok_def hash_ok_def dense_ok_def weak_ok_def slot_fits_def tget_def weakKeyGet_def weakKeyIndex_def cong: option.case_cong)
qed

lemma one_field [simp]: "meta (one_field k v mt) = mt" "strong v \<Longrightarrow> tbl_ok (one_field k v mt)"
  "strong v \<Longrightarrow> tget alive (one_field k v mt) (VString j) = (if j = k then v else VNil)"
proof -
  show "meta (one_field k v mt) = mt" by (simp add: one_field_def)
  have "hashset (str_key k) (VString k) v newTable = rawset (\<lambda>_. True) (VString k) v newTable"
    by (simp add: rawset_def normKey_def str_key_def)
  then show "strong v \<Longrightarrow> tbl_ok (one_field k v mt)"
    using rawset_ok [of newTable "\<lambda>_. True" "VString k" v] by (simp add: one_field_def live_def strong_def)
  have "tget alive (hashset (str_key k) (VString k) v newTable) (VString j) =
      deref alive (hash_val (hashset (str_key k) (VString k) v newTable) (str_key j))"
    by (simp add: tget_def normKey_def str_key_def lookup_not_int)
  moreover have "str_key j = str_key k \<longleftrightarrow> j = k" by (simp add: str_key_def)
  ultimately show "strong v \<Longrightarrow> tget alive (one_field k v mt) (VString j) = (if j = k then v else VNil)"
    by (simp add: one_field_def hash_val_hashset wrapVal_def strong_def deref_cases)
qed

text \<open>Table 0 has the metatable 1, whose \<open>__index\<close> is table 2; only that has the key.\<close>

theorem index_inherits_witness:
  "\<forall>H. \<exists>s'. gettable H (VTable 0) (VString (lit ''k'')) (int 1)
     (vm_of [VNil, VNil] 2 0 \<lparr>vtabs := (\<lambda>p. if p = 1 then one_field (lit ''__index'') (VTable 2) None
        else if p = 2 then one_field (lit ''k'') (VInt 7) None else newTable\<lparr>meta := Some 1\<rparr>)\<rparr>) = VRet () s' \<and>
     stack (vl s') = [VNil, VInt 7]"
proof
  fix H
  let ?s = "vm_of [VNil, VNil] 2 0 \<lparr>vtabs := (\<lambda>p. if p = 1 then one_field (lit ''__index'') (VTable 2) None
        else if p = 2 then one_field (lit ''k'') (VInt 7) None else newTable\<lparr>meta := Some 1\<rparr>)\<rparr>"
  have "tables_ok ?s" "index_path H ?s (VString (lit ''k'')) 1 (\<lambda>i. if i = 0 then 0 else 2)"
      "tget (h_alive H) (vtabs ?s 2) (VString (lit ''k'')) = VInt 7"
    by (simp_all add: tables_ok_def index_path_def index_of_def strong_def lit_def)
  then show "\<exists>s'. gettable H (VTable 0) (VString (lit ''k'')) (int 1) ?s = VRet () s' \<and> stack (vl s') = [VNil, VInt 7]"
    using index_inherits [of ?s H "VString (lit ''k'')" 1 "\<lambda>i. if i = 0 then 0 else 2" 1]
    by (auto simp: MaxTagLoop_def init_state_def simp del: gettable_loop.simps)
qed

theorem index_loop_error_witness:
  "\<forall>H. \<exists>s'. gettable H (VTable 0) (VString (lit ''k'')) 0
     (vm_of [VNil] 1 0 \<lparr>vtabs := (\<lambda>p. one_field (lit ''__index'') (VTable 0) (Some 0))\<rparr>) =
     VRaise (h_rte H (CHR 0x27 # ''__index'' @ CHR 0x27 # '' chain too long; possible loop'') s') s'"
proof
  fix H
  let ?s = "vm_of [VNil] 1 0 \<lparr>vtabs := (\<lambda>p. one_field (lit ''__index'') (VTable 0) (Some 0))\<rparr>"
  have "tables_ok ?s" "index_path H ?s (VString (lit ''k'')) MaxTagLoop (\<lambda>_. 0)"
    by (simp_all add: tables_ok_def index_path_def index_of_def strong_def lit_def)
  from index_loop_error [OF this, of 0]
  show "\<exists>s'. gettable H (VTable 0) (VString (lit ''k'')) 0 ?s =
      VRaise (h_rte H (CHR 0x27 # ''__index'' @ CHR 0x27 # '' chain too long; possible loop'') s') s'"
    by blast
qed

subsection \<open>Concatenation\<close>

lemma fold_count_Suc: "fold_count (Suc k) (int t) (int j) = vbind (reg (int t - int j - 1))
    (\<lambda>v. if concatable v then fold_count k (int t) (int (Suc j)) else vret (int j))"
proof -
  have "int (Suc j) = int j + 1" by simp
  then show ?thesis by (simp only: fold_count.simps)
qed

lemma fold_count_all:
  "j + k \<le> t \<Longrightarrow> t \<le> length (stack (vl s)) \<Longrightarrow> \<forall>i < k. concatable (stack (vl s) ! (t - j - 1 - i)) \<Longrightarrow>
   fold_count k (int t) (int j) s = VRet (int (j + k)) s"
proof (induction k arbitrary: j)
  case (Suc k)
  have "concatable (stack (vl s) ! (t - j - 1))" using Suc.prems(3) by force
  moreover have "reg (int t - int j - 1) s = VRet (stack (vl s) ! (t - j - 1)) s"
  proof -
    have "int t - int j - 1 = int (t - j - 1)" using Suc.prems(1) by simp
    then show ?thesis using Suc.prems(1,2) by (simp only: reg_nat)
  qed
  moreover have "\<forall>i < k. concatable (stack (vl s) ! (t - Suc j - 1 - i))"
  proof (intro allI impI)
    fix i assume "i < k"
    then show "concatable (stack (vl s) ! (t - Suc j - 1 - i))" using Suc.prems(3) [rule_format, of "Suc i"] by simp
  qed
  ultimately show ?case using Suc.prems Suc.IH [of "Suc j"] by (simp add: fold_count_Suc vbind_step del: fold_count.simps of_nat_Suc)
qed simp

definition joined :: "host \<Rightarrow> Value list \<Rightarrow> bytes" where "joined H vs = concat (map (value_tostr H) vs)"

lemma concat_parts_joined:
  "i + k \<le> length (stack (vl s)) \<Longrightarrow> int len + int (length (joined H (take k (drop i (stack (vl s)))))) \<le> max_int64 \<Longrightarrow>
   concat_parts H k (int i) len s = VRet (joined H (take k (drop i (stack (vl s))))) s"
proof (induction k arbitrary: i len)
  case (Suc k)
  have "take (Suc k) (drop i (stack (vl s))) = stack (vl s) ! i # take k (drop (Suc i) (stack (vl s)))"
    using Suc.prems(1) by (simp add: Cons_nth_drop_Suc [symmetric])
  then show ?case using Suc.prems Suc.IH [of "Suc i" "len + length (value_tostr H (stack (vl s) ! i))"]
    by (simp add: vbind_step Let_def joined_def add.commute)
qed (simp add: joined_def)

text \<open>
  C39: concatenating the top values of the stack, all of them strings or numbers, runs no metamethod: it leaves one string, their texts joined in
  order, in place of them and changes no slot below.
\<close>

theorem concat_joins:
  assumes "i + n = ltop (vl s)" "2 \<le> n" "ltop (vl s) \<le> length (stack (vl s))" "vs = take n (drop i (stack (vl s)))"
    "\<forall>v \<in> set vs. concatable v" "int (length (joined H vs)) \<le> max_int64"
  shows "concat_values H (int n) s = VRet () (with_top (with_stack s ((stack (vl s))[i := VString (joined H vs)])) (Suc i))"
proof -
  let ?t = "ltop (vl s)" and ?st = "stack (vl s)"
  obtain m where m: "n = Suc (Suc m)" using assms(2) by (metis Suc_le_D numeral_2_eq_2 Suc_le_mono)
  have c: "concatable (?st ! j)" if "i \<le> j" "j < ?t" for j
  proof -
    have "vs ! (j - i) \<in> set vs" using that assms(1,3,4) by (intro nth_mem) auto
    moreover have "vs ! (j - i) = ?st ! j" using that assms(1,3,4) by auto
    ultimately show ?thesis using assms(5) by auto
  qed
  have "nat (int n - 1) = n - 1" "int 1 = 1" by simp_all
  then have "fold_count (nat (int n - 1)) (int ?t) 1 s = VRet (int n) s"
    using fold_count_all [of 1 "n - 1" ?t s] c assms(1-3) by (simp del: fold_count.simps)
  moreover have "concat_parts H n (int i) 0 s = VRet (joined H vs) s"
    using concat_parts_joined [of i n s 0 H] assms(1,3,4,6) by simp
  moreover have top2: "int ?t - 2 = int (?t - 2)" "int ?t - 1 = int (?t - 1)" "int ?t - int n = int i" "int ?t - (int n - 1) = int (Suc i)"
    using assms(1,2) by auto
  moreover have "reg (int ?t - 2) s = VRet (?st ! (?t - 2)) s" "reg (int ?t - 1) s = VRet (?st ! (?t - 1)) s"
    unfolding top2 by (rule reg_nat, use assms(1-3) in simp)+
  moreover have "concatable (?st ! (?t - 2))" "concatable (?st ! (?t - 1))" "i < length ?st" "int n > 1"
    using c assms(1-3) by auto
  moreover have "vconcat_loop H (Suc m) 1 = vret ()" by simp
  ultimately have "vconcat_loop H (Suc (Suc m)) (int n) s =
      VRet () (with_top (with_stack s (?st[i := VString (joined H vs)])) (Suc i))"
    unfolding vconcat_loop.simps(2) [of H "Suc m"]
    by (simp add: vbind_step top2(3) del: fold_count.simps concat_parts.simps of_nat_Suc vconcat_loop.simps)
  then show ?thesis by (simp add: concat_values_def m del: vconcat_loop.simps of_nat_Suc)
qed

theorem concat_joins_witness:
  "\<forall>H. \<exists>s'. concat_values H (int 3) (vm_of [VNil, VString [97], VInt 0, VString [98]] 4 0) = VRet () s' \<and>
     stack (vl s') ! 1 = VString (97 # numToString (h_fmtg H) (VInt 0) @ [98]) \<and> ltop (vl s') = 2"
proof
  fix H
  let ?s = "vm_of [VNil, VString [97], VInt 0, VString [98]] 4 0" and ?vs = "[VString [97], VInt 0, VString [98]]"
  have "joined H ?vs = 97 # numToString (h_fmtg H) (VInt 0) @ [98]" by (simp add: joined_def value_tostr_def)
  moreover from this have "int (length (joined H ?vs)) \<le> max_int64" by (simp add: numToString_def FormatInt_def format_nat.simps [of 0])
  ultimately show "\<exists>s'. concat_values H (int 3) ?s = VRet () s' \<and>
     stack (vl s') ! 1 = VString (97 # numToString (h_fmtg H) (VInt 0) @ [98]) \<and> ltop (vl s') = 2"
    using concat_joins [of 1 3 ?s ?vs H] by (simp add: init_state_def concatable_def)
qed

end
