(* ===== verification/Scope.thy ===== *)
theory Scope
  imports CodeGen Lexer
begin

text \<open>
  Variables, labels, blocks and functions under compilation (lparser_codegen.go). The functions around the current one are a list, the
  innermost first; the state that all of them share is the one that the innermost refers to.
\<close>

subsection \<open>Errors and limits\<close>

definition gcomp :: "(compiler \<Rightarrow> compiler) \<Rightarrow> unit gen" where
  "gcomp f = gmod (\<lambda>fs. fs\<lparr>fs_ls := f (fs_ls fs)\<rparr>)"

text \<open>\<open>semError\<close>: the message with the position of the last token that the function has consumed.\<close>

definition sem_error :: "string \<Rightarrow> FuncState \<Rightarrow> go_error" where
  "sem_error msg fs =
     CompileError (gostr (shortSrc (c_source (fs_ls fs))) @ '':'' @ gostr (FormatInt (fs_lastline fs)) @ '': '' @ msg) (nat (fs_lastline fs))"

definition semError :: "string \<Rightarrow> 'a gen" where "semError msg fs = Some (Inl (sem_error msg fs))"

definition limit_msg :: "int \<Rightarrow> string \<Rightarrow> FuncState \<Rightarrow> string" where
  "limit_msg limit what fs =
     ''too many '' @ what @ '' (limit is '' @ gostr (FormatInt limit) @ '') in '' @
       (if fs_LineDefined fs \<noteq> 0 then ''function at line '' @ gostr (FormatInt (fs_LineDefined fs)) else ''main function'')"

definition errorLimit :: "int \<Rightarrow> string \<Rightarrow> 'a gen" where
  "errorLimit limit what = gbind (gget (limit_msg limit what)) semError"

definition hasMultRet :: "expkind \<Rightarrow> bool" where "hasMultRet k = (k = VCALL \<or> k = VVARARG)"

subsection \<open>Local variables\<close>

text \<open>The descriptor at an index of the store, which is a Go panic out of range.\<close>

definition actvar_at :: "nat \<Rightarrow> varDesc gen" where
  "actvar_at i fs = (if i < length (c_actvar (fs_ls fs)) then gret (c_actvar (fs_ls fs) ! i) fs else gpanic fs)"

definition localVarDesc :: "nat \<Rightarrow> varDesc gen" where
  "localVarDesc vidx = gbind (gget fs_firstlocal) (\<lambda>b. actvar_at (b + vidx))"

definition mod_var :: "nat \<Rightarrow> (varDesc \<Rightarrow> varDesc) \<Rightarrow> unit gen" where
  "mod_var vidx f = gbind (gget fs_firstlocal) (\<lambda>b. gbind (actvar_at (b + vidx)) (\<lambda>vd.
     gcomp (\<lambda>c. c\<lparr>c_actvar := (c_actvar c)[b + vidx := f vd]\<rparr>)))"

definition registerLocalVar :: "bytes \<Rightarrow> nat gen" where
  "registerLocalVar name fs =
     (let vs = fs_LocVars fs @ [\<lparr>lv_Name = name, lv_StartPc = fs_pc fs, lv_EndPc = 0\<rparr>] in
      gret (length vs - 1) (fs\<lparr>fs_LocVars := vs, fs_ndebugvars := length vs\<rparr>))"

definition newLocalVar :: "bytes \<Rightarrow> nat gen" where
  "newLocalVar name fs =
     (let c = fs_ls fs; n = c_nactvar c; vd = \<lparr>vd_kind = VarKindReg, vd_ridx = 0, vd_pidx = 0, vd_name = name, vd_val = VNil\<rparr> in
      if int n + 1 - int (fs_firstlocal fs) > maxVars then errorLimit maxVars ''local variables'' fs
      else gret (n - fs_firstlocal fs)
        (fs\<lparr>fs_ls := c\<lparr>c_actvar := (if n < length (c_actvar c) then (c_actvar c)[n := vd] else c_actvar c @ [vd]), c_nactvar := n + 1\<rparr>\<rparr>))"

definition initVar :: "varDesc \<Rightarrow> nat \<Rightarrow> expdesc \<Rightarrow> expdesc" where
  "initVar vd vidx e = e\<lparr>e_t := noJump, e_f := noJump, e_k := VLOCAL, e_vidx := vidx, e_ridx := vd_ridx vd\<rparr>"

primrec adjust_loop :: "nat \<Rightarrow> int \<Rightarrow> unit gen" where
  "adjust_loop 0 reglvl = gret ()"
| "adjust_loop (Suc n) reglvl = gbind (gget fs_nactvar) (\<lambda>vidx.
     gseq (gmod (\<lambda>fs. fs\<lparr>fs_nactvar := vidx + 1\<rparr>)) (gbind (localVarDesc vidx) (\<lambda>vd.
       gbind (registerLocalVar (vd_name vd)) (\<lambda>p.
         gseq (mod_var vidx (\<lambda>vd. vd\<lparr>vd_ridx := reglvl, vd_pidx := p\<rparr>)) (adjust_loop n (reglvl + 1))))))"

definition adjustLocalVars :: "nat \<Rightarrow> unit gen" where
  "adjustLocalVars nvars = gbind nvarstack (adjust_loop nvars)"

primrec remove_loop :: "nat \<Rightarrow> unit gen" where
  "remove_loop 0 = gret ()"
| "remove_loop (Suc k) =
     gseq (gmod (\<lambda>fs. fs\<lparr>fs_nactvar := fs_nactvar fs - 1\<rparr>)) (gbind (gget fs_nactvar) (\<lambda>i. gbind (localVarDesc i) (\<lambda>vd.
       gseq (if vd_kind vd = VarKindCTConst then gret ()
             else (\<lambda>fs. if vd_pidx vd < length (fs_LocVars fs) then
               gret () (fs\<lparr>fs_LocVars := (fs_LocVars fs)[vd_pidx vd := (fs_LocVars fs ! vd_pidx vd)\<lparr>lv_EndPc := fs_pc fs\<rparr>]\<rparr>)
               else gpanic fs))
         (remove_loop k))))"

definition removeVars :: "nat \<Rightarrow> unit gen" where
  "removeVars tolevel = gbind (gget fs_nactvar) (\<lambda>n.
     gseq (gcomp (\<lambda>c. c\<lparr>c_nactvar := c_nactvar c + tolevel - n\<rparr>)) (remove_loop (n - tolevel)))"

definition upvalue_at :: "int \<Rightarrow> UpvalDesc gen" where
  "upvalue_at i fs =
     (if 0 \<le> i \<and> i < int (length (fs_Upvalues fs)) then gret (fs_Upvalues fs ! nat i) fs else gpanic fs)"

definition checkReadonly :: "expdesc \<Rightarrow> unit gen" where
  "checkReadonly e = gbind
     (case e_k e of
        VCONST \<Rightarrow> if e_info e < 0 then gpanic else gbind (actvar_at (nat (e_info e))) (\<lambda>vd. gret (vd_name vd))
      | VLOCAL \<Rightarrow> gbind (localVarDesc (e_vidx e)) (\<lambda>vd. gret (if vd_kind vd \<noteq> VarKindReg then vd_name vd else []))
      | VUPVAL \<Rightarrow> gbind (upvalue_at (e_info e)) (\<lambda>up. gret (if uv_Kind up \<noteq> VarKindReg then uv_Name up else []))
      | _ \<Rightarrow> gret [])
     (\<lambda>name. if name \<noteq> [] then semError (''attempt to assign to const variable '' @ quoted (gostr name)) else gret ())"

subsection \<open>Resolving names\<close>

definition searchUpvalue :: "FuncState \<Rightarrow> bytes \<Rightarrow> int" where
  "searchUpvalue fs name =
     (case List.find (\<lambda>i. uv_Name (fs_Upvalues fs ! i) = name) [0..<fs_nups fs] of Some i \<Rightarrow> int i | None \<Rightarrow> -1)"

definition zero_upval :: UpvalDesc where "zero_upval = \<lparr>uv_Name = [], uv_InStack = False, uv_Index = 0, uv_Kind = 0\<rparr>"

text \<open>\<open>cur\<close> is the innermost function, which the message of the limit names.\<close>

definition alloc_upvalue :: "FuncState \<Rightarrow> FuncState \<Rightarrow> (nat \<times> FuncState) res" where
  "alloc_upvalue cur fs =
     (if int (fs_nups fs) + 1 > maxUpvalues then Inl (sem_error (limit_msg maxUpvalues ''upvalues'' cur) cur)
      else let us = fs_Upvalues fs @ [zero_upval] in Inr (length us - 1, fs\<lparr>fs_Upvalues := us, fs_nups := length us\<rparr>))"

definition allocUpvalue :: "nat gen" where "allocUpvalue fs = Some (alloc_upvalue fs fs)"

definition captured :: "compiler \<Rightarrow> bytes \<Rightarrow> expdesc \<Rightarrow> FuncState \<Rightarrow> UpvalDesc res" where
  "captured c name v prev =
     (if e_k v = VLOCAL then
        (let i = fs_firstlocal prev + e_vidx v in
         if i < length (c_actvar c) then
           Inr \<lparr>uv_Name = name, uv_InStack = True, uv_Index = word_of_int (e_ridx v), uv_Kind = vd_kind (c_actvar c ! i)\<rparr>
         else Inl GoPanic)
      else if 0 \<le> e_info v \<and> e_info v < int (length (fs_Upvalues prev)) then
        Inr \<lparr>uv_Name = name, uv_InStack = False, uv_Index = word_of_int (e_info v), uv_Kind = uv_Kind (fs_Upvalues prev ! nat (e_info v))\<rparr>
      else Inl GoPanic)"

definition newUpvalue :: "FuncState \<Rightarrow> bytes \<Rightarrow> expdesc \<Rightarrow> FuncState \<Rightarrow> FuncState \<Rightarrow> (nat \<times> FuncState) res" where
  "newUpvalue cur name v prev fs = rbind (alloc_upvalue cur fs) (\<lambda>(i, fs). rbind (captured (fs_ls cur) name v prev) (\<lambda>up.
     Inr (i, fs\<lparr>fs_Upvalues := (fs_Upvalues fs)[i := up]\<rparr>)))"

text \<open>The loop of \<open>searchVar\<close> below the \<open>n\<close>-th active variable.\<close>

primrec searchVar :: "compiler \<Rightarrow> FuncState \<Rightarrow> bytes \<Rightarrow> expdesc \<Rightarrow> nat \<Rightarrow> expdesc option res" where
  "searchVar c fs n v 0 = Inr None"
| "searchVar c fs n v (Suc i) =
     (let j = fs_firstlocal fs + i in
      if j < length (c_actvar c) then
        (let vd = c_actvar c ! j in
         if vd_name vd = n then
           Inr (Some (if vd_kind vd = VarKindCTConst then initExp v VCONST (int j) else initVar vd i v))
         else searchVar c fs n v i)
      else Inl GoPanic)"

text \<open>The innermost block that starts at or below the level is marked.\<close>

fun mark_block :: "nat \<Rightarrow> blockCnt list \<Rightarrow> blockCnt list res" where
  "mark_block level [] = Inl GoPanic"
| "mark_block level (bl # bls) =
     (if bl_nactvar bl > level then rbind (mark_block level bls) (\<lambda>bls. Inr (bl # bls)) else Inr (bl\<lparr>bl_upval := True\<rparr> # bls))"

definition markUpval :: "nat \<Rightarrow> FuncState \<Rightarrow> FuncState res" where
  "markUpval level fs = rbind (mark_block level (fs_bl fs)) (\<lambda>bls. Inr (fs\<lparr>fs_bl := bls, fs_needclose := True\<rparr>))"

definition markToBeClosed :: "unit gen" where
  "markToBeClosed fs =
     (case fs_bl fs of [] \<Rightarrow> gpanic fs
      | bl # bls \<Rightarrow> gret () (fs\<lparr>fs_bl := bl\<lparr>bl_upval := True, bl_insidetbc := True\<rparr> # bls, fs_needclose := True\<rparr>))"

text \<open>\<open>singleVarAux\<close> on a function and those around it; \<open>cur\<close> is the innermost function of all.\<close>

fun singleVarAux :: "FuncState \<Rightarrow> bytes \<Rightarrow> expdesc \<Rightarrow> bool \<Rightarrow> FuncState list \<Rightarrow> (expdesc \<times> FuncState list) res" where
  "singleVarAux cur n v base [] = Inr (initExp v VVOID 0, [])"
| "singleVarAux cur n v base (fs # outer) = rbind (searchVar (fs_ls cur) fs n v (fs_nactvar fs)) (\<lambda>found.
     case found of
       Some v \<Rightarrow>
         if e_k v = VLOCAL \<and> \<not> base then rbind (markUpval (e_vidx v) fs) (\<lambda>fs. Inr (v, fs # outer)) else Inr (v, fs # outer)
     | None \<Rightarrow>
         let idx = searchUpvalue fs n in
         if idx < 0 then
           rbind (singleVarAux cur n v False outer) (\<lambda>(v, outer).
             if e_k v = VLOCAL \<or> e_k v = VUPVAL then
               (case outer of [] \<Rightarrow> Inl GoPanic
                | prev # _ \<Rightarrow> rbind (newUpvalue cur n v prev fs) (\<lambda>(i, fs). Inr (initExp v VUPVAL (int i), fs # outer)))
             else Inr (v, fs # outer))
         else Inr (initExp v VUPVAL idx, fs # outer))"

subsection \<open>Assignments\<close>

definition adjustAssign :: "int \<Rightarrow> int \<Rightarrow> expdesc \<Rightarrow> unit gen" where
  "adjustAssign nvars nexps e =
     (let needed = nvars - nexps in
      gseq (if hasMultRet (e_k e) then luaK_setreturns e (if needed + 1 < 0 then 0 else needed + 1)
            else gseq (if e_k e \<noteq> VVOID then gseq (luaK_exp2nextreg e) (gret ()) else gret ())
              (if needed > 0 then gbind (gget fs_freereg) (\<lambda>r. luaK_nil r needed) else gret ()))
        (if needed > 0 then reserveRegs needed else gmod (\<lambda>fs. fs\<lparr>fs_freereg := fs_freereg fs + needed\<rparr>)))"

subsection \<open>Gotos and labels\<close>

definition newGotoEntry :: "bytes \<Rightarrow> int \<Rightarrow> int \<Rightarrow> unit gen" where
  "newGotoEntry name line pc fs = gcomp (\<lambda>c. c\<lparr>c_gt := c_gt c @
     [\<lparr>lb_name = name, lb_pc = pc, lb_line = line, lb_nactvar = fs_nactvar fs, lb_close = False\<rparr>]\<rparr>) fs"

definition findLabel :: "bytes \<Rightarrow> labelDesc option gen" where
  "findLabel name = gget (\<lambda>fs. List.find (\<lambda>lb. lb_name lb = name) (drop (fs_firstlabel fs) (c_label (fs_ls fs))))"

definition goto_at :: "nat \<Rightarrow> labelDesc gen" where
  "goto_at i fs = (if i < length (c_gt (fs_ls fs)) then gret (c_gt (fs_ls fs) ! i) fs else gpanic fs)"

definition solveGoto :: "nat \<Rightarrow> labelDesc \<Rightarrow> unit gen" where
  "solveGoto g label = gbind (goto_at g) (\<lambda>gt.
     if lb_nactvar gt < lb_nactvar label then
       gbind (localVarDesc (lb_nactvar gt)) (\<lambda>vd. semError (''<goto '' @ gostr (lb_name gt) @ ''> at line '' @ gostr (FormatInt (lb_line gt)) @
         '' jumps into the scope of local '' @ quoted (gostr (vd_name vd))))
     else gseq (luaK_patchlist (lb_pc gt) (lb_pc label)) (gcomp (\<lambda>c. c\<lparr>c_gt := take g (c_gt c) @ drop (g + 1) (c_gt c)\<rparr>)))"

text \<open>The loop of \<open>solveGotos\<close> from the goto \<open>i\<close> on, with \<open>n\<close> gotos from there.\<close>

primrec solve_loop :: "nat \<Rightarrow> nat \<Rightarrow> labelDesc \<Rightarrow> bool \<Rightarrow> bool gen" where
  "solve_loop 0 i lb needsclose = gret needsclose"
| "solve_loop (Suc n) i lb needsclose = gbind (goto_at i) (\<lambda>gt.
     if lb_name gt = lb_name lb then gseq (solveGoto i lb) (solve_loop n i lb (needsclose \<or> lb_close gt))
     else solve_loop n (i + 1) lb needsclose)"

definition cur_block :: "blockCnt gen" where
  "cur_block fs = (case fs_bl fs of [] \<Rightarrow> gpanic fs | bl # _ \<Rightarrow> gret bl fs)"

definition solveGotos :: "labelDesc \<Rightarrow> bool gen" where
  "solveGotos lb = gbind cur_block (\<lambda>bl. gbind (gget (\<lambda>fs. length (c_gt (fs_ls fs)))) (\<lambda>n.
     solve_loop (n - bl_firstgoto bl) (bl_firstgoto bl) lb False))"

definition createLabel :: "bytes \<Rightarrow> int \<Rightarrow> bool \<Rightarrow> bool gen" where
  "createLabel name line isLast = gbind luaK_getlabel (\<lambda>pc. gbind (gget fs_nactvar) (\<lambda>n.
     gbind (if isLast then gbind cur_block (\<lambda>bl. gret (bl_nactvar bl)) else gret n) (\<lambda>n.
       let lb = \<lparr>lb_name = name, lb_pc = pc, lb_line = line, lb_nactvar = n, lb_close = False\<rparr> in
       gseq (gcomp (\<lambda>c. c\<lparr>c_label := c_label c @ [lb]\<rparr>)) (gbind (solveGotos lb) (\<lambda>needsclose.
         if needsclose then gbind nvarstack (\<lambda>r. gseq (codeABC OP_CLOSE r 0 0) (gret True)) else gret False)))))"

primrec move_loop :: "nat \<Rightarrow> nat \<Rightarrow> blockCnt \<Rightarrow> unit gen" where
  "move_loop 0 i bl = gret ()"
| "move_loop (Suc n) i bl = gbind (goto_at i) (\<lambda>gt. gbind (reglevel (lb_nactvar gt)) (\<lambda>r1. gbind (reglevel (bl_nactvar bl)) (\<lambda>r2.
     gseq (gcomp (\<lambda>c. c\<lparr>c_gt := (c_gt c)[i := gt\<lparr>lb_close := (if r1 > r2 then lb_close gt \<or> bl_upval bl else lb_close gt),
         lb_nactvar := bl_nactvar bl\<rparr>]\<rparr>)) (move_loop n (i + 1) bl))))"

definition moveGotosOut :: "blockCnt \<Rightarrow> unit gen" where
  "moveGotosOut bl = gbind (gget (\<lambda>fs. length (c_gt (fs_ls fs)))) (\<lambda>n. move_loop (n - bl_firstgoto bl) (bl_firstgoto bl) bl)"

definition undefGoto :: "labelDesc \<Rightarrow> 'a gen" where
  "undefGoto gt =
     (if lb_name gt = lit ''break'' then semError (''break outside loop at line '' @ gostr (FormatInt (lb_line gt)))
      else semError (''no visible label '' @ quoted (gostr (lb_name gt)) @ '' for <goto> at line '' @ gostr (FormatInt (lb_line gt))))"

subsection \<open>Blocks and functions\<close>

definition enterBlock :: "bool \<Rightarrow> unit gen" where
  "enterBlock isloop = gmod (\<lambda>fs. fs\<lparr>fs_bl :=
     \<lparr>bl_firstlabel = length (c_label (fs_ls fs)), bl_firstgoto = length (c_gt (fs_ls fs)), bl_nactvar = fs_nactvar fs, bl_upval = False,
      bl_isloop = isloop, bl_insidetbc = (case fs_bl fs of [] \<Rightarrow> False | bl # _ \<Rightarrow> bl_insidetbc bl)\<rparr> # fs_bl fs\<rparr>)"

definition leaveBlock :: "unit gen" where
  "leaveBlock = gbind cur_block (\<lambda>bl0. gbind (reglevel (bl_nactvar bl0)) (\<lambda>stklevel.
     gseq (removeVars (bl_nactvar bl0)) (gbind (if bl_isloop bl0 then createLabel (lit ''break'') 0 False else gret False) (\<lambda>hasclose.
     gbind (gget (\<lambda>fs. tl (fs_bl fs))) (\<lambda>previous.
     gseq (gwhen (\<not> hasclose \<and> previous \<noteq> [] \<and> bl_upval bl0) (gseq (codeABC OP_CLOSE stklevel 0 0) (gret ())))
     (gseq (gmod (\<lambda>fs. fs\<lparr>fs_freereg := stklevel, fs_bl := previous\<rparr>))
     (gseq (gcomp (\<lambda>c. c\<lparr>c_label := take (bl_firstlabel bl0) (c_label c)\<rparr>))
       (if previous \<noteq> [] then moveGotosOut bl0
        else gbind (gget (\<lambda>fs. length (c_gt (fs_ls fs)))) (\<lambda>n.
          if bl_firstgoto bl0 < n then gbind (goto_at (bl_firstgoto bl0)) undefGoto else gret ())))))))))"

text \<open>The state of a new function inside those around it, whose innermost is given with the shared state.\<close>

definition openFunc :: "compiler \<Rightarrow> int \<Rightarrow> FuncState" where
  "openFunc c line =
     (let fs = (newFuncState c)\<lparr>fs_firstlocal := c_nactvar c, fs_firstlabel := length (c_label c), fs_MaxStackSize := 2, fs_LineDefined := line\<rparr> in
      fs\<lparr>fs_bl := [\<lparr>bl_firstlabel = length (c_label c), bl_firstgoto = length (c_gt c), bl_nactvar = 0, bl_upval = False,
        bl_isloop = False, bl_insidetbc = False\<rparr>]\<rparr>)"

definition closeFunc :: "unit gen" where
  "closeFunc = gbind nvarstack (\<lambda>r. gseq (luaK_ret r 0) (gseq leaveBlock luaK_finish))"

definition setVararg :: "int \<Rightarrow> unit gen" where
  "setVararg nparams = gseq (gmod (\<lambda>fs. fs\<lparr>fs_IsVararg := True\<rparr>)) (gseq (codeABC OP_VARARGPREP nparams 0 0) (gret ()))"

text \<open>The prototype that a function under compilation has become; \<open>line\<close> is the one of its last token.\<close>

definition finished_proto :: "int \<Rightarrow> FuncState \<Rightarrow> Proto" where
  "finished_proto line fs = Proto (fs_NumParams fs) (fs_IsVararg fs) (fs_MaxStackSize fs) (fs_Code fs) (fs_Constants fs) (fs_Protos fs)
     (fs_Upvalues fs) (c_source (fs_ls fs)) (fs_LineDefined fs) line (fs_LineInfo fs) (fs_LocVars fs)"

text \<open>The instruction in the enclosing function; the prototype is added to its list behind the others when it is finished.\<close>

definition codeClosure :: "expdesc \<Rightarrow> expdesc gen" where
  "codeClosure e = gbind (gget (\<lambda>fs. int (length (fs_Protos fs)))) (\<lambda>n. gbind (codeABx OP_CLOSURE 0 n) (\<lambda>pc.
     luaK_exp2nextreg (initExp e VRELOC pc)))"

end
