(* ===== verification/Parser.thy ===== *)
theory Parser
  imports Scope ForLoop
begin

text \<open>
  The parser (lparser.go): one definition per method, in the order of the source, each a step \<open>'a prs\<close> of the parser's state. The methods call
  each other through \<open>subexpr\<close> and \<open>statement\<close>, which count the depth of the nesting: the definitions before them take both as a record, and
  the two are tied together by recursion on the nesting that is still allowed. A pooled or local \<open>expdesc\<close> is \<open>zero_exp\<close>; one that a method
  fills through a pointer is passed and returned. \<open>None\<close> is a loop that does not end.
\<close>

subsection \<open>State\<close>

record parser =
  p_fs :: FuncState
  p_prev :: "FuncState list"
  p_ls :: lexState
  p_depth :: nat

text \<open>The limit of tokens, the reader of numerals and the power function, which other theories take as parameters.\<close>

record parse_env =
  pe_max :: int
  pe_pf :: "bytes \<Rightarrow> f64 \<times> num_error option"
  pe_pow :: "f64 \<Rightarrow> f64 \<Rightarrow> f64"

type_synonym 'a prs = "parser \<Rightarrow> ('a \<times> parser) res option"

definition pret :: "'a \<Rightarrow> 'a prs" where "pret x p = Some (Inr (x, p))"

definition pbind :: "'a prs \<Rightarrow> ('a \<Rightarrow> 'b prs) \<Rightarrow> 'b prs" where
  "pbind m k p = (case m p of None \<Rightarrow> None | Some (Inl e) \<Rightarrow> Some (Inl e) | Some (Inr (x, p')) \<Rightarrow> k x p')"

definition pseq :: "'a prs \<Rightarrow> 'b prs \<Rightarrow> 'b prs" where "pseq m k = pbind m (\<lambda>_. k)"
definition pget :: "(parser \<Rightarrow> 'a) \<Rightarrow> 'a prs" where "pget f p = Some (Inr (f p, p))"
definition pmod :: "(parser \<Rightarrow> parser) \<Rightarrow> unit prs" where "pmod f p = Some (Inr ((), f p))"
definition pwhen :: "bool \<Rightarrow> unit prs \<Rightarrow> unit prs" where "pwhen b m = (if b then m else pret ())"
definition pfail :: "(parser \<Rightarrow> 'a res) \<Rightarrow> 'a prs" where "pfail f p = Some (rbind (f p) (\<lambda>x. Inr (x, p)))"

text \<open>A step of the code generator on the current function.\<close>

definition gn :: "'a gen \<Rightarrow> 'a prs" where
  "gn m p = (case m (p_fs p) of None \<Rightarrow> None | Some r \<Rightarrow> Some (rbind r (\<lambda>(x, fs). Inr (x, p\<lparr>p_fs := fs\<rparr>))))"

definition gnu :: "'a gen \<Rightarrow> unit prs" where "gnu m = gn (gseq m (gret ()))"

text \<open>A loop: \<open>Inl\<close> goes on, \<open>Inr\<close> ends it.\<close>

partial_function (option) p_iter :: "('a \<Rightarrow> ('a + 'b) prs) \<Rightarrow> 'a \<Rightarrow> parser \<Rightarrow> ('b \<times> parser) res option" where
  "p_iter step x p =
     (case step x p of
        None \<Rightarrow> None
      | Some r \<Rightarrow> (case r of
          Inl e \<Rightarrow> Some (Inl e)
        | Inr q \<Rightarrow> (case fst q of Inl y \<Rightarrow> p_iter step y (snd q) | Inr y \<Rightarrow> Some (Inr (y, snd q)))))"

declare p_iter.simps [code]

text \<open>The two entries of the recursion.\<close>

record rec =
  r_subexpr :: "expdesc \<Rightarrow> int \<Rightarrow> (int \<times> expdesc) prs"
  r_statement :: "unit prs"

subsection \<open>Tokens\<close>

definition MaxCCalls :: nat where "MaxCCalls = 200"

definition enterLevel :: "unit prs" where
  "enterLevel p =
     (if p_depth p + 1 > MaxCCalls then Some (lexError ''too many C levels in function'' 0 (p_ls p))
      else Some (Inr ((), p\<lparr>p_depth := p_depth p + 1\<rparr>)))"

definition leaveLevel :: "unit prs" where "leaveLevel = pmod (\<lambda>p. p\<lparr>p_depth := p_depth p - 1\<rparr>)"

definition tok :: "int prs" where "tok = pget (\<lambda>p. tk_kind (ltok (p_ls p)))"
definition line_of :: "int prs" where "line_of = pget (\<lambda>p. int (lline (p_ls p)))"

text \<open>The method \<open>next\<close>.\<close>

definition nextTok :: "parse_env \<Rightarrow> unit prs" where
  "nextTok E p = Some (rbind (luaXNext (pe_max E) (pe_pf E) (p_ls p)) (\<lambda>ls.
     Inr ((), p\<lparr>p_ls := ls, p_fs := (p_fs p)\<lparr>fs_lastline := int (lastline ls)\<rparr>\<rparr>)))"

definition psyntaxError :: "string \<Rightarrow> 'a prs" where "psyntaxError msg = pfail (\<lambda>p. syntaxError msg (p_ls p))"

definition errorExpected :: "int \<Rightarrow> 'a prs" where
  "errorExpected k = pfail (\<lambda>p. rbind (token2str k) (\<lambda>s. syntaxError (s @ '' expected'') (p_ls p)))"

definition psemError :: "string \<Rightarrow> 'a prs" where "psemError msg = pfail (\<lambda>p. lexError msg 0 (p_ls p))"

definition testnext :: "parse_env \<Rightarrow> int \<Rightarrow> bool prs" where
  "testnext E c = pbind tok (\<lambda>k. if k = c then pseq (nextTok E) (pret True) else pret False)"

definition check :: "int \<Rightarrow> unit prs" where "check c = pbind tok (\<lambda>k. if k \<noteq> c then errorExpected c else pret ())"

definition checknext :: "parse_env \<Rightarrow> int \<Rightarrow> unit prs" where "checknext E c = pseq (check c) (nextTok E)"

definition checkMatch :: "parse_env \<Rightarrow> int \<Rightarrow> int \<Rightarrow> int \<Rightarrow> unit prs" where
  "checkMatch E what who opened = pbind (testnext E what) (\<lambda>b.
     if b then pret ()
     else pbind line_of (\<lambda>l. if opened = l then errorExpected what
       else pfail (\<lambda>p. rbind (token2str what) (\<lambda>s. rbind (token2str who) (\<lambda>w.
         syntaxError (s @ '' expected (to close '' @ w @ '' at line '' @ gostr (FormatInt opened) @ '')'') (p_ls p))))))"

definition strCheckname :: "parse_env \<Rightarrow> bytes prs" where
  "strCheckname E = pseq (check tkName) (pbind (pget (\<lambda>p. tk_str (ltok (p_ls p)))) (\<lambda>s. pseq (nextTok E) (pret s)))"

definition codename :: "parse_env \<Rightarrow> expdesc \<Rightarrow> expdesc prs" where
  "codename E e = pbind (strCheckname E) (\<lambda>s. pret (codestring e s))"

definition blockFollow :: "bool \<Rightarrow> bool prs" where
  "blockFollow withuntil = pbind tok (\<lambda>k.
     pret (k \<in> {tkElse, tkElseif, tkEnd, tkEOS} \<or> (k = tkUntil \<and> withuntil)))"

abbreviation (input) chr :: "char \<Rightarrow> int" where "chr c \<equiv> of_char c"

subsection \<open>Names\<close>

definition singleVarIn :: "bytes \<Rightarrow> expdesc \<Rightarrow> expdesc prs" where
  "singleVarIn n v p = Some (rbind (singleVarAux (p_fs p) n v True (p_fs p # p_prev p)) (\<lambda>(v, fss).
     case fss of [] \<Rightarrow> Inl GoPanic | fs # outer \<Rightarrow> Inr (v, p\<lparr>p_fs := fs, p_prev := outer\<rparr>)))"

definition singleVar :: "bytes \<Rightarrow> expdesc \<Rightarrow> expdesc prs" where
  "singleVar name v = pbind (singleVarIn name v) (\<lambda>v.
     if e_k v = VVOID then
       pbind (pget (\<lambda>p. c_envName (fs_ls (p_fs p)))) (\<lambda>env. pbind (singleVarIn env v) (\<lambda>v.
         gn (gbind (luaK_exp2anyregup v) (\<lambda>v. gbind (luaK_indexed v (codestring zero_exp name)) (\<lambda>(v, key). gret v)))))
     else pret v)"

subsection \<open>Expressions\<close>

definition expr :: "rec \<Rightarrow> expdesc \<Rightarrow> expdesc prs" where
  "expr R v = pbind (r_subexpr R v 0) (\<lambda>(opr, v). pret v)"

definition index_by :: "expdesc \<Rightarrow> expdesc \<Rightarrow> expdesc prs" where
  "index_by v key = gn (gbind (luaK_indexed v key) (\<lambda>(v, key). gret v))"

definition fieldsel :: "parse_env \<Rightarrow> expdesc \<Rightarrow> expdesc prs" where
  "fieldsel E v = pbind (gn (luaK_exp2anyregup v)) (\<lambda>v. pseq (nextTok E) (pbind (codename E zero_exp) (index_by v)))"

definition yindex :: "parse_env \<Rightarrow> rec \<Rightarrow> expdesc \<Rightarrow> expdesc prs" where
  "yindex E R v = pseq (nextTok E) (pbind (expr R v) (\<lambda>v. pbind (gn (luaK_exp2val v)) (\<lambda>v.
     pseq (checknext E 0x5D) (pret v))))"

record consControl =
  cc_v :: expdesc
  cc_t :: expdesc
  cc_nh :: int
  cc_na :: int
  cc_tostore :: int

definition lfieldsPerFlush :: int where "lfieldsPerFlush = 50"

definition recfield :: "parse_env \<Rightarrow> rec \<Rightarrow> consControl \<Rightarrow> consControl prs" where
  "recfield E R cc = pbind (gn (gget fs_freereg)) (\<lambda>reg. pbind tok (\<lambda>k.
     pbind (if k = tkName then codename E zero_exp else yindex E R zero_exp) (\<lambda>key.
     pseq (checknext E 0x3D) (pbind (index_by (cc_t cc) key) (\<lambda>tab. pbind (expr R zero_exp) (\<lambda>val.
     pseq (gnu (luaK_storevar tab val)) (pseq (gn (gmod (\<lambda>fs. fs\<lparr>fs_freereg := reg\<rparr>)))
       (pret (cc\<lparr>cc_nh := cc_nh cc + 1\<rparr>)))))))))"

definition closelistfield :: "consControl \<Rightarrow> consControl prs" where
  "closelistfield cc =
     (if e_k (cc_v cc) = VVOID then pret cc
      else pbind (gn (luaK_exp2nextreg (cc_v cc))) (\<lambda>v. let cc = cc\<lparr>cc_v := v\<lparr>e_k := VVOID\<rparr>\<rparr> in
        if cc_tostore cc = lfieldsPerFlush then
          pseq (gn (luaK_setlist (e_info (cc_t cc)) (cc_na cc) (cc_tostore cc)))
            (pret (cc\<lparr>cc_na := cc_na cc + cc_tostore cc, cc_tostore := 0\<rparr>))
        else pret cc))"

definition lastlistfield :: "consControl \<Rightarrow> consControl prs" where
  "lastlistfield cc =
     (if cc_tostore cc = 0 then pret cc
      else if hasMultRet (e_k (cc_v cc)) then
        pseq (gn (luaK_setmultret (cc_v cc))) (pseq (gn (luaK_setlist (e_info (cc_t cc)) (cc_na cc) multiRet))
          (pret (cc\<lparr>cc_na := cc_na cc - 1 + cc_tostore cc\<rparr>)))
      else pseq (pwhen (e_k (cc_v cc) \<noteq> VVOID) (gnu (luaK_exp2nextreg (cc_v cc))))
        (pseq (gn (luaK_setlist (e_info (cc_t cc)) (cc_na cc) (cc_tostore cc))) (pret (cc\<lparr>cc_na := cc_na cc + cc_tostore cc\<rparr>))))"

definition listfield :: "rec \<Rightarrow> consControl \<Rightarrow> consControl prs" where
  "listfield R cc = pbind (expr R (cc_v cc)) (\<lambda>v. pret (cc\<lparr>cc_v := v, cc_tostore := cc_tostore cc + 1\<rparr>))"

definition lookahead :: "parse_env \<Rightarrow> int prs" where
  "lookahead E p = Some (rbind (luaXLookahead (pe_max E) (pe_pf E) (p_ls p)) (\<lambda>(k, ls). Inr (k, p\<lparr>p_ls := ls\<rparr>)))"

definition field :: "parse_env \<Rightarrow> rec \<Rightarrow> consControl \<Rightarrow> consControl prs" where
  "field E R cc = pbind tok (\<lambda>k.
     if k = tkName then pbind (lookahead E) (\<lambda>l. if l \<noteq> 0x3D then listfield R cc else recfield E R cc)
     else if k = 0x5B then recfield E R cc
     else listfield R cc)"

definition constructor :: "parse_env \<Rightarrow> rec \<Rightarrow> expdesc \<Rightarrow> expdesc prs" where
  "constructor E R t = pbind line_of (\<lambda>line. pbind (gn (codeABC OP_NEWTABLE 0 0 0)) (\<lambda>pc. pseq (gn (luaK_code 0))
     (pbind (gn (gget fs_freereg)) (\<lambda>r. let t = initExp t VNONRELOC r in pseq (gn (reserveRegs 1)) (pseq (checknext E 0x7B)
     (pbind (p_iter (\<lambda>cc. pbind tok (\<lambda>k.
         if k = 0x7D then pret (Inr cc)
         else pbind (closelistfield cc) (\<lambda>cc. pbind (field E R cc) (\<lambda>cc. pbind (testnext E 0x2C) (\<lambda>b.
           pbind (if b then pret True else testnext E 0x3B) (\<lambda>b. pret (if b then Inl cc else Inr cc)))))))
       \<lparr>cc_v = initExp zero_exp VVOID 0, cc_t = t, cc_nh = 0, cc_na = 0, cc_tostore = 0\<rparr>) (\<lambda>cc.
     pseq (checkMatch E 0x7D 0x7B line) (pbind (lastlistfield cc) (\<lambda>cc.
     pseq (gn (luaK_settablesize pc (e_info t) (cc_na cc) (cc_nh cc))) (pret t))))))))))"

definition parlist :: "parse_env \<Rightarrow> unit prs" where
  "parlist E = pbind tok (\<lambda>k. pbind
     (if k \<noteq> 0x29 then
        p_iter (\<lambda>nparams. pbind tok (\<lambda>k. pbind
          (if k = tkName then pbind (strCheckname E) (\<lambda>s. pseq (gn (newLocalVar s)) (pret (nparams + 1, False)))
           else if k = tkDots then pseq (nextTok E) (pret (nparams, True))
           else psyntaxError (''<name> or '' @ quoted ''...'' @ '' expected'')) (\<lambda>(nparams, isvararg).
          if isvararg then pret (Inr (nparams, True))
          else pbind (testnext E 0x2C) (\<lambda>b. pret (if b then Inl nparams else Inr (nparams, False)))))) 0
      else pret (0, False)) (\<lambda>(nparams, isvararg).
     gn (gseq (adjustLocalVars nparams) (gseq (gmod (\<lambda>fs. fs\<lparr>fs_NumParams := word_of_nat (fs_nactvar fs)\<rparr>))
       (gseq (gbind (gget (\<lambda>fs. uint (fs_NumParams fs))) (\<lambda>n. if isvararg then setVararg n else gret ()))
         (gbind (gget (\<lambda>fs. int (fs_nactvar fs))) reserveRegs))))))"

definition statlist :: "parse_env \<Rightarrow> rec \<Rightarrow> unit prs" where
  "statlist E R = p_iter (\<lambda>_. pbind (blockFollow True) (\<lambda>b.
     if b then pret (Inr ())
     else pbind tok (\<lambda>k. pseq (r_statement R) (pret (if k = tkReturn then Inr () else Inl ()))))) ()"

text \<open>A function: the enclosing one is set aside while its body is parsed.\<close>

definition push_func :: "int \<Rightarrow> unit prs" where
  "push_func line = pmod (\<lambda>p. p\<lparr>p_prev := p_fs p # p_prev p, p_fs := openFunc (fs_ls (p_fs p)) line\<rparr>)"

text \<open>\<open>codeClosure\<close> in the enclosing function, whose instructions are stamped with the current line.\<close>

definition outer_closure :: "expdesc \<Rightarrow> expdesc prs" where
  "outer_closure e p =
     (case p_prev p of
        [] \<Rightarrow> Some (Inl GoPanic)
      | fs # outer \<Rightarrow>
          (case codeClosure e (fs\<lparr>fs_ls := fs_ls (p_fs p), fs_lastline := int (lastline (p_ls p))\<rparr>) of
             None \<Rightarrow> None
           | Some r \<Rightarrow> Some (rbind r (\<lambda>(e, fs). Inr (e, p\<lparr>p_prev := fs # outer, p_fs := (p_fs p)\<lparr>fs_ls := fs_ls fs\<rparr>\<rparr>)))))"

definition pop_func :: "int \<Rightarrow> unit prs" where
  "pop_func line p =
     (case p_prev p of
        [] \<Rightarrow> Some (Inl GoPanic)
      | fs # outer \<Rightarrow> pret () (p\<lparr>p_prev := outer,
          p_fs := fs\<lparr>fs_ls := fs_ls (p_fs p), fs_Protos := fs_Protos fs @ [finished_proto line (p_fs p)]\<rparr>\<rparr>))"

definition body :: "parse_env \<Rightarrow> rec \<Rightarrow> expdesc \<Rightarrow> bool \<Rightarrow> int \<Rightarrow> expdesc prs" where
  "body E R e ismethod line =
     pseq (push_func line) (pseq (checknext E 0x28)
     (pseq (pwhen ismethod (gn (gbind (newLocalVar (lit ''self'')) (\<lambda>_. adjustLocalVars 1))))
     (pseq (parlist E) (pseq (checknext E 0x29) (pseq (statlist E R)
     (pbind line_of (\<lambda>l. pseq (checkMatch E tkEnd tkFunction line)
     (pbind (outer_closure e) (\<lambda>e. pbind (pget (\<lambda>p. int (lastline (p_ls p)))) (\<lambda>ll.
     pseq (gn (gmod (\<lambda>fs. fs\<lparr>fs_lastline := ll\<rparr>))) (pseq (gn closeFunc) (pseq (pop_func l) (pret e)))))))))))))"

definition explist :: "parse_env \<Rightarrow> rec \<Rightarrow> expdesc \<Rightarrow> (int \<times> expdesc) prs" where
  "explist E R v = pbind (expr R v) (\<lambda>v. p_iter (\<lambda>(n, v). pbind (testnext E 0x2C) (\<lambda>b.
     if b then pbind (gn (luaK_exp2nextreg v)) (\<lambda>v. pbind (expr R v) (\<lambda>v. pret (Inl (n + 1, v))))
     else pret (Inr (n, v)))) (1, v))"

definition funcargs :: "parse_env \<Rightarrow> rec \<Rightarrow> expdesc \<Rightarrow> expdesc prs" where
  "funcargs E R f = pbind line_of (\<lambda>line. pbind tok (\<lambda>k. pbind
     (if k = 0x28 then
        pseq (nextTok E) (pbind tok (\<lambda>k. pbind
          (if k = 0x29 then pret (zero_exp\<lparr>e_k := VVOID\<rparr>)
           else pbind (explist E R zero_exp) (\<lambda>(n, args). pseq (pwhen (hasMultRet (e_k args)) (gn (luaK_setmultret args))) (pret args)))
          (\<lambda>args. pseq (checkMatch E 0x29 0x28 line) (pret args))))
      else if k = 0x7B then constructor E R zero_exp
      else if k = tkString then pbind (pget (\<lambda>p. tk_str (ltok (p_ls p)))) (\<lambda>s. pseq (nextTok E) (pret (codestring zero_exp s)))
      else psyntaxError ''function arguments expected'') (\<lambda>args.
     let base = e_info f in
     pbind (if hasMultRet (e_k args) then pret multiRet
            else pseq (pwhen (e_k args \<noteq> VVOID) (gnu (luaK_exp2nextreg args))) (gn (gget (\<lambda>fs. fs_freereg fs - (base + 1))))) (\<lambda>nparams.
     pbind (gn (codeABC OP_CALL base (nparams + 1) 2)) (\<lambda>pc. pseq (gn (luaK_fixline line))
       (pseq (gn (gmod (\<lambda>fs. fs\<lparr>fs_freereg := base + 1\<rparr>))) (pret (initExp f VCALL pc))))))))"

definition primaryexp :: "parse_env \<Rightarrow> rec \<Rightarrow> expdesc \<Rightarrow> expdesc prs" where
  "primaryexp E R v = pbind tok (\<lambda>k.
     if k = 0x28 then pbind line_of (\<lambda>line. pseq (nextTok E) (pbind (expr R v) (\<lambda>v.
       pseq (checkMatch E 0x29 0x28 line) (gn (luaK_dischargevars v)))))
     else if k = tkName then pbind (strCheckname E) (\<lambda>s. singleVar s v)
     else psyntaxError ''unexpected symbol'')"

definition suffixedexp :: "parse_env \<Rightarrow> rec \<Rightarrow> expdesc \<Rightarrow> expdesc prs" where
  "suffixedexp E R v = pbind (primaryexp E R v) (p_iter (\<lambda>v. pbind tok (\<lambda>k.
     if k = 0x2E then pbind (fieldsel E v) (\<lambda>v. pret (Inl v))
     else if k = 0x5B then
       pbind (gn (luaK_exp2anyregup v)) (\<lambda>v. pbind (yindex E R zero_exp) (\<lambda>key. pbind (index_by v key) (\<lambda>v. pret (Inl v))))
     else if k = 0x3A then
       pseq (nextTok E) (pbind (codename E zero_exp) (\<lambda>key. pbind (gn (luaK_self v key)) (\<lambda>(v, key).
         pbind (funcargs E R v) (\<lambda>v. pret (Inl v)))))
     else if k = 0x28 \<or> k = tkString \<or> k = 0x7B then
       pbind (gn (luaK_exp2nextreg v)) (\<lambda>v. pbind (funcargs E R v) (\<lambda>v. pret (Inl v)))
     else pret (Inr v))))"

definition simpleexp :: "parse_env \<Rightarrow> rec \<Rightarrow> expdesc \<Rightarrow> expdesc prs" where
  "simpleexp E R v = pbind tok (\<lambda>k. pbind (pget (\<lambda>p. ltok (p_ls p))) (\<lambda>t.
     let simple = (\<lambda>m. pbind m (\<lambda>v. pseq (nextTok E) (pret v))) in
     if k = tkFlt then simple (pret ((initExp v VKFLT 0)\<lparr>e_nval := AsFloat (tk_num t)\<rparr>))
     else if k = tkInt then simple (pret ((initExp v VKINT 0)\<lparr>e_ival := AsInt (tk_num t)\<rparr>))
     else if k = tkString then simple (pret (codestring v (tk_str t)))
     else if k = tkNil then simple (pret (initExp v VNIL 0))
     else if k = tkTrue then simple (pret (initExp v VTRUE 0))
     else if k = tkFalse then simple (pret (initExp v VFALSE 0))
     else if k = tkDots then simple (pbind (gn (gget fs_IsVararg)) (\<lambda>b.
       if \<not> b then psyntaxError (''cannot use '' @ quoted ''...'' @ '' outside a vararg function'')
       else pbind (gn (codeABC OP_VARARG 0 0 1)) (\<lambda>pc. pret (initExp v VVARARG pc))))
     else if k = 0x7B then constructor E R v
     else if k = tkFunction then pseq (nextTok E) (pbind line_of (\<lambda>line. body E R v False line))
     else suffixedexp E R v))"

abbreviation (input) OPR_NOUNOPR :: int where "OPR_NOUNOPR \<equiv> 4"
abbreviation (input) OPR_NOBINOPR :: int where "OPR_NOBINOPR \<equiv> 21"

definition getunopr :: "int \<Rightarrow> int" where
  "getunopr k =
     (if k = tkNot then OPR_NOT else if k = 0x2D then OPR_MINUS else if k = 0x7E then OPR_BNOT
      else if k = 0x23 then OPR_LEN else OPR_NOUNOPR)"

definition getbinopr :: "int \<Rightarrow> int" where
  "getbinopr k =
     (if k = 0x2B then OPR_ADD else if k = 0x2D then OPR_SUB else if k = 0x2A then OPR_MUL else if k = 0x25 then OPR_MOD
      else if k = 0x5E then OPR_POW else if k = 0x2F then OPR_DIV else if k = tkIDiv then OPR_IDIV else if k = 0x26 then OPR_BAND
      else if k = 0x7C then OPR_BOR else if k = 0x7E then OPR_BXOR else if k = tkShl then OPR_SHL else if k = tkShr then OPR_SHR
      else if k = tkConcat then OPR_CONCAT else if k = tkNe then OPR_NE else if k = tkEq then OPR_EQ else if k = 0x3C then OPR_LT
      else if k = tkLe then OPR_LE else if k = 0x3E then OPR_GT else if k = tkGe then OPR_GE else if k = tkAnd then OPR_AND
      else if k = tkOr then OPR_OR else OPR_NOBINOPR)"

text \<open>The left and right priority of the operators in the order of their numbers.\<close>

definition priority :: "(int \<times> int) list" where
  "priority = [(10, 10), (10, 10), (11, 11), (11, 11), (14, 13), (11, 11), (11, 11), (6, 6), (4, 4), (5, 5), (7, 7), (7, 7),
     (9, 8), (3, 3), (3, 3), (3, 3), (3, 3), (3, 3), (3, 3), (2, 2), (1, 1)]"

definition unaryPriority :: int where "unaryPriority = 12"

definition subexpr_body :: "parse_env \<Rightarrow> rec \<Rightarrow> expdesc \<Rightarrow> int \<Rightarrow> (int \<times> expdesc) prs" where
  "subexpr_body E R v limit = pseq enterLevel (pbind tok (\<lambda>k. let uop = getunopr k in
     pbind (if uop \<noteq> OPR_NOUNOPR then
              pbind line_of (\<lambda>line. pseq (nextTok E) (pbind (r_subexpr R v unaryPriority) (\<lambda>(opr, v).
                gn (luaK_prefix (pe_pow E) uop v line))))
            else simpleexp E R v) (\<lambda>v. pbind tok (\<lambda>k.
     pbind (p_iter (\<lambda>(opr, v).
       if opr \<noteq> OPR_NOBINOPR \<and> fst (priority ! nat opr) > limit then
         pbind line_of (\<lambda>line. pseq (nextTok E) (pbind (gn (luaK_infix opr v)) (\<lambda>v.
           pbind (r_subexpr R zero_exp (snd (priority ! nat opr))) (\<lambda>(nextop, v2).
             pbind (gn (luaK_posfix (pe_pow E) opr v v2 line)) (\<lambda>v. pret (Inl (nextop, v)))))))
       else pret (Inr (opr, v))) (getbinopr k, v)) (\<lambda>r. pseq leaveLevel (pret r))))))"

subsection \<open>Statements\<close>

definition block :: "parse_env \<Rightarrow> rec \<Rightarrow> unit prs" where
  "block E R = pseq (gn (enterBlock False)) (pseq (statlist E R) (gn leaveBlock))"

text \<open>
  \<open>checkConflict\<close> on the chain of targets, the last one first: those that use the new target are redirected to a copy of it in the
  register \<open>extra\<close>.
\<close>

definition redirect :: "expdesc \<Rightarrow> int \<Rightarrow> expdesc \<Rightarrow> bool \<times> expdesc" where
  "redirect v extra lh =
     (if \<not> vkisindexed (e_k lh) then (False, lh)
      else if e_k lh = VINDEXUP then
        (if e_k v = VUPVAL \<and> e_ind lh = e_info v then (True, lh\<lparr>e_k := VINDEXSTR, e_ind := extra\<rparr>) else (False, lh))
      else
        let (c1, lh) = (if e_k v = VLOCAL \<and> e_ind lh = e_ridx v then (True, lh\<lparr>e_ind := extra\<rparr>) else (False, lh));
            (c2, lh) = (if e_k lh = VINDEXED \<and> e_k v = VLOCAL \<and> e_idx lh = e_ridx v then (True, lh\<lparr>e_idx := extra\<rparr>) else (False, lh)) in
        (c1 \<or> c2, lh))"

definition checkConflict :: "expdesc list \<Rightarrow> expdesc \<Rightarrow> expdesc list prs" where
  "checkConflict lhs v = pbind (gn (gget fs_freereg)) (\<lambda>extra.
     let rs = map (redirect v extra) lhs in
     if list_ex fst rs then
       pseq (gn (if e_k v = VLOCAL then codeABC OP_MOVE extra (e_ridx v) 0 else codeABC OP_GETUPVAL extra (e_info v) 0))
         (pseq (gn (reserveRegs 1)) (pret (map snd rs)))
     else pret (map snd rs))"

text \<open>
  \<open>restassign\<close> for the chain of targets, the last one first, returns the targets as they are at its end: a later target may redirect an earlier one.
  The targets behind a comma are nested at most \<open>MaxCCalls\<close> deep.
\<close>

definition assign_default :: "expdesc list \<Rightarrow> expdesc list prs" where
  "assign_default lhs = pbind (gn (gget fs_freereg)) (\<lambda>r.
     pseq (gnu (luaK_storevar (hd lhs) (initExp zero_exp VNONRELOC (r - 1)))) (pret lhs))"

primrec restassign :: "parse_env \<Rightarrow> rec \<Rightarrow> nat \<Rightarrow> expdesc list \<Rightarrow> int \<Rightarrow> expdesc list prs" where
  "restassign E R 0 lhs nvars = (\<lambda>p. None)"
| "restassign E R (Suc n) lhs nvars =
     pseq (if \<not> vkisvar (e_k (hd lhs)) then psyntaxError ''syntax error'' else pret ())
     (pseq (gn (checkReadonly (hd lhs))) (pbind (testnext E 0x2C) (\<lambda>comma.
     if comma then
       pbind (suffixedexp E R zero_exp) (\<lambda>nv. pbind (if \<not> vkisindexed (e_k nv) then checkConflict lhs nv else pret lhs) (\<lambda>lhs.
         pseq enterLevel (pbind (restassign E R n (nv # lhs) (nvars + 1)) (\<lambda>lhs.
           pseq leaveLevel (assign_default (tl lhs))))))
     else pseq (checknext E 0x3D) (pbind (explist E R zero_exp) (\<lambda>(nexps, e).
       if nexps \<noteq> nvars then pseq (gn (adjustAssign nvars nexps e)) (assign_default lhs)
       else pbind (gn (luaK_setoneret e)) (\<lambda>e. pseq (gnu (luaK_storevar (hd lhs) e)) (pret lhs)))))))"

definition cond :: "parse_env \<Rightarrow> rec \<Rightarrow> int prs" where
  "cond E R = pbind (expr R zero_exp) (\<lambda>v. let v = (if e_k v = VNIL then v\<lparr>e_k := VFALSE\<rparr> else v) in
     pbind (gn (luaK_goiftrue v)) (\<lambda>v. pret (e_f v)))"

definition gotostat :: "parse_env \<Rightarrow> unit prs" where
  "gotostat E = pbind line_of (\<lambda>line. pbind (strCheckname E) (\<lambda>name. gn (gbind (findLabel name) (\<lambda>lb. case lb of
     None \<Rightarrow> gbind luaK_jump (\<lambda>pc. newGotoEntry name line pc)
   | Some lb \<Rightarrow> gbind (reglevel (lb_nactvar lb)) (\<lambda>lblevel. gbind nvarstack (\<lambda>n.
       gseq (gwhen (n > lblevel) (gseq (codeABC OP_CLOSE lblevel 0 0) (gret ())))
         (gbind luaK_jump (\<lambda>pc. luaK_patchlist pc (lb_pc lb)))))))))"

definition breakstat :: "parse_env \<Rightarrow> unit prs" where
  "breakstat E = pbind line_of (\<lambda>line. pseq (nextTok E) (gn (gbind luaK_jump (newGotoEntry (lit ''break'') line))))"

definition checkrepeated :: "bytes \<Rightarrow> unit prs" where
  "checkrepeated name = pbind (gn (findLabel name)) (\<lambda>lb. case lb of None \<Rightarrow> pret ()
     | Some lb \<Rightarrow> psemError (''label '' @ quoted (gostr name) @ '' already defined on line '' @ gostr (FormatInt (lb_line lb))))"

definition labelstat :: "parse_env \<Rightarrow> rec \<Rightarrow> bytes \<Rightarrow> int \<Rightarrow> unit prs" where
  "labelstat E R name line = pseq (checknext E tkDbColon) (pseq
     (p_iter (\<lambda>_. pbind tok (\<lambda>k. if k = 0x3B \<or> k = tkDbColon then pseq (r_statement R) (pret (Inl ())) else pret (Inr ()))) ())
     (pseq (checkrepeated name) (pbind (blockFollow False) (\<lambda>b. gnu (createLabel name line b)))))"

definition whilestat :: "parse_env \<Rightarrow> rec \<Rightarrow> int \<Rightarrow> unit prs" where
  "whilestat E R line = pseq (nextTok E) (pbind (gn luaK_getlabel) (\<lambda>whileinit. pbind (cond E R) (\<lambda>condexit.
     pseq (gn (enterBlock True)) (pseq (checknext E tkDo) (pseq (block E R)
     (pseq (gn (gbind luaK_jump (\<lambda>pc. luaK_patchlist pc whileinit))) (pseq (checkMatch E tkEnd tkWhile line)
     (pseq (gn leaveBlock) (gn (luaK_patchtohere condexit))))))))))"

definition repeatstat :: "parse_env \<Rightarrow> rec \<Rightarrow> int \<Rightarrow> unit prs" where
  "repeatstat E R line = pbind (gn luaK_getlabel) (\<lambda>repeatInit. pseq (gn (enterBlock True)) (pseq (gn (enterBlock False))
     (pseq (nextTok E) (pseq (statlist E R) (pseq (checkMatch E tkUntil tkRepeat line) (pbind (cond E R) (\<lambda>condexit.
     pbind (gn cur_block) (\<lambda>bl2. pseq (gn leaveBlock)
     (pbind (if bl_upval bl2 then gn (gbind luaK_jump (\<lambda>exit. gseq (luaK_patchtohere condexit)
               (gbind (reglevel (bl_nactvar bl2)) (\<lambda>r. gseq (codeABC OP_CLOSE r 0 0) (gbind luaK_jump (\<lambda>condexit.
                 gseq (luaK_patchtohere exit) (gret condexit)))))))
             else pret condexit) (\<lambda>condexit.
     pseq (gn (luaK_patchlist condexit repeatInit)) (gn leaveBlock)))))))))))"

definition exp1 :: "rec \<Rightarrow> unit prs" where
  "exp1 R = pbind (expr R zero_exp) (\<lambda>e. gnu (luaK_exp2nextreg e))"

definition fixForJump :: "int \<Rightarrow> int \<Rightarrow> bool \<Rightarrow> unit gen" where
  "fixForJump pc dest goBack =
     (let offset = dest - (pc + 1); offset = (if goBack then - offset else offset) in
      if offset > MaxArgBx then fs_syntaxError ''control structure too long'' else mod_instr pc (\<lambda>i. SetArgBx i offset))"

definition forbody :: "parse_env \<Rightarrow> rec \<Rightarrow> int \<Rightarrow> int \<Rightarrow> nat \<Rightarrow> bool \<Rightarrow> unit prs" where
  "forbody E R base line nvars isgen = pseq (checknext E tkDo)
     (pbind (gn (codeABx (if isgen then OP_TFORPREP else OP_FORPREP) base 0)) (\<lambda>prep.
     pseq (gn (gseq (enterBlock False) (gseq (adjustLocalVars nvars) (reserveRegs (int nvars)))))
     (pseq (block E R) (gn
       (gseq leaveBlock (gseq (gbind luaK_getlabel (\<lambda>l. fixForJump prep l False))
       (gseq (gwhen isgen (gseq (codeABC OP_TFORCALL base 0 (int nvars)) (luaK_fixline line)))
         (gbind (codeABx (if isgen then OP_TFORLOOP else OP_FORLOOP) base 0) (\<lambda>endfor.
           gseq (fixForJump endfor (prep + 1) True) (luaK_fixline line))))))))))"

primrec new_state_vars :: "nat \<Rightarrow> unit gen" where
  "new_state_vars 0 = gret ()"
| "new_state_vars (Suc n) = gseq (newLocalVar (lit ''(for state)'')) (new_state_vars n)"

definition fornum :: "parse_env \<Rightarrow> rec \<Rightarrow> bytes \<Rightarrow> int \<Rightarrow> unit prs" where
  "fornum E R varname line = pbind (gn (gget fs_freereg)) (\<lambda>base.
     pseq (gn (gseq (new_state_vars 3) (newLocalVar varname))) (pseq (checknext E 0x3D) (pseq (exp1 R)
     (pseq (checknext E 0x2C) (pseq (exp1 R) (pbind (testnext E 0x2C) (\<lambda>b.
     pseq (if b then exp1 R else gn (gbind (gget fs_freereg) (\<lambda>r. gseq (luaK_int r 1) (reserveRegs 1))))
     (pseq (gn (adjustLocalVars 3)) (forbody E R base line 1 False)))))))))"

definition forlist :: "parse_env \<Rightarrow> rec \<Rightarrow> bytes \<Rightarrow> unit prs" where
  "forlist E R indexname = pbind (gn (gget fs_freereg)) (\<lambda>base.
     pseq (gn (gseq (new_state_vars 4) (newLocalVar indexname)))
     (pbind (p_iter (\<lambda>nvars. pbind (testnext E 0x2C) (\<lambda>b.
        if b then pbind (strCheckname E) (\<lambda>s. pseq (gn (newLocalVar s)) (pret (Inl (nvars + 1)))) else pret (Inr nvars))) 5) (\<lambda>nvars.
     pseq (checknext E tkIn) (pbind line_of (\<lambda>line. pbind (explist E R zero_exp) (\<lambda>(n, e).
     pseq (gn (gseq (adjustAssign 4 n e) (gseq (adjustLocalVars 4) (gseq markToBeClosed (checkStack 3)))))
       (forbody E R base line (nvars - 4) True)))))))"

definition forstat :: "parse_env \<Rightarrow> rec \<Rightarrow> int \<Rightarrow> unit prs" where
  "forstat E R line = pseq (gn (enterBlock True)) (pseq (nextTok E) (pbind (strCheckname E) (\<lambda>varname. pbind tok (\<lambda>k.
     pseq (if k = 0x3D then fornum E R varname line else if k = 0x2C \<or> k = tkIn then forlist E R varname
           else psyntaxError (quoted ''='' @ '' or '' @ quoted ''in'' @ '' expected''))
     (pseq (checkMatch E tkEnd tkFor line) (gn leaveBlock))))))"

text \<open>\<open>testThenBlock\<close> takes and returns the list of jumps to the end.\<close>

definition then_rest :: "parse_env \<Rightarrow> rec \<Rightarrow> int \<Rightarrow> int \<Rightarrow> int prs" where
  "then_rest E R escape jf = pseq (statlist E R) (pseq (gn leaveBlock) (pbind tok (\<lambda>k.
     pbind (if k = tkElse \<or> k = tkElseif then gn (gbind luaK_jump (luaK_concat escape)) else pret escape) (\<lambda>escape.
     pseq (gn (luaK_patchtohere jf)) (pret escape)))))"

definition testThenBlock :: "parse_env \<Rightarrow> rec \<Rightarrow> int \<Rightarrow> int prs" where
  "testThenBlock E R escape = pseq (nextTok E) (pbind (expr R zero_exp) (\<lambda>v. pseq (checknext E tkThen) (pbind tok (\<lambda>k.
     if k = tkBreak then pbind line_of (\<lambda>line. pbind (gn (luaK_goiffalse v)) (\<lambda>v. pseq (nextTok E)
       (pseq (gn (gseq (enterBlock False) (newGotoEntry (lit ''break'') line (e_t v))))
       (pseq (p_iter (\<lambda>_. pbind (testnext E 0x3B) (\<lambda>b. pret (if b then Inl () else Inr ()))) ())
       (pbind (blockFollow False) (\<lambda>b. if b then pseq (gn leaveBlock) (pret escape)
         else pbind (gn luaK_jump) (then_rest E R escape)))))))
     else pbind (gn (luaK_goiftrue v)) (\<lambda>v. pseq (gn (enterBlock False)) (then_rest E R escape (e_f v)))))))"

definition ifstat :: "parse_env \<Rightarrow> rec \<Rightarrow> int \<Rightarrow> unit prs" where
  "ifstat E R line = pbind (testThenBlock E R noJump) (\<lambda>escape. pbind (p_iter (\<lambda>escape. pbind tok (\<lambda>k.
       if k = tkElseif then pbind (testThenBlock E R escape) (\<lambda>escape. pret (Inl escape)) else pret (Inr escape))) escape) (\<lambda>escape.
     pbind (testnext E tkElse) (\<lambda>b. pseq (pwhen b (block E R))
       (pseq (checkMatch E tkEnd tkIf line) (gn (luaK_patchtohere escape))))))"

definition localfunc :: "parse_env \<Rightarrow> rec \<Rightarrow> unit prs" where
  "localfunc E R = pbind (gn (gget fs_nactvar)) (\<lambda>fvar. pbind (strCheckname E) (\<lambda>s.
     pseq (gn (gseq (newLocalVar s) (adjustLocalVars 1))) (pbind line_of (\<lambda>line. pseq (body E R zero_exp False line)
     (gn (gbind (localVarDesc fvar) (\<lambda>vd fs. if vd_pidx vd < length (fs_LocVars fs) then
        gret () (fs\<lparr>fs_LocVars := (fs_LocVars fs)[vd_pidx vd := (fs_LocVars fs ! vd_pidx vd)\<lparr>lv_StartPc := fs_pc fs\<rparr>]\<rparr>)
        else gpanic fs)))))))"

definition getlocalattribute :: "parse_env \<Rightarrow> byte prs" where
  "getlocalattribute E = pbind (testnext E 0x3C) (\<lambda>b.
     if b then pbind (strCheckname E) (\<lambda>attr. pseq (checknext E 0x3E)
       (if attr = lit ''const'' then pret VarKindConst else if attr = lit ''close'' then pret VarKindToClose
        else psemError (''unknown attribute '' @ quoted (gostr attr))))
     else pret VarKindReg)"

definition checktoclose :: "nat option \<Rightarrow> unit gen" where
  "checktoclose level = (case level of None \<Rightarrow> gret ()
     | Some l \<Rightarrow> gseq markToBeClosed (gbind (reglevel l) (\<lambda>r. gseq (codeABC OP_TBC r 0 0) (gret ()))))"

definition localstat :: "parse_env \<Rightarrow> rec \<Rightarrow> unit prs" where
  "localstat E R = pbind (p_iter (\<lambda>(toclose, lastVidx, nvars).
       pbind (strCheckname E) (\<lambda>s. pbind (gn (newLocalVar s)) (\<lambda>vidx. pbind (getlocalattribute E) (\<lambda>kind.
       pseq (gn (mod_var vidx (\<lambda>vd. vd\<lparr>vd_kind := kind\<rparr>)))
       (pbind (if kind = VarKindToClose then
                 (if toclose \<noteq> None then psemError ''multiple to-be-closed variables in local list''
                  else gn (gget (\<lambda>fs. Some (fs_nactvar fs + nvars))))
               else pret toclose) (\<lambda>toclose.
       pbind (testnext E 0x2C) (\<lambda>b. let r = (toclose, vidx, nvars + 1) in pret (if b then Inl r else Inr r)))))))) (None, 0, 0))
     (\<lambda>(toclose, lastVidx, nvars).
     pbind (testnext E 0x3D) (\<lambda>b. pbind (if b then explist E R zero_exp else pret (0, zero_exp\<lparr>e_k := VVOID\<rparr>)) (\<lambda>(nexps, e).
     gn (gbind (localVarDesc lastVidx) (\<lambda>lastVar. gbind (luaK_exp2const e) (\<lambda>val.
       gseq (if int nvars = nexps \<and> vd_kind lastVar = VarKindConst \<and> val \<noteq> None then
               gseq (mod_var lastVidx (\<lambda>vd. vd\<lparr>vd_kind := VarKindCTConst, vd_val := the val\<rparr>))
                 (gseq (adjustLocalVars (nvars - 1)) (gmod (\<lambda>fs. fs\<lparr>fs_nactvar := fs_nactvar fs + 1\<rparr>)))
             else gseq (adjustAssign (int nvars) nexps e) (adjustLocalVars nvars))
         (checktoclose toclose)))))))"

definition funcname :: "parse_env \<Rightarrow> expdesc \<Rightarrow> (bool \<times> expdesc) prs" where
  "funcname E v = pbind (strCheckname E) (\<lambda>s. pbind (singleVar s v) (\<lambda>v.
     pbind (p_iter (\<lambda>v. pbind tok (\<lambda>k. if k = 0x2E then pbind (fieldsel E v) (\<lambda>v. pret (Inl v)) else pret (Inr v))) v) (\<lambda>v.
     pbind tok (\<lambda>k. if k = 0x3A then pbind (fieldsel E v) (\<lambda>v. pret (True, v)) else pret (False, v)))))"

definition funcstat :: "parse_env \<Rightarrow> rec \<Rightarrow> int \<Rightarrow> unit prs" where
  "funcstat E R line = pseq (nextTok E) (pbind (funcname E zero_exp) (\<lambda>(ismethod, v). pbind (body E R zero_exp ismethod line) (\<lambda>b.
     pseq (gn (checkReadonly v)) (pseq (gnu (luaK_storevar v b)) (gn (luaK_fixline line))))))"

definition exprstat :: "parse_env \<Rightarrow> rec \<Rightarrow> unit prs" where
  "exprstat E R = pbind (suffixedexp E R zero_exp) (\<lambda>v. pbind tok (\<lambda>k.
     if k = 0x3D \<or> k = 0x2C then pseq (restassign E R (MaxCCalls + 1) [v] 1) (pret ())
     else if e_k v \<noteq> VCALL then psyntaxError ''syntax error''
     else gn (mod_instr (e_info v) (\<lambda>i. SetArgC i 1))))"

definition retstat :: "parse_env \<Rightarrow> rec \<Rightarrow> unit prs" where
  "retstat E R = pbind (gn nvarstack) (\<lambda>first. pbind (blockFollow True) (\<lambda>b. pbind tok (\<lambda>k.
     pbind (if b \<or> k = 0x3B then pret (first, 0)
       else pbind (explist E R zero_exp) (\<lambda>(nret, e).
         if hasMultRet (e_k e) then gn (gseq (luaK_setmultret e)
           (gbind (if e_k e = VCALL \<and> nret = 1 then gbind cur_block (\<lambda>bl. gret (\<not> bl_insidetbc bl)) else gret False) (\<lambda>tail.
             gseq (gwhen tail (mod_instr (e_info e) (\<lambda>i. SetOpCode i OP_TAILCALL))) (gret (first, multiRet)))))
         else if nret = 1 then gn (gbind (luaK_exp2anyreg e) (\<lambda>e. gret (e_info e, nret)))
         else gn (gseq (luaK_exp2nextreg e) (gret (first, nret))))) (\<lambda>(first, nret).
     pseq (gn (luaK_ret first nret)) (pseq (testnext E 0x3B) (pret ()))))))"

definition statement_body :: "parse_env \<Rightarrow> rec \<Rightarrow> unit prs" where
  "statement_body E R = pseq enterLevel (pbind line_of (\<lambda>line. pbind tok (\<lambda>k.
     pseq (if k = 0x3B then nextTok E
           else if k = tkIf then ifstat E R line
           else if k = tkWhile then whilestat E R line
           else if k = tkDo then pseq (nextTok E) (pseq (block E R) (checkMatch E tkEnd tkDo line))
           else if k = tkFor then forstat E R line
           else if k = tkRepeat then repeatstat E R line
           else if k = tkFunction then funcstat E R line
           else if k = tkLocal then pseq (nextTok E) (pbind (testnext E tkFunction) (\<lambda>b. if b then localfunc E R else localstat E R))
           else if k = tkDbColon then pseq (nextTok E) (pbind (strCheckname E) (\<lambda>name. labelstat E R name line))
           else if k = tkReturn then pseq (nextTok E) (retstat E R)
           else if k = tkBreak then breakstat E
           else if k = tkGoto then pseq (nextTok E) (gotostat E)
           else exprstat E R)
     (pseq (gn (gbind nvarstack (\<lambda>r. gmod (\<lambda>fs. fs\<lparr>fs_freereg := r\<rparr>)))) leaveLevel))))"

subsection \<open>Chunks\<close>

text \<open>The recursion, with \<open>n\<close> levels of nesting left.\<close>

primrec levels :: "parse_env \<Rightarrow> nat \<Rightarrow> rec" where
  "levels E 0 = \<lparr>r_subexpr = \<lambda>v limit p. None, r_statement = \<lambda>p. None\<rparr>"
| "levels E (Suc n) = (let R = levels E n in \<lparr>r_subexpr = subexpr_body E R, r_statement = statement_body E R\<rparr>)"

definition parse_rec :: "parse_env \<Rightarrow> rec" where "parse_rec E = levels E (MaxCCalls + 1)"

definition mainfunc :: "parse_env \<Rightarrow> unit prs" where
  "mainfunc E = pbind (pget (\<lambda>p. int (lastline (p_ls p)))) (\<lambda>ll.
     pseq (gn (gseq (gmod (\<lambda>fs. fs\<lparr>fs_lastline := ll\<rparr>)) (gseq (setVararg 0) (gbind allocUpvalue (\<lambda>env.
       gmod (\<lambda>fs. fs\<lparr>fs_Upvalues := (fs_Upvalues fs)[env :=
         \<lparr>uv_Name = c_envName (fs_ls fs), uv_InStack = True, uv_Index = 0, uv_Kind = VarKindReg\<rparr>]\<rparr>))))))
     (pseq (nextTok E) (pseq (statlist E (parse_rec E)) (pseq (check tkEOS) (gn closeFunc)))))"

definition init_compiler :: "bytes \<Rightarrow> compiler" where
  "init_compiler name = \<lparr>c_actvar = [], c_nactvar = 0, c_gt = [], c_label = [], c_source = name, c_envName = lit ''_ENV'',
     c_kcache = (\<lambda>_. None)\<rparr>"

definition compileZIO :: "parse_env \<Rightarrow> zio \<Rightarrow> bytes \<Rightarrow> Proto res option" where
  "compileZIO E z name =
     (case mainfunc E \<lparr>p_fs = openFunc (init_compiler name) 0, p_prev = [], p_ls = newLexStateZIO z name, p_depth = 0\<rparr> of
        None \<Rightarrow> None | Some r \<Rightarrow> Some (rbind r (\<lambda>(u, p). Inr (finished_proto 0 (p_fs p)))))"

definition compileTokens :: "parse_env \<Rightarrow> bytes \<Rightarrow> bytes \<Rightarrow> Proto res option" where
  "compileTokens E src name = compileZIO E (newStringZIO src) name"

end
