(* ===== verification/ScopeProps.thy ===== *)
theory ScopeProps
  imports Parser
begin

text \<open>
  Names are resolved by lexical scoping: the variable that an upvalue reaches through the functions around is the one that the innermost
  visible declaration of the name has declared.
\<close>

subsection \<open>Declarations\<close>

definition var_of :: "compiler \<Rightarrow> FuncState \<Rightarrow> nat \<Rightarrow> varDesc" where "var_of c fs i = c_actvar c ! (fs_firstlocal fs + i)"

text \<open>The last of the \<open>k\<close> first active variables of a function that has the name.\<close>

primrec decl :: "compiler \<Rightarrow> bytes \<Rightarrow> FuncState \<Rightarrow> nat \<Rightarrow> nat option" where
  "decl c n fs 0 = None"
| "decl c n fs (Suc i) = (if vd_name (var_of c fs i) = n then Some i else decl c n fs i)"

definition declared :: "compiler \<Rightarrow> bytes \<Rightarrow> FuncState \<Rightarrow> nat option" where "declared c n fs = decl c n fs (fs_nactvar fs)"

lemma decl_Some: "decl c n fs k = Some i \<Longrightarrow> i < k \<and> vd_name (var_of c fs i) = n \<and> (\<forall>j. i < j \<and> j < k \<longrightarrow> vd_name (var_of c fs j) \<noteq> n)"
  by (induction k) (auto split: if_splits simp: less_Suc_eq)

lemma decl_None: "decl c n fs k = None \<longleftrightarrow> (\<forall>j < k. vd_name (var_of c fs j) \<noteq> n)"
  by (induction k) (auto simp: less_Suc_eq)

text \<open>
  Where the variable of a name lives, seen from the innermost of some functions: how many functions up, and in which register. The host's
  environment is above all functions. A compile-time constant lives nowhere.
\<close>

datatype place = Register nat int | Constant nat nat | Undeclared

fun outward :: "place \<Rightarrow> place" where
  "outward (Register k r) = Register (Suc k) r" | "outward (Constant k i) = Constant (Suc k) i" | "outward Undeclared = Undeclared"

fun place_of :: "compiler \<Rightarrow> bytes \<Rightarrow> FuncState list \<Rightarrow> place" where
  "place_of c n [] = (if n = c_envName c then Register 0 0 else Undeclared)"
| "place_of c n (fs # outer) =
     (case declared c n fs of
        Some i \<Rightarrow> if vd_kind (var_of c fs i) = VarKindCTConst then Constant 0 (fs_firstlocal fs + i) else Register 0 (vd_ridx (var_of c fs i))
      | None \<Rightarrow> outward (place_of c n outer))"

text \<open>Where the chain that starts at an upvalue of the innermost function ends.\<close>

fun home :: "FuncState list \<Rightarrow> nat \<Rightarrow> place" where
  "home [] u = Undeclared"
| "home (fs # outer) u =
     (if u < length (fs_Upvalues fs) then
        let up = fs_Upvalues fs ! u in if uv_InStack up then Register 1 (uint (uv_Index up)) else outward (home outer (unat (uv_Index up)))
      else Undeclared)"

text \<open>What holds of the functions under compilation.\<close>

definition func_ok :: "compiler \<Rightarrow> FuncState \<Rightarrow> bool" where
  "func_ok c fs \<longleftrightarrow> fs_firstlocal fs + fs_nactvar fs \<le> length (c_actvar c) \<and> fs_nups fs = length (fs_Upvalues fs) \<and>
     int (fs_nups fs) \<le> maxUpvalues \<and> (\<exists>bl \<in> set (fs_bl fs). bl_nactvar bl = 0) \<and>
     (\<forall>i < fs_nactvar fs. 0 \<le> vd_ridx (var_of c fs i) \<and> vd_ridx (var_of c fs i) < 256)"

fun funcs_ok :: "compiler \<Rightarrow> FuncState list \<Rightarrow> bool" where
  "funcs_ok c [] \<longleftrightarrow> True"
| "funcs_ok c (fs # outer) \<longleftrightarrow> func_ok c fs \<and> funcs_ok c outer \<and>
     (\<forall>u < fs_nups fs. home (fs # outer) u = outward (place_of c (uv_Name (fs_Upvalues fs ! u)) outer) \<and> home (fs # outer) u \<noteq> Undeclared) \<and>
     (outer = [] \<longrightarrow> (\<exists>u < fs_nups fs. uv_Name (fs_Upvalues fs ! u) = c_envName c))"

lemma funcs_okD:
  assumes "funcs_ok c (fs # outer)"
  shows "func_ok c fs" "funcs_ok c outer" "fs_nups fs = length (fs_Upvalues fs)"
    "u < fs_nups fs \<Longrightarrow> home (fs # outer) u = outward (place_of c (uv_Name (fs_Upvalues fs ! u)) outer)"
    "u < fs_nups fs \<Longrightarrow> home (fs # outer) u \<noteq> Undeclared"
    "outer = [] \<Longrightarrow> \<exists>u < fs_nups fs. uv_Name (fs_Upvalues fs ! u) = c_envName c"
  using assms by (auto simp: func_ok_def simp del: home.simps)

subsection \<open>The parts\<close>

lemma searchVar_decl:
  "fs_firstlocal fs + k \<le> length (c_actvar c) \<Longrightarrow> searchVar c fs n v k = Inr (case decl c n fs k of None \<Rightarrow> None
     | Some i \<Rightarrow> Some (if vd_kind (var_of c fs i) = VarKindCTConst then initExp v VCONST (int (fs_firstlocal fs + i)) else initVar (var_of c fs i) i v))"
  by (induction k) (auto simp: var_of_def Let_def)

lemma mark_block_ok: "bl \<in> set bls \<Longrightarrow> bl_nactvar bl = 0 \<Longrightarrow> \<exists>bls'. mark_block lv bls = Inr bls' \<and> (\<exists>bl \<in> set bls'. bl_nactvar bl = 0)"
proof (induction bls)
  case (Cons b bls)
  then show ?case by (cases "bl_nactvar b > lv"; cases "b = bl") auto
qed simp

lemma markUpval_ok:
  assumes "func_ok c fs"
  obtains bls where "markUpval lv fs = Inr (fs\<lparr>fs_bl := bls, fs_needclose := True\<rparr>)" "\<exists>bl \<in> set bls. bl_nactvar bl = 0"
proof -
  obtain bls where "mark_block lv (fs_bl fs) = Inr bls" "\<exists>bl \<in> set bls. bl_nactvar bl = 0"
    using mark_block_ok assms by (fastforce simp: func_ok_def)
  then show ?thesis by (intro that [of bls]) (simp_all add: markUpval_def)
qed

lemma searchUpvalue_cases:
  obtains "searchUpvalue fs n = -1" "\<forall>u < fs_nups fs. uv_Name (fs_Upvalues fs ! u) \<noteq> n"
  | u where "searchUpvalue fs n = int u" "u < fs_nups fs" "uv_Name (fs_Upvalues fs ! u) = n"
proof (cases "List.find (\<lambda>i. uv_Name (fs_Upvalues fs ! i) = n) [0..<fs_nups fs]")
  case None
  then have "\<forall>u < fs_nups fs. uv_Name (fs_Upvalues fs ! u) \<noteq> n" by (auto simp: find_None_iff)
  with None show ?thesis using that(1) by (simp add: searchUpvalue_def)
next
  case (Some u)
  then have "u < fs_nups fs" "uv_Name (fs_Upvalues fs ! u) = n" by (auto simp: find_Some_iff)
  with Some show ?thesis using that(2) by (simp add: searchUpvalue_def)
qed

text \<open>What resolving a name changes in a function: blocks are marked, and upvalues added behind the others.\<close>

definition extends :: "FuncState \<Rightarrow> FuncState \<Rightarrow> bool" where
  "extends fs' fs \<longleftrightarrow> (\<exists>b nc us n. fs' = fs\<lparr>fs_bl := b, fs_needclose := nc, fs_Upvalues := fs_Upvalues fs @ us, fs_nups := n\<rparr>)"

lemma extends_refl [simp]: "extends fs fs"
  unfolding extends_def by (intro exI [of _ "fs_bl fs"] exI [of _ "fs_needclose fs"] exI [of _ "[]"] exI [of _ "fs_nups fs"]) simp

lemma extends_refl_list [simp]: "list_all2 extends fss fss"
  by (rule list_all2_refl) simp

lemma declared_extends: "extends fs' fs \<Longrightarrow> declared c n fs' = declared c n fs \<and> var_of c fs' = var_of c fs"
proof -
  assume "extends fs' fs"
  then have eq: "fs_firstlocal fs' = fs_firstlocal fs" "fs_nactvar fs' = fs_nactvar fs" by (auto simp: extends_def)
  then have v: "var_of c fs' = var_of c fs" by (simp add: var_of_def fun_eq_iff)
  then have "decl c n fs' k = decl c n fs k" for k by (induction k) simp_all
  with v eq show ?thesis by (simp add: declared_def)
qed

lemma place_extends: "list_all2 extends fss' fss \<Longrightarrow> place_of c n fss' = place_of c n fss"
proof (induction fss' fss rule: list_all2_induct)
  case (Cons fs' fss' fs fss)
  moreover have "fs_firstlocal fs' = fs_firstlocal fs" using Cons(1) by (auto simp: extends_def)
  ultimately show ?case using declared_extends [OF Cons(1)] by (simp split: option.splits)
qed simp

lemma outward_simps [simp]: "outward p = Undeclared \<longleftrightarrow> p = Undeclared" "outward p = outward q \<longleftrightarrow> p = q"
  by (cases p; cases q; simp)+

lemma home_extends: "list_all2 extends fss' fss \<Longrightarrow> home fss u \<noteq> Undeclared \<Longrightarrow> home fss' u = home fss u"
proof (induction fss' fss arbitrary: u rule: list_all2_induct)
  case (Cons fs' fss' fs fss)
  then obtain us where us: "fs_Upvalues fs' = fs_Upvalues fs @ us" by (auto simp: extends_def)
  have "u < length (fs_Upvalues fs)" using Cons.prems by (auto split: if_splits)
  then show ?case using Cons us by (auto simp: Let_def nth_append)
qed simp

text \<open>What the descriptor of a resolved name says.\<close>

fun resolves :: "compiler \<Rightarrow> bytes \<Rightarrow> expdesc \<Rightarrow> FuncState list \<Rightarrow> bool" where
  "resolves c n v [] \<longleftrightarrow> e_k v = VVOID"
| "resolves c n v (fs # outer) \<longleftrightarrow>
     (case e_k v of
        VLOCAL \<Rightarrow> declared c n fs = Some (e_vidx v) \<and> place_of c n (fs # outer) = Register 0 (e_ridx v)
      | VUPVAL \<Rightarrow> declared c n fs = None \<and> 0 \<le> e_info v \<and> nat (e_info v) < fs_nups fs \<and> home (fs # outer) (nat (e_info v)) = place_of c n (fs # outer)
      | VCONST \<Rightarrow> (\<exists>k. place_of c n (fs # outer) = Constant k (nat (e_info v)))
      | VVOID \<Rightarrow> place_of c n (fs # outer) = Undeclared
      | _ \<Rightarrow> False)"

lemma funcs_ok_marked:
  assumes "funcs_ok c (fs # outer)" "\<exists>bl \<in> set bls. bl_nactvar bl = 0"
  shows "funcs_ok c (fs\<lparr>fs_bl := bls, fs_needclose := True\<rparr> # outer)"
  using assms by (auto simp: func_ok_def var_of_def)

subsection \<open>Resolution\<close>

lemma captured_home:
  assumes "funcs_ok c outer" "resolves c n v outer" "outer = prev # rest" "e_k v = VLOCAL \<or> e_k v = VUPVAL"
    "captured c n v prev = Inr up" "u < length (fs_Upvalues fs)" "fs_Upvalues fs ! u = up"
  shows "uv_Name up = n" "home (fs # outer) u = outward (place_of c n outer)" "place_of c n outer \<noteq> Undeclared"
proof -
  have ok: "func_ok c prev" using assms(1,3) by simp
  consider (l) "e_k v = VLOCAL" "declared c n prev = Some (e_vidx v)" "place_of c n outer = Register 0 (e_ridx v)"
    | (u) "e_k v = VUPVAL" "0 \<le> e_info v" "nat (e_info v) < fs_nups prev" "home outer (nat (e_info v)) = place_of c n outer"
    using assms(2-4) by auto
  then show "uv_Name up = n" "home (fs # outer) u = outward (place_of c n outer)" "place_of c n outer \<noteq> Undeclared"
  proof (atomize (full), cases)
    case l
    then have "e_vidx v < fs_nactvar prev" "vd_kind (var_of c prev (e_vidx v)) \<noteq> VarKindCTConst" "vd_ridx (var_of c prev (e_vidx v)) = e_ridx v"
      using decl_Some [of c n prev "fs_nactvar prev" "e_vidx v"] assms(3) by (auto simp: declared_def split: if_splits)
    then have "0 \<le> e_ridx v" "e_ridx v < 256" using ok by (auto simp: func_ok_def)
    then have "uint (word_of_int (e_ridx v) :: byte) = e_ridx v" by (simp add: uint_word_of_int)
    moreover have "uv_Name up = n \<and> uv_InStack up \<and> uv_Index up = word_of_int (e_ridx v)"
      using assms(5) l by (auto simp: captured_def Let_def split: if_splits)
    ultimately show "uv_Name up = n \<and> home (fs # outer) u = outward (place_of c n outer) \<and> place_of c n outer \<noteq> Undeclared"
      using l assms(6,7) by simp
  next
    case u
    then have "e_info v < 256" using ok by (auto simp: func_ok_def maxUpvalues_def)
    then have "unat (word_of_int (e_info v) :: byte) = nat (e_info v)"
      using u by (simp add: unat_eq_nat_uint uint_word_of_int)
    moreover have "home outer (nat (e_info v)) \<noteq> Undeclared" using assms(1,3) u(3) by auto
    moreover have "uv_Name up = n \<and> \<not> uv_InStack up \<and> uv_Index up = word_of_int (e_info v)"
      using assms(5) u by (auto simp: captured_def Let_def split: if_splits)
    ultimately show "uv_Name up = n \<and> home (fs # outer) u = outward (place_of c n outer) \<and> place_of c n outer \<noteq> Undeclared"
      using u assms(6,7) by simp
  qed
qed

lemma newUpvalue_Inr:
  assumes "newUpvalue cur n v prev fs = Inr (i, fs')" "fs_nups fs = length (fs_Upvalues fs)"
  obtains up where "captured (fs_ls cur) n v prev = Inr up" "i = fs_nups fs" "int (fs_nups fs) + 1 \<le> maxUpvalues"
    "fs' = fs\<lparr>fs_Upvalues := fs_Upvalues fs @ [up], fs_nups := fs_nups fs + 1\<rparr>"
  using assms by (auto simp: newUpvalue_def alloc_upvalue_def rbind_def Let_def list_update_append split: sum.splits if_splits)

lemma funcs_ok_extends:
  assumes "funcs_ok c (fs # outer)" "list_all2 extends outer' outer" "funcs_ok c outer'"
  shows "funcs_ok c (fs # outer')"
proof -
  have "home (fs # outer') u = home (fs # outer) u" if "home (fs # outer) u \<noteq> Undeclared" for u
    using that assms(2) by (intro home_extends) auto
  moreover have "outer' = [] \<longleftrightarrow> outer = []" using assms(2) by auto
  ultimately show ?thesis using assms(1,3) place_extends [OF assms(2)] unfolding funcs_ok.simps by metis
qed

lemma funcs_ok_captured:
  assumes "funcs_ok c (fs # outer)" "resolves c n v outer" "e_k v = VLOCAL \<or> e_k v = VUPVAL" "outer = prev # rest"
    "captured c n v prev = Inr up" "int (fs_nups fs) + 1 \<le> maxUpvalues"
    "fs' = fs\<lparr>fs_Upvalues := fs_Upvalues fs @ [up], fs_nups := fs_nups fs + 1\<rparr>"
  shows "funcs_ok c (fs' # outer)" "home (fs' # outer) (fs_nups fs) = outward (place_of c n outer)"
proof -
  have nups: "fs_nups fs = length (fs_Upvalues fs)" using assms(1) by (simp add: func_ok_def)
  have "funcs_ok c outer" "fs_nups fs < length (fs_Upvalues fs')" "fs_Upvalues fs' ! fs_nups fs = up" using assms(1,7) nups by auto
  note new = captured_home [OF this(1) assms(2,4,3,5) this(2,3)]
  have "func_ok c fs'" using assms(1,6,7) by (auto simp: func_ok_def var_of_def)
  moreover have "home (fs' # outer) u = outward (place_of c (uv_Name (fs_Upvalues fs' ! u)) outer) \<and> home (fs' # outer) u \<noteq> Undeclared"
    if "u < fs_nups fs'" for u
  proof (cases "u = fs_nups fs")
    case True
    then show ?thesis using new assms(7) nups by simp
  next
    case False
    then have u: "u < fs_nups fs" "fs_Upvalues fs' ! u = fs_Upvalues fs ! u" using that assms(7) nups by (auto simp: nth_append)
    then have "home (fs' # outer) u = home (fs # outer) u" using assms(7) nups by simp
    with u funcs_okD(4,5) [OF assms(1) u(1)] show ?thesis by (simp del: home.simps)
  qed
  moreover have "outer \<noteq> []" using assms(4) by simp
  ultimately show "funcs_ok c (fs' # outer)"
    using funcs_okD(2) [OF assms(1)] unfolding funcs_ok.simps(2) [of c fs' outer] by blast
  show "home (fs' # outer) (fs_nups fs) = outward (place_of c n outer)" by (rule new)
qed

lemma singleVarAux_resolves:
  assumes "funcs_ok (fs_ls cur) fss" "singleVarAux cur n v base fss = Inr (v', fss')"
  shows "funcs_ok (fs_ls cur) fss' \<and> list_all2 extends fss' fss \<and> resolves (fs_ls cur) n v' fss'"
  using assms
proof (induction cur n v base fss arbitrary: v' fss' rule: singleVarAux.induct)
  case (1 cur n v base)
  then show ?case by (auto simp: initExp_def)
next
  case (2 cur n v base fs outer)
  let ?c = "fs_ls cur"
  have ok: "func_ok ?c fs" "funcs_ok ?c outer" using 2(2) by simp_all
  then have search: "searchVar ?c fs n v (fs_nactvar fs) = Inr (case declared ?c n fs of None \<Rightarrow> None
     | Some i \<Rightarrow> Some (if vd_kind (var_of ?c fs i) = VarKindCTConst then initExp v VCONST (int (fs_firstlocal fs + i)) else initVar (var_of ?c fs i) i v))"
    by (simp add: searchVar_decl func_ok_def declared_def)
  show ?case
  proof (cases "declared ?c n fs")
    case (Some i)
    then have v: "place_of ?c n (fs # outer) = (if vd_kind (var_of ?c fs i) = VarKindCTConst then Constant 0 (fs_firstlocal fs + i)
        else Register 0 (vd_ridx (var_of ?c fs i)))" by simp
    obtain bls where bls: "markUpval i fs = Inr (fs\<lparr>fs_bl := bls, fs_needclose := True\<rparr>)" "\<exists>bl \<in> set bls. bl_nactvar bl = 0"
      using markUpval_ok [OF ok(1)] .
    let ?fs = "fs\<lparr>fs_bl := bls, fs_needclose := True\<rparr>"
    have ext: "extends ?fs fs"
      unfolding extends_def by (intro exI [of _ bls] exI [of _ True] exI [of _ "[]"] exI [of _ "fs_nups fs"]) simp
    have marked: "funcs_ok ?c (?fs # outer)" using 2(2) bls(2) by (rule funcs_ok_marked)
    have pl: "place_of ?c n (?fs # outer) = place_of ?c n (fs # outer)" "declared ?c n ?fs = Some i"
      using ext Some declared_extends [OF ext] by (auto intro: place_extends)
    consider "vd_kind (var_of ?c fs i) = VarKindCTConst" "v' = initExp v VCONST (int (fs_firstlocal fs + i))" "fss' = fs # outer"
      | "vd_kind (var_of ?c fs i) \<noteq> VarKindCTConst" "v' = initVar (var_of ?c fs i) i v" "fss' = fs # outer \<or> fss' = ?fs # outer"
      using 2(3) search Some bls(1) by (auto simp: initExp_def initVar_def split: if_splits)
    then show ?thesis
    proof cases
      case 1
      then show ?thesis using v "2.prems"(1) by (auto simp: initExp_def simp del: place_of.simps funcs_ok.simps)
    next
      case 2
      then show ?thesis using v pl marked ext Some "2.prems"(1) by (auto simp: initVar_def simp del: place_of.simps funcs_ok.simps)
    qed
  next
    case None
    show ?thesis
    proof (cases rule: searchUpvalue_cases [of fs n])
      case (2 u)
      then have "home (fs # outer) u = place_of ?c n (fs # outer)" using None funcs_okD(4) [OF "2.prems"(1)] by (simp del: home.simps)
      moreover have "v' = initExp v VUPVAL (int u)" "fss' = fs # outer" using 2 None search "2.prems"(2) by simp_all
      ultimately show ?thesis using 2 None "2.prems"(1) by (simp add: initExp_def del: home.simps funcs_ok.simps place_of.simps)
    next
      case 1
      then obtain v1 outer1 where s: "singleVarAux cur n v False outer = Inr (v1, outer1)"
        using None search "2.prems"(2) by (auto simp: rbind_def split: sum.splits)
      have IH: "funcs_ok ?c outer1" "list_all2 extends outer1 outer" "resolves ?c n v1 outer1"
        using "2.IH" [OF _ _ refl _ ok(2) s] None search 1(1) by auto
      have up: "funcs_ok ?c (fs # outer1)" using "2.prems"(1) IH(2,1) by (rule funcs_ok_extends)
      show ?thesis
      proof (cases "e_k v1 = VLOCAL \<or> e_k v1 = VUPVAL")
        case True
        then obtain prev more where outer1: "outer1 = prev # more" using IH(3) by (cases outer1) auto
        then obtain i fs' where new: "newUpvalue cur n v1 prev fs = Inr (i, fs')" "v' = initExp v1 VUPVAL (int i)" "fss' = fs' # outer1"
          using True None search 1(1) s "2.prems"(2) by (auto simp: rbind_def split: sum.splits)
        obtain upv where upv: "captured ?c n v1 prev = Inr upv" "i = fs_nups fs" "int (fs_nups fs) + 1 \<le> maxUpvalues"
            "fs' = fs\<lparr>fs_Upvalues := fs_Upvalues fs @ [upv], fs_nups := fs_nups fs + 1\<rparr>"
          using newUpvalue_Inr [OF new(1) funcs_okD(3) [OF "2.prems"(1)]] .
        note cap = funcs_ok_captured [OF up IH(3) True outer1 upv(1,3,4)]
        have ext: "extends fs' fs" unfolding extends_def upv(4)
          by (intro exI [of _ "fs_bl fs"] exI [of _ "fs_needclose fs"] exI [of _ "[upv]"] exI [of _ "fs_nups fs + 1"]) simp
        have "declared ?c n fs' = None" using None declared_extends [OF ext] by simp
        then show ?thesis using cap ext IH(2) new upv(2,4)
          by (simp add: initExp_def del: home.simps funcs_ok.simps)
      next
        case False
        then have r: "v' = v1" "fss' = fs # outer1" using None search 1(1) s "2.prems"(2) by simp_all
        have "n \<noteq> c_envName ?c" if "outer = []" using funcs_okD(6) [OF "2.prems"(1) that] 1(2) by auto
        then have "resolves ?c n v1 (fs # outer1)" using IH(2,3) None False
          by (cases outer1) (auto split: expkind.splits simp del: place_of.simps(2) simp: place_of.simps(2) [of _ _ fs])
        then show ?thesis using r up IH(2) by (simp del: funcs_ok.simps resolves.simps)
      qed
    qed
  qed
qed

text \<open>
  C8: names are resolved by lexical scoping, in any nesting of functions: a local variable is the innermost one of that name, an upvalue leads,
  from function to function, to the register of the innermost enclosing declaration, and only an undeclared name is taken for a global one;
  what all this rests on holds again after the new upvalues.
\<close>

theorem name_resolution:
  assumes "funcs_ok (fs_ls (p_fs p)) (p_fs p # p_prev p)" "singleVarIn n v p = Some (Inr (v', p'))"
  shows "funcs_ok (fs_ls (p_fs p')) (p_fs p' # p_prev p') \<and> fs_ls (p_fs p') = fs_ls (p_fs p) \<and>
    (let place = place_of (fs_ls (p_fs p)) n (p_fs p # p_prev p) in
     case e_k v' of
       VLOCAL \<Rightarrow> place = Register 0 (e_ridx v')
     | VUPVAL \<Rightarrow> place \<noteq> Undeclared \<and> home (p_fs p' # p_prev p') (nat (e_info v')) = place
     | VCONST \<Rightarrow> (\<exists>k. place = Constant k (nat (e_info v')))
     | k \<Rightarrow> k = VVOID \<and> place = Undeclared)"
proof -
  let ?c = "fs_ls (p_fs p)"
  have "singleVarAux (p_fs p) n v True (p_fs p # p_prev p) = Inr (v', p_fs p' # p_prev p')"
    using assms(2) by (auto simp: singleVarIn_def rbind_def split: sum.splits list.splits)
  note resolved = singleVarAux_resolves [OF assms(1) this]
  note r = resolved [THEN conjunct1] resolved [THEN conjunct2, THEN conjunct1] resolved [THEN conjunct2, THEN conjunct2]
  have "place_of ?c n (p_fs p' # p_prev p') = place_of ?c n (p_fs p # p_prev p)" using r(2) by (rule place_extends)
  moreover have "fs_ls (p_fs p') = ?c" using r(2) by (auto simp: extends_def)
  moreover have "nat (e_info v') < fs_nups (p_fs p') \<Longrightarrow> home (p_fs p' # p_prev p') (nat (e_info v')) \<noteq> Undeclared"
    by (rule funcs_okD(5) [OF r(1)])
  ultimately show ?thesis using r(1,3)
    by (auto simp: Let_def simp del: place_of.simps home.simps funcs_ok.simps split: expkind.splits)
qed

text \<open>A main chunk with the local variable \<open>x\<close> in register 0, and a function in it that uses \<open>x\<close>.\<close>

definition nested :: parser where
  "nested = (let c = (init_compiler [])\<lparr>c_actvar := [\<lparr>vd_kind = VarKindReg, vd_ridx = 0, vd_pidx = 0, vd_name = [120], vd_val = VNil\<rparr>], c_nactvar := 1\<rparr> in
     \<lparr>p_fs = openFunc c 1, p_prev = [(openFunc (init_compiler []) 0)\<lparr>fs_nactvar := 1, fs_nups := 1,
        fs_Upvalues := [\<lparr>uv_Name = lit ''_ENV'', uv_InStack = True, uv_Index = 0, uv_Kind = VarKindReg\<rparr>]\<rparr>],
      p_ls = newLexState [] [], p_depth = 0\<rparr>)"

theorem name_resolution_witness:
  "\<exists>v' p'. singleVarIn [120] zero_exp nested = Some (Inr (v', p')) \<and> e_k v' = VUPVAL \<and> home (p_fs p' # p_prev p') (nat (e_info v')) = Register 1 0"
proof -
  have ok: "funcs_ok (fs_ls (p_fs nested)) (p_fs nested # p_prev nested)"
    by (simp add: nested_def Let_def openFunc_def newFuncState_def init_compiler_def func_ok_def var_of_def maxUpvalues_def)
  obtain v' p' where r: "singleVarIn [120] zero_exp nested = Some (Inr (v', p'))" "e_k v' = VUPVAL"
    by (simp add: singleVarIn_def nested_def Let_def openFunc_def newFuncState_def init_compiler_def searchUpvalue_def initVar_def markUpval_def
        newUpvalue_def alloc_upvalue_def captured_def maxUpvalues_def VarKindReg_def VarKindCTConst_def initExp_def)
  have "place_of (fs_ls (p_fs nested)) [120] (p_fs nested # p_prev nested) = Register 1 0"
    by (simp add: nested_def Let_def openFunc_def newFuncState_def init_compiler_def declared_def var_of_def VarKindReg_def VarKindCTConst_def)
  then show ?thesis using r name_resolution [OF ok r(1)] by (auto simp: Let_def)
qed

end
