(* ===== verification/BaseLib.thy ===== *)
theory BaseLib
  imports Execute Parser
begin

text \<open>
  The base library (lbaselib.go, the loading functions of loadlib.go) with the argument helpers and the protected call of lauxlib.go and the
  access to arguments of lapi.go. A native function is a step \<open>int vm\<close> of the state of theory Metamethods that reads its arguments from the
  stack, pushes its results and returns their number, which is what \<open>precallC\<close> expects of \<open>h_gofn\<close>. Message handlers
  (\<open>xpcall\<close>), finalizers, the collector's switches, \<open>warn\<close> and the opening of files are left out.
\<close>

subsection \<open>Arguments and results\<close>

text \<open>
  What the library uses of the rest: the parameters of the compiler and the loading from a reader function, which runs the compiler and Lua code
  by turns; how a native function is named at its call site and among the loaded modules
  (lauxlib.go over ldebug.go); the address that \<open>%p\<close> prints; the closing of pending variables (\<open>runCloses\<close>, theory ToBeClosed) from
  a level on with an error; the globals and the two functions that are values of the library.
\<close>

record base_env =
  be_parse :: parse_env
  be_callName :: "VM \<Rightarrow> string \<times> string"
  be_globalName :: "VM \<Rightarrow> string"
  be_address :: "Value \<Rightarrow> string"
  be_runCloses :: "int \<Rightarrow> Value \<Rightarrow> Value vm"
  be_loadReader :: "Value \<Rightarrow> bytes \<Rightarrow> bytes \<Rightarrow> (Value + Proto) vm"
  be_globals :: Value
  be_next :: Value
  be_ipairs :: Value

definition vthrow :: "Value \<Rightarrow> 'a vm" where "vthrow v s = VRaise v s"

definition NArgs :: "int vm" where "NArgs = vbind cur_ci (\<lambda>ci. vbind top_of (\<lambda>t. vret (t - ci_base ci)))"

definition Arg :: "int \<Rightarrow> Value vm" where
  "Arg n = vbind cur_ci (\<lambda>ci. vbind top_of (\<lambda>t. let idx = ci_base ci + n - 1 in if n \<ge> 1 \<and> idx < t then reg idx else vret VNil))"

primrec push_all :: "host \<Rightarrow> Value list \<Rightarrow> unit vm" where
  "push_all H [] = vret ()"
| "push_all H (v # vs) = vseq (vpush H v) (push_all H vs)"

definition push_results :: "host \<Rightarrow> Value list \<Rightarrow> int vm" where
  "push_results H vs = vseq (push_all H vs) (vret (int (length vs)))"

primrec read_slots :: "nat \<Rightarrow> int \<Rightarrow> Value list vm" where
  "read_slots 0 i = vret []"
| "read_slots (Suc k) i = vbind (reg i) (\<lambda>v. vbind (read_slots k (i + 1)) (\<lambda>vs. vret (v # vs)))"

text \<open>\<open>make([]Value, L.top-fi)\<close> with the slots from \<open>fi\<close> to the top.\<close>

definition results_from :: "int \<Rightarrow> Value list vm" where
  "results_from fi = vbind top_of (\<lambda>t. if t < fi then vpanic else read_slots (nat (t - fi)) fi)"

definition CallValue :: "host \<Rightarrow> Value \<Rightarrow> Value list \<Rightarrow> int \<Rightarrow> Value list vm" where
  "CallValue H fn args nresults = vbind top_of (\<lambda>fi. vseq (vpush H fn) (vseq (push_all H args) (vseq (h_call H fi nresults)
     (vbind (results_from fi) (\<lambda>res. vseq (set_top fi) (vret res))))))"

text \<open>The arguments from the \<open>i\<close>-th on, \<open>k\<close> of them.\<close>

primrec args_from :: "nat \<Rightarrow> int \<Rightarrow> Value list vm" where
  "args_from 0 i = vret []"
| "args_from (Suc k) i = vbind (Arg i) (\<lambda>v. vbind (args_from k (i + 1)) (\<lambda>vs. vret (v # vs)))"

subsection \<open>Errors\<close>

definition vwhere :: "int \<Rightarrow> bytes vm" where
  "vwhere lv = vbind (vget vcis) (\<lambda>cis.
     case drop (nat lv) cis of
       [] \<Rightarrow> vret []
     | ci # _ \<Rightarrow>
         if ci_C ci then vret []
         else vbind (reg (ci_fn ci)) (\<lambda>f. vbind (vget (closure_of f)) (\<lambda>cl.
           case cl of
             Some (LuaClosure p ups) \<Rightarrow> vret (shortSrc (Source p) @ lit '':'' @ FormatInt (LineAt p (ci_savedpc ci - 1)) @ lit '': '')
           | _ \<Rightarrow> vret [])))"

definition verrorf :: "string \<Rightarrow> 'a vm" where "verrorf msg = vbind (vwhere 1) (\<lambda>w. vthrow (VString (w @ lit msg)))"

definition argError :: "base_env \<Rightarrow> int \<Rightarrow> string \<Rightarrow> 'a vm" where
  "argError E n extra = vbind (vget (be_callName E)) (\<lambda>(namewhat, name).
     let n' = (if namewhat = ''method'' then n - 1 else n) in
     if namewhat = ''method'' \<and> n' = 0 then verrorf (''calling '' @ quoted name @ '' on bad self ('' @ extra @ '')'')
     else vbind (vget (be_globalName E)) (\<lambda>g.
       let name = (if name = '''' then g else name); name = (if name = '''' then ''?'' else name) in
       verrorf (''bad argument #'' @ gostr (FormatInt n') @ '' to '' @ quoted name @ '' ('' @ extra @ '')'')))"

text \<open>A string field of a metatable.\<close>

definition string_metafield :: "host \<Rightarrow> string \<Rightarrow> Value \<Rightarrow> bytes option vm" where
  "string_metafield H k v = vbind (vget (metatableOf v)) (\<lambda>mt.
     case mt of None \<Rightarrow> vret None
     | Some m \<Rightarrow> vbind (tab_read m (rawgetStr (h_alive H) (lit k))) (\<lambda>x. vret (case x of VString s \<Rightarrow> Some s | _ \<Rightarrow> None)))"

definition argTypeName :: "host \<Rightarrow> Value \<Rightarrow> string vm" where
  "argTypeName H v = vbind (string_metafield H ''__name'' v) (\<lambda>nm.
     vret (case nm of Some s \<Rightarrow> gostr s | None \<Rightarrow> if tag v = tagLightUserData then ''light userdata'' else typeName v))"

definition typeArgError :: "base_env \<Rightarrow> host \<Rightarrow> int \<Rightarrow> string \<Rightarrow> 'a vm" where
  "typeArgError E H n want = vbind (Arg n) (\<lambda>v. vbind (argTypeName H v) (\<lambda>got. vbind NArgs (\<lambda>k.
     argError E n (want @ '' expected, got '' @ (if n > k then ''no value'' else got)))))"

definition checkAny :: "base_env \<Rightarrow> int \<Rightarrow> Value vm" where
  "checkAny E n = vbind NArgs (\<lambda>k. if n > k then argError E n ''value expected'' else Arg n)"

definition vcheckString :: "base_env \<Rightarrow> host \<Rightarrow> int \<Rightarrow> bytes vm" where
  "vcheckString E H n = vbind (Arg n) (\<lambda>v.
     case v of VString s \<Rightarrow> vret s | _ \<Rightarrow> if IsNumber v then vret (numToString (h_fmtg H) v) else typeArgError E H n ''string'')"

definition vcheckInt :: "base_env \<Rightarrow> host \<Rightarrow> int \<Rightarrow> i64 vm" where
  "vcheckInt E H n = vbind (Arg n) (\<lambda>v.
     case tointegerCvt (h_pf H) v of
       Some i \<Rightarrow> vret i
     | None \<Rightarrow> if IsNumber v then argError E n ''number has no integer representation'' else typeArgError E H n ''number'')"

definition voptInt :: "base_env \<Rightarrow> host \<Rightarrow> int \<Rightarrow> i64 \<Rightarrow> i64 vm" where
  "voptInt E H n d = vbind NArgs (\<lambda>k. vbind (Arg n) (\<lambda>v. if n > k \<or> IsNil v then vret d else vcheckInt E H n))"

definition checkTable :: "base_env \<Rightarrow> host \<Rightarrow> int \<Rightarrow> ptr vm" where
  "checkTable E H n = vbind (Arg n) (\<lambda>v. case v of VTable p \<Rightarrow> vret p | _ \<Rightarrow> typeArgError E H n ''table'')"

definition checkOption :: "base_env \<Rightarrow> host \<Rightarrow> int \<Rightarrow> bytes \<Rightarrow> bytes list \<Rightarrow> bytes vm" where
  "checkOption E H n def opts = vbind NArgs (\<lambda>k. vbind (Arg n) (\<lambda>v.
     vbind (if def \<noteq> [] \<and> (n > k \<or> IsNil v) then vret def else vcheckString E H n) (\<lambda>s.
     if s \<in> set opts then vret s else argError E n (''invalid option '' @ quoted (gostr s)))))"

subsection \<open>Values as text\<close>

definition plain_text :: "base_env \<Rightarrow> host \<Rightarrow> Value \<Rightarrow> bytes" where
  "plain_text E H v =
     (case v of
        VNil \<Rightarrow> lit ''nil'' | VTrue \<Rightarrow> lit ''true'' | VFalse \<Rightarrow> lit ''false''
      | VInt i \<Rightarrow> numToString (h_fmtg H) v | VFloat f \<Rightarrow> numToString (h_fmtg H) v
      | VString s \<Rightarrow> s
      | _ \<Rightarrow> lit (typeName v @ '': '' @ be_address E v))"

definition vtostring :: "base_env \<Rightarrow> host \<Rightarrow> Value \<Rightarrow> bytes vm" where
  "vtostring E H v = vbind (vget (metatableOf v)) (\<lambda>mt.
     vbind (case mt of None \<Rightarrow> vret VNil | Some m \<Rightarrow> tab_read m (rawgetStr (h_alive H) (lit ''__tostring''))) (\<lambda>f.
     if f \<noteq> VNil then vbind (CallValue H f [v] 1) (\<lambda>res.
       case res of
         VString s # _ \<Rightarrow> vret s
       | r # _ \<Rightarrow> if IsNumber r then vret (numToString (h_fmtg H) r) else verrorf (quoted ''__tostring'' @ '' must return a string'')
       | [] \<Rightarrow> verrorf (quoted ''__tostring'' @ '' must return a string''))
     else vbind (string_metafield H ''__name'' v) (\<lambda>nm.
       vret (case nm of
         Some s \<Rightarrow> if tag v = tagTable \<or> tag v = tagUserData then s @ lit ('': '' @ be_address E v) else plain_text E H v
       | None \<Rightarrow> plain_text E H v))))"

subsection \<open>Types, conversions and raw access\<close>

text \<open>\<open>print\<close>: the text that goes to the standard output, and the number of results.\<close>

primrec print_text :: "base_env \<Rightarrow> host \<Rightarrow> nat \<Rightarrow> int \<Rightarrow> bytes vm" where
  "print_text E H 0 i = vret []"
| "print_text E H (Suc k) i = vbind (Arg i) (\<lambda>v. vbind (vtostring E H v) (\<lambda>s. vbind (print_text E H k (i + 1)) (\<lambda>rest.
     vret ((if i > 1 then [9] else []) @ s @ rest))))"

definition basePrint :: "base_env \<Rightarrow> host \<Rightarrow> (bytes \<times> int) vm" where
  "basePrint E H = vbind NArgs (\<lambda>n. vbind (print_text E H (nat n) 1) (\<lambda>s. vret (s @ [10], 0)))"

definition baseType :: "base_env \<Rightarrow> host \<Rightarrow> int vm" where
  "baseType E H = vbind NArgs (\<lambda>n. if n < 1 then argError E 1 ''value expected''
     else vbind (Arg 1) (\<lambda>v. push_results H [VString (lit (typeName v))]))"

definition baseToString :: "base_env \<Rightarrow> host \<Rightarrow> int vm" where
  "baseToString E H = vbind (checkAny E 1) (\<lambda>v. vbind (vtostring E H v) (\<lambda>s. push_results H [VString s]))"

definition digitVal :: "byte \<Rightarrow> int" where
  "digitVal c =
     (if 48 \<le> c \<and> c \<le> 57 then uint c - 48 else if 97 \<le> c \<and> c \<le> 122 then uint c - 97 + 10
      else if 65 \<le> c \<and> c \<le> 90 then uint c - 65 + 10 else -1)"

text \<open>The digits of a numeral in a base, accumulated in \<open>int64\<close>; \<open>None\<close> at a byte that is no digit of the base.\<close>

fun base_digits :: "i64 \<Rightarrow> i64 \<Rightarrow> bytes \<Rightarrow> i64 option" where
  "base_digits b n [] = Some n"
| "base_digits b n (c # cs) =
     (let d = digitVal c in if d < 0 \<or> d \<ge> sint b then None else base_digits b (n * b + word_of_int d) cs)"

definition tonumber_base :: "i64 \<Rightarrow> bytes \<Rightarrow> Value" where
  "tonumber_base b s =
     (let s = TrimSpace s; neg = (s \<noteq> [] \<and> hd s = 45); s = (if neg \<or> (s \<noteq> [] \<and> hd s = 43) then tl s else s) in
      if s = [] then VNil
      else case base_digits b 0 s of None \<Rightarrow> VNil | Some n \<Rightarrow> VInt (if neg then - n else n))"

definition baseToNumber :: "base_env \<Rightarrow> host \<Rightarrow> int vm" where
  "baseToNumber E H = vbind NArgs (\<lambda>k. vbind (Arg 2) (\<lambda>a2.
     if k \<ge> 2 \<and> \<not> IsNil a2 then
       vbind (vcheckInt E H 2) (\<lambda>b. vbind (Arg 1) (\<lambda>a1.
         case a1 of
           VString s \<Rightarrow> if sint b < 2 \<or> sint b > 36 then argError E 2 ''base out of range'' else push_results H [tonumber_base b s]
         | _ \<Rightarrow> typeArgError E H 1 ''string''))
     else vbind (Arg 1) (\<lambda>v.
       if IsNumber v then push_results H [v]
       else case (case v of VString s \<Rightarrow> str2num (h_pf H) s | _ \<Rightarrow> None) of
         Some num \<Rightarrow> push_results H [num]
       | None \<Rightarrow> vseq (checkAny E 1) (push_results H [VNil]))))"

definition baseRawget :: "base_env \<Rightarrow> host \<Rightarrow> int vm" where
  "baseRawget E H = vbind (checkTable E H 1) (\<lambda>t. vbind (checkAny E 2) (\<lambda>k. vbind (tab_read t (rawget (h_alive H) k)) (\<lambda>v.
     push_results H [v])))"

definition baseRawset :: "base_env \<Rightarrow> host \<Rightarrow> int vm" where
  "baseRawset E H = vbind (checkTable E H 1) (\<lambda>t. vbind (checkAny E 2) (\<lambda>k.
     if IsNil k then argError E 2 ''table index is nil''
     else if (case k of VFloat f \<Rightarrow> is_nan f | _ \<Rightarrow> False) then argError E 2 ''table index is NaN''
     else vbind (checkAny E 3) (\<lambda>v. vseq (tab_write t (rawset (h_alive H) k v)) (vbind (Arg 1) (\<lambda>a. push_results H [a])))))"

definition bool_value :: "bool \<Rightarrow> Value" where "bool_value b = (if b then VTrue else VFalse)"

definition baseRawequal :: "base_env \<Rightarrow> host \<Rightarrow> int vm" where
  "baseRawequal E H = vbind (checkAny E 1) (\<lambda>a. vbind (checkAny E 2) (\<lambda>b. push_results H [bool_value (RawEqual (h_cvt H) a b)]))"

definition baseRawlen :: "base_env \<Rightarrow> host \<Rightarrow> int vm" where
  "baseRawlen E H = vbind (Arg 1) (\<lambda>v.
     case v of
       VTable p \<Rightarrow> vbind (tab_length H p) (\<lambda>n. push_results H [VInt n])
     | VString s \<Rightarrow> push_results H [VInt (of_nat (length s))]
     | _ \<Rightarrow> argError E 1 ''table or string expected'')"

definition baseSelect :: "base_env \<Rightarrow> host \<Rightarrow> int vm" where
  "baseSelect E H = vbind (Arg 1) (\<lambda>a. vbind NArgs (\<lambda>k.
     if a = VString (lit ''#'') then push_results H [VInt (word_of_int (k - 1))]
     else vbind (vcheckInt E H 1) (\<lambda>i.
       let total = k - 1; n = (if sint i < 0 then total + sint i + 1 else sint i) in
       if n < 1 then argError E 1 ''index out of range''
       else vbind (args_from (nat (total - n + 1)) (n + 1)) (push_results H))))"

subsection \<open>Traversal\<close>

definition baseNext :: "base_env \<Rightarrow> host \<Rightarrow> int vm" where
  "baseNext E H = vbind (checkTable E H 1) (\<lambda>t. vbind (Arg 2) (\<lambda>key.
     vbind (vget (\<lambda>s. next_key (h_alive H) (vtabs s t) key)) (\<lambda>r.
       case r of
         None \<Rightarrow> verrorf (''invalid key to '' @ quoted ''next'')
       | Some None \<Rightarrow> push_results H [VNil]
       | Some (Some (k, v)) \<Rightarrow> push_results H [k, v])))"

text \<open>Three results of a handler, filled up with nil.\<close>

definition three :: "Value list \<Rightarrow> Value list" where "three res = take 3 (res @ [VNil, VNil, VNil])"

definition basePairs :: "base_env \<Rightarrow> host \<Rightarrow> int vm" where
  "basePairs E H = vbind (checkAny E 1) (\<lambda>t. vbind (vget (metatableOf t)) (\<lambda>mt.
     vbind (case mt of None \<Rightarrow> vret VNil | Some m \<Rightarrow> tab_read m (rawgetStr (h_alive H) (lit ''__pairs''))) (\<lambda>f.
     if f \<noteq> VNil then vbind (CallValue H f [t] 3) (\<lambda>res. push_results H (three res))
     else vseq (checkTable E H 1) (push_results H [be_next E, t, VNil]))))"

definition baseIpairs :: "base_env \<Rightarrow> host \<Rightarrow> int vm" where
  "baseIpairs E H = vbind (checkAny E 1) (\<lambda>t. push_results H [be_ipairs E, t, VInt 0])"

definition ipairsAux :: "base_env \<Rightarrow> host \<Rightarrow> int vm" where
  "ipairsAux E H = vbind (Arg 1) (\<lambda>t. vbind (vcheckInt E H 2) (\<lambda>i0. let i = i0 + 1 in
     vbind (indexGet H (CallValue H) t (VInt i)) (\<lambda>v. if v = VNil then push_results H [VNil] else push_results H [VInt i, v])))"

subsection \<open>Metatables\<close>

text \<open>The protecting field of a metatable; \<open>refreshWeak\<close> reads the mode from the new one.\<close>

definition metafield :: "host \<Rightarrow> ptr option \<Rightarrow> string \<Rightarrow> Value vm" where
  "metafield H mt k = (case mt of None \<Rightarrow> vret VNil | Some m \<Rightarrow> tab_read m (rawgetStr (h_alive H) (lit k)))"

definition baseSetmetatable :: "base_env \<Rightarrow> host \<Rightarrow> int vm" where
  "baseSetmetatable E H = vbind (checkTable E H 1) (\<lambda>t. vbind (Arg 2) (\<lambda>mt.
     vbind (vget (\<lambda>s. meta (vtabs s t))) (\<lambda>old. vbind (metafield H old ''__metatable'') (\<lambda>protected.
     if protected \<noteq> VNil then verrorf ''cannot change a protected metatable''
     else vseq (case mt of
            VNil \<Rightarrow> tab_write t (\<lambda>tb. tb\<lparr>meta := None\<rparr>)
          | VTable m \<Rightarrow> tab_write t (\<lambda>tb. tb\<lparr>meta := Some m\<rparr>)
          | _ \<Rightarrow> argError E 2 ''nil or table expected'')
        (vbind (metafield H (case mt of VTable m \<Rightarrow> Some m | _ \<Rightarrow> None) ''__mode'') (\<lambda>mv.
           vseq (tab_write t (refreshWeak (h_alive H) mv)) (vbind (Arg 1) (\<lambda>a. push_results H [a]))))))))"

definition baseGetmetatable :: "base_env \<Rightarrow> host \<Rightarrow> int vm" where
  "baseGetmetatable E H = vbind (checkAny E 1) (\<lambda>v. vbind (vget (metatableOf v)) (\<lambda>mt.
     case mt of
       None \<Rightarrow> push_results H [VNil]
     | Some m \<Rightarrow> vbind (metafield H mt ''__metatable'') (\<lambda>protected.
         push_results H [if protected \<noteq> VNil then protected else VTable m])))"

subsection \<open>Errors and protected calls\<close>

definition baseAssert :: "base_env \<Rightarrow> host \<Rightarrow> int vm" where
  "baseAssert E H = vbind (checkAny E 1) (\<lambda>v. vbind NArgs (\<lambda>n.
     if IsFalsy v then
       (if n \<ge> 2 then vbind (Arg 2) (\<lambda>msg. case msg of
            VString s \<Rightarrow> vbind (vwhere 1) (\<lambda>w. vthrow (VString (w @ s)))
          | _ \<Rightarrow> vthrow msg)
        else verrorf ''assertion failed!'')
     else vbind (args_from (nat n) 1) (push_results H)))"

definition baseError :: "base_env \<Rightarrow> host \<Rightarrow> int vm" where
  "baseError E H = vbind (Arg 1) (\<lambda>v. vbind (voptInt E H 2 1) (\<lambda>lv.
     case v of
       VString s \<Rightarrow> if sint lv > 0 then vbind (vwhere (sint lv)) (\<lambda>w. vthrow (VString (w @ s))) else vthrow v
     | _ \<Rightarrow> vthrow v))"

text \<open>
  \<open>protect\<close>: the results of the call, or the error after the unwinding. A Go panic that is no Lua error goes on, as it does by default. The
  chain of frames is the one before the call again.
\<close>

definition unwind :: "base_env \<Rightarrow> int \<Rightarrow> callInfo list \<Rightarrow> nat \<Rightarrow> Value \<Rightarrow> Value vm" where
  "unwind E fi frames ntbc e = vseq (on_thread (closeUpvals fi)) (vseq (vmod (\<lambda>s. s\<lparr>vcis := frames\<rparr>))
     (vbind (vget (\<lambda>s. ntbc < length (tbc (vl s)))) (\<lambda>pending.
      vbind (if pending then
               vbind (be_runCloses E fi e) (\<lambda>e. vseq (vmod (\<lambda>s. s\<lparr>vl := (vl s)\<lparr>tbc := take ntbc (tbc (vl s))\<rparr>\<rparr>)) (vret e))
             else vret e) (\<lambda>e.
      vseq (vmod (\<lambda>s. s\<lparr>vcis := frames\<rparr>)) (vseq (set_top fi) (vret e))))))"

definition protect :: "base_env \<Rightarrow> host \<Rightarrow> Value \<Rightarrow> Value list \<Rightarrow> (Value + Value list) vm" where
  "protect E H fn args s =
     (case CallValue H fn args multRet s of
        VRet res s' \<Rightarrow> VRet (Inr res) s'
      | VRaise e s' \<Rightarrow> vbind (unwind E (int (ltop (vl s))) (vcis s) (length (tbc (vl s))) e) (\<lambda>e. vret (Inl e)) s'
      | VSignal g s' \<Rightarrow> VSignal g s'
      | VPanic \<Rightarrow> VPanic
      | VDiv \<Rightarrow> VDiv)"

definition basePcall :: "base_env \<Rightarrow> host \<Rightarrow> int vm" where
  "basePcall E H = vbind NArgs (\<lambda>n. if n < 1 then argError E 1 ''value expected''
     else vbind (Arg 1) (\<lambda>f. vbind (args_from (nat (n - 1)) 2) (\<lambda>args. vbind (protect E H f args) (\<lambda>r.
       case r of Inr res \<Rightarrow> push_results H (VTrue # res) | Inl e \<Rightarrow> push_results H [VFalse, e]))))"

subsection \<open>Loading chunks\<close>

text \<open>The kinds of chunk a mode admits; the message otherwise.\<close>

definition chunkMode :: "bool \<Rightarrow> bytes \<Rightarrow> bytes option" where
  "chunkMode binary mode =
     (if binary \<and> of_char CHR ''b'' \<notin> set mode then
        Some (lit ''attempt to load a binary chunk (mode is '' @ [39] @ mode @ [39] @ lit '')'')
      else if \<not> binary \<and> of_char CHR ''t'' \<notin> set mode then
        Some (lit ''attempt to load a text chunk (mode is '' @ [39] @ mode @ [39] @ lit '')'')
      else None)"

definition undump_string :: "bytes \<Rightarrow> bytes + Proto" where
  "undump_string bs =
     (case undump bs of
        Inr (p, rest) \<Rightarrow> Inr p
      | Inl errBadBinaryChunk \<Rightarrow> Inl (lit ''malformed binary chunk'')
      | Inl errTruncated \<Rightarrow> Inl (lit ''truncated binary chunk''))"

text \<open>A compiled text: an error is its message, a Go panic goes on, and \<open>None\<close> is a loop that does not end.\<close>

definition compiled :: "Proto res option \<Rightarrow> (bytes + Proto) res option" where
  "compiled r = (case r of None \<Rightarrow> None
     | Some (Inr p) \<Rightarrow> Some (Inr (Inr p))
     | Some (Inl (CompileError msg line)) \<Rightarrow> Some (Inr (Inl (lit msg)))
     | Some (Inl e) \<Rightarrow> Some (Inl e))"

definition loadString :: "parse_env \<Rightarrow> bytes \<Rightarrow> bytes \<Rightarrow> bytes \<Rightarrow> (bytes + Proto) res option" where
  "loadString P src chunkname mode =
     (case chunkMode (isBinaryChunk src) mode of
        Some msg \<Rightarrow> Some (Inr (Inl msg))
      | None \<Rightarrow> if isBinaryChunk src then Some (Inr (undump_string src)) else compiled (compileTokens P src chunkname))"

text \<open>Files come in pieces, which are not empty; \<open>fill\<close> reads on until the buffer has \<open>n\<close> bytes.\<close>

fun fill_buf :: "nat \<Rightarrow> bytes \<Rightarrow> bytes list \<Rightarrow> bytes \<times> bytes list" where
  "fill_buf n buf [] = (buf, [])"
| "fill_buf n buf (p # ps) = (if length buf < n then fill_buf n (buf @ p) ps else (buf, p # ps))"

definition utf8BOM :: bytes where "utf8BOM = [0xEF, 0xBB, 0xBF]"

fun skip_line :: "bytes \<Rightarrow> bytes list \<Rightarrow> bytes \<times> bytes list" where
  "skip_line buf [] = (if 10 \<in> set buf then (tl (dropWhile (\<lambda>c. c \<noteq> 10) buf), []) else ([], []))"
| "skip_line buf (p # ps) = (if 10 \<in> set buf then (tl (dropWhile (\<lambda>c. c \<noteq> 10) buf), p # ps) else skip_line p ps)"

definition skipFileComment :: "bytes \<Rightarrow> bytes list \<Rightarrow> bytes \<times> bytes list" where
  "skipFileComment first ps =
     (let (buf, ps) = fill_buf (length utf8BOM) first ps;
          buf = (if take (length utf8BOM) buf = utf8BOM then drop (length utf8BOM) buf else buf);
          (buf, ps) = fill_buf 1 buf ps in
      if buf = [] \<or> hd buf \<noteq> 35 then (buf, ps)
      else let (buf, ps) = skip_line buf ps; (buf, ps) = fill_buf 1 buf ps in
        if buf \<noteq> [] \<and> hd buf = hd luaSignature then (buf, ps) else (10 # buf, ps))"

text \<open>\<open>loadDiskFile\<close> on the blocks that the file is read in.\<close>

definition loadDiskFile :: "parse_env \<Rightarrow> bytes list \<Rightarrow> bytes \<Rightarrow> bytes \<Rightarrow> (bytes + Proto) res option" where
  "loadDiskFile P blocks chunkname mode =
     (let (first, ps) = (case blocks of [] \<Rightarrow> ([], []) | b # bs \<Rightarrow> (b, bs)); (first, ps) = skipFileComment first ps in
      case chunkMode (isBinaryChunk first) mode of
        Some msg \<Rightarrow> Some (Inr (Inl msg))
      | None \<Rightarrow> if isBinaryChunk first then Some (Inr (undump_string (first @ concat ps)))
          else compiled (compileZIO P (newReaderZIO first ps) chunkname))"

text \<open>A main function: its first upvalue is the environment, any other starts as nil.\<close>

definition loadProtoEnv :: "Proto \<Rightarrow> Value \<Rightarrow> Value vm" where
  "loadProtoEnv p genv s =
     (let k = length (Upvalues p); u = length (uheap (vl s));
          ups = map (\<lambda>i. \<lparr>u_idx = -1, u_v = (if i = 0 then genv else VNil)\<rparr>) [0..<k] in
      VRet (VFunction (vclon s)) (s\<lparr>vl := (vl s)\<lparr>uheap := uheap (vl s) @ ups\<rparr>,
        vclos := (vclos s)(vclon s := LuaClosure p [u..<u + k]), vclon := vclon s + 1\<rparr>))"

definition load_result :: "host \<Rightarrow> Value \<Rightarrow> Value + Proto \<Rightarrow> int vm" where
  "load_result H genv r = (case r of
     Inl errv \<Rightarrow> push_results H [VNil, errv]
   | Inr p \<Rightarrow> vbind (loadProtoEnv p genv) (\<lambda>f. push_results H [f]))"

definition loaded :: "(bytes + Proto) res option \<Rightarrow> (Value + Proto) vm" where
  "loaded r = (case r of
     None \<Rightarrow> (\<lambda>s. VDiv)
   | Some (Inl e) \<Rightarrow> vpanic
   | Some (Inr (Inl msg)) \<Rightarrow> vret (Inl (VString msg))
   | Some (Inr (Inr p)) \<Rightarrow> vret (Inr p))"

definition baseLoad :: "base_env \<Rightarrow> host \<Rightarrow> int vm" where
  "baseLoad E H = vbind (Arg 1) (\<lambda>a1. vbind (Arg 2) (\<lambda>a2. vbind (Arg 3) (\<lambda>a3. vbind (Arg 4) (\<lambda>a4. vbind NArgs (\<lambda>n.
     let mode = (case a3 of VString s \<Rightarrow> s | _ \<Rightarrow> lit ''bt''); name = (\<lambda>d. case a2 of VString s \<Rightarrow> s | _ \<Rightarrow> d);
         genv = (if n \<ge> 4 then a4 else be_globals E) in
     case a1 of
       VString src \<Rightarrow> vbind (loaded (loadString (be_parse E) src (name src) mode)) (load_result H genv)
     | VFunction f \<Rightarrow> vbind (be_loadReader E a1 (name (lit ''=(load)'')) mode) (load_result H genv)
     | _ \<Rightarrow> typeArgError E H 1 ''string'')))))"

subsection \<open>Calls from Go\<close>

text \<open>\<open>pcall\<close> of the Go interface (ldo.go), which forgets pending variables, and the calls of a main function.\<close>

definition go_pcall :: "host \<Rightarrow> int \<Rightarrow> int \<Rightarrow> Value option vm" where
  "go_pcall H fi nresults s =
     (case h_call H fi nresults s of
        VRet u s' \<Rightarrow> VRet None s'
      | VRaise e s' \<Rightarrow> vseq (on_thread (closeUpvals fi)) (vseq (vmod (\<lambda>s'. s'\<lparr>vcis := vcis s,
           vl := (vl s')\<lparr>ltop := ltop (vl s), tbc := take (length (tbc (vl s))) (tbc (vl s'))\<rparr>\<rparr>)) (vret (Some e))) s'
      | VSignal g s' \<Rightarrow> VSignal g s'
      | VPanic \<Rightarrow> VPanic
      | VDiv \<Rightarrow> VDiv)"

definition CallProtoEnv :: "host \<Rightarrow> Proto \<Rightarrow> Value \<Rightarrow> int \<Rightarrow> (Value + Value list) vm" where
  "CallProtoEnv H p genv nresults = vbind top_of (\<lambda>fi. vbind (loadProtoEnv p genv) (\<lambda>f. vseq (vpush H f)
     (vbind (go_pcall H fi nresults) (\<lambda>err. case err of
        Some e \<Rightarrow> vseq (set_top fi) (vret (Inl e))
      | None \<Rightarrow> vbind (results_from fi) (\<lambda>res. vseq (set_top fi) (vret (Inr res)))))))"

definition DoString :: "base_env \<Rightarrow> host \<Rightarrow> bytes \<Rightarrow> bytes \<Rightarrow> (Value + Value list) vm" where
  "DoString E H src name =
     (case compiled (compileTokens (be_parse E) src name) of
        None \<Rightarrow> (\<lambda>s. VDiv)
      | Some (Inl e) \<Rightarrow> vpanic
      | Some (Inr (Inl msg)) \<Rightarrow> vret (Inl (VString msg))
      | Some (Inr (Inr p)) \<Rightarrow> CallProtoEnv H p (be_globals E) multRet)"

subsection \<open>Registration\<close>

text \<open>
  The native functions by the index that a closure of theory Metamethods has, and a machine that runs them: the library closed over itself, for the
  functions that are modelled here and are plain steps of the state (\<open>print\<close> also has an output).
\<close>

definition base_functions :: "(string \<times> (base_env \<Rightarrow> host \<Rightarrow> int vm)) list" where
  "base_functions = [(''type'', baseType), (''tostring'', baseToString), (''tonumber'', baseToNumber), (''ipairs'', baseIpairs),
     (''next'', baseNext), (''pairs'', basePairs), (''select'', baseSelect), (''rawget'', baseRawget), (''rawset'', baseRawset),
     (''rawequal'', baseRawequal), (''rawlen'', baseRawlen), (''setmetatable'', baseSetmetatable), (''getmetatable'', baseGetmetatable),
     (''assert'', baseAssert), (''error'', baseError), (''pcall'', basePcall), (''load'', baseLoad), (''ipairs_iter'', ipairsAux)]"

definition base_gofn :: "base_env \<Rightarrow> host \<Rightarrow> nat \<Rightarrow> int vm" where
  "base_gofn E H g = (if g < length base_functions then snd (base_functions ! g) E H else vpanic)"

text \<open>The host of theory Execute with the library as its native functions.\<close>

primrec lua_machine :: "base_env \<Rightarrow> host \<Rightarrow> nat \<Rightarrow> nat \<Rightarrow> host" where
  "lua_machine E H n 0 = H\<lparr>h_call := \<lambda>fi nres s. VDiv, h_gofn := \<lambda>g s. VDiv\<rparr>"
| "lua_machine E H n (Suc d) = (let M = lua_machine E H n d; N = M\<lparr>h_gofn := base_gofn E M\<rparr> in
     H\<lparr>h_call := \<lambda>fi nres. vcall N (execute N n) fi nres, h_gofn := base_gofn E M\<rparr>)"

definition register_base :: "base_env \<Rightarrow> ptr \<Rightarrow> VM \<Rightarrow> VM" where
  "register_base E g s =
     (let n = vclon s; k = length base_functions - 1 in
      s\<lparr>vclos := (\<lambda>p. if n \<le> p \<and> p < n + length base_functions then GoClosure (p - n) else vclos s p), vclon := n + length base_functions,
        vtabs := (vtabs s)(g := foldl (\<lambda>t i. rawset (\<lambda>_. True) (VString (lit (fst (base_functions ! i)))) (VFunction (n + i)) t) (vtabs s g) [0..<k])\<rparr>)"

end
