(* ===== verification/BaseProps.thy ===== *)
theory BaseProps
  imports BaseLib MetaProps
begin

text \<open>
  Properties of the base library: arguments and results of native functions, \<open>select\<close>, numerals in a base, and the first line of a file.
\<close>

subsection \<open>Arguments and results\<close>

definition native_frame :: "nat \<Rightarrow> Value list \<Rightarrow> VM \<Rightarrow> bool" where
  "native_frame b args s \<longleftrightarrow> (\<exists>ci cs. vcis s = ci # cs \<and> ci_base ci = int b) \<and> ltop (vl s) = b + length args \<and>
     ltop (vl s) \<le> length (stack (vl s)) \<and> (\<forall>i < length args. stack (vl s) ! (b + i) = args ! i)"

lemma NArgs_frame: "native_frame b args s \<Longrightarrow> NArgs s = VRet (int (length args)) s"
  by (auto simp: native_frame_def NArgs_def vbind_def cur_ci_def)

lemma Arg_frame:
  assumes "native_frame b args s"
  shows "Arg (int (Suc i)) s = VRet (if i < length args then args ! i else VNil) s"
proof -
  obtain ci cs where s: "vcis s = ci # cs" "ci_base ci = int b" "ltop (vl s) = b + length args" "ltop (vl s) \<le> length (stack (vl s))"
    "\<And>i. i < length args \<Longrightarrow> stack (vl s) ! (b + i) = args ! i" using assms by (auto simp: native_frame_def)
  have "i < length args \<Longrightarrow> reg (int b + int i) s = VRet (args ! i) s" using reg_nat [of "b + i" s] s(3-5) by simp
  then show ?thesis using s(1-4) by (auto simp: Arg_def vbind_def cur_ci_def Let_def)
qed

lemma args_from_frame:
  assumes "native_frame b args s"
  shows "i + k \<le> length args \<Longrightarrow> args_from k (int (Suc i)) s = VRet (take k (drop i args)) s"
proof (induction k arbitrary: i)
  case (Suc k)
  have next_arg: "int (Suc i) + 1 = int (Suc (Suc i))" by simp
  have "args_from (Suc k) (int (Suc i)) s = VRet (args ! i # take k (drop (Suc i) args)) s"
    using Suc.IH [of "Suc i"] Suc.prems Arg_frame [OF assms, of i] by (simp add: vbind_def next_arg del: of_nat_Suc)
  then show ?case using Suc.prems by (simp add: Cons_nth_drop_Suc [symmetric, of i args])
qed simp

text \<open>The effect of pushing values on a state, whose stack may have grown.\<close>

definition pushed :: "Value list \<Rightarrow> VM \<Rightarrow> VM \<Rightarrow> bool" where
  "pushed vs s s' \<longleftrightarrow> (\<exists>k. ltop (vl s) + length vs \<le> length (stack (vl s)) + k \<and>
     s' = with_top (with_stack s (overwrite (stack (vl s) @ replicate k VNil) (ltop (vl s)) vs)) (ltop (vl s) + length vs))"

lemma vl_with [simp]: "vl (with_stack s st) = (vl s)\<lparr>stack := st\<rparr>" "vl (with_top s t) = (vl s)\<lparr>ltop := t\<rparr>"
  by (simp_all add: with_stack_def with_top_def)

lemma vpush_room:
  assumes "room (Suc n) (vl s)"
  obtains s' where "vpush H v s = VRet () s'" "pushed [v] s s'" "room n (vl s')"
proof -
  have "stack_ok (vl s)" using assms by (simp add: room_def)
  then show ?thesis
  proof (cases rule: checkstack_cases [of "vl s" 1])
    case (fails msg)
    then show ?thesis using assms by (auto simp: room_def checkstack_def Let_def split: if_splits option.splits)
  next
    case (grows l)
    then obtain k where k: "l = (vl s)\<lparr>stack := stack (vl s) @ replicate k VNil\<rparr>" "Suc (ltop (vl s)) \<le> length (stack (vl s)) + k"
      by (auto simp: grown_def)
    let ?s = "with_top (with_stack s (overwrite (stack (vl s) @ replicate k VNil) (ltop (vl s)) [v])) (Suc (ltop (vl s)))"
    have "vpush H v s = VRet () ?s" using grows(1) k
      by (simp add: vpush_def push_def stack_set_def with_top_def with_stack_def overwrite_def upd_conv_take_nth_drop)
    moreover have "pushed [v] s ?s" using k(2) by (auto simp: pushed_def intro!: exI [of _ k])
    moreover have "room n (vl ?s)" using assms grows(2) k by (auto simp: room_def stack_ok_def)
    ultimately show ?thesis by (rule that)
  qed
qed

lemma overwrite_grown:
  assumes "Suc t \<le> length st + k" "Suc t + length vs \<le> length st + k + j"
  shows "overwrite (overwrite (st @ replicate k VNil) t [v] @ replicate j VNil) (Suc t) vs = overwrite (st @ replicate (k + j) VNil) t (v # vs)"
  using assms by (intro nth_equalityI) (auto simp: nth_overwrite nth_append nth_Cons')

lemma pushed_Cons:
  assumes "pushed [v] s s1" "pushed vs s1 s2"
  shows "pushed (v # vs) s s2"
proof -
  obtain k where k: "Suc (ltop (vl s)) \<le> length (stack (vl s)) + k"
    "s1 = with_top (with_stack s (overwrite (stack (vl s) @ replicate k VNil) (ltop (vl s)) [v])) (Suc (ltop (vl s)))"
    using assms(1) by (auto simp: pushed_def)
  obtain j where j: "ltop (vl s1) + length vs \<le> length (stack (vl s1)) + j"
    "s2 = with_top (with_stack s1 (overwrite (stack (vl s1) @ replicate j VNil) (ltop (vl s1)) vs)) (ltop (vl s1) + length vs)"
    using assms(2) by (auto simp: pushed_def)
  have le: "Suc (ltop (vl s)) + length vs \<le> length (stack (vl s)) + k + j" using j(1) k by simp
  show ?thesis unfolding pushed_def
    by (rule exI [of _ "k + j"]) (use le k(1) in \<open>simp add: j(2) k(2) overwrite_grown [OF k(1) le]\<close>)
qed

lemma push_all_room:
  "room (length vs) (vl s) \<Longrightarrow> ltop (vl s) \<le> length (stack (vl s)) \<Longrightarrow> \<exists>s'. push_all H vs s = VRet () s' \<and> pushed vs s s'"
proof (induction vs arbitrary: s)
  case Nil
  then show ?case by (auto simp: pushed_def with_top_def intro!: exI [of _ "0::nat"])
next
  case (Cons v vs)
  then have r: "room (Suc (length vs)) (vl s)" by simp
  obtain s1 where s1: "vpush H v s = VRet () s1" "pushed [v] s s1" "room (length vs) (vl s1)" using vpush_room [OF r] by metis
  have "ltop (vl s1) \<le> length (stack (vl s1))" using s1(2) by (auto simp: pushed_def)
  then obtain s2 where "push_all H vs s1 = VRet () s2" "pushed vs s1 s2" using Cons.IH s1(3) by blast
  then show ?case using s1 pushed_Cons [OF s1(2)] by (auto simp: vbind_step)
qed

lemma push_results_room:
  "room (length vs) (vl s) \<Longrightarrow> ltop (vl s) \<le> length (stack (vl s)) \<Longrightarrow>
    \<exists>s'. push_results H vs s = VRet (int (length vs)) s' \<and> pushed vs s s'"
  using push_all_room [of vs s H] by (auto simp: push_results_def vbind_step)

text \<open>The results of a native function: the number it returns and as many values on top of the stack.\<close>

definition results :: "nat \<Rightarrow> VM \<Rightarrow> Value list" where
  "results n s = take n (drop (ltop (vl s) - n) (stack (vl s)))"

lemma pushed_results: "pushed vs s s' \<Longrightarrow> results (length vs) s' = vs \<and> vcis s' = vcis s \<and> vtabs s' = vtabs s"
  by (auto simp: pushed_def results_def overwrite_def with_stack_def with_top_def min_def)

subsection \<open>\<open>select\<close>\<close>

text \<open>The arguments that \<open>select(n, ...)\<close> passes on: from the \<open>n\<close>-th on, or the last \<open>-n\<close>.\<close>

definition selected :: "int \<Rightarrow> Value list \<Rightarrow> Value list" where
  "selected n vs = (if n < 0 then drop (length vs - nat (- n)) vs else drop (nat n - 1) vs)"

lemma room_mono: "room n l \<Longrightarrow> m \<le> n \<Longrightarrow> room m l" by (simp add: room_def)

lemma frame_top: "native_frame b args s \<Longrightarrow> ltop (vl s) \<le> length (stack (vl s))" by (simp add: native_frame_def)

lemma vcheckInt_frame:
  assumes "native_frame b args s" "i < length args" "args ! i = VInt n"
  shows "vcheckInt E H (int (Suc i)) s = VRet n s"
  using Arg_frame [OF assms(1), of i] assms(2,3) by (simp add: vcheckInt_def vbind_def tointegerCvt_def del: of_nat_Suc)

text \<open>
  \<open>select(n, ...)\<close> returns the arguments behind \<open>n\<close> from the \<open>n\<close>-th on, in order, and for a negative \<open>n\<close> the last ones.
\<close>

lemma select_results:
  assumes "native_frame b (VInt n # args) s" "room (length args) (vl s)" "sint n \<noteq> 0" "- int (length args) \<le> sint n"
  shows "\<exists>s'. baseSelect E H s = VRet (int (length (selected (sint n) args))) s' \<and> results (length (selected (sint n) args)) s' = selected (sint n) args"
proof -
  let ?res = "selected (sint n) args" and ?total = "int (length args)"
  let ?n = "if sint n < 0 then ?total + sint n + 1 else sint n"
  have n: "1 \<le> ?n" using assms(3,4) by auto
  define i where "i = nat ?n"
  have i: "?n = int i" "1 \<le> i" using n by (simp_all add: i_def)
  have len: "nat (?total - int i + 1) = length args - (i - 1)" using i by simp
  have res: "drop i (VInt n # args) = ?res" using i assms(4) by (cases i) (auto simp: selected_def i_def nat_diff_distrib' split: if_splits intro!: arg_cong [of _ _ "\<lambda>k. drop k args"])
  have args: "args_from (nat (?total - ?n + 1)) (?n + 1) s = VRet ?res s"
  proof (cases "i \<le> length args")
    case True
    have "args_from (length args - (i - 1)) (int (Suc i)) s = VRet (take (length args - (i - 1)) (drop i (VInt n # args))) s"
      using True i(2) by (intro args_from_frame [OF assms(1)]) simp
    moreover have "length ?res = length args - (i - 1)" using i(2) True by (simp add: res [symmetric])
    ultimately show ?thesis unfolding i(1) len by (simp add: res add.commute)
  next
    case False
    then have "?res = []" by (simp add: res [symmetric])
    then show ?thesis using False unfolding i(1) len by simp
  qed
  have "length ?res \<le> length args" by (simp add: selected_def)
  then obtain s' where s': "push_results H ?res s = VRet (int (length ?res)) s'" "pushed ?res s s'"
    using push_results_room [of ?res s H] room_mono [OF assms(2)] frame_top [OF assms(1)] by blast
  have "baseSelect E H s = push_results H ?res s"
    using Arg_frame [OF assms(1), of 0] NArgs_frame [OF assms(1)] vcheckInt_frame [OF assms(1), of 0 n E H] args n
    by (cases "sint n < 0") (simp_all add: baseSelect_def vbind_def Let_def algebra_simps)
  then show ?thesis using s' pushed_results [OF s'(2)] by simp
qed

subsection \<open>Numerals in a base\<close>

definition base_value :: "int \<Rightarrow> bytes \<Rightarrow> int" where "base_value b s = foldl (\<lambda>a c. a * b + digitVal c) 0 s"

lemma base_digits_value:
  "\<forall>c \<in> set s. 0 \<le> digitVal c \<and> digitVal c < sint b \<Longrightarrow>
    base_digits b (word_of_int a) s = Some (word_of_int (foldl (\<lambda>a c. a * sint b + digitVal c) a s))"
proof (induction s arbitrary: a)
  case (Cons c s)
  have "word_of_int a * b + word_of_int (digitVal c) = (word_of_int (a * sint b + digitVal c) :: i64)" by simp
  then show ?case using Cons by (simp add: Let_def del: wi_hom_syms of_int_add of_int_mult)
qed simp

lemma base_digits_None: "c \<in> set s \<Longrightarrow> \<not> (0 \<le> digitVal c \<and> digitVal c < sint b) \<Longrightarrow> base_digits b n s = None"
  by (induction s arbitrary: n) (auto simp: Let_def)

lemma digit_no_space:
  assumes "0 \<le> digitVal c"
  shows "list_all (\<lambda>e. e \<noteq> [] \<and> hd e \<noteq> c) space_encodings" "list_all (\<lambda>e. e \<noteq> [] \<and> hd e \<noteq> c) (map rev space_encodings)" "c \<noteq> 43" "c \<noteq> 45"
  using assms by (auto simp: space_encodings_def digitVal_def split: if_splits)

lemma TrimSpace_digits: "s \<noteq> [] \<Longrightarrow> (0 \<le> digitVal (hd s) \<or> hd s = 45) \<Longrightarrow> 0 \<le> digitVal (last s) \<Longrightarrow> TrimSpace s = s"
  using numeral_char_no_space [of 45] by (auto simp: TrimSpace_def strip_left_id digit_no_space hd_rev numeral_char_def)

text \<open>
  \<open>tonumber(s, b)\<close> gives the value of the numeral \<open>s\<close> in base \<open>b\<close>, wrapped around to 64 bits, with the sign in front, and nil when a
  byte is no digit of the base.
\<close>

lemma numerals_in_base:
  assumes "s \<noteq> []" "\<forall>c \<in> set s. 0 \<le> digitVal c \<and> digitVal c < 36"
  shows "tonumber_base b s = (if \<forall>c \<in> set s. digitVal c < sint b then VInt (word_of_int (base_value (sint b) s)) else VNil) \<and>
    tonumber_base b (45 # s) = (if \<forall>c \<in> set s. digitVal c < sint b then VInt (word_of_int (- base_value (sint b) s)) else VNil)"
proof -
  have trim: "TrimSpace s = s" "TrimSpace (45 # s) = 45 # s" using assms by (auto intro!: TrimSpace_digits)
  have first: "hd s \<noteq> 43" "hd s \<noteq> 45" using assms digit_no_space(3,4) [of "hd s"] by auto
  have "base_digits b 0 s = (if \<forall>c \<in> set s. digitVal c < sint b then Some (word_of_int (base_value (sint b) s)) else None)"
    using assms base_digits_value [of s b 0] base_digits_None [of _ s b 0] by (auto simp: base_value_def)
  then show ?thesis using trim first assms(1) by (simp add: tonumber_base_def Let_def)
qed

lemma numerals_in_base_witness:
  "tonumber_base 16 (lit ''ff'') = VInt 255 \<and> tonumber_base 2 (lit ''12'') = VNil \<and> tonumber_base 36 (45 # lit ''Zz'') = VInt (- 1295)"
proof -
  have "tonumber_base 16 (lit ''ff'') = VInt 255" using numerals_in_base [of "lit ''ff''" 16] by (simp add: lit_def base_value_def digitVal_def)
  moreover have "tonumber_base 2 (lit ''12'') = VNil" using numerals_in_base [of "lit ''12''" 2] by (simp add: lit_def base_value_def digitVal_def)
  moreover have "tonumber_base 36 (45 # lit ''Zz'') = VInt (- 1295)" using numerals_in_base [of "lit ''Zz''" 36] by (simp add: lit_def base_value_def digitVal_def)
  ultimately show ?thesis by blast
qed

subsection \<open>The first line of a file\<close>

text \<open>
  What the compiler sees of the text of a file: without a byte order mark and without a first line that starts with \<open>#\<close>, of which the end stays
  unless a precompiled chunk follows.
\<close>

definition file_text :: "bytes \<Rightarrow> bytes" where
  "file_text t =
     (let t = (if take 3 t = utf8BOM then drop 3 t else t) in
      if t = [] \<or> hd t \<noteq> 35 then t
      else let r = drop 1 (dropWhile (\<lambda>c. c \<noteq> 10) t) in if isBinaryChunk r then r else 10 # r)"

lemma fill_buf_stream:
  assumes "fill_buf n buf ps = (b, rest)"
  shows "b @ concat rest = buf @ concat ps" "take n (b @ concat rest) = take n b" "(\<forall>p \<in> set ps. p \<noteq> []) \<Longrightarrow> \<forall>p \<in> set rest. p \<noteq> []"
  using assms by (induction n buf ps rule: fill_buf.induct) (auto split: if_splits)

lemma no_newline: "10 \<notin> set buf \<Longrightarrow> dropWhile (\<lambda>c. c \<noteq> (10 :: byte)) buf = []"
  by (auto simp: dropWhile_eq_Nil_conv)

lemma skip_line_stream:
  assumes "skip_line buf ps = (b, rest)"
  shows "b @ concat rest = drop 1 (dropWhile (\<lambda>c. c \<noteq> 10) (buf @ concat ps))" "(\<forall>p \<in> set ps. p \<noteq> []) \<Longrightarrow> \<forall>p \<in> set rest. p \<noteq> []"
  using assms by (induction buf ps rule: skip_line.induct)
    (auto split: if_splits simp: dropWhile_append drop_Suc no_newline tl_append2 dropWhile_eq_Nil_conv)

text \<open>The buffered reads take nothing away from the stream that is left.\<close>

lemma skip_stream:
  assumes "\<forall>p \<in> set ps. p \<noteq> []" "skipFileComment b ps = (first, rest)"
  shows "first @ concat rest = file_text (b @ concat ps)" "\<forall>p \<in> set rest. p \<noteq> []"
proof -
  obtain b1 ps1 where 1: "fill_buf (length utf8BOM) b ps = (b1, ps1)" by fastforce
  define t where "t = b @ concat ps"
  define b2 where "b2 = (if take (length utf8BOM) b1 = utf8BOM then drop (length utf8BOM) b1 else b1)"
  obtain b3 ps3 where 3: "fill_buf 1 b2 ps1 = (b3, ps3)" by fastforce
  obtain b4 ps4 where 4: "skip_line b3 ps3 = (b4, ps4)" by fastforce
  obtain b5 ps5 where 5: "fill_buf 1 b4 ps4 = (b5, ps5)" by fastforce
  have result: "(first, rest) = (if b3 = [] \<or> hd b3 \<noteq> 35 then (b3, ps3) else if b5 \<noteq> [] \<and> hd b5 = hd luaSignature then (b5, ps5) else (10 # b5, ps5))"
    using assms(2) 1 3 4 5 unfolding skipFileComment_def Let_def b2_def [symmetric]
    by (auto simp: b2_def [symmetric] split: if_splits)
  note pieces = fill_buf_stream(3) [OF 1 assms(1)]
  have "\<forall>p \<in> set ps3. p \<noteq> []" by (rule fill_buf_stream(3) [OF 3 pieces])
  moreover have "\<forall>p \<in> set ps5. p \<noteq> []" by (rule fill_buf_stream(3) [OF 5 skip_line_stream(2) [OF 4 fill_buf_stream(3) [OF 3 pieces]]])
  ultimately show "\<forall>p \<in> set rest. p \<noteq> []" using result by (auto split: if_splits)
  define u where "u = (if take 3 t = utf8BOM then drop 3 t else t)"
  have bom: "length utf8BOM = 3" by (simp add: utf8BOM_def)
  have same: "b1 @ concat ps1 = t" "take 3 t = take 3 b1" using fill_buf_stream(1,2) [OF 1] by (simp_all add: t_def bom)
  have "b2 @ concat ps1 = u"
  proof (cases "take 3 b1 = utf8BOM")
    case True
    then have "3 \<le> length b1" using bom by (metis length_take min.cobounded1)
    then show ?thesis using True same by (simp add: b2_def u_def bom flip: same(1))
  qed (use same in \<open>simp add: b2_def u_def bom\<close>)
  then have u: "b3 @ concat ps3 = u" "take 1 u = take 1 b3" using fill_buf_stream(1,2) [OF 3] by simp_all
  have front: "(b3 = [] \<or> hd b3 \<noteq> 35) = (u = [] \<or> hd u \<noteq> 35)" using u by (cases b3; cases u) auto
  define r where "r = drop 1 (dropWhile (\<lambda>c. c \<noteq> 10) u)"
  have r: "b5 @ concat ps5 = r" "take 1 r = take 1 b5" using fill_buf_stream(1,2) [OF 5] skip_line_stream(1) [OF 4] u(1) by (simp_all add: r_def)
  have bin: "(b5 \<noteq> [] \<and> hd b5 = hd luaSignature) = isBinaryChunk r" using r by (cases b5; cases r) (auto simp: isBinaryChunk_def luaSignature_def)
  have "file_text t = (if u = [] \<or> hd u \<noteq> 35 then u else if isBinaryChunk r then r else 10 # r)"
    by (simp add: file_text_def Let_def u_def r_def)
  then show "first @ concat rest = file_text (b @ concat ps)"
    using result u(1) r(1) unfolding front bin t_def [symmetric] by (auto split: if_splits)
qed

lemma split_newline: "(10 :: byte) \<in> set u \<Longrightarrow> u = takeWhile (\<lambda>c. c \<noteq> 10) u @ 10 # drop 1 (dropWhile (\<lambda>c. c \<noteq> 10) u)"
  by (induction u) auto

text \<open>The end of the comment line stays, so that the lines keep their numbers.\<close>

lemma file_text_lines:
  assumes "10 \<in> set t" "\<not> isBinaryChunk (file_text t)"
  shows "count_list (file_text t) 10 = count_list t 10"
proof -
  define u where "u = (if take 3 t = utf8BOM then drop 3 t else t)"
  define r where "r = drop 1 (dropWhile (\<lambda>c. c \<noteq> 10) u)"
  have lines: "count_list u 10 = count_list t 10"
  proof (cases "take 3 t = utf8BOM")
    case True
    then have "count_list t 10 = count_list utf8BOM 10 + count_list u 10"
      by (subst append_take_drop_id [of 3 t, symmetric], subst count_list_append) (simp add: u_def)
    then show ?thesis by (simp add: utf8BOM_def)
  qed (simp add: u_def)
  then have "10 \<in> set u" using assms(1) by (metis count_list_0_iff)
  then have "u = takeWhile (\<lambda>c. c \<noteq> 10) u @ 10 # r" using split_newline [of u] by (simp add: r_def)
  moreover have "count_list (takeWhile (\<lambda>c. c \<noteq> 10) u) 10 = 0" by (auto simp: count_list_0_iff dest: set_takeWhileD)
  ultimately have "count_list (10 # r) 10 = count_list u 10" by (metis add_0 count_list_append)
  moreover have "file_text t = (if u = [] \<or> hd u \<noteq> 35 then u else if isBinaryChunk r then r else 10 # r)"
    by (simp add: file_text_def Let_def u_def r_def)
  ultimately show ?thesis using assms(2) lines by (auto split: if_splits)
qed

text \<open>
  C40: however the pieces of a file are cut, the stream that the compiler reads is that of the whole text without the byte order mark
  and without a first line that starts with \<open>#\<close>; of that line the end stays in a source text, so the lines keep their numbers, and
  nothing stays in front of a precompiled chunk.
\<close>

theorem file_text_streamed:
  assumes "\<forall>p \<in> set ps. p \<noteq> []" "skipFileComment b ps = (first, rest)"
  shows "zio_bytes (newReaderZIO first rest) = file_text (b @ concat ps) \<and>
    (10 \<in> set (b @ concat ps) \<and> \<not> isBinaryChunk (file_text (b @ concat ps)) \<longrightarrow>
     count_list (file_text (b @ concat ps)) 10 = count_list (b @ concat ps) 10)"
proof -
  have "takeWhile (\<lambda>p. p \<noteq> []) rest = rest" using skip_stream(2) [OF assms] by (auto simp: takeWhile_eq_all_conv)
  then have "zio_bytes (newReaderZIO first rest) = first @ concat rest" by (simp only: zio_bytes_reader)
  then show ?thesis using skip_stream(1) [OF assms] file_text_lines by metis
qed

text \<open>A script whose first line is cut in the middle of the mark and of the comment.\<close>

theorem file_text_streamed_witness:
  "zio_bytes (newReaderZIO (fst (skipFileComment [] [[0xEF], [0xBB, 0xBF, 35], [33, 10], [120, 10]]))
      (snd (skipFileComment [] [[0xEF], [0xBB, 0xBF, 35], [33, 10], [120, 10]]))) = [10, 120, 10]"
proof -
  let ?ps = "[[0xEF], [0xBB, 0xBF, 35], [33, 10], [120, 10]] :: bytes list"
  have "file_text (concat ?ps) = [10, 120, 10]" by code_simp
  then show ?thesis using file_text_streamed [of ?ps "[]" "fst (skipFileComment [] ?ps)" "snd (skipFileComment [] ?ps)"] by simp
qed

end
