(* ===== verification/Spec2Isabelle.thy ===== *)
theory Spec2Isabelle
  imports Opcodes Numerals ForLoop TabLib TabSort Dump Utf8 Pack ToBeClosed StrFind MathLib LexSim LexQuote FoldProps MetaProps ScopeProps BaseProps
begin

text \<open>
  A verification development of luapure, an implementation of Lua 5.4 in Go that follows the structure of the reference implementation in C:
  a single-pass compiler to 32-bit instructions, a virtual machine for these, and the standard libraries. All files named here are under
  \<open>src/lua/\<close>.

  \<^bold>\<open>The program and its model.\<close> A chunk of text comes in pieces through a buffered stream (lzio.go, theory Zio); the scanner (llex.go, Lexer) makes
  tokens of it, and the parser (lparser.go, Parser) translates the tokens in one pass, without a syntax tree: it keeps the scopes, labels and
  upvalues of the functions under compilation (lparser_codegen.go, Scope) and calls the code generator (lcode.go, CodeGen), which allocates
  registers and constants, links and patches jump lists and folds constants. The result is a function prototype (lobject_proto.go), which can
  also be dumped to bytes and loaded from them (ldump.go, Codec and Dump). A closure of a prototype is run by the instruction dispatch
  (lvm_execute.go, Execute) over frames (ldo.go, Frames), with metamethods as the fallback of the operations on values (ltm.go and lvm.go,
  Metamethods), arithmetic (lvm_arith.go, Arith), comparison and loops (lvm.go, ForLoop), coercions (lobject_num.go and lobject_gc.go,
  Numerals), tables (ltable.go and lgc_weakkey.go, LuaTable), upvalues (lfunc.go, Upvalues) and the closing of variables (ldo.go, ToBeClosed).
  The libraries are the base library (lbaselib.go with the argument helpers of lauxlib.go and the loading functions of loadlib.go, BaseLib), the table library (ltablib.go, TabLib and TabSort), the string library (lstrlib.go, StrLib and LexQuote; lstrlib_pack.go,
  Pack; lstrlib_pattern.go, Pattern and StrFind), the UTF-8 library (lutf8lib.go, Utf8) and the math library (lmathlib.go, MathLib).

  \<^bold>\<open>Conventions.\<close> Go's \<open>int64\<close> is \<open>64 word\<close> where the code may wrap and \<open>int\<close> where the quantity is a size or a position that cannot
  overflow; \<open>uint32\<close> instructions are \<open>32 word\<close>; \<open>float64\<close> is its 64 bits, with comparison, rounding and arithmetic defined in
  Float64. A Go string is a list of bytes. A Lua value is the datatype \<open>Value\<close> of theory Values with a constructor per tag; an object is an
  address into a heap of the state. Every function that can fail returns a sum: \<open>Inl\<close> is a Lua error with its message or a Go panic (index out of
  range, division by zero, nil dereference), which the model never turns into a value. State is passed explicitly: \<open>parser\<close>, \<open>FuncState\<close> and
  \<open>compiler\<close> for the compiler, \<open>lexState\<close> for the scanner, \<open>LState\<close> for the stack with its upvalues, \<open>VM\<close> for a running
  thread with the heaps of tables and closures. The monads \<open>prs\<close>, \<open>gen\<close> and \<open>vm\<close> only thread this state and the errors.
  What is not code of the repository, or lies outside the model, is a parameter: what the collector has reclaimed (\<open>alive\<close>), \<open>strconv.ParseFloat\<close>
  (\<open>pf\<close>), the format \<open>%.14g\<close> (\<open>fmtg\<close>), \<open>math.Pow\<close> and the transcendental functions, native functions and the texts that error messages add;
  the virtual machine takes them in the record \<open>host\<close>, the parser in \<open>parse_env\<close>.

  \<^bold>\<open>Interfaces.\<close> A locale states what one part relies on: \<open>codec_format\<close> (Codec: a writer and a reader that undo each other; interpreted for
  every field of a prototype in Dump), \<open>index_store\<close> (IndexStore: what the table library needs of reads and writes; interpreted on raw access
  in TabLib), \<open>sub_matcher\<close> and \<open>forward_matcher\<close> (Pattern and PatternRef: what the parts of the matching engine need of the recursive call;
  interpreted on \<open>match_at\<close>), \<open>weak_order\<close> (TabSort: what sorting needs of a comparison; interpreted on numbers and on strings), \<open>replacement\<close> (StrFind: what the loop of
  \<open>gsub\<close> needs of the replacement of one match; interpreted on \<open>gsubReplace\<close>).

  \<^bold>\<open>What is proved.\<close>
  \<^item> Values and numbers: the mixed comparisons are those of the exact values, modulo and floor division are the mathematical ones, the numeric
    loop runs over the mathematical progression and ends, the type of a result follows from the operands (ForLoop, Arith).
  \<^item> Tables (TableInv, TableIter): under an invariant that every operation keeps, a read after a write is that of a map, traversal yields every pair
    once, and the length is a border.
  \<^item> Libraries: \<open>insert\<close> and \<open>move\<close> on lists, sorting with consistent and inconsistent comparisons, round trips of \<open>pack\<close>, of UTF-8 and of
    \<open>%q\<close>; the matching engine finds the first match of a reference semantics without state (PatternRef), \<open>find\<close> returns the
    leftmost one, and \<open>gsub\<close> replaces as a specification of templates, tables and functions says (StrFind); \<open>random\<close> returns the first word of
    the generator that falls into the interval after masking (MathLib); the first line of a file is skipped as documented (BaseProps).
  \<^item> Chunks (Dump): dumping and loading is the identity, a proper prefix is rejected, and the instructions of what is
    loaded are decodable at every level.
  \<^item> Compiler: scanning ends on every input and does not depend on how it is cut into pieces (LexProps, LexSim); jump lists behave as lists, the
    constant table keeps its entries, the final pass keeps the control flow (JumpLists, CodeProps), a folded constant is what the instruction would store (FoldProps); names
    are resolved by lexical scoping in any nesting of functions (ScopeProps).
  \<^item> Running: upvalues implement shared variables (Upvalues); unwinding closes every pending variable once, innermost first (ToBeClosed); returns
    and variadic calls adjust their values (FrameProps); indexing follows the chain of \<open>__index\<close> tables within its limit (MetaProps).
  \<^item> Places where the code does not do what it means to are stated as theorems as well, next to the definitions that show them.

  \<^bold>\<open>Bounds and fuel.\<close> Recursion that the code limits itself takes its fuel from the limit: \<open>match_at\<close> runs at most \<open>maxMatchDepth\<close> = 200 levels,
  as the code's counter does; \<open>load_function\<close> and \<open>dump_function\<close> run \<open>dumpMaxDepth\<close> = 200 levels; \<open>gettable\<close> and \<open>settable\<close> take
  \<open>MaxTagLoop\<close> = 2000 rounds; \<open>finaltarget\<close> 100 rounds; the parser \<open>MaxCCalls\<close> + 1 = 201 levels, one more than \<open>enterLevel\<close> lets it nest, so that the
  error comes before the fuel ends. A prepared call runs through at most as many \<open>__call\<close> handlers as the stack has slots, since each takes one
  (\<open>call_rounds\<close>). A scan of a chunk takes one token more than the chunk has bytes, which is shown to be enough. Loops over jump lists
  (\<open>last_jump\<close>, \<open>patchlistaux\<close>), the repetitions of the parser (\<open>p_iter\<close>) and the closing loop are \<open>partial_function\<close>s or proved to end, so that
  a loop without end is the value \<open>None\<close>. The machine (\<open>execute_loop\<close>, \<open>machine\<close>) takes the number of steps and of frames as an argument, because a program
  may run forever; an outcome, once there, does not depend on the number of steps (\<open>execute_loop_more\<close>).

  \<^bold>\<open>Not modelled.\<close> Coroutines (lcorolib.go) are goroutines that hand control over channels; finalizers (lgc.go) hang on the collector of Go; hooks
  and the debugger (ldo_hook.go, ldebug.go, ldblib.go, debug_session.go and the servers for debuggers) are polled between two instructions and report
  text; the files, processes and modules (liolib.go, loslib.go, the rest of loadlib.go) and the Go interface (lapi.go and its siblings,
  convert.go) are argument checks around modelled operations, the operating system, or reflection; all conversions of \<open>string.format\<close> but \<open>%q\<close> are calls of
  the package fmt. The pools that recycle frames, match states and expression descriptors are left out where their contents cannot be seen,
  and are arbitrary contents where they can.
\<close>

end
